(* ===== verification/Prelude.thy ===== *)
theory Prelude
  imports Complex_Main "HOL-Library.Word" "HOL-Library.Multiset" "HOL-Library.Sublist"
begin

text \<open>
  Shared ground of the development: the fact collections the component theories add to, decimal
  digits and their text, the truncating division of C++, and a few list facts.
\<close>

named_theorems digit_simps \<open>facts on decimal digits and their text\<close>
named_theorems num_simps \<open>facts on the decimal arithmetic of the interpreter\<close>
named_theorems gen_simps \<open>facts on the generators\<close>

section \<open>Machine integers of the source\<close>

text \<open>\<open>USHORT\<close> is a 16-bit counter; \<open>long\<close> values are mathematical integers within 64 bits.\<close>

type_synonym ushort = "16 word"

definition long_min :: int where "long_min = - (2 ^ 63)"
definition long_max :: int where "long_max = 2 ^ 63 - 1"

definition to_ushort :: "int \<Rightarrow> ushort" where
  "to_ushort i = word_of_int i"

lemma unat_to_ushort: "unat (to_ushort i) = nat (i mod 65536)"
  by (simp add: to_ushort_def unat_eq_nat_uint uint_word_of_int)

lemma unat_to_ushort_small [simp]: "0 \<le> i \<Longrightarrow> i < 65536 \<Longrightarrow> unat (to_ushort i) = nat i"
  by (simp add: unat_to_ushort)

section \<open>Division of C++\<close>

text \<open>\<open>/\<close> and \<open>%\<close> truncate towards zero; HOL's \<open>div\<close> and \<open>mod\<close> round down.\<close>

definition cdiv :: "int \<Rightarrow> int \<Rightarrow> int" where
  "cdiv a b = sgn a * sgn b * (\<bar>a\<bar> div \<bar>b\<bar>)"

definition cmod :: "int \<Rightarrow> int \<Rightarrow> int" where
  "cmod a b = a - cdiv a b * b"

lemma cdiv_cmod: "cdiv a b * b + cmod a b = a"
  by (simp add: cmod_def)

lemma cmod_eq: "cmod a b = sgn a * (\<bar>a\<bar> mod \<bar>b\<bar>)"
proof -
  have "sgn b * b = \<bar>b\<bar>" by (metis abs_sgn mult.commute)
  then have "cdiv a b * b = sgn a * (\<bar>a\<bar> div \<bar>b\<bar> * \<bar>b\<bar>)"
    by (simp add: cdiv_def algebra_simps)
  moreover have "a = sgn a * \<bar>a\<bar>" by (metis sgn_mult_abs)
  ultimately show ?thesis
    by (metis cmod_def minus_div_mult_eq_mod right_diff_distrib)
qed

lemma cmod_nonneg [simp]: "0 \<le> a \<Longrightarrow> 0 < b \<Longrightarrow> cmod a b = a mod b"
  by (auto simp: cmod_eq sgn_if)

lemma cdiv_nonneg [simp]: "0 \<le> a \<Longrightarrow> 0 < b \<Longrightarrow> cdiv a b = a div b"
  by (auto simp: cdiv_def sgn_if)

lemma cmod_bounds: "0 < b \<Longrightarrow> - b < cmod a b \<and> cmod a b < b"
  by (auto simp: cmod_eq sgn_if) (smt (verit) pos_mod_bound pos_mod_sign)+

lemma cmod_neg: "a < 0 \<Longrightarrow> 0 < b \<Longrightarrow> cmod a b = - ((- a) mod b)"
  by (simp add: cmod_eq sgn_if)

lemma div_less_int: "0 < b \<Longrightarrow> a < c * b \<Longrightarrow> a div b < (c::int)"
  by (metis linorder_not_less mult_right_mono order_le_less order_trans
      pos_mod_sign div_mult_mod_eq le_add_same_cancel1)

section \<open>Decimal digits\<close>

definition is_digit :: "char \<Rightarrow> bool" where
  "is_digit c \<longleftrightarrow> c \<in> set ''0123456789''"

definition digit_char :: "nat \<Rightarrow> char" where
  "digit_char n = ''0123456789'' ! n"

definition digit_val :: "char \<Rightarrow> nat" where
  "digit_val c = of_char c - 48"

lemma less10_cases: "n < (10::nat) \<Longrightarrow>
    n = 0 \<or> n = 1 \<or> n = 2 \<or> n = 3 \<or> n = 4 \<or> n = 5 \<or> n = 6 \<or> n = 7 \<or> n = 8 \<or> n = 9"
  by arith

lemma is_digit_cases: "is_digit c \<longleftrightarrow>
    c = CHR ''0'' \<or> c = CHR ''1'' \<or> c = CHR ''2'' \<or> c = CHR ''3'' \<or> c = CHR ''4'' \<or>
    c = CHR ''5'' \<or> c = CHR ''6'' \<or> c = CHR ''7'' \<or> c = CHR ''8'' \<or> c = CHR ''9''"
  by (auto simp: is_digit_def)

lemma digit_val_char [digit_simps]: "n < 10 \<Longrightarrow> digit_val (digit_char n) = n"
  by (drule less10_cases, elim disjE) (simp_all add: digit_val_def digit_char_def)

lemma is_digit_char [digit_simps]: "n < 10 \<Longrightarrow> is_digit (digit_char n)"
  by (drule less10_cases, elim disjE) (simp_all add: is_digit_def digit_char_def)

lemma digit_val_less [digit_simps]: "is_digit c \<Longrightarrow> digit_val c < 10"
  unfolding is_digit_cases by (elim disjE) (simp_all add: digit_val_def)

lemma digit_char_val [digit_simps]: "is_digit c \<Longrightarrow> digit_char (digit_val c) = c"
  unfolding is_digit_cases by (elim disjE) (simp_all add: digit_val_def digit_char_def)

lemma digit_char_eq_0 [digit_simps]: "n < 10 \<Longrightarrow> digit_char n = CHR ''0'' \<longleftrightarrow> n = 0"
  by (drule less10_cases, elim disjE) (simp_all add: digit_char_def)

lemma digit_not_special [digit_simps]:
  "\<not> is_digit CHR ''.''" "\<not> is_digit CHR ''-''" "\<not> is_digit CHR ''+''"
  "\<not> is_digit CHR ''e''" "\<not> is_digit CHR ''E''" "\<not> is_digit CHR '' ''"
  by (simp_all add: is_digit_def)

fun dec :: "nat \<Rightarrow> string" where
  "dec n = (if n < 10 then [digit_char n] else dec (n div 10) @ [digit_char (n mod 10)])"

declare dec.simps [simp del]

definition undec :: "string \<Rightarrow> nat" where
  "undec s = foldl (\<lambda>n c. 10 * n + digit_val c) 0 s"

lemma undec_Nil [digit_simps]: "undec [] = 0"
  by (simp add: undec_def)

lemma undec_snoc [digit_simps]: "undec (s @ [c]) = 10 * undec s + digit_val c"
  by (simp add: undec_def)

lemma undec_append [digit_simps]: "undec (s @ t) = undec s * 10 ^ length t + undec t"
proof (induction t rule: rev_induct)
  case (snoc c t)
  have "undec (s @ t @ [c]) = 10 * undec (s @ t) + digit_val c"
    using undec_snoc[of "s @ t" c] by simp
  then show ?case using snoc by (simp add: undec_snoc algebra_simps)
qed (simp add: undec_Nil)

lemma undec_zeros [digit_simps]: "undec (replicate k CHR ''0'') = 0"
  by (induction k) (simp_all add: undec_def digit_val_def)

lemma dec_small [digit_simps]: "n < 10 \<Longrightarrow> dec n = [digit_char n]"
  by (subst dec.simps) simp

lemma dec_large [digit_simps]: "10 \<le> n \<Longrightarrow> dec n = dec (n div 10) @ [digit_char (n mod 10)]"
  by (subst dec.simps) simp

lemma undec_dec [digit_simps]: "undec (dec n) = n"
proof (induction n rule: dec.induct)
  case (1 n)
  then show ?case
    by (cases "n < 10") (simp_all add: dec_small dec_large undec_snoc digit_val_char undec_def)
qed

lemma dec_nonempty [simp]: "dec n \<noteq> []"
  by (subst dec.simps) simp

lemma dec_digits [digit_simps]: "list_all is_digit (dec n)"
proof (induction n rule: dec.induct)
  case (1 n)
  then show ?case
    by (cases "n < 10") (simp_all add: dec_small dec_large is_digit_char)
qed

lemma undec_bound [digit_simps]: "list_all is_digit s \<Longrightarrow> undec s < 10 ^ length s"
proof (induction s rule: rev_induct)
  case (snoc c s)
  then have "undec s + 1 \<le> 10 ^ length s" "digit_val c < 10"
    by (auto dest: digit_val_less)
  then have "10 * undec s + digit_val c < 10 * 10 ^ length s" by linarith
  then show ?case by (simp add: undec_snoc)
qed (simp add: undec_def)

lemma dec_hd [digit_simps]: "hd (dec n) = CHR ''0'' \<longleftrightarrow> n = 0"
proof (induction n rule: dec.induct)
  case (1 n)
  then show ?case
    by (cases "n < 10") (simp_all add: dec_small dec_large digit_char_eq_0)
qed

lemma dec_last [digit_simps]: "last (dec n) = digit_char (n mod 10)"
  by (cases "n < 10") (simp_all add: dec_small dec_large)

lemma dec_lower [digit_simps]: "0 < n \<Longrightarrow> 10 ^ (length (dec n) - 1) \<le> n"
proof (induction n rule: dec.induct)
  case (1 n)
  show ?case
  proof (cases "n < 10")
    case False
    then have "10 ^ (length (dec (n div 10)) - 1) \<le> n div 10" using 1 by simp
    moreover obtain k where "length (dec (n div 10)) = Suc k"
      using dec_nonempty[of "n div 10"] by (cases "length (dec (n div 10))") auto
    ultimately show ?thesis using False by (simp add: dec_large)
  qed (use 1 in \<open>simp add: dec_small\<close>)
qed

text \<open>A number and its text determine each other when no zero leads the text.\<close>

lemma dec_undec:
  "list_all is_digit s \<Longrightarrow> s \<noteq> [] \<Longrightarrow> hd s \<noteq> CHR ''0'' \<or> length s = 1 \<Longrightarrow> dec (undec s) = s"
proof (induction s rule: rev_induct)
  case (snoc c s)
  show ?case
  proof (cases "s = []")
    case True
    with snoc.prems show ?thesis
      by (simp add: undec_def dec_small digit_val_less digit_char_val)
  next
    case False
    with snoc have IH: "dec (undec s) = s" and c: "is_digit c" by auto
    have "undec s \<noteq> 0" using IH False snoc.prems dec_hd[of "undec s"] by auto
    then have "10 \<le> undec (s @ [c])" by (simp add: undec_snoc)
    moreover have "undec (s @ [c]) div 10 = undec s" "undec (s @ [c]) mod 10 = digit_val c"
      using digit_val_less[OF c] by (simp_all add: undec_snoc)
    ultimately show ?thesis using IH c by (simp add: dec_large digit_char_val)
  qed
qed simp

section \<open>Lists\<close>

lemma takeWhile_all [simp]: "list_all P xs \<Longrightarrow> takeWhile P (xs @ c # ys) = xs @ takeWhile P (c # ys)"
  by (induction xs) auto

lemma dropWhile_all [simp]: "list_all P xs \<Longrightarrow> dropWhile P (xs @ c # ys) = dropWhile P (c # ys)"
  by (induction xs) auto

lemma list_all_takeWhile [simp]: "list_all P xs \<Longrightarrow> takeWhile P xs = xs"
  by (induction xs) auto

lemma list_all_dropWhile [simp]: "list_all P xs \<Longrightarrow> dropWhile P xs = []"
  by (induction xs) auto

lemma find_app: "find P (xs @ ys) = (case find P xs of None \<Rightarrow> find P ys | Some x \<Rightarrow> Some x)"
  by (induction xs) auto

end
