(* ===== verification/Mapm.thy ===== *)
theory Mapm
  imports Prelude "HOL-Library.Signed_Division"
begin

text \<open>
  Arbitrary precision decimal numbers (class MAPM of \<open>pgscript/utilities/m_apm\<close>) as the interpreter
  uses them: a normalised mantissa and a power of ten. The digit array of the library is the
  decimal text of the mantissa; \<open>m_apm_exponent\<close> is \<open>dexp\<close>. Addition, subtraction and
  multiplication of the library are exact; division follows \<open>mapm_div.cpp\<close>. The exponents of the
  library are C integers; here they have no bounds, so what holds of these numbers holds of the code
  as long as no exponent, and no number of digits, leaves the range of an \<open>int\<close> (the exponent of
  \<open>1E2000000000 * 1E2000000000\<close> does, and is not modelled).
\<close>

section \<open>Numbers\<close>

datatype mapm = Mapm (mant: int) (expo: int)

function mk_mapm :: "int \<Rightarrow> int \<Rightarrow> mapm" where
  "mk_mapm m e =
     (if m = 0 then Mapm 0 0
      else if m mod 10 = 0 then mk_mapm (m div 10) (e + 1) else Mapm m e)"
  by pat_completeness auto
termination
  by (relation "measure (\<lambda>(m, e). nat \<bar>m\<bar>)") auto

declare mk_mapm.simps [simp del]

fun normal :: "mapm \<Rightarrow> bool" where
  "normal (Mapm m e) = (if m = 0 then e = 0 else m mod 10 \<noteq> 0)"

fun mapm_val :: "mapm \<Rightarrow> rat" where
  "mapm_val (Mapm m e) = of_int m * 10 powi e"

lemma mk_mapm_0 [num_simps]: "mk_mapm 0 e = Mapm 0 0"
  by (simp add: mk_mapm.simps)

lemma mk_mapm_id [num_simps]: "m mod 10 \<noteq> 0 \<Longrightarrow> mk_mapm m e = Mapm m e"
  by (subst mk_mapm.simps) auto

lemma mk_mapm_step [num_simps]: "m \<noteq> 0 \<Longrightarrow> mk_mapm (m * 10) e = mk_mapm m (e + 1)"
  by (subst mk_mapm.simps) simp

lemma mk_mapm_pow [num_simps]: "m \<noteq> 0 \<Longrightarrow> mk_mapm (m * 10 ^ k) e = mk_mapm m (e + int k)"
proof (induction k arbitrary: e)
  case (Suc k)
  have "mk_mapm (m * 10 ^ Suc k) e = mk_mapm ((m * 10 ^ k) * 10) e" by (simp add: ac_simps)
  also have "\<dots> = mk_mapm (m * 10 ^ k) (e + 1)" using Suc.prems by (intro mk_mapm_step) simp
  finally show ?case using Suc by (simp add: algebra_simps)
qed simp

lemma normal_mk [num_simps]: "normal (mk_mapm m e)"
proof (induction m e rule: mk_mapm.induct)
  case (1 m e)
  then show ?case by (subst mk_mapm.simps) auto
qed

lemma powi_10_Suc: "(10::rat) powi (e + 1) = 10 * 10 powi e"
  by (simp add: power_int_add)

lemma val_mk [num_simps]: "mapm_val (mk_mapm m e) = of_int m * 10 powi e"
proof (induction m e rule: mk_mapm.induct)
  case (1 m e)
  show ?case
  proof (cases "m \<noteq> 0 \<and> m mod 10 = 0")
    case True
    then obtain k where k: "m = 10 * k" by (meson dvd_def dvd_eq_mod_eq_0)
    have "mapm_val (mk_mapm k (e + 1)) = of_int k * 10 powi (e + 1)"
      using 1 True k by simp
    then show ?thesis using True k by (subst mk_mapm.simps) (simp add: powi_10_Suc)
  qed (subst mk_mapm.simps, auto)
qed

lemma mapm_eq_mk: "normal a \<Longrightarrow> mk_mapm (mant a) (expo a) = a"
  by (cases a) (auto simp: mk_mapm_0 mk_mapm_id split: if_splits)

lemma normal_mod: "normal (Mapm m e) \<Longrightarrow> m \<noteq> 0 \<Longrightarrow> m mod 10 \<noteq> 0"
  by simp

lemma normal_unique_le:
  assumes "normal (Mapm m e)" "normal (Mapm n f)" "e \<le> f"
    and "mapm_val (Mapm m e) = mapm_val (Mapm n f)"
  shows "m = n \<and> e = f"
proof (cases "m = 0 \<or> n = 0")
  case True
  then show ?thesis using assms by (auto split: if_splits)
next
  case False
  define k where "k = nat (f - e)"
  have f: "f = e + int k" using assms by (simp add: k_def)
  have "(of_int m :: rat) * 10 powi e = of_int n * (10 ^ k * 10 powi e)"
    using assms(4) by (simp add: f power_int_add mult.commute)
  then have "(of_int m :: rat) = of_int (n * 10 ^ k)" by simp
  then have m: "m = n * 10 ^ k" using of_int_eq_iff by blast
  then have "k = 0" using assms(1) False by (cases k) auto
  with m f show ?thesis by simp
qed

text \<open>A normalised number is determined by its value.\<close>

lemma normal_unique: "normal a \<Longrightarrow> normal b \<Longrightarrow> mapm_val a = mapm_val b \<Longrightarrow> a = b"
  by (cases a; cases b; metis linear normal_unique_le)

section \<open>Exact arithmetic\<close>

definition amant :: "int \<Rightarrow> mapm \<Rightarrow> int" where
  "amant e0 a = mant a * 10 ^ nat (expo a - e0)"

definition mapm_add :: "mapm \<Rightarrow> mapm \<Rightarrow> mapm" where
  "mapm_add a b = (let e0 = min (expo a) (expo b) in mk_mapm (amant e0 a + amant e0 b) e0)"

definition mapm_sub :: "mapm \<Rightarrow> mapm \<Rightarrow> mapm" where
  "mapm_sub a b = (let e0 = min (expo a) (expo b) in mk_mapm (amant e0 a - amant e0 b) e0)"

definition mapm_mul :: "mapm \<Rightarrow> mapm \<Rightarrow> mapm" where
  "mapm_mul a b = mk_mapm (mant a * mant b) (expo a + expo b)"

definition mapm_less :: "mapm \<Rightarrow> mapm \<Rightarrow> bool" where
  "mapm_less a b = (let e0 = min (expo a) (expo b) in amant e0 a < amant e0 b)"

definition mapm_eq :: "mapm \<Rightarrow> mapm \<Rightarrow> bool" where
  "mapm_eq a b = (let e0 = min (expo a) (expo b) in amant e0 a = amant e0 b)"

definition mapm_of_int :: "int \<Rightarrow> mapm" where
  "mapm_of_int i = mk_mapm i 0"

definition mapm_zero :: mapm where "mapm_zero = Mapm 0 0"

lemma val_amant: "e0 \<le> expo a \<Longrightarrow> mapm_val a = of_int (amant e0 a) * 10 powi e0"
proof (cases a)
  case (Mapm m e)
  assume "e0 \<le> expo a"
  then have "(10::rat) powi (e - e0) = 10 ^ nat (e - e0)" using Mapm by (simp add: power_int_def)
  then have "(10::rat) powi e = 10 ^ nat (e - e0) * 10 powi e0"
    using power_int_add[of "10::rat" "e - e0" e0] by simp
  then show ?thesis using Mapm by (simp add: amant_def)
qed

lemma val_add [num_simps]: "mapm_val (mapm_add a b) = mapm_val a + mapm_val b"
  using val_amant[of "min (expo a) (expo b)" a] val_amant[of "min (expo a) (expo b)" b]
  by (simp add: mapm_add_def Let_def val_mk algebra_simps)

lemma val_sub [num_simps]: "mapm_val (mapm_sub a b) = mapm_val a - mapm_val b"
  using val_amant[of "min (expo a) (expo b)" a] val_amant[of "min (expo a) (expo b)" b]
  by (simp add: mapm_sub_def Let_def val_mk algebra_simps)

lemma val_mul [num_simps]: "mapm_val (mapm_mul a b) = mapm_val a * mapm_val b"
  by (cases a; cases b) (simp add: mapm_mul_def val_mk power_int_add)

lemma powi_10_pos [simp]: "0 < (10::rat) powi e"
  by simp

lemma less_val [num_simps]: "mapm_less a b \<longleftrightarrow> mapm_val a < mapm_val b"
  using val_amant[of "min (expo a) (expo b)" a] val_amant[of "min (expo a) (expo b)" b]
  by (simp add: mapm_less_def Let_def)

lemma eq_val [num_simps]: "mapm_eq a b \<longleftrightarrow> mapm_val a = mapm_val b"
  using val_amant[of "min (expo a) (expo b)" a] val_amant[of "min (expo a) (expo b)" b]
  by (simp add: mapm_eq_def Let_def)

lemma val_of_int [num_simps]: "mapm_val (mapm_of_int i) = of_int i"
  by (simp add: mapm_of_int_def val_mk)

lemma val_zero [num_simps]: "mapm_val mapm_zero = 0"
  by (simp add: mapm_zero_def)

lemma normal_ops [num_simps]:
  "normal (mapm_add a b)" "normal (mapm_sub a b)" "normal (mapm_mul a b)"
  "normal (mapm_of_int i)" "normal mapm_zero"
  by (simp_all add: mapm_add_def mapm_sub_def mapm_mul_def mapm_of_int_def mapm_zero_def
      Let_def normal_mk)

lemma of_int_ops [num_simps]:
  "mapm_add (mapm_of_int i) (mapm_of_int j) = mapm_of_int (i + j)"
  "mapm_sub (mapm_of_int i) (mapm_of_int j) = mapm_of_int (i - j)"
  "mapm_mul (mapm_of_int i) (mapm_of_int j) = mapm_of_int (i * j)"
  by (rule normal_unique; simp add: normal_ops num_simps)+

lemma of_int_inj [num_simps]: "mapm_of_int i = mapm_of_int j \<longleftrightarrow> i = j"
  by (metis of_int_eq_iff val_of_int)

definition mapm_is_integer :: "mapm \<Rightarrow> bool" where
  "mapm_is_integer a \<longleftrightarrow> mant a = 0 \<or> 0 \<le> expo a"

lemma is_integer_of_int:
  assumes "normal a"
  shows "mapm_is_integer a \<longleftrightarrow> (\<exists>i. a = mapm_of_int i)"
proof
  assume i: "mapm_is_integer a"
  obtain m e where a: "a = Mapm m e" by (cases a)
  show "\<exists>i. a = mapm_of_int i"
  proof (cases "m = 0")
    case True
    then have "a = mapm_of_int 0" using assms a by (simp add: mapm_of_int_def mk_mapm_0)
    then show ?thesis ..
  next
    case False
    then have "mapm_of_int (m * 10 ^ nat e) = mk_mapm m e"
      using i a by (simp add: mapm_of_int_def mk_mapm_pow mapm_is_integer_def)
    also have "\<dots> = a" using mapm_eq_mk[OF assms] a by simp
    finally show ?thesis by metis
  qed
next
  have mono: "mant (mk_mapm m e) = 0 \<or> e \<le> expo (mk_mapm m e)" for m e
  proof (induction m e rule: mk_mapm.induct)
    case (1 m e)
    then show ?case by (subst (1 2) mk_mapm.simps) (auto split: if_splits)
  qed
  assume "\<exists>i. a = mapm_of_int i"
  then show "mapm_is_integer a" using mono by (auto simp: mapm_of_int_def mapm_is_integer_def)
qed

end
