(* ===== verification/MapmDiv.thy ===== *)
theory MapmDiv
  imports Mapm
begin

text \<open>
  Division of \<open>m_apm/mapm_div.cpp\<close> and \<open>m_apm/mapm_rcp.cpp\<close>. \<open>sdivide\<close> is the Knuth division
  \<open>M_apm_sdivide\<close> by its result: the quotient cut, not rounded, to the number of digits
  \<open>iterations\<close> the code computes from the scaled operands. On it stand \<open>integer_divide\<close>,
  \<open>integer_div_rem\<close> (the operators \<open>div\<close> and \<open>%\<close> of the C++ class) and \<open>mapm_divide\<close>.
\<close>

definition ndigits :: "int \<Rightarrow> int" where
  "ndigits m = int (length (dec (nat \<bar>m\<bar>)))"

text \<open>\<open>m_apm_exponent\<close>: the number is \<open>0.ddd * 10 ^ dexp\<close>.\<close>

definition dexp :: "mapm \<Rightarrow> int" where
  "dexp a = (if mant a = 0 then 0 else ndigits (mant a) + expo a)"

text \<open>\<open>m_apm_data[0]\<close>: the first two digits of the mantissa, a missing second one being 0.\<close>

definition first_byte :: "int \<Rightarrow> int" where
  "first_byte m = (let n = nat \<bar>m\<bar>; k = length (dec n) in
     if k = 1 then 10 * int n else int (n div 10 ^ (k - 2)))"

definition floor_shift :: "int \<Rightarrow> int \<Rightarrow> int \<Rightarrow> int" where
  \<comment> \<open>the floor of \<open>(p / q) * 10 ^ s\<close>\<close>
  "floor_shift p q s = (p * 10 ^ nat s) div (q * 10 ^ nat (- s))"

definition sdivide_scale :: "mapm \<Rightarrow> int" where
  "sdivide_scale b = (if first_byte (mant b) \<ge> 50 then 1 else 100 div (first_byte (mant b) + 1))"

definition sdivide_nexp :: "mapm \<Rightarrow> mapm \<Rightarrow> int" where
  "sdivide_nexp a b =
     (ndigits (sdivide_scale b * mant a) + expo a) - (ndigits (sdivide_scale b * mant b) + expo b)"

definition sdivide_iterations :: "int \<Rightarrow> mapm \<Rightarrow> mapm \<Rightarrow> int" where
  "sdivide_iterations places a b =
     (if sdivide_nexp a b > 0 then sdivide_nexp a b + places + 1 else places + 1)"

text \<open>The exponent of the result: one more when the scaled fraction of the numerator is not less.\<close>

definition sdivide_rexp :: "mapm \<Rightarrow> mapm \<Rightarrow> int" where
  "sdivide_rexp a b =
     (let k = sdivide_scale b; A = k * \<bar>mant a\<bar>; B = k * \<bar>mant b\<bar> in
      sdivide_nexp a b + (if A * 10 ^ nat (ndigits B) \<ge> B * 10 ^ nat (ndigits A) then 1 else 0))"

definition sdivide :: "int \<Rightarrow> mapm \<Rightarrow> mapm \<Rightarrow> mapm" where
  "sdivide places a b =
     (if mant a = 0 \<or> mant b = 0 then mapm_zero
      else let s = sdivide_iterations places a b - sdivide_rexp a b in
        mk_mapm (sgn (mant a) * sgn (mant b) *
                 floor_shift \<bar>mant a\<bar> \<bar>mant b\<bar> (expo a - expo b + s)) (- s))"

definition integer_divide :: "mapm \<Rightarrow> mapm \<Rightarrow> mapm" where
  "integer_divide a b =
     (let r = sdivide 4 a b in
      if dexp r \<le> 0 then mapm_zero
      else if expo r < 0 then mk_mapm (cdiv (mant r) (10 ^ nat (- expo r))) 0 else r)"

definition integer_rem :: "mapm \<Rightarrow> mapm \<Rightarrow> mapm" where
  "integer_rem a b = mapm_sub a (mapm_mul (integer_divide a b) b)"

text \<open>
  \<open>m_apm_divide\<close>: operands of 250 digits and more go through the reciprocal, which is the
  parameter \<open>recip_divide\<close> of the model.
\<close>

definition mapm_divide ::
  "(int \<Rightarrow> mapm \<Rightarrow> mapm \<Rightarrow> mapm) \<Rightarrow> int \<Rightarrow> mapm \<Rightarrow> mapm \<Rightarrow> mapm" where
  "mapm_divide recip_divide places a b =
     (if mant a = 0 \<or> mant b = 0 then mapm_zero
      else if places < 250 then sdivide places a b
      else recip_divide places a b)"

text \<open>\<open>MAPM::digits\<close>: the precision of \<open>/\<close>, at least \<open>MM_cpp_min_precision\<close> digits.\<close>

definition mapm_digits :: "mapm \<Rightarrow> mapm \<Rightarrow> int" where
  "mapm_digits a b = max (max (ndigits (mant a)) 30) (ndigits (mant b))"

definition mapm_over ::
  "(int \<Rightarrow> mapm \<Rightarrow> mapm \<Rightarrow> mapm) \<Rightarrow> mapm \<Rightarrow> mapm \<Rightarrow> mapm" where
  "mapm_over recip_divide a b = mapm_divide recip_divide (mapm_digits a b) a b"

section \<open>Truncation towards zero\<close>

definition trunc_rat :: "rat \<Rightarrow> int" where
  "trunc_rat r = (if r < 0 then - \<lfloor>- r\<rfloor> else \<lfloor>r\<rfloor>)"

lemma floor_div: "0 < q \<Longrightarrow> \<lfloor>(of_int p :: rat) / of_int q\<rfloor> = p div q"
  by (rule floor_divide_of_int_eq)

lemma powi_split: "(10::rat) powi s = 10 ^ nat s / 10 ^ nat (- s)"
  by (cases "0 \<le> s") (simp_all add: power_int_def field_simps)

lemma floor_shift_floor:
  "0 < q \<Longrightarrow> floor_shift p q s = \<lfloor>(of_int p / of_int q) * (10::rat) powi s\<rfloor>"
proof -
  assume q: "0 < q"
  have e: "(of_int p / of_int q) * (10::rat) powi s
      = of_int (p * 10 ^ nat s) / of_int (q * 10 ^ nat (- s))"
    by (simp add: powi_split)
  have "0 < q * 10 ^ nat (- s)" using q by simp
  then have "\<lfloor>(of_int (p * 10 ^ nat s) :: rat) / of_int (q * 10 ^ nat (- s))\<rfloor>
      = p * 10 ^ nat s div (q * 10 ^ nat (- s))" by (rule floor_div)
  then show ?thesis unfolding floor_shift_def e by (rule sym)
qed

lemma floor_floor_div:
  fixes r :: rat
  assumes d: "0 < d"
  shows "\<lfloor>(of_int \<lfloor>r\<rfloor> :: rat) / of_int d\<rfloor> = \<lfloor>r / of_int d\<rfloor>"
proof (rule floor_unique)
  have "of_int \<lfloor>r / of_int d\<rfloor> * of_int d \<le> r"
    using d of_int_floor_le[of "r / of_int d"] by (simp only: pos_le_divide_eq of_int_0_less_iff)
  then have "\<lfloor>r / of_int d\<rfloor> * d \<le> \<lfloor>r\<rfloor>" by (simp add: le_floor_iff)
  then have "(of_int (\<lfloor>r / of_int d\<rfloor> * d) :: rat) \<le> of_int \<lfloor>r\<rfloor>" by (simp only: of_int_le_iff)
  then show "of_int \<lfloor>r / of_int d\<rfloor> \<le> of_int \<lfloor>r\<rfloor> / (of_int d :: rat)"
    using d by (simp add: pos_le_divide_eq)
  have "of_int \<lfloor>r\<rfloor> / of_int d \<le> r / (of_int d :: rat)"
    using d by (simp add: divide_right_mono)
  also have "\<dots> < of_int \<lfloor>r / of_int d\<rfloor> + 1" by linarith
  finally show "of_int \<lfloor>r\<rfloor> / of_int d < of_int \<lfloor>r / of_int d\<rfloor> + (1 :: rat)" .
qed

lemma floor_shift_cut:
  assumes "0 < q" "0 \<le> s"
  shows "\<lfloor>of_int (floor_shift p q (t + s)) * (10::rat) powi (- s)\<rfloor> = floor_shift p q t"
proof -
  let ?Q = "of_int p / of_int q * (10::rat) powi (t + s)"
  have p10: "(10::rat) powi (- s) = 1 / of_int (10 ^ nat s)"
    using assms by (simp add: powi_split)
  have "\<lfloor>(of_int \<lfloor>?Q\<rfloor> :: rat) / of_int (10 ^ nat s)\<rfloor> = \<lfloor>?Q / of_int (10 ^ nat s)\<rfloor>"
    by (rule floor_floor_div) simp
  moreover have "(10::rat) powi (t + s) = 10 powi t * of_int (10 ^ nat s)"
    using assms by (simp add: power_int_add powi_split[of s])
  then have "?Q / of_int (10 ^ nat s) = of_int p / of_int q * (10::rat) powi t"
    by (simp only:) simp
  ultimately show ?thesis
    by (simp only: floor_shift_floor[OF assms(1)] p10) (simp add: mult.commute)
qed

lemma ndigits_bounds:
  "m \<noteq> 0 \<Longrightarrow> 1 \<le> ndigits m \<and> 10 ^ nat (ndigits m - 1) \<le> \<bar>m\<bar> \<and> \<bar>m\<bar> < 10 ^ nat (ndigits m)"
proof -
  assume m: "m \<noteq> 0"
  let ?n = "nat \<bar>m\<bar>"
  have l: "10 ^ (length (dec ?n) - 1) \<le> ?n" by (rule dec_lower) (use m in simp)
  have u: "?n < 10 ^ length (dec ?n)"
    using undec_bound[OF dec_digits, of ?n] by (simp add: undec_dec)
  have "int (10 ^ (length (dec ?n) - 1)) \<le> int ?n" "int ?n < int (10 ^ length (dec ?n))"
    using l u by (simp_all only: of_nat_le_iff of_nat_less_iff)
  moreover have "1 \<le> length (dec ?n)" using dec_nonempty[of ?n] by (cases "dec ?n") auto
  ultimately show ?thesis by (simp add: ndigits_def nat_diff_distrib')
qed

lemma ndigits_unique:
  assumes "1 \<le> k" "10 ^ nat (k - 1) \<le> \<bar>m\<bar>" "\<bar>m\<bar> < 10 ^ nat k"
  shows "ndigits m = k"
proof -
  have m: "m \<noteq> 0" using assms(2) by (metis abs_0 not_one_le_zero one_le_power order_trans one_le_numeral)
  note b = ndigits_bounds[OF m]
  have "(10::int) ^ nat (k - 1) < 10 ^ nat (ndigits m)" using assms b by linarith
  then have "nat (k - 1) < nat (ndigits m)" using power_less_imp_less_exp[of "10::int"] by simp
  moreover have "(10::int) ^ nat (ndigits m - 1) < 10 ^ nat k" using assms b by linarith
  then have "nat (ndigits m - 1) < nat k" using power_less_imp_less_exp[of "10::int"] by simp
  ultimately show ?thesis using assms(1) b by linarith
qed

lemma ndigits_times_10: "m \<noteq> 0 \<Longrightarrow> ndigits (10 * m) = ndigits m + 1"
proof (rule ndigits_unique)
  assume m: "m \<noteq> 0"
  note b = ndigits_bounds[OF m]
  define k where "k = nat (ndigits m - 1)"
  have k: "ndigits m = int (Suc k)" using b by (simp add: k_def)
  show "1 \<le> ndigits m + 1" using b by simp
  show "10 ^ nat (ndigits m + 1 - 1) \<le> \<bar>10 * m\<bar>" "\<bar>10 * m\<bar> < 10 ^ nat (ndigits m + 1)"
    using b by (simp_all add: k nat_add_distrib abs_mult)
qed

lemma dexp_mk: "m \<noteq> 0 \<Longrightarrow> dexp (mk_mapm m e) = ndigits m + e"
proof (induction m e rule: mk_mapm.induct)
  case (1 m e)
  show ?case
  proof (cases "m mod 10 = 0")
    case True
    then obtain k where k: "m = 10 * k" by (meson dvd_def dvd_eq_mod_eq_0)
    then have "dexp (mk_mapm k (e + 1)) = ndigits k + (e + 1)" using 1 True by simp
    then show ?thesis using k 1 by (subst mk_mapm.simps) (simp add: ndigits_times_10)
  qed (use 1 in \<open>simp add: mk_mapm_id dexp_def\<close>)
qed

section \<open>Integer division truncates\<close>

lemma sdivide_scale_pos: "mant b \<noteq> 0 \<Longrightarrow> 1 \<le> sdivide_scale b"
proof -
  assume m: "mant b \<noteq> 0"
  have "0 \<le> first_byte (mant b)" by (simp add: first_byte_def Let_def)
  moreover have "1 \<le> 100 div (f + 1)" if "0 \<le> f" "f < 50" for f :: int
    using that zdiv_mono2[of 100 "f + 1" 51] by simp
  ultimately show ?thesis by (simp add: sdivide_scale_def)
qed

text \<open>The exponent the code computes for the quotient is the true one.\<close>

lemma quotient_exponent:
  assumes "mant a \<noteq> 0" "mant b \<noteq> 0"
  defines "q \<equiv> of_int \<bar>mant a\<bar> / of_int \<bar>mant b\<bar> * (10::rat) powi (expo a - expo b)"
  shows "10 powi (sdivide_rexp a b - 1) \<le> q \<and> q < 10 powi (sdivide_rexp a b)"
proof -
  define k where "k = sdivide_scale b"
  define A where "A = k * \<bar>mant a\<bar>"
  define B where "B = k * \<bar>mant b\<bar>"
  define la where "la = nat (ndigits A)"
  define lb where "lb = nat (ndigits B)"
  have k: "1 \<le> k" using sdivide_scale_pos assms by (simp add: k_def)
  have AB: "0 < A" "0 < B" using k assms by (simp_all add: A_def B_def)
  have nA: "ndigits A = ndigits (k * mant a)" "ndigits B = ndigits (k * mant b)"
    using k by (simp_all add: A_def B_def ndigits_def abs_mult)
  have bA: "1 \<le> ndigits A" "10 ^ (la - 1) \<le> A" "A < 10 ^ la"
    using ndigits_bounds[of A] AB by (auto simp: la_def nat_diff_distrib)
  have bB: "1 \<le> ndigits B" "10 ^ (lb - 1) \<le> B" "B < 10 ^ lb"
    using ndigits_bounds[of B] AB by (auto simp: lb_def nat_diff_distrib)
  have l: "ndigits A = int la" "ndigits B = int lb" "1 \<le> la" "1 \<le> lb"
    using bA bB by (auto simp: la_def lb_def)
  define d where "d = int la - int lb + expo a - expo b"
  have nexp: "sdivide_nexp a b = d"
    using l by (simp add: sdivide_nexp_def nA[symmetric] d_def flip: k_def)
  have rexp: "sdivide_rexp a b = d + (if B * 10 ^ la \<le> A * 10 ^ lb then 1 else 0)"
    using l by (simp add: sdivide_rexp_def Let_def nexp flip: k_def A_def B_def)
  have "(of_int A :: rat) / of_int B = of_int \<bar>mant a\<bar> / of_int \<bar>mant b\<bar>"
    using k by (simp add: A_def B_def)
  then have q: "q = of_int A / of_int B * 10 powi (expo a - expo b)" by (simp add: q_def)
  have pd: "(10::rat) powi d = 10 ^ la / 10 ^ lb * 10 powi (expo a - expo b)"
    by (simp add: d_def power_int_add power_int_diff)
  have pd1: "(10::rat) powi (d - 1) = 10 ^ (la - 1) / 10 ^ lb * 10 powi (expo a - expo b)"
    using l by (simp add: pd power_int_diff power_diff)
  have pd2: "(10::rat) powi (d + 1) = 10 ^ la / 10 ^ (lb - 1) * 10 powi (expo a - expo b)"
    using l by (simp add: pd power_int_add power_diff)
  have rA: "(10::rat) ^ (la - 1) \<le> of_int A" "of_int A < (10::rat) ^ la"
    using of_int_le_iff[of "10 ^ (la - 1)" A, where ?'a = rat]
      of_int_less_iff[of A "10 ^ la", where ?'a = rat] bA by simp_all
  have rB: "(10::rat) ^ (lb - 1) \<le> of_int B" "of_int B < (10::rat) ^ lb"
    using of_int_le_iff[of "10 ^ (lb - 1)" B, where ?'a = rat]
      of_int_less_iff[of B "10 ^ lb", where ?'a = rat] bB by simp_all
  have E: "0 < (10::rat) powi (expo a - expo b)" by simp
  show ?thesis
  proof (cases "B * 10 ^ la \<le> A * 10 ^ lb")
    case True
    then have "(of_int (B * 10 ^ la) :: rat) \<le> of_int (A * 10 ^ lb)" by (simp only: of_int_le_iff)
    then have "(of_int B :: rat) * 10 ^ la \<le> of_int A * 10 ^ lb" by simp
    then have "(10::rat) ^ la / 10 ^ lb \<le> of_int A / of_int B"
      using AB by (simp add: divide_le_eq le_divide_eq mult.commute)
    moreover have "(of_int A :: rat) / of_int B < 10 ^ la / 10 ^ (lb - 1)"
      using rA rB AB by (intro frac_less) auto
    ultimately have "10 powi d \<le> q \<and> q < 10 powi (d + 1)"
      unfolding q pd pd2 using E by (simp only: mult_le_cancel_right_pos mult_less_cancel_right_pos simp_thms)
    then show ?thesis using True by (simp add: rexp)
  next
    case False
    then have "(of_int (A * 10 ^ lb) :: rat) < of_int (B * 10 ^ la)" by (simp only: of_int_less_iff)
    then have "(of_int A :: rat) * 10 ^ lb < of_int B * 10 ^ la" by simp
    then have "(of_int A :: rat) / of_int B < 10 ^ la / 10 ^ lb"
      using AB by (simp add: divide_less_eq less_divide_eq mult.commute)
    moreover have "(10::rat) ^ (la - 1) / 10 ^ lb \<le> of_int A / of_int B"
      using rA rB AB by (intro frac_le) auto
    ultimately have "10 powi (d - 1) \<le> q \<and> q < 10 powi d"
      unfolding q pd pd1 using E by (simp only: mult_le_cancel_right_pos mult_less_cancel_right_pos simp_thms)
    then show ?thesis using False by (simp add: rexp)
  qed
qed


text \<open>The result of \<open>M_apm_sdivide\<close> has \<open>iterations\<close> digits and the exponent of the quotient.\<close>

lemma dexp_sdivide:
  assumes "mant a \<noteq> 0" "mant b \<noteq> 0" "1 \<le> sdivide_iterations n a b"
  shows "dexp (sdivide n a b) = sdivide_rexp a b"
proof -
  define q where "q = of_int \<bar>mant a\<bar> / of_int \<bar>mant b\<bar> * (10::rat) powi (expo a - expo b)"
  define i where "i = sdivide_iterations n a b"
  define x where "x = sdivide_rexp a b"
  define F where "F = floor_shift \<bar>mant a\<bar> \<bar>mant b\<bar> (expo a - expo b + (i - x))"
  have i: "1 \<le> i" using assms by (simp add: i_def)
  have "10 powi (x - 1) \<le> q \<and> q < 10 powi x"
    using quotient_exponent[OF assms(1,2)] by (simp add: q_def x_def)
  then have "10 powi (x - 1) * 10 powi (i - x) \<le> q * 10 powi (i - x)"
    "q * 10 powi (i - x) < 10 powi x * 10 powi (i - x)"
    by (simp_all only: mult_le_cancel_right_pos[OF powi_10_pos] mult_less_cancel_right_pos[OF powi_10_pos])
  moreover have "(10::rat) powi (x - 1) * 10 powi (i - x) = of_int (10 ^ nat (i - 1))"
    "(10::rat) powi x * 10 powi (i - x) = of_int (10 ^ nat i)"
    using i power_int_add[of "10::rat" "x - 1" "i - x"] power_int_add[of "10::rat" x "i - x"]
    by (simp_all add: powi_split)
  moreover have F: "F = \<lfloor>q * 10 powi (i - x)\<rfloor>"
    using assms(2) by (simp add: F_def floor_shift_floor q_def power_int_add mult.assoc)
  ultimately have "10 ^ nat (i - 1) \<le> F" "F < 10 ^ nat i"
    by (simp_all only: le_floor_iff floor_less_iff)
  moreover from this(1) have "0 < F" using less_le_trans[of 0 "10 ^ nat (i - 1)" F] by simp
  ultimately have "ndigits F = i" "0 < F" using i ndigits_unique[of i F] by simp_all
  moreover have "ndigits (sgn (mant a) * sgn (mant b) * F) = ndigits F"
    using assms by (simp add: ndigits_def abs_mult)
  ultimately show ?thesis
    using assms(1,2) by (simp add: sdivide_def Let_def dexp_mk sgn_eq_0_iff flip: i_def x_def F_def)
qed

lemma normal_sdivide: "normal (sdivide n a b)"
  by (simp add: sdivide_def Let_def normal_mk normal_ops)

lemma trunc_signed:
  "0 \<le> r \<Longrightarrow> sg = 1 \<or> sg = - 1 \<Longrightarrow> trunc_rat (of_int sg * r) = sg * \<lfloor>r\<rfloor>"
  by (cases "r = 0") (auto simp: trunc_rat_def)

lemma trunc_cdiv:
  assumes "0 \<le> s"
  shows "trunc_rat (of_int m * 10 powi (- s)) = cdiv m (10 ^ nat s)"
proof -
  have p: "(10::rat) powi (- s) = 1 / of_int (10 ^ nat s)" using assms by (simp add: powi_split)
  have "\<lfloor>of_int j * (10::rat) powi (- s)\<rfloor> = j div 10 ^ nat s" for j
    using floor_div[of "10 ^ nat s" j] by (simp add: p)
  then have "\<lfloor>of_int \<bar>m\<bar> * (10::rat) powi (- s)\<rfloor> = \<bar>m\<bar> div 10 ^ nat s" by this
  moreover have "0 \<le> of_int \<bar>m\<bar> * (10::rat) powi (- s)" by (simp add: p)
  moreover have "(of_int m :: rat) * 10 powi (- s)
      = of_int (if m < 0 then - 1 else 1) * (of_int \<bar>m\<bar> * 10 powi (- s))" by simp
  ultimately have "trunc_rat (of_int m * 10 powi (- s))
      = (if m < 0 then - 1 else 1) * (\<bar>m\<bar> div 10 ^ nat s)"
    using trunc_signed[of "of_int \<bar>m\<bar> * 10 powi (- s)" "if m < 0 then - 1 else 1"] by metis
  then show ?thesis by (auto simp: cdiv_def sgn_if)
qed

text \<open>Cutting a normalised number at its radix point gives its truncation.\<close>

lemma cut_fraction:
  assumes "normal r"
  shows "(if expo r < 0 then mk_mapm (cdiv (mant r) (10 ^ nat (- expo r))) 0 else r)
    = mapm_of_int (trunc_rat (mapm_val r))"
proof (cases "expo r < 0")
  case True
  then show ?thesis using trunc_cdiv[of "- expo r" "mant r"]
    by (cases r) (simp add: mapm_of_int_def)
next
  case False
  then have "mapm_is_integer r" by (simp add: mapm_is_integer_def)
  then obtain i where i: "r = mapm_of_int i" using assms is_integer_of_int by blast
  have "trunc_rat (of_int i) = i" by (simp add: trunc_rat_def)
  then show ?thesis using False i by (simp add: val_of_int)
qed

lemma trunc_small: "\<bar>r\<bar> < 1 \<Longrightarrow> trunc_rat r = 0"
  by (auto simp: trunc_rat_def floor_eq_iff)

lemma integer_divide_trunc:
  assumes "normal a" "normal b" "mapm_val b \<noteq> 0"
  shows "integer_divide a b = mapm_of_int (trunc_rat (mapm_val a / mapm_val b))"
proof (cases "mant a = 0")
  case True
  then have "mapm_val a = 0" by (cases a) simp
  moreover have "trunc_rat 0 = 0" by (simp add: trunc_rat_def)
  ultimately show ?thesis
    using True by (simp add: integer_divide_def sdivide_def mapm_zero_def dexp_def
        mapm_of_int_def mk_mapm_0)
next
  case False
  have b: "mant b \<noteq> 0" using assms(3) by (cases b) auto
  define Q where "Q = of_int \<bar>mant a\<bar> / of_int \<bar>mant b\<bar> * (10::rat) powi (expo a - expo b)"
  define sg where "sg = sgn (mant a) * sgn (mant b)"
  define x where "x = sdivide_rexp a b"
  define s where "s = sdivide_iterations 4 a b - x"
  define F where "F = floor_shift \<bar>mant a\<bar> \<bar>mant b\<bar> (expo a - expo b + s)"
  have sg: "sg = 1 \<or> sg = - 1" using False b by (auto simp: sg_def sgn_if)
  have qv: "mapm_val a / mapm_val b = of_int sg * Q"
    using False b by (cases a; cases b) (auto simp: Q_def sg_def power_int_diff sgn_if)
  have it: "1 \<le> sdivide_iterations 4 a b" by (simp add: sdivide_iterations_def)
  have r: "sdivide 4 a b = mk_mapm (sg * F) (- s)"
    using False b by (simp add: sdivide_def Let_def sg_def F_def s_def x_def)
  have dx: "dexp (sdivide 4 a b) = x" using dexp_sdivide[OF False b it] by (simp add: x_def)
  have Q: "0 \<le> Q" "Q < 10 powi x"
    using quotient_exponent[OF False b] by (simp_all add: Q_def x_def)
  show ?thesis
  proof (cases "x \<le> 0")
    case True
    then have "(10::rat) powi x \<le> 1" using power_int_increasing[of x 0 "10::rat"] by simp
    with Q sg have "trunc_rat (of_int sg * Q) = 0" by (intro trunc_small) auto
    then show ?thesis
      using True qv dx by (simp add: integer_divide_def Let_def mapm_zero_def mapm_of_int_def mk_mapm_0)
  next
    case x: False
    have "0 \<le> s" using x
      by (auto simp: s_def x_def sdivide_iterations_def sdivide_rexp_def Let_def split: if_splits)
    then have "\<lfloor>of_int F * (10::rat) powi (- s)\<rfloor> = \<lfloor>Q\<rfloor>"
      using floor_shift_cut[of "\<bar>mant b\<bar>" s "\<bar>mant a\<bar>" "expo a - expo b"] b
      by (simp add: F_def Q_def floor_shift_floor)
    moreover have "0 \<le> F"
      using b Q by (simp add: F_def floor_shift_floor)
    then have "0 \<le> of_int F * (10::rat) powi (- s)" by (intro mult_nonneg_nonneg) simp_all
    ultimately have "trunc_rat (of_int sg * (of_int F * 10 powi (- s))) = trunc_rat (of_int sg * Q)"
      using sg Q(1) by (simp only: trunc_signed)
    then have "trunc_rat (mapm_val (sdivide 4 a b)) = trunc_rat (mapm_val a / mapm_val b)"
      by (simp add: r val_mk qv mult.assoc)
    then show ?thesis
      using x dx cut_fraction[OF normal_sdivide, of 4 a b] by (simp add: integer_divide_def Let_def)
  qed
qed

text \<open>On integers the two operators are those of C++.\<close>

lemma trunc_of_int_div: "trunc_rat (of_int i / of_int j) = cdiv i j"
proof (cases "i = 0 \<or> j = 0")
  case False
  then have "of_int i / of_int j = (of_int (sgn i * sgn j) * (of_int \<bar>i\<bar> / of_int \<bar>j\<bar>) :: rat)"
    by (auto simp: sgn_if)
  moreover have "\<lfloor>of_int \<bar>i\<bar> / (of_int \<bar>j\<bar> :: rat)\<rfloor> = \<bar>i\<bar> div \<bar>j\<bar>"
    using False by (intro floor_div) simp
  moreover have "trunc_rat (of_int (sgn i * sgn j) * (of_int \<bar>i\<bar> / of_int \<bar>j\<bar>))
      = sgn i * sgn j * \<lfloor>of_int \<bar>i\<bar> / (of_int \<bar>j\<bar> :: rat)\<rfloor>"
    using False by (intro trunc_signed) (auto simp: sgn_if)
  ultimately show ?thesis by (simp only: cdiv_def)
qed (auto simp: trunc_rat_def cdiv_def)

lemma integer_divide_of_int:
  "j \<noteq> 0 \<Longrightarrow> integer_divide (mapm_of_int i) (mapm_of_int j) = mapm_of_int (cdiv i j)"
  by (simp add: integer_divide_trunc normal_ops val_of_int trunc_of_int_div)

lemma integer_rem_of_int:
  "j \<noteq> 0 \<Longrightarrow> integer_rem (mapm_of_int i) (mapm_of_int j) = mapm_of_int (cmod i j)"
  by (simp add: integer_rem_def integer_divide_of_int of_int_ops cmod_def)

end
