(* ===== verification/MapmText.thy ===== *)
theory MapmText
  imports MapmDiv
begin

text \<open>
  Numbers and their text: the parser \<open>m_apm_set_string\<close>, the two printers of \<open>mapm_set.cpp\<close>/
  \<open>mapm_fpf.cpp\<close>, the wrappers of \<open>pgscript/utilities/pgsMapm.cpp\<close>, and the number forms of
  \<open>pgsNumber::num_type\<close> (four regular expressions, written here as recognisers).
  Shown: printing then parsing is the identity, and the printed text has the number form its
  value calls for.
\<close>

section \<open>Recognising numbers\<close>

definition skip_sign :: "string \<Rightarrow> string" where
  "skip_sign s = (case s of c # t \<Rightarrow> if c = CHR ''+'' \<or> c = CHR ''-'' then t else s | [] \<Rightarrow> [])"

definition int_form :: "string \<Rightarrow> bool" where
  \<comment> \<open>\<open>PGS_INTEGER_FORM_1\<close>\<close>
  "int_form s \<longleftrightarrow> skip_sign s \<noteq> [] \<and> list_all is_digit (skip_sign s)"

definition exp_form :: "string \<Rightarrow> bool" where
  "exp_form s = (case s of c # t \<Rightarrow> (c = CHR ''e'' \<or> c = CHR ''E'') \<and> int_form t | [] \<Rightarrow> False)"

definition real_form_1 :: "string \<Rightarrow> bool" where
  "real_form_1 s = (let t = skip_sign s in
     takeWhile is_digit t \<noteq> [] \<and> exp_form (dropWhile is_digit t))"

definition real_form_2 :: "string \<Rightarrow> bool" where
  "real_form_2 s = (let t = skip_sign s in
     case dropWhile is_digit t of
       c # u \<Rightarrow> c = CHR ''.'' \<and> takeWhile is_digit u \<noteq> [] \<and>
         (dropWhile is_digit u = [] \<or> exp_form (dropWhile is_digit u))
     | [] \<Rightarrow> False)"

definition real_form_3 :: "string \<Rightarrow> bool" where
  "real_form_3 s = (let t = skip_sign s in
     takeWhile is_digit t \<noteq> [] \<and>
     (case dropWhile is_digit t of
       c # u \<Rightarrow> c = CHR ''.'' \<and> (dropWhile is_digit u = [] \<or> exp_form (dropWhile is_digit u))
     | [] \<Rightarrow> False))"

datatype ptype = pgsTReal | pgsTInt | pgsTString | pgsTRecord

definition num_type :: "string \<Rightarrow> ptype" where
  "num_type num =
     (if int_form num then pgsTInt
      else if real_form_1 num \<or> real_form_2 num \<or> real_form_3 num then pgsTReal
      else pgsTString)"

section \<open>Parsing\<close>

definition atoi :: "string \<Rightarrow> int" where
  "atoi s = (case s of
       c # t \<Rightarrow> if c = CHR ''-'' then - int (undec (takeWhile is_digit t))
                else if c = CHR ''+'' then int (undec (takeWhile is_digit t))
                else int (undec (takeWhile is_digit s))
     | [] \<Rightarrow> 0)"

definition is_exp_mark :: "char \<Rightarrow> bool" where
  "is_exp_mark c \<longleftrightarrow> c = CHR ''e'' \<or> c = CHR ''E''"

text \<open>The digits, two to a byte: a last single one counts for ten. Characters are not checked before
  they are packed.\<close>

fun data_bytes :: "string \<Rightarrow> int list" where
  "data_bytes (c # d # s) = (10 * (of_char c - 48) + (of_char d - 48)) mod 256 # data_bytes s"
| "data_bytes [c] = [10 * (of_char c - 48) mod 256]"
| "data_bytes [] = []"

definition bytes_int :: "int list \<Rightarrow> int" where
  "bytes_int = foldl (\<lambda>a b. 100 * a + b) 0"

definition m_apm_set_string :: "string \<Rightarrow> mapm" where
  "m_apm_set_string s_in =
     (let p = dropWhile (\<lambda>c. c = CHR '' '' \<or> c = CHR 0x09) s_in in
      if p = [] then mapm_zero
      else
        let sign = (if hd p = CHR ''-'' then - 1 else 1);
            q = (if hd p = CHR ''+'' \<or> hd p = CHR ''-'' then tl p else p);
            exponent = (case dropWhile (\<lambda>c. \<not> is_exp_mark c) q of [] \<Rightarrow> 0 | _ # x \<Rightarrow> atoi x);
            m = takeWhile (\<lambda>c. \<not> is_exp_mark c) q;
            ip = takeWhile (\<lambda>c. c \<noteq> CHR ''.'') m;
            fp = (case dropWhile (\<lambda>c. c \<noteq> CHR ''.'') m of [] \<Rightarrow> [] | _ # x \<Rightarrow> x);
            ds = data_bytes (ip @ fp)
        in if \<exists>ch\<in>set ds. ch \<ge> 100 then mapm_zero
           else mk_mapm (sign * bytes_int ds) (exponent + int (length ip) - 2 * int (length ds)))"

definition pgs_str_mapm :: "string \<Rightarrow> mapm" where
  "pgs_str_mapm s = m_apm_set_string s"

section \<open>Printing\<close>

definition zeros :: "int \<Rightarrow> string" where
  "zeros k = replicate (nat k) CHR ''0''"

text \<open>\<open>toFixPtStringExp(-1, '.', ' ', INT_MAX)\<close>: all digits, no separators.\<close>

definition m_apm_to_fixpt_string :: "mapm \<Rightarrow> string" where
  "m_apm_to_fixpt_string a =
     (if mant a = 0 then ''0.0''
      else
        let cpw = dec (nat \<bar>mant a\<bar>); dl = int (length cpw); xp = dexp a;
            places = (if dl - xp < 1 then 1 else dl - xp);
            digits = cpw @ zeros (xp + places - dl)
        in (if mant a < 0 then ''-'' else []) @
           (if xp > 0 then take (nat xp) digits @ ''.'' @ take (nat places) (drop (nat xp) digits)
            else ''0.'' @ zeros (- xp) @ cpw))"

text \<open>\<open>m_apm_to_string(s, -1, m)\<close>: scientific notation with all digits.\<close>

definition m_apm_to_string :: "mapm \<Rightarrow> string" where
  "m_apm_to_string a =
     (if mant a = 0 then ''0.0E+0''
      else
        let ds = dec (nat \<bar>mant a\<bar>); i = dexp a - 1 in
        (if mant a < 0 then ''-'' else []) @ [hd ds] @
        (if tl ds = [] then [] else ''.'' @ tl ds) @
        (if i \<ge> 0 then ''E+'' @ dec (nat i) else ''E-'' @ dec (nat (- i))))"

definition pgs_mapm_str_fixed :: "mapm \<Rightarrow> string" where
  "pgs_mapm_str_fixed m = m_apm_to_fixpt_string m"

definition pgs_mapm_str_float :: "mapm \<Rightarrow> string" where
  "pgs_mapm_str_float m = m_apm_to_string m"

text \<open>\<open>str.substr(0, str.find_last_of('.'))\<close>.\<close>

definition before_last_dot :: "string \<Rightarrow> string" where
  "before_last_dot s =
     (if CHR ''.'' \<in> set s then rev (tl (dropWhile (\<lambda>c. c \<noteq> CHR ''.'') (rev s))) else s)"

definition pgs_mapm_str :: "mapm \<Rightarrow> bool \<Rightarrow> string" where
  "pgs_mapm_str m as_int =
     (if mapm_is_integer m \<or> as_int then before_last_dot (pgs_mapm_str_fixed m)
      else pgs_mapm_str_float m)"

definition pgs_mapm_round :: "mapm \<Rightarrow> mapm" where
  "pgs_mapm_round m = pgs_str_mapm (pgs_mapm_str m True)"


section \<open>Text of integers\<close>

definition int_text :: "int \<Rightarrow> string" where
  "int_text i = (if i < 0 then ''-'' else []) @ dec (nat \<bar>i\<bar>)"

lemma digit_chars [digit_simps]:
  assumes "is_digit c"
  shows "c \<noteq> CHR ''.''" "c \<noteq> CHR ''-''" "c \<noteq> CHR ''+''" "c \<noteq> CHR '' ''" "c \<noteq> CHR 0x09"
    "\<not> is_exp_mark c"
  using assms by (auto simp: is_digit_def is_exp_mark_def)

lemma before_last_dot_app: "CHR ''.'' \<notin> set t \<Longrightarrow> before_last_dot (s @ CHR ''.'' # t) = s"
proof -
  assume t: "CHR ''.'' \<notin> set t"
  then have "dropWhile (\<lambda>c. c \<noteq> CHR ''.'') (rev t @ CHR ''.'' # rev s) = CHR ''.'' # rev s"
    by (subst dropWhile_append2) auto
  then show ?thesis by (simp add: before_last_dot_def)
qed

lemma dec_times_pow: "0 < n \<Longrightarrow> dec (n * 10 ^ k) = dec n @ replicate k CHR ''0''"
proof (induction k)
  case (Suc k)
  have "dec (n * 10 ^ Suc k) = dec (n * 10 ^ k) @ [digit_char 0]"
    using Suc.prems by (subst dec_large) (auto simp: ac_simps)
  then show ?case using Suc by (simp add: digit_char_def replicate_append_same)
qed simp

lemma expo_of_int: "0 \<le> expo (mapm_of_int i)"
proof -
  have "mapm_is_integer (mapm_of_int i)" using is_integer_of_int normal_ops(4) by blast
  then show ?thesis using normal_ops(4)[of i]
    by (cases "mapm_of_int i") (auto simp: mapm_is_integer_def)
qed

lemma of_int_shape:
  obtains m k where "mapm_of_int i = Mapm m (int k)" "i = m * 10 ^ k" "m = 0 \<longrightarrow> k = 0"
proof -
  obtain m e where me: "mapm_of_int i = Mapm m e" by (cases "mapm_of_int i")
  have e: "e = int (nat e)" using expo_of_int[of i] me by simp
  have "(of_int i :: rat) = of_int m * 10 ^ nat e"
    using val_of_int[of i] me e by (simp add: power_int_def)
  then have "(of_int i :: rat) = of_int (m * 10 ^ nat e)" by simp
  then have "i = m * 10 ^ nat e" by (simp only: of_int_eq_iff)
  moreover have "m = 0 \<longrightarrow> nat e = 0" using normal_ops(4)[of i] me by auto
  ultimately show ?thesis using that me e by metis
qed

lemma fixpt_of_int: "m_apm_to_fixpt_string (mapm_of_int i) = int_text i @ ''.0''"
proof -
  obtain m k where m: "mapm_of_int i = Mapm m (int k)" "i = m * 10 ^ k" "m = 0 \<longrightarrow> k = 0"
    by (rule of_int_shape)
  show ?thesis
  proof (cases "m = 0")
    case True
    then show ?thesis using m
      by (simp add: m_apm_to_fixpt_string_def int_text_def dec_small digit_char_def)
  next
    case False
    define cs where "cs = dec (nat \<bar>m\<bar>)"
    have "cs \<noteq> []" by (simp add: cs_def)
    have "nat \<bar>i\<bar> = nat \<bar>m\<bar> * 10 ^ k" using m by (simp add: abs_mult nat_mult_distrib nat_power_eq)
    then have "dec (nat \<bar>i\<bar>) = cs @ replicate k CHR ''0''"
      using False by (simp add: dec_times_pow cs_def)
    then have t: "int_text i = (if m < 0 then ''-'' else []) @ cs @ replicate k CHR ''0''"
      using m False by (simp add: int_text_def mult_less_0_iff)
    have x: "dexp (Mapm m (int k)) = int (length cs + k)"
      using False by (simp add: dexp_def ndigits_def cs_def)
    have "0 < int (length cs) + int k" "nat (int (length cs) + int k) = length cs + k"
      using \<open>cs \<noteq> []\<close> by (auto simp: neq_Nil_conv)
    moreover have "zeros (int (length cs + k) + 1 - int (length cs)) = replicate k CHR ''0'' @ ''0''"
      by (simp add: zeros_def nat_add_distrib replicate_append_same)
    ultimately show ?thesis using False m(1) x
      by (simp add: m_apm_to_fixpt_string_def Let_def t flip: cs_def)
  qed
qed

text \<open>The printed text of an integer is its decimal text.\<close>

lemma str_of_int [num_simps]: "pgs_mapm_str (mapm_of_int i) b = int_text i"
proof -
  have "mapm_is_integer (mapm_of_int i)" using is_integer_of_int normal_ops(4) by blast
  moreover have "before_last_dot (int_text i @ ''.0'') = int_text i"
    by (rule before_last_dot_app) simp
  ultimately show ?thesis
    by (simp add: pgs_mapm_str_def pgs_mapm_str_fixed_def fixpt_of_int)
qed

section \<open>Parsing what was printed\<close>

definition num_text :: "bool \<Rightarrow> string \<Rightarrow> string \<Rightarrow> string \<Rightarrow> string" where
  "num_text neg ip fp x =
     (if neg then ''-'' else []) @ ip @ (if fp = [] then [] else CHR ''.'' # fp) @
     (if x = [] then [] else CHR ''E'' # x)"

lemma byte_value: "is_digit c \<Longrightarrow> of_char c - 48 = (int (digit_val c) :: int) \<and> digit_val c < 10"
  by (auto simp: is_digit_def digit_val_def of_nat_diff)

lemma data_bytes_digits:
  "list_all is_digit s \<Longrightarrow> (\<forall>ch\<in>set (data_bytes s). ch < 100)
    \<and> 2 * length (data_bytes s) = (if even (length s) then length s else Suc (length s))
    \<and> foldl (\<lambda>a b. 100 * a + b) a (data_bytes s)
      = foldl (\<lambda>n c. 10 * n + int (digit_val c)) a s * (if even (length s) then 1 else 10)"
proof (induction s arbitrary: a rule: data_bytes.induct)
  case (1 c d s)
  have "of_char c - 48 = (int (digit_val c) :: int)" "of_char d - 48 = (int (digit_val d) :: int)"
    "digit_val c < 10" "digit_val d < 10"
    using 1(2) byte_value by simp_all
  then have byte: "(10 * (of_char c - 48) + (of_char d - 48)) mod 256 = 10 * int (digit_val c) + int (digit_val d)"
    "10 * int (digit_val c) + int (digit_val d) < 100" by simp_all
  have e: "100 * a + (10 * int (digit_val c) + int (digit_val d)) =
      10 * (10 * a + int (digit_val c)) + int (digit_val d)" by simp
  note IH = 1(1)[of "10 * (10 * a + int (digit_val c)) + int (digit_val d)"]
  then show ?case using 1(2) byte(2) unfolding data_bytes.simps byte(1) foldl.simps e by simp
next
  case (2 c)
  then have "of_char c - 48 = (int (digit_val c) :: int)" "digit_val c < 10" using byte_value by simp_all
  then show ?case by (simp add: algebra_simps)
qed simp

lemma foldl_int: "foldl (\<lambda>n c. 10 * n + int (digit_val c)) (int a) s = int (foldl (\<lambda>n c. 10 * n + digit_val c) a s)"
proof (induction s arbitrary: a)
  case (Cons c s)
  have "10 * int a + int (digit_val c) = int (10 * a + digit_val c)" by simp
  then show ?case by (simp only: foldl.simps Cons)
qed simp

lemma mk_mapm_ten: "mk_mapm (10 * m) e = mk_mapm m (e + 1)"
  by (cases "m = 0") (simp_all add: mk_mapm.simps[of "10 * m"] mk_mapm.simps[of 0])

lemma packed_digits:
  assumes "list_all is_digit (ip @ fp)"
  shows "(if \<exists>ch\<in>set (data_bytes (ip @ fp)). ch \<ge> 100 then mapm_zero
      else mk_mapm (sg * bytes_int (data_bytes (ip @ fp))) (x + int (length ip) - 2 * int (length (data_bytes (ip @ fp)))))
    = mk_mapm (sg * int (undec (ip @ fp))) (x - int (length fp))"
proof -
  let ?s = "ip @ fp"
  note d = data_bytes_digits[OF assms, of 0]
  have n: "\<not> (\<exists>ch\<in>set (data_bytes ?s). ch \<ge> 100)" using d by force
  have v: "bytes_int (data_bytes ?s) = int (undec ?s) * (if even (length ?s) then 1 else 10)"
    using d foldl_int[of 0 ?s] by (simp add: bytes_int_def undec_def)
  have l: "2 * int (length (data_bytes ?s)) = int (length ip + length fp) + (if even (length ?s) then 0 else 1)"
  proof -
    have "2 * length (data_bytes ?s) = (if even (length ?s) then length ?s else Suc (length ?s))" using d by blast
    then have "int (2 * length (data_bytes ?s)) = int (if even (length ?s) then length ?s else Suc (length ?s))"
      by (rule arg_cong)
    then show ?thesis by simp
  qed
  show ?thesis
  proof (cases "even (length ?s)")
    case True
    then have "x + int (length ip) - 2 * int (length (data_bytes ?s)) = x - int (length fp)" using l by simp
    moreover have "bytes_int (data_bytes ?s) = int (undec ?s)" using v True by simp
    ultimately show ?thesis using n by (simp only: if_False)
  next
    case False
    then have "x + int (length ip) - 2 * int (length (data_bytes ?s)) = x - int (length fp) - 1" using l by simp
    moreover have "sg * bytes_int (data_bytes ?s) = 10 * (sg * int (undec ?s))" using v False by simp
    ultimately show ?thesis
      using n mk_mapm_ten[of "sg * int (undec ?s)" "x - int (length fp) - 1"] by (simp only: if_False diff_add_cancel)
  qed
qed

lemma set_string_num_text:
  assumes ip: "list_all is_digit ip" "ip \<noteq> []" and fp: "list_all is_digit fp"
  shows "m_apm_set_string (num_text neg ip fp x)
    = mk_mapm ((if neg then - 1 else 1) * int (undec (ip @ fp)))
        ((if x = [] then 0 else atoi x) - int (length fp))"
proof -
  define xs where "xs = (if x = [] then [] else CHR ''E'' # x)"
  define m where "m = ip @ (if fp = [] then [] else CHR ''.'' # fp)"
  obtain d ds where d: "ip = d # ds" "is_digit d" using ip by (cases ip) auto
  have p: "dropWhile (\<lambda>c. c = CHR '' '' \<or> c = CHR 0x09) (num_text neg ip fp x) = num_text neg ip fp x"
    using d by (simp add: num_text_def digit_simps)
  have q: "(if hd (num_text neg ip fp x) = CHR ''+'' \<or> hd (num_text neg ip fp x) = CHR ''-''
      then tl (num_text neg ip fp x) else num_text neg ip fp x) = m @ xs"
    using d by (simp add: num_text_def digit_simps m_def xs_def)
  have sg: "hd (num_text neg ip fp x) = CHR ''-'' \<longleftrightarrow> neg"
    using d by (simp add: num_text_def digit_simps)
  have nm: "list_all (\<lambda>c. \<not> is_exp_mark c) m"
    using ip fp by (auto simp: m_def list_all_iff digit_simps) (simp_all add: is_exp_mark_def)
  have mx: "takeWhile (\<lambda>c. \<not> is_exp_mark c) (m @ xs) = m"
    "dropWhile (\<lambda>c. \<not> is_exp_mark c) (m @ xs) = xs"
    using nm by (cases "x = []"; simp add: xs_def is_exp_mark_def)+
  have nd: "list_all (\<lambda>c. c \<noteq> CHR ''.'') ip" using ip by (auto simp: list_all_iff digit_simps)
  have mi: "takeWhile (\<lambda>c. c \<noteq> CHR ''.'') m = ip"
    "(case dropWhile (\<lambda>c. c \<noteq> CHR ''.'') m of [] \<Rightarrow> [] | _ # y \<Rightarrow> y) = fp"
    using nd by (cases "fp = []"; simp add: m_def)+
  have "num_text neg ip fp x \<noteq> []" using d by (simp add: num_text_def)
  then show ?thesis using ip fp
    unfolding m_apm_set_string_def Let_def p q
    unfolding mx mi sg by (simp add: packed_digits xs_def)
qed

lemma parse_int_text [num_simps]: "m_apm_set_string (int_text i) = mapm_of_int i"
proof -
  have "int_text i = num_text (i < 0) (dec (nat \<bar>i\<bar>)) [] []"
    by (simp add: int_text_def num_text_def)
  then show ?thesis
    by (auto simp: set_string_num_text dec_digits undec_dec mapm_of_int_def)
qed

lemma atoi_exp: "atoi ((if 0 \<le> i then ''+'' else ''-'') @ dec (nat \<bar>i\<bar>)) = i"
  by (simp add: atoi_def dec_digits undec_dec)

lemma to_string_num_text:
  assumes "mant a \<noteq> 0"
  shows "m_apm_to_string a = num_text (mant a < 0) [hd (dec (nat \<bar>mant a\<bar>))]
      (tl (dec (nat \<bar>mant a\<bar>)))
      ((if 0 \<le> dexp a - 1 then ''+'' else ''-'') @ dec (nat \<bar>dexp a - 1\<bar>))"
  using assms by (simp add: m_apm_to_string_def num_text_def Let_def)

lemma parse_to_string:
  assumes "normal a"
  shows "m_apm_set_string (m_apm_to_string a) = a"
proof (cases "mant a = 0")
  case True
  then have "m_apm_to_string a = num_text False ''0'' ''0'' ''+0''"
    by (simp add: m_apm_to_string_def num_text_def)
  moreover have "a = Mapm 0 0" using True assms by (cases a) auto
  moreover have "undec ''00'' = 0" by (simp add: undec_def digit_val_def)
  ultimately show ?thesis
    by (simp add: set_string_num_text is_digit_def mk_mapm_0)
next
  case False
  define ds where "ds = dec (nat \<bar>mant a\<bar>)"
  have ds: "list_all is_digit ds" "ds \<noteq> []" by (simp_all add: ds_def dec_digits)
  then have l: "int (length ds) = int (length (tl ds)) + 1" "[hd ds] @ tl ds = ds"
    "list_all is_digit [hd ds]" "list_all is_digit (tl ds)" by (cases ds; simp)+
  have "m_apm_set_string (m_apm_to_string a)
      = mk_mapm ((if mant a < 0 then - 1 else 1) * int (undec ds)) (dexp a - 1 - int (length (tl ds)))"
  proof -
    define X where "X = (if 0 \<le> dexp a - 1 then ''+'' else ''-'') @ dec (nat \<bar>dexp a - 1\<bar>)"
    have X: "X \<noteq> []" "atoi X = dexp a - 1" by (simp add: X_def) (simp only: X_def atoi_exp)
    show ?thesis
      unfolding to_string_num_text[OF False] ds_def[symmetric] X_def[symmetric]
      by (subst set_string_num_text[OF l(3) _ l(4)], simp, simp only: X l(2) if_False)
  qed
  also have "\<dots> = mk_mapm (mant a) (expo a)"
  proof -
    have "int (undec ds) = \<bar>mant a\<bar>" by (simp add: ds_def undec_dec)
    moreover have "dexp a = int (length ds) + expo a"
      using False by (simp add: dexp_def ndigits_def ds_def)
    then have "dexp a - 1 - int (length (tl ds)) = expo a" using l(1) by linarith
    ultimately show ?thesis by simp
  qed
  also have "\<dots> = a" by (rule mapm_eq_mk[OF assms])
  finally show ?thesis .
qed

lemma str_mapm_roundtrip:
  assumes "normal m"
  shows "pgs_str_mapm (pgs_mapm_str m False) = m"
proof (cases "mapm_is_integer m")
  case True
  then obtain i where "m = mapm_of_int i" using assms is_integer_of_int by blast
  then show ?thesis by (simp add: pgs_str_mapm_def str_of_int parse_int_text)
next
  case False
  then show ?thesis
    using assms by (simp add: pgs_str_mapm_def pgs_mapm_str_def pgs_mapm_str_float_def parse_to_string)
qed


section \<open>The form of printed and of integer text\<close>

lemma skip_sign_digit [digit_simps]:
  "list_all is_digit t \<Longrightarrow> t \<noteq> [] \<Longrightarrow> skip_sign ((if b then ''-'' else []) @ t) = t"
  by (cases t) (auto simp: skip_sign_def digit_simps)

lemma num_type_int_text [num_simps]: "num_type (int_text i) = pgsTInt"
  by (simp add: num_type_def int_form_def int_text_def skip_sign_digit dec_digits)

lemma int_form_E: "list_all is_digit x \<Longrightarrow> x \<noteq> [] \<Longrightarrow> exp_form (CHR ''E'' # (if b then ''+'' else ''-'') @ x)"
  by (simp add: exp_form_def int_form_def skip_sign_def)

lemma num_type_to_string:
  assumes "mant m \<noteq> 0"
  shows "num_type (m_apm_to_string m) = pgsTReal"
proof -
  define ds where "ds = dec (nat \<bar>mant m\<bar>)"
  define X where "X = (if 0 \<le> dexp m - 1 then ''+'' else ''-'') @ dec (nat \<bar>dexp m - 1\<bar>)"
  define sg where "sg = (if mant m < 0 then ''-'' else [])"
  obtain d t where ds: "ds = d # t" "is_digit d" "list_all is_digit t"
    using dec_digits[of "nat \<bar>mant m\<bar>"] dec_nonempty[of "nat \<bar>mant m\<bar>"]
    by (cases "dec (nat \<bar>mant m\<bar>)") (auto simp: ds_def)
  have X: "X \<noteq> []" "exp_form (CHR ''E'' # X)"
    unfolding X_def by (simp_all add: int_form_E dec_digits)
  have s: "m_apm_to_string m = sg @ d # (if t = [] then [] else CHR ''.'' # t) @ CHR ''E'' # X"
    using X(1) ds(1) unfolding to_string_num_text[OF assms]
    unfolding ds_def[symmetric] X_def[symmetric] by (simp add: num_text_def sg_def)
  have sk: "skip_sign (sg @ d # r) = d # r" for r
    using ds(2) by (auto simp: skip_sign_def sg_def digit_simps)
  show ?thesis
  proof (cases "t = []")
    case True
    then show ?thesis using ds X
      by (simp add: s num_type_def int_form_def real_form_1_def sk Let_def digit_simps)
  next
    case False
    then show ?thesis using ds X
      by (simp add: s num_type_def int_form_def real_form_3_def sk Let_def digit_simps)
  qed
qed

lemma num_type_str:
  assumes "normal m"
  shows "num_type (pgs_mapm_str m False) = (if mapm_is_integer m then pgsTInt else pgsTReal)"
proof (cases "mapm_is_integer m")
  case True
  then obtain i where "m = mapm_of_int i" using assms is_integer_of_int by blast
  with True show ?thesis by (simp add: str_of_int num_type_int_text)
next
  case False
  then have "mant m \<noteq> 0" by (auto simp: mapm_is_integer_def)
  with False show ?thesis
    by (simp add: pgs_mapm_str_def pgs_mapm_str_float_def num_type_to_string)
qed

text \<open>Reading a number whose text has the integer form.\<close>

lemma int_form_cases:
  assumes "int_form s"
  obtains sg t where "s = sg @ t" "sg \<in> {[], ''+'', ''-''}" "list_all is_digit t" "t \<noteq> []"
proof -
  have "s = [] @ skip_sign s \<or> s = ''+'' @ skip_sign s \<or> s = ''-'' @ skip_sign s"
    by (auto simp: skip_sign_def split: list.splits)
  with assms that show ?thesis unfolding int_form_def by blast
qed

lemma set_string_plus: "list_all is_digit t \<Longrightarrow> t \<noteq> [] \<Longrightarrow>
    m_apm_set_string (CHR ''+'' # t) = m_apm_set_string t"
  by (cases t) (simp_all add: m_apm_set_string_def Let_def digit_simps)

lemma str_mapm_int_form:
  assumes "int_form s"
  shows "pgs_str_mapm s = mapm_of_int (atoi s)"
proof -
  obtain sg t where s: "s = sg @ t" "sg \<in> {[], ''+'', ''-''}" "list_all is_digit t" "t \<noteq> []"
    using assms by (rule int_form_cases)
  have n: "m_apm_set_string (num_text b t [] []) =
      mapm_of_int ((if b then - 1 else 1) * int (undec t))" for b
    using s by (simp add: set_string_num_text mapm_of_int_def)
  have t: "m_apm_set_string t = mapm_of_int (int (undec t))"
    "m_apm_set_string (CHR ''-'' # t) = mapm_of_int (- int (undec t))"
    using n[of False] n[of True] by (simp_all add: num_text_def)
  obtain c u where c: "t = c # u" "is_digit c" "list_all is_digit u" using s by (cases t) auto
  show ?thesis using s(2) c t s(3,4)
    by (auto simp: s(1) pgs_str_mapm_def atoi_def digit_simps set_string_plus)
qed

lemma atoi_int_text [num_simps]: "atoi (int_text i) = i"
proof -
  have "int_form (int_text i)"
    by (simp add: int_form_def int_text_def skip_sign_digit dec_digits)
  then show ?thesis
    using str_mapm_int_form[of "int_text i"] parse_int_text[of i] of_int_inj
    by (simp add: pgs_str_mapm_def)
qed

lemma normal_str_mapm [num_simps]: "normal (pgs_str_mapm s)"
  by (simp add: pgs_str_mapm_def m_apm_set_string_def Let_def normal_mk normal_ops)

section \<open>pgs\_mapm\_round truncates\<close>

lemma undec_take:
  assumes "list_all is_digit ds" "k \<le> length ds"
  shows "undec (take k ds) = undec ds div 10 ^ (length ds - k)"
proof -
  have "undec ds = undec (take k ds) * 10 ^ (length ds - k) + undec (drop k ds)"
    by (metis append_take_drop_id length_drop undec_append)
  moreover have "undec (drop k ds) < 10 ^ (length ds - k)"
    using undec_bound[of "drop k ds"] assms
    by (simp add: list_all_iff) (metis in_set_dropD length_drop)
  ultimately show ?thesis by simp
qed

lemma str_as_int:
  assumes "normal m" "expo m < 0"
  shows "pgs_mapm_str m True = (if mant m < 0 then ''-'' else []) @
    (if 0 < dexp m then take (nat (dexp m)) (dec (nat \<bar>mant m\<bar>)) else ''0'')"
proof -
  define ds where "ds = dec (nat \<bar>mant m\<bar>)"
  have m0: "mant m \<noteq> 0" using assms by (cases m) auto
  have x: "dexp m = int (length ds) + expo m" using m0 by (simp add: dexp_def ndigits_def ds_def)
  have nd: "CHR ''.'' \<notin> set ds"
    using dec_digits[of "nat \<bar>mant m\<bar>"] by (auto simp: ds_def list_all_iff digit_simps)
  have pl: "\<not> int (length ds) - dexp m < 1" using x assms by simp
  define u where "u = (if dexp m > 0
      then take (nat (int (length ds) - dexp m)) (drop (nat (dexp m)) (ds @ zeros 0))
      else zeros (- dexp m) @ ds)"
  have u: "CHR ''.'' \<notin> set u"
    using nd by (auto simp: u_def zeros_def dest!: in_set_takeD in_set_dropD)
  have le: "nat (dexp m) \<le> length ds" using x assms by simp
  have "m_apm_to_fixpt_string m = ((if mant m < 0 then ''-'' else []) @
      (if 0 < dexp m then take (nat (dexp m)) ds else ''0'')) @ CHR ''.'' # u"
    using m0 pl le by (simp add: m_apm_to_fixpt_string_def Let_def u_def zeros_def flip: ds_def)
  then show ?thesis
    by (simp only: pgs_mapm_str_def pgs_mapm_str_fixed_def before_last_dot_app[OF u] ds_def simp_thms if_True)
qed

lemma mapm_round_trunc:
  assumes "normal m"
  shows "pgs_mapm_round m = mapm_of_int (trunc_rat (mapm_val m))"
proof (cases "expo m < 0")
  case False
  then have "mapm_is_integer m" by (simp add: mapm_is_integer_def)
  then obtain i where i: "m = mapm_of_int i" using assms is_integer_of_int by blast
  have "trunc_rat (of_int i) = i" by (simp add: trunc_rat_def)
  then show ?thesis
    by (simp add: i pgs_mapm_round_def str_of_int pgs_str_mapm_def parse_int_text val_of_int)
next
  case True
  define ds where "ds = dec (nat \<bar>mant m\<bar>)"
  define k where "k = nat (dexp m)"
  have m0: "mant m \<noteq> 0" using assms True by (cases m) auto
  have x: "dexp m = int (length ds) + expo m" using m0 by (simp add: dexp_def ndigits_def ds_def)
  define t where "t = (if 0 < dexp m then take k ds else ''0'')"
  have ds: "list_all is_digit ds" "undec ds = nat \<bar>mant m\<bar>" by (simp_all add: ds_def digit_simps)
  have "ds \<noteq> []" by (simp add: ds_def)
  then have t: "list_all is_digit t" "t \<noteq> []"
    using ds(1) by (simp_all add: t_def k_def list_all_iff is_digit_def) (metis in_set_takeD)
  have "int (undec t) = \<bar>mant m\<bar> div 10 ^ nat (- expo m)"
  proof (cases "0 < dexp m")
    case True
    then have "k \<le> length ds" "length ds - k = nat (- expo m)"
      using x \<open>expo m < 0\<close> by (auto simp: k_def)
    then have "undec t = nat \<bar>mant m\<bar> div 10 ^ nat (- expo m)"
      using ds undec_take[of ds k] True by (simp add: t_def)
    then show ?thesis by (simp add: zdiv_int)
  next
    case False
    have "\<bar>mant m\<bar> < 10 ^ length ds"
      using ndigits_bounds[OF m0] by (simp add: ndigits_def ds_def)
    also have "\<dots> \<le> (10::int) ^ nat (- expo m)"
      using False x by (intro power_increasing) auto
    finally show ?thesis using False by (simp add: t_def undec_def digit_val_def)
  qed
  then have u: "(if mant m < 0 then - 1 else 1) * int (undec t) = cdiv (mant m) (10 ^ nat (- expo m))"
    using m0 by (auto simp: cdiv_def sgn_if)
  have "pgs_mapm_str m True = num_text (mant m < 0) t [] []"
    using str_as_int[OF assms True] by (simp add: num_text_def t_def k_def ds_def)
  then have "pgs_mapm_round m = mapm_of_int (cdiv (mant m) (10 ^ nat (- expo m)))"
    by (simp add: pgs_mapm_round_def pgs_str_mapm_def set_string_num_text t mapm_of_int_def flip: u)
  moreover have "trunc_rat (mapm_val m) = cdiv (mant m) (10 ^ nat (- expo m))"
    using trunc_cdiv[of "- expo m" "mant m"] True by (cases m) simp
  ultimately show ?thesis by simp
qed

end
