(* ===== verification/LcgCycle.thy ===== *)
theory LcgCycle
  imports Prelude
begin

text \<open>
  The linear congruence \<open>x \<mapsto> (5 x + 1) mod 2 ^ k\<close> that the sequential generator steps: it
  is one cycle through all residues. Nothing here is code; \<open>PgsIntGen\<close> applies it.
\<close>

definition lcg :: "int \<Rightarrow> int \<Rightarrow> int" where
  "lcg m x = (5 * x + 1) mod m"

definition geo5 :: "nat \<Rightarrow> int" where
  "geo5 d = (\<Sum>j<d. 5 ^ j)"

lemma geo5_Suc: "geo5 (Suc d) = 5 * geo5 d + 1"
proof (induction d)
  case (Suc d)
  have "geo5 (Suc (Suc d)) = geo5 (Suc d) + 5 ^ Suc d" by (simp add: geo5_def)
  then show ?case using Suc by (simp add: geo5_def)
qed (simp add: geo5_def)

lemma geo5_closed: "4 * geo5 d = 5 ^ d - 1"
  by (induction d) (simp_all add: geo5_Suc, simp add: geo5_def)

lemma lcg_pow: "0 < m \<Longrightarrow> 0 \<le> x \<Longrightarrow> x < m \<Longrightarrow> (lcg m ^^ d) x = (5 ^ d * x + geo5 d) mod m"
proof (induction d)
  case (Suc d)
  have "(lcg m ^^ Suc d) x = lcg m ((lcg m ^^ d) x)" by simp
  also have "\<dots> = (5 * ((5 ^ d * x + geo5 d) mod m) + 1) mod m"
    by (simp only: Suc.IH[OF Suc.prems]) (simp only: lcg_def)
  also have "\<dots> = (5 * (5 ^ d * x + geo5 d) + 1) mod m"
    by (metis mod_add_left_eq mod_mult_right_eq)
  also have "5 * (5 ^ d * x + geo5 d) + 1 = 5 ^ Suc d * x + geo5 (Suc d)"
    by (simp add: geo5_Suc algebra_simps)
  finally show ?case .
qed (simp add: geo5_def)

lemma geo5_double: "geo5 (2 * e) = geo5 e * (5 ^ e + 1)"
proof -
  have "4 * geo5 (2 * e) = 5 ^ e * 5 ^ e - 1"
    by (simp add: geo5_closed mult_2 power_add)
  moreover have "(5::int) ^ e = 4 * geo5 e + 1" by (simp add: geo5_closed)
  ultimately have "4 * geo5 (2 * e) = 4 * (geo5 e * (5 ^ e + 1))"
    by (simp only:) (simp add: algebra_simps)
  then show ?thesis by simp
qed

lemma geo5_parity: "even (geo5 d) \<longleftrightarrow> even d"
  by (induction d) (simp_all add: geo5_Suc, simp add: geo5_def)

lemma five_pow_mod_4: "(5::int) ^ e mod 4 = 1"
proof (induction e)
  case (Suc e)
  have "(5 * y) mod 4 = 1" if "y mod 4 = (1::int)" for y using that by presburger
  with Suc show ?case by simp
qed simp

lemma five_pow_plus_1: "\<exists>q. (5::int) ^ e + 1 = 2 * q \<and> odd q"
proof -
  have "\<exists>q. y + 1 = 2 * q \<and> odd q" if "y mod 4 = (1::int)" for y using that by presburger
  then show ?thesis using five_pow_mod_4 by blast
qed

text \<open>The power of two in the geometric sum is the one in its number of terms.\<close>

lemma pow2_dvd_geo5: "2 ^ k dvd geo5 d \<Longrightarrow> 2 ^ k dvd d"
proof (induction k arbitrary: d)
  case (Suc k)
  have "2 dvd (2::int) ^ Suc k" by simp
  from this Suc.prems have "even (geo5 d)" by (rule dvd_trans)
  then obtain e where d: "d = 2 * e" using geo5_parity by (auto elim: evenE)
  obtain q where q: "(5::int) ^ e + 1 = 2 * q" "odd q" using five_pow_plus_1 by blast
  have "2 * 2 ^ k dvd 2 * (geo5 e * q)"
    using Suc.prems unfolding d geo5_double q(1) power_Suc by (simp only: mult.left_commute)
  then have "2 ^ k dvd geo5 e * q" by (subst (asm) dvd_mult_cancel_left) simp
  then have "2 ^ k dvd geo5 e"
  proof -
    assume "2 ^ k dvd geo5 e * q"
    moreover have "coprime (2 ^ k) q" using q(2) by simp
    ultimately show ?thesis using coprime_dvd_mult_left_iff by blast
  qed
  then have "2 ^ k dvd e" by (rule Suc.IH)
  then show ?case by (simp add: d)
qed simp

lemma lcg_range: "0 < m \<Longrightarrow> 0 \<le> lcg m x \<and> lcg m x < m"
  by (simp add: lcg_def)

lemma lcg_pow_range: "0 < m \<Longrightarrow> 0 \<le> x \<Longrightarrow> x < m \<Longrightarrow> 0 \<le> (lcg m ^^ d) x \<and> (lcg m ^^ d) x < m"
  by (simp add: lcg_pow)

lemma lcg_inj:
  assumes m: "m = 2 ^ k" and "0 \<le> x" "x < m" "0 \<le> y" "y < m" "lcg m x = lcg m y"
  shows "x = y"
proof -
  have "m dvd (5 * x + 1) - (5 * y + 1)"
    using assms(6) by (simp only: lcg_def mod_eq_dvd_iff)
  also have "(5 * x + 1) - (5 * y + 1) = 5 * (x - y)" by simp
  finally have "m dvd 5 * (x - y)" .
  moreover have "coprime m 5" by (simp add: m)
  ultimately have "m dvd x - y" by (subst (asm) coprime_dvd_mult_right_iff)
  then show ?thesis using assms(2-5) by (metis mod_eq_dvd_iff mod_pos_pos_trivial)
qed

lemma lcg_pow_inj:
  assumes "m = 2 ^ k" "0 \<le> x" "x < m" "0 \<le> y" "y < m" "(lcg m ^^ d) x = (lcg m ^^ d) y"
  shows "x = y"
  using assms(6)
proof (induction d)
  case (Suc d)
  have "0 < m" using assms(2,3) by simp
  then have "(lcg m ^^ d) x = (lcg m ^^ d) y"
    using lcg_pow_range[OF _ assms(2,3), of d] lcg_pow_range[OF _ assms(4,5), of d]
      lcg_inj[OF assms(1), of "(lcg m ^^ d) x" "(lcg m ^^ d) y"] Suc.prems
    by (simp only: funpow.simps comp_apply)
  then show ?case by (rule Suc.IH)
qed simp

text \<open>No state comes back before the whole period is over.\<close>

lemma lcg_no_return:
  assumes m: "m = 2 ^ k" and x: "0 \<le> x" "x < m" and d: "(lcg m ^^ d) x = x" "d < 2 ^ k"
  shows "d = 0"
proof -
  have "(5 ^ d * x + geo5 d) mod m = x mod m"
    using lcg_pow[of m x d] d x m by simp
  then have "m dvd 5 ^ d * x + geo5 d - x" by (simp add: mod_eq_dvd_iff)
  moreover have "(5::int) ^ d = 4 * geo5 d + 1" by (simp add: geo5_closed)
  then have "5 ^ d * x + geo5 d - x = geo5 d * (4 * x + 1)"
    by (simp only:) (simp add: algebra_simps)
  ultimately have "2 ^ k dvd geo5 d * (4 * x + 1)" by (simp add: m)
  moreover have "coprime (2 ^ k) (4 * x + 1)" by simp
  ultimately have "2 ^ k dvd geo5 d" by (simp add: coprime_dvd_mult_left_iff)
  then have "2 ^ k dvd d" by (rule pow2_dvd_geo5)
  then show ?thesis using d(2) by (auto dest: dvd_imp_le)
qed

definition trace :: "int \<Rightarrow> int \<Rightarrow> nat \<Rightarrow> int list" where
  "trace m s n = map (\<lambda>i. (lcg m ^^ i) s) [1..<Suc n]"

lemma trace_0: "trace m s 0 = []"
  by (simp add: trace_def)

lemma trace_Suc: "trace m s (Suc n) = lcg m s # trace m (lcg m s) n"
proof -
  have "[1..<Suc (Suc n)] = 1 # map Suc [1..<Suc n]"
    by (subst upt_conv_Cons) (simp_all add: map_Suc_upt del: upt_Suc)
  then show ?thesis by (simp add: trace_def funpow_swap1 del: upt_Suc)
qed

lemma trace_distinct:
  assumes m: "m = 2 ^ k" and x: "0 \<le> x" "x < m"
  shows "distinct (trace m x (2 ^ k))"
proof -
  have "inj_on (\<lambda>i. (lcg m ^^ i) x) {1..<Suc (2 ^ k)}"
  proof (rule linorder_inj_onI)
    fix i j :: nat
    assume ij: "i < j" "i \<in> {1..<Suc (2 ^ k)}" "j \<in> {1..<Suc (2 ^ k)}"
    define d where "d = j - i"
    have d: "j = i + d" "0 < d" "d < 2 ^ k" using ij by (auto simp: d_def)
    show "(lcg m ^^ i) x \<noteq> (lcg m ^^ j) x"
    proof
      assume "(lcg m ^^ i) x = (lcg m ^^ j) x"
      then have "(lcg m ^^ i) x = (lcg m ^^ i) ((lcg m ^^ d) x)" by (simp add: d funpow_add)
      then have "x = (lcg m ^^ d) x"
        using lcg_pow_range[OF _ x, of d] x by (intro lcg_pow_inj[OF m x]) simp_all
      then show False using lcg_no_return[OF m x, of d] d by simp
    qed
  qed auto
  then show ?thesis by (simp add: trace_def distinct_map del: upt_Suc)
qed

text \<open>One period visits every residue once.\<close>

lemma trace_mset:
  assumes m: "m = 2 ^ k" and x: "0 \<le> x" "x < m"
  shows "mset (trace m x (2 ^ k)) = mset_set {0..<m}"
proof -
  let ?t = "trace m x (2 ^ k)"
  have d: "distinct ?t" by (rule trace_distinct[OF assms])
  have "set ?t \<subseteq> {0..<m}"
    using lcg_pow_range[of m x] x m by (auto simp: trace_def)
  moreover have "card (set ?t) = card {0..<m}"
    unfolding distinct_card[OF d] by (simp add: trace_def m nat_power_eq del: upt_Suc)
  ultimately have "set ?t = {0..<m}" by (intro card_subset_eq) auto
  then show ?thesis using d by (metis mset_set_set)
qed

lemma trace_filter_mset:
  assumes "m = 2 ^ k" "0 \<le> x" "x < m" "r \<le> m"
  shows "mset (filter (\<lambda>y. y < r) (trace m x (2 ^ k))) = mset_set {0..<r}"
proof -
  have "filter_mset (\<lambda>y. y < r) (mset_set {0..<m}) = mset_set {y \<in> {0..<m}. y < r}"
    by simp
  also have "{y \<in> {0..<m}. y < r} = {0..<r}" using assms by auto
  finally show ?thesis using trace_mset[OF assms(1-3)] by (simp add: mset_filter)
qed

end
