(* ===== verification/PgsIntGen.thy ===== *)
theory PgsIntGen
  imports MapmText LcgCycle
begin

text \<open>
  The integer generators of \<open>pgscript/generators/pgsIntegerGen.cpp\<close>. Their MAPM fields hold
  integers throughout (\<open>of_int_ops\<close>, \<open>integer_rem_of_int\<close> and \<open>integer_divide_of_int\<close> of the
  decimal theories), so they are written as \<open>int\<close>, with the truncating \<open>%\<close> and \<open>div\<close>.
  Shown: a sequential generator with a non-negative seed emits every value of its range once per
  period, over all buffer refills, and reaches the next period in a state of the same kind; a
  normal generator stays within its range except in the one state \<open>m - 1\<close>.
\<close>

section \<open>The sequential generator\<close>

record seq_gen =
  sg_range :: int
  sg_state :: int
  sg_m :: int
  sg_remainder :: int
  sg_buffer :: "int list"

definition BUFFER_SIZE :: int where "BUFFER_SIZE = 1000"

function seq_modulus :: "int \<Rightarrow> int \<Rightarrow> int" where
  "seq_modulus rng m = (if 0 < m \<and> m < rng then seq_modulus rng (m * 2) else m)"
  by pat_completeness auto
termination
  by (relation "measure (\<lambda>(rng, m). nat (rng - m))") auto

declare seq_modulus.simps [simp del]

definition pgsSequentialIntGen :: "int \<Rightarrow> int \<Rightarrow> seq_gen" where
  "pgsSequentialIntGen rng seed =
     \<lparr>sg_range = rng, sg_state = seed, sg_m = seq_modulus rng 2,
      sg_remainder = rng, sg_buffer = []\<rparr>"

text \<open>The inner \<open>do ... while (m_state >= m_range)\<close>.\<close>

partial_function (option) seq_draw :: "int \<Rightarrow> int \<Rightarrow> int \<Rightarrow> int option" where
  "seq_draw m rng st =
     (let st' = cmod (st * 5 + 1) m in
      if st' \<ge> rng then seq_draw m rng st' else Some st')"

declare seq_draw.simps [code]

text \<open>The outer loop: \<open>n\<close> values and the last state.\<close>

primrec seq_fill :: "nat \<Rightarrow> int \<Rightarrow> int \<Rightarrow> int \<Rightarrow> (int list \<times> int) option" where
  "seq_fill 0 m rng st = Some ([], st)"
| "seq_fill (Suc n) m rng st =
     (case seq_draw m rng st of
        None \<Rightarrow> None
      | Some st' \<Rightarrow> map_option (\<lambda>(b, t). (st' # b, t)) (seq_fill n m rng st'))"

definition pgsRandInt_rand :: "int \<Rightarrow> int" where
  "pgsRandInt_rand st = cmod (1103515245 * st + 12345) 2147483647"

definition buf_swap :: "'a list \<Rightarrow> nat \<Rightarrow> nat \<Rightarrow> 'a list" where
  "buf_swap b i r = (let a = b ! i in b[i := b ! r, r := a])"

function seq_shuffle :: "nat \<Rightarrow> int \<Rightarrow> int list \<Rightarrow> int list" where
  "seq_shuffle i st b =
     (if i < length b then
        let st' = pgsRandInt_rand st;
            r = i + nat (st' mod int (length b - i))
        in seq_shuffle (Suc i) st' (buf_swap b i r)
      else b)"
  by pat_completeness auto
termination
  by (relation "measure (\<lambda>(i, st, b). length b - i)") (auto simp: buf_swap_def Let_def)

declare seq_shuffle.simps [simp del]

definition seq_refill :: "seq_gen \<Rightarrow> seq_gen option" where
  "seq_refill g =
     (if sg_buffer g = [] then
        let n = min (sg_remainder g) BUFFER_SIZE in
        map_option
          (\<lambda>(b, st). g\<lparr>sg_state := st, sg_remainder := sg_remainder g - int (length b),
                        sg_buffer := seq_shuffle 0 BUFFER_SIZE b\<rparr>)
          (seq_fill (nat n) (sg_m g) (sg_range g) (sg_state g))
      else Some g)"

definition seq_random :: "seq_gen \<Rightarrow> (int \<times> seq_gen) option" where
  "seq_random g =
     map_option
       (\<lambda>h. let h' = (if sg_remainder h = 0 then h\<lparr>sg_remainder := sg_range h\<rparr> else h)
             in (last (sg_buffer h'), h'\<lparr>sg_buffer := butlast (sg_buffer h')\<rparr>))
       (seq_refill g)"

section \<open>The normal generator\<close>

record normal_gen =
  ng_range :: int
  ng_state :: int

definition arg_m :: int where "arg_m = 2147483647"
definition m_top :: int where "m_top = arg_m - 1"

definition normal_random :: "normal_gen \<Rightarrow> int \<times> normal_gen" where
  "normal_random g =
     (let st = cmod (ng_state g * 16807 + 0) arg_m
      in (cdiv (st * ng_range g) m_top, g\<lparr>ng_state := st\<rparr>))"

definition pgsNormalIntGen :: "int \<Rightarrow> int \<Rightarrow> normal_gen" where
  "pgsNormalIntGen rng seed =
     ((\<lambda>g. snd (normal_random g)) ^^ 10) \<lparr>ng_range = rng, ng_state = seed\<rparr>"

section \<open>The number generators behind one interface\<close>

datatype number_gen = Sequential seq_gen | Normal normal_gen

fun number_random :: "number_gen \<Rightarrow> (int \<times> number_gen) option" where
  "number_random (Sequential g) = map_option (\<lambda>(x, h). (x, Sequential h)) (seq_random g)"
| "number_random (Normal g) = (let (x, h) = normal_random g in Some (x, Normal h))"

definition object_seed :: "int \<Rightarrow> int" where
  "object_seed seed = (if seed = 0 then 1 else seed)"

record int_gen =
  ig_min :: int
  ig_max :: int
  ig_range :: int
  ig_sequence :: bool
  ig_randomizer :: number_gen

definition pgsIntegerGen :: "int \<Rightarrow> int \<Rightarrow> bool \<Rightarrow> int \<Rightarrow> int_gen" where
  "pgsIntegerGen mn mx sequence seed =
     (let lo = min mn mx; hi = max mn mx; rng = hi - lo + 1; s = object_seed seed in
      \<lparr>ig_min = lo, ig_max = hi, ig_range = rng, ig_sequence = sequence,
       ig_randomizer = (if sequence then Sequential (pgsSequentialIntGen rng s)
                        else Normal (pgsNormalIntGen rng s))\<rparr>)"

definition int_gen_value :: "int_gen \<Rightarrow> (int \<times> int_gen) option" where
  "int_gen_value g =
     map_option (\<lambda>(x, r). (x + ig_min g, g\<lparr>ig_randomizer := r\<rparr>)) (number_random (ig_randomizer g))"

definition int_gen_random :: "int_gen \<Rightarrow> (string \<times> int_gen) option" where
  "int_gen_random g =
     map_option (\<lambda>(x, h). (pgs_mapm_str (mapm_of_int x) False, h)) (int_gen_value g)"

section \<open>Drawing\<close>

text \<open>Repeated calls of a generator step.\<close>

primrec draws :: "('g \<Rightarrow> ('a \<times> 'g) option) \<Rightarrow> nat \<Rightarrow> 'g \<Rightarrow> ('a list \<times> 'g) option" where
  "draws step 0 g = Some ([], g)"
| "draws step (Suc n) g =
     (case step g of
        None \<Rightarrow> None
      | Some (x, h) \<Rightarrow> map_option (\<lambda>(xs, k). (x # xs, k)) (draws step n h))"

lemma draws_add:
  "draws step (a + b) g =
     (case draws step a g of
        None \<Rightarrow> None
      | Some (xs, h) \<Rightarrow> map_option (\<lambda>(ys, k). (xs @ ys, k)) (draws step b h))"
proof (induction a arbitrary: g)
  case 0
  show ?case by (cases "draws step b g") auto
next
  case (Suc a)
  then show ?case
    by (auto split: option.splits simp: option.map_comp comp_def case_prod_beta)
qed

text \<open>A generator that wraps another one draws the images of its values.\<close>

lemma draws_map:
  assumes "\<And>g. step' (w g) = map_option (\<lambda>(x, h). (f x, w h)) (step g)"
  shows "draws step' n (w g) = map_option (\<lambda>(xs, h). (map f xs, w h)) (draws step n g)"
proof (induction n arbitrary: g)
  case (Suc n)
  then show ?case
    by (cases "step g")
      (auto simp: assms option.map_comp comp_def case_prod_beta)
qed simp

section \<open>The modulus and the inner loop\<close>

lemma seq_modulus_pow:
  assumes "1 \<le> j"
  shows "\<exists>k. 1 \<le> k \<and> seq_modulus rng (2 ^ j) = 2 ^ k \<and> rng \<le> 2 ^ k"
  using assms
proof (induction "nat (rng - 2 ^ j)" arbitrary: j rule: less_induct)
  case less
  show ?case
  proof (cases "2 ^ j < rng")
    case True
    have "nat (rng - 2 ^ Suc j) < nat (rng - 2 ^ j)" using True by simp
    from less.hyps[OF this] obtain k
      where "1 \<le> k" "seq_modulus rng (2 ^ Suc j) = 2 ^ k" "rng \<le> 2 ^ k" by auto
    then show ?thesis using True
      by (subst seq_modulus.simps) (auto simp: mult.commute)
  next
    case False
    then show ?thesis using less.prems by (subst seq_modulus.simps) auto
  qed
qed

lemma cmod_lcg: "0 \<le> st \<Longrightarrow> 0 < m \<Longrightarrow> cmod (st * 5 + 1) m = lcg m st"
  by (simp add: lcg_def mult.commute)

lemma seq_draw_stop [gen_simps]:
  "0 \<le> st \<Longrightarrow> 0 < m \<Longrightarrow> lcg m st < rng \<Longrightarrow> seq_draw m rng st = Some (lcg m st)"
  by (subst seq_draw.simps) (simp only: cmod_lcg Let_def, simp)

lemma seq_draw_skip [gen_simps]:
  "0 \<le> st \<Longrightarrow> 0 < m \<Longrightarrow> \<not> lcg m st < rng \<Longrightarrow> seq_draw m rng st = seq_draw m rng (lcg m st)"
  by (subst seq_draw.simps) (simp only: cmod_lcg Let_def, simp)

text \<open>Filling the buffer walks the orbit and keeps the values of the range.\<close>

lemma seq_fill_trace:
  assumes "0 < m" "0 \<le> st"
  shows "seq_fill (length (filter (\<lambda>y. y < rng) (trace m st n))) m rng st
    = Some (filter (\<lambda>y. y < rng) (trace m st n), last (st # filter (\<lambda>y. y < rng) (trace m st n)))"
  using assms(2)
proof (induction n arbitrary: st)
  case 0
  show ?case by (simp add: trace_0)
next
  case (Suc n)
  define st' where "st' = lcg m st"
  define ys where "ys = filter (\<lambda>y. y < rng) (trace m st' n)"
  have st': "0 \<le> st'" using lcg_range assms(1) by (simp add: st'_def)
  have IH: "seq_fill (length ys) m rng st' = Some (ys, last (st' # ys))"
    using Suc.IH[OF st'] by (simp add: ys_def)
  have t: "filter (\<lambda>y. y < rng) (trace m st (Suc n)) = (if st' < rng then st' # ys else ys)"
    by (simp add: trace_Suc st'_def ys_def)
  show ?case
  proof (cases "st' < rng")
    case True
    then have "seq_draw m rng st = Some st'"
      using seq_draw_stop[OF Suc.prems assms(1)] by (simp add: st'_def)
    then show ?thesis unfolding t using True IH by simp
  next
    case False
    then have d: "seq_draw m rng st = seq_draw m rng st'"
      using seq_draw_skip[OF Suc.prems assms(1)] by (simp add: st'_def)
    show ?thesis
    proof (cases ys)
      case Nil
      then show ?thesis unfolding t using False by simp
    next
      case (Cons y zs)
      then show ?thesis unfolding t using False IH d by simp
    qed
  qed
qed

lemma seq_fill_length: "seq_fill n m rng st = Some (b, t) \<Longrightarrow> length b = n"
  by (induction n arbitrary: st b t) (auto split: option.splits)

lemma seq_fill_add:
  "seq_fill (a + b) m rng st =
     (case seq_fill a m rng st of
        None \<Rightarrow> None
      | Some (xs, t) \<Rightarrow> map_option (\<lambda>(ys, u). (xs @ ys, u)) (seq_fill b m rng t))"
proof (induction a arbitrary: st)
  case 0
  show ?case by (cases "seq_fill b m rng st") auto
next
  case (Suc a)
  then show ?case
    by (auto split: option.splits simp: option.map_comp comp_def case_prod_beta)
qed

section \<open>The shuffle permutes\<close>

lemma buf_swap_mset: "i < length b \<Longrightarrow> r < length b \<Longrightarrow> mset (buf_swap b i r) = mset b"
  by (simp add: buf_swap_def Let_def mset_swap)

lemma seq_shuffle_mset: "mset (seq_shuffle i st b) = mset b"
proof (induction i st b rule: seq_shuffle.induct)
  case (1 i st b)
  define st' where "st' = pgsRandInt_rand st"
  define r where "r = i + nat (st' mod int (length b - i))"
  show ?case
  proof (cases "i < length b")
    case True
    then have "nat (st' mod int (length b - i)) < length b - i"
      by (simp add: nat_less_iff)
    then have "r < length b" using True by (simp add: r_def)
    then have "mset (buf_swap b i r) = mset b" using True by (simp add: buf_swap_mset)
    moreover have "mset (seq_shuffle (Suc i) st' (buf_swap b i r)) = mset (buf_swap b i r)"
      using 1 True by (simp add: st'_def r_def)
    moreover have "seq_shuffle i st b = seq_shuffle (Suc i) st' (buf_swap b i r)"
      using True by (subst seq_shuffle.simps) (simp only: Let_def if_True st'_def r_def)
    ultimately show ?thesis by simp
  qed (subst seq_shuffle.simps, simp)
qed

lemma seq_shuffle_length [simp]: "length (seq_shuffle i st b) = length b"
  by (metis seq_shuffle_mset size_mset)

section \<open>One buffer\<close>

text \<open>With values left in the buffer, drawing empties it from its end.\<close>

lemma draws_buffer:
  assumes "sg_remainder g \<noteq> 0"
  shows "n \<le> length (sg_buffer g) \<Longrightarrow>
    draws seq_random n g =
      Some (take n (rev (sg_buffer g)), g\<lparr>sg_buffer := take (length (sg_buffer g) - n) (sg_buffer g)\<rparr>)"
  using assms
proof (induction n arbitrary: g)
  case (Suc n)
  define b where "b = sg_buffer g"
  obtain c x where b: "b = c @ [x]" using Suc.prems by (cases b rule: rev_cases) (auto simp: b_def)
  have "seq_random g = Some (x, g\<lparr>sg_buffer := c\<rparr>)"
    using b Suc.prems by (simp add: seq_random_def seq_refill_def Let_def b_def)
  then show ?case
    using Suc.IH[of "g\<lparr>sg_buffer := c\<rparr>"] Suc.prems b by (auto simp: b_def)
qed simp

definition chunk :: "seq_gen \<Rightarrow> nat" where
  "chunk g = nat (min (sg_remainder g) BUFFER_SIZE)"

lemma draws_chunk:
  assumes "sg_buffer g = []" "0 < sg_remainder g" "0 < sg_range g"
    and fill: "seq_fill (chunk g) (sg_m g) (sg_range g) (sg_state g) = Some (b, st)"
  shows "draws seq_random (chunk g) g =
    Some (rev (seq_shuffle 0 BUFFER_SIZE b),
      g\<lparr>sg_state := st, sg_buffer := [],
         sg_remainder := (if sg_remainder g = int (chunk g) then sg_range g
                          else sg_remainder g - int (chunk g))\<rparr>)"
proof -
  define B where "B = seq_shuffle 0 BUFFER_SIZE b"
  have len: "length b = chunk g" using fill by (rule seq_fill_length)
  have "0 < chunk g" using assms(2) by (simp add: chunk_def BUFFER_SIZE_def)
  then obtain n where n: "chunk g = Suc n" by (cases "chunk g") auto
  have lB: "length B = Suc n" by (simp add: B_def len n)
  then obtain C x where C: "B = C @ [x]" "length C = n" by (cases B rule: rev_cases) auto
  define h where "h = g\<lparr>sg_state := st, sg_buffer := C,
      sg_remainder := (if sg_remainder g = int (chunk g) then sg_range g
                       else sg_remainder g - int (chunk g))\<rparr>"
  have "seq_refill g = Some (g\<lparr>sg_state := st, sg_remainder := sg_remainder g - int (chunk g),
      sg_buffer := B\<rparr>)"
    using assms(1) fill by (simp add: seq_refill_def Let_def chunk_def B_def len[unfolded chunk_def])
  then have "seq_random g = Some (x, h)"
    by (simp add: seq_random_def Let_def h_def C)
  moreover have "sg_remainder h \<noteq> 0" using assms(3) by (simp add: h_def)
  then have "draws seq_random n h = Some (rev C, h\<lparr>sg_buffer := []\<rparr>)"
    using draws_buffer[of h n] C by (simp add: h_def)
  ultimately show ?thesis using n C by (simp add: h_def B_def[symmetric])
qed

section \<open>One period\<close>

lemma draws_remainder:
  assumes "sg_buffer g = []" "0 < sg_remainder g" "0 < sg_range g"
    and "seq_fill (nat (sg_remainder g)) (sg_m g) (sg_range g) (sg_state g) = Some (ys, t)"
  shows "\<exists>out. draws seq_random (nat (sg_remainder g)) g =
      Some (out, g\<lparr>sg_state := t, sg_buffer := [], sg_remainder := sg_range g\<rparr>)
    \<and> mset out = mset ys"
  using assms
proof (induction "nat (sg_remainder g)" arbitrary: g ys rule: less_induct)
  case less
  define c where "c = chunk g"
  define rest where "rest = nat (sg_remainder g) - c"
  have c: "c \<le> nat (sg_remainder g)" "0 < c"
    using less.prems(2) by (auto simp: c_def chunk_def BUFFER_SIZE_def)
  then have sum: "nat (sg_remainder g) = c + rest" by (simp add: rest_def)
  from less.prems(4)[unfolded sum seq_fill_add] obtain b st zs where
    b: "seq_fill c (sg_m g) (sg_range g) (sg_state g) = Some (b, st)"
    and zs: "seq_fill rest (sg_m g) (sg_range g) st = Some (zs, t)" and ys: "ys = b @ zs"
    by (auto split: option.splits)
  define B where "B = rev (seq_shuffle 0 BUFFER_SIZE b)"
  have mB: "mset B = mset b" by (simp add: B_def seq_shuffle_mset)
  note first = draws_chunk[OF less.prems(1-3) b[unfolded c_def], folded c_def B_def]
  show ?case
  proof (cases "rest = 0")
    case True
    then have "sg_remainder g = int c" using sum less.prems(2) by simp
    then show ?thesis using first mB zs True ys sum by auto
  next
    case False
    define h where "h = g\<lparr>sg_state := st, sg_buffer := [], sg_remainder := sg_remainder g - int c\<rparr>"
    have rem: "sg_remainder h = int rest"
      using sum less.prems(2) by (simp add: h_def)
    then have r: "nat (sg_remainder h) = rest" by simp
    have first': "draws seq_random c g = Some (B, h)"
      using first False sum less.prems(2) by (auto simp: h_def)
    have "\<exists>out. draws seq_random rest h =
        Some (out, h\<lparr>sg_state := t, sg_buffer := [], sg_remainder := sg_range h\<rparr>) \<and> mset out = mset zs"
      using less.hyps[of h zs] r rem sum c False zs less.prems(3) by (simp add: h_def)
    then show ?thesis
      unfolding sum draws_add first' using mB ys by (auto simp: h_def)
  qed
qed

definition period_start :: "seq_gen \<Rightarrow> bool" where
  "period_start g \<longleftrightarrow>
     sg_buffer g = [] \<and> sg_remainder g = sg_range g \<and> 0 < sg_range g \<and> 0 \<le> sg_state g \<and>
     sg_range g \<le> sg_m g \<and> (\<exists>k. sg_m g = 2 ^ k)"

lemma trace_mod: "trace m (s mod m) n = trace m s n"
proof (cases n)
  case (Suc j)
  have "lcg m (s mod m) = lcg m s" by (metis lcg_def mod_add_left_eq mod_mult_right_eq)
  then show ?thesis by (simp add: Suc trace_Suc)
qed (simp add: trace_0)

lemma seq_fill_period:
  assumes "m = 2 ^ k" "0 \<le> s" "0 < r" "r \<le> m"
  shows "\<exists>ys t. seq_fill (nat r) m r s = Some (ys, t) \<and> mset ys = mset_set {0..<r} \<and> 0 \<le> t"
proof -
  define ys where "ys = filter (\<lambda>y. y < r) (trace m s (2 ^ k))"
  have m: "0 < m" using assms by simp
  have ys: "mset ys = mset_set {0..<r}"
    using trace_filter_mset[of m k "s mod m" r] assms m by (simp add: ys_def trace_mod)
  then have "length ys = card {0..<r}" by (metis size_mset size_mset_set)
  then have len: "length ys = nat r" by simp
  have "set ys = {0..<r}" using arg_cong[OF ys, of set_mset] by simp
  then have "\<forall>y\<in>set (s # ys). 0 \<le> y" using assms(2) by auto
  then have "0 \<le> last (s # ys)" using last_in_set[of "s # ys"] by blast
  moreover have "seq_fill (nat r) m r s = Some (ys, last (s # ys))"
    using seq_fill_trace[OF m assms(2), of r "2 ^ k"] len unfolding ys_def by metis
  ultimately show ?thesis using ys by blast
qed

lemma seq_period:
  assumes "period_start g"
  shows "\<exists>out h. draws seq_random (nat (sg_range g)) g = Some (out, h)
    \<and> mset out = mset_set {0..<sg_range g} \<and> period_start h \<and> sg_range h = sg_range g"
proof -
  obtain k where k: "sg_m g = 2 ^ k" using assms by (auto simp: period_start_def)
  obtain ys t where f: "seq_fill (nat (sg_range g)) (sg_m g) (sg_range g) (sg_state g) = Some (ys, t)"
    and ys: "mset ys = mset_set {0..<sg_range g}" "0 \<le> t"
    using seq_fill_period[of "sg_m g" k "sg_state g" "sg_range g"] assms k
    by (auto simp: period_start_def)
  from draws_remainder[of g ys t] f assms obtain out where
    "draws seq_random (nat (sg_range g)) g =
       Some (out, g\<lparr>sg_state := t, sg_buffer := [], sg_remainder := sg_range g\<rparr>)"
    "mset out = mset ys" by (auto simp: period_start_def)
  then show ?thesis using ys assms by (auto simp: period_start_def)
qed

lemma period_start_new: "0 < rng \<Longrightarrow> 0 \<le> seed \<Longrightarrow> period_start (pgsSequentialIntGen rng seed)"
  using seq_modulus_pow[of 1 rng] by (auto simp: period_start_def pgsSequentialIntGen_def)

section \<open>Periodic generators\<close>

text \<open>
  What a client of a sequence relies on: in a state satisfying \<open>start\<close>, \<open>len\<close> calls emit the
  values \<open>vals\<close> in some order and end in such a state again.
\<close>

locale periodic =
  fixes step :: "'g \<Rightarrow> ('a \<times> 'g) option"
    and start :: "'g \<Rightarrow> bool"
    and len :: nat
    and vals :: "'a multiset"
  assumes period: "start g \<Longrightarrow>
      \<exists>out h. draws step len g = Some (out, h) \<and> mset out = vals \<and> start h"
    and len_pos: "0 < len"
begin

lemma periods: "start g \<Longrightarrow>
    \<exists>out h. draws step (n * len) g = Some (out, h) \<and> mset out = repeat_mset n vals \<and> start h"
proof (induction n arbitrary: g)
  case (Suc n)
  from period[OF Suc.prems] obtain a h where
    a: "draws step len g = Some (a, h)" "mset a = vals" "start h" by blast
  from Suc.IH[OF a(3)] a show ?case by (auto simp: draws_add)
qed simp

lemma draws_defined:
  assumes "start g"
  shows "\<exists>out h. draws step n g = Some (out, h) \<and> set out \<subseteq> set_mset vals \<and> length out = n"
proof -
  have "n \<le> n * len" using len_pos by (cases len) auto
  then obtain d where d: "n * len = n + d" using le_Suc_ex by blast
  from periods[OF assms, of n] obtain out h where
    o: "draws step (n + d) g = Some (out, h)" "mset out = repeat_mset n vals"
    unfolding d by blast
  from o(1) obtain a i b where a: "draws step n g = Some (a, i)" "out = a @ b"
    by (auto simp: draws_add split: option.splits)
  have "set out \<subseteq> set_mset vals"
    using o(2) by (metis count_repeat_mset mult_0_right not_in_iff set_mset_mset subsetI)
  then have "set a \<subseteq> set_mset vals" using a by simp
  moreover have "draws step k g = Some (a, i) \<Longrightarrow> length a = k" for k a i and g :: 'g
    by (induction k arbitrary: a g) (auto split: option.splits)
  ultimately show ?thesis using a(1) by blast
qed

end

interpretation sq: periodic seq_random "\<lambda>g. period_start g \<and> sg_range g = max 1 r"
  "nat (max 1 r)" "mset_set {0..<max 1 r}" for r :: int
  by unfold_locales (use seq_period in fastforce)+

text \<open>The integer generator shifts the values of its randomizer by \<open>m_min\<close>.\<close>

lemma draws_sequential:
  "draws int_gen_value n (ig\<lparr>ig_randomizer := Sequential g\<rparr>) =
     map_option (\<lambda>(xs, h). (map (\<lambda>x. x + ig_min ig) xs, ig\<lparr>ig_randomizer := Sequential h\<rparr>))
       (draws seq_random n g)"
  by (rule draws_map)
    (simp add: int_gen_value_def option.map_comp comp_def case_prod_beta')

definition int_start :: "int \<Rightarrow> int \<Rightarrow> int_gen \<Rightarrow> bool" where
  "int_start lo hi ig \<longleftrightarrow>
     ig_min ig = lo \<and>
     (\<exists>g. ig_randomizer ig = Sequential g \<and> period_start g \<and> sg_range g = hi - lo + 1)"

lemma int_start_new:
  "0 \<le> seed \<Longrightarrow> int_start (min mn mx) (max mn mx) (pgsIntegerGen mn mx True seed)"
  using period_start_new[of "max mn mx - min mn mx + 1" "object_seed seed"]
  by (auto simp: int_start_def pgsIntegerGen_def Let_def object_seed_def pgsSequentialIntGen_def)

lemma image_shift: "image_mset (\<lambda>x. x + lo) (mset_set {0..<hi - lo + 1}) = mset_set {lo..(hi::int)}"
proof -
  have "(\<lambda>x. x + lo) ` {0..<hi - lo + 1} = {lo..hi}"
    by (auto simp: image_iff intro: bexI[of _ "x - lo" for x])
  then show ?thesis by (subst image_mset_mset_set) (auto simp: inj_on_def)
qed

lemma int_period:
  assumes "int_start lo hi ig"
  shows "\<exists>out h. draws int_gen_value (nat (hi - lo + 1)) ig = Some (out, h)
    \<and> mset out = mset_set {lo..hi} \<and> int_start lo hi h"
proof -
  obtain g where g: "ig_randomizer ig = Sequential g" "period_start g" "sg_range g = hi - lo + 1"
    and lo: "ig_min ig = lo" using assms by (auto simp: int_start_def)
  have ig: "ig\<lparr>ig_randomizer := Sequential g\<rparr> = ig" using g(1) by simp
  from seq_period[OF g(2)] g(3) obtain out h where
    o: "draws seq_random (nat (hi - lo + 1)) g = Some (out, h)" "mset out = mset_set {0..<hi - lo + 1}"
      "period_start h" "sg_range h = hi - lo + 1" by auto
  have "mset (map (\<lambda>x. x + lo) out) = mset_set {lo..hi}"
    using o(2) by (simp add: image_shift)
  then show ?thesis
    using draws_sequential[of "nat (hi - lo + 1)" g ig, unfolded ig] o lo by (auto simp: int_start_def)
qed

interpretation ig: periodic int_gen_value "int_start (min a b) (max a b)"
  "nat (max a b - min a b + 1)" "mset_set {min a b..max a b}" for a b :: int
  by unfold_locales (use int_period in auto)

section \<open>The normal generator\<close>

lemma cdiv_of_top: "0 \<le> st \<Longrightarrow> 0 < rng \<Longrightarrow> st \<le> m_top \<Longrightarrow>
    0 \<le> cdiv (st * rng) m_top \<and> cdiv (st * rng) m_top \<le> rng \<and>
    (cdiv (st * rng) m_top = rng \<longleftrightarrow> st = m_top)"
proof -
  assume a: "0 \<le> st" "0 < rng" "st \<le> m_top"
  have p: "0 < m_top" by (simp add: m_top_def arg_m_def)
  have e: "cdiv (st * rng) m_top = st * rng div m_top" using a p by simp
  have "st * rng div m_top < rng" if "st < m_top"
    using that a p by (intro div_less_int) (simp_all add: mult.commute)
  moreover have "m_top * rng div m_top = rng" using p by simp
  ultimately show ?thesis unfolding e using a p
    by (metis less_le mult_nonneg_nonneg order_le_less pos_imp_zdiv_nonneg_iff order_refl)
qed

lemma normal_random_bounds:
  assumes "0 \<le> ng_state g" "0 < ng_range g" "normal_random g = (x, h)"
  shows "0 \<le> x \<and> x \<le> ng_range g \<and> (x = ng_range g \<longleftrightarrow> ng_state h = m_top)
    \<and> 0 \<le> ng_state h \<and> ng_range h = ng_range g"
proof -
  define st where "st = ng_state g * 16807 mod arg_m"
  have r: "0 \<le> st" "st \<le> m_top" by (simp_all add: st_def m_top_def arg_m_def)
  have e: "cmod (ng_state g * 16807 + 0) arg_m = st"
    using assms(1) by (simp add: st_def arg_m_def)
  have "x = cdiv (st * ng_range g) m_top" "h = g\<lparr>ng_state := st\<rparr>"
    using assms(3) unfolding normal_random_def e Let_def by auto
  then show ?thesis using cdiv_of_top[OF r(1) assms(2) r(2)] r(1) by simp
qed

definition normal_start :: "int \<Rightarrow> int \<Rightarrow> int_gen \<Rightarrow> bool" where
  "normal_start lo hi ig \<longleftrightarrow>
     ig_min ig = lo \<and>
     (\<exists>g. ig_randomizer ig = Normal g \<and> 0 \<le> ng_state g \<and> ng_range g = hi - lo + 1)"

lemma normal_start_new:
  assumes "0 \<le> seed"
  shows "normal_start (min mn mx) (max mn mx) (pgsIntegerGen mn mx False seed)"
proof -
  have inv: "0 \<le> ng_state (((\<lambda>g. snd (normal_random g)) ^^ n) g)
      \<and> ng_range (((\<lambda>g. snd (normal_random g)) ^^ n) g) = ng_range g"
    if "0 \<le> ng_state g" "0 < ng_range g" for n and g :: normal_gen
    using that by (induction n) (auto simp: normal_random_bounds[OF _ _ surjective_pairing])
  have "0 \<le> object_seed seed" using assms by (simp add: object_seed_def)
  then show ?thesis
    using inv[of "\<lparr>ng_range = max mn mx - min mn mx + 1, ng_state = object_seed seed\<rparr>" 10]
    by (simp add: normal_start_def pgsIntegerGen_def pgsNormalIntGen_def Let_def)
qed

lemma normal_step:
  assumes "normal_start lo hi ig" "lo \<le> hi"
  shows "\<exists>x h. int_gen_value ig = Some (x, h) \<and> lo \<le> x \<and> x \<le> hi + 1 \<and> normal_start lo hi h
    \<and> (x = hi + 1 \<longleftrightarrow> (\<exists>g. ig_randomizer h = Normal g \<and> ng_state g = m_top))"
proof -
  obtain g where g: "ig_randomizer ig = Normal g" "0 \<le> ng_state g" "ng_range g = hi - lo + 1"
    "ig_min ig = lo" using assms(1) by (auto simp: normal_start_def)
  obtain x h where x: "normal_random g = (x, h)" by (cases "normal_random g")
  have "int_gen_value ig = Some (x + lo, ig\<lparr>ig_randomizer := Normal h\<rparr>)"
    using g x by (simp add: int_gen_value_def)
  moreover note normal_random_bounds[OF g(2) _ x]
  ultimately show ?thesis using g assms(2) by (auto simp: normal_start_def)
qed

lemma pgsNormalIntGen_closed:
  assumes "0 \<le> seed"
  shows "pgsNormalIntGen rng seed = \<lparr>ng_range = rng, ng_state = (16807 ^ 10 * seed) mod arg_m\<rparr>"
proof -
  define f where "f = (\<lambda>g :: normal_gen. snd (normal_random g))"
  have f: "f \<lparr>ng_range = rng, ng_state = s\<rparr> = \<lparr>ng_range = rng, ng_state = cmod (s * 16807 + 0) arg_m\<rparr>" for s
    by (simp add: f_def normal_random_def Let_def)
  have "(f ^^ Suc n) \<lparr>ng_range = rng, ng_state = seed\<rparr>
      = \<lparr>ng_range = rng, ng_state = (16807 ^ Suc n * seed) mod arg_m\<rparr>" for n
  proof (induction n)
    case 0
    show ?case using assms by (simp add: f arg_m_def mult.commute)
  next
    case (Suc n)
    have "cmod ((16807 ^ Suc n * seed) mod arg_m * 16807 + 0) arg_m
        = ((16807 ^ Suc n * seed) mod arg_m * 16807) mod arg_m"
      by (simp add: arg_m_def)
    also have "\<dots> = (16807 ^ Suc (Suc n) * seed) mod arg_m"
      by (simp add: mod_mult_left_eq) (simp add: ac_simps)
    finally show ?case
      by (simp only: funpow.simps(2)[of "Suc n"] comp_apply Suc.IH f)
  qed
  from this[of 9] show ?thesis by (simp add: pgsNormalIntGen_def f_def)
qed

section \<open>Properties of the integer generators\<close>

text \<open>C14. A sequential integer generator (\<open>integer(a, b, 1, seed)\<close>) with a non-negative seed emits
  in each period every value between its bounds exactly once: after \<open>n\<close> periods every value has
  come \<open>n\<close> times, whatever the seed, the order of the bounds and the number of buffer refills; all
  inner loops end.\<close>

theorem int_gen_permutation:
  assumes "0 \<le> seed"
  shows "\<exists>out h.
    draws int_gen_value (n * nat (max mn mx - min mn mx + 1)) (pgsIntegerGen mn mx True seed) = Some (out, h)
    \<and> mset out = repeat_mset n (mset_set {min mn mx..max mn mx})"
  using ig.periods[OF int_start_new[OF assms]] by blast

theorem int_gen_permutation_witness:
  "\<exists>out h. draws int_gen_value (2 * nat (max 3 (- 2) - min 3 (- 2) + 1)) (pgsIntegerGen 3 (- 2) True 7)
     = Some (out, h) \<and> mset out = repeat_mset 2 (mset_set {min 3 (- 2)..max 3 (- 2)})"
  by (rule int_gen_permutation) simp

text \<open>Any number of calls of a sequential generator with a non-negative seed returns, within
  the bounds: the rejection loop of \<open>random()\<close> ends every time and the assertion after the shift by
  \<open>m_min\<close> holds.\<close>

theorem int_gen_total:
  assumes "0 \<le> seed"
  shows "\<exists>out h. draws int_gen_value n (pgsIntegerGen mn mx True seed) = Some (out, h)
    \<and> length out = n \<and> (\<forall>x\<in>set out. min mn mx \<le> x \<and> x \<le> max mn mx)"
  using ig.draws_defined[OF int_start_new[OF assms], of n mn mx] by fastforce

theorem int_gen_total_witness:
  "\<exists>out h. draws int_gen_value 2500 (pgsIntegerGen 1 2000 True 0) = Some (out, h)
    \<and> length out = 2500 \<and> (\<forall>x\<in>set out. min 1 2000 \<le> x \<and> x \<le> max 1 2000)"
  by (rule int_gen_total) simp

text \<open>C19. A normal integer generator with a non-negative seed always returns, never below its
  lower bound and at most one above its upper bound.\<close>

theorem normal_int_gen_bounds:
  assumes "0 \<le> seed"
  shows "\<exists>out h. draws int_gen_value n (pgsIntegerGen mn mx False seed) = Some (out, h)
    \<and> length out = n \<and> (\<forall>x\<in>set out. min mn mx \<le> x \<and> x \<le> max mn mx + 1)"
proof -
  have "\<exists>out h. draws int_gen_value n ig = Some (out, h) \<and> length out = n
      \<and> (\<forall>x\<in>set out. lo \<le> x \<and> x \<le> hi + 1)" if "normal_start lo hi ig" "lo \<le> hi" for lo hi ig
    using that
  proof (induction n arbitrary: ig)
    case (Suc n)
    obtain x h where x: "int_gen_value ig = Some (x, h)" "lo \<le> x" "x \<le> hi + 1" "normal_start lo hi h"
      using normal_step[OF Suc.prems] by blast
    from Suc.IH[OF x(4) Suc.prems(2)] x show ?case by auto
  qed simp
  then show ?thesis using normal_start_new[OF assms] by simp
qed

theorem normal_int_gen_bounds_witness:
  "\<exists>out h. draws int_gen_value 5 (pgsIntegerGen 1 6 False 42) = Some (out, h)
    \<and> length out = 5 \<and> (\<forall>x\<in>set out. min 1 6 \<le> x \<and> x \<le> max 1 6 + 1)"
  by (rule normal_int_gen_bounds) simp

text \<open>The upper bound is not kept: the state \<open>m - 1\<close> is mapped to the range itself, so the
  assertion \<open>data <= m_max\<close> of \<open>pgsIntegerGen::random\<close> fails for a seed that leads there.\<close>

theorem normal_int_gen_above_max:
  "map_option fst (int_gen_value (pgsIntegerGen 1 10 False 1190715800)) = Some 11"
  by (simp add: pgsIntegerGen_def pgsNormalIntGen_closed int_gen_value_def object_seed_def
      normal_random_def Let_def arg_m_def m_top_def)

text \<open>With a negative seed the truncating \<open>%\<close> keeps the state negative, and the sequential
  generator emits values below its lower bound.\<close>

theorem seq_int_gen_below_min:
  "map_option fst (draws int_gen_value 3 (pgsIntegerGen 1 10 True (- 1))) = Some [- 3, - 4, - 2]"
  by code_simp

end
