(* ===== verification/Generators.thy ===== *)
theory Generators
  imports PgsIntGen
begin

text \<open>
  The object generators built on the integer generators: \<open>pgsRealGen.cpp\<close> and
  \<open>pgsStringGen.cpp\<close>.
  A step has no value where the code reads outside a vector or loops for ever.
\<close>

section \<open>Real generators\<close>

record real_gen =
  rg_min :: mapm
  rg_max :: mapm
  rg_range :: mapm
  rg_sequence :: bool
  rg_pow :: mapm
  rg_int_max :: int
  rg_randomizer :: number_gen

definition mapm_min :: "mapm \<Rightarrow> mapm \<Rightarrow> mapm" where
  "mapm_min a b = (if mapm_less a b then a else b)"

definition mapm_max :: "mapm \<Rightarrow> mapm \<Rightarrow> mapm" where
  "mapm_max a b = (if mapm_less b a then a else b)"

text \<open>The integer of an integral MAPM.\<close>

definition mapm_int :: "mapm \<Rightarrow> int" where
  "mapm_int a = mant a * 10 ^ nat (expo a)"

definition pgsRealGen :: "mapm \<Rightarrow> mapm \<Rightarrow> 8 word \<Rightarrow> bool \<Rightarrow> int \<Rightarrow> real_gen" where
  "pgsRealGen mn mx precision sequence seed =
     (let lo = mapm_min mn mx; hi = mapm_max mn mx; range = mapm_sub hi lo;
          pow = mapm_of_int (10 ^ unat precision);
          int_max = mapm_int (mapm_add (pgs_mapm_round (mapm_mul range pow)) (mapm_of_int 1));
          s = object_seed seed in
      \<lparr>rg_min = lo, rg_max = hi, rg_range = range, rg_sequence = sequence, rg_pow = pow,
       rg_int_max = int_max,
       rg_randomizer = (if sequence then Sequential (pgsSequentialIntGen int_max s)
                        else Normal (pgsNormalIntGen int_max s))\<rparr>)"

definition real_value ::
  "(int \<Rightarrow> mapm \<Rightarrow> mapm \<Rightarrow> mapm) \<Rightarrow> real_gen \<Rightarrow> (mapm \<times> real_gen) option" where
  "real_value recip_divide g =
     map_option
       (\<lambda>(x, r). (mapm_add (mapm_over recip_divide (mapm_of_int x) (rg_pow g)) (rg_min g),
                  g\<lparr>rg_randomizer := r\<rparr>))
       (number_random (rg_randomizer g))"

definition real_random ::
  "(int \<Rightarrow> mapm \<Rightarrow> mapm \<Rightarrow> mapm) \<Rightarrow> real_gen \<Rightarrow> (string \<times> real_gen) option" where
  "real_random recip_divide g =
     map_option (\<lambda>(m, h). (pgs_mapm_str m False, h)) (real_value recip_divide g)"

section \<open>String generators\<close>

record string_gen =
  st_nb_words :: "8 word"
  st_characters :: string
  st_w_size :: int_gen
  st_letter :: int_gen

definition init_characters :: "string \<Rightarrow> string" where
  "init_characters cs =
     (if cs = [] then ''0123456789ABCDEFGHIJKLMNOPQRSTUVWXYZabcdefghijklmnopqrstuvwxyz'' else cs)"

definition pgsStringGen :: "ushort \<Rightarrow> ushort \<Rightarrow> 8 word \<Rightarrow> int \<Rightarrow> string \<Rightarrow> string_gen" where
  "pgsStringGen w_size_min w_size_max nb_words seed characters =
     (let cs = init_characters characters;
          lo = min w_size_min w_size_max; hi = max w_size_min w_size_max in
      \<lparr>st_nb_words = nb_words, st_characters = cs,
       st_w_size = pgsIntegerGen (uint lo) (uint hi) False seed,
       st_letter = pgsIntegerGen 0 (int (length cs) - 1) False seed\<rparr>)"

definition random_long :: "int_gen \<Rightarrow> (int \<times> int_gen) option" where
  "random_long g = map_option (\<lambda>(s, h). (atoi s, h)) (int_gen_random g)"

text \<open>The inner loop: \<open>n\<close> letters; an index outside the vector has no value.\<close>

primrec string_letters :: "string \<Rightarrow> nat \<Rightarrow> int_gen \<Rightarrow> (string \<times> int_gen) option" where
  "string_letters cs 0 g = Some ([], g)"
| "string_letters cs (Suc n) g =
     (case random_long g of
        None \<Rightarrow> None
      | Some (i, h) \<Rightarrow>
          if 0 \<le> i \<and> i < int (length cs)
          then map_option (\<lambda>(s, k). (cs ! nat i # s, k)) (string_letters cs n h)
          else None)"

text \<open>The outer loop: \<open>n\<close> words still to come; no space after the last one.\<close>

primrec string_words :: "nat \<Rightarrow> string_gen \<Rightarrow> (string \<times> string_gen) option" where
  "string_words 0 g = Some ([], g)"
| "string_words (Suc n) g =
     (case random_long (st_w_size g) of
        None \<Rightarrow> None
      | Some (w_size, ws) \<Rightarrow>
        (case string_letters (st_characters g) (nat w_size) (st_letter g) of
           None \<Rightarrow> None
         | Some (word, lt) \<Rightarrow>
             map_option
               (\<lambda>(s, k). (word @ (if 0 < w_size \<and> n \<noteq> 0 then '' '' else []) @ s, k))
               (string_words n (g\<lparr>st_w_size := ws, st_letter := lt\<rparr>))))"

definition string_random :: "string_gen \<Rightarrow> (string \<times> string_gen) option" where
  "string_random g = string_words (unat (st_nb_words g)) g"

section \<open>Division by a power of ten is exact\<close>

lemma ndigits_9: "m \<noteq> 0 \<Longrightarrow> ndigits (9 * m) \<le> ndigits m + 1"
proof -
  assume m: "m \<noteq> 0"
  have b9: "10 ^ nat (ndigits (9 * m) - 1) \<le> \<bar>9 * m\<bar>" using ndigits_bounds[of "9 * m"] m by simp
  have b: "1 \<le> ndigits m" "\<bar>m\<bar> < 10 ^ nat (ndigits m)" using ndigits_bounds[OF m] by auto
  have "\<bar>9 * m\<bar> < 10 * 10 ^ nat (ndigits m)" using b by (simp add: abs_mult)
  also have "\<dots> = 10 ^ nat (ndigits m + 1)" using b(1) by (simp add: nat_add_distrib)
  finally have "(10::int) ^ nat (ndigits (9 * m) - 1) < 10 ^ nat (ndigits m + 1)" using b9 by linarith
  then have "nat (ndigits (9 * m) - 1) < nat (ndigits m + 1)"
    using power_less_imp_less_exp[of "10::int"] by simp
  then show ?thesis using b(1) by linarith
qed

lemma mapm_of_int_pow10: "mapm_of_int (10 ^ p) = Mapm 1 (int p)"
proof -
  have "mapm_of_int (10 ^ p) = mk_mapm (1 * 10 ^ p) 0" by (simp add: mapm_of_int_def)
  also have "\<dots> = Mapm 1 (int p)" by (subst mk_mapm_pow) (simp_all add: mk_mapm_id)
  finally show ?thesis .
qed

lemma ndigits_small: "0 < m \<Longrightarrow> m < 10 \<Longrightarrow> ndigits m = 1"
  by (rule ndigits_unique) auto

lemma sdivide_pow10:
  assumes "mant a \<noteq> 0" "ndigits (mant a) \<le> places"
  shows "mapm_val (sdivide places a (Mapm 1 (int p))) = mapm_val a / 10 ^ p"
proof -
  let ?b = "Mapm 1 (int p)"
  define s where "s = sdivide_iterations places a ?b - sdivide_rexp a ?b"
  define e where "e = expo a - int p + s"
  have dec1: "dec (Suc 0) = ''1''" by (simp add: dec_small digit_char_def)
  have k: "sdivide_scale ?b = 9"
    by (simp add: sdivide_scale_def first_byte_def Let_def dec1)
  have nexp: "sdivide_nexp a ?b = ndigits (9 * mant a) + expo a - (1 + int p)"
    by (simp add: sdivide_nexp_def k ndigits_small)
  have s: "sdivide_iterations places a ?b - (sdivide_nexp a ?b + 1) \<le> s"
    by (simp add: s_def sdivide_rexp_def Let_def)
  have "0 \<le> e"
    using s ndigits_9[OF assms(1)] assms(2) unfolding e_def sdivide_iterations_def nexp
    by (auto split: if_splits)
  have v: "mapm_val (sdivide places a ?b)
      = of_int (sgn (mant a) * floor_shift \<bar>mant a\<bar> 1 e) * 10 powi (- s)"
    using assms(1) by (simp add: sdivide_def Let_def s_def[symmetric] val_mk e_def)
  have "floor_shift \<bar>mant a\<bar> 1 e = \<bar>mant a\<bar> * 10 ^ nat e"
    using \<open>0 \<le> e\<close> by (simp add: floor_shift_def)
  then have "sgn (mant a) * floor_shift \<bar>mant a\<bar> 1 e = mant a * 10 ^ nat e"
    by (simp add: mult.assoc[symmetric] sgn_mult_abs)
  moreover have "(10::rat) ^ nat e = 10 powi e" using \<open>0 \<le> e\<close> by (simp add: power_int_def)
  ultimately have "mapm_val (sdivide places a ?b) = of_int (mant a) * (10 powi e * 10 powi (- s))"
    unfolding v by simp
  also have "(10::rat) powi e * 10 powi (- s) = 10 powi (expo a - int p)"
    by (simp add: e_def flip: power_int_add)
  finally show ?thesis
    by (cases a) (simp add: power_int_diff)
qed

text \<open>A quotient by a power of ten is exact as long as the division stays below 250 digits.\<close>

lemma mapm_over_pow10:
  assumes "normal a" "ndigits (mant a) < 250"
  shows "mapm_val (mapm_over rd a (mapm_of_int (10 ^ p))) = mapm_val a / 10 ^ p"
proof (cases "mant a = 0")
  case True
  then show ?thesis using assms(1)
    by (cases a) (simp add: mapm_over_def mapm_divide_def val_zero)
next
  case False
  have "ndigits 1 = 1" by (simp add: ndigits_small)
  then have "mapm_digits a (Mapm 1 (int p)) = max (ndigits (mant a)) 30"
    by (simp add: mapm_digits_def)
  then show ?thesis
    using False assms(2) sdivide_pow10[OF False, of "max (ndigits (mant a)) 30"]
    by (simp add: mapm_over_def mapm_divide_def mapm_of_int_pow10)
qed

section \<open>Real generators are periodic\<close>

lemma mapm_int_of_int [num_simps]: "mapm_int (mapm_of_int i) = i"
proof -
  have "rat_of_int (mapm_int (mapm_of_int i)) = mapm_val (mapm_of_int i)"
    using expo_of_int[of i]
    by (cases "mapm_of_int i") (simp add: mapm_int_def power_int_def)
  then show ?thesis by (simp add: val_of_int)
qed

lemma normal_min_max [num_simps]:
  "normal a \<Longrightarrow> normal b \<Longrightarrow> normal (mapm_min a b)"
  "normal a \<Longrightarrow> normal b \<Longrightarrow> normal (mapm_max a b)"
  "mapm_val (mapm_min a b) = min (mapm_val a) (mapm_val b)"
  "mapm_val (mapm_max a b) = max (mapm_val a) (mapm_val b)"
  by (auto simp: mapm_min_def mapm_max_def less_val)

text \<open>The number of steps of \<open>10 ^ -p\<close> between the bounds.\<close>

definition real_steps :: "rat \<Rightarrow> rat \<Rightarrow> nat \<Rightarrow> int" where
  "real_steps lo hi p = \<lfloor>(hi - lo) * 10 ^ p\<rfloor>"

lemma real_int_max:
  "rg_int_max (pgsRealGen mn mx precision sq seed) =
     real_steps (min (mapm_val mn) (mapm_val mx)) (max (mapm_val mn) (mapm_val mx)) (unat precision) + 1"
  by (simp add: pgsRealGen_def Let_def mapm_round_trunc normal_ops of_int_ops mapm_int_of_int
      real_steps_def trunc_rat_def val_mul val_sub val_of_int normal_min_max
      mult_less_0_iff)

definition real_start :: "mapm \<Rightarrow> mapm \<Rightarrow> int \<Rightarrow> real_gen \<Rightarrow> bool" where
  "real_start m pw N g \<longleftrightarrow>
     rg_min g = m \<and> rg_pow g = pw \<and>
     (\<exists>sg. rg_randomizer g = Sequential sg \<and> period_start sg \<and> sg_range sg = max 1 N)"

lemma draws_real_sequential:
  "draws (real_value rd) n (g\<lparr>rg_randomizer := Sequential sg\<rparr>) =
     map_option
       (\<lambda>(xs, h). (map (\<lambda>x. mapm_add (mapm_over rd (mapm_of_int x) (rg_pow g)) (rg_min g)) xs,
                   g\<lparr>rg_randomizer := Sequential h\<rparr>))
       (draws seq_random n sg)"
  by (rule draws_map)
    (simp add: real_value_def option.map_comp comp_def case_prod_beta')

definition real_of_step ::
  "(int \<Rightarrow> mapm \<Rightarrow> mapm \<Rightarrow> mapm) \<Rightarrow> mapm \<Rightarrow> mapm \<Rightarrow> int \<Rightarrow> mapm" where
  "real_of_step rd m pw x = mapm_add (mapm_over rd (mapm_of_int x) pw) m"

lemma real_period:
  assumes "real_start m pw N g"
  shows "\<exists>out h. draws (real_value rd) (nat (max 1 N)) g = Some (out, h)
    \<and> mset out = image_mset (real_of_step rd m pw) (mset_set {0..<max 1 N}) \<and> real_start m pw N h"
proof -
  obtain sg where g: "rg_randomizer g = Sequential sg" "period_start sg" "sg_range sg = max 1 N"
    and m: "rg_min g = m" "rg_pow g = pw" using assms by (auto simp: real_start_def)
  have g': "g\<lparr>rg_randomizer := Sequential sg\<rparr> = g" using g(1) by simp
  from sq.period[of sg N] g obtain out h where
    o: "draws seq_random (nat (max 1 N)) sg = Some (out, h)" "mset out = mset_set {0..<max 1 N}"
      "period_start h" "sg_range h = max 1 N" by blast
  show ?thesis
    using draws_real_sequential[of rd "nat (max 1 N)" sg g, unfolded g'] o m
    by (auto simp: real_start_def real_of_step_def[abs_def])
qed

interpretation rl: periodic "real_value rd" "real_start m pw N" "nat (max 1 N)"
  "image_mset (real_of_step rd m pw) (mset_set {0..<max 1 N})" for rd m pw N
  by unfold_locales (use real_period in auto)

lemma ndigits_mant_of_int: "\<bar>x\<bar> < 10 ^ k \<Longrightarrow> x \<noteq> 0 \<Longrightarrow> ndigits (mant (mapm_of_int x)) \<le> int k"
proof -
  assume x: "\<bar>x\<bar> < 10 ^ k" "x \<noteq> 0"
  define m e where "m = mant (mapm_of_int x)" and "e = nat (expo (mapm_of_int x))"
  have me: "x = m * 10 ^ e" using mapm_int_of_int[of x] by (simp add: mapm_int_def m_def e_def)
  then have m0: "m \<noteq> 0" using x(2) by auto
  have "\<bar>m\<bar> * 1 \<le> \<bar>m\<bar> * 10 ^ e" by (intro mult_left_mono) simp_all
  then have "\<bar>m\<bar> < 10 ^ k" using x(1) by (simp add: me abs_mult)
  then have "(10::int) ^ nat (ndigits m - 1) < 10 ^ k" using ndigits_bounds[OF m0] by linarith
  then have "nat (ndigits m - 1) < k" using power_less_imp_less_exp[of "10::int"] by simp
  then show ?thesis unfolding m_def by linarith
qed

lemma val_real_of_step:
  assumes "0 \<le> x" "x < 10 ^ 249"
  shows "mapm_val (real_of_step rd m (mapm_of_int (10 ^ p)) x) = mapm_val m + of_int x / 10 ^ p"
proof -
  have "ndigits (mant (mapm_of_int x)) < 250"
    using ndigits_mant_of_int[of x 249] assms
    by (cases "x = 0") (auto simp: mapm_of_int_def mk_mapm_0 ndigits_def dec_small)
  then show ?thesis
    by (simp add: real_of_step_def val_add mapm_over_pow10 normal_ops val_of_int)
qed

lemma real_start_new:
  assumes "0 \<le> seed" "normal mn" "normal mx"
  shows "real_start (mapm_min mn mx) (mapm_of_int (10 ^ unat precision))
    (rg_int_max (pgsRealGen mn mx precision True seed)) (pgsRealGen mn mx precision True seed)"
proof -
  define N where "N = rg_int_max (pgsRealGen mn mx precision True seed)"
  have "0 \<le> real_steps (min (mapm_val mn) (mapm_val mx)) (max (mapm_val mn) (mapm_val mx)) (unat precision)"
    by (auto simp: real_steps_def intro!: mult_nonneg_nonneg)
  then have N: "0 < N" by (simp add: N_def real_int_max)
  have "rg_randomizer (pgsRealGen mn mx precision True seed)
      = Sequential (pgsSequentialIntGen N (object_seed seed))"
    by (simp add: N_def pgsRealGen_def Let_def)
  moreover have "period_start (pgsSequentialIntGen N (object_seed seed))"
    using N assms(1) by (intro period_start_new) (simp_all add: object_seed_def)
  ultimately show ?thesis
    using N by (simp add: real_start_def N_def[symmetric])
      (simp add: pgsRealGen_def Let_def pgsSequentialIntGen_def)
qed

section \<open>String generators\<close>

lemma random_long_value [gen_simps]: "random_long g = int_gen_value g"
  by (cases "int_gen_value g")
    (auto simp: random_long_def int_gen_random_def str_of_int atoi_int_text)

lemma string_letters_shape:
  "string_letters cs n g = Some (s, h) \<Longrightarrow> length s = n \<and> set s \<subseteq> set cs"
  by (induction n arbitrary: g s) (fastforce split: option.splits if_splits)+

lemma string_words_shape:
  "string_words n g = Some (s, h) \<Longrightarrow> set s \<subseteq> insert CHR '' '' (set (st_characters g))"
proof (induction n arbitrary: g s)
  case (Suc n)
  then obtain w ws word lt s' where
    w: "string_letters (st_characters g) (nat w) (st_letter g) = Some (word, lt)"
    and r: "string_words n (g\<lparr>st_w_size := ws, st_letter := lt\<rparr>) = Some (s', h)"
    and s: "s = word @ (if 0 < w \<and> n \<noteq> 0 then '' '' else []) @ s'"
    by (auto split: option.splits)
  show ?case using Suc.IH[OF r] string_letters_shape[OF w] s by auto
qed simp

lemma image_repeat: "image_mset f (repeat_mset n A) = repeat_mset n (image_mset f A)"
  by (induction n) simp_all

section \<open>Properties of the real and string generators\<close>

text \<open>A sequential real generator (\<open>real(a, b, p, 1, seed)\<close>) with a non-negative seed emits in
  each period every number \<open>lo + k / 10 ^ p\<close> up to its upper bound exactly once: the decimal
  division in \<open>random()\<close> loses nothing and no value leaves the bounds.\<close>

theorem real_gen_permutation:
  assumes "0 \<le> seed" "normal mn" "normal mx"
    and "lo = min (mapm_val mn) (mapm_val mx)" "hi = max (mapm_val mn) (mapm_val mx)"
    and "real_steps lo hi (unat precision) < 10 ^ 249"
  shows "\<exists>out h.
    draws (real_value rd) (n * nat (real_steps lo hi (unat precision) + 1))
      (pgsRealGen mn mx precision True seed) = Some (out, h)
    \<and> image_mset mapm_val (mset out)
      = repeat_mset n (image_mset (\<lambda>k. lo + of_int k / 10 ^ unat precision)
          (mset_set {0..real_steps lo hi (unat precision)}))"
proof -
  let ?g = "pgsRealGen mn mx precision True seed"
  let ?N = "real_steps lo hi (unat precision) + 1"
  have N: "rg_int_max ?g = ?N" by (simp add: real_int_max assms(4,5))
  have pos: "max 1 ?N = ?N"
    by (auto simp: real_steps_def assms(4,5) intro!: mult_nonneg_nonneg)
  from rl.periods[OF real_start_new[OF assms(1-3), of precision], of rd n, unfolded N pos]
  obtain out h where o: "draws (real_value rd) (n * nat ?N) ?g = Some (out, h)"
    "mset out = repeat_mset n (image_mset (real_of_step rd (mapm_min mn mx)
       (mapm_of_int (10 ^ unat precision))) (mset_set {0..<?N}))" by blast
  have "image_mset mapm_val (mset out) = repeat_mset n (image_mset (\<lambda>k. lo + of_int k / 10 ^ unat precision)
      (mset_set {0..<?N}))"
    unfolding o(2) using assms(6)
    by (auto simp: image_repeat val_real_of_step normal_min_max assms(4) multiset.map_comp
        intro!: arg_cong[of _ _ "repeat_mset n"] image_mset_cong)
  then show ?thesis using o(1) by (simp add: atLeastLessThanPlusOne_atLeastAtMost_int)
qed

theorem real_gen_permutation_witness:
  "\<exists>out h.
    draws (real_value sdivide) (3 * nat (real_steps (min 0 1) (max 0 1) (unat (2 :: 8 word)) + 1))
      (pgsRealGen (mapm_of_int 0) (mapm_of_int 1) 2 True 5) = Some (out, h)
    \<and> image_mset mapm_val (mset out)
      = repeat_mset 3 (image_mset (\<lambda>k. min 0 1 + of_int k / 10 ^ unat (2 :: 8 word))
          (mset_set {0..real_steps (min 0 1) (max 0 1) (unat (2 :: 8 word))}))"
  by (rule real_gen_permutation) (simp_all add: normal_ops val_of_int real_steps_def)

text \<open>The default character vector has 62 letters, and a letter index of 62 is reached: with
  the state \<open>m - 1\<close> of the normal generator a string generator reads past the end of its vector.\<close>

theorem string_gen_out_of_range:
  "string_random (pgsStringGen 1 1 1 1190715800 []) = None"
proof -
  have "random_long (pgsIntegerGen 1 1 False 1190715800) \<noteq> None
      \<and> map_option fst (random_long (pgsIntegerGen 1 1 False 1190715800)) = Some 2"
    by (simp add: random_long_value pgsIntegerGen_def pgsNormalIntGen_closed int_gen_value_def
        object_seed_def normal_random_def Let_def arg_m_def m_top_def)
  then obtain ws where w: "random_long (pgsIntegerGen 1 1 False 1190715800) = Some (2, ws)" by auto
  have "map_option fst (random_long (pgsIntegerGen 0 61 False 1190715800)) = Some 62"
    by (simp add: random_long_value pgsIntegerGen_def pgsNormalIntGen_closed int_gen_value_def
        object_seed_def normal_random_def Let_def arg_m_def m_top_def)
  then obtain lt where l: "random_long (pgsIntegerGen 0 61 False 1190715800) = Some (62, lt)" by auto
  show ?thesis
    using w l by (simp add: string_random_def pgsStringGen_def init_characters_def Let_def eval_nat_numeral)
qed

end
