(* ===== verification/PgsCalendarGen.thy ===== *)
theory PgsCalendarGen
  imports Generators
begin

text \<open>
  The generators of dates, times and timestamps: \<open>pgsDateGen.cpp\<close>, \<open>pgsTimeGen.cpp\<close> and
  \<open>pgsDateTimeGen.cpp\<close>. An instant is its count of milliseconds. The calendar of \<open>wxDateTime\<close> (its
  parsers, its printers and the arithmetic of \<open>wxDateSpan\<close>) is a parameter; a \<open>wxTimeSpan\<close> is a
  number of milliseconds. Shown: a sequential generator prints in each period every day, or every
  second, between its bounds exactly once.
\<close>

section \<open>The calendar\<close>

record calendar =
  cal_parse_date :: "string \<Rightarrow> int option"  \<comment> \<open>\<open>ParseDate\<close>, \<open>None\<close> for a null result\<close>
  cal_parse_time :: "string \<Rightarrow> int option"
  cal_parse_date_time :: "string \<Rightarrow> int option"
  cal_valid :: "int \<Rightarrow> bool"  \<comment> \<open>\<open>IsValid\<close>\<close>
  cal_add_days :: "int \<Rightarrow> int \<Rightarrow> int"  \<comment> \<open>\<open>Add(wxDateSpan(0, 0, 0, days))\<close>\<close>
  cal_first_of_1970 :: "int \<Rightarrow> int"  \<comment> \<open>\<open>SetYear(1970)\<close>, \<open>SetMonth(Jan)\<close>, \<open>SetDay(1)\<close>\<close>
  cal_iso_date :: "int \<Rightarrow> string"
  cal_iso_time :: "int \<Rightarrow> string"
  cal_date_time :: "int \<Rightarrow> string"  \<comment> \<open>the format \<open>%Y-%m-%d %H:%M:%S\<close>\<close>

text \<open>A C++ \<open>int\<close>.\<close>

definition to_int :: "int \<Rightarrow> int" where
  "to_int i = signed_take_bit 31 i"

definition time_span :: "int \<Rightarrow> int \<Rightarrow> int \<Rightarrow> int \<Rightarrow> int" where
  "time_span hours minutes seconds milliseconds =
     ((hours * 60 + minutes) * 60 + seconds) * 1000 + milliseconds"

definition span_seconds :: "int \<Rightarrow> int" where
  "span_seconds ms = cdiv ms 1000"

definition span_days :: "int \<Rightarrow> int" where
  "span_days ms = cdiv ms 86400000"

section \<open>The generators\<close>

text \<open>The fields of the three classes are the same.\<close>

record calendar_gen =
  cg_min :: int
  cg_max :: int
  cg_range :: int
  cg_sequence :: bool
  cg_randomizer :: int_gen

definition pgsDateGen :: "int \<Rightarrow> int \<Rightarrow> bool \<Rightarrow> int \<Rightarrow> calendar_gen" where
  "pgsDateGen mn mx sequence seed =
     (let lo = (if mn < mx \<or> mn = mx then mn else mx); hi = (if mn < mx \<or> mx = mn then mx else mn);
          range = to_int (span_days (hi - lo)) in
      \<lparr>cg_min = lo, cg_max = hi, cg_range = range, cg_sequence = sequence,
       cg_randomizer = pgsIntegerGen 0 range sequence (object_seed seed)\<rparr>)"

definition date_random :: "calendar \<Rightarrow> calendar_gen \<Rightarrow> (string \<times> calendar_gen) option" where
  "date_random cal g =
     map_option
       (\<lambda>(x, r). (cal_iso_date cal (cal_add_days cal (cg_min g) (to_int x)), g\<lparr>cg_randomizer := r\<rparr>))
       (random_long (cg_randomizer g))"

definition pgsTimeGen :: "calendar \<Rightarrow> int \<Rightarrow> int \<Rightarrow> bool \<Rightarrow> int \<Rightarrow> calendar_gen" where
  "pgsTimeGen cal mn mx sequence seed =
     (let lo = (if mn < mx \<or> mn = mx then mn else mx); hi = (if mn < mx \<or> mx = mn then mx else mn);
          range = span_seconds (hi - lo) in
      \<lparr>cg_min = cal_first_of_1970 cal lo, cg_max = hi, cg_range = range, cg_sequence = sequence,
       cg_randomizer = pgsIntegerGen 0 range sequence (object_seed seed)\<rparr>)"

definition time_random :: "calendar \<Rightarrow> calendar_gen \<Rightarrow> (string \<times> calendar_gen) option" where
  "time_random cal g =
     map_option
       (\<lambda>(x, r). (cal_iso_time cal (cg_min g + time_span 0 0 x 0), g\<lparr>cg_randomizer := r\<rparr>))
       (random_long (cg_randomizer g))"

definition pgsDateTimeGen :: "int \<Rightarrow> int \<Rightarrow> bool \<Rightarrow> int \<Rightarrow> calendar_gen" where
  "pgsDateTimeGen mn mx sequence seed =
     (let lo = (if mn < mx \<or> mn = mx then mn else mx); hi = (if mn < mx \<or> mx = mn then mx else mn);
          range = span_seconds (hi - lo) in
      \<lparr>cg_min = lo, cg_max = hi, cg_range = range, cg_sequence = sequence,
       cg_randomizer = pgsIntegerGen 0 range sequence (object_seed seed)\<rparr>)"

text \<open>The drawn seconds are split into hours and seconds, through decimal texts.\<close>

definition hours_and_seconds :: "string \<Rightarrow> int \<times> int" where
  "hours_and_seconds drawn =
     (let result = pgs_str_mapm drawn; quot = integer_divide result (mapm_of_int 3600);
          rem = integer_rem result (mapm_of_int 3600)
      in (atoi (pgs_mapm_str quot True), atoi (pgs_mapm_str rem True)))"

definition date_time_random :: "calendar \<Rightarrow> calendar_gen \<Rightarrow> (string \<times> calendar_gen) option" where
  "date_time_random cal g =
     map_option
       (\<lambda>(drawn, r). let (hours, seconds) = hours_and_seconds drawn in
          (cal_date_time cal (cg_min g + time_span hours 0 seconds 0), g\<lparr>cg_randomizer := r\<rparr>))
       (int_gen_random (cg_randomizer g))"

section \<open>What a draw prints\<close>

lemma hours_and_seconds_span:
  "(case hours_and_seconds (int_text x) of (h, s) \<Rightarrow> time_span h 0 s 0) = 1000 * x"
proof -
  have "pgs_str_mapm (int_text x) = mapm_of_int x" by (simp add: pgs_str_mapm_def parse_int_text)
  then have "hours_and_seconds (int_text x) = (cdiv x 3600, cmod x 3600)"
    by (simp add: hours_and_seconds_def integer_divide_of_int integer_rem_of_int num_simps atoi_int_text)
  then show ?thesis by (simp add: time_span_def cmod_def algebra_simps)
qed

text \<open>A generator of integers under a printer: its sequential form prints every value once per
  period.\<close>

lemma printed_periods:
  assumes step: "\<And>g. step g = map_option
      (\<lambda>(x, r). (f (cg_min g) x, g\<lparr>cg_randomizer := r\<rparr>)) (int_gen_value (cg_randomizer g))"
    and start: "int_start 0 n (cg_randomizer g)" and n: "0 \<le> n"
  shows "\<exists>out h. draws step (k * nat (n + 1)) g = Some (out, h)
    \<and> mset out = repeat_mset k (image_mset (f (cg_min g)) (mset_set {0..n}))"
proof -
  have "draws step m (g\<lparr>cg_randomizer := r\<rparr>)
      = map_option (\<lambda>(xs, h). (map (f (cg_min g)) xs, g\<lparr>cg_randomizer := h\<rparr>)) (draws int_gen_value m r)" for m r
    by (rule draws_map) (simp add: step case_prod_beta')
  from this[of _ "cg_randomizer g"]
  have "draws step m g = map_option (\<lambda>(xs, h). (map (f (cg_min g)) xs, g\<lparr>cg_randomizer := h\<rparr>))
      (draws int_gen_value m (cg_randomizer g))" for m
    by simp
  moreover have "\<exists>out h. draws int_gen_value (k * nat (n + 1)) (cg_randomizer g) = Some (out, h)
      \<and> mset out = repeat_mset k (mset_set {0..n})"
    using ig.periods[of 0 n "cg_randomizer g" k] start n by auto
  ultimately show ?thesis by (auto simp: image_repeat)
qed

lemma date_random_value: "date_random cal g =
    map_option (\<lambda>(x, r). (cal_iso_date cal (cal_add_days cal (cg_min g) (to_int x)), g\<lparr>cg_randomizer := r\<rparr>))
      (int_gen_value (cg_randomizer g))"
  by (simp add: date_random_def gen_simps)

lemma time_random_value: "time_random cal g =
    map_option (\<lambda>(x, r). (cal_iso_time cal (cg_min g + 1000 * x), g\<lparr>cg_randomizer := r\<rparr>))
      (int_gen_value (cg_randomizer g))"
  by (simp add: time_random_def gen_simps time_span_def mult.commute)

lemma date_time_random_value: "date_time_random cal g =
    map_option (\<lambda>(x, r). (cal_date_time cal (cg_min g + 1000 * x), g\<lparr>cg_randomizer := r\<rparr>))
      (int_gen_value (cg_randomizer g))"
  using hours_and_seconds_span
  by (auto simp: date_time_random_def int_gen_random_def option.map_comp comp_def case_prod_beta' Let_def
      str_of_int intro!: option.map_cong)

lemma to_int_small: "0 \<le> x \<Longrightarrow> x < 2 ^ 31 \<Longrightarrow> to_int x = x"
  by (simp add: to_int_def signed_take_bit_int_eq_self)

lemma span_nonneg: "0 \<le> ms \<Longrightarrow> span_days ms = ms div 86400000" "0 \<le> ms \<Longrightarrow> span_seconds ms = ms div 1000"
  by (cases "ms = 0"; simp add: span_days_def span_seconds_def cdiv_def)+

lemma int_start_object_seed: "0 \<le> seed \<Longrightarrow> 0 \<le> n \<Longrightarrow> int_start 0 n (pgsIntegerGen 0 n True (object_seed seed))"
  using int_start_new[of "object_seed seed" 0 n] by (simp add: object_seed_def split: if_splits)

lemma calendar_bounds:
  "(if mn < mx \<or> mn = mx then mn else mx) = min mn (mx :: int)"
  "(if mn < mx \<or> mx = mn then mx else mn) = max mn (mx :: int)"
  by auto

section \<open>Property of the calendar generators\<close>

text \<open>C22. The sequential generators of dates, times and timestamps (\<open>date(a, b, 1, seed)\<close>,
  \<open>time\<close>, \<open>datetime\<close>), whatever the calendar and the order of the bounds: with a non-negative seed
  each period prints every day of a whole span of days, and every second of the span, exactly once,
  counted from the earlier bound. The split of the seconds into hours and seconds loses nothing.\<close>

theorem calendar_gen_permutation:
  assumes "0 \<le> seed" "lo = min mn mx" "hi = max mn mx"
    and "days = (hi - lo) div 86400000" "days < 2 ^ 31" "secs = (hi - lo) div 1000"
  shows "(\<exists>out h. draws (date_random cal) (k * nat (days + 1)) (pgsDateGen mn mx True seed) = Some (out, h)
      \<and> mset out = repeat_mset k
          (image_mset (\<lambda>d. cal_iso_date cal (cal_add_days cal lo d)) (mset_set {0..days})))
    \<and> (\<exists>out h. draws (time_random cal) (k * nat (secs + 1)) (pgsTimeGen cal mn mx True seed) = Some (out, h)
      \<and> mset out = repeat_mset k
          (image_mset (\<lambda>s. cal_iso_time cal (cal_first_of_1970 cal lo + 1000 * s)) (mset_set {0..secs})))
    \<and> (\<exists>out h. draws (date_time_random cal) (k * nat (secs + 1)) (pgsDateTimeGen mn mx True seed) = Some (out, h)
      \<and> mset out = repeat_mset k
          (image_mset (\<lambda>s. cal_date_time cal (lo + 1000 * s)) (mset_set {0..secs})))"
proof -
  have b: "0 \<le> hi - lo" using assms(2,3) by simp
  have d: "0 \<le> days" and s: "0 \<le> secs" using b assms(4,6) by (simp_all add: pos_imp_zdiv_nonneg_iff)
  have range: "to_int (span_days (hi - lo)) = days" "span_seconds (hi - lo) = secs"
    using d assms(4-6) b by (simp_all add: span_nonneg to_int_small)
  note new = pgsDateGen_def pgsTimeGen_def pgsDateTimeGen_def Let_def calendar_bounds range
    assms(2)[symmetric] assms(3)[symmetric] int_start_object_seed[OF assms(1)] d s
  have "image_mset (\<lambda>d. cal_iso_date cal (cal_add_days cal lo (to_int d))) (mset_set {0..days})
      = image_mset (\<lambda>d. cal_iso_date cal (cal_add_days cal lo d)) (mset_set {0..days})"
    using assms(5) by (intro image_mset_cong) (simp add: to_int_small)
  then show ?thesis
    using printed_periods[where f = "\<lambda>m d. cal_iso_date cal (cal_add_days cal m (to_int d))", OF date_random_value, of days "pgsDateGen mn mx True seed" k]
      printed_periods[where f = "\<lambda>m s. cal_iso_time cal (m + 1000 * s)", OF time_random_value, of secs "pgsTimeGen cal mn mx True seed" k]
      printed_periods[where f = "\<lambda>m s. cal_date_time cal (m + 1000 * s)", OF date_time_random_value, of secs "pgsDateTimeGen mn mx True seed" k]
    by (simp add: new)
qed

text \<open>A calendar of days of 24 hours that prints the count of milliseconds.\<close>

definition plain_calendar :: calendar where
  "plain_calendar =
     \<lparr>cal_parse_date = (\<lambda>t. None), cal_parse_time = (\<lambda>t. None), cal_parse_date_time = (\<lambda>t. None),
      cal_valid = (\<lambda>m. True),
      cal_add_days = (\<lambda>m d. m + 86400000 * d), cal_first_of_1970 = (\<lambda>m. m mod 86400000),
      cal_iso_date = int_text, cal_iso_time = int_text, cal_date_time = int_text\<rparr>"

theorem calendar_gen_permutation_witness:
  "(\<exists>out h. draws (date_random plain_calendar) (2 * nat (1 + 1)) (pgsDateGen 172800000 86400000 True 3) = Some (out, h)
      \<and> mset out = repeat_mset 2
          (image_mset (\<lambda>d. cal_iso_date plain_calendar (cal_add_days plain_calendar 86400000 d)) (mset_set {0..1})))
    \<and> (\<exists>out h. draws (time_random plain_calendar) (2 * nat (86400 + 1))
        (pgsTimeGen plain_calendar 172800000 86400000 True 3) = Some (out, h)
      \<and> mset out = repeat_mset 2
          (image_mset (\<lambda>s. cal_iso_time plain_calendar (cal_first_of_1970 plain_calendar 86400000 + 1000 * s))
            (mset_set {0..86400})))
    \<and> (\<exists>out h. draws (date_time_random plain_calendar) (2 * nat (86400 + 1))
        (pgsDateTimeGen 172800000 86400000 True 3) = Some (out, h)
      \<and> mset out = repeat_mset 2
          (image_mset (\<lambda>s. cal_date_time plain_calendar (86400000 + 1000 * s)) (mset_set {0..86400})))"
  by (rule calendar_gen_permutation [where hi = 172800000]) simp_all

end
