(* ===== verification/PgsDictionaryGen.thy ===== *)
theory PgsDictionaryGen
  imports Generators
begin

text \<open>
  The generator of \<open>pgsDictionaryGen.cpp\<close>: a random line of a file. The file system and the decoding
  of texts are a parameter \<open>files\<close>: for a path and an encoding, the texts that successive calls of
  \<open>ReadLine\<close> give, up to and including the call at which \<open>Eof\<close> becomes true; \<open>None\<close> for a path whose file
  does not exist or cannot be read. Shown: the lines that can be drawn are those before the first
  empty one and before the last call, and a sequential generator draws each once per period.
\<close>

type_synonym files = "string \<Rightarrow> (string \<Rightarrow> string list) option"

record dictionary_gen =
  di_file_path :: string
  di_conv :: string
  di_nb_lines :: int
  di_randomizer :: int_gen

text \<open>\<open>while (!(line = text.ReadLine()).IsEmpty() && !input.Eof()) ++result;\<close>\<close>

fun dict_count_loop :: "string list \<Rightarrow> int" where
  "dict_count_loop [] = 0"
| "dict_count_loop (line # reads) =
     (if line \<noteq> [] \<and> reads \<noteq> [] then 1 + dict_count_loop reads else 0)"

definition dict_count_lines :: "files \<Rightarrow> string \<Rightarrow> string \<Rightarrow> int" where
  "dict_count_lines files path conv =
     (case files path of None \<Rightarrow> 0 | Some reads \<Rightarrow> dict_count_loop (reads conv))"

text \<open>\<open>while (current_line < line_nb && !input.Eof())\<close>, then one more line.\<close>

fun dict_line_loop :: "int \<Rightarrow> int \<Rightarrow> string list \<Rightarrow> string" where
  "dict_line_loop current_line line_nb [] = []"
| "dict_line_loop current_line line_nb (line # reads) =
     (if current_line < line_nb then dict_line_loop (current_line + 1) line_nb reads else line)"

definition dict_get_line :: "files \<Rightarrow> dictionary_gen \<Rightarrow> int \<Rightarrow> string" where
  "dict_get_line files g line_nb =
     (if 0 < di_nb_lines g then
        (case files (di_file_path g) of
           None \<Rightarrow> []
         | Some reads \<Rightarrow> dict_line_loop 1 line_nb (reads (di_conv g)))
      else [])"

definition pgsDictionaryGen :: "files \<Rightarrow> string \<Rightarrow> bool \<Rightarrow> int \<Rightarrow> string \<Rightarrow> dictionary_gen" where
  "pgsDictionaryGen files path sequence seed conv =
     (let nb = dict_count_lines files path conv in
      \<lparr>di_file_path = path, di_conv = conv, di_nb_lines = nb,
       di_randomizer = pgsIntegerGen 1 nb sequence seed\<rparr>)"

definition dictionary_random :: "files \<Rightarrow> dictionary_gen \<Rightarrow> (string \<times> dictionary_gen) option" where
  "dictionary_random files g =
     map_option (\<lambda>(n, r). (dict_get_line files g n, g\<lparr>di_randomizer := r\<rparr>))
       (random_long (di_randomizer g))"

section \<open>The lines of a dictionary\<close>

text \<open>The specification: the texts before the first empty one, the last never among them.\<close>

definition dictionary_lines :: "string list \<Rightarrow> string list" where
  "dictionary_lines reads = takeWhile (\<lambda>l. l \<noteq> []) (butlast reads)"

lemma dict_count_lines_spec: "dict_count_loop reads = int (length (dictionary_lines reads))"
  by (induction reads rule: dict_count_loop.induct) (auto simp: dictionary_lines_def)

lemma dict_line_loop_nth:
  "k < length reads \<Longrightarrow> dict_line_loop c (c + int k) reads = reads ! k"
proof (induction reads arbitrary: c k)
  case (Cons l ls)
  show ?case
  proof (cases k)
    case (Suc j)
    then show ?thesis using Cons.IH[of j "c + 1"] Cons.prems by (simp add: algebra_simps)
  qed simp
qed simp

lemma dict_line_loop_spec:
  assumes "1 \<le> n" "n \<le> int (length (dictionary_lines reads))"
  shows "dict_line_loop 1 n reads = dictionary_lines reads ! nat (n - 1)"
proof -
  define k where "k = nat (n - 1)"
  have n: "n = 1 + int k" and k: "k < length (dictionary_lines reads)" using assms by (simp_all add: k_def)
  have "length (dictionary_lines reads) \<le> length (butlast reads)"
    unfolding dictionary_lines_def by (rule length_takeWhile_le)
  then have "k < length reads" "dictionary_lines reads ! k = reads ! k"
    using k by (auto simp: dictionary_lines_def takeWhile_nth nth_butlast)
  then show ?thesis by (simp add: n dict_line_loop_nth)
qed

lemma mset_nth_range: "image_mset (\<lambda>n. xs ! nat (n - 1)) (mset_set {1..int (length xs)}) = mset xs"
proof (induction xs rule: rev_induct)
  case (snoc x xs)
  have "{1..int (length (xs @ [x]))} = insert (int (length xs) + 1) {1..int (length xs)}" by auto
  moreover have "image_mset (\<lambda>n. (xs @ [x]) ! nat (n - 1)) (mset_set {1..int (length xs)})
      = image_mset (\<lambda>n. xs ! nat (n - 1)) (mset_set {1..int (length xs)})"
    by (rule image_mset_cong) (auto simp: nth_append)
  ultimately show ?case using snoc by simp
qed simp

lemma dictionary_draws:
  "draws (dictionary_random files) n g =
     map_option (\<lambda>(xs, h). (map (dict_get_line files g) xs, g\<lparr>di_randomizer := h\<rparr>))
       (draws int_gen_value n (di_randomizer g))"
proof -
  have line: "dict_get_line files (g\<lparr>di_randomizer := r\<rparr>) m = dict_get_line files g m" for r m
    by (simp add: dict_get_line_def cong: option.case_cong)
  have "draws (dictionary_random files) n (g\<lparr>di_randomizer := r\<rparr>)
      = map_option (\<lambda>(xs, h). (map (dict_get_line files g) xs, g\<lparr>di_randomizer := h\<rparr>))
          (draws int_gen_value n r)" for r
    by (rule draws_map) (simp add: dictionary_random_def gen_simps line case_prod_beta')
  from this[of "di_randomizer g"] show ?thesis by simp
qed

section \<open>Property of the dictionary generator\<close>

text \<open>C23. A sequential dictionary generator (\<open>file("words", 1, seed)\<close>) with a non-negative seed
  draws in each period each line before the first empty one exactly once, as often as the file
  repeats it, and never the text of the last read: a last line without a line end does not count.\<close>

theorem dictionary_gen_permutation:
  assumes "0 \<le> seed" "files path = Some decode" "reads = decode conv" "dictionary_lines reads \<noteq> []"
  shows "\<exists>out h. draws (dictionary_random files) (k * length (dictionary_lines reads))
      (pgsDictionaryGen files path True seed conv) = Some (out, h)
    \<and> mset out = repeat_mset k (mset (dictionary_lines reads))"
proof -
  let ?L = "dictionary_lines reads" and ?g = "pgsDictionaryGen files path True seed conv"
  have n: "1 \<le> int (length ?L)" using assms(4) by (cases ?L) auto
  have r: "di_randomizer ?g = pgsIntegerGen 1 (int (length ?L)) True seed"
    by (simp add: pgsDictionaryGen_def dict_count_lines_def dict_count_lines_spec assms(2) assms(3)[symmetric] Let_def)
  have line: "dict_get_line files ?g m = ?L ! nat (m - 1)" if "m \<in> {1..int (length ?L)}" for m
    using that n assms(4) by (simp add: dict_get_line_def pgsDictionaryGen_def dict_count_lines_def
        dict_count_lines_spec assms(2) assms(3)[symmetric] dict_line_loop_spec Let_def)
  have "\<exists>out h. draws int_gen_value (k * nat (max 1 (int (length ?L)) - min 1 (int (length ?L)) + 1))
        (pgsIntegerGen 1 (int (length ?L)) True seed) = Some (out, h)
      \<and> mset out = repeat_mset k (mset_set {min 1 (int (length ?L))..max 1 (int (length ?L))})"
    using ig.periods[OF int_start_new[OF assms(1)]] by blast
  then obtain out h where o: "draws int_gen_value (k * length ?L) (pgsIntegerGen 1 (int (length ?L)) True seed) = Some (out, h)"
    "mset out = repeat_mset k (mset_set {1..int (length ?L)})"
    using n by auto
  have "image_mset (dict_get_line files ?g) (mset_set {1..int (length ?L)}) = mset ?L"
    by (subst mset_nth_range[symmetric]) (rule image_mset_cong, use line in auto)
  then show ?thesis using o by (auto simp: dictionary_draws r image_repeat)
qed

theorem dictionary_gen_permutation_witness:
  "\<exists>out h. draws (dictionary_random (\<lambda>p. Some (\<lambda>c. [''b'', ''a'', ''b'', ''c''])))
      (2 * length (dictionary_lines [''b'', ''a'', ''b'', ''c'']))
      (pgsDictionaryGen (\<lambda>p. Some (\<lambda>c. [''b'', ''a'', ''b'', ''c''])) ''words'' True 4 ''utf-8'') = Some (out, h)
    \<and> mset out = repeat_mset 2 (mset (dictionary_lines [''b'', ''a'', ''b'', ''c'']))"
  by (rule dictionary_gen_permutation) (simp_all add: dictionary_lines_def)

end
