(* ===== verification/PgsRegexGen.thy ===== *)
theory PgsRegexGen
  imports Generators
begin

text \<open>
  The generator of \<open>pgsRegexGen.cpp\<close>: the pattern is rewritten to an XML text, the text is loaded by
  \<open>wxXmlDocument\<close> (a parameter: the tree of a text, when it is well formed), and each \<open>regex\<close> node
  becomes a string generator of one word. Shown: a pattern without special characters becomes one
  node per character, and equal pieces of a pattern always draw the same text, because every
  generator starts from the same seed.
\<close>

section \<open>From the pattern to XML\<close>

fun espace_xml_char :: "char \<Rightarrow> string" where
  "espace_xml_char c =
     (if c = CHR ''<'' then ''&lt;''
      else if c = CHR ''&'' then ''&amp;''
      else if c = CHR ''>'' then ''&gt;''
      else if c = CHR 0x22 then ''&quot;''
      else if c = CHR 0x27 then ''&apos;''
      else [c])"

declare espace_xml_char.simps [simp del]

text \<open>The characters strictly between two.\<close>

definition char_range :: "char \<Rightarrow> char \<Rightarrow> string" where
  "char_range b c =
     (let mn = min (of_char b) (of_char c) :: nat; mx = max (of_char b) (of_char c)
      in concat (map (\<lambda>i. espace_xml_char (char_of i)) [Suc mn..<mx]))"

record regex_scan =
  rs_escape :: bool
  rs_first_regex :: bool
  rs_list :: bool
  rs_result :: string

definition NL :: string where "NL = [CHR 0x0A]"

definition regex_close :: "regex_scan \<Rightarrow> string" where
  "regex_close s = (if rs_first_regex s then [] else '' </regex>'' @ NL)"

definition regex_open :: string where
  "regex_open = '' <regex>'' @ NL @ ''  <characters>''"

text \<open>A character that stands for itself.\<close>

definition regex_literal :: "char \<Rightarrow> regex_scan \<Rightarrow> regex_scan" where
  "regex_literal c s =
     (if rs_list s then s\<lparr>rs_result := rs_result s @ espace_xml_char c\<rparr>
      else s\<lparr>rs_first_regex := False,
             rs_result := rs_result s @ regex_close s @ regex_open @ espace_xml_char c @ ''</characters>'' @ NL\<rparr>)"

text \<open>One step of the loop, with the character before and the character after.\<close>

definition regex_step :: "char option \<Rightarrow> char \<Rightarrow> char option \<Rightarrow> regex_scan \<Rightarrow> regex_scan" where
  "regex_step before c after s =
     (if rs_escape s then (regex_literal c s)\<lparr>rs_escape := False\<rparr>
      else if rs_list s \<and> c = CHR ''-'' then
        (case (before, after) of
           (Some b, Some a) \<Rightarrow> s\<lparr>rs_result := rs_result s @ char_range b a\<rparr>
         | _ \<Rightarrow> s)
      else if c = CHR ''['' then
        s\<lparr>rs_first_regex := False, rs_list := True,
          rs_result := rs_result s @ regex_close s @ regex_open\<rparr>
      else if c = CHR '']'' then
        s\<lparr>rs_list := False, rs_result := rs_result s @ ''</characters>'' @ NL\<rparr>
      else if c = CHR ''{'' then
        s\<lparr>rs_list := True, rs_result := rs_result s @ ''  <range>''\<rparr>
      else if c = CHR ''}'' then
        s\<lparr>rs_list := False, rs_result := rs_result s @ ''</range>'' @ NL\<rparr>
      else if c = CHR 0x5C then s\<lparr>rs_escape := True\<rparr>
      else regex_literal c s)"

definition first_of :: "'a list \<Rightarrow> 'a option" where
  "first_of xs = (case xs of [] \<Rightarrow> None | x # _ \<Rightarrow> Some x)"

fun regex_loop :: "char option \<Rightarrow> string \<Rightarrow> regex_scan \<Rightarrow> regex_scan" where
  "regex_loop before [] s = s"
| "regex_loop before (c # cs) s = regex_loop (Some c) cs (regex_step before c (first_of cs) s)"

definition regex_head :: string where
  "regex_head = ''<regexpressions>'' @ NL"

definition regex_xml :: "string \<Rightarrow> string" where
  "regex_xml regex =
     (let s = regex_loop None regex
                \<lparr>rs_escape = False, rs_first_regex = True, rs_list = False, rs_result = regex_head\<rparr>;
          r = rs_result s
      in (if r \<noteq> regex_head then r @ '' </regex>'' @ NL else r) @ ''</regexpressions>'' @ NL)"

section \<open>From XML to string generators\<close>

datatype xml_node = Xml_node (xml_name: string) (xml_content: string) (xml_children: "xml_node list")

record regex_piece =
  rx_characters :: string
  rx_first :: int
  rx_second :: int

definition set_first :: "int \<Rightarrow> regex_piece \<Rightarrow> regex_piece" where
  "set_first first p = p\<lparr>rx_first := first, rx_second := first\<rparr>"

definition set_second :: "int \<Rightarrow> regex_piece \<Rightarrow> regex_piece" where
  "set_second second p =
     p\<lparr>rx_first := min (rx_first p) second, rx_second := max (rx_first p) second\<rparr>"

text \<open>The groups 1 and 3 of \<open>^([0-9]+)(,([0-9]+))?$\<close>; an unmatched group is empty.\<close>

definition match_range :: "string \<Rightarrow> (string \<times> string) option" where
  "match_range content =
     (let a = takeWhile is_digit content; r = dropWhile is_digit content in
      if a = [] then None
      else case r of
        [] \<Rightarrow> Some (a, [])
      | c # b \<Rightarrow> if c = CHR '','' \<and> b \<noteq> [] \<and> list_all is_digit b then Some (a, b) else None)"

text \<open>\<open>tl\<close> is \<open>ToLong\<close>.\<close>

definition regex_child :: "(string \<Rightarrow> int) \<Rightarrow> xml_node \<Rightarrow> regex_piece \<Rightarrow> regex_piece" where
  "regex_child to_l node p =
     (if xml_name node = ''characters'' then p\<lparr>rx_characters := rx_characters p @ xml_content node\<rparr>
      else if xml_name node = ''range'' then
        (case match_range (xml_content node) of
           None \<Rightarrow> p
         | Some (mn, smax) \<Rightarrow>
             let q = set_first (to_l mn) p in if smax = [] then q else set_second (to_l smax) q)
      else p)"

definition regex_node_piece :: "(string \<Rightarrow> int) \<Rightarrow> xml_node \<Rightarrow> regex_piece" where
  "regex_node_piece to_l node =
     fold (regex_child to_l) (xml_children node)
       (set_first 1 \<lparr>rx_characters = [], rx_first = 0, rx_second = 0\<rparr>)"

definition piece_gen :: "int \<Rightarrow> regex_piece \<Rightarrow> string_gen" where
  "piece_gen seed p =
     pgsStringGen (word_of_int (rx_first p)) (word_of_int (rx_second p)) 1 seed (rx_characters p)"

text \<open>The constructor: the string generators, or \<open>None\<close> when \<open>m_valid\<close> is false.\<close>

definition pgsRegexGen ::
  "(string \<Rightarrow> xml_node option) \<Rightarrow> (string \<Rightarrow> int) \<Rightarrow> string \<Rightarrow> int \<Rightarrow> string_gen list option" where
  "pgsRegexGen xml to_l regex seed =
     (case xml (regex_xml regex) of
        None \<Rightarrow> None
      | Some top_node \<Rightarrow>
          if xml_name top_node \<noteq> ''regexpressions'' then None
          else Some (map (\<lambda>n. piece_gen seed (regex_node_piece to_l n))
                      (filter (\<lambda>n. xml_name n = ''regex'') (xml_children top_node))))"

fun regex_random :: "string_gen list \<Rightarrow> (string \<times> string_gen list) option" where
  "regex_random [] = Some ([], [])"
| "regex_random (g # gs) =
     (case string_random g of
        None \<Rightarrow> None
      | Some (t, h) \<Rightarrow> map_option (\<lambda>(r, hs). (t @ r, h # hs)) (regex_random gs))"

section \<open>The XML of a plain pattern\<close>

definition regex_plain :: "char \<Rightarrow> bool" where
  "regex_plain c \<longleftrightarrow> c \<notin> {CHR ''['', CHR '']'', CHR ''{'', CHR ''}'', CHR 0x5C}"

definition regex_element :: "char \<Rightarrow> string" where
  "regex_element c = regex_open @ espace_xml_char c @ ''</characters>'' @ NL @ '' </regex>'' @ NL"

lemma regex_loop_plain:
  assumes "\<forall>c\<in>set cs. regex_plain c" "regex_plain c"
  shows "regex_loop p (c # cs) \<lparr>rs_escape = False, rs_first_regex = f, rs_list = False, rs_result = r\<rparr>
      = \<lparr>rs_escape = False, rs_first_regex = False, rs_list = False,
         rs_result = r @ (if f then [] else '' </regex>'' @ NL) @ regex_open @ espace_xml_char c @ ''</characters>'' @ NL
           @ concat (map (\<lambda>c. '' </regex>'' @ NL @ regex_open @ espace_xml_char c @ ''</characters>'' @ NL) cs)\<rparr>"
  using assms
proof (induction cs arbitrary: p c f r)
  case Nil
  then show ?case
    by (simp add: regex_step_def regex_plain_def regex_literal_def regex_close_def)
next
  case (Cons d ds)
  have "regex_step p c x \<lparr>rs_escape = False, rs_first_regex = f, rs_list = False, rs_result = r\<rparr>
      = \<lparr>rs_escape = False, rs_first_regex = False, rs_list = False,
         rs_result = r @ (if f then [] else '' </regex>'' @ NL) @ regex_open @ espace_xml_char c @ ''</characters>'' @ NL\<rparr>"
    for x using Cons.prems(2)
    by (simp add: regex_step_def regex_plain_def regex_literal_def regex_close_def)
  then show ?case
    by (subst regex_loop.simps) (use Cons in simp)
qed

lemma regex_xml_plain_pattern:
  assumes "\<forall>c\<in>set regex. regex_plain c"
  shows "regex_xml regex = regex_head @ concat (map regex_element regex) @ ''</regexpressions>'' @ NL"
proof (cases regex)
  case Nil
  then show ?thesis by (simp add: regex_xml_def Let_def)
next
  case (Cons c cs)
  define m where "m = (\<lambda>c. regex_open @ espace_xml_char c @ ''</characters>'' @ NL)"
  define e where "e = '' </regex>'' @ NL"
  have shift: "concat (map (\<lambda>c. e @ m c) cs) @ e = e @ concat (map (\<lambda>c. m c @ e) cs)"
    by (induction cs) simp_all
  have "regex_open \<noteq> []" by (simp add: regex_open_def)
  then show ?thesis
    using assms shift regex_loop_plain[of cs c None True regex_head]
    by (simp add: Cons regex_xml_def Let_def regex_element_def[abs_def] m_def e_def)
qed

section \<open>Equal pieces draw equal texts\<close>

text \<open>The texts of the pieces in one draw.\<close>

lemma regex_random_those:
  "regex_random gs = map_option (\<lambda>rs. (concat (map fst rs), map snd rs)) (those (map string_random gs))"
  by (induction gs) (auto simp: option.map_comp comp_def split: option.splits)

lemma those_nth: "those xs = Some ys \<Longrightarrow> length ys = length xs \<and> (\<forall>i<length xs. xs ! i = Some (ys ! i))"
proof (induction xs arbitrary: ys)
  case (Cons x xs)
  then obtain y zs where "x = Some y" "those xs = Some zs" "ys = y # zs"
    by (auto split: option.splits)
  with Cons.IH show ?case by (auto simp: nth_Cons split: nat.splits)
qed simp

lemma regex_random_equal:
  assumes "regex_random gs = Some (t, hs)" "i < length gs" "j < length gs" "gs ! i = gs ! j"
  obtains texts where "t = concat texts" "length texts = length gs" "texts ! i = texts ! j"
    "length hs = length gs" "hs ! i = hs ! j"
proof -
  obtain rs where rs: "those (map string_random gs) = Some rs" "t = concat (map fst rs)" "hs = map snd rs"
    using assms(1) by (auto simp: regex_random_those)
  from those_nth[OF rs(1)] have "length rs = length gs" "Some (rs ! i) = string_random (gs ! i)"
    "Some (rs ! j) = string_random (gs ! j)" using assms(2,3) by auto
  then have "rs ! i = rs ! j" "length rs = length gs" using assms(4) by (metis option.inject)+
  then show ?thesis using that[of "map fst rs"] rs assms(2,3) by simp
qed

lemma regex_draws_equal:
  assumes "draws regex_random n gs = Some (out, hs)" "i < length gs" "j < length gs" "gs ! i = gs ! j"
  shows "\<exists>texts. out = map concat texts \<and> (\<forall>ts\<in>set texts. length ts = length gs \<and> ts ! i = ts ! j)"
  using assms
proof (induction n arbitrary: gs out)
  case (Suc n)
  then obtain t g1 out' where d: "regex_random gs = Some (t, g1)" "draws regex_random n g1 = Some (out', hs)"
    "out = t # out'" by (auto split: option.splits)
  from regex_random_equal[OF d(1) Suc.prems(2-4)] obtain ts where
    ts: "t = concat ts" "length ts = length gs" "ts ! i = ts ! j" "length g1 = length gs" "g1 ! i = g1 ! j"
    by blast
  from Suc.IH[OF d(2)] ts Suc.prems(2,3) obtain tss where
    "out' = map concat tss" "\<forall>us\<in>set tss. length us = length gs \<and> us ! i = us ! j" by auto
  then show ?case using ts d(3) by (intro exI[of _ "ts # tss"]) simp
qed simp

section \<open>Properties of the generator of regular expressions\<close>

text \<open>Pieces of a pattern that have the same characters and the same bounds draw the same text,
  in every draw: all string generators of one pattern start from the seed of the pattern, so
  \<open>[0-9][0-9]\<close> only ever gives a doubled digit.\<close>

theorem regex_pieces_in_step:
  assumes "xml (regex_xml regex) = Some tree"
    and "nodes = filter (\<lambda>n. xml_name n = ''regex'') (xml_children tree)"
    and "i < length nodes" "j < length nodes"
    and "regex_node_piece to_l (nodes ! i) = regex_node_piece to_l (nodes ! j)"
    and "pgsRegexGen xml to_l regex seed = Some gs"
    and "draws regex_random n gs = Some (out, hs)"
  shows "\<exists>texts. out = map concat texts \<and> (\<forall>ts\<in>set texts. length ts = length nodes \<and> ts ! i = ts ! j)"
proof -
  have gs: "gs = map (\<lambda>n. piece_gen seed (regex_node_piece to_l n)) nodes"
    using assms(1,2,6) by (auto simp: pgsRegexGen_def split: if_splits)
  show ?thesis
    using regex_draws_equal[OF assms(7), of i j] assms(3-5) by (simp add: gs)
qed

text \<open>The tree of two pieces \<open>[ab]\<close>.\<close>

definition two_letters :: xml_node where
  "two_letters =
     (let r = Xml_node ''regex'' [] [Xml_node ''characters'' ''ab'' []]
      in Xml_node ''regexpressions'' [] [r, r])"

theorem regex_pieces_in_step_witness:
  "\<exists>out hs texts gs. pgsRegexGen (\<lambda>t. Some two_letters) atoi ''[ab][ab]'' 7 = Some gs
    \<and> draws regex_random 1 gs = Some (out, hs)
    \<and> out = map concat texts \<and> (\<forall>ts\<in>set texts. length ts = 2 \<and> ts ! 0 = ts ! 1)"
proof -
  let ?g = "piece_gen 7 \<lparr>rx_characters = ''ab'', rx_first = 1, rx_second = 1\<rparr>"
  let ?c = "filter (\<lambda>n. xml_name n = ''regex'') (xml_children two_letters)"
  have c: "?c = [xml_children two_letters ! 0, xml_children two_letters ! 0]" "length ?c = 2"
    by (simp_all add: two_letters_def Let_def)
  have g: "pgsRegexGen (\<lambda>t. Some two_letters) atoi ''[ab][ab]'' 7 = Some [?g, ?g]"
    by (simp add: pgsRegexGen_def two_letters_def Let_def regex_node_piece_def regex_child_def set_first_def)
  have long: "map_option fst (random_long (pgsIntegerGen 1 1 False 7)) = Some 1"
    "map_option fst (random_long (pgsIntegerGen 0 1 False 7)) \<in> {Some 0, Some 1}"
    by (simp_all add: random_long_value pgsIntegerGen_def pgsNormalIntGen_closed int_gen_value_def
        object_seed_def normal_random_def Let_def arg_m_def m_top_def cdiv_def cmod_def)
  then have "string_random ?g \<noteq> None"
    by (auto simp: string_random_def piece_gen_def pgsStringGen_def init_characters_def Let_def
        eval_nat_numeral split: option.splits)
  then obtain out hs where o: "draws regex_random 1 [?g, ?g] = Some (out, hs)" by fastforce
  show ?thesis
    using regex_pieces_in_step[OF refl refl _ _ _ g o, of 0 1] c g o by auto
qed

end
