(* ===== verification/PgsReferenceGen.thy ===== *)
theory PgsReferenceGen
  imports Generators
begin

text \<open>
  The generator of \<open>pgsReferenceGen.cpp\<close>: a cell of a random row of a table. What it draws by itself is
  the text of a query; the query is run where values are read (\<open>PgsQueries\<close>), because it needs the
  connection of the script.
\<close>

record reference_gen =
  rf_table :: string
  rf_column :: string
  rf_sequence :: bool
  rf_nb_rows :: int
  rf_randomizer :: int_gen

definition count_query :: "string \<Rightarrow> string" where
  "count_query table = ''SELECT count(*) FROM '' @ table"

text \<open>The constructor, once the rows are counted.\<close>

definition pgsReferenceGen :: "string \<Rightarrow> string \<Rightarrow> bool \<Rightarrow> int \<Rightarrow> int \<Rightarrow> reference_gen" where
  "pgsReferenceGen table column sequence seed nb_rows =
     \<lparr>rf_table = table, rf_column = column, rf_sequence = sequence, rf_nb_rows = nb_rows,
      rf_randomizer = pgsIntegerGen 0 (nb_rows - 1) sequence (object_seed seed)\<rparr>"

text \<open>The query of \<open>random()\<close>: choose one line.\<close>

definition row_query :: "reference_gen \<Rightarrow> string \<Rightarrow> string" where
  "row_query g row =
     ''SELECT '' @ rf_column g @ '' FROM '' @ rf_table g @ '' LIMIT 1 OFFSET '' @ row"

definition reference_query :: "reference_gen \<Rightarrow> (string \<times> reference_gen) option" where
  "reference_query g =
     map_option (\<lambda>(row, r). (row_query g row, g\<lparr>rf_randomizer := r\<rparr>)) (int_gen_random (rf_randomizer g))"

end
