(* ===== verification/PgsObjectGen.thy ===== *)
theory PgsObjectGen
  imports PgsCalendarGen PgsDictionaryGen PgsRegexGen PgsReferenceGen
begin

text \<open>
  The type of all generators, the step \<open>random()\<close> of the class \<open>pgsObjectGen\<close> (for references, the query
  that it runs), and what the
  generators use of their surroundings: the division loops of MAPM, the calendar, the files and the
  loader of XML texts.
\<close>

record gen_env =
  ge_recip_divide :: "int \<Rightarrow> mapm \<Rightarrow> mapm \<Rightarrow> mapm"
  ge_calendar :: calendar
  ge_files :: files
  ge_xml :: "string \<Rightarrow> xml_node option"

datatype object_gen =
    IntegerGen int_gen
  | RealGen real_gen
  | StringGen string_gen
  | DateGen calendar_gen
  | TimeGen calendar_gen
  | DateTimeGen calendar_gen
  | DictionaryGen dictionary_gen
  | RegexGen "string_gen list"
  | ReferenceGen reference_gen

fun object_random :: "gen_env \<Rightarrow> object_gen \<Rightarrow> (string \<times> object_gen) option" where
  "object_random ge (IntegerGen g) = map_option (\<lambda>(s, h). (s, IntegerGen h)) (int_gen_random g)"
| "object_random ge (RealGen g) =
     map_option (\<lambda>(s, h). (s, RealGen h)) (real_random (ge_recip_divide ge) g)"
| "object_random ge (StringGen g) = map_option (\<lambda>(s, h). (s, StringGen h)) (string_random g)"
| "object_random ge (DateGen g) =
     map_option (\<lambda>(s, h). (s, DateGen h)) (date_random (ge_calendar ge) g)"
| "object_random ge (TimeGen g) =
     map_option (\<lambda>(s, h). (s, TimeGen h)) (time_random (ge_calendar ge) g)"
| "object_random ge (DateTimeGen g) =
     map_option (\<lambda>(s, h). (s, DateTimeGen h)) (date_time_random (ge_calendar ge) g)"
| "object_random ge (DictionaryGen g) =
     map_option (\<lambda>(s, h). (s, DictionaryGen h)) (dictionary_random (ge_files ge) g)"
| "object_random ge (RegexGen gs) = map_option (\<lambda>(s, h). (s, RegexGen h)) (regex_random gs)"
| "object_random ge (ReferenceGen g) = map_option (\<lambda>(s, h). (s, ReferenceGen h)) (reference_query g)"

end
