(* ===== verification/WxString.thy ===== *)
theory WxString
  imports Prelude "HOL-Library.Char_ord" "HOL-Library.List_Lexorder"
begin

text \<open>
  The operations of \<open>wxString\<close> the interpreter uses: \<open>Strip(both)\<close>, \<open>Lower\<close>, \<open>CmpNoCase\<close>,
  \<open>Replace\<close>, \<open>Find\<close>. Letter case and white space are those of the C locale. Strings compare
  lexicographically (\<open>List_Lexorder\<close> over \<open>Char_ord\<close>), as \<open>wxStrcmp\<close> does.
\<close>

section \<open>White space and case\<close>

definition is_space :: "char \<Rightarrow> bool" where
  "is_space c \<longleftrightarrow> of_char c = (32::nat) \<or> (9 \<le> (of_char c :: nat) \<and> of_char c \<le> (13::nat))"

definition strip_both :: "string \<Rightarrow> string" where
  "strip_both s = rev (dropWhile is_space (rev (dropWhile is_space s)))"

definition lower_char :: "char \<Rightarrow> char" where
  "lower_char c = (if 65 \<le> (of_char c :: nat) \<and> of_char c \<le> (90::nat)
                   then char_of (of_char c + 32 :: nat) else c)"

definition str_lower :: "string \<Rightarrow> string" where
  "str_lower s = map lower_char s"

definition equal_no_case :: "string \<Rightarrow> string \<Rightarrow> bool" where
  "equal_no_case s t \<longleftrightarrow> str_lower s = str_lower t"

lemma of_char_lower: "(of_char (lower_char c) :: nat) =
    (if 65 \<le> (of_char c :: nat) \<and> of_char c \<le> (90::nat) then of_char c + 32 else of_char c)"
  by (simp add: lower_char_def)

lemma lower_char_idem [simp]: "lower_char (lower_char c) = lower_char c"
proof -
  have "\<not> (65 \<le> (of_char (lower_char c) :: nat) \<and> of_char (lower_char c) \<le> (90::nat))"
    by (auto simp: of_char_lower)
  then show ?thesis unfolding lower_char_def[of "lower_char c"] by (simp only: if_False)
qed

lemma str_lower_idem [simp]: "str_lower (str_lower s) = str_lower s"
  by (simp add: str_lower_def comp_def)

lemma is_space_lower [simp]: "is_space (lower_char c) = is_space c"
  by (auto simp: is_space_def of_char_lower)

lemma equal_no_case_refl [simp]: "equal_no_case s s"
  by (simp add: equal_no_case_def)

lemma strip_both_Nil [simp]: "strip_both [] = []"
  by (simp add: strip_both_def)

lemma dropWhile_idem_rev:
  "dropWhile P (rev (dropWhile P (rev (dropWhile P s)))) = rev (dropWhile P (rev (dropWhile P s)))"
proof -
  define t where "t = dropWhile P s"
  have t: "t = [] \<or> \<not> P (hd t)" by (metis hd_dropWhile t_def)
  have "prefix (rev (dropWhile P (rev t))) t"
    by (metis rev_rev_ident suffix_dropWhile suffix_to_prefix)
  then have "rev (dropWhile P (rev t)) = [] \<or> \<not> P (hd (rev (dropWhile P (rev t))))"
    using t by (metis hd_append2 prefixE Nil_is_append_conv)
  then show ?thesis unfolding t_def[symmetric]
    by (metis dropWhile_eq_self_iff)
qed

lemma strip_both_idem [simp]: "strip_both (strip_both s) = strip_both s"
  by (simp add: strip_both_def dropWhile_idem_rev)

lemma strip_both_id: "s = [] \<or> \<not> is_space (hd s) \<and> \<not> is_space (last s) \<Longrightarrow> strip_both s = s"
  by (cases "s = []") (simp_all add: strip_both_def dropWhile_eq_self_iff[THEN iffD2] hd_rev)

lemma strip_both_no_space: "list_all (\<lambda>c. \<not> is_space c) s \<Longrightarrow> strip_both s = s"
  by (rule strip_both_id) (cases s; auto simp: list_all_iff)

lemma strip_both_lower: "strip_both (str_lower s) = str_lower (strip_both s)"
  by (simp add: strip_both_def str_lower_def dropWhile_map rev_map comp_def)

section \<open>Replacing\<close>

text \<open>\<open>Replace(old, new)\<close> replaces every occurrence, from the left, without overlaps.\<close>

function replace_all :: "string \<Rightarrow> string \<Rightarrow> string \<Rightarrow> string" where
  "replace_all old new [] = []"
| "replace_all old new (c # s) =
     (if old \<noteq> [] \<and> prefix old (c # s) then new @ replace_all old new (drop (length old) (c # s))
      else c # replace_all old new s)"
  by pat_completeness auto
termination
  by (relation "measure (\<lambda>(old, new, s). length s)") auto

lemma replace_all_1: "replace_all [c] new s = concat (map (\<lambda>d. if d = c then new else [d]) s)"
  by (induction s) auto

lemma replace_all_id: "hd old \<notin> set s \<Longrightarrow> old \<noteq> [] \<Longrightarrow> replace_all old new s = s"
  by (induction s) (auto simp: prefix_def neq_Nil_conv)

section \<open>Quoting with a back slash\<close>

definition esc_char :: "char \<Rightarrow> char \<Rightarrow> char \<Rightarrow> string" where
  "esc_char b q c = (if c = b then [b, b] else if c = q then [b, q] else [c])"

definition esc :: "char \<Rightarrow> char \<Rightarrow> string \<Rightarrow> string" where
  "esc b q s = concat (map (esc_char b q) s)"

lemma esc_simps [simp]:
  "esc b q [] = []"
  "esc b q (c # s) = esc_char b q c @ esc b q s"
  by (simp_all add: esc_def)

lemma replace_escape:
  assumes "b \<noteq> q"
  shows "replace_all [q] [b, q] (replace_all [b] [b, b] s) = esc b q s"
  using assms by (induction s) (auto simp: replace_all_1 esc_char_def)

lemma esc_hd: "b \<noteq> q \<Longrightarrow> esc b q s = [] \<or> hd (esc b q s) \<noteq> q"
  by (cases s) (auto simp: esc_char_def)

lemma unescape_quote:
  assumes "b \<noteq> q"
  shows "replace_all [b, q] [q] (esc b q s) = concat (map (\<lambda>c. if c = b then [b, b] else [c]) s)"
proof (induction s)
  case (Cons c s)
  have n: "\<not> prefix [q] (esc b q s)"
    using esc_hd[OF assms, of s] by (auto simp: prefix_def)
  show ?case
  proof (cases "c = b")
    case True
    then show ?thesis using Cons n assms by (auto simp: esc_char_def)
  next
    case False
    then show ?thesis using Cons by (auto simp: esc_char_def)
  qed
qed simp

text \<open>Undoing the escapes in the other order restores the string.\<close>

lemma unescape_escape:
  assumes "b \<noteq> q"
  shows "replace_all [b, b] [b] (replace_all [b, q] [q] (esc b q s)) = s"
proof -
  have "replace_all [b, b] [b] (concat (map (\<lambda>c. if c = b then [b, b] else [c]) s)) = s"
    by (induction s) auto
  then show ?thesis by (simp add: unescape_quote[OF assms])
qed

end
