(* ===== verification/Prog.thy ===== *)
theory Prog
  imports Prelude
begin

text \<open>
  Stateful code that may throw, and may not return: a program maps a state to \<open>None\<close> (it never
  returns), or to an exception (\<open>Inl\<close>) or value (\<open>Inr\<close>) with the state reached. \<open>try_catch\<close> is the
  \<open>try\<close> block: the state at the throw is kept. \<open>keeps I m\<close> says that \<open>m\<close> preserves \<open>I\<close>, on the
  exceptional paths too.
\<close>

type_synonym ('s, 'e, 'a) prog = "'s \<Rightarrow> (('e + 'a) \<times> 's) option"

definition ret :: "'a \<Rightarrow> ('s, 'e, 'a) prog" where
  "ret x s = Some (Inr x, s)"

definition throw :: "'e \<Rightarrow> ('s, 'e, 'a) prog" where
  "throw e s = Some (Inl e, s)"

definition never :: "('s, 'e, 'a) prog" where
  "never s = None"

definition bind_prog :: "('s, 'e, 'a) prog \<Rightarrow> ('a \<Rightarrow> ('s, 'e, 'b) prog) \<Rightarrow> ('s, 'e, 'b) prog" where
  "bind_prog m k s =
     Option.bind (m s) (\<lambda>p. case fst p of Inl e \<Rightarrow> Some (Inl e, snd p) | Inr x \<Rightarrow> k x (snd p))"

definition try_catch :: "('s, 'e, 'a) prog \<Rightarrow> ('e \<Rightarrow> ('s, 'e, 'a) prog) \<Rightarrow> ('s, 'e, 'a) prog" where
  "try_catch m h s =
     Option.bind (m s) (\<lambda>p. case fst p of Inl e \<Rightarrow> h e (snd p) | Inr x \<Rightarrow> Some (Inr x, snd p))"

definition reads :: "('s \<Rightarrow> 'a) \<Rightarrow> ('s, 'e, 'a) prog" where
  "reads f s = Some (Inr (f s), s)"

definition modifies :: "('s \<Rightarrow> 's) \<Rightarrow> ('s, 'e, unit) prog" where
  "modifies f s = Some (Inr (), f s)"

definition do_when :: "bool \<Rightarrow> ('s, 'e, unit) prog \<Rightarrow> ('s, 'e, unit) prog" where
  "do_when b m = (if b then m else ret ())"

abbreviation seq_prog :: "('s, 'e, 'a) prog \<Rightarrow> ('s, 'e, 'b) prog \<Rightarrow> ('s, 'e, 'b) prog" where
  "seq_prog m n \<equiv> bind_prog m (\<lambda>_. n)"

primrec map_prog :: "('a \<Rightarrow> ('s, 'e, 'b) prog) \<Rightarrow> 'a list \<Rightarrow> ('s, 'e, 'b list) prog" where
  "map_prog f [] = ret []"
| "map_prog f (x # xs) = bind_prog (f x) (\<lambda>y. bind_prog (map_prog f xs) (\<lambda>ys. ret (y # ys)))"

section \<open>Computing\<close>

named_theorems prog_simps \<open>computing with programs\<close>
named_theorems run_simps \<open>running programs on a state\<close>

lemma ret_apply [run_simps]: "ret x s = Some (Inr x, s)"
  by (simp add: ret_def)

lemma throw_apply [run_simps]: "throw e s = Some (Inl e, s)"
  by (simp add: throw_def)

lemma reads_apply [run_simps]: "reads f s = Some (Inr (f s), s)"
  by (simp add: reads_def)

lemma modifies_apply [run_simps]: "modifies f s = Some (Inr (), f s)"
  by (simp add: modifies_def)

lemma when_True [prog_simps]: "do_when True m = m"
  and when_False [prog_simps]: "do_when False m = ret ()"
  by (simp_all add: do_when_def)

lemma bind_ret [prog_simps]: "bind_prog (ret x) k = k x"
  by (rule ext) (simp add: bind_prog_def ret_def)

lemma bind_throw [prog_simps]: "bind_prog (throw e) k = throw e"
  by (rule ext) (simp add: bind_prog_def throw_def)

lemma bind_reads [run_simps]: "bind_prog (reads f) k s = k (f s) s"
  by (simp add: bind_prog_def reads_def)

lemma bind_modifies [run_simps]: "bind_prog (modifies f) k s = k () (f s)"
  by (simp add: bind_prog_def modifies_def)

lemma bind_assoc: "bind_prog (bind_prog m k) l = bind_prog m (\<lambda>x. bind_prog (k x) l)"
  by (rule ext) (auto simp: bind_prog_def split: Option.bind_splits sum.splits)

lemma bind_ret_right [prog_simps]: "bind_prog m ret = m"
  by (rule ext) (auto simp: bind_prog_def ret_def split: Option.bind_splits sum.splits)

lemma bind_Inr [run_simps]: "m s = Some (Inr x, t) \<Longrightarrow> bind_prog m k s = k x t"
  by (simp add: bind_prog_def)

lemma bind_Inl [run_simps]: "m s = Some (Inl e, t) \<Longrightarrow> bind_prog m k s = Some (Inl e, t)"
  by (simp add: bind_prog_def)

lemma bind_None [run_simps]: "m s = None \<Longrightarrow> bind_prog m k s = None"
  by (simp add: bind_prog_def)

lemma catch_ret [prog_simps]: "try_catch (ret x) h = ret x"
  by (rule ext) (simp add: try_catch_def ret_def)

lemma catch_throw [prog_simps]: "try_catch (throw e) h = h e"
  by (rule ext) (simp add: try_catch_def throw_def)

lemma catch_Inr [run_simps]: "m s = Some (Inr x, t) \<Longrightarrow> try_catch m h s = Some (Inr x, t)"
  by (simp add: try_catch_def)

lemma catch_Inl [run_simps]: "m s = Some (Inl e, t) \<Longrightarrow> try_catch m h s = h e t"
  by (simp add: try_catch_def)

lemma catch_None [run_simps]: "m s = None \<Longrightarrow> try_catch m h s = None"
  by (simp add: try_catch_def)

section \<open>Outcomes\<close>

text \<open>How a composed program can have reached its result.\<close>

lemma bind_cases:
  assumes "bind_prog m k s = Some (r, u)"
  obtains (inl) e where "m s = Some (Inl e, u)" "r = Inl e"
  | (inr) x t where "m s = Some (Inr x, t)" "k x t = Some (r, u)"
  using assms by (auto simp: bind_prog_def split: Option.bind_splits sum.splits)

lemma catch_cases:
  assumes "try_catch m h s = Some (r, u)"
  obtains (inr) x where "m s = Some (Inr x, u)" "r = Inr x"
  | (inl) e t where "m s = Some (Inl e, t)" "h e t = Some (r, u)"
  using assms by (auto simp: try_catch_def split: Option.bind_splits sum.splits)

section \<open>Preserved facts\<close>

definition keeps :: "('s \<Rightarrow> bool) \<Rightarrow> ('s, 'e, 'a) prog \<Rightarrow> bool" where
  "keeps I m \<longleftrightarrow> (\<forall>s r t. I s \<longrightarrow> m s = Some (r, t) \<longrightarrow> I t)"

named_theorems keeps_intros \<open>preservation, by the structure of the program\<close>

lemma keepsI: "(\<And>s r t. I s \<Longrightarrow> m s = Some (r, t) \<Longrightarrow> I t) \<Longrightarrow> keeps I m"
  by (auto simp: keeps_def)

lemma keepsD: "keeps I m \<Longrightarrow> I s \<Longrightarrow> m s = Some (r, t) \<Longrightarrow> I t"
  by (auto simp: keeps_def)

lemma keeps_ret [keeps_intros]: "keeps I (ret x)"
  by (rule keepsI) (auto simp: ret_def)

lemma keeps_throw [keeps_intros]: "keeps I (throw e)"
  by (rule keepsI) (auto simp: throw_def)

lemma keeps_never [keeps_intros]: "keeps I never"
  by (rule keepsI) (auto simp: never_def)

lemma keeps_reads [keeps_intros]: "keeps I (reads f)"
  by (rule keepsI) (auto simp: reads_def)

lemma keeps_modifies: "(\<And>s. I s \<Longrightarrow> I (f s)) \<Longrightarrow> keeps I (modifies f)"
  by (rule keepsI) (auto simp: modifies_def)

lemma keeps_bind [keeps_intros]:
  "keeps I m \<Longrightarrow> (\<And>x. keeps I (k x)) \<Longrightarrow> keeps I (bind_prog m k)"
  by (rule keepsI) (auto elim!: bind_cases dest: keepsD)

lemma keeps_catch [keeps_intros]:
  "keeps I m \<Longrightarrow> (\<And>e. keeps I (h e)) \<Longrightarrow> keeps I (try_catch m h)"
  by (rule keepsI) (auto elim!: catch_cases dest: keepsD)

lemma keeps_when [keeps_intros]: "keeps I m \<Longrightarrow> keeps I (do_when b m)"
  by (auto simp: do_when_def intro: keeps_ret)

lemma keeps_if [keeps_intros]:
  "(b \<Longrightarrow> keeps I m) \<Longrightarrow> (\<not> b \<Longrightarrow> keeps I n) \<Longrightarrow> keeps I (if b then m else n)"
  by simp

lemma keeps_option [keeps_intros]:
  "keeps I n \<Longrightarrow> (\<And>x. keeps I (m x)) \<Longrightarrow> keeps I (case x of None \<Rightarrow> n | Some y \<Rightarrow> m y)"
  by (cases x) auto

lemma keeps_map [keeps_intros]: "(\<And>x. keeps I (f x)) \<Longrightarrow> keeps I (map_prog f xs)"
  by (induction xs) (auto intro!: keeps_intros)

section \<open>Loops\<close>

lemma mono_sum: "(\<And>e. mono_option (\<lambda>f. a f e)) \<Longrightarrow> (\<And>x. mono_option (\<lambda>f. b f x)) \<Longrightarrow>
    mono_option (\<lambda>f. case r of Inl e \<Rightarrow> a f e | Inr x \<Rightarrow> b f x)"
  by (cases r) simp_all

text \<open>Loops are least fixed points; these rules let \<open>partial_function\<close> see through a program.\<close>

lemma bind_prog_mono [partial_function_mono]:
  assumes "\<And>s. mono_option (\<lambda>f. m f s)" and "\<And>x s. mono_option (\<lambda>f. k f x s)"
  shows "mono_option (\<lambda>f. bind_prog (m f) (k f) s)"
  unfolding bind_prog_def
  by (intro bind_mono mono_sum option.const_mono assms)

lemma try_catch_mono [partial_function_mono]:
  assumes "\<And>s. mono_option (\<lambda>f. m f s)" and "\<And>x s. mono_option (\<lambda>f. h f x s)"
  shows "mono_option (\<lambda>f. try_catch (m f) (h f) s)"
  unfolding try_catch_def
  by (intro bind_mono mono_sum option.const_mono assms)

lemma if_prog_mono [partial_function_mono]:
  "mono_option (\<lambda>f. m f s) \<Longrightarrow> mono_option (\<lambda>f. n f s) \<Longrightarrow>
   mono_option (\<lambda>f. (if b then m f else n f) s)"
  by (cases b) simp_all

end
