(* ===== verification/PgsObjects.thy ===== *)
theory PgsObjects
  imports PgsObjectGen WxString Prog
begin

text \<open>
  The values of the interpreter (\<open>pgscript/objects\<close>), its exceptions (\<open>pgscript/exceptions\<close>), the
  state a script runs in and what the surroundings supply. A cell of a record never is a record
  (\<open>pgsAssignToRecord\<close> refuses it), so values are scalars or records of scalars. Copies of a
  generator share its randomizer: a generator value is an index into the list of randomizers.
\<close>

section \<open>Data\<close>

datatype scalar =
    PgsNumber bool string  \<comment> \<open>is it real, \<open>m_data\<close>\<close>
  | PgsString string
  | PgsGenerator ptype nat

record pgsRecord =
  m_columns :: "string list"
  m_record :: "scalar list list"

datatype pgsVariable = Scalar scalar | RecordVar pgsRecord

datatype pgsException =
    pgsArithmeticException string string
  | pgsAssertException string
  | pgsBreakException
  | pgsCastException string string
  | pgsContinueException
  | pgsInterruptException
  | pgsParameterException string

definition PGSOUTPGSCRIPT :: string where "PGSOUTPGSCRIPT = ''[PGSCRIPT ] ''"
definition PGSOUTEXCEPTION :: string where "PGSOUTEXCEPTION = ''[EXCEPTION] ''"
definition PGSOUTQUERY :: string where "PGSOUTQUERY = ''[QUERY    ] ''"
definition PGSOUTWARNING :: string where "PGSOUTWARNING = ''[WARNING  ] ''"

abbreviation newline_char :: char where "newline_char \<equiv> CHR 0x0A"

definition generate_spaces :: "nat \<Rightarrow> string" where
  "generate_spaces n = replicate n CHR '' ''"

text \<open>\<open>message()\<close> of each exception class.\<close>

fun exn_message :: "pgsException \<Rightarrow> string" where
  "exn_message (pgsArithmeticException l r) =
     PGSOUTEXCEPTION @ ''Arithmetic Exception - Operation impossible between '' @ [CHR 0x27] @ l @
     [CHR 0x27] @ '' and '' @ [CHR 0x27] @ r @ [CHR 0x27]"
| "exn_message (pgsAssertException m) = PGSOUTEXCEPTION @ ''Assert Exception - '' @ m"
| "exn_message pgsBreakException = ''BREAK''"
| "exn_message (pgsCastException v t) =
     PGSOUTEXCEPTION @ ''Cast Exception - Cannot convert '' @ [CHR 0x27] @ v @ [CHR 0x27] @
     '' to '' @ [CHR 0x27] @ t @ [CHR 0x27]"
| "exn_message pgsContinueException = ''CONTINUE''"
| "exn_message pgsInterruptException = PGSOUTEXCEPTION @ ''pgScript interrupted''"
| "exn_message (pgsParameterException m) =
     PGSOUTEXCEPTION @ ''Parameter Exception - Some parameters are invalid:'' @ [newline_char] @
     generate_spaces (length PGSOUTEXCEPTION) @ ''>> '' @
     replace_all [newline_char] (newline_char # generate_spaces (length PGSOUTEXCEPTION)) m"

section \<open>Surroundings and state\<close>

text \<open>The outcome of a query thread.\<close>

record query_result =
  qr_ok :: bool  \<comment> \<open>the return code is one of the two successful ones\<close>
  qr_messages :: string
  qr_set :: "((string \<times> string) list \<times> string list list) option"
    \<comment> \<open>\<open>DataSet\<close> when valid: name and type of each column, and the rows\<close>

record pgs_env =
  env_now :: int
  env_connected :: bool
  env_thread_ok :: bool  \<comment> \<open>the query thread can be created and run\<close>
  env_destroyed :: "nat \<Rightarrow> bool"  \<comment> \<open>\<open>TestDestroy()\<close>, by the number of earlier tests\<close>
  env_running :: "nat \<Rightarrow> bool"  \<comment> \<open>is the query still running, by the same count\<close>
  env_query :: "nat \<Rightarrow> string \<Rightarrow> query_result"
  env_unset :: int  \<comment> \<open>what a \<open>long\<close> holds that \<open>ToLong\<close> did not set\<close>
  env_gens :: gen_env  \<comment> \<open>what the generators use\<close>

record pgs_state =
  ps_vars :: "string \<Rightarrow> pgsVariable option"
  ps_gens :: "object_gen list"
  ps_out :: string
  ps_stream :: nat  \<comment> \<open>the semaphore \<open>m_stream\<close>\<close>
  ps_thrown :: bool  \<comment> \<open>\<open>pgsStmtList::m_exception_thrown\<close>\<close>
  ps_error_line :: int
  ps_tests :: nat
  ps_queries :: nat

type_synonym 'a pgs = "(pgs_state, pgsException, 'a) prog"

definition emit :: "string \<Rightarrow> unit pgs" where
  "emit t = modifies (\<lambda>s. s\<lparr>ps_out := ps_out s @ t\<rparr>)"

text \<open>\<open>wxString::ToLong\<close>: the text of an integer within the range of \<open>long\<close>.\<close>

definition to_long :: "pgs_env \<Rightarrow> string \<Rightarrow> int" where
  "to_long env s =
     (if int_form s \<and> long_min \<le> atoi s \<and> atoi s \<le> long_max then atoi s else env_unset env)"

section \<open>Scalars\<close>

fun scalar_type :: "scalar \<Rightarrow> ptype" where
  "scalar_type (PgsNumber r d) = (if r then pgsTReal else pgsTInt)"
| "scalar_type (PgsString d) = pgsTString"
| "scalar_type (PgsGenerator t i) = t"

fun var_type :: "pgsVariable \<Rightarrow> ptype" where
  "var_type (Scalar x) = scalar_type x"
| "var_type (RecordVar r) = pgsTRecord"

definition is_integer :: "pgsVariable \<Rightarrow> bool" where "is_integer v \<longleftrightarrow> var_type v = pgsTInt"
definition is_real :: "pgsVariable \<Rightarrow> bool" where "is_real v \<longleftrightarrow> var_type v = pgsTReal"
definition is_number :: "pgsVariable \<Rightarrow> bool" where "is_number v \<longleftrightarrow> is_integer v \<or> is_real v"
definition is_string :: "pgsVariable \<Rightarrow> bool" where "is_string v \<longleftrightarrow> var_type v = pgsTString"
definition is_record :: "pgsVariable \<Rightarrow> bool" where "is_record v \<longleftrightarrow> var_type v = pgsTRecord"

lemmas type_tests = is_integer_def is_real_def is_number_def is_string_def is_record_def

text \<open>The constructor of \<open>pgsNumber\<close> and its assertion \<open>is_valid\<close>.\<close>

definition mk_number :: "bool \<Rightarrow> string \<Rightarrow> scalar" where
  "mk_number is_r data = PgsNumber is_r (strip_both data)"

definition number_is_valid :: "bool \<Rightarrow> string \<Rightarrow> bool" where
  "number_is_valid is_r data \<longleftrightarrow>
     num_type data = pgsTInt \<or> (num_type data = pgsTReal \<and> is_r)"

end
