(* ===== verification/PgsContainer.thy ===== *)
theory PgsContainer
  imports PgsObjects
begin

text \<open>
  The two-dimensional container of \<open>pgscript/objects/pgsRecord.cpp\<close> with its 16-bit line and column
  numbers. Shown: every operation keeps the rows as wide as the record, what \<open>get\<close> returns after
  \<open>insert\<close>, which insertions return.
\<close>

section \<open>The container\<close>

definition new_record :: "ushort \<Rightarrow> pgsRecord" where
  "new_record nb_columns = \<lparr>m_columns = replicate (unat nb_columns) [], m_record = []\<rparr>"

definition count_lines :: "pgsRecord \<Rightarrow> ushort" where
  "count_lines r = of_nat (length (m_record r))"

definition count_columns :: "pgsRecord \<Rightarrow> ushort" where
  "count_columns r = of_nat (length (m_columns r))"

definition rec_newline :: "pgsRecord \<Rightarrow> pgsRecord" where
  "rec_newline r = r\<lparr>m_record := m_record r @ [replicate (unat (count_columns r)) (PgsString [])]\<rparr>"

text \<open>The loop \<open>for (USHORT i = count_lines(); i <= line; i++)\<close>.\<close>

partial_function (option) add_lines :: "ushort \<Rightarrow> ushort \<Rightarrow> pgsRecord \<Rightarrow> pgsRecord option" where
  "add_lines i line r = (if i \<le> line then add_lines (i + 1) line (rec_newline r) else Some r)"

declare add_lines.simps [code]

definition rec_insert :: "ushort \<Rightarrow> ushort \<Rightarrow> scalar \<Rightarrow> pgsRecord \<Rightarrow> (bool \<times> pgsRecord) option" where
  "rec_insert line column value r =
     map_option
       (\<lambda>r'. if column \<ge> count_columns r' then (False, r')
             else (True, r'\<lparr>m_record := (m_record r')
               [unat line := (m_record r' ! unat line)[unat column := value]]\<rparr>))
       (add_lines (count_lines r) line r)"

definition rec_get :: "ushort \<Rightarrow> ushort \<Rightarrow> pgsRecord \<Rightarrow> scalar" where
  "rec_get line column r =
     (if line < count_lines r \<and> column < count_columns r then m_record r ! unat line ! unat column
      else PgsString [])"

definition get_line :: "ushort \<Rightarrow> pgsRecord \<Rightarrow> pgsRecord" where
  "get_line line r =
     (if line < count_lines r then
        let rec = rec_newline ((new_record (count_columns r))\<lparr>m_columns := m_columns r\<rparr>)
        in rec\<lparr>m_record := (m_record rec)[0 := m_record r ! unat line]\<rparr>
      else new_record 0)"

definition set_column_name :: "ushort \<Rightarrow> string \<Rightarrow> pgsRecord \<Rightarrow> bool \<times> pgsRecord" where
  "set_column_name column name r =
     (if column \<ge> count_columns r then (False, r)
      else let n = str_lower (strip_both name) in
        if n \<in> set (m_columns r) \<or> n = [] then (False, r)
        else (True, r\<lparr>m_columns := (m_columns r)[unat column := n]\<rparr>))"

fun find_column :: "string \<Rightarrow> string list \<Rightarrow> nat \<Rightarrow> nat option" where
  "find_column n [] i = None"
| "find_column n (c # cs) i = (if c = n then Some i else find_column n cs (Suc i))"

definition get_column :: "string \<Rightarrow> pgsRecord \<Rightarrow> ushort" where
  "get_column name r =
     (let n = str_lower (strip_both name) in
      if n = [] then count_columns r
      else case find_column n (take (unat (count_columns r)) (m_columns r)) 0 of
          None \<Rightarrow> count_columns r
        | Some i \<Rightarrow> of_nat i)"

definition remove_line :: "ushort \<Rightarrow> pgsRecord \<Rightarrow> bool \<times> pgsRecord" where
  "remove_line line r =
     (if line < count_lines r
      then (True, r\<lparr>m_record := take (unat line) (m_record r) @ drop (Suc (unat line)) (m_record r)\<rparr>)
      else (False, r))"

section \<open>Well-formed records\<close>

definition rec_ok :: "pgsRecord \<Rightarrow> bool" where
  "rec_ok r \<longleftrightarrow> length (m_columns r) < 65536 \<and> (\<forall>l\<in>set (m_record r). length l = length (m_columns r))"

named_theorems rec_simps \<open>facts on the container\<close>

lemma unat_count_columns [rec_simps]: "rec_ok r \<Longrightarrow> unat (count_columns r) = length (m_columns r)"
  by (simp add: count_columns_def rec_ok_def unat_of_nat)

lemma unat_count_lines [rec_simps]:
  "length (m_record r) < 65536 \<Longrightarrow> unat (count_lines r) = length (m_record r)"
  by (simp add: count_lines_def unat_of_nat)

lemma ushort_less: "(a::ushort) < b \<longleftrightarrow> unat a < unat b"
  by (simp add: word_less_nat_alt)

lemma ushort_le: "(a::ushort) \<le> b \<longleftrightarrow> unat a \<le> unat b"
  by (simp add: word_le_nat_alt)

lemma unat_ushort_less: "unat (a::ushort) < 65536"
  using unsigned_less[of a, where 'a=nat] by simp

lemma rec_ok_new [rec_simps]: "rec_ok (new_record n)"
  using unat_ushort_less[of n] by (simp add: rec_ok_def new_record_def)

lemma rec_ok_newline [rec_simps]: "rec_ok r \<Longrightarrow> rec_ok (rec_newline r)"
  using unat_count_columns[of r] by (auto simp: rec_ok_def rec_newline_def)

lemma newline_columns [simp]: "m_columns (rec_newline r) = m_columns r"
  by (simp add: rec_newline_def)

lemma newlines:
  assumes "rec_ok r"
  shows "(rec_newline ^^ k) r = r\<lparr>m_record := m_record r @
    replicate k (replicate (length (m_columns r)) (PgsString []))\<rparr>"
proof (induction k)
  case (Suc k)
  then show ?case
    using unat_count_columns[OF assms]
    by (simp add: rec_newline_def count_columns_def replicate_append_same)
qed simp

section \<open>Growing\<close>

lemma unat_succ: "unat (i::ushort) < 65535 \<Longrightarrow> unat (i + 1) = Suc (unat i)"
  by (simp add: unat_word_ariths)

text \<open>Below the last line number the loop adds the missing lines.\<close>

lemma add_lines_total:
  assumes "unat line < 65535"
  shows "add_lines i line r = Some ((rec_newline ^^ (Suc (unat line) - unat i)) r)"
proof (induction "Suc (unat line) - unat i" arbitrary: i r rule: less_induct)
  case less
  show ?case
  proof (cases "i \<le> line")
    case False
    then have "Suc (unat line) - unat i = 0" by (simp add: ushort_le)
    then show ?thesis using False by (subst add_lines.simps) simp
  next
    case True
    then have u: "unat (i + 1) = Suc (unat i)" "unat i \<le> unat line"
      using assms by (simp_all add: unat_succ ushort_le)
    define d where "d = unat line - unat i"
    have d: "Suc (unat line) - unat i = Suc d" "Suc (unat line) - unat (i + 1) = d"
      using u by (simp_all add: d_def)
    have "add_lines (i + 1) line (rec_newline r) = Some ((rec_newline ^^ d) (rec_newline r))"
      using less.hyps[of "i + 1" "rec_newline r"] by (simp add: d)
    then show ?thesis unfolding d(1) using True
      by (subst add_lines.simps) (simp add: funpow_swap1)
  qed
qed

text \<open>At the last line number the 16-bit counter wraps and the loop never ends.\<close>

lemma add_lines_last: "add_lines i line r = Some r' \<Longrightarrow> line \<noteq> - 1"
proof (erule add_lines.raw_induct[where P = "\<lambda>i line r r'. line \<noteq> - 1", rotated])
  fix f and i line :: ushort and r r'
  assume "\<And>i line r r'. f i line r = Some r' \<Longrightarrow> line \<noteq> - 1"
    and "(if i \<le> line then f (i + 1) line (rec_newline r) else Some r) = Some r'"
  then show "line \<noteq> - 1" by (auto split: if_splits)
qed

section \<open>Reading after writing\<close>

lemma rec_insert_value:
  assumes "rec_ok r" "length (m_record r) < 65536" "unat line < 65535"
    and "column < count_columns r"
  defines "k \<equiv> Suc (unat line) - length (m_record r)"
  defines "blank \<equiv> replicate (length (m_columns r)) (PgsString [])"
  shows "\<exists>r'. rec_insert line column v r = Some (True, r')
    \<and> m_columns r' = m_columns r
    \<and> m_record r' = (m_record r @ replicate k blank)
        [unat line := ((m_record r @ replicate k blank) ! unat line)[unat column := v]]"
proof -
  have u: "unat (count_lines r) = length (m_record r)" by (rule unat_count_lines[OF assms(2)])
  have c: "count_columns (r\<lparr>m_record := x\<rparr>) = count_columns r" for x
    by (simp add: count_columns_def)
  show ?thesis
    using assms(4)
    by (simp add: rec_insert_def add_lines_total[OF assms(3)] newlines[OF assms(1)] u k_def
        blank_def c not_le)
qed

lemma rec_insert_ok:
  assumes "rec_ok r" "rec_insert line column v r = Some (b, r')"
  shows "rec_ok r' \<and> m_columns r' = m_columns r"
proof -
  obtain r1 where r1: "add_lines (count_lines r) line r = Some r1"
    using assms(2) by (auto simp: rec_insert_def)
  have "unat line < 65535"
  proof (rule ccontr)
    assume "\<not> unat line < 65535"
    then have "unat line = unat (- 1 :: ushort)"
      using unat_ushort_less[of line] by (simp add: unsigned_minus_1_eq_mask mask_eq_exp_minus_1)
    then have "line = - 1" by (simp only: word_unat_eq_iff)
    then show False using add_lines_last[OF r1] by simp
  qed
  then have "r1 = r\<lparr>m_record := m_record r @ replicate (Suc (unat line) - unat (count_lines r))
      (replicate (length (m_columns r)) (PgsString []))\<rparr>"
    using r1 add_lines_total[of line "count_lines r" r] newlines[OF assms(1)] by simp
  then have r1_ok: "rec_ok r1 \<and> m_columns r1 = m_columns r"
    using assms(1) by (auto simp: rec_ok_def)
  have upd: "rec_ok r1 \<Longrightarrow> rec_ok (r1\<lparr>m_record := (m_record r1)[i := (m_record r1 ! i)[j := x]]\<rparr>)" for i j x
  proof (cases "i < length (m_record r1)")
    case True
    then show "rec_ok r1 \<Longrightarrow> ?thesis"
      by (auto simp: rec_ok_def dest!: set_update_subset_insert[THEN subsetD])
  qed (simp add: rec_ok_def list_update_beyond)
  show ?thesis
    using assms(2) r1 r1_ok upd by (auto simp: rec_insert_def split: if_splits)
qed

text \<open>The law of \<open>get\<close> after \<open>insert\<close>: the new cell, and every other one as it was. Cells that the
  growth of the record added read as the empty string, which is what they read before.\<close>

lemma rec_get_grid:
  assumes "rec_ok r" "length (m_record r) < 65536"
  shows "rec_get l c r =
    (if unat l < length (m_record r) \<and> unat c < length (m_columns r)
     then m_record r ! unat l ! unat c else PgsString [])"
  using assms by (simp add: rec_get_def ushort_less unat_count_columns unat_count_lines)

lemma rec_get_insert:
  assumes "rec_ok r" "length (m_record r) < 65536" "unat line < 65535"
    and "column < count_columns r"
    and ins: "rec_insert line column v r = Some (b, r')"
  shows "rec_get l c r' = (if l = line \<and> c = column then v else rec_get l c r)"
    and "length (m_record r') = max (length (m_record r)) (Suc (unat line))" and "b"
proof -
  define k where "k = Suc (unat line) - length (m_record r)"
  define blank where "blank = replicate (length (m_columns r)) (PgsString [])"
  define rows where "rows = m_record r @ replicate k blank"
  have r': "m_columns r' = m_columns r"
      "m_record r' = rows[unat line := (rows ! unat line)[unat column := v]]" "b"
    using rec_insert_value[OF assms(1-4), of v] ins by (auto simp: rows_def k_def blank_def)
  have len: "length rows = max (length (m_record r)) (Suc (unat line))"
    by (simp add: rows_def k_def max_def)
  show "length (m_record r') = max (length (m_record r)) (Suc (unat line))" "b"
    using r' len by simp_all
  have ok': "rec_ok r'" using rec_insert_ok[OF assms(1) ins] by simp
  have small: "length (m_record r') < 65536" using r' len assms by simp
  have col: "unat column < length (m_columns r)"
    using assms(1,4) by (simp add: ushort_less unat_count_columns)
  have width: "length (rows ! unat line) = length (m_columns r)"
    using assms(1) len by (auto simp: rows_def blank_def nth_append rec_ok_def)
  have line: "unat line < length rows" using len by simp
  have blank_cell: "rows ! unat l ! unat c = PgsString []"
    if "\<not> unat l < length (m_record r)" "unat l < length rows" "unat c < length (m_columns r)"
    using that by (simp add: rows_def blank_def nth_append)
  show "rec_get l c r' = (if l = line \<and> c = column then v else rec_get l c r)"
    using r'(1,2) col width line blank_cell assms(1)
    unfolding rec_get_grid[OF ok' small] rec_get_grid[OF assms(1,2)]
    by (auto simp: nth_list_update rows_def nth_append word_unat_eq_iff)
qed

section \<open>The container as a grid of cells\<close>

text \<open>
  What a client that fills a record relies on: below the last line number an insertion into an
  existing column succeeds, is read back, and leaves the other cells alone.
\<close>

locale grid =
  fixes ok :: "'r \<Rightarrow> bool"
    and valid :: "ushort \<Rightarrow> ushort \<Rightarrow> 'r \<Rightarrow> bool"
    and put :: "ushort \<Rightarrow> ushort \<Rightarrow> 'v \<Rightarrow> 'r \<Rightarrow> (bool \<times> 'r) option"
    and fetch :: "ushort \<Rightarrow> ushort \<Rightarrow> 'r \<Rightarrow> 'v"
  assumes put_total: "ok r \<Longrightarrow> valid l c r \<Longrightarrow> \<exists>r'. put l c v r = Some (True, r') \<and> ok r'"
    and fetch_put: "ok r \<Longrightarrow> valid l c r \<Longrightarrow> put l c v r = Some (b, r') \<Longrightarrow>
      fetch l' c' r' = (if l' = l \<and> c' = c then v else fetch l' c' r)"
    and valid_put: "ok r \<Longrightarrow> valid l c r \<Longrightarrow> put l c v r = Some (b, r') \<Longrightarrow>
      valid l' c' r' = valid l' c' r"
begin

fun put_all :: "(ushort \<times> ushort \<times> 'v) list \<Rightarrow> 'r \<Rightarrow> 'r option" where
  "put_all [] r = Some r"
| "put_all ((l, c, v) # xs) r = Option.bind (put l c v r) (\<lambda>p. put_all xs (snd p))"

lemma put_all_total:
  "ok r \<Longrightarrow> \<forall>(l, c, v)\<in>set xs. valid l c r \<Longrightarrow> \<exists>r'. put_all xs r = Some r' \<and> ok r'"
proof (induction xs arbitrary: r)
  case (Cons x xs)
  obtain l c v where x: "x = (l, c, v)" by (cases x)
  then obtain r1 where r1: "put l c v r = Some (True, r1)" "ok r1"
    using put_total[of r l c v] Cons.prems by auto
  have "\<forall>(l, c, v)\<in>set xs. valid l c r1"
    using Cons.prems x valid_put[OF _ _ r1(1)] by auto
  then show ?case using Cons.IH[of r1] r1 x by auto
qed simp

text \<open>After a series of insertions each cell holds the last value put there.\<close>

lemma fetch_put_all:
  "ok r \<Longrightarrow> \<forall>(l, c, v)\<in>set xs. valid l c r \<Longrightarrow> put_all xs r = Some r' \<Longrightarrow>
   fetch l c r' = (case find (\<lambda>(l', c', v). l' = l \<and> c' = c) (rev xs) of
                  None \<Rightarrow> fetch l c r | Some (_, _, v) \<Rightarrow> v)"
proof (induction xs arbitrary: r)
  case (Cons x xs)
  obtain l1 c1 v1 where x: "x = (l1, c1, v1)" by (cases x)
  then obtain r1 where r1: "put l1 c1 v1 r = Some (True, r1)" "ok r1"
    using put_total[of r l1 c1 v1] Cons.prems by auto
  have v: "\<forall>(l, c, v)\<in>set xs. valid l c r1"
    using Cons.prems x valid_put[OF _ _ r1(1)] by auto
  have "fetch l c r1 = (if l = l1 \<and> c = c1 then v1 else fetch l c r)"
    using fetch_put[OF Cons.prems(1) _ r1(1)] Cons.prems(2) x by auto
  then show ?case
    using Cons.IH[OF r1(2) v] Cons.prems(3) x r1
    by (auto simp: find_app split: option.splits)
qed simp

end

definition grid_ok :: "pgsRecord \<Rightarrow> bool" where
  "grid_ok r \<longleftrightarrow> rec_ok r \<and> length (m_record r) < 65536"

definition grid_valid :: "ushort \<Rightarrow> ushort \<Rightarrow> pgsRecord \<Rightarrow> bool" where
  "grid_valid l c r \<longleftrightarrow> unat l < 65535 \<and> c < count_columns r"

interpretation rg: grid grid_ok grid_valid rec_insert rec_get
proof
  fix r l c v
  assume "grid_ok r" "grid_valid l c r"
  then have a: "rec_ok r" "length (m_record r) < 65536" "unat l < 65535" "c < count_columns r"
    by (auto simp: grid_ok_def grid_valid_def)
  show "\<exists>r'. rec_insert l c v r = Some (True, r') \<and> grid_ok r'"
    using rec_insert_value[OF a, of v] rec_insert_ok[OF a(1)] rec_get_insert(2)[OF a] a(2,3)
    by (fastforce simp: grid_ok_def)
  fix b r' l' c'
  assume i: "rec_insert l c v r = Some (b, r')"
  show "rec_get l' c' r' = (if l' = l \<and> c' = c then v else rec_get l' c' r)"
    by (rule rec_get_insert(1)[OF a i])
  show "grid_valid l' c' r' = grid_valid l' c' r"
    using rec_insert_ok[OF a(1) i] by (simp add: grid_valid_def count_columns_def)
qed

end
