(* ===== verification/PgsQueries.thy ===== *)
theory PgsQueries
  imports PgsContainer
begin

text \<open>
  The queries of a script: what \<open>pgsExecute::eval\<close> does with SQL text once its variables are replaced -
  the query thread, the messages, the record built from the result set - and the reading of values,
  which runs a query when the value is a generator of references.
\<close>

definition back_slash :: char where "back_slash = CHR 0x5C"
definition double_quote :: char where "double_quote = CHR 0x22"


section \<open>Identifiers in SQL text\<close>

definition is_id_char :: "char \<Rightarrow> bool" where
  "is_id_char c \<longleftrightarrow>
     (let n = of_char c :: nat in
      is_digit c \<or> (65 \<le> n \<and> n \<le> 90) \<or> (97 \<le> n \<and> n \<le> 122) \<or>
      c = CHR ''_'' \<or> c = CHR ''#'' \<or> c = CHR ''@'')"

text \<open>The leftmost match of \<open>([^\])(@[a-zA-Z0-9_#@]+)\<close>: what precedes it, its two groups, what
  follows.\<close>

fun find_identifier :: "string \<Rightarrow> (string \<times> char \<times> string \<times> string) option" where
  "find_identifier (c # a # d # s) =
     (if c \<noteq> back_slash \<and> a = CHR ''@'' \<and> is_id_char d
      then Some ([], c, a # takeWhile is_id_char (d # s), dropWhile is_id_char (d # s))
      else map_option (\<lambda>(p, r). (c # p, r)) (find_identifier (a # d # s)))"
| "find_identifier _ = None"

text \<open>The replacement text of \<open>wxRegEx::Replace\<close>: a back slash quotes the next character or
  introduces the number of a group, \<open>&\<close> stands for the whole match.\<close>

function expand_groups :: "(nat \<Rightarrow> string) \<Rightarrow> string \<Rightarrow> string" where
  "expand_groups g [] = []"
| "expand_groups g (c # s) =
     (if c = back_slash then
        (case s of
           [] \<Rightarrow> []
         | d # t \<Rightarrow>
             if is_digit d
             then g (undec (takeWhile is_digit s)) @ expand_groups g (dropWhile is_digit s)
             else d # expand_groups g t)
      else if c = CHR ''&'' then g 0 @ expand_groups g s
      else c # expand_groups g s)"
  by pat_completeness auto
termination
  by (relation "measure (\<lambda>(g, s). length s)") (auto simp: less_Suc_eq_le intro: le_SucI length_dropWhile_le)

declare expand_groups.simps(2) [simp del]

definition match_groups :: "char \<Rightarrow> string \<Rightarrow> nat \<Rightarrow> string" where
  "match_groups chr var k =
     (if k = 0 then chr # var else if k = 1 then [chr] else if k = 2 then var else [])"

definition escape_quotes :: "string \<Rightarrow> string" where
  "escape_quotes s =
     replace_all [CHR 0x27] [CHR 0x27, CHR 0x27] (replace_all [back_slash] [back_slash, back_slash] s)"

text \<open>\<open>escaped.ReplaceAll\<close>: a back slash before \<open>@\<close> or a back slash is dropped.\<close>

fun unescape :: "string \<Rightarrow> string" where
  "unescape (c # d # s) =
     (if c = back_slash \<and> (d = CHR ''@'' \<or> d = back_slash) then d # unescape s
      else c # unescape (d # s))"
| "unescape s = s"

section \<open>Semaphore, messages, query thread\<close>

definition lock_output :: "unit pgs" where
  "lock_output s = (if ps_stream s = 0 then None else Some (Inr (), s\<lparr>ps_stream := ps_stream s - 1\<rparr>))"

definition unlock_output :: "unit pgs" where
  "unlock_output = modifies (\<lambda>s. s\<lparr>ps_stream := (if ps_stream s = 0 then 1 else ps_stream s)\<rparr>)"

definition test_destroy :: "pgs_env \<Rightarrow> bool pgs" where
  "test_destroy env s = Some (Inr (env_destroyed env (ps_tests s)), s\<lparr>ps_tests := Suc (ps_tests s)\<rparr>)"

text \<open>Runs of line ends become one, and the following lines are indented.\<close>

fun squeeze :: "string \<Rightarrow> string" where
  "squeeze (c # d # s) =
     (if c = newline_char \<and> d = newline_char then squeeze (d # s) else c # squeeze (d # s))"
| "squeeze s = s"

definition indent_message :: "string \<Rightarrow> string \<Rightarrow> string" where
  "indent_message head m =
     head @ replace_all [newline_char] (newline_char # generate_spaces (length head)) (squeeze m) @
     [newline_char]"

definition report :: "bool \<Rightarrow> string \<Rightarrow> unit pgs" where
  "report cout text =
     do_when cout (bind_prog lock_output (\<lambda>_. bind_prog (emit text) (\<lambda>_. unlock_output)))"

text \<open>The polling loop: until the script is told to stop or the query has ended.\<close>

partial_function (option) wait_query ::
  "pgs_env \<Rightarrow> pgs_state \<Rightarrow> ((pgsException + unit) \<times> pgs_state) option" where
  "wait_query env s =
     bind_prog (test_destroy env) (\<lambda>b.
       if b then ret ()
       else bind_prog (reads (\<lambda>s. env_running env (ps_tests s))) (\<lambda>r.
         if r then wait_query env else ret ())) s"

declare wait_query.simps [code]

section \<open>The result set\<close>

primrec fill_cells :: "nat \<Rightarrow> nat \<Rightarrow> nat \<Rightarrow> scalar list \<Rightarrow> pgsRecord \<Rightarrow> pgsRecord option" where
  "fill_cells line column nb_of_columns [] r = Some r"
| "fill_cells line column nb_of_columns (x # xs) r =
     (if column < nb_of_columns then
        Option.bind (rec_insert (of_nat line) (of_nat column) x r)
          (\<lambda>p. fill_cells line (Suc column) nb_of_columns xs (snd p))
      else fill_cells line (Suc column) nb_of_columns xs r)"

primrec fill_lines :: "nat \<Rightarrow> nat \<Rightarrow> scalar list list \<Rightarrow> pgsRecord \<Rightarrow> pgsRecord option" where
  "fill_lines line nb_of_columns [] r = Some r"
| "fill_lines line nb_of_columns (l # ls) r =
     Option.bind (fill_cells line 0 nb_of_columns l r) (fill_lines (Suc line) nb_of_columns ls)"

text \<open>A record of one cell, as \<open>pgsNumber::record\<close> and \<open>pgsGenerator::record\<close> build it.\<close>

definition cell_record :: "scalar \<Rightarrow> pgsRecord" where
  "cell_record x = (case rec_insert 0 0 x (new_record 1) of Some (_, r) \<Rightarrow> r | None \<Rightarrow> new_record 1)"

definition is_int_type :: "string \<Rightarrow> bool" where
  "is_int_type t \<longleftrightarrow> (\<exists>u\<in>set [''bigint'', ''smallint'', ''integer'']. equal_no_case t u)"

definition is_real_type :: "string \<Rightarrow> bool" where
  "is_real_type t \<longleftrightarrow>
     (\<exists>u\<in>set [''real'', ''double precision'', ''money'', ''numeric'']. equal_no_case t u)"

definition typed_cell :: "string \<Rightarrow> string \<Rightarrow> scalar" where
  "typed_cell col_type value =
     (if is_int_type col_type \<and> num_type value = pgsTInt then mk_number False value
      else if \<not> is_int_type col_type \<and> is_real_type col_type \<and> num_type value = pgsTReal
      then mk_number True value
      else PgsString value)"

primrec name_columns :: "nat \<Rightarrow> string list \<Rightarrow> pgsRecord \<Rightarrow> pgsRecord" where
  "name_columns i [] r = r"
| "name_columns i (n # ns) r = name_columns (Suc i) ns (snd (set_column_name (of_nat i) n r))"

definition load_set :: "(string \<times> string) list \<Rightarrow> string list list \<Rightarrow> pgsRecord option" where
  "load_set columns rows =
     fill_lines 0 (length columns) (map (\<lambda>row. map2 typed_cell (map snd columns) row) rows)
       (name_columns 0 (map fst columns) (new_record (of_nat (length columns))))"

definition one_record :: pgsRecord where
  "one_record = cell_record (mk_number False ''1'')"

section \<open>Running a query\<close>

definition run_query :: "pgs_env \<Rightarrow> string \<Rightarrow> query_result pgs" where
  "run_query env stmt =
     bind_prog (reads ps_queries) (\<lambda>n.
     bind_prog (modifies (\<lambda>s. s\<lparr>ps_queries := Suc n\<rparr>)) (\<lambda>_.
     bind_prog (wait_query env) (\<lambda>_. ret (env_query env n stmt))))"

text \<open>\<open>pgsExecute::eval\<close>, after the variables have been replaced.\<close>

definition execute_stmt :: "pgs_env \<Rightarrow> bool \<Rightarrow> string \<Rightarrow> pgsVariable pgs" where
  "execute_stmt env cout stmt =
    (let nothing = ret (RecordVar (new_record 1)) in
     if \<not> env_connected env then nothing
     else bind_prog (test_destroy env) (\<lambda>stop.
     if stop \<or> \<not> env_thread_ok env then nothing
     else bind_prog (run_query env stmt) (\<lambda>res.
     let messages = strip_both (qr_messages res) in
     if \<not> qr_ok res then
       bind_prog (report cout (indent_message PGSOUTWARNING (stmt @ [newline_char] @ messages)))
         (\<lambda>_. nothing)
     else bind_prog (test_destroy env) (\<lambda>stop.
     if stop then nothing
     else bind_prog
         (report cout (indent_message PGSOUTQUERY
            (if messages \<noteq> [] then stmt @ [newline_char] @ messages else stmt))) (\<lambda>_.
       case qr_set res of
         None \<Rightarrow> ret (RecordVar one_record)
       | Some (columns, rows) \<Rightarrow>
           (case load_set columns rows of
              None \<Rightarrow> never
            | Some r \<Rightarrow> ret (RecordVar r)))))))"

text \<open>The same loop over identifiers when the symbol table is empty, as it is for the queries of
  \<open>pgsReferenceGen\<close>: no identifier has a value.\<close>

partial_function (option) expand_unknown :: "string \<Rightarrow> string option" where
  "expand_unknown stmt =
     (case find_identifier stmt of
        None \<Rightarrow> Some stmt
      | Some (before, chr, var, after) \<Rightarrow>
          expand_unknown
            (before @ expand_groups (match_groups chr var) (chr # back_slash # back_slash # var) @ after))"

declare expand_unknown.simps [code]

definition own_query :: "pgs_env \<Rightarrow> string \<Rightarrow> pgsVariable pgs" where
  "own_query env query =
     (case expand_unknown query of
        None \<Rightarrow> never
      | Some expanded \<Rightarrow> execute_stmt env False (unescape expanded))"

section \<open>What a query changes\<close>

lemma wait_query_state:
  assumes "wait_query env s = Some y"
  shows "(\<exists>n. snd y = s\<lparr>ps_tests := n\<rparr>) \<and> fst y = Inr ()"
proof (rule wait_query.raw_induct
    [where P = "\<lambda>env s y. (\<exists>n. snd y = s\<lparr>ps_tests := n\<rparr>) \<and> fst y = Inr ()", OF _ assms])
  fix f and env :: pgs_env and s :: pgs_state and y
  assume IH: "\<And>env s y. f env s = Some y \<Longrightarrow> (\<exists>n. snd y = s\<lparr>ps_tests := n\<rparr>) \<and> fst y = Inr ()"
    and "bind_prog (test_destroy env) (\<lambda>b. if b then ret ()
      else bind_prog (reads (\<lambda>s. env_running env (ps_tests s))) (\<lambda>r. if r then f env else ret ())) s
      = Some y"
  then show "(\<exists>n. snd y = s\<lparr>ps_tests := n\<rparr>) \<and> fst y = Inr ()"
    by (force simp: bind_prog_def test_destroy_def reads_def ret_def split: if_splits dest!: IH)
qed

text \<open>Without a stream for its messages a query counts the tests and queries, and nothing else.\<close>

definition uncounted :: "pgs_state \<Rightarrow> pgs_state" where
  "uncounted s = s\<lparr>ps_tests := 0, ps_queries := 0\<rparr>"

lemma uncounted_eq: "uncounted t = uncounted s \<Longrightarrow> t = s\<lparr>ps_tests := ps_tests t, ps_queries := ps_queries t\<rparr>"
  by (cases s; cases t) (simp add: uncounted_def)

definition counted :: "'a pgs \<Rightarrow> bool" where
  "counted m \<longleftrightarrow> (\<forall>s r t. m s = Some (r, t) \<longrightarrow> uncounted t = uncounted s \<and> (\<exists>v. r = Inr v))"

lemma countedI: "(\<And>s r t. m s = Some (r, t) \<Longrightarrow> uncounted t = uncounted s \<and> (\<exists>v. r = Inr v)) \<Longrightarrow> counted m"
  by (simp add: counted_def)

lemma countedD: "counted m \<Longrightarrow> m s = Some (r, t) \<Longrightarrow> uncounted t = uncounted s \<and> (\<exists>v. r = Inr v)"
  by (simp add: counted_def)

lemma counted_ret: "counted (ret x)" and counted_never: "counted never"
  by (auto intro!: countedI simp: ret_def never_def)

lemma counted_if: "(b \<Longrightarrow> counted m) \<Longrightarrow> (\<not> b \<Longrightarrow> counted m') \<Longrightarrow> counted (if b then m else m')"
  by simp

lemma counted_bind:
  assumes "counted m" "\<And>x. counted (k x)"
  shows "counted (bind_prog m k)"
proof (rule countedI)
  fix s r t
  assume "bind_prog m k s = Some (r, t)"
  then show "uncounted t = uncounted s \<and> (\<exists>v. r = Inr v)"
  proof (cases rule: bind_cases)
    case (inl e)
    then show ?thesis using countedD[OF assms(1)] by fastforce
  next
    case (inr x u)
    then show ?thesis using countedD[OF assms(1) inr(1)] countedD[OF assms(2) inr(2)] by auto
  qed
qed

lemma counted_report: "counted (report False text)"
  by (simp add: report_def do_when_def counted_ret)

lemma counted_test: "counted (test_destroy env)"
  by (rule countedI) (auto simp: test_destroy_def uncounted_def)

lemma counted_run: "counted (run_query env q)"
proof -
  have "counted (wait_query env)"
    by (rule countedI) (use wait_query_state in \<open>fastforce simp: uncounted_def\<close>)
  moreover have "counted (modifies (\<lambda>s. s\<lparr>ps_queries := n\<rparr>))" "counted (reads f)" for n f
    by (auto intro!: countedI simp: modifies_def reads_def uncounted_def)
  ultimately show ?thesis unfolding run_query_def by (intro counted_bind counted_ret)
qed

lemma counted_own_query: "counted (own_query env q)"
proof -
  have "counted (execute_stmt env False stmt)" for stmt
    unfolding execute_stmt_def Let_def
    by (auto intro!: counted_if counted_bind counted_ret counted_never counted_test counted_run counted_report
        split: option.split)
  then show ?thesis by (auto simp: own_query_def intro: counted_never split: option.split)
qed

section \<open>Reading values\<close>

fun plain :: "scalar \<Rightarrow> bool" where
  "plain (PgsGenerator t i) = False"
| "plain _ = True"

fun cell_data :: "scalar \<Rightarrow> string" where
  "cell_data (PgsNumber r d) = d"
| "cell_data (PgsString d) = d"
| "cell_data (PgsGenerator t i) = []"

text \<open>The last step of \<open>pgsReferenceGen::random\<close>: \<open>get(0, 0)->value()\<close> of the record.\<close>

definition first_cell :: "pgsVariable \<Rightarrow> string" where
  "first_cell v = (case v of RecordVar r \<Rightarrow> cell_data (rec_get 0 0 r) | Scalar x \<Rightarrow> [])"

text \<open>\<open>m_randomizer->random()\<close>: the shared randomizer advances.\<close>

definition gen_random :: "pgs_env \<Rightarrow> nat \<Rightarrow> string pgs" where
  "gen_random env i s =
     (if i < length (ps_gens s) then
        Option.bind (object_random (env_gens env) (ps_gens s ! i)) (\<lambda>(x, g).
          (case g of
             ReferenceGen _ \<Rightarrow> bind_prog (own_query env x) (\<lambda>v. ret (first_cell v))
           | _ \<Rightarrow> ret x) (s\<lparr>ps_gens := (ps_gens s)[i := g]\<rparr>))
      else None)"

fun scalar_value :: "pgs_env \<Rightarrow> scalar \<Rightarrow> string pgs" where
  "scalar_value env (PgsNumber r d) = ret d"
| "scalar_value env (PgsString d) = ret d"
| "scalar_value env (PgsGenerator t i) = gen_random env i"

text \<open>\<open>pgsGenerator::operand\<close>\<close>

definition gen_operand :: "pgs_env \<Rightarrow> ptype \<Rightarrow> nat \<Rightarrow> scalar pgs" where
  "gen_operand env t i =
     (case t of
        pgsTInt \<Rightarrow> bind_prog (gen_random env i) (\<lambda>d. ret (mk_number False d))
      | pgsTReal \<Rightarrow> bind_prog (gen_random env i) (\<lambda>d. ret (mk_number True d))
      | _ \<Rightarrow> bind_prog (gen_random env i) (\<lambda>d. ret (PgsString d)))"

definition num :: "string \<Rightarrow> mapm" where "num s = pgs_str_mapm s"

definition flag :: "bool \<Rightarrow> pgsVariable" where
  "flag b = Scalar (mk_number False (if b then ''1'' else ''0''))"

end
