(* ===== verification/PgsRecord.thy ===== *)
theory PgsRecord
  imports PgsQueries
begin

text \<open>
  Records of \<open>pgscript/objects/pgsRecord.cpp\<close>: the text of a record, and the comparison of records
  as bags of lines. Shown: insertions and \<open>get\<close> on a record as a grid, and that the comparisons are
  equality and inclusion of the bags of lines.
\<close>

section \<open>The text of a record\<close>

fun join :: "string \<Rightarrow> string list \<Rightarrow> string" where
  "join sep [] = []"
| "join sep [s] = s"
| "join sep (s # t # ss) = s @ sep @ join sep (t # ss)"

definition cell_text :: "pgs_env \<Rightarrow> scalar \<Rightarrow> string pgs" where
  "cell_text env x =
     bind_prog (scalar_value env x) (\<lambda>elm.
       ret (if is_number (Scalar x) then elm
            else [double_quote] @
              replace_all [double_quote] [back_slash, double_quote]
                (replace_all [back_slash] [back_slash, back_slash] elm) @ [double_quote]))"

definition line_text :: "pgs_env \<Rightarrow> pgsRecord \<Rightarrow> scalar list \<Rightarrow> string pgs" where
  "line_text env r l =
     bind_prog (map_prog (cell_text env) (take (unat (count_columns r)) l))
       (\<lambda>elms. ret (''('' @ join '','' elms @ '')''))"

definition record_value :: "pgs_env \<Rightarrow> pgsRecord \<Rightarrow> string pgs" where
  "record_value env r =
     bind_prog (map_prog (line_text env r) (take (unat (count_lines r)) (m_record r)))
       (\<lambda>ls. ret (join [newline_char] ls))"

fun var_value :: "pgs_env \<Rightarrow> pgsVariable \<Rightarrow> string pgs" where
  "var_value env (Scalar x) = scalar_value env x"
| "var_value env (RecordVar r) = record_value env r"

section \<open>Comparing records\<close>

text \<open>\<open>string()\<close> of a cell compared with \<open>pgsEqual\<close>.\<close>

definition text_equal :: "bool \<Rightarrow> string \<Rightarrow> string \<Rightarrow> bool" where
  "text_equal case_sensitive s t \<longleftrightarrow> (if case_sensitive then s = t else equal_no_case s t)"

fun cells_equal :: "pgs_env \<Rightarrow> bool \<Rightarrow> scalar list \<Rightarrow> scalar list \<Rightarrow> bool pgs" where
  "cells_equal env cs (x # xs) (y # ys) =
     bind_prog (scalar_value env x) (\<lambda>s. bind_prog (scalar_value env y) (\<lambda>t.
       if text_equal cs s t then cells_equal env cs xs ys else ret False))"
| "cells_equal env cs _ _ = ret True"

definition lines_equal :: "pgs_env \<Rightarrow> bool \<Rightarrow> scalar list \<Rightarrow> scalar list \<Rightarrow> bool pgs" where
  "lines_equal env cs l r = (if length l \<noteq> length r then ret False else cells_equal env cs l r)"

text \<open>The inner loop of \<open>records_equal\<close>: the first line of the right record, from number \<open>j\<close> on,
  that is not in \<open>seen\<close> and equals \<open>l\<close>.\<close>

fun find_match ::
  "pgs_env \<Rightarrow> bool \<Rightarrow> scalar list \<Rightarrow> nat list \<Rightarrow> nat \<Rightarrow> scalar list list \<Rightarrow> nat option pgs" where
  "find_match env cs l seen j [] = ret None"
| "find_match env cs l seen j (r # rs) =
     (if j \<in> set seen then find_match env cs l seen (Suc j) rs
      else bind_prog (lines_equal env cs l r) (\<lambda>b.
        if b then ret (Some j) else find_match env cs l seen (Suc j) rs))"

fun match_lines ::
  "pgs_env \<Rightarrow> bool \<Rightarrow> scalar list list \<Rightarrow> scalar list list \<Rightarrow> nat list \<Rightarrow> bool pgs" where
  "match_lines env cs [] rs seen = ret True"
| "match_lines env cs (l # ls) rs seen =
     bind_prog (find_match env cs l seen 0 rs) (\<lambda>m.
       case m of None \<Rightarrow> ret False | Some j \<Rightarrow> match_lines env cs ls rs (seen @ [j]))"

definition seen_lines :: "pgsRecord \<Rightarrow> scalar list list" where
  "seen_lines r = take (unat (count_lines r)) (m_record r)"

definition records_equal :: "pgs_env \<Rightarrow> pgsRecord \<Rightarrow> pgsRecord \<Rightarrow> bool \<Rightarrow> bool pgs" where
  "records_equal env l r cs =
     (if count_columns l \<noteq> count_columns r then ret False
      else match_lines env cs (seen_lines l) (seen_lines r) [])"

definition record_eq :: "pgs_env \<Rightarrow> pgsRecord \<Rightarrow> pgsRecord \<Rightarrow> bool pgs" where
  "record_eq env l r =
     (if count_lines l \<noteq> count_lines r then ret False else records_equal env l r True)"

definition record_less :: "pgs_env \<Rightarrow> pgsRecord \<Rightarrow> pgsRecord \<Rightarrow> bool pgs" where
  "record_less env l r =
     (if count_lines l \<ge> count_lines r then ret False else records_equal env l r True)"

definition record_less_eq :: "pgs_env \<Rightarrow> pgsRecord \<Rightarrow> pgsRecord \<Rightarrow> bool pgs" where
  "record_less_eq env l r =
     (if count_lines l > count_lines r then ret False else records_equal env l r True)"

definition record_almost :: "pgs_env \<Rightarrow> pgsRecord \<Rightarrow> pgsRecord \<Rightarrow> bool pgs" where
  "record_almost env l r =
     (if count_lines l \<noteq> count_lines r then ret False else records_equal env l r False)"

section \<open>Records as bags of lines\<close>

definition fold_case :: "bool \<Rightarrow> string \<Rightarrow> string" where
  "fold_case case_sensitive s = (if case_sensitive then s else str_lower s)"

definition line_key :: "bool \<Rightarrow> scalar list \<Rightarrow> string list" where
  "line_key cs l = map (\<lambda>x. fold_case cs (cell_data x)) l"

definition plain_record :: "pgsRecord \<Rightarrow> bool" where
  "plain_record r \<longleftrightarrow> (\<forall>l\<in>set (m_record r). \<forall>x\<in>set l. plain x)"

definition line_bag :: "bool \<Rightarrow> pgsRecord \<Rightarrow> string list multiset" where
  "line_bag cs r = image_mset (line_key cs) (mset (m_record r))"

lemma value_plain [prog_simps]: "plain x \<Longrightarrow> scalar_value env x = ret (cell_data x)"
  by (cases x) auto

lemma cells_equal_plain:
  "list_all plain xs \<Longrightarrow> list_all plain ys \<Longrightarrow> length xs = length ys \<Longrightarrow>
   cells_equal env cs xs ys = ret (line_key cs xs = line_key cs ys)"
  by (induction xs ys rule: list_induct2')
    (auto simp: prog_simps line_key_def text_equal_def fold_case_def equal_no_case_def)

lemma lines_equal_plain [prog_simps]:
  "list_all plain xs \<Longrightarrow> list_all plain ys \<Longrightarrow>
   lines_equal env cs xs ys = ret (line_key cs xs = line_key cs ys)"
  by (cases "length xs = length ys")
    (simp_all add: lines_equal_def cells_equal_plain, metis length_map line_key_def)

lemma find_match_plain:
  "list_all plain l \<Longrightarrow> list_all (list_all plain) rs \<Longrightarrow>
   find_match env cs l seen j rs =
     ret (find (\<lambda>i. i \<notin> set seen \<and> line_key cs l = line_key cs (rs ! (i - j))) [j..<j + length rs])"
proof (induction rs arbitrary: j)
  case (Cons r rs)
  let ?Q = "\<lambda>i. i \<notin> set seen \<and> line_key cs l = line_key cs ((r # rs) ! (i - j))"
  have eq: "find (\<lambda>i. i \<notin> set seen \<and> line_key cs l = line_key cs (rs ! (i - Suc j))) [Suc j..<Suc j + length rs]
    = find ?Q [Suc j..<Suc j + length rs]"
    by (rule find_cong) (auto simp: nth_Cons')
  have IH: "find_match env cs l seen (Suc j) rs = ret (find ?Q [Suc j..<Suc j + length rs])"
    using Cons.IH[of "Suc j"] Cons.prems unfolding eq by simp
  have up: "[j..<j + length (r # rs)] = j # [Suc j..<Suc j + length rs]"
    by (simp add: upt_conv_Cons del: upt_Suc)
  have le: "lines_equal env cs l r = ret (line_key cs l = line_key cs r)"
    using Cons.prems by (simp add: lines_equal_plain)
  show ?case
    unfolding up find_match.simps le bind_ret IH find.simps by simp
qed simp

text \<open>The lines of the right record that are still free, as a bag of keys.\<close>

definition free_bag :: "bool \<Rightarrow> scalar list list \<Rightarrow> nat list \<Rightarrow> string list multiset" where
  "free_bag cs rs seen = image_mset (\<lambda>i. line_key cs (rs ! i)) (mset_set ({0..<length rs} - set seen))"

lemma free_bag_Nil: "free_bag cs rs [] = image_mset (line_key cs) (mset rs)"
proof -
  have "mset rs = image_mset (\<lambda>i. rs ! i) (mset_set {0..<length rs})"
    by (metis map_nth mset_map mset_set_set distinct_upt set_upt)
  then show ?thesis by (simp add: free_bag_def multiset.map_comp comp_def)
qed

lemma free_bag_take:
  assumes "j < length rs" "j \<notin> set seen"
  shows "free_bag cs rs seen = add_mset (line_key cs (rs ! j)) (free_bag cs rs (seen @ [j]))"
proof -
  have e: "{0..<length rs} - set seen = insert j ({0..<length rs} - set (seen @ [j]))"
    using assms by auto
  show ?thesis unfolding free_bag_def e by (subst mset_set.insert) simp_all
qed

text \<open>Greedy matching finds a matching when there is one, since equality of keys is transitive.\<close>

lemma match_lines_plain:
  assumes "list_all (list_all plain) rs"
  shows "list_all (list_all plain) ls \<Longrightarrow>
    match_lines env cs ls rs seen = ret (image_mset (line_key cs) (mset ls) \<subseteq># free_bag cs rs seen)"
proof (induction ls arbitrary: seen)
  case (Cons l ls)
  define f where "f = find (\<lambda>i. i \<notin> set seen \<and> line_key cs l = line_key cs (rs ! i)) [0..<length rs]"
  have m: "find_match env cs l seen 0 rs = ret f"
    using find_match_plain[of l rs env cs seen 0] Cons.prems assms by (simp add: f_def)
  show ?case
  proof (cases f)
    case None
    then have n: "\<forall>i<length rs. i \<notin> set seen \<longrightarrow> line_key cs l \<noteq> line_key cs (rs ! i)"
      by (auto simp: f_def find_None_iff)
    then have "line_key cs l \<notin># free_bag cs rs seen" by (auto simp: free_bag_def)
    then have "\<not> add_mset (line_key cs l) (image_mset (line_key cs) (mset ls)) \<subseteq># free_bag cs rs seen"
      by (meson mset_subset_eqD union_single_eq_member)
    then show ?thesis using m None by (simp add: prog_simps)
  next
    case (Some j)
    then have j: "j < length rs" "j \<notin> set seen" "line_key cs l = line_key cs (rs ! j)"
      by (auto simp: f_def find_Some_iff)
    show ?thesis
      using m Some Cons j by (simp add: prog_simps free_bag_take[OF j(1,2)])
  qed
qed (simp add: prog_simps)

lemma records_equal_plain:
  assumes "plain_record l" "plain_record r" "length (m_record l) < 65536" "length (m_record r) < 65536"
  shows "records_equal env l r cs =
    ret (count_columns l = count_columns r \<and> line_bag cs l \<subseteq># line_bag cs r)"
proof -
  have "seen_lines l = m_record l" "seen_lines r = m_record r"
    using assms(3,4) by (simp_all add: seen_lines_def unat_count_lines)
  moreover have "list_all (list_all plain) (m_record l)" "list_all (list_all plain) (m_record r)"
    using assms(1,2) by (auto simp: plain_record_def list_all_iff)
  ultimately show ?thesis
    by (simp add: records_equal_def match_lines_plain free_bag_Nil line_bag_def)
qed

lemma bag_size: "size (line_bag cs r) = length (m_record r)"
  by (simp add: line_bag_def)

lemma unat_less_65535: "line \<noteq> - 1 \<Longrightarrow> unat (line::ushort) < 65535"
proof (rule ccontr)
  assume "line \<noteq> - 1" "\<not> unat line < 65535"
  then have "unat line = unat (- 1 :: ushort)"
    using unat_ushort_less[of line] by (simp add: unsigned_minus_1_eq_mask mask_eq_exp_minus_1)
  then show False using \<open>line \<noteq> - 1\<close> by (simp only: word_unat_eq_iff)
qed

section \<open>Properties of records\<close>

text \<open>\<open>get\<close> after \<open>insert\<close>: below the last line number, in an existing column, an insertion
  succeeds; the cell reads back, every other cell reads as before (the cells of the lines it adds
  read as the empty string, as missing ones do), and the record has grown just enough.\<close>

theorem insert_get:
  assumes "rec_ok r" "length (m_record r) < 65536" "line \<noteq> - 1" "column < count_columns r"
  shows "\<exists>r'. rec_insert line column v r = Some (True, r')
    \<and> (\<forall>l c. rec_get l c r' = (if l = line \<and> c = column then v else rec_get l c r))
    \<and> length (m_record r') = max (length (m_record r)) (Suc (unat line)) \<and> rec_ok r'"
proof -
  note a = assms(1,2) unat_less_65535[OF assms(3)] assms(4)
  obtain r' where r': "rec_insert line column v r = Some (True, r')"
    using rec_insert_value[OF a, of v] by blast
  show ?thesis
    using r' rec_get_insert[OF a r'] rec_insert_ok[OF assms(1) r'] by blast
qed

theorem insert_get_witness:
  "\<exists>r'. rec_insert 4 1 (PgsString ''x'') (new_record 2) = Some (True, r')
    \<and> (\<forall>l c. rec_get l c r' = (if l = 4 \<and> c = 1 then PgsString ''x'' else rec_get l c (new_record 2)))
    \<and> length (m_record r') = max (length (m_record (new_record 2))) (Suc (unat (4 :: ushort))) \<and> rec_ok r'"
  by (rule insert_get[OF rec_ok_new]) (simp_all add: new_record_def count_columns_def)

lemma insert_returns_iff:
  "(\<exists>b r'. rec_insert line column v r = Some (b, r')) \<longleftrightarrow> line \<noteq> - 1"
proof
  assume "\<exists>b r'. rec_insert line column v r = Some (b, r')"
  then obtain r1 where "add_lines (count_lines r) line r = Some r1"
    by (auto simp: rec_insert_def)
  then show "line \<noteq> - 1" by (rule add_lines_last)
next
  assume "line \<noteq> - 1"
  then have "unat line < 65535" by (rule unat_less_65535)
  then show "\<exists>b r'. rec_insert line column v r = Some (b, r')"
    by (simp add: rec_insert_def add_lines_total)
qed

text \<open>An insertion returns unless its line number is the last one of the 16-bit counter, 65535
  (which is what \<open>-1\<close> converts to): there \<open>i <= line\<close> holds for every \<open>i\<close>, the counter wraps and
  the loop adds lines for ever, even when the column is invalid.\<close>

theorem insert_returns:
  "(\<exists>b r'. rec_insert line column v r = Some (b, r')) \<longleftrightarrow> line \<noteq> - 1"
  by (rule insert_returns_iff)

text \<open>Without generators among the cells, the comparisons of records are those of their bags of
  lines: \<open>=\<close> and \<open>~=\<close> are equality, with and without regard to case, \<open><=\<close> is inclusion and \<open><\<close>
  strict inclusion; the order of the lines does not matter, their multiplicity does. The greedy
  search with its vector \<open>seen\<close> is complete.\<close>

theorem record_compare:
  assumes "plain_record l" "plain_record r" "length (m_record l) < 65536" "length (m_record r) < 65536"
  defines "same_columns \<equiv> count_columns l = count_columns r"
  shows "record_eq env l r = ret (same_columns \<and> line_bag True l = line_bag True r)
    \<and> record_almost env l r = ret (same_columns \<and> line_bag False l = line_bag False r)
    \<and> record_less_eq env l r = ret (same_columns \<and> line_bag True l \<subseteq># line_bag True r)
    \<and> record_less env l r = ret (same_columns \<and> line_bag True l \<subset># line_bag True r)"
proof -
  have cl: "count_lines l = count_lines r \<longleftrightarrow> length (m_record l) = length (m_record r)"
    "count_lines l < count_lines r \<longleftrightarrow> length (m_record l) < length (m_record r)"
    using assms(3,4) by (simp_all add: word_unat_eq_iff ushort_less unat_count_lines)
  have eq: "line_bag cs l = line_bag cs r \<longleftrightarrow>
      length (m_record l) = length (m_record r) \<and> line_bag cs l \<subseteq># line_bag cs r" for cs
    by (metis bag_size mset_subset_size subset_mset.order_refl subset_mset.le_neq_trans nat_less_le)
  have less: "line_bag cs l \<subset># line_bag cs r \<longleftrightarrow>
      length (m_record l) < length (m_record r) \<and> line_bag cs l \<subseteq># line_bag cs r" for cs
    by (metis bag_size mset_subset_size subset_mset.less_le nat_less_le)
  have le: "line_bag cs l \<subseteq># line_bag cs r \<longrightarrow> length (m_record l) \<le> length (m_record r)" for cs
    by (metis bag_size size_mset_mono)
  note re = records_equal_plain[OF assms(1-4), of env]
  show ?thesis
    unfolding record_eq_def record_almost_def record_less_eq_def record_less_def re same_columns_def
    using cl eq less le by (auto simp: not_less linorder_not_less intro!: arg_cong[of _ _ ret])
qed

theorem record_compare_witness:
  "\<forall>env. let l = (new_record 1)\<lparr>m_record := [[PgsNumber False ''1''], [PgsString ''a'']]\<rparr>;
       r = (new_record 1)\<lparr>m_record := [[PgsString ''a''], [PgsNumber False ''1'']]\<rparr>
   in record_eq env l r = ret (count_columns l = count_columns r \<and> line_bag True l = line_bag True r)
    \<and> record_almost env l r = ret (count_columns l = count_columns r \<and> line_bag False l = line_bag False r)
    \<and> record_less_eq env l r = ret (count_columns l = count_columns r \<and> line_bag True l \<subseteq># line_bag True r)
    \<and> record_less env l r = ret (count_columns l = count_columns r \<and> line_bag True l \<subset># line_bag True r)"
  unfolding Let_def
  by (rule allI, rule record_compare) (simp_all add: plain_record_def)

end
