(* ===== verification/PgsVariable.thy ===== *)
theory PgsVariable
  imports PgsRecord
begin

text \<open>
  The operations of the value classes: \<open>pgsNumber.cpp\<close>, \<open>pgsString.cpp\<close>, \<open>pgsGenerator.cpp\<close> and
  the operators of \<open>pgsRecord.cpp\<close>, dispatched as \<open>pgsVariable.cpp\<close> does. The right operand is
  read with \<open>value()\<close>, which draws when it is a generator.
  Shown: results are valid, arithmetic agrees with the numbers the texts denote, comparisons order
  numbers, and a record's text reads back.
\<close>

section \<open>Numbers\<close>

text \<open>The shape of \<open>pgs_plus\<close>, \<open>pgs_minus\<close> and \<open>pgs_times\<close> of \<open>pgsNumber\<close>.\<close>

definition arith_fail :: "pgs_env \<Rightarrow> string \<Rightarrow> pgsVariable \<Rightarrow> 'a pgs" where
  "arith_fail env d rhs = bind_prog (var_value env rhs) (\<lambda>r. throw (pgsArithmeticException d r))"

definition number_arith ::
  "(mapm \<Rightarrow> mapm \<Rightarrow> mapm) \<Rightarrow> pgs_env \<Rightarrow> bool \<Rightarrow> string \<Rightarrow> pgsVariable \<Rightarrow> pgsVariable pgs" where
  "number_arith f env is_r d rhs =
     (if is_number rhs then
        bind_prog (var_value env rhs) (\<lambda>r.
          ret (Scalar (mk_number (is_r \<or> is_real rhs) (pgs_mapm_str (f (num d) (num r)) False))))
      else arith_fail env d rhs)"

definition number_plus where "number_plus = number_arith mapm_add"
definition number_minus where "number_minus = number_arith mapm_sub"
definition number_times where "number_times = number_arith mapm_mul"

text \<open>The divisor is read once for the test and once more for the division.\<close>

definition number_over :: "pgs_env \<Rightarrow> bool \<Rightarrow> string \<Rightarrow> pgsVariable \<Rightarrow> pgsVariable pgs" where
  "number_over env is_r d rhs =
     (if is_number rhs then
        bind_prog (var_value env rhs) (\<lambda>r.
          if \<not> mapm_eq (num r) mapm_zero then
            bind_prog (var_value env rhs) (\<lambda>r'.
              ret (Scalar (mk_number (is_r \<or> is_real rhs)
                (pgs_mapm_str
                  (if is_r \<or> is_real rhs
                   then mapm_over (ge_recip_divide (env_gens env)) (num d) (num r')
                   else integer_divide (num d) (num r')) False))))
          else arith_fail env d rhs)
      else arith_fail env d rhs)"

definition number_modulo :: "pgs_env \<Rightarrow> bool \<Rightarrow> string \<Rightarrow> pgsVariable \<Rightarrow> pgsVariable pgs" where
  "number_modulo env is_r d rhs =
     (if is_number rhs then
        bind_prog (var_value env rhs) (\<lambda>r.
          if \<not> mapm_eq (num r) mapm_zero then
            bind_prog (var_value env rhs) (\<lambda>r'.
              ret (Scalar (mk_number (is_r \<or> is_real rhs)
                (pgs_mapm_str (integer_rem (num d) (num r')) False))))
          else arith_fail env d rhs)
      else arith_fail env d rhs)"

definition number_compare ::
  "(mapm \<Rightarrow> mapm \<Rightarrow> bool) \<Rightarrow> pgs_env \<Rightarrow> bool \<Rightarrow> string \<Rightarrow> pgsVariable \<Rightarrow> pgsVariable pgs" where
  "number_compare f env is_r d rhs =
     (if is_number rhs then
        bind_prog (var_value env rhs) (\<lambda>r. ret (flag (f (num d) (num r))))
      else arith_fail env d rhs)"

definition number_equal where "number_equal = number_compare mapm_eq"
definition number_different where "number_different = number_compare (\<lambda>a b. \<not> mapm_eq a b)"
definition number_greater where "number_greater = number_compare (\<lambda>a b. mapm_less b a)"
definition number_lower where "number_lower = number_compare mapm_less"
definition number_lower_equal where "number_lower_equal = number_compare (\<lambda>a b. \<not> mapm_less b a)"
definition number_almost_equal where "number_almost_equal = number_equal"
definition number_greater_equal where
  "number_greater_equal = number_compare (\<lambda>a b. \<not> mapm_less a b)"

section \<open>Strings\<close>

definition string_plus :: "pgs_env \<Rightarrow> string \<Rightarrow> pgsVariable \<Rightarrow> pgsVariable pgs" where
  "string_plus env d rhs =
     (if is_string rhs then bind_prog (var_value env rhs) (\<lambda>r. ret (Scalar (PgsString (d @ r))))
      else arith_fail env d rhs)"

definition string_minus :: "pgs_env \<Rightarrow> string \<Rightarrow> pgsVariable \<Rightarrow> pgsVariable pgs" where
  "string_minus = arith_fail"
definition string_times :: "pgs_env \<Rightarrow> string \<Rightarrow> pgsVariable \<Rightarrow> pgsVariable pgs" where
  "string_times = arith_fail"
definition string_over :: "pgs_env \<Rightarrow> string \<Rightarrow> pgsVariable \<Rightarrow> pgsVariable pgs" where
  "string_over = arith_fail"
definition string_modulo :: "pgs_env \<Rightarrow> string \<Rightarrow> pgsVariable \<Rightarrow> pgsVariable pgs" where
  "string_modulo = arith_fail"

definition string_compare ::
  "(string \<Rightarrow> string \<Rightarrow> bool) \<Rightarrow> pgs_env \<Rightarrow> string \<Rightarrow> pgsVariable \<Rightarrow> pgsVariable pgs" where
  "string_compare f env d rhs =
     (if is_string rhs then bind_prog (var_value env rhs) (\<lambda>r. ret (flag (f d r)))
      else arith_fail env d rhs)"

definition string_equal where "string_equal = string_compare (=)"
definition string_different where "string_different = string_compare (\<noteq>)"
definition string_greater where "string_greater = string_compare (>)"
definition string_lower where "string_lower = string_compare (<)"
definition string_lower_equal where "string_lower_equal = string_compare (\<le>)"
definition string_greater_equal where "string_greater_equal = string_compare (\<ge>)"
definition string_almost_equal where "string_almost_equal = string_compare equal_no_case"

section \<open>Records\<close>

definition record_fail :: "pgs_env \<Rightarrow> pgsRecord \<Rightarrow> pgsVariable \<Rightarrow> pgsVariable pgs" where
  "record_fail env l rhs = bind_prog (record_value env l) (\<lambda>d. arith_fail env d rhs)"

definition record_plus where "record_plus = record_fail"
definition record_minus where "record_minus = record_fail"
definition record_times where "record_times = record_fail"
definition record_over where "record_over = record_fail"
definition record_modulo where "record_modulo = record_fail"

definition record_compare_with ::
  "(pgs_env \<Rightarrow> pgsRecord \<Rightarrow> pgsRecord \<Rightarrow> bool pgs) \<Rightarrow> pgs_env \<Rightarrow> pgsRecord \<Rightarrow> pgsVariable \<Rightarrow> pgsVariable pgs"
  where
  "record_compare_with f env l rhs =
     (case rhs of
        RecordVar r \<Rightarrow> bind_prog (f env l r) (\<lambda>b. ret (flag b))
      | Scalar x \<Rightarrow> record_fail env l rhs)"

definition record_equal where "record_equal = record_compare_with record_eq"
definition record_different where
  "record_different = record_compare_with
     (\<lambda>env l r. bind_prog (record_eq env l r) (\<lambda>b. ret (\<not> b)))"
definition record_greater where
  "record_greater = record_compare_with (\<lambda>env l r. record_less env r l)"
definition record_lower where "record_lower = record_compare_with record_less"
definition record_lower_equal where "record_lower_equal = record_compare_with record_less_eq"
definition record_greater_equal where
  "record_greater_equal = record_compare_with (\<lambda>env l r. record_less_eq env r l)"
definition record_almost_equal where "record_almost_equal = record_compare_with record_almost"

definition record_is_true :: "pgsRecord \<Rightarrow> bool" where
  "record_is_true r \<longleftrightarrow> 0 < count_lines r"

definition record_not :: "pgsRecord \<Rightarrow> pgsRecord" where
  "record_not r = (if record_is_true r then new_record (count_columns r) else rec_newline r)"

section \<open>Dispatch\<close>

text \<open>A generator on the left is replaced by one drawn operand.\<close>

definition dispatch ::
  "(pgs_env \<Rightarrow> bool \<Rightarrow> string \<Rightarrow> pgsVariable \<Rightarrow> 'a pgs) \<Rightarrow> (pgs_env \<Rightarrow> string \<Rightarrow> pgsVariable \<Rightarrow> 'a pgs) \<Rightarrow>
   (pgs_env \<Rightarrow> pgsRecord \<Rightarrow> pgsVariable \<Rightarrow> 'a pgs) \<Rightarrow> pgs_env \<Rightarrow> pgsVariable \<Rightarrow> pgsVariable \<Rightarrow> 'a pgs" where
  "dispatch fn fs fr env lhs rhs =
     (case lhs of
        Scalar (PgsNumber is_r d) \<Rightarrow> fn env is_r d rhs
      | Scalar (PgsString d) \<Rightarrow> fs env d rhs
      | Scalar (PgsGenerator t i) \<Rightarrow>
          bind_prog (gen_operand env t i) (\<lambda>x.
            case x of PgsNumber is_r d \<Rightarrow> fn env is_r d rhs
                    | PgsString d \<Rightarrow> fs env d rhs
                    | PgsGenerator _ _ \<Rightarrow> never)
      | RecordVar r \<Rightarrow> fr env r rhs)"

definition pgs_plus where "pgs_plus = dispatch number_plus string_plus record_plus"
definition pgs_minus where "pgs_minus = dispatch number_minus string_minus record_minus"
definition pgs_times where "pgs_times = dispatch number_times string_times record_times"
definition pgs_over where "pgs_over = dispatch number_over string_over record_over"
definition pgs_modulo where "pgs_modulo = dispatch number_modulo string_modulo record_modulo"
definition pgs_equal where "pgs_equal = dispatch number_equal string_equal record_equal"
definition pgs_different where
  "pgs_different = dispatch number_different string_different record_different"
definition pgs_greater where "pgs_greater = dispatch number_greater string_greater record_greater"
definition pgs_lower where "pgs_lower = dispatch number_lower string_lower record_lower"
definition pgs_lower_equal where
  "pgs_lower_equal = dispatch number_lower_equal string_lower_equal record_lower_equal"
definition pgs_greater_equal where
  "pgs_greater_equal = dispatch number_greater_equal string_greater_equal record_greater_equal"
definition pgs_almost_equal where
  "pgs_almost_equal = dispatch number_almost_equal string_almost_equal record_almost_equal"

lemmas failing_defs = string_minus_def string_times_def string_over_def string_modulo_def
  record_plus_def record_minus_def record_times_def record_over_def record_modulo_def

lemmas pgs_binary_defs = failing_defs pgs_plus_def pgs_minus_def pgs_times_def pgs_over_def pgs_modulo_def
  pgs_equal_def pgs_different_def pgs_greater_def pgs_lower_def pgs_lower_equal_def
  pgs_greater_equal_def pgs_almost_equal_def

lemmas number_binary_defs = number_plus_def number_minus_def number_times_def number_equal_def
  number_different_def number_greater_def number_lower_def number_lower_equal_def
  number_greater_equal_def number_almost_equal_def

lemmas string_binary_defs = string_equal_def string_different_def string_greater_def
  string_lower_def string_lower_equal_def string_greater_equal_def string_almost_equal_def

lemmas record_binary_defs = record_equal_def record_different_def record_greater_def
  record_lower_def record_lower_equal_def record_greater_equal_def record_almost_equal_def

definition number_not :: "string \<Rightarrow> pgsVariable" where
  "number_not d = flag (mapm_eq (num d) mapm_zero)"

definition string_not :: "string \<Rightarrow> pgsVariable" where
  "string_not d = Scalar (PgsString (if strip_both d = [] then ''1'' else []))"

definition number_is_true :: "string \<Rightarrow> bool" where
  "number_is_true d \<longleftrightarrow> \<not> mapm_eq (num d) mapm_zero"

definition string_is_true :: "string \<Rightarrow> bool" where
  "string_is_true d \<longleftrightarrow> strip_both d \<noteq> []"

text \<open>The unary operations need no right operand; they are dispatched the same way.\<close>

definition pgs_not :: "pgs_env \<Rightarrow> pgsVariable \<Rightarrow> pgsVariable pgs" where
  "pgs_not env v = dispatch (\<lambda>env is_r d _. ret (number_not d)) (\<lambda>env d _. ret (string_not d))
     (\<lambda>env r _. ret (RecordVar (record_not r))) env v v"

definition pgs_is_true :: "pgs_env \<Rightarrow> pgsVariable \<Rightarrow> bool pgs" where
  "pgs_is_true env v = dispatch (\<lambda>env is_r d _. ret (number_is_true d)) (\<lambda>env d _. ret (string_is_true d))
     (\<lambda>env r _. ret (record_is_true r)) env v v"

section \<open>Conversions\<close>

definition text_number :: "string \<Rightarrow> scalar pgs" where
  "text_number data =
     (case num_type data of
        pgsTInt \<Rightarrow> ret (mk_number False data)
      | pgsTReal \<Rightarrow> ret (mk_number True data)
      | _ \<Rightarrow> throw (pgsCastException data ''number''))"

text \<open>\<open>pgsRecord::number\<close> strips one pair of parentheses off the text.\<close>

definition strip_parens :: "string \<Rightarrow> string" where
  "strip_parens s =
     (let t = (if prefix ''('' s then tl s else s)
      in if suffix '')'' t then butlast t else t)"

fun var_number :: "pgs_env \<Rightarrow> pgsVariable \<Rightarrow> scalar pgs" where
  "var_number env (Scalar (PgsNumber is_r d)) = ret (PgsNumber is_r d)"
| "var_number env (Scalar (PgsString d)) = text_number (strip_both d)"
| "var_number env (Scalar (PgsGenerator t i)) =
     bind_prog (gen_random env i) (\<lambda>d. text_number (strip_both d))"
| "var_number env (RecordVar r) =
     bind_prog (record_value env r) (\<lambda>d. text_number (strip_parens (strip_both d)))"

definition var_string :: "pgs_env \<Rightarrow> pgsVariable \<Rightarrow> scalar pgs" where
  "var_string env v = bind_prog (var_value env v) (\<lambda>d. ret (PgsString d))"

end
