(* ===== verification/PgsText.thy ===== *)
theory PgsText
  imports PgsVariable
begin

text \<open>
  \<open>pgsString::record\<close>: the text of a record read back. The two regular expressions are
  unambiguous, so they are written as a recogniser: a line is an opening parenthesis, elements
  separated by commas, white space around them, and a closing parenthesis; an element is a quoted
  string with back-slash escapes or a run of letters, digits and \<open>+ - . \\<close>.
  Shown: the text \<open>pgsRecord::value\<close> prints reads back as the same lines.
\<close>

section \<open>The recogniser\<close>

definition is_word_char :: "char \<Rightarrow> bool" where
  "is_word_char c \<longleftrightarrow>
     (let n = of_char c :: nat in
      is_digit c \<or> (65 \<le> n \<and> n \<le> 90) \<or> (97 \<le> n \<and> n \<le> 122) \<or>
      c = CHR ''-'' \<or> c = CHR ''+'' \<or> c = CHR ''.'' \<or> c = back_slash)"

text \<open>The rest of a quoted element, its closing quote included.\<close>

fun quoted :: "string \<Rightarrow> (string \<times> string) option" where
  "quoted [] = None"
| "quoted (c # s) =
     (if c = double_quote then Some ([c], s)
      else if c = back_slash then
        (case s of [] \<Rightarrow> None | d # t \<Rightarrow> map_option (\<lambda>(q, r). (c # d # q, r)) (quoted t))
      else map_option (\<lambda>(q, r). (c # q, r)) (quoted s))"

definition element :: "string \<Rightarrow> (string \<times> string) option" where
  "element s =
     (if prefix [double_quote] s then map_option (\<lambda>(q, r). (double_quote # q, r)) (quoted (tl s))
      else let w = takeWhile is_word_char s in
        if w = [] then None else Some (w, dropWhile is_word_char s))"

lemma quoted_split: "quoted s = Some (q, r) \<Longrightarrow> s = q @ r \<and> q \<noteq> []"
  by (induction s arbitrary: q r rule: quoted.induct) (auto split: if_splits list.splits)

lemma element_split: "element s = Some (e, r) \<Longrightarrow> s = e @ r \<and> e \<noteq> []"
  by (auto simp: element_def Let_def prefix_def dest: quoted_split split: if_splits)

definition skip_space :: "string \<Rightarrow> string" where
  "skip_space s = dropWhile is_space s"

lemma skip_length: "length (skip_space s) \<le> length s"
  by (simp add: skip_space_def length_dropWhile_le)

lemma element_length: "element (skip_space s) = Some (e, r) \<Longrightarrow> length r < length s"
  using element_split[of "skip_space s" e r] skip_length[of s] by (cases e) (auto dest: arg_cong[of _ _ length])

text \<open>The elements after the opening parenthesis, and what follows the closing one.\<close>

function elements :: "string \<Rightarrow> (string list \<times> string) option" where
  "elements s =
     (case element (skip_space s) of
        None \<Rightarrow> None
      | Some (e, r) \<Rightarrow>
          (case skip_space r of
             [] \<Rightarrow> None
           | c # t \<Rightarrow>
               if c = CHR '','' then map_option (\<lambda>(es, u). (e # es, u)) (elements t)
               else if c = CHR '')'' then Some ([e], t)
               else None))"
  by pat_completeness auto
termination
proof (relation "measure length", goal_cases)
  case (2 s x e r c t)
  then have "length r < length s" by (auto intro: element_length)
  moreover have "length (c # t) \<le> length r" using 2 skip_length[of r] by simp
  ultimately show ?case by simp
qed simp

declare elements.simps [simp del]

definition parse_line :: "string \<Rightarrow> (string list \<times> string) option" where
  "parse_line s =
     (case skip_space s of
        [] \<Rightarrow> None
      | c # t \<Rightarrow> if c = CHR ''('' then elements t else None)"

lemma elements_length: "elements s = Some (es, r) \<Longrightarrow> length r < length s"
proof (induction s arbitrary: es rule: elements.induct)
  case (1 s)
  from 1(2) obtain e r1 c t where e: "element (skip_space s) = Some (e, r1)" "skip_space r1 = c # t"
    and d: "c = CHR '','' \<and> (\<exists>es'. elements t = Some (es', r)) \<or> r = t"
    by (subst (asm) elements.simps) (auto split: option.splits list.splits if_splits)
  have "length t < length s"
    using element_length[OF e(1)] skip_length[of r1] e(2) by simp
  then show ?case using d 1(1)[OF e(1) refl e(2)] by fastforce
qed

lemma parse_line_length: "parse_line s = Some (es, r) \<Longrightarrow> length r < length s"
  using skip_length[of s] elements_length
  by (fastforce simp: parse_line_def split: list.splits if_splits)

text \<open>The lines, one match of the first expression after another.\<close>

function parse_lines :: "string \<Rightarrow> string list list" where
  "parse_lines s =
     (case parse_line s of None \<Rightarrow> [] | Some (es, r) \<Rightarrow> es # parse_lines r)"
  by pat_completeness auto
termination
  by (relation "measure length") (auto dest: parse_line_length)

declare parse_lines.simps [simp del]

definition parsed_cell :: "string \<Rightarrow> scalar" where
  "parsed_cell e =
     (if prefix [double_quote] e \<and> suffix [double_quote] e then
        PgsString (replace_all [back_slash, back_slash] [back_slash]
          (replace_all [back_slash, double_quote] [double_quote] (butlast (tl e))))
      else case num_type e of
          pgsTInt \<Rightarrow> mk_number False e
        | pgsTReal \<Rightarrow> mk_number True e
        | _ \<Rightarrow> PgsString e)"

definition string_record :: "string \<Rightarrow> pgsRecord option" where
  "string_record data =
     (case parse_lines data of
        [] \<Rightarrow> Some (cell_record (PgsString data))
      | l # ls \<Rightarrow> fill_lines 0 (length l) (map (map parsed_cell) (l # ls)) (new_record (of_nat (length l))))"

fun var_record :: "pgs_env \<Rightarrow> pgsVariable \<Rightarrow> pgsRecord pgs" where
  "var_record env (Scalar (PgsNumber is_r d)) = ret (cell_record (PgsNumber is_r d))"
| "var_record env (Scalar (PgsString d)) =
     (case string_record d of None \<Rightarrow> never | Some r \<Rightarrow> ret r)"
| "var_record env (Scalar (PgsGenerator t i)) =
     bind_prog (gen_operand env t i) (\<lambda>x. ret (cell_record x))"
| "var_record env (RecordVar r) = ret r"

section \<open>Reading a printed line\<close>

lemma special_chars [simp]:
  "back_slash \<noteq> double_quote" "\<not> is_space double_quote" "\<not> is_space back_slash"
  "\<not> is_space CHR ''(''" "\<not> is_space CHR '',''" "\<not> is_space CHR '')''" "is_space newline_char"
  "\<not> is_word_char double_quote" "\<not> is_word_char CHR '',''" "\<not> is_word_char CHR '')''"
  by (simp_all add: back_slash_def double_quote_def is_space_def is_word_char_def Let_def is_digit_def)

lemma word_not_space: "is_word_char c \<Longrightarrow> \<not> is_space c"
  by (auto simp: is_word_char_def is_space_def Let_def is_digit_cases back_slash_def)

lemma digit_word: "is_digit c \<Longrightarrow> is_word_char c"
  by (simp add: is_word_char_def Let_def)

lemma quoted_esc: "quoted (esc back_slash double_quote s @ double_quote # r)
    = Some (esc back_slash double_quote s @ [double_quote], r)"
proof (induction s)
  case (Cons c s)
  then show ?case by (auto simp: esc_char_def)
qed simp

definition quote_text :: "string \<Rightarrow> string" where
  "quote_text s = double_quote # esc back_slash double_quote s @ [double_quote]"

lemma element_quoted: "element (quote_text s @ r) = Some (quote_text s, r)"
  by (simp add: element_def quote_text_def quoted_esc)

lemma element_word:
  assumes "w \<noteq> []" "list_all is_word_char w" "\<not> is_word_char c"
  shows "element (w @ c # r) = Some (w, c # r)"
proof -
  have "hd w \<noteq> double_quote" using assms(1,2) by (cases w) auto
  then have "\<not> prefix [double_quote] (w @ c # r)" using assms(1) by (cases w) auto
  then show ?thesis using assms by (simp add: element_def)
qed

lemma parsed_quoted: "parsed_cell (quote_text s) = PgsString s"
proof -
  have "suffix [double_quote] (quote_text s)" by (simp add: quote_text_def suffix_def)
  then show ?thesis
    using unescape_escape[OF special_chars(1), of s]
    by (simp add: parsed_cell_def quote_text_def butlast_append)
qed

section \<open>The texts of numbers\<close>

lemma list_all_split: "list_all P (takeWhile Q s) \<Longrightarrow> list_all P (dropWhile Q s) \<Longrightarrow> list_all P s"
  by (metis list_all_append takeWhile_dropWhile_id)

lemma digits_word: "list_all is_digit s \<Longrightarrow> list_all is_word_char s"
  by (auto simp: list_all_iff digit_word)

lemma take_digits_word: "list_all is_word_char (takeWhile is_digit s)"
  by (auto simp: list_all_iff digit_word dest: set_takeWhileD)

lemma sign_word: "list_all is_word_char (skip_sign s) \<Longrightarrow> list_all is_word_char s"
  by (cases s) (auto simp: skip_sign_def is_word_char_def Let_def split: if_splits)

lemma skip_sign_Nil [simp]: "skip_sign [] = []"
  by (simp add: skip_sign_def)

lemma int_form_word: "int_form s \<Longrightarrow> s \<noteq> [] \<and> list_all is_word_char s"
  using sign_word[OF digits_word] by (auto simp: int_form_def)

lemma exp_form_word: "exp_form s \<Longrightarrow> s \<noteq> [] \<and> list_all is_word_char s"
proof (cases s)
  case (Cons c t)
  assume "exp_form s"
  then have "c = CHR ''e'' \<or> c = CHR ''E''" "int_form t" by (simp_all add: exp_form_def Cons)
  moreover have "is_word_char CHR ''e''" "is_word_char CHR ''E''" by (simp_all add: is_word_char_def)
  ultimately show ?thesis using int_form_word[of t] Cons by auto
qed (simp add: exp_form_def)

lemma dot_word: "is_word_char CHR ''.''"
  by (simp add: is_word_char_def)

lemma num_form_word:
  assumes "num_type s \<noteq> pgsTString"
  shows "s \<noteq> [] \<and> list_all is_word_char s"
proof -
  consider "int_form s" | "real_form_1 s" | "real_form_2 s" | "real_form_3 s"
    using assms by (auto simp: num_type_def split: if_splits)
  then show ?thesis
  proof cases
    case 1
    then show ?thesis by (rule int_form_word)
  next
    case 2
    then have e: "exp_form (dropWhile is_digit (skip_sign s))" and n: "takeWhile is_digit (skip_sign s) \<noteq> []"
      by (auto simp: real_form_1_def Let_def)
    have "list_all is_word_char (skip_sign s)"
      using exp_form_word[OF e] by (rule list_all_split[OF take_digits_word conjunct2])
    moreover have "s \<noteq> []" using n by auto
    ultimately show ?thesis using sign_word by blast
  next
    case 3
    then obtain u where u: "dropWhile is_digit (skip_sign s) = CHR ''.'' # u"
      and d: "dropWhile is_digit u = [] \<or> exp_form (dropWhile is_digit u)"
      by (auto simp: real_form_2_def Let_def split: list.splits)
    have wu: "list_all is_word_char u"
      by (rule list_all_split[OF take_digits_word]) (metis d exp_form_word list.pred_inject(1))
    have "list_all is_word_char (skip_sign s)"
      by (rule list_all_split[OF take_digits_word]) (simp add: u dot_word wu)
    moreover have "s \<noteq> []" using u by auto
    ultimately show ?thesis using sign_word by blast
  next
    case 4
    then obtain u where u: "dropWhile is_digit (skip_sign s) = CHR ''.'' # u"
      and d: "dropWhile is_digit u = [] \<or> exp_form (dropWhile is_digit u)"
      by (auto simp: real_form_3_def Let_def split: list.splits)
    have wu: "list_all is_word_char u"
      by (rule list_all_split[OF take_digits_word]) (metis d exp_form_word list.pred_inject(1))
    have "list_all is_word_char (skip_sign s)"
      by (rule list_all_split[OF take_digits_word]) (simp add: u dot_word wu)
    moreover have "s \<noteq> []" using u by auto
    ultimately show ?thesis using sign_word by blast
  qed
qed

section \<open>The round trip\<close>

text \<open>Cells whose text reads back as themselves.\<close>

fun readable :: "scalar \<Rightarrow> bool" where
  "readable (PgsNumber is_r d) = (num_type d = (if is_r then pgsTReal else pgsTInt))"
| "readable (PgsString d) = True"
| "readable (PgsGenerator t i) = False"

fun printed :: "scalar \<Rightarrow> string" where
  "printed (PgsNumber is_r d) = d"
| "printed (PgsString d) = quote_text d"
| "printed (PgsGenerator t i) = []"

lemma cell_text_printed: "readable x \<Longrightarrow> cell_text env x = ret (printed x)"
  by (cases x)
    (auto simp: cell_text_def prog_simps type_tests quote_text_def replace_escape)

lemma readable_word: "readable (PgsNumber b d) \<Longrightarrow> d \<noteq> [] \<and> list_all is_word_char d"
  by (rule num_form_word) (auto split: if_splits)

lemma word_no_space: "list_all is_word_char d \<Longrightarrow> list_all (\<lambda>c. \<not> is_space c) d"
  by (auto simp: list_all_iff dest: word_not_space)

lemma parsed_printed: "readable x \<Longrightarrow> parsed_cell (printed x) = x"
proof (cases x)
  case (PgsNumber b d)
  assume r: "readable x"
  then have w: "d \<noteq> []" "list_all is_word_char d" using readable_word PgsNumber by auto
  then have "\<not> prefix [double_quote] d" by (cases d) auto
  moreover have "strip_both d = d" by (rule strip_both_no_space[OF word_no_space[OF w(2)]])
  ultimately show ?thesis
    using r PgsNumber by (auto simp: parsed_cell_def mk_number_def split: if_splits)
qed (simp_all add: parsed_quoted)

lemma element_printed:
  assumes "readable x" "\<not> is_word_char c"
  shows "element (skip_space (printed x @ c # r)) = Some (printed x, c # r)"
proof (cases x)
  case (PgsNumber b d)
  then have w: "d \<noteq> []" "list_all is_word_char d" using readable_word assms(1) by auto
  then have "skip_space (d @ c # r) = d @ c # r"
    by (cases d) (auto simp: skip_space_def word_not_space)
  then show ?thesis using w assms(2) PgsNumber by (simp add: element_word)
next
  case (PgsString d)
  have "skip_space (quote_text d @ c # r) = quote_text d @ c # r"
    by (simp add: skip_space_def quote_text_def)
  then show ?thesis using PgsString by (simp add: element_quoted)
qed (use assms in simp)

definition printed_line :: "scalar list \<Rightarrow> string" where
  "printed_line l = ''('' @ join '','' (map printed l) @ '')''"

lemma skip_special: "\<not> is_space c \<Longrightarrow> skip_space (c # s) = c # s"
  by (simp add: skip_space_def)

lemma elements_printed:
  "l \<noteq> [] \<Longrightarrow> list_all readable l \<Longrightarrow>
   elements (join '','' (map printed l) @ CHR '')'' # r) = Some (map printed l, r)"
proof (induction l)
  case (Cons x l)
  show ?case
  proof (cases l)
    case Nil
    then show ?thesis using Cons.prems
      by (subst elements.simps) (simp add: element_printed skip_special)
  next
    case (Cons y l')
    define t where "t = join '','' (map printed (y # l')) @ CHR '')'' # r"
    have IH: "elements t = Some (map printed (y # l'), r)"
      using Cons.IH Cons.prems Cons by (simp add: t_def)
    have "join '','' (map printed (x # l)) @ CHR '')'' # r = printed x @ CHR '','' # t"
      by (simp add: Cons t_def)
    moreover have "elements (printed x @ CHR '','' # t) = Some (printed x # map printed (y # l'), r)"
      using Cons.prems IH by (subst elements.simps) (simp add: element_printed skip_special)
    ultimately show ?thesis by (simp add: Cons)
  qed
qed simp

lemma parse_printed_line:
  "l \<noteq> [] \<Longrightarrow> list_all readable l \<Longrightarrow> parse_line (printed_line l @ r) = Some (map printed l, r)"
  using elements_printed[of l r] by (simp add: parse_line_def printed_line_def skip_special)

lemma parse_newline: "parse_line (newline_char # s) = parse_line s"
  by (simp add: parse_line_def skip_space_def)

lemma parse_Nil: "parse_lines [] = []"
  by (subst parse_lines.simps) (simp add: parse_line_def skip_space_def)

lemma parse_lines_printed:
  "\<forall>l\<in>set ls. l \<noteq> [] \<and> list_all readable l \<Longrightarrow>
   parse_lines (join [newline_char] (map printed_line ls)) = map (map printed) ls"
proof (induction ls)
  case (Cons l ls)
  show ?case
  proof (cases ls)
    case Nil
    then show ?thesis
      using Cons.prems parse_printed_line[of l "[]"] by (subst parse_lines.simps) (simp add: parse_Nil)
  next
    case (Cons m ms)
    define t where "t = join [newline_char] (map printed_line ls)"
    have IH: "parse_lines t = map (map printed) ls" using Cons.IH Cons.prems by (simp add: t_def)
    have "parse_lines (newline_char # t) = parse_lines t"
      by (subst (1 2) parse_lines.simps) (simp add: parse_newline)
    moreover have "join [newline_char] (map printed_line (l # ls)) = printed_line l @ newline_char # t"
      by (simp add: Cons t_def)
    ultimately show ?thesis
      using IH Cons.prems parse_printed_line[of l "newline_char # t"]
      by (subst parse_lines.simps) simp
  qed
qed (simp add: parse_Nil)

text \<open>Filling a line, cell by cell, from its first blank cell on.\<close>

lemma insert_in_line:
  assumes "rec_ok r" "line < 65535" "col < length (m_columns r)"
    and "m_record r = rows \<or> m_record r @ [replicate (length (m_columns r)) (PgsString [])] = rows"
    and "length rows = Suc line"
  shows "rec_insert (of_nat line) (of_nat col) v r =
    Some (True, r\<lparr>m_record := rows[line := (rows ! line)[col := v]]\<rparr>)"
proof -
  have n: "col < 65536" using assms(1,3) by (simp add: rec_ok_def)
  have u: "unat (of_nat line :: ushort) = line" "unat (of_nat col :: ushort) = col"
    using assms(2) n by (simp_all add: unat_of_nat)
  have len: "length (m_record r) < 65536" using assms(2,4,5) by auto
  have c: "(of_nat col :: ushort) < count_columns r"
    using assms(1,3) by (simp add: ushort_less unat_count_columns u)
  have rows: "m_record r @ replicate (Suc line - length (m_record r))
      (replicate (length (m_columns r)) (PgsString [])) = rows"
    using assms(4,5) by auto
  obtain r' where r': "rec_insert (of_nat line) (of_nat col) v r = Some (True, r')"
    "m_columns r' = m_columns r" "m_record r' = rows[line := (rows ! line)[col := v]]"
    using rec_insert_value[OF assms(1) len _ c, of "of_nat line" v] assms(2) by (auto simp: u rows)
  then show ?thesis by (simp add: pgsRecord.equality)
qed

lemma fill_rest:
  assumes "line < 65535" "length R = line"
  shows "rec_ok r \<Longrightarrow> m_record r = R @ [pre @ replicate (length es) (PgsString [])] \<Longrightarrow>
    length (m_columns r) = length pre + length es \<Longrightarrow>
    fill_cells line (length pre) (length (m_columns r)) es r
      = Some (r\<lparr>m_record := R @ [pre @ es]\<rparr>)"
proof (induction es arbitrary: r pre)
  case (Cons e es)
  define r1 where "r1 = r\<lparr>m_record := R @ [(pre @ [e]) @ replicate (length es) (PgsString [])]\<rparr>"
  have "rec_insert (of_nat line) (of_nat (length pre)) e r = Some (True, r1)"
    using insert_in_line[OF Cons.prems(1) assms(1), of "length pre" "m_record r" e] Cons.prems assms(2)
    by (simp add: r1_def nth_append list_update_append)
  moreover have "rec_ok r1" using Cons.prems by (auto simp: r1_def rec_ok_def)
  then have "fill_cells line (length (pre @ [e])) (length (m_columns r1)) es r1
      = Some (r1\<lparr>m_record := R @ [(pre @ [e]) @ es]\<rparr>)"
    by (rule Cons.IH) (use Cons.prems in \<open>simp_all add: r1_def\<close>)
  ultimately show ?case using Cons.prems by (simp add: r1_def)
qed simp

lemma fill_line:
  assumes "rec_ok r" "length (m_record r) = line" "line < 65535"
    and "length es = length (m_columns r)" "es \<noteq> []"
  shows "fill_cells line 0 (length (m_columns r)) es r
    = Some (r\<lparr>m_record := m_record r @ [es]\<rparr>)"
proof -
  obtain e es' where es: "es = e # es'" using assms(5) by (cases es) auto
  define rows where "rows = m_record r @ [replicate (length (m_columns r)) (PgsString [])]"
  define r1 where "r1 = r\<lparr>m_record := rows\<rparr>"
  have col: "0 < length (m_columns r)" using assms(4) es by auto
  have "rec_insert (of_nat line) (of_nat 0) v r = rec_insert (of_nat line) (of_nat 0) v r1" for v
    using insert_in_line[OF assms(1,3) col, of rows v] insert_in_line[of r1 line 0 rows v] assms col
    by (auto simp: rows_def r1_def rec_ok_def)
  then have "fill_cells line 0 (length (m_columns r)) es r = fill_cells line 0 (length (m_columns r)) es r1"
    using col by (simp add: es)
  moreover have "fill_cells line (length []) (length (m_columns r1)) es r1
      = Some (r1\<lparr>m_record := m_record r @ [[] @ es]\<rparr>)"
    using fill_rest[OF assms(3,2), of r1 "[]" es] assms
    by (auto simp: r1_def rows_def rec_ok_def)
  ultimately show ?thesis by (simp add: r1_def)
qed

lemma fill_all:
  "rec_ok r \<Longrightarrow> length (m_record r) = line \<Longrightarrow> line + length ls \<le> 65535 \<Longrightarrow>
   \<forall>l\<in>set ls. length l = length (m_columns r) \<and> l \<noteq> [] \<Longrightarrow>
   fill_lines line (length (m_columns r)) ls r
     = Some (r\<lparr>m_record := m_record r @ ls\<rparr>)"
proof (induction ls arbitrary: r line)
  case (Cons l ls)
  define r1 where "r1 = r\<lparr>m_record := m_record r @ [l]\<rparr>"
  have "fill_cells line 0 (length (m_columns r)) l r = Some r1"
    unfolding r1_def by (rule fill_line) (use Cons.prems in auto)
  moreover have "fill_lines (Suc line) (length (m_columns r1)) ls r1
      = Some (r1\<lparr>m_record := m_record r1 @ ls\<rparr>)"
    by (rule Cons.IH) (use Cons.prems in \<open>auto simp: r1_def rec_ok_def\<close>)
  ultimately show ?case by (simp add: r1_def)
qed simp

lemma map_prog_ret: "(\<And>x. x \<in> set xs \<Longrightarrow> f x = ret (g x)) \<Longrightarrow> map_prog f xs = ret (map g xs)"
  by (induction xs) (simp_all add: prog_simps)

lemma record_value_printed:
  assumes "rec_ok r" "length (m_record r) < 65536" "\<forall>l\<in>set (m_record r). list_all readable l"
  shows "record_value env r = ret (join [newline_char] (map printed_line (m_record r)))"
proof -
  have "line_text env r l = ret (printed_line l)" if "l \<in> set (m_record r)" for l
  proof -
    have "take (unat (count_columns r)) l = l"
      using assms(1) that by (simp add: unat_count_columns rec_ok_def)
    moreover have "map_prog (cell_text env) l = ret (map printed l)"
      using assms(3) that by (intro map_prog_ret cell_text_printed) (auto simp: list_all_iff)
    ultimately show ?thesis by (simp add: line_text_def prog_simps printed_line_def)
  qed
  then have "map_prog (line_text env r) (m_record r) = ret (map printed_line (m_record r))"
    by (rule map_prog_ret)
  then show ?thesis by (simp add: record_value_def unat_count_lines[OF assms(2)] prog_simps)
qed

text \<open>C16. Printing a record and casting the text back to a record gives the same lines: the two
  \<open>Replace\<close> calls of \<open>pgsString::record\<close> undo those of \<open>pgsRecord::value\<close>, whatever quotes, back
  slashes, commas, parentheses or line ends the strings contain, and numbers keep their type. Only
  the column names are lost.\<close>

theorem record_text_roundtrip:
  assumes "rec_ok r" "m_columns r \<noteq> []" "m_record r \<noteq> []" "length (m_record r) \<le> 65535"
    and "\<forall>l\<in>set (m_record r). list_all readable l"
  shows "bind_prog (record_value env r) (\<lambda>t. var_record env (Scalar (PgsString t)))
    = ret (r\<lparr>m_columns := replicate (length (m_columns r)) []\<rparr>)"
proof -
  let ?n = "length (m_columns r)"
  define t where "t = join [newline_char] (map printed_line (m_record r))"
  define ls where "ls = map (map printed) (m_record r)"
  have width: "length l = ?n" if "l \<in> set (m_record r)" for l
    using assms(1) that by (auto simp: rec_ok_def)
  have lines: "parse_lines t = ls"
    unfolding t_def ls_def
    by (rule parse_lines_printed) (use assms(2,5) width in \<open>force\<close>)
  obtain l ls' where l: "ls = l # ls'" using assms(3) by (cases ls) (auto simp: ls_def)
  have hd: "length l = ?n"
  proof -
    have "l \<in> set ls" using l by simp
    then show ?thesis using width by (auto simp: ls_def)
  qed
  have n: "unat (of_nat ?n :: ushort) = ?n" using assms(1) by (simp add: rec_ok_def unat_of_nat)
  have inv: "map (map parsed_cell) ls = m_record r"
    using assms(5) by (auto simp: ls_def list_all_iff parsed_printed intro!: map_idI)
  have "fill_lines 0 ?n (m_record r) (new_record (of_nat ?n))
      = Some ((new_record (of_nat ?n))\<lparr>m_record := m_record r\<rparr>)"
  proof -
    have "m_columns (new_record (of_nat ?n)) = replicate ?n []" "m_record (new_record (of_nat ?n)) = []"
      using n by (simp_all add: new_record_def)
    moreover have "\<forall>l\<in>set (m_record r). length l = ?n \<and> l \<noteq> []"
      using width assms(2) by force
    ultimately show ?thesis
      using fill_all[OF rec_ok_new[of "of_nat ?n"], of 0 "m_record r"] assms(4) by simp
  qed
  then have "string_record t = Some (r\<lparr>m_columns := replicate ?n []\<rparr>)"
    using lines l hd n inv[unfolded l] by (simp add: string_record_def new_record_def del: fill_lines.simps)
  moreover have "record_value env r = ret t"
    unfolding t_def by (rule record_value_printed) (use assms in auto)
  ultimately show ?thesis by (simp add: prog_simps)
qed

theorem record_text_roundtrip_witness:
  "\<forall>env. let r = \<lparr>m_columns = [''a'', ''b''],
            m_record = [[PgsNumber False ''12'', PgsString ''x'']]\<rparr>
   in bind_prog (record_value env r) (\<lambda>t. var_record env (Scalar (PgsString t)))
     = ret (r\<lparr>m_columns := replicate (length (m_columns r)) []\<rparr>)"
  unfolding Let_def
  by (rule allI, rule record_text_roundtrip)
    (simp_all add: rec_ok_def num_type_def int_form_def skip_sign_def is_digit_def)

end
