(* ===== verification/PgsTyping.thy ===== *)
theory PgsTyping
  imports PgsText
begin

text \<open>
  Well-formed values and states. A number's text is valid (the assertion \<open>is_valid\<close> of
  \<open>pgsNumber\<close>), a record's rows are as wide as the record, a generator value names a randomizer of
  its type. \<open>typed K P m\<close>: from a well-formed state whose randomizers extend those of types \<open>K\<close>,
  \<open>m\<close> reaches one, forgets no randomizer, and its value satisfies \<open>P\<close>.
\<close>

section \<open>Well-formedness\<close>

fun gen_kind :: "object_gen \<Rightarrow> ptype" where
  "gen_kind (IntegerGen g) = pgsTInt"
| "gen_kind (RealGen g) = pgsTReal"
| "gen_kind (StringGen g) = pgsTString"
| "gen_kind (DateGen g) = pgsTString"
| "gen_kind (TimeGen g) = pgsTString"
| "gen_kind (DateTimeGen g) = pgsTString"
| "gen_kind (DictionaryGen g) = pgsTString"
| "gen_kind (RegexGen gs) = pgsTString"
| "gen_kind (ReferenceGen g) = pgsTString"

definition kinds :: "pgs_state \<Rightarrow> ptype list" where
  "kinds s = map gen_kind (ps_gens s)"

fun scalar_ok :: "ptype list \<Rightarrow> scalar \<Rightarrow> bool" where
  "scalar_ok K (PgsNumber is_r d) = number_is_valid is_r d"
| "scalar_ok K (PgsString d) = True"
| "scalar_ok K (PgsGenerator t i) = (i < length K \<and> K ! i = t)"

definition record_ok :: "ptype list \<Rightarrow> pgsRecord \<Rightarrow> bool" where
  "record_ok K r \<longleftrightarrow> rec_ok r \<and> (\<forall>l\<in>set (m_record r). \<forall>x\<in>set l. scalar_ok K x)"

fun val_ok :: "ptype list \<Rightarrow> pgsVariable \<Rightarrow> bool" where
  "val_ok K (Scalar x) = scalar_ok K x"
| "val_ok K (RecordVar r) = record_ok K r"

definition st_ok :: "pgs_state \<Rightarrow> bool" where
  "st_ok s \<longleftrightarrow> (\<forall>n v. ps_vars s n = Some v \<longrightarrow> val_ok (kinds s) v)"

definition typed :: "ptype list \<Rightarrow> (ptype list \<Rightarrow> 'a \<Rightarrow> bool) \<Rightarrow> 'a pgs \<Rightarrow> bool" where
  "typed K P m \<longleftrightarrow>
     (\<forall>s r t. st_ok s \<longrightarrow> prefix K (kinds s) \<longrightarrow> m s = Some (r, t) \<longrightarrow>
        st_ok t \<and> prefix (kinds s) (kinds t) \<and> (\<forall>x. r = Inr x \<longrightarrow> P (kinds t) x))"

named_theorems typed_intros \<open>typing, by the structure of the program\<close>

lemma typedI:
  "(\<And>s r t. st_ok s \<Longrightarrow> prefix K (kinds s) \<Longrightarrow> m s = Some (r, t) \<Longrightarrow>
     st_ok t \<and> prefix (kinds s) (kinds t) \<and> (\<forall>x. r = Inr x \<longrightarrow> P (kinds t) x)) \<Longrightarrow> typed K P m"
  by (auto simp: typed_def)

lemma typedD:
  "typed K P m \<Longrightarrow> st_ok s \<Longrightarrow> prefix K (kinds s) \<Longrightarrow> m s = Some (r, t) \<Longrightarrow>
     st_ok t \<and> prefix (kinds s) (kinds t) \<and> (\<forall>x. r = Inr x \<longrightarrow> P (kinds t) x)"
  unfolding typed_def by blast

lemma scalar_ok_mono: "scalar_ok K x \<Longrightarrow> prefix K L \<Longrightarrow> scalar_ok L x"
  by (cases x) (auto simp: prefix_def nth_append)

lemma record_ok_mono: "record_ok K r \<Longrightarrow> prefix K L \<Longrightarrow> record_ok L r"
  by (auto simp: record_ok_def intro: scalar_ok_mono)

lemma val_ok_mono: "val_ok K v \<Longrightarrow> prefix K L \<Longrightarrow> val_ok L v"
  by (cases v) (auto intro: scalar_ok_mono record_ok_mono)

lemma typed_mono: "typed K P m \<Longrightarrow> prefix K L \<Longrightarrow> typed L P m"
  unfolding typed_def using prefix_order.trans by blast

lemma typed_weaken:
  assumes "typed K P m" "\<And>L x. prefix K L \<Longrightarrow> P L x \<Longrightarrow> Q L x"
  shows "typed K Q m"
proof (rule typedI)
  fix s r t
  assume s: "st_ok s" "prefix K (kinds s)" "m s = Some (r, t)"
  note d = typedD[OF assms(1) s]
  then have "prefix K (kinds t)" using s(2) prefix_order.trans by blast
  then show "st_ok t \<and> prefix (kinds s) (kinds t) \<and> (\<forall>x. r = Inr x \<longrightarrow> Q (kinds t) x)"
    using d assms(2) by blast
qed

lemma typed_ret: "(\<And>L. prefix K L \<Longrightarrow> P L x) \<Longrightarrow> typed K P (ret x)"
  by (rule typedI) (auto simp: ret_def)

lemma typed_throw [typed_intros]: "typed K P (throw e)"
  by (rule typedI) (auto simp: throw_def)

lemma typed_never [typed_intros]: "typed K P never"
  by (rule typedI) (auto simp: never_def)

lemma typed_bind:
  assumes "typed K P m" "\<And>L x. prefix K L \<Longrightarrow> P L x \<Longrightarrow> typed L Q (k x)"
  shows "typed K Q (bind_prog m k)"
proof (rule typedI)
  fix s r t
  assume s: "st_ok s" "prefix K (kinds s)" and b: "bind_prog m k s = Some (r, t)"
  from b show "st_ok t \<and> prefix (kinds s) (kinds t) \<and> (\<forall>x. r = Inr x \<longrightarrow> Q (kinds t) x)"
  proof (cases rule: bind_cases)
    case (inl e)
    then show ?thesis using typedD[OF assms(1) s inl(1)] by simp
  next
    case (inr x u)
    then have u: "st_ok u" "prefix (kinds s) (kinds u)" "P (kinds u) x"
      using typedD[OF assms(1) s inr(1)] by auto
    have "typed (kinds u) Q (k x)"
      using assms(2)[of "kinds u" x] s(2) u by (meson prefix_order.trans)
    note d = typedD[OF this u(1) prefix_order.refl inr(2)]
    then show ?thesis using u(2) prefix_order.trans by blast
  qed
qed

lemma typed_catch:
  assumes "typed K P m" "\<And>L e. prefix K L \<Longrightarrow> typed L P (h e)"
  shows "typed K P (try_catch m h)"
proof (rule typedI)
  fix s r t
  assume s: "st_ok s" "prefix K (kinds s)" and b: "try_catch m h s = Some (r, t)"
  from b show "st_ok t \<and> prefix (kinds s) (kinds t) \<and> (\<forall>x. r = Inr x \<longrightarrow> P (kinds t) x)"
  proof (cases rule: catch_cases)
    case (inr x)
    then show ?thesis using typedD[OF assms(1) s inr(1)] by simp
  next
    case (inl e u)
    then have u: "st_ok u" "prefix (kinds s) (kinds u)"
      using typedD[OF assms(1) s inl(1)] by auto
    have "typed (kinds u) P (h e)"
      using assms(2)[of "kinds u" e] s(2) u by (meson prefix_order.trans)
    note d = typedD[OF this u(1) prefix_order.refl inl(2)]
    then show ?thesis using u(2) prefix_order.trans by blast
  qed
qed

lemma typed_if: "(b \<Longrightarrow> typed K P m) \<Longrightarrow> (\<not> b \<Longrightarrow> typed K P n) \<Longrightarrow> typed K P (if b then m else n)"
  by simp

section \<open>Values and operands\<close>

lemma object_random_kind:
  "object_random rd g = Some (x, h) \<Longrightarrow> gen_kind h = gen_kind g"
  by (cases g) auto

lemma object_random_text:
  assumes "object_random rd g = Some (x, h)"
  shows "gen_kind g = pgsTInt \<Longrightarrow> num_type x = pgsTInt"
    and "gen_kind g = pgsTReal \<Longrightarrow> num_type x = pgsTInt \<or> num_type x = pgsTReal"
proof -
  show "num_type x = pgsTInt" if "gen_kind g = pgsTInt"
    using assms that
    by (cases g) (auto simp: int_gen_random_def str_of_int num_type_int_text)
  show "num_type x = pgsTInt \<or> num_type x = pgsTReal" if "gen_kind g = pgsTReal"
    using assms that
    by (cases g) (auto simp: real_random_def real_value_def num_type_str normal_ops split: if_splits)
qed

lemma gen_random_state:
  assumes "gen_random env i s = Some (r, t)"
  obtains x g y n m where "i < length (ps_gens s)" "object_random (env_gens env) (ps_gens s ! i) = Some (x, g)"
    "r = Inr y" "t = s\<lparr>ps_gens := (ps_gens s)[i := g], ps_tests := n, ps_queries := m\<rparr>"
    "y = x \<or> gen_kind g = pgsTString"
proof -
  obtain x g where g: "i < length (ps_gens s)" "object_random (env_gens env) (ps_gens s ! i) = Some (x, g)"
    using assms by (auto simp: gen_random_def Option.bind_eq_Some_conv split: if_splits)
  let ?s = "s\<lparr>ps_gens := (ps_gens s)[i := g]\<rparr>"
  show ?thesis
  proof (cases "\<exists>f. g = ReferenceGen f")
    case True
    then have "bind_prog (own_query env x) (\<lambda>v. ret (first_cell v)) ?s = Some (r, t)"
      using assms g by (auto simp: gen_random_def)
    then obtain y where "r = Inr y" "uncounted t = uncounted ?s"
      using countedD[OF counted_bind[OF counted_own_query counted_ret]] by blast
    then show ?thesis using that[OF g _ uncounted_eq] True by auto
  next
    case False
    then have "ret x ?s = Some (r, t)" using assms g by (cases g) (auto simp: gen_random_def)
    then show ?thesis using that[OF g _ uncounted_eq] by (auto simp: ret_def)
  qed
qed

lemma kinds_step: "gen_kind g = gen_kind (ps_gens s ! i) \<Longrightarrow> kinds (s\<lparr>ps_gens := (ps_gens s)[i := g]\<rparr>) = kinds s"
  by (cases "i < length (ps_gens s)")
    (auto simp: kinds_def map_update list_update_beyond intro: list_update_same_conv[THEN iffD2])

text \<open>What a generator of type \<open>t\<close> draws.\<close>

definition drawn_ok :: "ptype \<Rightarrow> string \<Rightarrow> bool" where
  "drawn_ok t x \<longleftrightarrow> (t = pgsTInt \<longrightarrow> num_type x = pgsTInt) \<and>
     (t = pgsTReal \<longrightarrow> num_type x = pgsTInt \<or> num_type x = pgsTReal)"

lemma typed_gen_random:
  "i < length K \<Longrightarrow> K ! i = t \<Longrightarrow> typed K (\<lambda>L. drawn_ok t) (gen_random env i)"
proof (rule typedI)
  fix s r u
  assume i: "i < length K" "K ! i = t" and s: "st_ok s" "prefix K (kinds s)"
    and "gen_random env i s = Some (r, u)"
  then obtain x g y n m where g: "i < length (ps_gens s)" "r = Inr y"
    "u = s\<lparr>ps_gens := (ps_gens s)[i := g], ps_tests := n, ps_queries := m\<rparr>"
    "object_random (env_gens env) (ps_gens s ! i) = Some (x, g)" "y = x \<or> gen_kind g = pgsTString"
    by (elim gen_random_state) blast
  have k: "gen_kind (ps_gens s ! i) = t" using i s g(1) by (auto simp: kinds_def prefix_def nth_append dest: arg_cong[of _ _ "\<lambda>l. l ! i"])
  have "kinds u = kinds s" using kinds_step[of g s i] object_random_kind[OF g(4)] g(3) by (simp add: kinds_def)
  then show "st_ok u \<and> prefix (kinds s) (kinds u) \<and> (\<forall>x. r = Inr x \<longrightarrow> drawn_ok t x)"
    using s(1) g k object_random_text[OF g(4)] object_random_kind[OF g(4)] by (auto simp: st_ok_def drawn_ok_def)
qed

definition value_of :: "pgsVariable \<Rightarrow> string \<Rightarrow> bool" where
  "value_of v x \<longleftrightarrow> (is_integer v \<longrightarrow> num_type x = pgsTInt) \<and>
     (is_real v \<longrightarrow> num_type x = pgsTInt \<or> num_type x = pgsTReal)"

lemma typed_scalar_value: "scalar_ok K x \<Longrightarrow> typed K (\<lambda>L. value_of (Scalar x)) (scalar_value env x)"
  by (cases x)
    (auto simp: value_of_def type_tests number_is_valid_def drawn_ok_def
      intro!: typed_ret intro: typed_weaken[OF typed_gen_random])

abbreviation any :: "ptype list \<Rightarrow> 'a \<Rightarrow> bool" where "any \<equiv> \<lambda>L x. True"

lemma typed_map:
  assumes "\<And>L x. prefix K L \<Longrightarrow> x \<in> set xs \<Longrightarrow> typed L any (f x)"
  shows "typed K any (map_prog f xs)"
  using assms
proof (induction xs arbitrary: K)
  case Nil
  show ?case by (simp add: typed_ret)
next
  case (Cons x xs)
  have "typed L any (map_prog f xs)" if "prefix K L" for L
    using Cons.IH[of L] Cons.prems that prefix_order.trans by (metis list.set_intros(2))
  then show ?case
    using Cons.prems[of K x] by (auto intro!: typed_bind[where P = any] typed_ret)
qed

lemma typed_any: "typed K P m \<Longrightarrow> typed K any m"
  by (erule typed_weaken) simp

lemma typed_cell_text: "scalar_ok K x \<Longrightarrow> typed K any (cell_text env x)"
  unfolding cell_text_def by (rule typed_bind[OF typed_scalar_value]) (auto intro!: typed_ret)

lemma typed_record_value:
  assumes "record_ok K r"
  shows "typed K any (record_value env r)"
proof -
  have "typed L any (line_text env r l)" if "prefix K L" "l \<in> set (m_record r)" for L l
    unfolding line_text_def
    by (rule typed_bind[OF typed_map])
      (use assms that in \<open>auto simp: record_ok_def intro!: typed_cell_text typed_ret
        dest!: in_set_takeD intro: scalar_ok_mono prefix_order.trans\<close>)
  then show ?thesis
    unfolding record_value_def
    by (intro typed_bind[OF typed_map]) (auto intro!: typed_ret dest!: in_set_takeD)
qed

lemma typed_var_value: "val_ok K v \<Longrightarrow> typed K (\<lambda>L. value_of v) (var_value env v)"
proof (cases v)
  case (Scalar x)
  then show "val_ok K v \<Longrightarrow> ?thesis" by (simp add: typed_scalar_value)
next
  case (RecordVar r)
  then show "val_ok K v \<Longrightarrow> ?thesis"
    by (auto simp: value_of_def type_tests intro: typed_weaken[OF typed_record_value])
qed

lemma typed_arith_fail: "val_ok K rhs \<Longrightarrow> typed K P (arith_fail env d rhs)"
  unfolding arith_fail_def by (rule typed_bind[OF typed_var_value]) (auto intro: typed_throw)

section \<open>Results of the operators\<close>

definition env_ok :: "pgs_env \<Rightarrow> bool" where
  "env_ok env \<longleftrightarrow> (\<forall>places a b. normal (ge_recip_divide (env_gens env) places a b))"

lemma strip_number: "num_type d \<noteq> pgsTString \<Longrightarrow> strip_both d = d"
  by (rule strip_both_no_space[OF word_no_space]) (simp add: num_form_word)

lemma number_result:
  "normal m \<Longrightarrow> is_r \<or> mapm_is_integer m \<Longrightarrow> scalar_ok K (mk_number is_r (pgs_mapm_str m False))"
  by (auto simp: mk_number_def strip_number num_type_str number_is_valid_def)

lemma flag_ok [simp]: "val_ok K (flag b)"
proof -
  have "flag b = Scalar (mk_number False (pgs_mapm_str (mapm_of_int (if b then 1 else 0)) False))"
    by (simp add: flag_def str_of_int int_text_def dec_small digit_char_def)
  then show ?thesis
    using number_result[of "mapm_of_int (if b then 1 else 0)"] is_integer_of_int
    by (simp add: normal_ops) (metis normal_ops(4))
qed

lemma num_integer: "num_type d = pgsTInt \<Longrightarrow> num d = mapm_of_int (atoi d)"
  by (auto simp: num_type_def num_def str_mapm_int_form split: if_splits)

definition numeric :: "(mapm \<Rightarrow> mapm \<Rightarrow> mapm) \<Rightarrow> bool" where
  "numeric f \<longleftrightarrow> (\<forall>a b. normal a \<longrightarrow> normal b \<longrightarrow> normal (f a b)) \<and>
     (\<forall>i j. mapm_is_integer (f (mapm_of_int i) (mapm_of_int j)))"

lemma integer_mapm_of_int [simp]: "mapm_is_integer (mapm_of_int i)"
  using is_integer_of_int normal_ops(4) by blast

lemma numeric_ops: "numeric mapm_add" "numeric mapm_sub" "numeric mapm_mul"
  by (simp_all add: numeric_def normal_ops of_int_ops)

lemma numeric_result:
  assumes "numeric f" "number_is_valid is_r d" "value_of rhs r" "is_number rhs"
  shows "scalar_ok K (mk_number (is_r \<or> is_real rhs) (pgs_mapm_str (f (num d) (num r)) False))"
proof (rule number_result)
  show "normal (f (num d) (num r))"
    using assms(1) by (simp add: numeric_def num_def normal_str_mapm)
  show "(is_r \<or> is_real rhs) \<or> mapm_is_integer (f (num d) (num r))"
    using assms num_integer
    by (auto simp: numeric_def number_is_valid_def value_of_def is_number_def)
qed

lemma typed_number_arith:
  "numeric f \<Longrightarrow> number_is_valid is_r d \<Longrightarrow> val_ok K rhs \<Longrightarrow>
   typed K val_ok (number_arith f env is_r d rhs)"
  unfolding number_arith_def
  by (intro typed_if typed_bind[OF typed_var_value] typed_arith_fail typed_ret)
    (auto intro: numeric_result)

lemma typed_number_compare:
  "val_ok K rhs \<Longrightarrow> typed K val_ok (number_compare f env is_r d rhs)"
  unfolding number_compare_def
  by (intro typed_if typed_bind[OF typed_var_value] typed_arith_fail typed_ret) auto

lemma normal_sdivide_over: "env_ok env \<Longrightarrow> normal (mapm_over (ge_recip_divide (env_gens env)) a b)"
  by (simp add: env_ok_def mapm_over_def mapm_divide_def normal_sdivide normal_ops)

lemma integer_integer_divide:
  "mapm_is_integer (integer_divide (mapm_of_int i) (mapm_of_int j))"
proof (cases "j = 0")
  case True
  then show ?thesis
    by (simp add: integer_divide_def sdivide_def mapm_of_int_def mk_mapm_0 mapm_zero_def dexp_def
        mapm_is_integer_def)
qed (simp add: integer_divide_of_int)

lemma integer_integer_rem:
  "mapm_is_integer (integer_rem (mapm_of_int i) (mapm_of_int j))"
proof -
  obtain k where k: "integer_divide (mapm_of_int i) (mapm_of_int j) = mapm_of_int k"
  proof (cases "j = 0")
    case True
    then have "integer_divide (mapm_of_int i) (mapm_of_int j) = mapm_of_int 0"
      by (simp add: integer_divide_def sdivide_def mapm_of_int_def mk_mapm_0 mapm_zero_def dexp_def)
    then show ?thesis using that by blast
  next
    case False
    then show ?thesis using that integer_divide_of_int by blast
  qed
  then show ?thesis by (simp add: integer_rem_def of_int_ops)
qed

lemma normal_integer_divide: "normal (integer_divide a b)"
  by (auto simp: integer_divide_def Let_def normal_ops normal_mk normal_sdivide)

lemma typed_number_over:
  assumes "env_ok env" "number_is_valid is_r d" "val_ok K rhs"
  shows "typed K val_ok (number_over env is_r d rhs)"
proof -
  have "scalar_ok L (mk_number (is_r \<or> is_real rhs)
      (pgs_mapm_str (if is_r \<or> is_real rhs then mapm_over (ge_recip_divide (env_gens env)) (num d) (num r)
        else integer_divide (num d) (num r)) False))" if "value_of rhs r" "is_number rhs" for L r
    using assms that num_integer
    by (intro number_result)
      (auto simp: normal_sdivide_over normal_integer_divide integer_integer_divide
        number_is_valid_def value_of_def is_number_def)
  then show ?thesis
    unfolding number_over_def using assms(3)
    by (intro typed_if typed_bind[OF typed_var_value] typed_arith_fail typed_ret)
      (auto intro: val_ok_mono)
qed

lemma typed_number_modulo:
  assumes "number_is_valid is_r d" "val_ok K rhs"
  shows "typed K val_ok (number_modulo env is_r d rhs)"
proof -
  have "scalar_ok L (mk_number (is_r \<or> is_real rhs) (pgs_mapm_str (integer_rem (num d) (num r)) False))"
    if "value_of rhs r" "is_number rhs" for L r
    using assms that num_integer
    by (intro number_result)
      (auto simp: integer_rem_def normal_ops integer_integer_rem[unfolded integer_rem_def]
        number_is_valid_def value_of_def is_number_def)
  then show ?thesis
    unfolding number_modulo_def using assms(2)
    by (intro typed_if typed_bind[OF typed_var_value] typed_arith_fail typed_ret)
      (auto intro: val_ok_mono)
qed

lemma typed_string_plus: "val_ok K rhs \<Longrightarrow> typed K val_ok (string_plus env d rhs)"
  unfolding string_plus_def
  by (intro typed_if typed_bind[OF typed_var_value] typed_arith_fail typed_ret) auto

lemma typed_string_compare: "val_ok K rhs \<Longrightarrow> typed K val_ok (string_compare f env d rhs)"
  unfolding string_compare_def
  by (intro typed_if typed_bind[OF typed_var_value] typed_arith_fail typed_ret) auto

section \<open>Comparing records\<close>

lemma typed_cells_equal:
  "list_all (scalar_ok K) xs \<Longrightarrow> list_all (scalar_ok K) ys \<Longrightarrow> typed K any (cells_equal env cs xs ys)"
proof (induction env cs xs ys arbitrary: K rule: cells_equal.induct)
  case (1 env cs x xs y ys)
  have "typed L any (cells_equal env cs xs ys)" if "prefix K L" "text_equal cs s t" for L s t
    using 1(2,3) that by (intro 1(1)) (auto simp: list_all_iff intro: scalar_ok_mono)
  then show ?case
    using 1(2,3)
    by (auto intro!: typed_bind[OF typed_any[OF typed_scalar_value]] typed_ret typed_if
        intro: scalar_ok_mono prefix_order.trans)
qed (auto intro: typed_ret)

lemma typed_lines_equal:
  "list_all (scalar_ok K) l \<Longrightarrow> list_all (scalar_ok K) r \<Longrightarrow> typed K any (lines_equal env cs l r)"
  by (auto simp: lines_equal_def intro: typed_ret typed_cells_equal)

lemma all_ok_mono: "list_all (scalar_ok K) l \<Longrightarrow> prefix K L \<Longrightarrow> list_all (scalar_ok L) l"
  by (auto simp: list_all_iff intro: scalar_ok_mono)

lemma rows_ok_mono: "list_all (list_all (scalar_ok K)) ls \<Longrightarrow> prefix K L \<Longrightarrow> list_all (list_all (scalar_ok L)) ls"
  by (auto simp: list_all_iff intro: scalar_ok_mono)

lemma typed_find_match:
  "list_all (scalar_ok K) l \<Longrightarrow> list_all (list_all (scalar_ok K)) rs \<Longrightarrow>
   typed K any (find_match env cs l seen j rs)"
proof (induction rs arbitrary: K j)
  case (Cons r rs)
  have "typed L any (find_match env cs l seen (Suc j) rs)" if "prefix K L" for L
    using Cons that by (auto intro: all_ok_mono rows_ok_mono)
  then show ?case
    using Cons.prems
    by (auto intro!: typed_bind[OF typed_lines_equal] typed_ret typed_if)
qed (simp add: typed_ret)

lemma typed_match_lines:
  "list_all (list_all (scalar_ok K)) ls \<Longrightarrow> list_all (list_all (scalar_ok K)) rs \<Longrightarrow>
   typed K any (match_lines env cs ls rs seen)"
proof (induction ls arbitrary: K seen)
  case (Cons l ls)
  have "typed L any (match_lines env cs ls rs s)" if "prefix K L" for L s
    using Cons that by (auto intro: rows_ok_mono)
  then show ?case
    using Cons.prems
    by (auto intro!: typed_bind[OF typed_find_match] typed_ret split: option.split)
qed (simp add: typed_ret)

lemma typed_records_equal:
  "record_ok K l \<Longrightarrow> record_ok K r \<Longrightarrow> typed K any (records_equal env l r cs)"
  unfolding records_equal_def
  by (auto intro!: typed_if typed_ret typed_match_lines
      simp: record_ok_def seen_lines_def list_all_iff dest!: in_set_takeD)

lemma typed_record_comparisons:
  assumes "record_ok K l" "record_ok K r"
  shows "typed K any (record_eq env l r)" "typed K any (record_less env l r)"
    "typed K any (record_less_eq env l r)" "typed K any (record_almost env l r)"
  unfolding record_eq_def record_less_def record_less_eq_def record_almost_def
  using assms by (auto intro!: typed_if typed_ret typed_records_equal)

lemma typed_record_fail:
  "record_ok K l \<Longrightarrow> val_ok K rhs \<Longrightarrow> typed K P (record_fail env l rhs)"
  unfolding record_fail_def
  by (rule typed_bind[OF typed_record_value]) (auto intro: typed_arith_fail val_ok_mono)

lemma typed_record_compare_with:
  assumes "\<And>r. record_ok K r \<Longrightarrow> typed K any (f env l r)" "record_ok K l" "val_ok K rhs"
  shows "typed K val_ok (record_compare_with f env l rhs)"
proof (cases rhs)
  case (RecordVar r)
  then show ?thesis
    using assms by (auto simp: record_compare_with_def intro!: typed_bind[OF assms(1)] typed_ret)
qed (use assms typed_record_fail in \<open>simp add: record_compare_with_def\<close>)

section \<open>Dispatch\<close>

lemma typed_gen_operand:
  "i < length K \<Longrightarrow> K ! i = t \<Longrightarrow>
   typed K (\<lambda>L x. scalar_ok L x \<and> plain x \<and> (is_number (Scalar x) \<longleftrightarrow> t = pgsTInt \<or> t = pgsTReal))
     (gen_operand env t i)"
  unfolding gen_operand_def
  by (cases t)
    (auto intro!: typed_bind[OF typed_gen_random] typed_ret
      simp: mk_number_def drawn_ok_def number_is_valid_def strip_number type_tests)

lemma typed_dispatch:
  assumes "\<And>L is_r d. prefix K L \<Longrightarrow> number_is_valid is_r d \<Longrightarrow> typed L P (fn env is_r d rhs)"
    and "\<And>L d. prefix K L \<Longrightarrow> typed L P (fs env d rhs)"
    and "\<And>r. record_ok K r \<Longrightarrow> typed K P (fr env r rhs)"
    and "val_ok K lhs"
  shows "typed K P (dispatch fn fs fr env lhs rhs)"
proof (cases lhs)
  case (Scalar x)
  show ?thesis
  proof (cases x)
    case (PgsGenerator t i)
    show ?thesis
      unfolding dispatch_def Scalar PgsGenerator pgsVariable.case scalar.case
    proof (rule typed_bind[OF typed_gen_operand])
      fix L y
      assume L: "prefix K L"
        and "scalar_ok L y \<and> plain y \<and> (is_number (Scalar y) \<longleftrightarrow> t = pgsTInt \<or> t = pgsTReal)"
      then show "typed L P (case y of PgsNumber is_r d \<Rightarrow> fn env is_r d rhs
          | PgsString d \<Rightarrow> fs env d rhs | PgsGenerator _ _ \<Rightarrow> never)"
        using assms(1,2)[OF L] by (cases y) auto
    qed (use assms(4) Scalar PgsGenerator in auto)
  qed (use assms Scalar in \<open>auto simp: dispatch_def\<close>)
qed (use assms in \<open>auto simp: dispatch_def\<close>)

lemma record_ok_new: "record_ok K (new_record n)"
  by (simp add: record_ok_def rec_ok_new) (simp add: new_record_def)

lemma record_ok_newline: "record_ok K r \<Longrightarrow> record_ok K (rec_newline r)"
  by (auto simp: record_ok_def rec_ok_newline) (auto simp: rec_newline_def)

text \<open>Every operator keeps values and states well formed.\<close>

lemma typed_binary:
  assumes "env_ok env" "val_ok K lhs" "val_ok K rhs"
    and "f \<in> {pgs_plus, pgs_minus, pgs_times, pgs_over, pgs_modulo, pgs_equal, pgs_different,
      pgs_greater, pgs_lower, pgs_lower_equal, pgs_greater_equal, pgs_almost_equal}"
  shows "typed K val_ok (f env lhs rhs)"
proof -
  note rule = typed_dispatch[of K val_ok _ env rhs, OF _ _ _ assms(2)]
  have r: "val_ok L rhs" if "prefix K L" for L using assms(3) that by (rule val_ok_mono)
  note n = typed_number_arith[OF numeric_ops(1)] typed_number_arith[OF numeric_ops(2)]
    typed_number_arith[OF numeric_ops(3)] typed_number_over[OF assms(1)] typed_number_modulo
    typed_number_compare typed_string_plus typed_string_compare typed_arith_fail typed_record_fail
  have rc: "typed K val_ok (record_compare_with g env l rhs)"
    if "record_ok K l" "\<And>r. record_ok K r \<Longrightarrow> typed K any (g env l r)" for g l
    using that assms(3) by (intro typed_record_compare_with)
  have neq: "typed K any (bind_prog (record_eq env l r) (\<lambda>b. ret (\<not> b)))"
    if "record_ok K l" "record_ok K r" for l r
    using that by (intro typed_bind[OF typed_record_comparisons(1)] typed_ret) auto
  have "typed K val_ok (pgs_plus env lhs rhs)" "typed K val_ok (pgs_minus env lhs rhs)"
    "typed K val_ok (pgs_times env lhs rhs)" "typed K val_ok (pgs_over env lhs rhs)"
    "typed K val_ok (pgs_modulo env lhs rhs)" "typed K val_ok (pgs_equal env lhs rhs)"
    "typed K val_ok (pgs_different env lhs rhs)" "typed K val_ok (pgs_greater env lhs rhs)"
    "typed K val_ok (pgs_lower env lhs rhs)" "typed K val_ok (pgs_lower_equal env lhs rhs)"
    "typed K val_ok (pgs_greater_equal env lhs rhs)" "typed K val_ok (pgs_almost_equal env lhs rhs)"
    unfolding pgs_binary_defs number_binary_defs string_binary_defs record_binary_defs
    by (rule rule; auto intro!: n rc neq typed_record_comparisons r assms(3))+
  then show ?thesis using assms(4) by auto
qed

section \<open>Unary operations, conversions, updates of records\<close>

lemma typed_not:
  assumes "val_ok K v"
  shows "typed K val_ok (pgs_not env v)"
  unfolding pgs_not_def
  by (rule typed_dispatch)
    (use assms in \<open>auto simp: number_not_def string_not_def record_not_def
      intro!: typed_ret intro: record_ok_new record_ok_mono[OF record_ok_newline]\<close>)

lemma typed_is_true: "val_ok K v \<Longrightarrow> typed K any (pgs_is_true env v)"
  unfolding pgs_is_true_def by (rule typed_dispatch) (auto intro!: typed_ret)

lemma typed_text_number:
  "typed K (\<lambda>L x. scalar_ok L x \<and> is_number (Scalar x) \<and> plain x) (text_number data)"
  by (auto simp: text_number_def mk_number_def number_is_valid_def strip_number type_tests
      intro!: typed_ret typed_throw split: ptype.split)

lemma typed_var_number:
  "val_ok K v \<Longrightarrow> typed K (\<lambda>L x. scalar_ok L x \<and> is_number (Scalar x) \<and> plain x) (var_number env v)"
proof (cases "(env, v)" rule: var_number.cases)
  case (1 env' is_r d)
  then show "val_ok K v \<Longrightarrow> ?thesis" by (auto simp: type_tests intro!: typed_ret)
next
  case (2 env' d)
  then show ?thesis by (simp add: typed_text_number)
next
  case (3 env' t i)
  then show "val_ok K v \<Longrightarrow> ?thesis"
    by (auto intro!: typed_bind[OF typed_gen_random] typed_text_number)
next
  case (4 env' r)
  then show "val_ok K v \<Longrightarrow> ?thesis"
    by (auto intro!: typed_bind[OF typed_record_value] typed_text_number)
qed

lemma typed_var_string: "val_ok K v \<Longrightarrow> typed K scalar_ok (var_string env v)"
  unfolding var_string_def by (rule typed_bind[OF typed_var_value]) (auto intro: typed_ret)

lemma grown_record:
  assumes "rec_ok r" "add_lines (count_lines r) line r = Some r1"
  shows "\<exists>k. r1 = r\<lparr>m_record := m_record r @ replicate k (replicate (length (m_columns r)) (PgsString []))\<rparr>"
proof -
  have "line \<noteq> - 1" by (rule add_lines_last[OF assms(2)])
  then show ?thesis
    using assms add_lines_total[OF unat_less_65535, of line "count_lines r" r] newlines[OF assms(1)] by auto
qed

lemma record_ok_insert:
  assumes "record_ok K r" "scalar_ok K x" "rec_insert line column x r = Some (b, r')"
  shows "record_ok K r'"
proof -
  have ok: "rec_ok r" using assms(1) by (simp add: record_ok_def)
  obtain r1 where r1: "add_lines (count_lines r) line r = Some r1"
    using assms(3) by (auto simp: rec_insert_def)
  obtain k where k: "r1 = r\<lparr>m_record := m_record r @ replicate k (replicate (length (m_columns r)) (PgsString []))\<rparr>"
    using grown_record[OF ok r1] by blast
  have c1: "\<forall>l\<in>set (m_record r1). \<forall>y\<in>set l. scalar_ok K y"
    using assms(1) by (auto simp: k record_ok_def)
  have "\<forall>l\<in>set ((m_record r1)[i := (m_record r1 ! i)[j := x]]). \<forall>y\<in>set l. scalar_ok K y" for i j
  proof (cases "i < length (m_record r1)")
    case True
    then have "m_record r1 ! i \<in> set (m_record r1)" by simp
    then have "\<forall>y\<in>set ((m_record r1 ! i)[j := x]). scalar_ok K y"
      using c1 assms(2) set_update_subset_insert by fastforce
    then show ?thesis using c1 set_update_subset_insert by fastforce
  qed (use c1 in \<open>simp add: list_update_beyond\<close>)
  then have "\<forall>l\<in>set (m_record r'). \<forall>y\<in>set l. scalar_ok K y"
    using assms(3) r1 c1 by (auto simp: rec_insert_def split: if_splits)
  then show ?thesis using rec_insert_ok[OF ok assms(3)] by (simp add: record_ok_def)
qed

lemma record_ok_cell: "scalar_ok K x \<Longrightarrow> record_ok K (cell_record x)"
  by (auto simp: cell_record_def intro: record_ok_new record_ok_insert split: option.split)

lemma parsed_cell_ok [simp]: "scalar_ok K (parsed_cell e)"
  by (auto simp: parsed_cell_def mk_number_def number_is_valid_def strip_number split: ptype.split)

lemma fill_cells_ok:
  "record_ok K r \<Longrightarrow> \<forall>x\<in>set es. scalar_ok K x \<Longrightarrow> fill_cells line col n es r = Some r' \<Longrightarrow> record_ok K r'"
proof (induction es arbitrary: r col)
  case (Cons e es)
  then show ?case
    by (fastforce simp: Option.bind_eq_Some_conv split: if_splits
        dest: record_ok_insert)
qed simp

lemma fill_lines_ok:
  "record_ok K r \<Longrightarrow> \<forall>l\<in>set ls. \<forall>x\<in>set l. scalar_ok K x \<Longrightarrow> fill_lines line n ls r = Some r' \<Longrightarrow> record_ok K r'"
  by (induction ls arbitrary: r line) (auto simp: Option.bind_eq_Some_conv dest: fill_cells_ok)

lemma string_record_ok:
  assumes "string_record d = Some r"
  shows "record_ok K r"
proof (cases "parse_lines d")
  case Nil
  then show ?thesis using assms by (auto simp: string_record_def intro: record_ok_cell)
next
  case (Cons l ls)
  have "fill_lines 0 (length l) (map (map parsed_cell) (l # ls)) (new_record (of_nat (length l))) = Some r"
    using assms Cons by (simp add: string_record_def del: fill_lines.simps)
  then show ?thesis by (rule fill_lines_ok[OF record_ok_new, rotated]) auto
qed

lemma typed_var_record: "val_ok K v \<Longrightarrow> typed K record_ok (var_record env v)"
proof (cases "(env, v)" rule: var_record.cases)
  case (2 env' d)
  then show "val_ok K v \<Longrightarrow> ?thesis"
    by (auto intro!: typed_ret typed_never string_record_ok split: option.split)
next
  case (3 env' t i)
  then show "val_ok K v \<Longrightarrow> ?thesis"
    by (auto intro!: typed_bind[OF typed_gen_operand] typed_ret intro: record_ok_cell scalar_ok_mono)
qed (auto intro!: typed_ret intro: record_ok_cell record_ok_mono scalar_ok_mono)

lemma record_ok_remove: "record_ok K r \<Longrightarrow> remove_line line r = (b, r') \<Longrightarrow> record_ok K r'"
  by (auto simp: remove_line_def record_ok_def rec_ok_def dest!: in_set_takeD in_set_dropD split: if_splits)

lemma record_ok_name: "record_ok K r \<Longrightarrow> record_ok K (snd (set_column_name column name r))"
  by (auto simp: set_column_name_def Let_def record_ok_def rec_ok_def)

lemma rec_get_ok: "record_ok K r \<Longrightarrow> scalar_ok K (rec_get l c r)"
proof -
  assume r: "record_ok K r"
  have "unat (count_lines r) \<le> length (m_record r)"
    by (simp add: count_lines_def unat_of_nat)
  moreover have "unat (count_columns r) = length (m_columns r)"
    using r by (simp add: record_ok_def unat_count_columns)
  ultimately have "m_record r ! unat l \<in> set (m_record r)"
      "unat c < length (m_record r ! unat l)"
    if "l < count_lines r" "c < count_columns r"
    using r that by (auto simp: record_ok_def rec_ok_def ushort_less)
  then show ?thesis
    using r by (auto simp: rec_get_def record_ok_def)
qed

lemma get_line_ok: "record_ok K r \<Longrightarrow> record_ok K (get_line line r)"
proof -
  assume r: "record_ok K r"
  have "unat (count_lines r) \<le> length (m_record r)"
    by (simp add: count_lines_def unat_of_nat)
  then have "m_record r ! unat line \<in> set (m_record r)" if "line < count_lines r"
    using that by (simp add: ushort_less)
  then show ?thesis
    using r record_ok_new
    by (auto simp: get_line_def Let_def record_ok_def rec_ok_def rec_newline_def new_record_def)
qed

end
