(* ===== verification/PgsArith.thy ===== *)
theory PgsArith
  imports PgsTyping
begin

text \<open>
  What the operators compute: exact decimal arithmetic, the integer division of C++, the order of
  the numbers the texts denote; conversions; and the state they keep well formed.
\<close>

definition numval :: "string \<Rightarrow> rat" where "numval d = mapm_val (num d)"

abbreviation Num :: "bool \<Rightarrow> string \<Rightarrow> pgsVariable" where "Num is_r d \<equiv> Scalar (PgsNumber is_r d)"

lemma is_number_Num [simp]: "is_number (Num b d)" "is_real (Num b d) = b" "\<not> is_string (Num b d)"
  by (auto simp: type_tests)

lemma dispatch_Num [simp]: "dispatch fn fs fr env (Num b d) rhs = fn env b d rhs"
  by (simp add: dispatch_def)

lemma mk_number_str: "normal m \<Longrightarrow> mk_number b (pgs_mapm_str m False) = PgsNumber b (pgs_mapm_str m False)"
  by (auto simp: mk_number_def strip_number num_type_str)

lemma num_str: "normal m \<Longrightarrow> num (pgs_mapm_str m False) = m"
  by (simp add: num_def str_mapm_roundtrip)

lemma normal_num [simp]: "normal (num d)"
  by (simp add: num_def normal_str_mapm)

lemma arith_Num:
  assumes "numeric f"
  shows "number_arith f env a x (Num b y) =
    ret (Num (a \<or> b) (pgs_mapm_str (f (num x) (num y)) False))"
  using assms by (simp add: number_arith_def prog_simps mk_number_str numeric_def)

lemma numval_str: "normal m \<Longrightarrow> numval (pgs_mapm_str m False) = mapm_val m"
  by (simp add: numval_def num_str)

text \<open>C17. \<open>+\<close>, \<open>-\<close> and \<open>*\<close> on numbers are exact, for integers and reals of any size: the text of the
  result denotes the sum, difference or product of the numbers the operands' texts denote, and the
  result is real when an operand is.\<close>

theorem arith_exact:
  "\<exists>s d p. pgs_plus env (Num a x) (Num b y) = ret (Num (a \<or> b) s) \<and> numval s = numval x + numval y
    \<and> pgs_minus env (Num a x) (Num b y) = ret (Num (a \<or> b) d) \<and> numval d = numval x - numval y
    \<and> pgs_times env (Num a x) (Num b y) = ret (Num (a \<or> b) p) \<and> numval p = numval x * numval y"
proof -
  have f: "number_arith f env a x (Num b y) = ret (Num (a \<or> b) (pgs_mapm_str (f (num x) (num y)) False))
    \<and> numval (pgs_mapm_str (f (num x) (num y)) False) = mapm_val (f (num x) (num y))" if "numeric f" for f
    using that by (simp add: arith_Num numval_str numeric_def)
  show ?thesis
    using f[OF numeric_ops(1)] f[OF numeric_ops(2)] f[OF numeric_ops(3)]
    unfolding pgs_binary_defs number_binary_defs dispatch_Num
    by (auto simp: numval_def val_add val_sub val_mul)
qed

text \<open>\<open>/\<close> and \<open>%\<close> on integers are those of C++, truncating towards zero and with the sign of the
  dividend, on integers of any size; a zero divisor is an arithmetic exception with the texts of
  both operands. The quotient comes out of the digit count the library chooses for
  \<open>M_apm_sdivide\<close>.\<close>

theorem integer_over_modulo:
  assumes "num_type x = pgsTInt" "num_type y = pgsTInt"
  shows "pgs_over env (Num False x) (Num False y) =
      (if atoi y = 0 then throw (pgsArithmeticException x y)
       else ret (Num False (int_text (cdiv (atoi x) (atoi y)))))
    \<and> pgs_modulo env (Num False x) (Num False y) =
      (if atoi y = 0 then throw (pgsArithmeticException x y)
       else ret (Num False (int_text (cmod (atoi x) (atoi y)))))"
proof -
  have z: "mapm_eq (num y) mapm_zero \<longleftrightarrow> atoi y = 0"
    using assms by (simp add: num_integer eq_val val_of_int val_zero)
  have q: "mk_number False (pgs_mapm_str (mapm_of_int i) False) = PgsNumber False (int_text i)" for i
    using mk_number_str[of "mapm_of_int i" False] by (simp add: normal_ops str_of_int)
  show ?thesis
    by (simp add: pgs_binary_defs number_over_def number_modulo_def prog_simps z arith_fail_def)
      (auto simp: num_integer[OF assms(1)] num_integer[OF assms(2)] integer_divide_of_int
        integer_rem_of_int q)
qed

theorem integer_over_modulo_witness:
  "\<forall>env. pgs_over env (Num False ''-7'') (Num False ''2'') =
      (if atoi ''2'' = 0 then throw (pgsArithmeticException ''-7'' ''2'')
       else ret (Num False (int_text (cdiv (atoi ''-7'') (atoi ''2'')))))
    \<and> pgs_modulo env (Num False ''-7'') (Num False ''2'') =
      (if atoi ''2'' = 0 then throw (pgsArithmeticException ''-7'' ''2'')
       else ret (Num False (int_text (cmod (atoi ''-7'') (atoi ''2'')))))"
  by (rule allI, rule integer_over_modulo) (simp_all add: num_type_def int_form_def skip_sign_def is_digit_def)

text \<open>The six comparisons of numbers, and \<open>~=\<close>, compare the numbers the texts denote, whatever
  their spelling: \<open>1\<close>, \<open>+01\<close>, \<open>1.00\<close> and \<open>10E-1\<close> are equal.\<close>

theorem number_comparisons:
  "pgs_equal env (Num a x) (Num b y) = ret (flag (numval x = numval y))
   \<and> pgs_different env (Num a x) (Num b y) = ret (flag (numval x \<noteq> numval y))
   \<and> pgs_lower env (Num a x) (Num b y) = ret (flag (numval x < numval y))
   \<and> pgs_greater env (Num a x) (Num b y) = ret (flag (numval x > numval y))
   \<and> pgs_lower_equal env (Num a x) (Num b y) = ret (flag (numval x \<le> numval y))
   \<and> pgs_greater_equal env (Num a x) (Num b y) = ret (flag (numval x \<ge> numval y))
   \<and> pgs_almost_equal env (Num a x) (Num b y) = ret (flag (numval x = numval y))"
  unfolding pgs_binary_defs number_binary_defs dispatch_Num number_compare_def
  by (simp add: prog_simps eq_val less_val numval_def not_less)

section \<open>A divisor that is drawn twice\<close>

definition state_with :: "object_gen list \<Rightarrow> pgs_state" where
  "state_with gs = \<lparr>ps_vars = (\<lambda>_. None), ps_gens = gs, ps_out = [], ps_stream = 1,
     ps_thrown = False, ps_error_line = -1, ps_tests = 0, ps_queries = 0\<rparr>"

lemma drawn_divisor:
  assumes "draws (object_random (env_gens env)) 2 g = Some ([y, ''0''], h)" "g = IntegerGen ig"
    and "num_type y = pgsTInt" "atoi y \<noteq> 0"
  shows "pgs_over env (Num False x) (Scalar (PgsGenerator pgsTInt 0)) (state_with [g])
    = Some (Inr (Num False ''0''), state_with [h])"
proof -
  obtain g1 where g1: "object_random (env_gens env) g = Some (y, g1)"
    and h: "object_random (env_gens env) g1 = Some (''0'', h)"
    using assms(1) by (auto simp: eval_nat_numeral split: option.splits)
  have r: "gen_random env 0 (state_with [g]) = Some (Inr y, state_with [g1])"
    "gen_random env 0 (state_with [g1]) = Some (Inr ''0'', state_with [h])"
    using g1 h assms(2) by (auto simp: gen_random_def state_with_def ret_def)
  have n0: "num ''0'' = mapm_of_int 0"
    using num_integer[of "''0''"] by (simp add: num_type_def int_form_def skip_sign_def is_digit_def
        atoi_def undec_def digit_val_def)
  have "\<not> mapm_eq (num y) mapm_zero"
    using assms(3,4) by (simp add: num_integer eq_val val_of_int val_zero)
  moreover have "integer_divide (num x) (num ''0'') = mapm_of_int 0"
    unfolding n0
    by (simp add: integer_divide_def sdivide_def mapm_of_int_def mk_mapm_0 mapm_zero_def dexp_def)
  moreover have "mk_number False (pgs_mapm_str (mapm_of_int 0) False) = PgsNumber False ''0''"
    using mk_number_str[of "mapm_of_int 0" False]
    by (simp add: normal_ops str_of_int int_text_def dec_small digit_char_def)
  ultimately show ?thesis
    by (simp add: pgs_over_def number_over_def type_tests run_simps r)
qed

text \<open>When the divisor is a generator, \<open>pgs_over\<close> tests one drawn value against zero and divides
  by the next one: with a generator that yields 1 and then 0 the division by zero goes unnoticed
  and gives 0 instead of the arithmetic exception.\<close>

theorem over_draws_twice:
  "\<exists>s'. pgs_over env (Num False ''7'') (Scalar (PgsGenerator pgsTInt 0))
      (state_with [IntegerGen (pgsIntegerGen 0 1 True 1)]) = Some (Inr (Num False ''0''), s')"
proof -
  have d: "map_option fst (draws int_gen_value 2 (pgsIntegerGen 0 1 True 1)) = Some [1, 0]"
    by code_simp
  have "draws (object_random rd) n (IntegerGen ig) =
      map_option (\<lambda>(xs, h). (map (\<lambda>x. int_text x) xs, IntegerGen h)) (draws int_gen_value n ig)" for rd n ig
    by (rule draws_map) (simp add: int_gen_random_def option.map_comp comp_def case_prod_beta' str_of_int)
  then obtain h where "draws (object_random (env_gens env)) 2
      (IntegerGen (pgsIntegerGen 0 1 True 1)) = Some ([''1'', ''0''], h)"
    using d by (auto simp: int_text_def dec_small digit_char_def)
  then show ?thesis
    using drawn_divisor[of env _ "''1''"]
    by (fastforce simp: num_type_def int_form_def skip_sign_def is_digit_def atoi_def undec_def digit_val_def)
qed

end
