(* ===== verification/PgsExpr.thy ===== *)
theory PgsExpr
  imports PgsArith
begin

text \<open>
  Expressions of \<open>pgscript/expressions\<close>: the syntax tree, the text \<open>value()\<close> of each class and its
  \<open>eval\<close>. One definition per class, on the evaluators of its operands; \<open>eval\<close> is the virtual
  dispatch. Operands are evaluated from left to right. SQL text is in \<open>PgsExecute\<close>.
\<close>

section \<open>Syntax\<close>

datatype cast_type = CastInteger | CastReal | CastRecord | CastString

datatype binary =
    pgsPlus | pgsMinus | pgsTimes | pgsOver | pgsModulo
  | pgsEqual bool  \<comment> \<open>\<open>m_case_sensitive\<close>\<close>
  | pgsDifferent | pgsGreater | pgsGreaterEqual | pgsLower | pgsLowerEqual

datatype expr =
    Literal scalar
  | pgsIdent string
  | pgsIdentRecord string expr "expr option"
  | pgsAssign string expr
  | pgsAssignToRecord string expr expr expr
  | pgsAnd expr expr
  | pgsOr expr expr
  | Binary binary expr expr
  | pgsNegate expr
  | pgsNot expr
  | pgsParenthesis expr
  | pgsCast cast_type expr
  | pgsColumns string
  | pgsLines string
  | pgsTrim expr
  | pgsRemoveLine string expr
  | pgsExecute string
  | pgsGenInt expr expr expr expr
  | pgsGenReal expr expr expr expr expr
  | pgsGenString expr expr expr expr
  | pgsGenDate expr expr expr expr
  | pgsGenTime expr expr expr expr
  | pgsGenDateTime expr expr expr expr
  | pgsGenDictionary expr expr expr expr
  | pgsGenRegex expr expr
  | pgsGenReference expr expr expr expr

section \<open>Texts\<close>

fun literal_text :: "scalar \<Rightarrow> string" where
  "literal_text (PgsNumber is_r d) = d"
| "literal_text (PgsString d) = d"
| "literal_text (PgsGenerator t i) = []"

fun binary_text :: "binary \<Rightarrow> string" where
  "binary_text pgsPlus = '' + ''"
| "binary_text pgsMinus = '' - ''"
| "binary_text pgsTimes = '' * ''"
| "binary_text pgsOver = '' / ''"
| "binary_text pgsModulo = '' % ''"
| "binary_text (pgsEqual cs) = (if cs then '' = '' else '' ~= '')"
| "binary_text pgsDifferent = '' <> ''"
| "binary_text pgsGreater = '' > ''"
| "binary_text pgsGreaterEqual = '' >= ''"
| "binary_text pgsLower = '' < ''"
| "binary_text pgsLowerEqual = '' <= ''"

fun cast_text :: "cast_type \<Rightarrow> string" where
  "cast_text CastInteger = ''INTEGER''"
| "cast_text CastReal = ''REAL''"
| "cast_text CastRecord = ''RECORD''"
| "cast_text CastString = ''STRING''"

fun expr_value :: "expr \<Rightarrow> string" where
  "expr_value (Literal x) = literal_text x"
| "expr_value (pgsIdent n) = n"
| "expr_value (pgsIdentRecord n l c) =
     n @ ''['' @ expr_value l @ '']'' @
     (case c of None \<Rightarrow> [] | Some e \<Rightarrow> ''['' @ expr_value e @ '']'')"
| "expr_value (pgsAssign n e) = ''SET '' @ n @ '' = '' @ expr_value e"
| "expr_value (pgsAssignToRecord n l c e) =
     ''SET '' @ n @ ''['' @ expr_value l @ '']['' @ expr_value c @ ''] = '' @ expr_value e"
| "expr_value (pgsAnd l r) = expr_value l @ '' AND '' @ expr_value r"
| "expr_value (pgsOr l r) = expr_value l @ '' OR '' @ expr_value r"
| "expr_value (Binary b l r) = expr_value l @ binary_text b @ expr_value r"
| "expr_value (pgsNegate e) = ''-'' @ expr_value e"
| "expr_value (pgsNot e) = ''NOT '' @ expr_value e"
| "expr_value (pgsParenthesis e) = ''('' @ expr_value e @ '')''"
| "expr_value (pgsCast t e) = ''CAST ('' @ expr_value e @ '' AS '' @ cast_text t @ '') ''"
| "expr_value (pgsColumns n) = ''COLUMNS('' @ n @ '')''"
| "expr_value (pgsLines n) = ''LINES('' @ n @ '')''"
| "expr_value (pgsTrim e) = ''TRIM('' @ expr_value e @ '')''"
| "expr_value (pgsRemoveLine n e) = ''RMLINE('' @ n @ ''['' @ expr_value e @ ''])''"
| "expr_value (pgsExecute q) = q"
| "expr_value (pgsGenInt mn mx sq sd) =
     ''integer[ min = '' @ expr_value mn @ '' max = '' @ expr_value mx @
     '' sequence = '' @ expr_value sq @ '' seed = '' @ expr_value sd @ '' ]''"
| "expr_value (pgsGenReal mn mx pr sq sd) =
     ''real[ min = '' @ expr_value mn @ '' max = '' @ expr_value mx @
     '' precision = '' @ expr_value pr @
     '' sequence = '' @ expr_value sq @ '' seed = '' @ expr_value sd @ '' ]''"
| "expr_value (pgsGenString mn mx nb sd) =
     ''string[ min = '' @ expr_value mn @ '' max = '' @ expr_value mx @
     '' nb_words = '' @ expr_value nb @ '' seed = '' @ expr_value sd @ '' ]''"
| "expr_value (pgsGenDate mn mx sq sd) =
     ''date[ min = '' @ expr_value mn @ '' max = '' @ expr_value mx @
     '' sequence = '' @ expr_value sq @ '' seed = '' @ expr_value sd @ '' ]''"
| "expr_value (pgsGenTime mn mx sq sd) =
     ''time[ min = '' @ expr_value mn @ '' max = '' @ expr_value mx @
     '' sequence = '' @ expr_value sq @ '' seed = '' @ expr_value sd @ '' ]''"
| "expr_value (pgsGenDateTime mn mx sq sd) =
     ''date_time[ min = '' @ expr_value mn @ '' max = '' @ expr_value mx @
     '' sequence = '' @ expr_value sq @ '' seed = '' @ expr_value sd @ '' ]''"
| "expr_value (pgsGenDictionary f sq sd cv) =
     ''file[ file = '' @ expr_value f @ '' sequence = '' @ expr_value sq @
     '' seed = '' @ expr_value sd @ '' encoding = '' @ expr_value cv @ '' ]''"
| "expr_value (pgsGenRegex r sd) =
     ''string[ regex = '' @ expr_value r @ '' seed = '' @ expr_value sd @ '' ]''"
| "expr_value (pgsGenReference t c sq sd) =
     ''reference[ table = '' @ expr_value t @ '' column = '' @ expr_value c @
     '' sequence = '' @ expr_value sq @ '' seed = '' @ expr_value sd @ '' ]''"

section \<open>Variables\<close>

abbreviation empty_string :: pgsVariable where "empty_string \<equiv> Scalar (PgsString [])"

definition ident_eval :: "pgs_env \<Rightarrow> string \<Rightarrow> pgsVariable pgs" where
  "ident_eval env name =
     bind_prog (reads (\<lambda>s. ps_vars s name)) (\<lambda>v.
       case v of
         Some x \<Rightarrow> ret x
       | None \<Rightarrow> if name = ''@NOW'' then ret (Scalar (mk_number False (int_text (env_now env))))
                 else ret empty_string)"

text \<open>\<open>vars.find(m_name) != vars.end() && vars[m_name]->is_record()\<close>, and the record.\<close>

definition find_record :: "string \<Rightarrow> pgsRecord option pgs" where
  "find_record name =
     reads (\<lambda>s. case ps_vars s name of Some (RecordVar r) \<Rightarrow> Some r | _ \<Rightarrow> None)"

definition set_var :: "string \<Rightarrow> pgsVariable \<Rightarrow> unit pgs" where
  "set_var name v = modifies (\<lambda>s. s\<lparr>ps_vars := (ps_vars s)(name \<mapsto> v)\<rparr>)"

text \<open>The reference \<open>rec\<close> held across the evaluation of the operands.\<close>

definition with_record :: "string \<Rightarrow> (pgsRecord \<Rightarrow> 'a pgs) \<Rightarrow> 'a pgs" where
  "with_record name k =
     bind_prog (find_record name) (\<lambda>r. case r of Some rec \<Rightarrow> k rec | None \<Rightarrow> never)"

definition long_of :: "pgs_env \<Rightarrow> pgsVariable \<Rightarrow> int pgs" where
  "long_of env v = bind_prog (var_value env v) (\<lambda>t. ret (to_long env t))"

text \<open>\<open>pgsIdentRecord::eval\<close>\<close>

definition ident_record_eval ::
  "pgs_env \<Rightarrow> string \<Rightarrow> pgsVariable pgs \<Rightarrow> pgsVariable pgs option \<Rightarrow> pgsVariable pgs" where
  "ident_record_eval env name m_line m_column =
     bind_prog (find_record name) (\<lambda>found.
       if found = None then ret empty_string
       else bind_prog m_line (\<lambda>line.
         if is_integer line then
           bind_prog (long_of env line) (\<lambda>aux_line.
             case m_column of
               None \<Rightarrow> with_record name (\<lambda>rec. ret (RecordVar (get_line (to_ushort aux_line) rec)))
             | Some m_col \<Rightarrow>
                 bind_prog m_col (\<lambda>column.
                   if is_integer column then
                     bind_prog (long_of env column) (\<lambda>aux_column.
                       with_record name (\<lambda>rec.
                         ret (Scalar (rec_get (to_ushort aux_line) (to_ushort aux_column) rec))))
                   else if is_string column then
                     bind_prog (var_value env column) (\<lambda>t.
                       with_record name (\<lambda>rec.
                         ret (Scalar (rec_get (to_ushort aux_line) (get_column t rec) rec))))
                   else ret empty_string))
         else ret empty_string))"

definition assign_eval :: "string \<Rightarrow> pgsVariable pgs \<Rightarrow> pgsVariable pgs" where
  "assign_eval name m_var = bind_prog m_var (\<lambda>v. bind_prog (set_var name v) (\<lambda>_. ret v))"

text \<open>\<open>rec.insert(line, column, var)\<close> on the variable \<open>name\<close>.\<close>

definition insert_cell :: "string \<Rightarrow> ushort \<Rightarrow> ushort \<Rightarrow> scalar \<Rightarrow> bool pgs" where
  "insert_cell name line column x =
     with_record name (\<lambda>rec.
       case rec_insert line column x rec of
         None \<Rightarrow> never
       | Some (b, rec') \<Rightarrow> bind_prog (set_var name (RecordVar rec')) (\<lambda>_. ret b))"

text \<open>\<open>pgsAssignToRecord::eval\<close>: the column, then the whole.\<close>

definition assign_column ::
  "pgs_env \<Rightarrow> string \<Rightarrow> int \<Rightarrow> pgsVariable \<Rightarrow> scalar \<Rightarrow> bool pgs" where
  "assign_column env name aux_line column x =
     (if is_integer column then
        bind_prog (long_of env column) (\<lambda>aux_column.
          with_record name (\<lambda>rec.
            if aux_column < int (unat (count_columns rec))
            then insert_cell name (to_ushort aux_line) (to_ushort aux_column) x
            else ret False))
      else
        bind_prog (var_value env column) (\<lambda>t.
          with_record name (\<lambda>rec.
            if get_column t rec < count_columns rec
            then insert_cell name (to_ushort aux_line) (get_column t rec) x
            else ret False)))"

definition assign_cell ::
  "pgs_env \<Rightarrow> string \<Rightarrow> string \<Rightarrow> pgsVariable pgs \<Rightarrow> pgsVariable pgs \<Rightarrow> scalar \<Rightarrow> pgsVariable pgs"
  where
  "assign_cell env value_text name m_line m_column x =
     bind_prog m_line (\<lambda>line. bind_prog m_column (\<lambda>column.
       if is_integer line then
         bind_prog (long_of env line) (\<lambda>aux_line.
           if is_integer column \<or> is_string column then
             bind_prog (assign_column env name aux_line column x) (\<lambda>success.
               if \<not> success then
                 throw (pgsParameterException
                   (''An error occurred in record affectation: '' @ value_text @
                    [newline_char] @ ''One possible reason is a column index out of range''))
               else ident_record_eval env name m_line (Some m_column))
           else bind_prog (var_value env column) (\<lambda>t.
             throw (pgsParameterException (t @ '' is not a valid column number/name''))))
       else bind_prog (var_value env line) (\<lambda>t.
         throw (pgsParameterException (t @ '' is not a valid line number'')))))"

definition assign_to_record_eval ::
  "pgs_env \<Rightarrow> string \<Rightarrow> string \<Rightarrow> pgsVariable pgs \<Rightarrow> pgsVariable pgs \<Rightarrow> pgsVariable pgs \<Rightarrow> pgsVariable pgs"
  where
  "assign_to_record_eval env value_text name m_line m_column m_var =
     bind_prog (find_record name) (\<lambda>found.
       if found = None then throw (pgsParameterException (name @ '' is not a record''))
       else bind_prog m_var (\<lambda>var.
         case var of
           RecordVar _ \<Rightarrow> throw (pgsParameterException
             ''Cannot assign a record into a record: right member is a record'')
         | Scalar x \<Rightarrow> assign_cell env value_text name m_line m_column x))"

text \<open>\<open>pgsRemoveLine::eval\<close>\<close>

definition remove_line_eval :: "pgs_env \<Rightarrow> string \<Rightarrow> string \<Rightarrow> pgsVariable pgs \<Rightarrow> pgsVariable pgs" where
  "remove_line_eval env value_text name m_line =
     bind_prog (find_record name) (\<lambda>found.
       if found = None then throw (pgsParameterException (name @ '' is not a record''))
       else bind_prog m_line (\<lambda>line.
         if is_integer line then
           bind_prog (long_of env line) (\<lambda>aux_line.
             with_record name (\<lambda>rec.
               let p = remove_line (to_ushort aux_line) rec in
               if \<not> fst p then
                 throw (pgsParameterException (''an error occurred while executing '' @ value_text))
               else bind_prog (set_var name (RecordVar (snd p))) (\<lambda>_. ident_eval env name)))
         else bind_prog (var_value env line) (\<lambda>t.
           throw (pgsParameterException (t @ '' is not a valid line number'')))))"

definition int_number :: "int \<Rightarrow> pgsVariable" where
  "int_number i = Scalar (mk_number False (int_text i))"

definition columns_eval :: "string \<Rightarrow> pgsVariable pgs" where
  "columns_eval name =
     bind_prog (reads (\<lambda>s. ps_vars s name)) (\<lambda>v.
       case v of
         None \<Rightarrow> ret (int_number 0)
       | Some (RecordVar r) \<Rightarrow> ret (int_number (int (unat (count_columns r))))
       | Some (Scalar _) \<Rightarrow> ret (int_number 1))"

definition lines_eval :: "string \<Rightarrow> pgsVariable pgs" where
  "lines_eval name =
     bind_prog (reads (\<lambda>s. ps_vars s name)) (\<lambda>v.
       case v of
         None \<Rightarrow> ret (int_number 0)
       | Some (RecordVar r) \<Rightarrow> ret (int_number (int (unat (count_lines r))))
       | Some (Scalar _) \<Rightarrow> ret (int_number 1))"

section \<open>Operators\<close>

definition and_eval :: "pgs_env \<Rightarrow> pgsVariable pgs \<Rightarrow> pgsVariable pgs \<Rightarrow> pgsVariable pgs" where
  "and_eval env m_left m_right =
     bind_prog (bind_prog m_left (pgs_is_true env)) (\<lambda>a.
       if a then bind_prog (bind_prog m_right (pgs_is_true env)) (\<lambda>b. ret (flag b))
       else ret (flag False))"

definition or_eval :: "pgs_env \<Rightarrow> pgsVariable pgs \<Rightarrow> pgsVariable pgs \<Rightarrow> pgsVariable pgs" where
  "or_eval env m_left m_right =
     bind_prog (bind_prog m_left (pgs_is_true env)) (\<lambda>a.
       if a then ret (flag True)
       else bind_prog (bind_prog m_right (pgs_is_true env)) (\<lambda>b. ret (flag b)))"

text \<open>The classes of binary operators evaluate both operands, then apply their operator.\<close>

definition operands ::
  "(pgs_env \<Rightarrow> pgsVariable \<Rightarrow> pgsVariable \<Rightarrow> pgsVariable pgs) \<Rightarrow>
   pgs_env \<Rightarrow> pgsVariable pgs \<Rightarrow> pgsVariable pgs \<Rightarrow> pgsVariable pgs" where
  "operands f env m_left m_right =
     bind_prog m_left (\<lambda>left. bind_prog m_right (\<lambda>right. f env left right))"

definition plus_eval where "plus_eval = operands pgs_plus"
definition minus_eval where "minus_eval = operands pgs_minus"
definition times_eval where "times_eval = operands pgs_times"
definition over_eval where "over_eval = operands pgs_over"
definition modulo_eval where "modulo_eval = operands pgs_modulo"
definition equal_eval where
  "equal_eval cs = operands (if cs then pgs_equal else pgs_almost_equal)"
definition different_eval where "different_eval = operands pgs_different"
definition greater_eval where "greater_eval = operands pgs_greater"
definition greater_equal_eval where "greater_equal_eval = operands pgs_greater_equal"
definition lower_eval where "lower_eval = operands pgs_lower"
definition lower_equal_eval where "lower_equal_eval = operands pgs_lower_equal"

lemmas operator_evals = plus_eval_def minus_eval_def times_eval_def over_eval_def modulo_eval_def
  equal_eval_def different_eval_def greater_eval_def greater_equal_eval_def lower_eval_def
  lower_equal_eval_def

fun binary_eval :: "binary \<Rightarrow> pgs_env \<Rightarrow> pgsVariable pgs \<Rightarrow> pgsVariable pgs \<Rightarrow> pgsVariable pgs" where
  "binary_eval pgsPlus = plus_eval"
| "binary_eval pgsMinus = minus_eval"
| "binary_eval pgsTimes = times_eval"
| "binary_eval pgsOver = over_eval"
| "binary_eval pgsModulo = modulo_eval"
| "binary_eval (pgsEqual cs) = equal_eval cs"
| "binary_eval pgsDifferent = different_eval"
| "binary_eval pgsGreater = greater_eval"
| "binary_eval pgsGreaterEqual = greater_equal_eval"
| "binary_eval pgsLower = lower_eval"
| "binary_eval pgsLowerEqual = lower_equal_eval"

definition negate_eval :: "pgs_env \<Rightarrow> pgsVariable pgs \<Rightarrow> pgsVariable pgs" where
  "negate_eval env m_left =
     bind_prog m_left (\<lambda>right. pgs_minus env (Scalar (mk_number False ''0'')) right)"

definition not_eval :: "pgs_env \<Rightarrow> pgsVariable pgs \<Rightarrow> pgsVariable pgs" where
  "not_eval env m_left = bind_prog m_left (pgs_not env)"

definition trim_eval :: "pgs_env \<Rightarrow> pgsVariable pgs \<Rightarrow> pgsVariable pgs" where
  "trim_eval env m_exp =
     bind_prog m_exp (\<lambda>v. bind_prog (var_value env v) (\<lambda>t. ret (Scalar (PgsString (strip_both t)))))"

definition cast_eval :: "pgs_env \<Rightarrow> cast_type \<Rightarrow> pgsVariable pgs \<Rightarrow> pgsVariable pgs" where
  "cast_eval env ty m_var =
     bind_prog m_var (\<lambda>var.
       case ty of
         CastInteger \<Rightarrow>
           bind_prog (var_number env var) (\<lambda>x. bind_prog (scalar_value env x) (\<lambda>t.
             ret (Scalar (mk_number False (pgs_mapm_str (pgs_mapm_round (num t)) True)))))
       | CastReal \<Rightarrow>
           bind_prog (var_number env var) (\<lambda>x. bind_prog (scalar_value env x) (\<lambda>t.
             ret (Scalar (mk_number True t))))
       | CastRecord \<Rightarrow> bind_prog (var_record env var) (\<lambda>r. ret (RecordVar r))
       | CastString \<Rightarrow> bind_prog (var_string env var) (\<lambda>x. ret (Scalar x)))"

end
