(* ===== verification/PgsExecute.thy ===== *)
theory PgsExecute
  imports PgsExpr
begin

text \<open>
  SQL text (\<open>pgsExecute.cpp\<close>): the substitution of variables before the query is run; the generator
  expressions (\<open>pgsGen*.cpp\<close>); and the evaluator \<open>eval\<close>.
\<close>

section \<open>Substituting variables\<close>

text \<open>The loop \<open>while (identifier.Matches(stmt))\<close>.\<close>

partial_function (option) expand_vars ::
  "pgs_env \<Rightarrow> string \<Rightarrow> pgs_state \<Rightarrow> ((pgsException + string) \<times> pgs_state) option" where
  "expand_vars env stmt s =
     (case find_identifier stmt of
        None \<Rightarrow> ret stmt s
      | Some (before, chr, var, after) \<Rightarrow>
          (case ps_vars s var of
             Some v \<Rightarrow>
               bind_prog (var_value env v) (\<lambda>res.
                 expand_vars env
                   (before @ expand_groups (match_groups chr var) (chr # escape_quotes res) @ after)) s
           | None \<Rightarrow>
               expand_vars env
                 (before @ expand_groups (match_groups chr var) (chr # back_slash # back_slash # var) @ after)
                 s))"

declare expand_vars.simps [code]

section \<open>pgsExecute::eval\<close>

definition execute_eval :: "pgs_env \<Rightarrow> bool \<Rightarrow> string \<Rightarrow> pgsVariable pgs" where
  "execute_eval env cout query =
     bind_prog (expand_vars env query) (\<lambda>expanded. execute_stmt env cout (unescape expanded))"

section \<open>Generators\<close>

definition new_gen :: "ptype \<Rightarrow> object_gen \<Rightarrow> pgsVariable pgs" where
  "new_gen t g =
     bind_prog (reads (\<lambda>s. length (ps_gens s))) (\<lambda>i.
     bind_prog (modifies (\<lambda>s. s\<lparr>ps_gens := ps_gens s @ [g]\<rparr>)) (\<lambda>_.
     ret (Scalar (PgsGenerator t i))))"

definition bad_parameter :: "string \<Rightarrow> string \<Rightarrow> 'a pgs" where
  "bad_parameter value_text msg =
     throw (pgsParameterException (value_text @ '':'' @ [newline_char] @ msg))"

definition num_of :: "pgs_env \<Rightarrow> pgsVariable \<Rightarrow> mapm pgs" where
  "num_of env v = bind_prog (var_value env v) (\<lambda>t. ret (num t))"

definition gen_int_eval ::
  "pgs_env \<Rightarrow> string \<Rightarrow> pgsVariable pgs \<Rightarrow> pgsVariable pgs \<Rightarrow> pgsVariable pgs \<Rightarrow> pgsVariable pgs \<Rightarrow>
   pgsVariable pgs" where
  "gen_int_eval env value_text m_min m_max m_sequence m_seed =
     bind_prog m_min (\<lambda>mn. bind_prog m_max (\<lambda>mx. bind_prog m_sequence (\<lambda>sequence.
     bind_prog m_seed (\<lambda>seed.
       if is_integer mn \<and> is_integer mx \<and> is_integer sequence \<and> is_integer seed then
         bind_prog (long_of env sequence) (\<lambda>aux_sequence. bind_prog (long_of env seed) (\<lambda>aux_seed.
         bind_prog (num_of env mn) (\<lambda>lo. bind_prog (num_of env mx) (\<lambda>hi.
           new_gen pgsTInt
             (IntegerGen (pgsIntegerGen (mapm_int lo) (mapm_int hi) (aux_sequence \<noteq> 0) aux_seed))))))
       else if \<not> is_integer mn then bad_parameter value_text ''min should be an integer''
       else if \<not> is_integer mx then bad_parameter value_text ''max should be an integer''
       else if \<not> is_integer sequence then bad_parameter value_text ''sequence should be an integer''
       else bad_parameter value_text ''seed should be an integer''))))"

definition gen_real_eval ::
  "pgs_env \<Rightarrow> string \<Rightarrow> pgsVariable pgs \<Rightarrow> pgsVariable pgs \<Rightarrow> pgsVariable pgs \<Rightarrow> pgsVariable pgs \<Rightarrow>
   pgsVariable pgs \<Rightarrow> pgsVariable pgs" where
  "gen_real_eval env value_text m_min m_max m_precision m_sequence m_seed =
     bind_prog m_min (\<lambda>mn. bind_prog m_max (\<lambda>mx. bind_prog m_precision (\<lambda>precision.
     bind_prog m_sequence (\<lambda>sequence. bind_prog m_seed (\<lambda>seed.
       if is_number mn \<and> is_number mx \<and> is_integer sequence \<and> is_integer seed \<and> is_integer precision
       then
         bind_prog (long_of env sequence) (\<lambda>aux_sequence. bind_prog (long_of env seed) (\<lambda>aux_seed.
         bind_prog (long_of env precision) (\<lambda>aux_precision.
         bind_prog (num_of env mn) (\<lambda>lo. bind_prog (num_of env mx) (\<lambda>hi.
           new_gen pgsTReal
             (RealGen (pgsRealGen lo hi (word_of_int aux_precision) (aux_sequence \<noteq> 0) aux_seed)))))))
       else if \<not> is_number mn then bad_parameter value_text ''min should be a number''
       else if \<not> is_number mx then bad_parameter value_text ''max should be a number''
       else if \<not> is_integer precision then bad_parameter value_text ''precision should be an integer''
       else if \<not> is_integer sequence then bad_parameter value_text ''sequence should be an integer''
       else bad_parameter value_text ''seed should be an integer'')))))"

definition gen_string_eval ::
  "pgs_env \<Rightarrow> string \<Rightarrow> pgsVariable pgs \<Rightarrow> pgsVariable pgs \<Rightarrow> pgsVariable pgs \<Rightarrow> pgsVariable pgs \<Rightarrow>
   pgsVariable pgs" where
  "gen_string_eval env value_text m_min m_max m_nb_words m_seed =
     bind_prog m_min (\<lambda>mn. bind_prog m_max (\<lambda>mx. bind_prog m_nb_words (\<lambda>nb_words.
     bind_prog m_seed (\<lambda>seed.
       if is_integer mn \<and> is_integer mx \<and> is_integer nb_words \<and> is_integer seed then
         bind_prog (long_of env mn) (\<lambda>aux_min. bind_prog (long_of env mx) (\<lambda>aux_max.
         bind_prog (long_of env nb_words) (\<lambda>aux_nb_words. bind_prog (long_of env seed) (\<lambda>aux_seed.
           new_gen pgsTString
             (StringGen (pgsStringGen (to_ushort aux_min) (to_ushort aux_max)
               (word_of_int aux_nb_words) aux_seed []))))))
       else if \<not> is_integer mn then bad_parameter value_text ''min should be an integer''
       else if \<not> is_integer mx then bad_parameter value_text ''max should be an integer''
       else if \<not> is_integer nb_words then bad_parameter value_text ''nb_words should be an integer''
       else bad_parameter value_text ''seed should be an integer''))))"

text \<open>\<open>ParseDate(min->value()) != 0 && ParseDate(max->value()) != 0 && aux_min.IsValid() &&
  aux_max.IsValid()\<close>, and the same with \<open>ParseTime\<close> and \<open>ParseDateTime\<close>: the second bound is not
  read when the first is not parsed.\<close>

definition parse_bounds ::
  "pgs_env \<Rightarrow> (string \<Rightarrow> int option) \<Rightarrow> pgsVariable \<Rightarrow> pgsVariable \<Rightarrow> (int \<times> int) option pgs" where
  "parse_bounds env parse mn mx =
     bind_prog (var_value env mn) (\<lambda>t_min.
       case parse t_min of
         None \<Rightarrow> ret None
       | Some aux_min \<Rightarrow>
           bind_prog (var_value env mx) (\<lambda>t_max.
             case parse t_max of
               None \<Rightarrow> ret None
             | Some aux_max \<Rightarrow>
                 ret (if cal_valid (ge_calendar (env_gens env)) aux_min
                         \<and> cal_valid (ge_calendar (env_gens env)) aux_max
                      then Some (aux_min, aux_max) else None)))"

text \<open>The three classes of instants differ in the parser, the message and the generator.\<close>

definition gen_calendar_eval ::
  "pgs_env \<Rightarrow> string \<Rightarrow> (string \<Rightarrow> int option) \<Rightarrow> string \<Rightarrow> (int \<Rightarrow> int \<Rightarrow> bool \<Rightarrow> int \<Rightarrow> object_gen) \<Rightarrow>
   pgsVariable pgs \<Rightarrow> pgsVariable pgs \<Rightarrow> pgsVariable pgs \<Rightarrow> pgsVariable pgs \<Rightarrow> pgsVariable pgs" where
  "gen_calendar_eval env value_text parse invalid mk m_min m_max m_sequence m_seed =
     bind_prog m_min (\<lambda>mn. bind_prog m_max (\<lambda>mx. bind_prog m_sequence (\<lambda>sequence.
     bind_prog m_seed (\<lambda>seed.
       if is_string mn \<and> is_string mx \<and> is_integer sequence \<and> is_integer seed then
         bind_prog (parse_bounds env parse mn mx) (\<lambda>bounds.
           case bounds of
             None \<Rightarrow> bad_parameter value_text invalid
           | Some (aux_min, aux_max) \<Rightarrow>
               bind_prog (long_of env sequence) (\<lambda>aux_sequence. bind_prog (long_of env seed) (\<lambda>aux_seed.
                 new_gen pgsTString (mk aux_min aux_max (aux_sequence \<noteq> 0) aux_seed))))
       else if \<not> is_string mn then bad_parameter value_text ''min should be a string''
       else if \<not> is_string mx then bad_parameter value_text ''max should be a string''
       else if \<not> is_integer sequence then bad_parameter value_text ''sequence should be an integer''
       else bad_parameter value_text ''seed should be an integer''))))"

definition gen_date_eval ::
  "pgs_env \<Rightarrow> string \<Rightarrow> pgsVariable pgs \<Rightarrow> pgsVariable pgs \<Rightarrow> pgsVariable pgs \<Rightarrow> pgsVariable pgs \<Rightarrow>
   pgsVariable pgs" where
  "gen_date_eval env value_text =
     gen_calendar_eval env value_text (cal_parse_date (ge_calendar (env_gens env)))
       ''min and/or max dates are not valid''
       (\<lambda>mn mx sequence seed. DateGen (pgsDateGen mn mx sequence seed))"

definition gen_time_eval ::
  "pgs_env \<Rightarrow> string \<Rightarrow> pgsVariable pgs \<Rightarrow> pgsVariable pgs \<Rightarrow> pgsVariable pgs \<Rightarrow> pgsVariable pgs \<Rightarrow>
   pgsVariable pgs" where
  "gen_time_eval env value_text =
     gen_calendar_eval env value_text (cal_parse_time (ge_calendar (env_gens env)))
       ''min and/or max times are not valid''
       (\<lambda>mn mx sequence seed. TimeGen (pgsTimeGen (ge_calendar (env_gens env)) mn mx sequence seed))"

definition gen_date_time_eval ::
  "pgs_env \<Rightarrow> string \<Rightarrow> pgsVariable pgs \<Rightarrow> pgsVariable pgs \<Rightarrow> pgsVariable pgs \<Rightarrow> pgsVariable pgs \<Rightarrow>
   pgsVariable pgs" where
  "gen_date_time_eval env value_text =
     gen_calendar_eval env value_text (cal_parse_date_time (ge_calendar (env_gens env)))
       ''min and/or max datetimes are not valid''
       (\<lambda>mn mx sequence seed. DateTimeGen (pgsDateTimeGen mn mx sequence seed))"

text \<open>\<open>pgsGenDictionary::eval\<close>: the path is read once for the test and once more for its use.\<close>

definition gen_dictionary_eval ::
  "pgs_env \<Rightarrow> string \<Rightarrow> pgsVariable pgs \<Rightarrow> pgsVariable pgs \<Rightarrow> pgsVariable pgs \<Rightarrow> pgsVariable pgs \<Rightarrow>
   pgsVariable pgs" where
  "gen_dictionary_eval env value_text m_file_path m_sequence m_seed m_wx_conv =
     bind_prog m_file_path (\<lambda>file_path. bind_prog m_sequence (\<lambda>sequence. bind_prog m_seed (\<lambda>seed.
     bind_prog m_wx_conv (\<lambda>wx_conv.
       if is_string file_path \<and> is_integer sequence \<and> is_integer seed \<and> is_string wx_conv then
         bind_prog (var_value env file_path) (\<lambda>file.
           if ge_files (env_gens env) file \<noteq> None then
             bind_prog (long_of env sequence) (\<lambda>aux_sequence. bind_prog (long_of env seed) (\<lambda>aux_seed.
             bind_prog (var_value env file_path) (\<lambda>path. bind_prog (var_value env wx_conv) (\<lambda>conv.
               new_gen pgsTString
                 (DictionaryGen
                   (pgsDictionaryGen (ge_files (env_gens env)) path (aux_sequence \<noteq> 0) aux_seed conv))))))
           else
             bind_prog (var_value env file_path) (\<lambda>path.
               bad_parameter value_text (''File <'' @ path @ ''> does not exist'')))
       else if \<not> is_string file_path then bad_parameter value_text ''file should be a string''
       else if \<not> is_integer sequence then bad_parameter value_text ''sequence should be an integer''
       else if \<not> is_integer seed then bad_parameter value_text ''seed should be an integer''
       else bad_parameter value_text ''encoding should be a string''))))"

definition gen_regex_eval ::
  "pgs_env \<Rightarrow> string \<Rightarrow> pgsVariable pgs \<Rightarrow> pgsVariable pgs \<Rightarrow> pgsVariable pgs" where
  "gen_regex_eval env value_text m_regex m_seed =
     bind_prog m_regex (\<lambda>regex. bind_prog m_seed (\<lambda>seed.
       if is_string regex \<and> is_integer seed then
         bind_prog (long_of env seed) (\<lambda>aux_seed. bind_prog (var_value env regex) (\<lambda>text.
           case pgsRegexGen (ge_xml (env_gens env)) (to_long env) text aux_seed of
             None \<Rightarrow> bad_parameter value_text ''regex is not a valid regular expression''
           | Some gens \<Rightarrow> new_gen pgsTString (RegexGen gens)))
       else if \<not> is_string regex then bad_parameter value_text ''regex should be a string''
       else bad_parameter value_text ''seed should be an integer''))"

text \<open>The constructor of \<open>pgsReferenceGen\<close> counts the rows of the table. The count has the type \<open>bigint\<close>, so
  its text is that of an integer.\<close>

definition new_reference :: "pgs_env \<Rightarrow> string \<Rightarrow> string \<Rightarrow> bool \<Rightarrow> int \<Rightarrow> reference_gen pgs" where
  "new_reference env table column sequence seed =
     bind_prog (own_query env (count_query table)) (\<lambda>result. bind_prog (var_value env result) (\<lambda>value.
     bind_prog
       (if value \<noteq> [] then
          bind_prog (var_number env result) (\<lambda>x. ret (mapm_int (num (cell_data x))))
        else ret 0) (\<lambda>nb_rows.
     ret (pgsReferenceGen table column sequence seed nb_rows))))"

definition nonempty_string :: "pgs_env \<Rightarrow> pgsVariable \<Rightarrow> bool pgs" where
  "nonempty_string env v =
     (if is_string v then bind_prog (var_value env v) (\<lambda>t. ret (t \<noteq> [])) else ret False)"

text \<open>\<open>pgsGenReference::eval\<close>: each \<open>value()\<close> reads the operand again.\<close>

definition check_query :: "pgs_env \<Rightarrow> pgsVariable \<Rightarrow> pgsVariable \<Rightarrow> pgsVariable pgs" where
  "check_query env table column =
     bind_prog (var_value env table) (\<lambda>t. bind_prog (var_value env column) (\<lambda>c.
     bind_prog (var_value env column) (\<lambda>c'.
       execute_eval env False (''SELECT 1 FROM '' @ t @ '' WHERE '' @ c @ '' = '' @ c'))))"

definition reference_refused ::
  "pgs_env \<Rightarrow> string \<Rightarrow> pgsVariable \<Rightarrow> pgsVariable \<Rightarrow> pgsVariable \<Rightarrow> pgsVariable pgs" where
  "reference_refused env value_text table column sequence =
     bind_prog (nonempty_string env table) (\<lambda>t.
       if \<not> t then bad_parameter value_text ''table should be a non-empty string''
       else bind_prog (nonempty_string env column) (\<lambda>c.
         if \<not> c then bad_parameter value_text ''column should be a non-empty string''
         else if \<not> is_integer sequence then bad_parameter value_text ''sequence should be an integer''
         else bad_parameter value_text ''seed should be an integer''))"

definition gen_reference_eval ::
  "pgs_env \<Rightarrow> string \<Rightarrow> pgsVariable pgs \<Rightarrow> pgsVariable pgs \<Rightarrow> pgsVariable pgs \<Rightarrow> pgsVariable pgs \<Rightarrow>
   pgsVariable pgs" where
  "gen_reference_eval env value_text m_table m_column m_sequence m_seed =
     bind_prog m_table (\<lambda>table. bind_prog m_column (\<lambda>column. bind_prog m_sequence (\<lambda>sequence.
     bind_prog m_seed (\<lambda>seed.
     bind_prog (nonempty_string env table) (\<lambda>t.
     bind_prog (if t then nonempty_string env column else ret False) (\<lambda>c.
       if c \<and> is_integer sequence \<and> is_integer seed then
         bind_prog (check_query env table column) (\<lambda>result. bind_prog (pgs_is_true env result) (\<lambda>found.
           if found then
             bind_prog (long_of env sequence) (\<lambda>aux_sequence. bind_prog (long_of env seed) (\<lambda>aux_seed.
             bind_prog (var_value env table) (\<lambda>t'. bind_prog (var_value env column) (\<lambda>c'.
             bind_prog (new_reference env t' c' (aux_sequence \<noteq> 0) aux_seed) (\<lambda>g.
               new_gen pgsTString (ReferenceGen g))))))
           else bad_parameter value_text ''table/column does not exist''))
       else reference_refused env value_text table column sequence))))))"

section \<open>The evaluator\<close>

fun eval :: "pgs_env \<Rightarrow> expr \<Rightarrow> pgsVariable pgs" where
  "eval env (Literal x) = ret (Scalar x)"
| "eval env (pgsIdent n) = ident_eval env n"
| "eval env (pgsIdentRecord n l c) =
     ident_record_eval env n (eval env l) (case c of None \<Rightarrow> None | Some e \<Rightarrow> Some (eval env e))"
| "eval env (pgsAssign n e) = assign_eval n (eval env e)"
| "eval env (pgsAssignToRecord n l c e) =
     assign_to_record_eval env (expr_value (pgsAssignToRecord n l c e)) n
       (eval env l) (eval env c) (eval env e)"
| "eval env (pgsAnd l r) = and_eval env (eval env l) (eval env r)"
| "eval env (pgsOr l r) = or_eval env (eval env l) (eval env r)"
| "eval env (Binary b l r) = binary_eval b env (eval env l) (eval env r)"
| "eval env (pgsNegate e) = negate_eval env (eval env e)"
| "eval env (pgsNot e) = not_eval env (eval env e)"
| "eval env (pgsParenthesis e) = eval env e"
| "eval env (pgsCast t e) = cast_eval env t (eval env e)"
| "eval env (pgsColumns n) = columns_eval n"
| "eval env (pgsLines n) = lines_eval n"
| "eval env (pgsTrim e) = trim_eval env (eval env e)"
| "eval env (pgsRemoveLine n e) =
     remove_line_eval env (expr_value (pgsRemoveLine n e)) n (eval env e)"
| "eval env (pgsExecute q) = execute_eval env True q"
| "eval env (pgsGenInt mn mx sq sd) =
     gen_int_eval env (expr_value (pgsGenInt mn mx sq sd))
       (eval env mn) (eval env mx) (eval env sq) (eval env sd)"
| "eval env (pgsGenReal mn mx pr sq sd) =
     gen_real_eval env (expr_value (pgsGenReal mn mx pr sq sd))
       (eval env mn) (eval env mx) (eval env pr) (eval env sq) (eval env sd)"
| "eval env (pgsGenString mn mx nb sd) =
     gen_string_eval env (expr_value (pgsGenString mn mx nb sd))
       (eval env mn) (eval env mx) (eval env nb) (eval env sd)"
| "eval env (pgsGenDate mn mx sq sd) =
     gen_date_eval env (expr_value (pgsGenDate mn mx sq sd))
       (eval env mn) (eval env mx) (eval env sq) (eval env sd)"
| "eval env (pgsGenTime mn mx sq sd) =
     gen_time_eval env (expr_value (pgsGenTime mn mx sq sd))
       (eval env mn) (eval env mx) (eval env sq) (eval env sd)"
| "eval env (pgsGenDateTime mn mx sq sd) =
     gen_date_time_eval env (expr_value (pgsGenDateTime mn mx sq sd))
       (eval env mn) (eval env mx) (eval env sq) (eval env sd)"
| "eval env (pgsGenDictionary f sq sd cv) =
     gen_dictionary_eval env (expr_value (pgsGenDictionary f sq sd cv))
       (eval env f) (eval env sq) (eval env sd) (eval env cv)"
| "eval env (pgsGenRegex r sd) =
     gen_regex_eval env (expr_value (pgsGenRegex r sd)) (eval env r) (eval env sd)"
| "eval env (pgsGenReference t c sq sd) =
     gen_reference_eval env (expr_value (pgsGenReference t c sq sd))
       (eval env t) (eval env c) (eval env sq) (eval env sd)"

end
