(* ===== verification/PgsSound.thy ===== *)
theory PgsSound
  imports PgsExecute
begin

text \<open>
  The evaluator keeps values and states well formed: whatever an expression whose literals are
  valid does, its value and every variable stay valid, and the numbers satisfy the assertion of
  \<open>pgsNumber\<close>.
\<close>

section \<open>State access\<close>

lemma typed_reads_var: "typed K (\<lambda>L x. \<forall>v. x = Some v \<longrightarrow> val_ok L v) (reads (\<lambda>s. ps_vars s name))"
  by (rule typedI) (auto simp: reads_def st_ok_def)

lemma typed_find_record: "typed K (\<lambda>L x. \<forall>r. x = Some r \<longrightarrow> record_ok L r) (find_record name)"
  unfolding find_record_def
  by (rule typedI) (fastforce simp: reads_def st_ok_def split: option.splits pgsVariable.splits)

lemma typed_reads: "typed K any (reads f)"
  by (rule typedI) (auto simp: reads_def)

lemma typed_modifies:
  "(\<And>s. st_ok s \<Longrightarrow> prefix K (kinds s) \<Longrightarrow> st_ok (f s) \<and> prefix (kinds s) (kinds (f s))) \<Longrightarrow>
   typed K any (modifies f)"
  by (rule typedI) (auto simp: modifies_def)

lemma typed_set_var: "val_ok K v \<Longrightarrow> typed K any (set_var name v)"
  unfolding set_var_def
  by (rule typed_modifies) (auto simp: st_ok_def kinds_def intro: val_ok_mono)

lemma typed_with_record:
  assumes "\<And>L r. prefix K L \<Longrightarrow> record_ok L r \<Longrightarrow> typed L P (k r)"
  shows "typed K P (with_record name k)"
  unfolding with_record_def
  by (rule typed_bind[OF typed_find_record]) (auto intro: assms typed_never split: option.split)

lemma typed_long_of: "val_ok K v \<Longrightarrow> typed K any (long_of env v)"
  unfolding long_of_def by (rule typed_bind[OF typed_var_value]) (auto intro: typed_ret)

lemma typed_num_of: "val_ok K v \<Longrightarrow> typed K any (num_of env v)"
  unfolding num_of_def by (rule typed_bind[OF typed_var_value]) (auto intro: typed_ret)

lemma int_number_ok [simp]: "val_ok K (int_number i)"
  using number_result[of "mapm_of_int i" False] by (simp add: int_number_def normal_ops str_of_int)

text \<open>Well-typed programs for values, from any state.\<close>

definition vtyped :: "pgsVariable pgs \<Rightarrow> bool" where
  "vtyped m \<longleftrightarrow> (\<forall>K. typed K val_ok m)"

lemma vtypedD: "vtyped m \<Longrightarrow> typed K val_ok m"
  by (simp add: vtyped_def)

lemma vtypedI: "(\<And>K. typed K val_ok m) \<Longrightarrow> vtyped m"
  by (simp add: vtyped_def)

lemma typed_vbind:
  assumes "vtyped m" "\<And>L v. prefix K L \<Longrightarrow> val_ok L v \<Longrightarrow> typed L Q (k v)"
  shows "typed K Q (bind_prog m k)"
  by (rule typed_bind[OF vtypedD[OF assms(1)]]) (rule assms(2))

lemmas typed_vals = typed_ret typed_throw typed_never typed_if
  typed_bind[OF typed_long_of] typed_bind[OF typed_var_value] typed_with_record typed_vbind

section \<open>Variables and records\<close>

lemma vtyped_ident: "vtyped (ident_eval env name)"
  unfolding ident_eval_def vtyped_def
  by (auto intro!: typed_bind[OF typed_reads_var] typed_ret
      simp: int_number_ok[unfolded int_number_def, simplified] split: option.split)
    (blast intro: val_ok_mono)+

lemma vtyped_ident_record:
  assumes "vtyped l" "\<And>c. col = Some c \<Longrightarrow> vtyped c"
  shows "vtyped (ident_record_eval env name l col)"
proof (rule vtypedI)
  fix K
  show "typed K val_ok (ident_record_eval env name l col)"
    unfolding ident_record_eval_def
    using assms
    by (auto intro!: typed_bind[OF typed_find_record] typed_vals split: option.split)
      (blast intro: get_line_ok rec_get_ok record_ok_mono scalar_ok_mono)+
qed

lemma vtyped_assign:
  assumes "vtyped m"
  shows "vtyped (assign_eval name m)"
proof (rule vtypedI)
  fix K
  show "typed K val_ok (assign_eval name m)"
    unfolding assign_eval_def
    by (rule typed_vbind[OF assms]) (auto intro!: typed_bind[OF typed_set_var] typed_ret intro: val_ok_mono)
qed

lemma typed_insert_cell: "scalar_ok K x \<Longrightarrow> typed K any (insert_cell name line column x)"
  unfolding insert_cell_def
  by (rule typed_with_record)
    (auto intro!: typed_bind[OF typed_set_var] typed_ret typed_never split: option.split,
     blast intro: record_ok_insert scalar_ok_mono)

lemma typed_assign_column:
  assumes "val_ok K column" "scalar_ok K x"
  shows "typed K any (assign_column env name aux_line column x)"
  unfolding assign_column_def using assms
  by (auto intro!: typed_vals typed_insert_cell intro: scalar_ok_mono prefix_order.trans)

lemma vtyped_assign_cell:
  assumes "vtyped l" "vtyped c" "scalar_ok K x"
  shows "typed K val_ok (assign_cell env txt name l c x)"
proof -
  have r: "typed L val_ok (ident_record_eval env name l (Some c))" for L
    using vtyped_ident_record[OF assms(1), of "Some c"] assms(2) by (simp add: vtyped_def)
  show ?thesis
    unfolding assign_cell_def using assms(3)
    by (auto intro!: typed_vbind[OF assms(1)] typed_vbind[OF assms(2)] typed_bind[OF typed_long_of]
        typed_bind[OF typed_var_value] typed_bind[OF typed_assign_column] typed_if typed_throw r
        intro: val_ok_mono scalar_ok_mono prefix_order.trans)
qed

lemma vtyped_assign_to_record:
  assumes "vtyped l" "vtyped c" "vtyped m"
  shows "vtyped (assign_to_record_eval env txt name l c m)"
  unfolding assign_to_record_eval_def vtyped_def
  by (auto intro!: typed_bind[OF typed_find_record] typed_if typed_throw typed_vbind[OF assms(3)]
      vtyped_assign_cell[OF assms(1,2)] split: pgsVariable.split)

lemma vtyped_remove_line:
  assumes "vtyped l"
  shows "vtyped (remove_line_eval env txt name l)"
proof -
  have i: "typed L val_ok (ident_eval env name)" for L
    using vtyped_ident by (simp add: vtyped_def)
  show ?thesis
    unfolding remove_line_eval_def vtyped_def Let_def
    by (auto intro!: typed_bind[OF typed_find_record] typed_vals typed_vbind[OF assms] i
        typed_bind[OF typed_set_var] split: option.split)
      (metis record_ok_remove prod.collapse)
qed

lemma vtyped_columns: "vtyped (columns_eval name)"
  unfolding columns_eval_def vtyped_def
  by (auto intro!: typed_bind[OF typed_reads_var] typed_ret split: option.split pgsVariable.split)

lemma vtyped_lines: "vtyped (lines_eval name)"
  unfolding lines_eval_def vtyped_def
  by (auto intro!: typed_bind[OF typed_reads_var] typed_ret split: option.split pgsVariable.split)

section \<open>Operators\<close>

lemma typed_truth: "vtyped m \<Longrightarrow> typed K any (bind_prog m (pgs_is_true env))"
  by (erule typed_vbind) (rule typed_is_true)

lemma vtyped_and: "vtyped l \<Longrightarrow> vtyped r \<Longrightarrow> vtyped (and_eval env l r)"
  unfolding and_eval_def by (rule vtypedI) (auto intro!: typed_bind[OF typed_truth] typed_ret typed_if)

lemma vtyped_or: "vtyped l \<Longrightarrow> vtyped r \<Longrightarrow> vtyped (or_eval env l r)"
  unfolding or_eval_def by (rule vtypedI) (auto intro!: typed_bind[OF typed_truth] typed_ret typed_if)

lemma vtyped_operands:
  assumes "\<And>L a b. val_ok L a \<Longrightarrow> val_ok L b \<Longrightarrow> typed L val_ok (f env a b)" "vtyped l" "vtyped r"
  shows "vtyped (operands f env l r)"
  unfolding operands_def
  by (rule vtypedI) (auto intro!: typed_vbind[OF assms(2)] typed_vbind[OF assms(3)] assms(1) intro: val_ok_mono)

lemma vtyped_binary:
  assumes "env_ok env" "vtyped l" "vtyped r"
  shows "vtyped (binary_eval b env l r)"
proof -
  note t = typed_binary[OF assms(1)]
  show ?thesis
    by (cases b) (auto simp: operator_evals intro!: vtyped_operands[OF _ assms(2,3)] t)
qed

lemma literal_0: "val_ok K (Scalar (mk_number False ''0''))"
  using flag_ok[of K False] by (simp add: flag_def)

lemma vtyped_negate: "env_ok env \<Longrightarrow> vtyped l \<Longrightarrow> vtyped (negate_eval env l)"
  unfolding negate_eval_def
  by (rule vtypedI) (auto intro!: typed_vals typed_binary literal_0)

lemma vtyped_not: "vtyped l \<Longrightarrow> vtyped (not_eval env l)"
  unfolding not_eval_def by (rule vtypedI) (auto intro!: typed_vals typed_not)

lemma vtyped_trim: "vtyped l \<Longrightarrow> vtyped (trim_eval env l)"
  unfolding trim_eval_def by (rule vtypedI) (auto intro!: typed_vals)

lemma typed_plain_value:
  "scalar_ok K x \<and> is_number (Scalar x) \<and> plain x \<Longrightarrow>
   typed K (\<lambda>L t. number_is_valid True t) (scalar_value env x)"
  by (cases x) (auto simp: number_is_valid_def type_tests intro!: typed_ret)

lemma round_is_number: "scalar_ok K (mk_number False (pgs_mapm_str (pgs_mapm_round (num t)) True))"
proof -
  obtain i where i: "pgs_mapm_round (num t) = mapm_of_int i"
    using mapm_round_trunc[of "num t"] by (simp add: normal_num)
  have "pgs_mapm_str (mapm_of_int i) True = pgs_mapm_str (mapm_of_int i) False"
    by (simp only: str_of_int)
  then show ?thesis using number_result[of "mapm_of_int i" False K] i by (simp add: normal_ops)
qed

lemma vtyped_cast:
  assumes "vtyped l"
  shows "vtyped (cast_eval env ty l)"
proof (rule vtypedI)
  fix K
  have real: "scalar_ok L (mk_number True t)" if "number_is_valid True t" for L t
    using that by (auto simp: mk_number_def strip_number number_is_valid_def)
  show "typed K val_ok (cast_eval env ty l)"
    unfolding cast_eval_def
    by (cases ty)
      (auto intro!: typed_vbind[OF assms] typed_bind[OF typed_var_number] typed_bind[OF typed_plain_value]
        typed_bind[OF typed_var_record] typed_bind[OF typed_var_string] typed_ret
        intro: round_is_number real record_ok_mono scalar_ok_mono)
qed

section \<open>SQL and generators\<close>

lemma typed_test_destroy: "typed K any (test_destroy env)"
  by (rule typedI) (auto simp: test_destroy_def st_ok_def kinds_def)

lemma typed_run_query: "typed K any (run_query env stmt)"
proof -
  have "typed L any (wait_query env)" for L
    by (rule typedI) (auto dest!: wait_query_state simp: st_ok_def kinds_def)
  then show ?thesis
    unfolding run_query_def
    by (auto intro!: typed_bind[OF typed_reads] typed_bind[OF typed_modifies] typed_bind[where P = any]
        typed_ret typed_modifies simp: st_ok_def kinds_def)
qed

lemma typed_report: "typed K any (report cout text)"
proof -
  have "typed L any lock_output" for L
    by (rule typedI) (auto simp: lock_output_def st_ok_def kinds_def split: if_splits)
  then show ?thesis
    unfolding report_def emit_def unlock_output_def
    by (cases cout)
      (auto simp: prog_simps intro!: typed_ret typed_bind[where P = any] typed_modifies simp: st_ok_def kinds_def)
qed

lemma expand_vars_state:
  assumes "expand_vars env stmt s = Some y" "st_ok s"
  shows "st_ok (snd y) \<and> prefix (kinds s) (kinds (snd y))"
proof -
  let ?P = "\<lambda>(env::pgs_env) (stmt::string) s (y :: (pgsException + string) \<times> pgs_state). st_ok s \<longrightarrow> st_ok (snd y) \<and> prefix (kinds s) (kinds (snd y))"
  have "?P env stmt s y"
  proof (rule expand_vars.raw_induct[where P = ?P, OF _ assms(1)])
    fix f :: "pgs_env \<Rightarrow> string \<Rightarrow> pgs_state \<Rightarrow> ((pgsException + string) \<times> pgs_state) option"
      and env stmt s y
    assume IH: "\<And>env stmt s y. f env stmt s = Some y \<Longrightarrow> ?P env stmt s y"
    assume step: "(case find_identifier stmt of
        None \<Rightarrow> ret stmt s
      | Some (before, chr, var, after) \<Rightarrow>
          (case ps_vars s var of
             Some v \<Rightarrow>
               bind_prog (var_value env v) (\<lambda>res.
                 f env (before @ expand_groups (match_groups chr var) (chr # escape_quotes res) @ after)) s
           | None \<Rightarrow>
               f env (before @ expand_groups (match_groups chr var)
                 (chr # back_slash # back_slash # var) @ after) s)) = Some y"
    show "?P env stmt s y"
    proof
      assume ok: "st_ok s"
      consider "y = (Inr stmt, s)" | stmt' where "f env stmt' s = Some y"
        | n v k where "ps_vars s n = Some v" "bind_prog (var_value env v) (\<lambda>r. f env (k r)) s = Some y"
        using step by (auto simp: ret_def split: option.splits)
      then show "st_ok (snd y) \<and> prefix (kinds s) (kinds (snd y))"
      proof cases
        case 1
        then show ?thesis using ok by simp
      next
        case 2
        then show ?thesis using IH ok by blast
      next
        case 3
        have x: "val_ok (kinds s) v" using ok 3(1) by (auto simp: st_ok_def)
        obtain r t where y: "y = (r, t)" by (cases y)
        from 3(2)[unfolded y] show ?thesis
        proof (cases rule: bind_cases)
          case (inl e)
          then show ?thesis using typedD[OF typed_var_value[OF x] ok prefix_order.refl] y by auto
        next
          case (inr z u)
          then have u: "st_ok u" "prefix (kinds s) (kinds u)"
            using typedD[OF typed_var_value[OF x] ok prefix_order.refl] by auto
          then show ?thesis using IH[OF inr(2)] y prefix_order.trans by auto
        qed
      qed
    qed
  qed
  then show ?thesis using assms(2) by simp
qed

lemma typed_expand_vars: "typed K any (expand_vars env stmt)"
  by (rule typedI) (auto dest!: expand_vars_state)

lemma typed_cell_ok: "scalar_ok K (typed_cell ty v)"
  by (auto simp: typed_cell_def mk_number_def number_is_valid_def strip_number)

lemma name_columns_ok: "record_ok K r \<Longrightarrow> record_ok K (name_columns i ns r)"
  by (induction ns arbitrary: i r) (auto intro: record_ok_name)

lemma load_set_ok: "load_set columns rows = Some r \<Longrightarrow> record_ok K r"
  unfolding load_set_def
  by (erule fill_lines_ok[OF name_columns_ok[OF record_ok_new], rotated])
    (auto simp: typed_cell_ok dest!: set_zip_leftD set_zip_rightD in_set_zipE)

lemma one_record_ok: "record_ok K one_record"
proof -
  have "scalar_ok K (mk_number False ''1'')" using flag_ok[of K True] by (simp add: flag_def)
  then show ?thesis unfolding one_record_def by (rule record_ok_cell)
qed

lemma vtyped_execute_stmt: "vtyped (execute_stmt env cout q)"
  unfolding execute_stmt_def Let_def vtyped_def
  by (auto intro!: typed_bind[OF typed_test_destroy] typed_bind[OF typed_run_query] typed_bind[OF typed_report]
      typed_ret typed_never record_ok_new one_record_ok load_set_ok split: option.split)

lemma vtyped_execute: "vtyped (execute_eval env cout q)"
  unfolding execute_eval_def vtyped_def
  by (auto intro!: typed_bind[OF typed_expand_vars] vtypedD[OF vtyped_execute_stmt])

lemma vtyped_own_query: "vtyped (own_query env q)"
  using vtyped_execute_stmt by (auto simp: own_query_def vtyped_def intro: typed_never split: option.split)

lemma typed_new_gen: "gen_kind g = t \<Longrightarrow> typed K val_ok (new_gen t g)"
  unfolding new_gen_def bind_reads
  by (rule typedI)
    (auto simp: bind_prog_def reads_def modifies_def ret_def st_ok_def kinds_def nth_append
      intro: val_ok_mono[OF _ prefixI[OF refl]])

lemma typed_bad_parameter: "typed K P (bad_parameter txt msg)"
  by (simp add: bad_parameter_def typed_throw)

lemmas typed_parameters = typed_bind[OF typed_long_of] typed_bind[OF typed_num_of] typed_if
  typed_bad_parameter typed_new_gen

lemma vtyped_gen_int:
  assumes "vtyped a" "vtyped b" "vtyped c" "vtyped d"
  shows "vtyped (gen_int_eval env txt a b c d)"
  unfolding gen_int_eval_def vtyped_def
  by (auto intro!: typed_vbind[OF assms(1)] typed_vbind[OF assms(2)] typed_vbind[OF assms(3)]
      typed_vbind[OF assms(4)] typed_parameters)
    (assumption | erule val_ok_mono[rotated])+

lemma vtyped_gen_real:
  assumes "vtyped a" "vtyped b" "vtyped c" "vtyped d" "vtyped e"
  shows "vtyped (gen_real_eval env txt a b c d e)"
  unfolding gen_real_eval_def vtyped_def
  by (auto intro!: typed_vbind[OF assms(1)] typed_vbind[OF assms(2)] typed_vbind[OF assms(3)]
      typed_vbind[OF assms(4)] typed_vbind[OF assms(5)] typed_parameters)
    (assumption | erule val_ok_mono[rotated])+

lemma vtyped_gen_string:
  assumes "vtyped a" "vtyped b" "vtyped c" "vtyped d"
  shows "vtyped (gen_string_eval env txt a b c d)"
  unfolding gen_string_eval_def vtyped_def
  by (auto intro!: typed_vbind[OF assms(1)] typed_vbind[OF assms(2)] typed_vbind[OF assms(3)]
      typed_vbind[OF assms(4)] typed_parameters)
    (assumption | erule val_ok_mono[rotated])+

lemma typed_parse_bounds:
  assumes "val_ok K mn" "val_ok K mx"
  shows "typed K any (parse_bounds env parse mn mx)"
  unfolding parse_bounds_def
  by (auto intro!: typed_bind[OF typed_var_value[OF assms(1)]] typed_bind[OF typed_var_value]
      typed_ret val_ok_mono[OF assms(2)] split: option.split)

lemma vtyped_gen_calendar:
  assumes "vtyped a" "vtyped b" "vtyped c" "vtyped d" "\<And>mn mx sq sd. gen_kind (mk mn mx sq sd) = pgsTString"
  shows "vtyped (gen_calendar_eval env txt parse invalid mk a b c d)"
  unfolding gen_calendar_eval_def vtyped_def
  by (auto intro!: typed_vbind[OF assms(1)] typed_vbind[OF assms(2)] typed_vbind[OF assms(3)]
      typed_vbind[OF assms(4)] typed_bind[OF typed_parse_bounds] typed_parameters assms(5)
      split: option.split)
    (assumption | erule val_ok_mono[rotated])+

lemma vtyped_gen_instant:
  assumes "vtyped a" "vtyped b" "vtyped c" "vtyped d"
  shows "vtyped (gen_date_eval env txt a b c d)" "vtyped (gen_time_eval env txt a b c d)"
    "vtyped (gen_date_time_eval env txt a b c d)"
  unfolding gen_date_eval_def gen_time_eval_def gen_date_time_eval_def
  by (rule vtyped_gen_calendar[OF assms], simp)+

lemma vtyped_gen_dictionary:
  assumes "vtyped a" "vtyped b" "vtyped c" "vtyped d"
  shows "vtyped (gen_dictionary_eval env txt a b c d)"
  unfolding gen_dictionary_eval_def vtyped_def
  by (auto intro!: typed_vbind[OF assms(1)] typed_vbind[OF assms(2)] typed_vbind[OF assms(3)]
      typed_vbind[OF assms(4)] typed_parameters typed_bind[OF typed_var_value])
    (assumption | erule val_ok_mono[rotated])+

lemma vtyped_gen_regex:
  assumes "vtyped a" "vtyped b"
  shows "vtyped (gen_regex_eval env txt a b)"
  unfolding gen_regex_eval_def vtyped_def
  by (auto intro!: typed_vbind[OF assms(1)] typed_vbind[OF assms(2)] typed_parameters typed_bind[OF typed_var_value]
      split: option.split)
    (assumption | erule val_ok_mono[rotated])+

lemma typed_nonempty: "val_ok K v \<Longrightarrow> typed K any (nonempty_string env v)"
  unfolding nonempty_string_def by (auto intro!: typed_bind[OF typed_var_value] typed_ret)

lemma typed_new_reference: "typed K any (new_reference env table column sequence seed)"
proof -
  have n: "typed L any (if value \<noteq> [] then bind_prog (var_number env v) (\<lambda>x. ret (mapm_int (num (cell_data x)))) else ret 0)"
    if "val_ok L v" for L v and "value" :: string
    using that by (auto intro!: typed_bind[OF typed_var_number] typed_ret)
  show ?thesis
    unfolding new_reference_def
    by (intro typed_vbind[OF vtyped_own_query] typed_bind[OF typed_var_value] typed_bind[OF n] typed_ret TrueI)
      (auto elim: val_ok_mono)
qed

lemma typed_check_query: "val_ok K t \<Longrightarrow> val_ok K c \<Longrightarrow> typed K val_ok (check_query env t c)"
  unfolding check_query_def
  by (auto intro!: typed_bind[OF typed_var_value] vtypedD[OF vtyped_execute] elim: val_ok_mono)

lemma typed_refused: "val_ok K t \<Longrightarrow> val_ok K c \<Longrightarrow> typed K P (reference_refused env txt t c sq)"
  unfolding reference_refused_def
  by (auto intro!: typed_bind[OF typed_nonempty] typed_bad_parameter elim: val_ok_mono)

lemma vtyped_gen_reference:
  assumes "vtyped a" "vtyped b" "vtyped c" "vtyped d"
  shows "vtyped (gen_reference_eval env txt a b c d)"
proof -
  have n: "typed L any (if t then nonempty_string env v else ret False)" if "val_ok L v" for L t v
    using that by (auto intro: typed_nonempty typed_ret)
  show ?thesis
    unfolding gen_reference_eval_def vtyped_def
    by (intro allI typed_vbind[OF assms(1)] typed_vbind[OF assms(2)] typed_vbind[OF assms(3)]
        typed_vbind[OF assms(4)] typed_bind[OF typed_nonempty] typed_bind[OF n] typed_refused
        typed_bind[OF typed_check_query] typed_bind[OF typed_is_true] typed_bind[OF typed_var_value]
        typed_bind[OF typed_new_reference] typed_parameters)
      (assumption | erule val_ok_mono[rotated] | simp)+
qed

section \<open>The evaluator\<close>

text \<open>The literals the scanner produces are valid.\<close>

fun expr_ok :: "expr \<Rightarrow> bool" where
  "expr_ok (Literal x) = scalar_ok [] x"
| "expr_ok (pgsIdentRecord n l c) =
     (expr_ok l \<and> (case c of None \<Rightarrow> True | Some e \<Rightarrow> expr_ok e))"
| "expr_ok (pgsAssign n e) = expr_ok e"
| "expr_ok (pgsAssignToRecord n l c e) = (expr_ok l \<and> expr_ok c \<and> expr_ok e)"
| "expr_ok (pgsAnd l r) = (expr_ok l \<and> expr_ok r)"
| "expr_ok (pgsOr l r) = (expr_ok l \<and> expr_ok r)"
| "expr_ok (Binary b l r) = (expr_ok l \<and> expr_ok r)"
| "expr_ok (pgsNegate e) = expr_ok e"
| "expr_ok (pgsNot e) = expr_ok e"
| "expr_ok (pgsParenthesis e) = expr_ok e"
| "expr_ok (pgsCast t e) = expr_ok e"
| "expr_ok (pgsTrim e) = expr_ok e"
| "expr_ok (pgsRemoveLine n e) = expr_ok e"
| "expr_ok (pgsGenInt a b c d) = (expr_ok a \<and> expr_ok b \<and> expr_ok c \<and> expr_ok d)"
| "expr_ok (pgsGenReal a b c d e) = (expr_ok a \<and> expr_ok b \<and> expr_ok c \<and> expr_ok d \<and> expr_ok e)"
| "expr_ok (pgsGenString a b c d) = (expr_ok a \<and> expr_ok b \<and> expr_ok c \<and> expr_ok d)"
| "expr_ok (pgsGenDate a b c d) = (expr_ok a \<and> expr_ok b \<and> expr_ok c \<and> expr_ok d)"
| "expr_ok (pgsGenTime a b c d) = (expr_ok a \<and> expr_ok b \<and> expr_ok c \<and> expr_ok d)"
| "expr_ok (pgsGenDateTime a b c d) = (expr_ok a \<and> expr_ok b \<and> expr_ok c \<and> expr_ok d)"
| "expr_ok (pgsGenDictionary a b c d) = (expr_ok a \<and> expr_ok b \<and> expr_ok c \<and> expr_ok d)"
| "expr_ok (pgsGenRegex a b) = (expr_ok a \<and> expr_ok b)"
| "expr_ok (pgsGenReference a b c d) = (expr_ok a \<and> expr_ok b \<and> expr_ok c \<and> expr_ok d)"
| "expr_ok _ = True"

lemma vtyped_eval:
  assumes "env_ok env"
  shows "expr_ok e \<Longrightarrow> vtyped (eval env e)"
proof (induction e)
  case (Literal x)
  then show ?case by (auto simp: vtyped_def intro!: typed_ret intro: scalar_ok_mono[OF _ Nil_prefix])
next
  case (pgsIdentRecord n l c)
  then show ?case by (cases c) (auto intro!: vtyped_ident_record)
qed (auto intro!: vtyped_ident vtyped_assign vtyped_assign_to_record vtyped_and vtyped_or
    vtyped_binary[OF assms] vtyped_negate[OF assms] vtyped_not vtyped_cast vtyped_columns
    vtyped_lines vtyped_trim vtyped_remove_line vtyped_execute vtyped_gen_int vtyped_gen_real
    vtyped_gen_string vtyped_gen_instant vtyped_gen_dictionary vtyped_gen_regex vtyped_gen_reference)

end
