(* ===== verification/PgsQuery.thy ===== *)
theory PgsQuery
  imports PgsSound
begin

text \<open>
  The substitution of variables in SQL text by \<open>PgsExecute\<close>: what is found and what is inserted.
\<close>

section \<open>What a substitution inserts\<close>

definition single_quote :: char where "single_quote = CHR 0x27"

lemma expand_escaped:
  "CHR ''&'' \<notin> set s \<Longrightarrow> expand_groups g (escape_quotes s) = replace_all [single_quote] [single_quote, single_quote] s"
proof (induction s)
  case Nil
  then show ?case by (simp add: escape_quotes_def)
next
  case (Cons c s)
  have q: "CHR 0x27 \<noteq> back_slash" "\<not> is_digit back_slash"
    by (simp_all add: back_slash_def is_digit_def)
  have e: "escape_quotes (c # s) =
      (if c = back_slash then [back_slash, back_slash]
       else if c = CHR 0x27 then [CHR 0x27, CHR 0x27] else [c]) @ escape_quotes s"
    using q by (simp add: escape_quotes_def replace_all_1)
  show ?case
    using Cons q unfolding e
    by (auto simp: expand_groups.simps(2) single_quote_def)
qed

section \<open>Identifiers\<close>

lemma find_identifier_split:
  "find_identifier s = Some (p, c, v, a) \<Longrightarrow>
   s = p @ c # v @ a \<and> c \<noteq> back_slash \<and> (\<exists>w. v = CHR ''@'' # w) \<and> (a = [] \<or> hd a \<noteq> CHR ''@'')"
proof (induction s arbitrary: p rule: find_identifier.induct)
  case (1 c' a' d s)
  show ?case
  proof (cases "c' \<noteq> back_slash \<and> a' = CHR ''@'' \<and> is_id_char d")
    case True
    have "is_id_char CHR ''@''" by (simp add: is_id_char_def)
    then have "dropWhile is_id_char (d # s) = [] \<or> hd (dropWhile is_id_char (d # s)) \<noteq> CHR ''@''"
      by (metis hd_dropWhile)
    then show ?thesis using True 1(2) by auto
  next
    case False
    then show ?thesis using 1 by (auto simp: False)
  qed
qed auto

definition tame :: "string \<Rightarrow> bool" where
  "tame s \<longleftrightarrow> CHR ''@'' \<notin> set s \<and> CHR ''&'' \<notin> set s"

lemma expand_step_known:
  assumes "tame x" "c \<noteq> back_slash" "c \<noteq> CHR ''&''"
  shows "expand_groups g (c # escape_quotes x) =
    c # replace_all [single_quote] [single_quote, single_quote] x"
  using assms expand_escaped[of x g] by (simp add: expand_groups.simps(2) tame_def)

lemma expand_plain: "CHR ''&'' \<notin> set v \<Longrightarrow> back_slash \<notin> set v \<Longrightarrow> expand_groups g v = v"
  by (induction v) (auto simp: expand_groups.simps(2))

lemma id_chars: "is_id_char c \<Longrightarrow> c \<noteq> CHR ''&'' \<and> c \<noteq> back_slash"
  by (auto simp: is_id_char_def is_digit_cases Let_def back_slash_def)

lemma find_identifier_var:
  "find_identifier s = Some (p, c, v, a) \<Longrightarrow> CHR ''&'' \<notin> set v \<and> back_slash \<notin> set v"
proof (induction s arbitrary: p rule: find_identifier.induct)
  case (1 c' a' d s)
  have "CHR ''@'' \<noteq> CHR ''&'' \<and> CHR ''@'' \<noteq> back_slash" by (simp add: back_slash_def)
  then show ?case using 1 by (auto split: if_splits dest!: set_takeWhileD id_chars)
qed auto

lemma expand_step_unknown:
  assumes "find_identifier s = Some (p, c, v, a)" "c \<noteq> CHR ''&''"
  shows "expand_groups g (c # back_slash # back_slash # v) = c # back_slash # v"
proof -
  have "c \<noteq> back_slash" using find_identifier_split[OF assms(1)] by blast
  moreover have "\<not> is_digit back_slash" by (simp add: back_slash_def is_digit_def)
  ultimately show ?thesis
    using expand_plain[of v g] find_identifier_var[OF assms(1)] assms(2)
    by (simp add: expand_groups.simps(2))
qed

lemma quotes_doubled_set: "set (replace_all [single_quote] [single_quote, single_quote] x) = set x"
  by (auto simp: replace_all_1 split: if_splits)

end
