(* ===== verification/PgsSubst.thy ===== *)
theory PgsSubst
  imports PgsQuery
begin

text \<open>
  The substitution loop of \<open>pgsExecute::eval\<close> restarts its search at the beginning of the text after
  each replacement. For variables whose values hold no \<open>@\<close> it computes what one pass from left to
  right computes.
\<close>

section \<open>One pass\<close>

lemma find_identifier_shorter: "find_identifier s = Some (p, c, v, a) \<Longrightarrow> length a < length s"
  by (drule find_identifier_split) auto

function one_pass :: "(string \<Rightarrow> string) \<Rightarrow> string \<Rightarrow> string" where
  "one_pass g s =
     (case find_identifier s of
        None \<Rightarrow> s
      | Some (p, c, v, a) \<Rightarrow> p @ c # g v @ one_pass g a)"
  by pat_completeness auto
termination
  by (relation "measure (\<lambda>(g, s). length s)") (auto simp: find_identifier_shorter)

declare one_pass.simps [simp del]

definition quoted_value :: "pgs_state \<Rightarrow> string \<Rightarrow> string option" where
  "quoted_value s v =
     (case ps_vars s v of
        Some (Scalar x) \<Rightarrow> Some (replace_all [single_quote] [single_quote, single_quote] (cell_data x))
      | _ \<Rightarrow> None)"

text \<open>The identifiers that one pass finds.\<close>

function identifiers :: "string \<Rightarrow> string list" where
  "identifiers t =
     (case find_identifier t of
        None \<Rightarrow> []
      | Some (p, c, v, a) \<Rightarrow> v # identifiers a)"
  by pat_completeness auto
termination
  by (relation "measure length") (auto simp: find_identifier_shorter)

declare identifiers.simps [simp del]

text \<open>An identifier that the loop treats as one pass does: the name of a number or a string without \<open>@\<close>, \<open>&\<close> and back
  slash, or of nothing, and then with one \<open>@\<close> only.\<close>

definition substitutable :: "pgs_state \<Rightarrow> string \<Rightarrow> bool" where
  "substitutable s v \<longleftrightarrow>
     (case ps_vars s v of
        None \<Rightarrow> CHR ''@'' \<notin> set (tl v)
      | Some (Scalar x) \<Rightarrow> plain x \<and> tame (cell_data x) \<and> back_slash \<notin> set (cell_data x)
      | Some _ \<Rightarrow> False)"

lemma identifiers_found:
  "find_identifier t = Some (p, c, v, a) \<Longrightarrow>
    list_all (substitutable s) (identifiers t) \<longleftrightarrow> substitutable s v \<and> list_all (substitutable s) (identifiers a)"
  by (subst identifiers.simps) simp

section \<open>Settled text\<close>

text \<open>Text in which the search finds nothing any more, whatever follows it.\<close>

definition settled :: "string \<Rightarrow> bool" where
  "settled p \<longleftrightarrow> find_identifier (p @ [CHR ''x'']) = None"

abbreviation no_mark :: "string \<Rightarrow> bool" where
  "no_mark a \<equiv> a = [] \<or> hd a \<noteq> CHR ''@''"

lemma settled_find:
  "settled p \<Longrightarrow> p = [] \<or> no_mark a \<Longrightarrow>
   find_identifier (p @ a) = map_option (\<lambda>(q, r). (p @ q, r)) (find_identifier a)"
proof (induction p)
  case Nil
  then show ?case by (cases "find_identifier a") auto
next
  case (Cons c p)
  have x: "is_id_char CHR ''x''" by code_simp
  show ?case
  proof (cases p)
    case Nil
    then show ?thesis
      using Cons.prems by (cases a; cases "tl a") (auto simp: option.map_comp comp_def case_prod_beta')
  next
    case (Cons d q)
    have s: "settled p"
      using Cons Cons.prems(1) by (cases q) (auto simp: settled_def split: if_splits)
    have no: "\<not> (c \<noteq> back_slash \<and> d = CHR ''@'' \<and> (q = [] \<or> is_id_char (hd q)))"
      using Cons Cons.prems(1) x by (cases q) (auto simp: settled_def split: if_splits)
    have "find_identifier (c # p @ a) = map_option (\<lambda>(r, s). (c # r, s)) (find_identifier (p @ a))"
      using Cons no by (cases q; cases a; cases "tl a") auto
    then show ?thesis
      using Cons.IH[OF s] Cons.prems(2) by (simp add: option.map_comp comp_def case_prod_beta')
  qed
qed

lemma find_none_append:
  "find_identifier s = Some (p, c, v, a) \<Longrightarrow> no_mark y \<Longrightarrow>
   find_identifier (p @ c # y) = map_option (\<lambda>(q, r). (p @ c # q, r)) (find_identifier y)"
proof (induction s arbitrary: p rule: find_identifier.induct)
  case (1 c' a' d s)
  show ?case
  proof (cases "c' \<noteq> back_slash \<and> a' = CHR ''@'' \<and> is_id_char d")
    case True
    then show ?thesis
      using 1(2,3) by (cases y; cases "tl y") (auto simp: case_prod_beta' option.map_comp comp_def)
  next
    case False
    then obtain q where q: "find_identifier (a' # d # s) = Some (q, c, v, a)" "p = c' # q"
      using 1(2) by auto
    from find_identifier_split[OF q(1)] have s: "a' # d # s = q @ c # v @ a" "\<exists>w. v = CHR ''@'' # w" by auto
    have "\<not> (c' \<noteq> back_slash \<and> hd (q @ [c]) = CHR ''@'' \<and> is_id_char (hd (tl (q @ c # y))))"
      if "q @ c # y = x1 # x2 # x3" for x1 x2 x3
    proof (cases q)
      case Nil
      then have "d = CHR ''@''" "a' = c" using s by auto
      moreover have "is_id_char CHR ''@''" by code_simp
      ultimately show ?thesis using False Nil by auto
    next
      case (Cons e r)
      show ?thesis
      proof (cases r)
        case Nil
        then show ?thesis using False Cons s by auto
      next
        case (Cons f t)
        then show ?thesis using False \<open>q = e # r\<close> s by auto
      qed
    qed
    then have "find_identifier (c' # q @ c # y) =
        map_option (\<lambda>(r, s). (c' # r, s)) (find_identifier (q @ c # y))"
      by (cases q; cases "tl q"; cases y) (auto simp: case_prod_beta')
    then show ?thesis
      using 1(1)[OF False q(1) 1(3)] q(2) by (simp add: option.map_comp comp_def case_prod_beta')
  qed
qed auto

lemma find_plain_tl: "CHR ''@'' \<notin> set (tl x) \<Longrightarrow> find_identifier x = None"
  by (induction x rule: find_identifier.induct) auto

lemma find_plain: "CHR ''@'' \<notin> set x \<Longrightarrow> find_identifier x = None"
  by (rule find_plain_tl) (cases x, auto)

lemma settled_value:
  assumes "settled p" "p = [] \<or> no_mark s" "find_identifier s = Some (q, c, v, a)"
    and "CHR ''@'' \<notin> set x \<or> (\<exists>w. x = back_slash # CHR ''@'' # w \<and> CHR ''@'' \<notin> set w)"
  shows "settled (p @ q @ c # x)"
proof -
  have "no_mark (x @ [CHR ''x''])" using assms(4) by (cases x) (auto simp: back_slash_def)
  moreover have "find_identifier (x @ [CHR ''x'']) = None"
    using assms(4)
  proof
    assume "\<exists>w. x = back_slash # CHR ''@'' # w \<and> CHR ''@'' \<notin> set w"
    then obtain w where w: "x = back_slash # CHR ''@'' # w" "CHR ''@'' \<notin> set w" by blast
    then have "find_identifier (CHR ''@'' # w @ [CHR ''x'']) = None" by (intro find_plain_tl) auto
    then show ?thesis using w by (cases "w @ [CHR ''x'']") auto
  qed (simp add: find_plain)
  ultimately have f: "find_identifier (q @ c # x @ [CHR ''x'']) = None"
    using find_none_append[OF assms(3)] by simp
  have "p = [] \<or> no_mark (q @ c # x @ [CHR ''x''])"
    using assms(2) find_identifier_split[OF assms(3)] by (cases q) auto
  then show ?thesis
    using settled_find[OF assms(1)] f by (simp add: settled_def)
qed

section \<open>The loop is one pass\<close>

text \<open>What the loop inserts, and what remains of it after \<open>unescape\<close>.\<close>

definition loop_value :: "pgs_state \<Rightarrow> string \<Rightarrow> string" where
  "loop_value s v = (case quoted_value s v of Some x \<Rightarrow> x | None \<Rightarrow> back_slash # v)"

definition final_value :: "pgs_state \<Rightarrow> string \<Rightarrow> string" where
  "final_value s v = (case quoted_value s v of Some x \<Rightarrow> x | None \<Rightarrow> v)"

lemma expand_vars_step:
  assumes "substitutable s v" "CHR ''&'' \<notin> set t" "find_identifier t = Some (p, c, v, a)"
  shows "expand_vars env t s = expand_vars env (p @ c # loop_value s v @ a) s"
proof -
  from find_identifier_split[OF assms(3)] have t: "t = p @ c # v @ a" "c \<noteq> back_slash" by auto
  then have c: "c \<noteq> CHR ''&''" using assms(2) by auto
  show ?thesis
  proof (cases "ps_vars s v")
    case None
    then show ?thesis
      by (subst expand_vars.simps)
        (simp add: assms(3) loop_value_def quoted_value_def expand_step_unknown[OF assms(3) c])
  next
    case (Some y)
    then obtain x where x: "y = Scalar x" "plain x" "tame (cell_data x)"
      using assms(1) by (auto simp: substitutable_def split: pgsVariable.splits)
    then show ?thesis
      by (subst expand_vars.simps)
        (simp add: assms(3) Some value_plain[OF x(2)] prog_simps expand_step_known[OF x(3) t(2) c]
          loop_value_def quoted_value_def)
  qed
qed

lemma loop_value_ok:
  assumes "substitutable s v" "find_identifier t = Some (p, c, v, a)"
  shows "CHR ''@'' \<notin> set (loop_value s v)
      \<or> (\<exists>w. loop_value s v = back_slash # CHR ''@'' # w \<and> CHR ''@'' \<notin> set w)"
    "CHR ''&'' \<notin> set (loop_value s v)"
    "quoted_value s v = Some x \<Longrightarrow> back_slash \<notin> set x"
proof -
  obtain w where w: "v = CHR ''@'' # w" using find_identifier_split[OF assms(2)] by blast
  have amp: "CHR ''&'' \<noteq> back_slash" "CHR ''&'' \<notin> set v" using find_identifier_var[OF assms(2)] by (simp_all add: back_slash_def)
  show "CHR ''@'' \<notin> set (loop_value s v)
      \<or> (\<exists>w. loop_value s v = back_slash # CHR ''@'' # w \<and> CHR ''@'' \<notin> set w)"
    using assms(1) w
    by (auto simp: substitutable_def loop_value_def quoted_value_def quotes_doubled_set tame_def
        split: option.splits pgsVariable.splits)
  show "CHR ''&'' \<notin> set (loop_value s v)"
    using assms(1) amp
    by (auto simp: substitutable_def loop_value_def quoted_value_def quotes_doubled_set tame_def
        split: option.splits pgsVariable.splits)
  show "quoted_value s v = Some x \<Longrightarrow> back_slash \<notin> set x"
    using assms(1)
    by (auto simp: substitutable_def quoted_value_def quotes_doubled_set split: option.splits pgsVariable.splits)
qed

lemma expand_one_pass:
  "settled p \<Longrightarrow> p = [] \<or> no_mark t \<Longrightarrow> CHR ''&'' \<notin> set (p @ t) \<Longrightarrow> list_all (substitutable s) (identifiers t) \<Longrightarrow>
    expand_vars env (p @ t) s = Some (Inr (p @ one_pass (loop_value s) t), s)"
proof (induction "length t" arbitrary: p t rule: less_induct)
  case less
  note f = settled_find[OF less.prems(1,2)]
  show ?case
  proof (cases "find_identifier t")
    case None
    then show ?thesis
      using f by (subst expand_vars.simps, subst one_pass.simps) (simp add: ret_def)
  next
    case (Some z)
    then obtain q c v a where z: "find_identifier t = Some (q, c, v, a)" by (cases z) auto
    let ?p = "p @ q @ c # loop_value s v"
    have v: "substitutable s v" "list_all (substitutable s) (identifiers a)"
      using less.prems(4) identifiers_found[OF z] by simp_all
    note ok = loop_value_ok[OF v(1) z]
    from find_identifier_split[OF z] have t: "t = q @ c # v @ a" "no_mark a" by auto
    have "expand_vars env (p @ t) s = expand_vars env (?p @ a) s"
      using f z by (subst expand_vars_step[OF v(1) less.prems(3)]) auto
    also have "\<dots> = Some (Inr (?p @ one_pass (loop_value s) a), s)"
    proof (rule less.hyps)
      show "length a < length t" by (rule find_identifier_shorter[OF z])
      show "settled ?p"
        by (rule settled_value[OF less.prems(1,2) z ok(1)])
      show "?p = [] \<or> no_mark a" using t by simp
      show "CHR ''&'' \<notin> set (?p @ a)" using less.prems(3) t ok(2) by auto
      show "list_all (substitutable s) (identifiers a)" by (rule v(2))
    qed
    finally show ?thesis by (subst one_pass.simps) (simp add: z)
  qed
qed

lemma unescape_no_slash: "back_slash \<notin> set u \<Longrightarrow> unescape (u @ z) = u @ unescape z"
proof (induction u)
  case (Cons c u)
  then show ?case by (cases "u @ z") auto
qed simp

lemma unescape_id: "back_slash \<notin> set u \<Longrightarrow> unescape u = u"
  using unescape_no_slash[of u "[]"] by simp

lemma unescape_one_pass:
  "back_slash \<notin> set t \<Longrightarrow> list_all (substitutable s) (identifiers t) \<Longrightarrow> unescape (one_pass (loop_value s) t) = one_pass (final_value s) t"
proof (induction "length t" arbitrary: t rule: less_induct)
  case less
  show ?case
  proof (cases "find_identifier t")
    case None
    then show ?thesis
      using less.prems by (subst (1 2) one_pass.simps) (simp add: unescape_id)
  next
    case (Some z)
    then obtain q c v a where z: "find_identifier t = Some (q, c, v, a)" by (cases z) auto
    from find_identifier_split[OF z] obtain w where
      t: "t = q @ c # v @ a" "v = CHR ''@'' # w" by auto
    have IH: "unescape (one_pass (loop_value s) a) = one_pass (final_value s) a"
      using less t find_identifier_shorter[OF z] identifiers_found[OF z] by auto
    have v: "substitutable s v" using less.prems(2) identifiers_found[OF z] by simp
    have w: "back_slash \<notin> set w" "c \<noteq> back_slash" "back_slash \<notin> set q" using less.prems t by auto
    have "unescape (loop_value s v @ r) = final_value s v @ unescape r" for r
      using loop_value_ok(3)[OF v z] t(2) w unescape_no_slash[of w r] unescape_no_slash[of _ r]
      by (auto simp: loop_value_def final_value_def split: option.split)
    then show ?thesis
      using IH w unescape_no_slash[of "q @ [c]"]
      by (subst (1 2) one_pass.simps) (simp add: z)
  qed
qed

section \<open>Properties\<close>

definition with_vars :: "(string \<Rightarrow> pgsVariable option) \<Rightarrow> pgs_state" where
  "with_vars vs = (state_with [])\<lparr>ps_vars := vs\<rparr>"

text \<open>C15. Take a query without \<open>&\<close> and back slash, in which every identifier is the name of a number or a string that
  holds no \<open>@\<close>, \<open>&\<close> or back slash, or of no variable, and then has one \<open>@\<close> only. The loop over it ends,
  leaves the state alone and gives the text in which, in one pass from left to right, every identifier with a value
  is replaced by that value with its single quotes doubled, and every other identifier is kept.\<close>

theorem substitution_one_pass:
  assumes "list_all (substitutable s) (identifiers q)" "CHR ''&'' \<notin> set q" "back_slash \<notin> set q"
  shows "\<exists>e. expand_vars env q s = Some (Inr e, s) \<and> unescape e = one_pass (final_value s) q"
proof -
  have "settled []" by (simp add: settled_def)
  then have "expand_vars env ([] @ q) s = Some (Inr ([] @ one_pass (loop_value s) q), s)"
    using assms by (intro expand_one_pass) auto
  then show ?thesis using unescape_one_pass[OF assms(3,1)] by simp
qed

definition quote_example :: pgs_state where
  "quote_example = with_vars [''@A'' \<mapsto> Scalar (PgsString [CHR ''i'', CHR ''t'', CHR 0x27, CHR ''s''])]"

lemma find_example:
  "find_identifier ''f(@A, @B);'' = Some (''f'', CHR ''('', ''@A'', '', @B);'')"
  "find_identifier '', @B);'' = Some ('','', CHR '' '', ''@B'', '');'')"
  "find_identifier '');'' = None"
  by code_simp+

theorem substitution_one_pass_witness:
  "\<forall>env. \<exists>e. expand_vars env ''f(@A, @B);'' quote_example = Some (Inr e, quote_example)
     \<and> unescape e = ''f(it'' @ [CHR 0x27, CHR 0x27] @ ''s, @B);''"
proof
  fix env
  have q: "quoted_value quote_example ''@A'' = Some [CHR ''i'', CHR ''t'', CHR 0x27, CHR 0x27, CHR ''s'']"
    "\<And>v. v \<noteq> ''@A'' \<Longrightarrow> quoted_value quote_example v = None"
    by (auto simp: quote_example_def with_vars_def quoted_value_def replace_all_1 single_quote_def)
  have "one_pass (final_value quote_example) ''f(@A, @B);'' = ''f(it'' @ [CHR 0x27, CHR 0x27] @ ''s, @B);''"
    by (subst one_pass.simps, subst find_example, simp, subst one_pass.simps, subst find_example, simp,
        subst one_pass.simps, subst find_example) (simp add: final_value_def q)
  moreover have "substitutable quote_example ''@A''" "substitutable quote_example ''@B''"
    by (simp_all add: substitutable_def quote_example_def with_vars_def tame_def back_slash_def)
  then have "list_all (substitutable quote_example) (identifiers ''f(@A, @B);'')"
    by (subst identifiers.simps, subst find_example, simp, subst identifiers.simps, subst find_example,
        simp, subst identifiers.simps, subst find_example) simp
  moreover have "CHR ''&'' \<notin> set ''f(@A, @B);'' \<and> back_slash \<notin> set ''f(@A, @B);''"
    by (simp add: back_slash_def)
  ultimately show "\<exists>e. expand_vars env ''f(@A, @B);'' quote_example = Some (Inr e, quote_example)
     \<and> unescape e = ''f(it'' @ [CHR 0x27, CHR 0x27] @ ''s, @B);''"
    using substitution_one_pass[of quote_example "''f(@A, @B);''" env] by auto
qed

lemma identifier_chars: "find_identifier t = Some (p, c, v, a) \<Longrightarrow> list_all is_id_char v"
proof (induction t arbitrary: p rule: find_identifier.induct)
  case (1 c' a' d s)
  have "is_id_char CHR ''@''" by (simp add: is_id_char_def)
  then show ?case using 1 by (auto simp: list_all_iff split: if_splits dest: set_takeWhileD)
qed auto

lemma identifier_unquoted:
  assumes "find_identifier t = Some (p, c, v, a)"
  shows "escape_quotes v = v"
proof -
  have "\<not> is_id_char CHR 0x27" by code_simp
  then have "CHR 0x27 \<notin> set v" using identifier_chars[OF assms] by (auto simp: list_all_iff)
  moreover have "back_slash \<notin> set v" using find_identifier_var[OF assms] by simp
  ultimately show ?thesis by (induction v) (simp_all add: escape_quotes_def replace_all_1 back_slash_def)
qed

text \<open>C20. A variable whose value is its own name makes the loop of \<open>pgsExecute::eval\<close> run for ever, in every query in
  which its name is the first that is found, and not behind an \<open>&\<close>: the inserted name is found again.
  (A name at the very start of a query is not found.)\<close>

theorem self_reference_never_returns:
  assumes "find_identifier q = Some (p, c, v, a)" "c \<noteq> CHR ''&''" "ps_vars s v = Some (Scalar (PgsString v))"
  shows "expand_vars env q s = None"
proof -
  note split = find_identifier_split[OF assms(1)]
  have "expand_groups g v = v" for g using find_identifier_var[OF assms(1)] by (simp add: expand_plain)
  then have e: "expand_groups g (c # escape_quotes v) = c # v" for g
    using identifier_unquoted[OF assms(1)] assms(2) split by (simp add: expand_groups.simps(2))
  let ?P = "\<lambda>(env::pgs_env) t r (y :: (pgsException + string) \<times> pgs_state). \<not> (t = q \<and> r = s)"
  have "?P env t r y" if "expand_vars env t r = Some y" for t r y
  proof (rule expand_vars.raw_induct[where P = ?P, OF _ that])
    fix h :: "pgs_env \<Rightarrow> string \<Rightarrow> pgs_state \<Rightarrow> ((pgsException + string) \<times> pgs_state) option"
      and env stmt r y
    assume IH: "\<And>env stmt r y. h env stmt r = Some y \<Longrightarrow> ?P env stmt r y"
    assume step: "(case find_identifier stmt of
        None \<Rightarrow> ret stmt r
      | Some (before, chr, var, after) \<Rightarrow>
          (case ps_vars r var of
             Some v \<Rightarrow>
               bind_prog (var_value env v) (\<lambda>res.
                 h env (before @ expand_groups (match_groups chr var) (chr # escape_quotes res) @ after)) r
           | None \<Rightarrow>
               h env (before @ expand_groups (match_groups chr var)
                 (chr # back_slash # back_slash # var) @ after) r)) = Some y"
    show "?P env stmt r y"
    proof
      assume "stmt = q \<and> r = s"
      then have "h env q s = Some y" using step assms(1,3) e split by (simp add: prog_simps)
      then show False using IH by blast
    qed
  qed
  then show ?thesis by (metis option.exhaust)
qed

theorem self_reference_never_returns_witness:
  "\<forall>env. expand_vars env ''SELECT @A'' (with_vars [''@A'' \<mapsto> Scalar (PgsString ''@A'')]) = None"
proof
  fix env
  have "find_identifier ''SELECT @A'' = Some (''SELECT'', CHR '' '', ''@A'', [])" by code_simp
  then show "expand_vars env ''SELECT @A'' (with_vars [''@A'' \<mapsto> Scalar (PgsString ''@A'')]) = None"
    by (rule self_reference_never_returns) (simp_all add: with_vars_def)
qed

text \<open>The replacement text is not quoted for \<open>wxRegEx\<close>: an \<open>&\<close> in the value of a variable is
  replaced by the text that was matched. With \<open>R&D\<close> in \<open>@A\<close>, the query \<open>SELECT @A\<close> becomes
  \<open>SELECT R @AD\<close>. A doubled back slash loses one half.\<close>

theorem ampersand_in_value:
  "map_option (\<lambda>(r, s). map_sum id unescape r)
      (expand_vars env ''SELECT @A'' (with_vars [''@A'' \<mapsto> Scalar (PgsString ''R&D'')]))
    = Some (Inr ''SELECT R @AD'')
   \<and> map_option (\<lambda>(r, s). map_sum id unescape r)
      (expand_vars env ''SELECT @A'' (with_vars [''@A'' \<mapsto> Scalar (PgsString [CHR ''R'', back_slash, back_slash])]))
    = Some (Inr (''SELECT R'' @ [back_slash]))"
proof -
  have f: "find_identifier ''SELECT @A'' = Some (''SELECT'', CHR '' '', ''@A'', [])"
    "find_identifier ''SELECT R @AD'' = Some (''SELECT R'', CHR '' '', ''@AD'', [])"
    "find_identifier (''SELECT R '' @ back_slash # ''@AD'') = None"
    "find_identifier (''SELECT R'' @ [back_slash, back_slash]) = None"
    by code_simp+
  have g: "expand_groups (match_groups CHR '' '' ''@A'') (CHR '' '' # escape_quotes ''R&D'') = '' R @AD''"
    "expand_groups h (CHR '' '' # back_slash # back_slash # ''@AD'') = CHR '' '' # back_slash # ''@AD''"
    "expand_groups h (CHR '' '' # escape_quotes [CHR ''R'', back_slash, back_slash])
      = [CHR '' '', CHR ''R'', back_slash, back_slash]" for h
    by (simp_all add: expand_groups.simps(2) escape_quotes_def replace_all_1 back_slash_def match_groups_def
        is_digit_def)
  have u: "unescape (''SELECT R '' @ back_slash # ''@AD'') = ''SELECT R @AD''"
    "unescape (''SELECT R'' @ [back_slash, back_slash]) = ''SELECT R'' @ [back_slash]"
    by code_simp+
  let ?s = "\<lambda>x. with_vars [''@A'' \<mapsto> Scalar (PgsString x)]"
  have v: "ps_vars (?s x) ''@A'' = Some (Scalar (PgsString x))" "ps_vars (?s x) ''@AD'' = None" for x
    by (simp_all add: with_vars_def)
  have "expand_vars env ''SELECT @A'' (?s ''R&D'') = Some (Inr (''SELECT R '' @ back_slash # ''@AD''), ?s ''R&D'')"
    using f g v by (subst expand_vars.simps)
      (simp add: prog_simps, subst expand_vars.simps, simp, subst expand_vars.simps, simp add: ret_def)
  moreover have "expand_vars env ''SELECT @A'' (?s [CHR ''R'', back_slash, back_slash])
      = Some (Inr (''SELECT R'' @ [back_slash, back_slash]), ?s [CHR ''R'', back_slash, back_slash])"
    using f g v by (subst expand_vars.simps)
      (simp add: prog_simps, subst expand_vars.simps, simp add: ret_def)
  ultimately show ?thesis using u by simp
qed

end
