(* ===== verification/PgsEval.thy ===== *)
theory PgsEval
  imports PgsSubst
begin

text \<open>
  Properties of the evaluator: type soundness, the record loaded from a result set, reading back
  what was assigned to a cell.
\<close>

section \<open>Type soundness\<close>

text \<open>C18. Type soundness. Whatever an expression does, also when it throws, every variable and every
  value stays well formed: the text of each integer is the text of an integer, that of each real
  the text of a number (the assertion of \<open>pgsNumber\<close>), the lines of each record have its number of
  columns, and each generator value refers to a generator of its type.\<close>

theorem eval_sound:
  assumes "env_ok env" "expr_ok e" "st_ok s" "eval env e s = Some (r, t)"
  shows "st_ok t \<and> (\<forall>v. r = Inr v \<longrightarrow> val_ok (kinds t) v)"
  using typedD[OF vtypedD[OF vtyped_eval[OF assms(1,2)]] assms(3) prefix_order.refl assms(4)] by simp

definition idle_gens :: gen_env where
  "idle_gens =
     \<lparr>ge_recip_divide = (\<lambda>p a b. mapm_zero), ge_calendar = plain_calendar, ge_files = (\<lambda>p. None),
      ge_xml = (\<lambda>t. None)\<rparr>"

definition idle_env :: pgs_env where
  "idle_env = \<lparr>env_now = 0, env_connected = True, env_thread_ok = True, env_destroyed = (\<lambda>n. False),
     env_running = (\<lambda>n. False), env_query = (\<lambda>n q. \<lparr>qr_ok = True, qr_messages = [], qr_set = None\<rparr>),
     env_unset = 0, env_gens = idle_gens\<rparr>"

lemma idle_env_ok: "env_ok idle_env"
  by (simp add: env_ok_def idle_env_def idle_gens_def normal_ops)

lemma empty_state_ok: "st_ok (with_vars (\<lambda>n. None))"
  by (simp add: st_ok_def with_vars_def state_with_def)

theorem eval_sound_witness:
  "st_ok (snd (the (eval idle_env (pgsAssign ''@A'' (pgsParenthesis (Literal (PgsNumber False ''7''))))
     (with_vars (\<lambda>n. None)))))"
proof -
  let ?e = "pgsAssign ''@A'' (pgsParenthesis (Literal (PgsNumber False ''7'')))"
  have ok: "expr_ok ?e" by (simp add: number_is_valid_def num_type_def int_form_def skip_sign_def is_digit_def)
  obtain r t where "eval idle_env ?e (with_vars (\<lambda>n. None)) = Some (r, t)"
    by (simp add: assign_eval_def set_var_def run_simps prog_simps)
  then show ?thesis using eval_sound[OF idle_env_ok ok empty_state_ok] by simp
qed

section \<open>Result sets\<close>

definition column_name :: "string \<Rightarrow> string" where
  "column_name n = str_lower (strip_both n)"

lemma name_columns_names:
  "rec_ok r \<Longrightarrow> m_columns r = done @ replicate (length ns) [] \<Longrightarrow> length done = i \<Longrightarrow>
   distinct (done @ map column_name ns) \<Longrightarrow> [] \<notin> set (map column_name ns) \<Longrightarrow>
   m_columns (name_columns i ns r) = done @ map column_name ns \<and> m_record (name_columns i ns r) = m_record r
     \<and> rec_ok (name_columns i ns r)"
proof (induction ns arbitrary: i r "done")
  case (Cons n ns)
  define r1 where "r1 = r\<lparr>m_columns := (done @ [column_name n]) @ replicate (length ns) []\<rparr>"
  have i: "i < length (m_columns r)" "unat (of_nat i :: ushort) = i"
    using Cons.prems(1,2,3) by (auto simp: rec_ok_def unat_of_nat)
  have "\<not> count_columns r \<le> of_nat i"
    using i Cons.prems(1) by (simp add: ushort_le unat_count_columns)
  moreover have "column_name n \<notin> set (m_columns r)" "column_name n \<noteq> []"
    using Cons.prems(2,4,5) by auto
  ultimately have "set_column_name (of_nat i) n r = (True, r1)"
    using i Cons.prems(2,3)
    by (auto simp: set_column_name_def column_name_def r1_def list_update_append)
  moreover have "m_columns (name_columns (Suc i) ns r1) = (done @ [column_name n]) @ map column_name ns
      \<and> m_record (name_columns (Suc i) ns r1) = m_record r1 \<and> rec_ok (name_columns (Suc i) ns r1)"
    by (rule Cons.IH) (use Cons.prems in \<open>auto simp: r1_def rec_ok_def\<close>)
  ultimately show ?case by (simp add: r1_def)
qed simp

lemma fill_lines_append:
  "fill_lines k n (ls @ ms) r = Option.bind (fill_lines k n ls r) (fill_lines (k + length ls) n ms)"
proof (induction ls arbitrary: k r)
  case (Cons l ls)
  have "fill_lines (Suc k) n (ls @ ms) =
      (\<lambda>r. Option.bind (fill_lines (Suc k) n ls r) (fill_lines (Suc (k + length ls)) n ms))"
    by (rule ext) (simp add: Cons.IH)
  then show ?case by (simp del: bind_assoc add: Option.bind_assoc)
qed simp

lemma fill_last_line:
  assumes "l \<noteq> []" "0 < n"
  shows "fill_lines 65535 n (l # ls) r = None"
proof -
  have "rec_insert (of_nat 65535) c v r' = None" for c v r'
    using insert_returns_iff[of "of_nat 65535" c v r'] by (cases "rec_insert (of_nat 65535) c v r'") auto
  then have "fill_cells 65535 0 n l r = None"
    using assms by (cases l) (auto simp del: of_nat_numeral)
  then show ?thesis by simp
qed


lemma typed_rows:
  "\<forall>row\<in>set rows. length row = length columns \<Longrightarrow> columns \<noteq> [] \<Longrightarrow>
   \<forall>l\<in>set (map (map2 typed_cell (map snd columns)) rows). length l = length columns \<and> l \<noteq> []"
  by (auto simp flip: length_greater_0_conv)

text \<open>A result set with distinct, non-empty column names is loaded exactly: one line for each row,
  one cell for each value, a number where the type of the column and the text of the value agree
  on one, else a string; the columns get their names in lower case. This holds up to 65535 rows:
  the row after that is inserted at the last line of the 16-bit counter and the insertion never
  returns.\<close>

theorem load_set_rows:
  assumes "columns \<noteq> []" "length columns < 65536" "\<forall>row\<in>set rows. length row = length columns"
    and "distinct (map (\<lambda>c. column_name (fst c)) columns)" "[] \<notin> set (map (\<lambda>c. column_name (fst c)) columns)"
  shows "load_set columns rows =
    (if length rows \<le> 65535
     then Some \<lparr>m_columns = map (\<lambda>c. column_name (fst c)) columns,
                m_record = map (map2 typed_cell (map snd columns)) rows\<rparr>
     else None)"
proof -
  let ?n = "length columns" and ?ls = "map (map2 typed_cell (map snd columns)) rows"
  define r where "r = name_columns 0 (map fst columns) (new_record (of_nat ?n))"
  have n: "unat (of_nat ?n :: ushort) = ?n" using assms(2) by (simp add: unat_of_nat)
  have r: "m_columns r = map (\<lambda>c. column_name (fst c)) columns" "m_record r = []" "rec_ok r"
    using name_columns_names[OF rec_ok_new[of "of_nat ?n"], of "[]" "map fst columns" 0] assms(4,5) n
    by (auto simp: r_def new_record_def comp_def)
  have eq: "x = \<lparr>m_columns = m_columns x, m_record = m_record x\<rparr>" for x :: pgsRecord by simp
  note rows = typed_rows[OF assms(3,1)]
  show ?thesis
  proof (cases "length rows \<le> 65535")
    case True
    have "fill_lines 0 (length (m_columns r)) ?ls r = Some (r\<lparr>m_record := m_record r @ ?ls\<rparr>)"
      by (rule fill_all) (use r rows True in auto)
    then show ?thesis
      using r True eq[of "r\<lparr>m_record := ?ls\<rparr>"] by (simp add: load_set_def r_def)
  next
    case False
    define l1 where "l1 = take 65535 ?ls"
    obtain l l2 where l: "drop 65535 ?ls = l # l2" using False by (cases "drop 65535 ?ls") auto
    have "l \<in> set ?ls" using l by (metis in_set_dropD list.set_intros(1))
    then have "l \<noteq> []" using rows by blast
    moreover have "?ls = l1 @ l # l2" using l append_take_drop_id[of 65535 ?ls] by (simp add: l1_def)
    moreover have "length l1 = 65535" using False by (simp add: l1_def)
    ultimately have "fill_lines 0 ?n ?ls r = None"
      using fill_last_line[of l ?n l2] assms(1)
      by (cases "fill_lines 0 ?n l1 r") (simp_all add: fill_lines_append del: fill_lines.simps)
    then show ?thesis using False by (simp add: load_set_def r_def)
  qed
qed

theorem load_set_rows_witness:
  "load_set [(''Id'', ''integer''), (''Name'', ''text'')] [[''1'', ''x''], [''n'', ''2'']]
    = Some \<lparr>m_columns = [''id'', ''name''],
        m_record = [[PgsNumber False ''1'', PgsString ''x''], [PgsString ''n'', PgsString ''2'']]\<rparr>"
proof -
  have c: "column_name ''Id'' = ''id''" "column_name ''Name'' = ''name''" by code_simp+
  have t: "typed_cell ''integer'' ''1'' = PgsNumber False ''1''" "typed_cell ''text'' ''x'' = PgsString ''x''"
    "typed_cell ''integer'' ''n'' = PgsString ''n''" "typed_cell ''text'' ''2'' = PgsString ''2''"
    by code_simp+
  show ?thesis
    using load_set_rows[of "[(''Id'', ''integer''), (''Name'', ''text'')]" "[[''1'', ''x''], [''n'', ''2'']]"]
    by (simp add: c t)
qed

section \<open>Cells\<close>

abbreviation int_literal :: "nat \<Rightarrow> expr" where
  "int_literal i \<equiv> Literal (PgsNumber False (int_text (int i)))"

lemma int_form_text: "int_form (int_text i)"
  using num_type_int_text[of i] by (auto simp: num_type_def split: if_splits)

lemma to_long_text: "i < 65536 \<Longrightarrow> to_long env (int_text (int i)) = int i"
  by (simp add: to_long_def int_form_text atoi_int_text long_min_def long_max_def)

lemma literal_index:
  "i < 65536 \<Longrightarrow> long_of env (Scalar (PgsNumber False (int_text (int i)))) = ret (int i)"
  by (simp add: long_of_def prog_simps to_long_text)

lemma find_record_run [run_simps]:
  "ps_vars s n = Some (RecordVar r) \<Longrightarrow> bind_prog (find_record n) k s = k (Some r) s"
  by (simp add: find_record_def bind_reads)

lemma with_record_run [run_simps]:
  "ps_vars s n = Some (RecordVar r) \<Longrightarrow> with_record n k s = k r s"
  by (simp add: with_record_def find_record_run)

lemma read_cell:
  assumes "ps_vars s n = Some (RecordVar r)" "i < 65536" "j < 65536"
  shows "ident_record_eval env n (ret (Scalar (PgsNumber False (int_text (int i)))))
      (Some (ret (Scalar (PgsNumber False (int_text (int j)))))) s
    = Some (Inr (Scalar (rec_get (to_ushort (int i)) (to_ushort (int j)) r)), s)"
  unfolding ident_record_eval_def
  by (simp add: find_record_run[OF assms(1)] with_record_run[OF assms(1)] prog_simps type_tests
      literal_index assms(2,3) ret_apply)

lemma insert_cell_run:
  assumes "ps_vars s n = Some (RecordVar r)"
  shows "rec_insert l c x r = Some (b, r') \<Longrightarrow>
      insert_cell n l c x s = Some (Inr b, s\<lparr>ps_vars := (ps_vars s)(n \<mapsto> RecordVar r')\<rparr>)"
    and "rec_insert l c x r = None \<Longrightarrow> insert_cell n l c x s = None"
  by (simp_all add: insert_cell_def with_record_run[OF assms] set_var_def run_simps never_def)

lemma assign_column_run:
  assumes "ps_vars s n = Some (RecordVar r)" "rec_ok r" "j < 65536"
  shows "assign_column env n k (Scalar (PgsNumber False (int_text (int j)))) x s =
    (if j < length (m_columns r) then insert_cell n (to_ushort k) (to_ushort (int j)) x s
     else Some (Inr False, s))"
proof -
  have "uint (count_columns r) = int (length (m_columns r))"
    by (simp only: uint_nat unat_count_columns[OF assms(2)])
  then show ?thesis
    by (simp add: assign_column_def type_tests literal_index assms(3) prog_simps
        with_record_run[OF assms(1)] run_simps)
qed

lemma assign_run:
  assumes "i < 65536"
  shows "eval env (pgsAssignToRecord n (int_literal i) (int_literal j) (Literal x)) =
    bind_prog (find_record n) (\<lambda>found.
      if found = None then throw (pgsParameterException (n @ '' is not a record''))
      else bind_prog (assign_column env n (int i) (Scalar (PgsNumber False (int_text (int j)))) x) (\<lambda>success.
        if \<not> success then
          throw (pgsParameterException
            (''An error occurred in record affectation: '' @
             expr_value (pgsAssignToRecord n (int_literal i) (int_literal j) (Literal x)) @
             [newline_char] @ ''One possible reason is a column index out of range''))
        else ident_record_eval env n (ret (Scalar (PgsNumber False (int_text (int i)))))
          (Some (ret (Scalar (PgsNumber False (int_text (int j))))))))"
  unfolding eval.simps assign_to_record_eval_def assign_cell_def
  by (simp add: prog_simps type_tests literal_index assms del: expr_value.simps cong: if_cong)

text \<open>\<open>SET @R[i][j] = x\<close>, for \<open>i\<close> below the last 16-bit line number: an existing column gets the
  value, which is also the value of the expression, and no other cell changes; a column that does
  not exist is an exception that leaves the record alone.\<close>

theorem assign_cell_reads_back:
  assumes "ps_vars s n = Some (RecordVar r)" "rec_ok r" "length (m_record r) < 65536"
    and "i < 65535" "j < 65536"
  shows "\<exists>m r'. eval env (pgsAssignToRecord n (int_literal i) (int_literal j) (Literal x)) s =
      (if j < length (m_columns r)
       then Some (Inr (Scalar x), s\<lparr>ps_vars := (ps_vars s)(n \<mapsto> RecordVar r')\<rparr>)
       else Some (Inl (pgsParameterException m), s))
    \<and> (j < length (m_columns r) \<longrightarrow>
       (\<forall>l c. rec_get l c r' = (if unat l = i \<and> unat c = j then x else rec_get l c r)))"
proof -
  let ?i = "to_ushort (int i)" and ?j = "to_ushort (int j)"
  have u: "unat ?i = i" "unat ?j = j" "unat (count_columns r) = length (m_columns r)"
    using assms(2,4,5) by (simp_all add: unat_to_ushort_small unat_count_columns)
  have l: "i < 65536" using assms(4) by simp
  show ?thesis
  proof (cases "j < length (m_columns r)")
    case True
    have a: "unat ?i < 65535" "?j < count_columns r"
      using True assms(4) u by (simp_all add: ushort_less)
    obtain r' where ins: "rec_insert ?i ?j x r = Some (True, r')"
      using rec_insert_value[OF assms(2,3) a, of x] by blast
    note g = rec_get_insert(1)[OF assms(2,3) a ins]
    let ?t = "s\<lparr>ps_vars := (ps_vars s)(n \<mapsto> RecordVar r')\<rparr>"
    have "ps_vars ?t n = Some (RecordVar r')" by simp
    note rd = read_cell[OF this l assms(5), of env]
    have "assign_column env n (int i) (Scalar (PgsNumber False (int_text (int j)))) x s = Some (Inr True, ?t)"
      using True assign_column_run[OF assms(1,2,5)] insert_cell_run(1)[OF assms(1) ins] by simp
    then have "eval env (pgsAssignToRecord n (int_literal i) (int_literal j) (Literal x)) s =
        Some (Inr (Scalar x), ?t)"
      unfolding assign_run[OF l] using rd g by (simp add: find_record_run[OF assms(1)] bind_Inr)
    moreover have "rec_get l c r' = (if unat l = i \<and> unat c = j then x else rec_get l c r)" for l c
      using g[of l c] u by (auto simp: word_unat_eq_iff)
    ultimately show ?thesis using True by auto
  next
    case False
    then have "assign_column env n (int i) (Scalar (PgsNumber False (int_text (int j)))) x s = Some (Inr False, s)"
      using assign_column_run[OF assms(1,2,5)] by simp
    then show ?thesis
      unfolding assign_run[OF l] using False
      by (simp add: find_record_run[OF assms(1)] bind_Inr throw_apply)
  qed
qed

theorem assign_cell_reads_back_witness:
  "\<exists>t. eval idle_env (pgsAssignToRecord ''@R'' (int_literal 1) (int_literal 0) (Literal (PgsString ''x'')))
     (with_vars [''@R'' \<mapsto> RecordVar (new_record 2)]) = Some (Inr (Scalar (PgsString ''x'')), t)"
  using assign_cell_reads_back[of "with_vars [''@R'' \<mapsto> RecordVar (new_record 2)]" "''@R''" "new_record 2" 1 0
      idle_env "PgsString ''x''"]
  by (auto simp: with_vars_def new_record_def rec_ok_def)

text \<open>\<open>SET @R[-1][0] = x\<close> never returns: \<open>-1\<close> becomes line 65535.\<close>

theorem assign_line_minus_one:
  assumes "ps_vars s n = Some (RecordVar r)" "rec_ok r" "0 < length (m_columns r)"
  shows "eval env (pgsAssignToRecord n (Literal (PgsNumber False ''-1'')) (int_literal 0) (Literal x)) s = None"
proof -
  have m: "to_long env ''-1'' = -1"
    by (simp add: to_long_def int_form_def skip_sign_def is_digit_def atoi_def undec_def digit_val_def
        long_min_def long_max_def)
  have "to_ushort (- 1) = - 1" by (simp add: to_ushort_def)
  then have i: "rec_insert (to_ushort (- 1)) c x r = None" for c
    using insert_returns_iff[of "to_ushort (- 1)" c x r] by (cases "rec_insert (to_ushort (- 1)) c x r") auto
  have "assign_column env n (- 1) (Scalar (PgsNumber False (int_text (int 0)))) x s = None"
    using assms(3) assign_column_run[OF assms(1,2), of 0] insert_cell_run(2)[OF assms(1) i] by simp
  moreover have "long_of env (Scalar (PgsNumber False ''-1'')) = ret (- 1)"
    by (simp add: long_of_def prog_simps m)
  ultimately show ?thesis
    by (simp add: assign_to_record_eval_def assign_cell_def find_record_run[OF assms(1)] prog_simps
        type_tests bind_None)
qed

theorem assign_line_minus_one_witness:
  "eval idle_env (pgsAssignToRecord ''@R'' (Literal (PgsNumber False ''-1'')) (int_literal 0)
     (Literal (PgsString ''x''))) (with_vars [''@R'' \<mapsto> RecordVar (new_record 1)]) = None"
  by (rule assign_line_minus_one[where r = "new_record 1"])
    (simp_all add: with_vars_def new_record_def rec_ok_def)

end
