(* ===== verification/PgsStmt.thy ===== *)
theory PgsStmt
  imports PgsExecute
begin

text \<open>
  The statements (\<open>pgscript/statements\<close>): one definition for each \<open>eval\<close>, and \<open>pgsProgram::eval\<close>.
  A statement is evaluated within a thread (\<open>m_app\<close> is never null: the parser passes
  \<open>driver.thread\<close>). The lines of a list are those \<open>set_position\<close> has set.
\<close>

datatype stmt =
    pgsExpressionStmt expr
  | pgsPrintStmt expr
  | pgsAssertStmt expr
  | pgsBreakStmt
  | pgsContinueStmt
  | pgsDeclareRecordStmt string "string list"
  | pgsIfStmt expr stmt stmt
  | pgsWhileStmt expr stmt
  | pgsStmtList "(int \<times> stmt) list"  \<comment> \<open>each with its line\<close>

section \<open>Simple statements\<close>

definition expression_stmt_eval :: "pgsVariable pgs \<Rightarrow> unit pgs" where
  "expression_stmt_eval m_var = bind_prog m_var (\<lambda>_. ret ())"

definition print_eval :: "pgs_env \<Rightarrow> pgsVariable pgs \<Rightarrow> unit pgs" where
  "print_eval env m_var =
     bind_prog lock_output (\<lambda>_.
     bind_prog
       (try_catch
         (bind_prog (emit PGSOUTPGSCRIPT) (\<lambda>_.
          bind_prog m_var (\<lambda>v. bind_prog (var_value env v) (\<lambda>t. emit (t @ [newline_char])))))
         (\<lambda>e. bind_prog unlock_output (\<lambda>_. throw e))) (\<lambda>_.
     unlock_output))"

definition assert_eval :: "pgs_env \<Rightarrow> string \<Rightarrow> pgsVariable pgs \<Rightarrow> unit pgs" where
  "assert_eval env cond_text m_cond =
     bind_prog m_cond (\<lambda>result. bind_prog (pgs_is_true env result) (\<lambda>b.
       if b then ret () else throw (pgsAssertException cond_text)))"

definition break_eval :: "unit pgs" where "break_eval = throw pgsBreakException"
definition continue_eval :: "unit pgs" where "continue_eval = throw pgsContinueException"

definition declare_eval :: "string \<Rightarrow> string list \<Rightarrow> unit pgs" where
  "declare_eval name columns =
     set_var name (RecordVar (name_columns 0 columns (new_record (of_nat (length columns)))))"

section \<open>Control\<close>

definition truth :: "pgs_env \<Rightarrow> pgsVariable pgs \<Rightarrow> bool pgs" where
  "truth env m_cond = bind_prog m_cond (pgs_is_true env)"

definition if_eval :: "bool pgs \<Rightarrow> unit pgs \<Rightarrow> unit pgs \<Rightarrow> unit pgs" where
  "if_eval m_cond m_if m_else = bind_prog m_cond (\<lambda>b. if b then m_if else m_else)"

text \<open>One run of the body: does the loop go on?\<close>

definition loop_body :: "unit pgs \<Rightarrow> bool pgs" where
  "loop_body m_stmt_list =
     try_catch (bind_prog m_stmt_list (\<lambda>_. ret True))
       (\<lambda>e. case e of
          pgsBreakException \<Rightarrow> ret False
        | pgsContinueException \<Rightarrow> ret True
        | _ \<Rightarrow> throw e)"

definition interruptible :: "pgs_env \<Rightarrow> unit pgs" where
  "interruptible env =
     bind_prog (test_destroy env) (\<lambda>stop. if stop then throw pgsInterruptException else ret ())"

partial_function (option) while_eval ::
  "pgs_env \<Rightarrow> bool pgs \<Rightarrow> unit pgs \<Rightarrow> pgs_state \<Rightarrow> ((pgsException + unit) \<times> pgs_state) option" where
  "while_eval env m_cond m_stmt_list s =
     bind_prog m_cond (\<lambda>b.
       if b then
         bind_prog (loop_body m_stmt_list) (\<lambda>go.
           if go then bind_prog (interruptible env) (\<lambda>_. while_eval env m_cond m_stmt_list) else ret ())
       else ret ()) s"

declare while_eval.simps [code]

section \<open>Lists of statements\<close>

fun is_error :: "pgsException \<Rightarrow> bool" where
  "is_error pgsBreakException = False"
| "is_error pgsContinueException = False"
| "is_error _ = True"

definition error_text :: "pgsException \<Rightarrow> int \<Rightarrow> string" where
  "error_text e line = exn_message e @ '' on line '' @ int_text line @ [newline_char]"

definition report_error :: "int \<Rightarrow> pgsException \<Rightarrow> unit pgs" where
  "report_error line e =
     bind_prog (reads ps_thrown) (\<lambda>thrown.
     do_when (\<not> thrown \<and> is_error e)
       (bind_prog lock_output (\<lambda>_.
        bind_prog (modifies (\<lambda>s. s\<lparr>ps_error_line := line\<rparr>)) (\<lambda>_.
        bind_prog (emit (error_text e line)) (\<lambda>_.
        bind_prog (modifies (\<lambda>s. s\<lparr>ps_thrown := True\<rparr>)) (\<lambda>_. unlock_output))))))"

definition list_step :: "pgs_env \<Rightarrow> int \<Rightarrow> unit pgs \<Rightarrow> unit pgs" where
  "list_step env line current =
     try_catch (bind_prog current (\<lambda>_. interruptible env))
       (\<lambda>e. bind_prog (report_error line e) (\<lambda>_. throw e))"

primrec list_eval :: "pgs_env \<Rightarrow> (int \<times> unit pgs) list \<Rightarrow> unit pgs" where
  "list_eval env [] = ret ()"
| "list_eval env (x # xs) = bind_prog (list_step env (fst x) (snd x)) (\<lambda>_. list_eval env xs)"

fun exec :: "pgs_env \<Rightarrow> stmt \<Rightarrow> unit pgs" where
  "exec env (pgsExpressionStmt e) = expression_stmt_eval (eval env e)"
| "exec env (pgsPrintStmt e) = print_eval env (eval env e)"
| "exec env (pgsAssertStmt e) = assert_eval env (expr_value e) (eval env e)"
| "exec env pgsBreakStmt = break_eval"
| "exec env pgsContinueStmt = continue_eval"
| "exec env (pgsDeclareRecordStmt n cs) = declare_eval n cs"
| "exec env (pgsIfStmt c a b) = if_eval (truth env (eval env c)) (exec env a) (exec env b)"
| "exec env (pgsWhileStmt c b) = while_eval env (truth env (eval env c)) (exec env b)"
| "exec env (pgsStmtList ls) = list_eval env (map (\<lambda>(line, st). (line, exec env st)) ls)"

section \<open>pgsProgram::eval\<close>

definition program_eval :: "pgs_env \<Rightarrow> (int \<times> stmt) list \<Rightarrow> unit pgs" where
  "program_eval env stmts =
     bind_prog (try_catch (exec env (pgsStmtList stmts)) (\<lambda>e. ret ())) (\<lambda>_.
       modifies (\<lambda>s. s\<lparr>ps_thrown := False\<rparr>))"

end
