(* ===== verification/PgsKeeps.thy ===== *)
theory PgsKeeps
  imports PgsStmt PgsSound
begin

text \<open>
  What the evaluation of an expression leaves alone. \<open>unaffected I\<close> collects the ways in which an
  expression changes the state; a fact that survives each of them survives every evaluation. The
  interpretations below are the facts about the output semaphore, the error flag and the output
  that the statements rely on.
\<close>

lemma keeps_scalar [keeps_intros]:
  "(\<And>r d. keeps I (f r d)) \<Longrightarrow> (\<And>d. keeps I (g d)) \<Longrightarrow> (\<And>t i. keeps I (h t i)) \<Longrightarrow>
   keeps I (case x of PgsNumber r d \<Rightarrow> f r d | PgsString d \<Rightarrow> g d | PgsGenerator t i \<Rightarrow> h t i)"
  by (cases x) auto

lemma keeps_variable [keeps_intros]:
  "(\<And>x. keeps I (f x)) \<Longrightarrow> (\<And>r. keeps I (g r)) \<Longrightarrow>
   keeps I (case v of Scalar x \<Rightarrow> f x | RecordVar r \<Rightarrow> g r)"
  by (cases v) auto

lemma keeps_pair [keeps_intros]: "(\<And>x y. keeps I (f x y)) \<Longrightarrow> keeps I (case p of (x, y) \<Rightarrow> f x y)"
  by (cases p) auto


locale unaffected =
  fixes I :: "pgs_state \<Rightarrow> bool"
  assumes vars: "I s \<Longrightarrow> I (s\<lparr>ps_vars := vs\<rparr>)"
    and gens: "I s \<Longrightarrow> I (s\<lparr>ps_gens := gs\<rparr>)"
    and tests: "I s \<Longrightarrow> I (s\<lparr>ps_tests := n\<rparr>)"
    and queries: "I s \<Longrightarrow> I (s\<lparr>ps_queries := n\<rparr>)"
    and reported: "keeps I (report cout text)"
begin

lemma gen_random [keeps_intros]: "keeps I (gen_random env i)"
proof (rule keepsI)
  fix s r t
  assume "I s" "gen_random env i s = Some (r, t)"
  then show "I t" by (auto elim!: gen_random_state intro!: gens tests queries)
qed

lemma scalar_value [keeps_intros]: "keeps I (scalar_value env x)"
  by (cases x) (auto intro!: keeps_intros)

lemma record_value [keeps_intros]: "keeps I (record_value env r)"
  unfolding record_value_def line_text_def cell_text_def by (intro keeps_intros)

lemma var_value [keeps_intros]: "keeps I (var_value env v)"
  by (cases v) (auto intro!: keeps_intros)

lemma arith_fail [keeps_intros]: "keeps I (arith_fail env d v)"
  unfolding arith_fail_def by (intro keeps_intros)

lemma gen_operand [keeps_intros]: "keeps I (gen_operand env t i)"
  unfolding gen_operand_def by (cases t) (auto intro!: keeps_intros)

lemma cells [keeps_intros]: "keeps I (cells_equal env cs xs ys)"
  by (induction env cs xs ys rule: cells_equal.induct) (auto intro!: keeps_intros)

lemma find_match [keeps_intros]: "keeps I (find_match env cs l seen j rs)"
  by (induction env cs l seen j rs rule: find_match.induct) (auto simp: lines_equal_def intro!: keeps_intros)

lemma match_lines [keeps_intros]: "keeps I (match_lines env cs ls rs seen)"
proof (induction env cs ls rs seen rule: match_lines.induct)
  case (2 env cs l ls rs seen)
  then show ?case by (auto intro!: keeps_intros split: option.split)
qed (auto intro: keeps_intros)

lemma compare_records [keeps_intros]:
  "keeps I (record_eq env l r)" "keeps I (record_less env l r)" "keeps I (record_less_eq env l r)"
  "keeps I (record_almost env l r)" "keeps I (record_fail env l v)"
  unfolding record_eq_def record_less_def record_less_eq_def record_almost_def records_equal_def
    record_fail_def
  by (intro keeps_intros)+

lemma compare_with:
  "(\<And>r. keeps I (f env l r)) \<Longrightarrow> keeps I (record_compare_with f env l v)"
  unfolding record_compare_with_def by (intro keeps_intros)

lemma numbers [keeps_intros]:
  "keeps I (number_arith f env r d v)" "keeps I (number_compare g env r d v)"
  "keeps I (number_over env r d v)" "keeps I (number_modulo env r d v)"
  "keeps I (string_plus env d v)" "keeps I (string_compare h env d v)"
  unfolding number_arith_def number_compare_def number_over_def number_modulo_def string_plus_def
    string_compare_def
  by (intro keeps_intros)+

lemma dispatched:
  "(\<And>r d. keeps I (fn env r d v)) \<Longrightarrow> (\<And>d. keeps I (fs env d v)) \<Longrightarrow> (\<And>r. keeps I (fr env r v)) \<Longrightarrow>
   keeps I (dispatch fn fs fr env lhs v)"
  unfolding dispatch_def by (intro keeps_intros)

lemma operators:
  "keeps I (pgs_plus env v w)"
  "keeps I (pgs_minus env v w)"
  "keeps I (pgs_times env v w)"
  "keeps I (pgs_over env v w)"
  "keeps I (pgs_modulo env v w)"
  "keeps I (pgs_equal env v w)"
  "keeps I (pgs_different env v w)"
  "keeps I (pgs_greater env v w)"
  "keeps I (pgs_lower env v w)"
  "keeps I (pgs_lower_equal env v w)"
  "keeps I (pgs_greater_equal env v w)"
  "keeps I (pgs_almost_equal env v w)"
  unfolding pgs_binary_defs number_binary_defs string_binary_defs record_binary_defs
  by (intro dispatched compare_with keeps_intros)+

lemma binary:
  assumes "keeps I l" "keeps I r"
  shows "keeps I (binary_eval b env l r)"
proof -
  have "keeps I (operands f env l r)" if "\<And>v w. keeps I (f env v w)" for f
    unfolding operands_def by (intro keeps_intros assms that)
  then show ?thesis
    by (cases b) (auto simp: operator_evals intro: operators)
qed

lemma unary [keeps_intros]: "keeps I (pgs_not env v)" "keeps I (pgs_is_true env v)"
  unfolding pgs_not_def pgs_is_true_def by (intro dispatched keeps_intros)+

lemma casts [keeps_intros]:
  "keeps I (text_number d)" "keeps I (var_number env v)" "keeps I (var_record env v)" "keeps I (var_string env v)"
proof -
  show t: "keeps I (text_number d)" for d
    unfolding text_number_def by (cases "num_type d") (auto intro: keeps_intros)
  show "keeps I (var_number env v)" by (cases "(env, v)" rule: var_number.cases) (auto intro!: keeps_intros t)
  show "keeps I (var_record env v)" by (cases "(env, v)" rule: var_record.cases) (auto intro!: keeps_intros)
  show "keeps I (var_string env v)" unfolding var_string_def by (intro keeps_intros)
qed

lemma state_access [keeps_intros]:
  "keeps I (find_record n)" "keeps I (set_var n v)" "keeps I (ident_eval env n)"
  unfolding find_record_def set_var_def ident_eval_def
  by (intro keeps_intros keeps_modifies vars; assumption)+

lemma with_record [keeps_intros]: "(\<And>r. keeps I (k r)) \<Longrightarrow> keeps I (with_record n k)"
  unfolding with_record_def by (intro keeps_intros)

lemma long_of [keeps_intros]: "keeps I (long_of env v)" "keeps I (num_of env v)"
  unfolding long_of_def num_of_def by (intro keeps_intros)+

lemma record_access:
  assumes "keeps I l" "\<And>c. col = Some c \<Longrightarrow> keeps I c"
  shows "keeps I (ident_record_eval env n l col)"
proof (cases col)
  case None
  then show ?thesis
    unfolding ident_record_eval_def None option.case by (intro keeps_intros assms(1))
next
  case (Some c)
  then have "keeps I c" by (rule assms(2))
  then show ?thesis
    unfolding ident_record_eval_def Some option.case by (intro keeps_intros assms(1))
qed

lemma cell_assignment:
  assumes "keeps I l" "keeps I c"
  shows "keeps I (assign_cell env txt n l c x)"
  unfolding assign_cell_def assign_column_def insert_cell_def
  by (intro keeps_intros record_access assms) (auto intro: assms)

lemma record_operations:
  assumes "keeps I l" "keeps I c" "keeps I e"
  shows "keeps I (assign_to_record_eval env txt n l c e)" "keeps I (remove_line_eval env txt n l)"
    "keeps I (assign_eval n e)" "keeps I (columns_eval n)" "keeps I (lines_eval n)"
  unfolding assign_to_record_eval_def remove_line_eval_def assign_eval_def columns_eval_def
    lines_eval_def Let_def
  by (intro keeps_intros cell_assignment assms)+

lemma operations:
  assumes "keeps I l" "keeps I r"
  shows "keeps I (and_eval env l r)" "keeps I (or_eval env l r)" "keeps I (negate_eval env l)"
    "keeps I (not_eval env l)" "keeps I (trim_eval env l)" "keeps I (cast_eval env t l)"
  unfolding and_eval_def or_eval_def negate_eval_def not_eval_def trim_eval_def cast_eval_def
  by (cases t; intro keeps_intros operators assms; simp; intro keeps_intros casts assms)+

lemma wait_query [keeps_intros]: "keeps I (wait_query env)"
proof (rule keepsI)
  fix s r t
  assume "I s" "wait_query env s = Some (r, t)"
  then show "I t" using wait_query_state[of env s "(r, t)"] tests by auto
qed

lemma test_destroy [keeps_intros]: "keeps I (test_destroy env)"
  by (rule keepsI) (auto simp: test_destroy_def intro: tests)

lemma run_query [keeps_intros]: "keeps I (run_query env q)"
  unfolding run_query_def by (intro keeps_intros keeps_modifies queries)

lemma expand_vars [keeps_intros]: "keeps I (expand_vars env q)"
proof (rule keepsI)
  fix s r t
  let ?P = "\<lambda>(env::pgs_env) (stmt::string) s (y :: (pgsException + string) \<times> pgs_state). I s \<longrightarrow> I (snd y)"
  assume s: "I s" and e: "expand_vars env q s = Some (r, t)"
  have "?P env q s (r, t)"
  proof (rule expand_vars.raw_induct[where P = ?P, OF _ e])
    fix f :: "pgs_env \<Rightarrow> string \<Rightarrow> pgs_state \<Rightarrow> ((pgsException + string) \<times> pgs_state) option"
      and env stmt s y
    assume IH: "\<And>env stmt s y. f env stmt s = Some y \<Longrightarrow> ?P env stmt s y"
      and step: "(case find_identifier stmt of
        None \<Rightarrow> ret stmt s
      | Some (before, chr, var, after) \<Rightarrow>
          (case ps_vars s var of
             Some v \<Rightarrow>
               bind_prog (var_value env v) (\<lambda>res.
                 f env (before @ expand_groups (match_groups chr var) (chr # escape_quotes res) @ after)) s
           | None \<Rightarrow>
               f env (before @ expand_groups (match_groups chr var)
                 (chr # back_slash # back_slash # var) @ after) s)) = Some y"
    have f: "keeps I (f env stmt')" for stmt' by (rule keepsI) (metis IH snd_conv)
    have "keeps I (bind_prog (var_value env v) (\<lambda>r. f env (k r)))" for v k
      by (intro keeps_intros f)
    note g = this
    obtain r t where y: "y = (r, t)" by (cases y)
    consider "y = (Inr stmt, s)" | stmt' where "f env stmt' s = Some y"
      | v k where "bind_prog (var_value env v) (\<lambda>r. f env (k r)) s = Some y"
      using step by (auto simp: ret_def split: option.splits)
    then show "?P env stmt s y"
      by cases (use y keepsD[OF f, of s _ r t] keepsD[OF g, of s _ _ r t] in auto)
  qed
  then show "I t" using s by simp
qed

lemma execute [keeps_intros]: "keeps I (execute_stmt env cout q)" "keeps I (execute_eval env cout q')"
proof -
  show "keeps I (execute_stmt env cout q)" for q
    unfolding execute_stmt_def Let_def by (intro keeps_intros reported)
  then show "keeps I (execute_eval env cout q')"
    unfolding execute_eval_def by (intro keeps_intros)
qed

lemma own_query [keeps_intros]: "keeps I (own_query env q)"
  by (auto simp: own_query_def intro!: keeps_intros split: option.split)

lemma new_gen [keeps_intros]: "keeps I (new_gen t g)" "keeps I (bad_parameter txt msg)"
  unfolding new_gen_def bad_parameter_def by (intro keeps_intros keeps_modifies gens; assumption)+

lemma generators:
  assumes "keeps I a" "keeps I b" "keeps I c" "keeps I d" "keeps I e"
  shows "keeps I (gen_int_eval env txt a b c d)" "keeps I (gen_real_eval env txt a b c d e)"
    "keeps I (gen_string_eval env txt a b c d)" "keeps I (gen_date_eval env txt a b c d)"
    "keeps I (gen_time_eval env txt a b c d)" "keeps I (gen_date_time_eval env txt a b c d)"
    "keeps I (gen_dictionary_eval env txt a b c d)" "keeps I (gen_regex_eval env txt a b)"
    "keeps I (gen_reference_eval env txt a b c d)"
  unfolding gen_int_eval_def gen_real_eval_def gen_string_eval_def gen_date_eval_def gen_time_eval_def
    gen_date_time_eval_def gen_calendar_eval_def parse_bounds_def gen_dictionary_eval_def gen_regex_eval_def
    gen_reference_eval_def check_query_def reference_refused_def nonempty_string_def new_reference_def
  by (intro keeps_intros assms)+

text \<open>Every evaluation of an expression.\<close>

lemma evaluation [keeps_intros]: "keeps I (eval env e)"
proof (induction e)
  case (pgsIdentRecord n l c)
  then show ?case by (cases c) (auto intro!: record_access)
next
  case (Binary b l r)
  then show ?case by (simp add: binary)
qed (auto intro!: keeps_intros record_operations operations execute generators)

end

section \<open>Interpretations\<close>

lemma keeps_while:
  assumes "keeps I c" "keeps I b" "keeps I (interruptible env)"
  shows "keeps I (while_eval env c b)"
proof (rule keepsI)
  fix s r t
  let ?P = "\<lambda>e c' b' s (y :: (pgsException + unit) \<times> pgs_state). e = env \<and> c' = c \<and> b' = b \<and> I s \<longrightarrow> I (snd y)"
  assume s: "I s" and w: "while_eval env c b s = Some (r, t)"
  have "?P env c b s (r, t)"
  proof (rule while_eval.raw_induct[where P = ?P, OF _ w])
    fix f :: "pgs_env \<Rightarrow> bool pgs \<Rightarrow> unit pgs \<Rightarrow> pgs_state \<Rightarrow> ((pgsException + unit) \<times> pgs_state) option"
      and e c' b' s y
    assume IH: "\<And>e c' b' s y. f e c' b' s = Some y \<Longrightarrow> ?P e c' b' s y"
      and step: "bind_prog c' (\<lambda>x. if x then bind_prog (loop_body b') (\<lambda>go.
        if go then bind_prog (interruptible e) (\<lambda>_. f e c' b') else ret ()) else ret ()) s = Some y"
    show "?P e c' b' s y"
    proof
      assume a: "e = env \<and> c' = c \<and> b' = b \<and> I s"
      have f: "keeps I (f env c b)" by (rule keepsI) (metis IH snd_conv)
      have "keeps I (loop_body b)"
        unfolding loop_body_def
        by (intro keeps_intros assms) (auto split: pgsException.split intro: keeps_intros)
      then have "keeps I (bind_prog c (\<lambda>x. if x then bind_prog (loop_body b) (\<lambda>go.
          if go then bind_prog (interruptible env) (\<lambda>_. f env c b) else ret ()) else ret ()))"
        by (intro keeps_intros assms f)
      then show "I (snd y)" using step a by (cases y) (auto dest: keepsD)
    qed
  qed
  then show "I t" using s by simp
qed

text \<open>The output is free again, the error state as before, and what was written remains.\<close>

interpretation free: unaffected "\<lambda>s. ps_stream s = 1"
  by unfold_locales (auto simp: report_def do_when_def emit_def intro!: keepsI
      elim!: bind_cases simp: lock_output_def unlock_output_def modifies_def ret_def split: if_splits)

interpretation errors: unaffected "\<lambda>s. ps_thrown s = b \<and> ps_error_line s = l" for b l
  by unfold_locales (auto simp: report_def do_when_def emit_def intro!: keepsI
      elim!: bind_cases simp: lock_output_def unlock_output_def modifies_def ret_def split: if_splits)

interpretation written: unaffected "\<lambda>s. prefix p (ps_out s)" for p
  by unfold_locales (auto simp: report_def do_when_def emit_def intro!: keepsI
      elim!: bind_cases simp: lock_output_def unlock_output_def modifies_def ret_def split: if_splits)

end
