(* ===== verification/PgsRun.thy ===== *)
theory PgsRun
  imports PgsKeeps
begin

text \<open>
  Running statements: the output semaphore is given back on every path, an error is reported once
  and with the line of a statement of the script, and the loop \<open>WHILE\<close> against its big-step rules.
\<close>

section \<open>The output semaphore\<close>

text \<open>Within \<open>PRINT\<close> the semaphore is taken: what an expression needs of it then is never given.\<close>

interpretation taken: unaffected "\<lambda>s. ps_stream s = 0"
  by unfold_locales (auto simp: report_def do_when_def emit_def intro!: keepsI
      elim!: bind_cases simp: lock_output_def unlock_output_def modifies_def ret_def split: if_splits)

lemma printed_text_keeps: "keeps (\<lambda>s. ps_stream s = 0) (emit t)"
  unfolding emit_def by (rule keeps_modifies) simp

lemma free_print: "keeps (\<lambda>s. ps_stream s = 1) (print_eval env (eval env e))"
proof (rule keepsI)
  fix s r t
  assume s: "ps_stream s = 1" and p: "print_eval env (eval env e) s = Some (r, t)"
  define body where "body = bind_prog (emit PGSOUTPGSCRIPT) (\<lambda>_. bind_prog (eval env e) (\<lambda>v.
    bind_prog (var_value env v) (\<lambda>t. emit (t @ [newline_char]))))"
  have "keeps (\<lambda>s. ps_stream s = 0) body"
    unfolding body_def by (intro keeps_intros taken.evaluation taken.var_value printed_text_keeps)
  then have body: "ps_stream u = 0" if "body (s\<lparr>ps_stream := 0\<rparr>) = Some (q, u)" for q u
    using that keepsD by force
  have un: "ps_stream v = 1" if "unlock_output u = Some (q, v)" "ps_stream u = 0" for u q v
    using that by (auto simp: unlock_output_def modifies_def)
  have "lock_output s = Some (Inr (), s\<lparr>ps_stream := 0\<rparr>)" using s by (simp add: lock_output_def)
  then have "bind_prog (try_catch body (\<lambda>e. bind_prog unlock_output (\<lambda>_. throw e))) (\<lambda>_. unlock_output)
      (s\<lparr>ps_stream := 0\<rparr>) = Some (r, t)"
    using p by (simp add: print_eval_def bind_Inr body_def)
  then show "ps_stream t = 1"
    by (auto simp del: One_nat_def elim!: bind_cases catch_cases simp: throw_def dest: body un)
qed

lemma reported_error_keeps: "keeps (\<lambda>s. ps_stream s = 1) (report_error line e)"
  unfolding report_error_def do_when_def emit_def
  by (rule keepsI)
    (auto simp: bind_reads reads_def lock_output_def unlock_output_def modifies_def ret_def
      elim!: bind_cases split: if_splits)

lemma free_interruptible: "keeps (\<lambda>s. ps_stream s = 1) (interruptible env)"
  unfolding interruptible_def by (intro keeps_intros free.test_destroy)

lemma free_list:
  assumes "\<And>x. x \<in> set xs \<Longrightarrow> keeps (\<lambda>s. ps_stream s = 1) (snd x)"
  shows "keeps (\<lambda>s. ps_stream s = 1) (list_eval env xs)"
  using assms
proof (induction xs)
  case (Cons x xs)
  then have "keeps (\<lambda>s. ps_stream s = 1) (list_step env (fst x) (snd x))"
    unfolding list_step_def by (intro keeps_intros free_interruptible reported_error_keeps) simp
  then show ?case using Cons by (auto intro: keeps_intros)
qed (auto intro: keeps_intros)

lemma free_exec: "keeps (\<lambda>s. ps_stream s = 1) (exec env st)"
proof (induction st)
  case (pgsPrintStmt e)
  then show ?case by (simp add: free_print del: One_nat_def)
next
  case (pgsWhileStmt c b)
  then show ?case
    by (auto simp: truth_def simp del: One_nat_def intro!: keeps_while free_interruptible free.evaluation free.unary keeps_intros)
next
  case (pgsStmtList ls)
  then show ?case
    by (auto simp del: One_nat_def intro!: free_list)
qed (auto simp del: One_nat_def simp: expression_stmt_eval_def assert_eval_def break_eval_def continue_eval_def declare_eval_def
    if_eval_def truth_def intro!: keeps_intros free.evaluation free.unary free.state_access)


section \<open>The loop against its rules\<close>

text \<open>Big-step rules of \<open>WHILE\<close>, given what the condition and the body do.\<close>

inductive while_run ::
  "pgs_env \<Rightarrow> bool pgs \<Rightarrow> unit pgs \<Rightarrow> pgs_state \<Rightarrow> pgsException + unit \<Rightarrow> pgs_state \<Rightarrow> bool"
  for env c b where
  stop: "c s = Some (Inr False, t) \<Longrightarrow> while_run env c b s (Inr ()) t"
| cond_fails: "c s = Some (Inl e, t) \<Longrightarrow> while_run env c b s (Inl e) t"
| break_out: "c s = Some (Inr True, t) \<Longrightarrow> b t = Some (Inl pgsBreakException, u) \<Longrightarrow> while_run env c b s (Inr ()) u"
| body_fails: "c s = Some (Inr True, t) \<Longrightarrow> b t = Some (Inl e, u) \<Longrightarrow>
    e \<noteq> pgsBreakException \<Longrightarrow> e \<noteq> pgsContinueException \<Longrightarrow> while_run env c b s (Inl e) u"
| interrupted: "c s = Some (Inr True, t) \<Longrightarrow> b t = Some (q, u) \<Longrightarrow>
    q = Inr () \<or> q = Inl pgsContinueException \<Longrightarrow> test_destroy env u = Some (Inr True, v) \<Longrightarrow>
    while_run env c b s (Inl pgsInterruptException) v"
| again: "c s = Some (Inr True, t) \<Longrightarrow> b t = Some (q, u) \<Longrightarrow>
    q = Inr () \<or> q = Inl pgsContinueException \<Longrightarrow> test_destroy env u = Some (Inr False, v) \<Longrightarrow>
    while_run env c b v r w \<Longrightarrow> while_run env c b s r w"

inductive_cases while_runE: "while_run env c b s r t"

lemma body_run:
  "loop_body b t = Some (Inr True, u) \<longleftrightarrow> (\<exists>q. b t = Some (q, u) \<and> (q = Inr () \<or> q = Inl pgsContinueException))"
  "loop_body b t = Some (Inr False, u) \<longleftrightarrow> b t = Some (Inl pgsBreakException, u)"
  "loop_body b t = Some (Inl e, u) \<longleftrightarrow>
     b t = Some (Inl e, u) \<and> e \<noteq> pgsBreakException \<and> e \<noteq> pgsContinueException"
  by (auto simp: loop_body_def try_catch_def bind_prog_def ret_def throw_def
      split: Option.bind_splits sum.splits pgsException.splits)

lemma interruptible_run:
  "interruptible env u = (if env_destroyed env (ps_tests u)
     then Some (Inl pgsInterruptException, u\<lparr>ps_tests := Suc (ps_tests u)\<rparr>)
     else Some (Inr (), u\<lparr>ps_tests := Suc (ps_tests u)\<rparr>))"
  by (simp add: interruptible_def test_destroy_def bind_prog_def ret_def throw_def)

lemma while_run_sound: "while_run env c b s r t \<Longrightarrow> while_eval env c b s = Some (r, t)"
proof (induction rule: while_run.induct)
  case (stop s t)
  show ?case by (subst while_eval.simps) (simp add: bind_Inr[of c, OF stop] ret_apply)
next
  case (cond_fails s e t)
  show ?case by (subst while_eval.simps) (simp add: bind_Inl[of c, OF cond_fails])
next
  case (break_out s t u)
  then have i: "loop_body b t = Some (Inr False, u)" by (simp add: body_run)
  show ?case
    by (subst while_eval.simps) (simp add: bind_Inr[of c, OF break_out(1)] bind_Inr[where m = "loop_body b", OF i] ret_apply)
next
  case (body_fails s t e u)
  then have i: "loop_body b t = Some (Inl e, u)" by (simp add: body_run)
  show ?case
    by (subst while_eval.simps) (simp add: bind_Inr[of c, OF body_fails(1)] bind_Inl[where m = "loop_body b", OF i])
next
  case (interrupted s t q u v)
  then have i: "loop_body b t = Some (Inr True, u)" "interruptible env u = Some (Inl pgsInterruptException, v)"
    by (auto simp: body_run interruptible_run test_destroy_def)
  show ?case
    by (subst while_eval.simps)
      (simp add: bind_Inr[of c, OF interrupted(1)] bind_Inr[where m = "loop_body b", OF i(1)] bind_Inl[where m = "interruptible env", OF i(2)])
next
  case (again s t q u v r w)
  then have i: "loop_body b t = Some (Inr True, u)" "interruptible env u = Some (Inr (), v)"
    by (auto simp: body_run interruptible_run test_destroy_def)
  show ?case
    by (subst while_eval.simps)
      (simp add: bind_Inr[of c, OF again(1)] bind_Inr[where m = "loop_body b", OF i(1)] bind_Inr[where m = "interruptible env", OF i(2)] again.IH)
qed

lemma while_run_tests:
  assumes "c s = Some (Inr True, t)" "b t = Some (q, u)" "q = Inr () \<or> q = Inl pgsContinueException"
  shows "env_destroyed env (ps_tests u) \<Longrightarrow>
      while_run env c b s (Inl pgsInterruptException) (u\<lparr>ps_tests := Suc (ps_tests u)\<rparr>)"
    and "\<not> env_destroyed env (ps_tests u) \<Longrightarrow>
      while_run env c b (u\<lparr>ps_tests := Suc (ps_tests u)\<rparr>) r w \<Longrightarrow> while_run env c b s r w"
  using assms by (auto intro: while_run.interrupted while_run.again simp: test_destroy_def)

lemma while_run_complete:
  assumes "while_eval env c b s = Some (r, t)"
  shows "while_run env c b s r t"
proof -
  let ?P = "\<lambda>e c' b' s (y :: (pgsException + unit) \<times> pgs_state).
    e = env \<and> c' = c \<and> b' = b \<longrightarrow> while_run env c b s (fst y) (snd y)"
  have "?P env c b s (r, t)"
  proof (rule while_eval.raw_induct[where P = ?P, OF _ assms])
    fix f :: "pgs_env \<Rightarrow> bool pgs \<Rightarrow> unit pgs \<Rightarrow> pgs_state \<Rightarrow> ((pgsException + unit) \<times> pgs_state) option"
      and e c' b' s y
    assume IH: "\<And>e c' b' s y. f e c' b' s = Some y \<Longrightarrow> ?P e c' b' s y"
      and step: "bind_prog c' (\<lambda>x. if x then bind_prog (loop_body b') (\<lambda>go.
        if go then bind_prog (interruptible e) (\<lambda>_. f e c' b') else ret ()) else ret ()) s = Some y"
    show "?P e c' b' s y"
    proof
      assume a: "e = env \<and> c' = c \<and> b' = b"
      obtain r t where y: "y = (r, t)" by (cases y)
      have IH': "while_run env c b s r t" if "f env c b s = Some (r, t)" for s r t
        using IH[OF that] by simp
      have body: "while_run env c b s r t"
        if c: "c s = Some (Inr True, u)"
          and k: "bind_prog (loop_body b) (\<lambda>go. if go then bind_prog (interruptible env) (\<lambda>_. f env c b)
            else ret ()) u = Some (r, t)" for u
        using k
      proof (cases rule: bind_cases)
        case (inl e)
        then show ?thesis using while_run.body_fails[where c = c and s = s, OF c] by (simp add: body_run)
      next
        case (inr go v)
        show ?thesis
        proof (cases go)
          case False
          then show ?thesis using inr while_run.break_out[where c = c and s = s, OF c] by (simp add: body_run ret_apply)
        next
          case True
          then obtain q where q: "b u = Some (q, v)" "q = Inr () \<or> q = Inl pgsContinueException"
            using inr(1) by (auto simp: body_run)
          have i: "bind_prog (interruptible env) (\<lambda>_. f env c b) v = Some (r, t)"
            using inr(2) True by simp
          show ?thesis
          proof (cases "env_destroyed env (ps_tests v)")
            case True
            then have "r = Inl pgsInterruptException" "t = v\<lparr>ps_tests := Suc (ps_tests v)\<rparr>"
              using i by (simp_all add: bind_prog_def interruptible_run)
            then show ?thesis using while_run_tests(1)[where c = c and b = b, OF c q True] by simp
          next
            case False
            then have "f env c b (v\<lparr>ps_tests := Suc (ps_tests v)\<rparr>) = Some (r, t)"
              using i by (simp add: bind_prog_def interruptible_run)
            then show ?thesis using while_run_tests(2)[where c = c and b = b, OF c q False IH'] by simp
          qed
        qed
      qed
      from a have same: "e = env" "c' = c" "b' = b" by simp_all
      have "bind_prog c (\<lambda>x. if x then bind_prog (loop_body b) (\<lambda>go.
        if go then bind_prog (interruptible env) (\<lambda>_. f env c b) else ret ()) else ret ()) s = Some (r, t)"
        by (rule step[unfolded y same])
      then have "while_run env c b s r t"
      proof (cases rule: bind_cases)
        case (inl e)
        then show ?thesis using while_run.cond_fails by simp
      next
        case (inr x u)
        then show ?thesis using body while_run.stop by (cases x) (auto simp: ret_apply)
      qed
      then show "while_run env c b s (fst y) (snd y)" using y by simp
    qed
  qed
  then show ?thesis by simp
qed

section \<open>Errors are reported once\<close>

text \<open>The same evaluation without any report: what the statements do of their own.\<close>

primrec run_all :: "pgs_env \<Rightarrow> unit pgs list \<Rightarrow> unit pgs" where
  "run_all env [] = ret ()"
| "run_all env (m # ms) = bind_prog m (\<lambda>_. bind_prog (interruptible env) (\<lambda>_. run_all env ms))"

fun unreported :: "pgs_env \<Rightarrow> stmt \<Rightarrow> unit pgs" where
  "unreported env (pgsIfStmt c a b) = if_eval (truth env (eval env c)) (unreported env a) (unreported env b)"
| "unreported env (pgsWhileStmt c b) = while_eval env (truth env (eval env c)) (unreported env b)"
| "unreported env (pgsStmtList ls) = run_all env (map (\<lambda>(line, st). unreported env st) ls)"
| "unreported env st = exec env st"

text \<open>No error so far, since a state with output \<open>p\<close> and error line \<open>l\<close>; and the state after the report.\<close>

definition quiet :: "int \<Rightarrow> string \<Rightarrow> pgs_state \<Rightarrow> bool" where
  "quiet l p s \<longleftrightarrow> ps_stream s = 1 \<and> (ps_thrown s = False \<and> ps_error_line s = l) \<and> prefix p (ps_out s)"

definition reported :: "pgsException \<Rightarrow> int \<Rightarrow> pgs_state \<Rightarrow> pgs_state" where
  "reported e line s =
     s\<lparr>ps_out := ps_out s @ error_text e line, ps_thrown := True, ps_error_line := line\<rparr>"

lemma keeps_quietI:
  assumes "keeps (\<lambda>s. ps_stream s = 1) m" "\<And>l. keeps (\<lambda>s. ps_thrown s = False \<and> ps_error_line s = l) m"
    and "\<And>p. keeps (\<lambda>s. prefix p (ps_out s)) m"
  shows "keeps (quiet l p) m"
proof (rule keepsI)
  fix s r t
  assume "quiet l p s" "m s = Some (r, t)"
  then show "quiet l p t"
    using keepsD[OF assms(1), of s r t] keepsD[OF assms(2), of s l r t] keepsD[OF assms(3), of p s r t]
    by (simp add: quiet_def)
qed

lemmas quiet_eval = keeps_quietI[OF free.evaluation errors.evaluation written.evaluation]
lemmas quiet_true = keeps_quietI[OF free.unary(2) errors.unary(2) written.unary(2)]
lemmas quiet_value = keeps_quietI[OF free.var_value errors.var_value written.var_value]
lemmas quiet_test = keeps_quietI[OF free.test_destroy errors.test_destroy written.test_destroy]
lemmas quiet_set = keeps_quietI[OF free.state_access(2) errors.state_access(2) written.state_access(2)]

lemma quiet_truth: "keeps (quiet l p) (truth env (eval env c))"
  unfolding truth_def by (intro keeps_intros quiet_eval quiet_true)

lemma quiet_interruptible: "keeps (quiet l p) (interruptible env)"
  unfolding interruptible_def by (intro keeps_intros quiet_test)

lemma quiet_ret: "keeps (quiet l p) (ret x)" and quiet_throw: "keeps (quiet l p) (throw e)"
  by (rule keeps_intros)+

lemma quiet_print: "keeps (quiet l p) (print_eval env (eval env e))"
proof (rule keeps_quietI[OF free_print])
  have "keeps (\<lambda>s. ps_thrown s = False \<and> ps_error_line s = l) lock_output"
    "keeps (\<lambda>s. ps_thrown s = False \<and> ps_error_line s = l) unlock_output"
    "keeps (\<lambda>s. ps_thrown s = False \<and> ps_error_line s = l) (emit t)" for l t
    by (auto intro!: keepsI simp: lock_output_def unlock_output_def emit_def modifies_def split: if_splits)
  then show "keeps (\<lambda>s. ps_thrown s = False \<and> ps_error_line s = l) (print_eval env (eval env e))" for l
    unfolding print_eval_def by (intro keeps_intros errors.evaluation errors.var_value)
  have "keeps (\<lambda>s. prefix p (ps_out s)) lock_output" "keeps (\<lambda>s. prefix p (ps_out s)) unlock_output"
    "keeps (\<lambda>s. prefix p (ps_out s)) (emit t)" for p t
    by (auto intro!: keepsI simp: lock_output_def unlock_output_def emit_def modifies_def split: if_splits)
  then show "keeps (\<lambda>s. prefix p (ps_out s)) (print_eval env (eval env e))" for p
    unfolding print_eval_def by (intro keeps_intros written.evaluation written.var_value)
qed

text \<open>How a run with reports ends where the one without ends with \<open>r\<close> in \<open>t\<close>: the same way, or, at an error, with
  one report of it and no other change. \<open>mirrors L m m'\<close>: this holds of \<open>m\<close>, where \<open>m'\<close> is without
  reports; \<open>reports L m m'\<close>: errors have been reported too.\<close>

definition told :: "int set \<Rightarrow> pgsException + 'a \<Rightarrow> pgs_state \<Rightarrow> ((pgsException + 'a) \<times> pgs_state) option \<Rightarrow> bool" where
  "told L r t y \<longleftrightarrow> (\<exists>e line. r = Inl e \<and> is_error e \<and> line \<in> L \<and> y = Some (Inl e, reported e line t))"

definition untold_error :: "pgsException + 'a \<Rightarrow> bool" where
  "untold_error r \<longleftrightarrow> (\<exists>e. r = Inl e \<and> is_error e)"

definition mirrors :: "int set \<Rightarrow> 'a pgs \<Rightarrow> 'a pgs \<Rightarrow> bool" where
  "mirrors L m m' \<longleftrightarrow> (\<forall>l p s. quiet l p s \<longrightarrow>
     (case m' s of None \<Rightarrow> m s = None | Some (r, t) \<Rightarrow> quiet l p t \<and> (m s = Some (r, t) \<or> told L r t (m s))))"

definition reports :: "int set \<Rightarrow> unit pgs \<Rightarrow> unit pgs \<Rightarrow> bool" where
  "reports L m m' \<longleftrightarrow> (\<forall>l p s. quiet l p s \<longrightarrow>
     (case m' s of None \<Rightarrow> m s = None
      | Some (r, t) \<Rightarrow> quiet l p t \<and> (if untold_error r then told L r t (m s) else m s = Some (r, t))))"

lemma mirrors_cases:
  assumes "mirrors L m m'" "quiet l p s"
  obtains (none) "m' s = None" "m s = None"
  | (same) r t where "m' s = Some (r, t)" "m s = Some (r, t)" "quiet l p t"
  | (told) e line t where "m' s = Some (Inl e, t)" "is_error e" "line \<in> L" "quiet l p t"
      "m s = Some (Inl e, reported e line t)"
  using assms by (fastforce simp: mirrors_def told_def split: option.splits)

lemma mirrorsI:
  assumes "\<And>l p s. quiet l p s \<Longrightarrow>
    (m' s = None \<and> m s = None) \<or> (\<exists>r t. m' s = Some (r, t) \<and> quiet l p t \<and> (m s = Some (r, t) \<or> told L r t (m s)))"
  shows "mirrors L m m'"
  unfolding mirrors_def
proof (intro allI impI)
  fix l p s
  assume "quiet l p s"
  from assms[OF this] show "case m' s of None \<Rightarrow> m s = None
      | Some (r, t) \<Rightarrow> quiet l p t \<and> (m s = Some (r, t) \<or> told L r t (m s))" by auto
qed

lemma told_mono: "told L r t y \<Longrightarrow> L \<subseteq> M \<Longrightarrow> told M r t y"
  by (auto simp: told_def)

lemma mirrors_mono: "mirrors L m m' \<Longrightarrow> L \<subseteq> M \<Longrightarrow> mirrors M m m'"
  by (rule mirrorsI, erule (1) mirrors_cases) (auto simp: told_def)

lemma reports_mirrors: "reports L m m' \<Longrightarrow> mirrors L m m'"
proof (rule mirrorsI)
  fix l p s
  assume "reports L m m'" "quiet l p s"
  then have "case m' s of None \<Rightarrow> m s = None
    | Some (r, t) \<Rightarrow> quiet l p t \<and> (if untold_error r then told L r t (m s) else m s = Some (r, t))"
    unfolding reports_def by blast
  then show "(m' s = None \<and> m s = None) \<or>
      (\<exists>r t. m' s = Some (r, t) \<and> quiet l p t \<and> (m s = Some (r, t) \<or> told L r t (m s)))"
    by (auto split: option.splits if_splits)
qed

lemma mirrors_keeps: "(\<And>l p. keeps (quiet l p) m) \<Longrightarrow> mirrors L m m"
  by (rule mirrorsI) (metis keepsD not_None_eq surj_pair)

lemma mirrors_bind:
  assumes "mirrors L m m'" "\<And>x. mirrors L (k x) (k' x)"
  shows "mirrors L (bind_prog m k) (bind_prog m' k')"
proof (rule mirrorsI)
  fix l p s
  assume "quiet l p s"
  from assms(1) this
  show "(bind_prog m' k' s = None \<and> bind_prog m k s = None) \<or> (\<exists>r t. bind_prog m' k' s = Some (r, t) \<and> quiet l p t
      \<and> (bind_prog m k s = Some (r, t) \<or> told L r t (bind_prog m k s)))"
  proof (cases rule: mirrors_cases)
    case (same r t)
    show ?thesis
    proof (cases r)
      case (Inr x)
      then have b: "bind_prog m' k' s = k' x t" "bind_prog m k s = k x t" using same by (simp_all add: run_simps)
      from assms(2)[of x] same(3) show ?thesis
        by (cases rule: mirrors_cases) (auto simp: b told_def)
    qed (use same in \<open>simp add: run_simps\<close>)
  next
    case (told e line t)
    then show ?thesis by (auto simp: run_simps told_def)
  qed (simp add: run_simps)
qed

lemma mirrors_catch:
  assumes "mirrors L m m'" "\<And>e. mirrors L (h e) (h e)"
    and "\<And>e. is_error e \<Longrightarrow> h e = throw e"
  shows "mirrors L (try_catch m h) (try_catch m' h)"
proof (rule mirrorsI)
  fix l p s
  assume "quiet l p s"
  from assms(1) this
  show "(try_catch m' h s = None \<and> try_catch m h s = None) \<or> (\<exists>r t. try_catch m' h s = Some (r, t) \<and> quiet l p t
      \<and> (try_catch m h s = Some (r, t) \<or> told L r t (try_catch m h s)))"
  proof (cases rule: mirrors_cases)
    case (same r t)
    show ?thesis
    proof (cases r)
      case (Inl e)
      then have b: "try_catch m' h s = h e t" "try_catch m h s = h e t" using same by (simp_all add: run_simps)
      from assms(2)[of e] same(3) show ?thesis
        by (cases rule: mirrors_cases) (auto simp: b told_def)
    qed (use same in \<open>simp add: run_simps\<close>)
  next
    case (told e line t)
    then show ?thesis using assms(3)[of e] by (auto simp: run_simps told_def)
  qed (simp add: run_simps)
qed

lemma mirrors_if: "mirrors L m m' \<Longrightarrow> mirrors L n n' \<Longrightarrow> mirrors L (if b then m else n) (if b then m' else n')"
  by simp

lemma report_error_run:
  assumes "ps_stream s = 1"
  shows "report_error line e s =
    Some (Inr (), if \<not> ps_thrown s \<and> is_error e then reported e line s else s)"
  using assms
  by (simp add: report_error_def bind_reads do_when_def lock_output_def emit_def unlock_output_def
      modifies_def bind_Inr reported_def ret_def)

text \<open>The lines a script gives to its statements.\<close>

fun lines_of :: "stmt \<Rightarrow> int set" where
  "lines_of (pgsIfStmt c a b) = lines_of a \<union> lines_of b"
| "lines_of (pgsWhileStmt c b) = lines_of b"
| "lines_of (pgsStmtList ls) = (\<Union>x\<in>set ls. insert (fst x) (lines_of (snd x)))"
| "lines_of _ = {}"

section \<open>Loops and lists\<close>

lemma mirrors_body: "mirrors L b b' \<Longrightarrow> mirrors L (loop_body b) (loop_body b')"
  unfolding loop_body_def
  by (intro mirrors_catch mirrors_bind) (auto split: pgsException.split intro!: mirrors_keeps quiet_ret quiet_throw
      elim: is_error.elims)

lemma loop_mirrored:
  assumes b: "mirrors L b b'" and c: "\<And>l p. keeps (quiet l p) c"
  shows "while_run env c b' s r t \<Longrightarrow> quiet l p s \<Longrightarrow>
    quiet l p t \<and> (while_run env c b s r t
      \<or> (\<exists>e line. r = Inl e \<and> is_error e \<and> line \<in> L \<and> while_run env c b s (Inl e) (reported e line t)))"
proof (induction rule: while_run.induct)
  case (stop s t)
  then show ?case using keepsD[OF c] while_run.stop by blast
next
  case (cond_fails s e t)
  then show ?case using keepsD[OF c] while_run.cond_fails by blast
next
  case (break_out s t u)
  then have q: "quiet l p t" using keepsD[OF c] by blast
  from b q show ?case
    by (cases rule: mirrors_cases) (use break_out in \<open>auto intro: while_run.break_out\<close>)
next
  case (body_fails s t e u)
  then have q: "quiet l p t" using keepsD[OF c] by blast
  from b q show ?case
    by (cases rule: mirrors_cases) (use body_fails in \<open>auto intro: while_run.body_fails\<close>)
next
  case (interrupted s t q u v)
  then have q: "quiet l p t" using keepsD[OF c] by blast
  from b q have "b t = Some (q, u)" "quiet l p u"
    by (cases rule: mirrors_cases; use interrupted in auto)+
  then show ?case using interrupted keepsD[OF quiet_test] while_run.interrupted by metis
next
  case (again s t q u v r w)
  then have q: "quiet l p t" using keepsD[OF c] by blast
  from b q have u: "b t = Some (q, u)" "quiet l p u"
    by (cases rule: mirrors_cases; use again in auto)+
  then have "quiet l p v" using again keepsD[OF quiet_test] by blast
  then show ?case using again.IH while_run.again[where c = c and b = b, OF again.hyps(1) u(1) again.hyps(3,4)] by blast
qed

lemma loop_returns:
  assumes b: "mirrors L b b'" and c: "\<And>l p. keeps (quiet l p) c"
  shows "while_run env c b s r t \<Longrightarrow> quiet l p s \<Longrightarrow> \<exists>r' t'. while_run env c b' s r' t'"
proof (induction rule: while_run.induct)
  case (break_out s t u)
  then have q: "quiet l p t" using keepsD[OF c] by blast
  from b q show ?case
    by (cases rule: mirrors_cases) (use break_out in \<open>auto intro: while_run.break_out\<close>)
next
  case (body_fails s t e u)
  then have q: "quiet l p t" using keepsD[OF c] by blast
  from b q show ?case
    by (cases rule: mirrors_cases) (use body_fails in \<open>auto intro: while_run.body_fails\<close>)
next
  case (interrupted s t q u v)
  then have q: "quiet l p t" using keepsD[OF c] by blast
  from b q have "b' t = Some (q, u)"
    by (cases rule: mirrors_cases; use interrupted in auto)
  then show ?case using interrupted while_run.interrupted by metis
next
  case (again s t q u v r w)
  then have q: "quiet l p t" using keepsD[OF c] by blast
  from b q have u: "b' t = Some (q, u)" "quiet l p u"
    by (cases rule: mirrors_cases; use again in auto)+
  then have "quiet l p v" using again keepsD[OF quiet_test] by blast
  then show ?case using again.IH while_run.again[where c = c and b = b', OF again.hyps(1) u(1) again.hyps(3,4)] by blast
qed (auto intro: while_run.intros)

lemma mirrors_while:
  assumes "mirrors L b b'" "\<And>l p. keeps (quiet l p) c"
  shows "mirrors L (while_eval env c b) (while_eval env c b')"
proof (rule mirrorsI)
  fix l p s
  assume s: "quiet l p s"
  show "(while_eval env c b' s = None \<and> while_eval env c b s = None) \<or> (\<exists>r t. while_eval env c b' s = Some (r, t) \<and> quiet l p t
      \<and> (while_eval env c b s = Some (r, t) \<or> told L r t (while_eval env c b s)))"
  proof (cases "while_eval env c b' s")
    case None
    have "while_eval env c b s = None"
    proof (rule ccontr)
      assume "while_eval env c b s \<noteq> None"
      then obtain r t where "while_eval env c b s = Some (r, t)" by auto
      from loop_returns[OF assms while_run_complete[OF this] s] show False
        using None while_run_sound[of env c b' s] by fastforce
    qed
    then show ?thesis using None by simp
  next
    case (Some y)
    obtain r t where y: "y = (r, t)" by (cases y)
    show ?thesis
      using loop_mirrored[OF assms while_run_complete[OF Some[unfolded y]] s] Some y
      by (auto simp: told_def dest: while_run_sound)
  qed
qed

lemma reports_step:
  assumes "mirrors L m m'" "line \<in> L"
  shows "reports L (list_step env line m) (bind_prog m' (\<lambda>_. interruptible env))"
  unfolding reports_def
proof (intro allI impI)
  fix l p s
  assume s: "quiet l p s"
  have "mirrors L (bind_prog m (\<lambda>_. interruptible env)) (bind_prog m' (\<lambda>_. interruptible env))"
    by (intro mirrors_bind assms(1) mirrors_keeps quiet_interruptible)
  from this s show "case bind_prog m' (\<lambda>_. interruptible env) s of None \<Rightarrow> list_step env line m s = None
    | Some (r, t) \<Rightarrow> quiet l p t \<and> (if untold_error r then told L r t (list_step env line m s) else list_step env line m s = Some (r, t))"
  proof (cases rule: mirrors_cases)
    case (same r t)
    show ?thesis
    proof (cases r)
      case (Inl e)
      have "report_error line e t = Some (Inr (), if is_error e then reported e line t else t)"
        using same(3) by (simp add: report_error_run quiet_def)
      then have "list_step env line m s = Some (Inl e, if is_error e then reported e line t else t)"
        using same(2) Inl by (simp add: list_step_def run_simps)
      then show ?thesis using same Inl assms(2) by (auto simp: told_def untold_error_def)
    qed (use same in \<open>simp add: list_step_def run_simps untold_error_def\<close>)
  next
    case (told e k t)
    have "report_error line e (reported e k t) = Some (Inr (), reported e k t)"
      using told(4) by (simp add: report_error_run quiet_def reported_def)
    then have "list_step env line m s = Some (Inl e, reported e k t)"
      using told(5) by (simp add: list_step_def run_simps)
    then show ?thesis using told by (auto simp: told_def untold_error_def)
  qed (simp add: list_step_def run_simps)
qed

lemma reports_bind:
  assumes "reports L m m'" "reports L n n'"
  shows "reports L (bind_prog m (\<lambda>_. n)) (bind_prog m' (\<lambda>_. n'))"
  unfolding reports_def
proof (intro allI impI)
  fix l p s
  assume s: "quiet l p s"
  show "case bind_prog m' (\<lambda>_. n') s of None \<Rightarrow> bind_prog m (\<lambda>_. n) s = None
    | Some (r, t) \<Rightarrow> quiet l p t
      \<and> (if untold_error r then told L r t (bind_prog m (\<lambda>_. n) s) else bind_prog m (\<lambda>_. n) s = Some (r, t))"
  proof (cases "m' s")
    case None
    then have "m s = None" using assms(1) s by (force simp: reports_def)
    then show ?thesis using None by (simp add: run_simps)
  next
    case (Some y)
    obtain r t where y: "y = (r, t)" by (cases y)
    have m: "quiet l p t" "if untold_error r then told L r t (m s) else m s = Some (r, t)"
      using assms(1) s Some y unfolding reports_def by (force split: if_splits)+
    show ?thesis
    proof (cases r)
      case (Inl e)
      then have b: "bind_prog m' (\<lambda>_. n') s = Some (Inl e, t)" using Some y by (simp add: run_simps)
      show ?thesis
      proof (cases "is_error e")
        case True
        then have "told L r t (m s)" using m(2) Inl by (simp add: untold_error_def)
        then show ?thesis using True m(1) Inl b by (auto simp: told_def untold_error_def run_simps)
      next
        case False
        then show ?thesis using m Inl b by (simp add: untold_error_def run_simps)
      qed
    next
      case (Inr x)
      then have "bind_prog m (\<lambda>_. n) s = n t" "bind_prog m' (\<lambda>_. n') s = n' t"
        using m(2) Some y by (simp_all add: run_simps untold_error_def)
      moreover have "case n' t of None \<Rightarrow> n t = None
        | Some (r, u) \<Rightarrow> quiet l p u \<and> (if untold_error r then told L r u (n t) else n t = Some (r, u))"
        using assms(2) m(1) unfolding reports_def by blast
      ultimately show ?thesis by (simp only:)
    qed
  qed
qed

lemma reports_list:
  "list_all2 (\<lambda>x m'. mirrors L (snd x) m' \<and> fst x \<in> L) xs ms \<Longrightarrow> reports L (list_eval env xs) (run_all env ms)"
proof (induction rule: list_all2_induct)
  case Nil
  then show ?case by (simp add: reports_def ret_apply untold_error_def)
next
  case (Cons x xs m ms)
  have "bind_prog m (\<lambda>_. bind_prog (interruptible env) (\<lambda>_. k)) = bind_prog (bind_prog m (\<lambda>_. interruptible env)) (\<lambda>_. k)"
    for k :: "unit pgs" by (simp add: bind_assoc)
  then show ?case using Cons by (auto intro!: reports_bind reports_step)
qed

lemma reports_statements:
  assumes "\<And>x. x \<in> set ls \<Longrightarrow> mirrors L (exec env (snd x)) (unreported env (snd x)) \<and> fst x \<in> L"
  shows "reports L (exec env (pgsStmtList ls)) (unreported env (pgsStmtList ls))"
proof -
  have "reports L (list_eval env (map (\<lambda>(line, st). (line, exec env st)) ls)) (run_all env (map (\<lambda>(line, st). unreported env st) ls))"
    using assms by (intro reports_list) (simp add: list_all2_map1 list_all2_map2 list_all2_same split_beta)
  then show ?thesis by simp
qed

lemma exec_mirrors: "mirrors (lines_of st) (exec env st) (unreported env st)"
proof (induction st)
  case (pgsIfStmt c a b)
  then show ?case
    by (auto simp: if_eval_def intro!: mirrors_bind mirrors_keeps quiet_truth intro: mirrors_mono)
next
  case (pgsWhileStmt c b)
  then show ?case by (auto intro!: mirrors_while quiet_truth)
next
  case (pgsStmtList ls)
  have "mirrors (lines_of (pgsStmtList ls)) (exec env (snd x)) (unreported env (snd x)) \<and> fst x \<in> lines_of (pgsStmtList ls)"
    if "x \<in> set ls" for x
  proof (cases x)
    case (Pair line st)
    have "mirrors (lines_of (pgsStmtList ls)) (exec env st) (unreported env st)"
      by (rule mirrors_mono[OF pgsStmtList.IH[of "(line, st)" st]]) (use that Pair in \<open>force+\<close>)
    then show ?thesis using that Pair by force
  qed
  then show ?case by (intro reports_mirrors reports_statements)
qed (auto simp: expression_stmt_eval_def assert_eval_def break_eval_def continue_eval_def declare_eval_def
    intro!: mirrors_keeps keeps_intros quiet_eval quiet_true quiet_print quiet_set)

lemma list_reports: "reports (lines_of (pgsStmtList ls)) (exec env (pgsStmtList ls)) (unreported env (pgsStmtList ls))"
  by (intro reports_statements conjI mirrors_mono[OF exec_mirrors]) force+

end
