(* ===== verification/PgsScript.thy ===== *)
theory PgsScript
  imports PgsRun PgsEval
begin

text \<open>
  Properties of statements and scripts: variables stay well formed, the output semaphore is given
  back, errors are reported once and with their line, the loop obeys its rules and stops once the
  script is told to stop, \<open>BREAK\<close> outside a loop, a query within \<open>PRINT\<close>, \<open>DECLARE\<close>.
\<close>

section \<open>Soundness\<close>

fun stmt_ok :: "stmt \<Rightarrow> bool" where
  "stmt_ok (pgsExpressionStmt e) = expr_ok e"
| "stmt_ok (pgsPrintStmt e) = expr_ok e"
| "stmt_ok (pgsAssertStmt e) = expr_ok e"
| "stmt_ok (pgsIfStmt c a b) = (expr_ok c \<and> stmt_ok a \<and> stmt_ok b)"
| "stmt_ok (pgsWhileStmt c b) = (expr_ok c \<and> stmt_ok b)"
| "stmt_ok (pgsStmtList ls) = (\<forall>x\<in>set ls. stmt_ok (snd x))"
| "stmt_ok _ = True"

abbreviation sound :: "ptype list \<Rightarrow> pgs_state \<Rightarrow> bool" where
  "sound K \<equiv> \<lambda>s. st_ok s \<and> prefix K (kinds s)"

lemma typed_keeps: "(\<And>L. typed L P m) \<Longrightarrow> keeps (sound K) m"
  by (rule keepsI) (blast dest: typedD intro: prefix_order.trans)

lemma sound_step: "ps_vars t = ps_vars s \<Longrightarrow> ps_gens t = ps_gens s \<Longrightarrow> sound K s \<Longrightarrow> sound K t"
  by (simp add: st_ok_def kinds_def)

lemma sound_output [keeps_intros]:
  "keeps (sound K) (emit t)" "keeps (sound K) lock_output" "keeps (sound K) unlock_output"
  "keeps (sound K) (interruptible env)" "keeps (sound K) (report_error line e)"
proof -
  show e: "keeps (sound K) (emit t)" for t
    unfolding emit_def by (rule keeps_modifies) (simp add: st_ok_def kinds_def)
  show l: "keeps (sound K) lock_output"
    by (rule keepsI) (auto simp: lock_output_def st_ok_def kinds_def split: if_splits)
  show u: "keeps (sound K) unlock_output"
    unfolding unlock_output_def by (rule keeps_modifies) (simp add: st_ok_def kinds_def)
  show "keeps (sound K) (interruptible env)"
    unfolding interruptible_def by (intro keeps_intros typed_keeps[OF typed_test_destroy])
  have "keeps (sound K) (modifies (\<lambda>s. s\<lparr>ps_error_line := line\<rparr>))"
    "keeps (sound K) (modifies (\<lambda>s. s\<lparr>ps_thrown := True\<rparr>))"
    by (rule keeps_modifies; simp add: st_ok_def kinds_def)+
  then show "keeps (sound K) (report_error line e)"
    unfolding report_error_def by (intro keeps_intros e l u)
qed

lemma sound_eval: "env_ok env \<Longrightarrow> expr_ok e \<Longrightarrow> keeps (sound K) (eval env e)"
  by (rule typed_keeps[OF vtypedD[OF vtyped_eval]])

lemma sound_truth: "env_ok env \<Longrightarrow> expr_ok e \<Longrightarrow> keeps (sound K) (truth env (eval env e))"
  unfolding truth_def by (rule typed_keeps[OF typed_truth[OF vtyped_eval]])

lemma sound_print:
  assumes "env_ok env" "expr_ok e"
  shows "keeps (sound K) (print_eval env (eval env e))"
proof -
  have "typed L (\<lambda>L t. True) (bind_prog (eval env e) (var_value env))" for L
    by (rule typed_vbind[OF vtyped_eval[OF assms]]) (rule typed_any[OF typed_var_value])
  from typed_keeps[OF this]
  have v: "keeps (sound K) (bind_prog (bind_prog (eval env e) (var_value env)) (\<lambda>t. emit (t @ [newline_char])))"
    by (rule keeps_bind) (rule sound_output)
  have "keeps (sound K) (bind_prog (eval env e) (\<lambda>v. bind_prog (var_value env v) (\<lambda>t. emit (t @ [newline_char]))))"
    using v by (simp only: bind_assoc)
  then show ?thesis
    unfolding print_eval_def
    by (intro keeps_bind[OF sound_output(2)] keeps_bind[OF keeps_catch] keeps_bind[OF sound_output(3)]
        keeps_bind[OF sound_output(1)] sound_output keeps_throw)
qed

lemma sound_declare: "keeps (sound K) (declare_eval n cs)"
proof -
  have "val_ok L (RecordVar (name_columns 0 cs (new_record (of_nat (length cs)))))" for L
    by (simp add: name_columns_ok record_ok_new)
  then show ?thesis unfolding declare_eval_def by (rule typed_keeps[OF typed_set_var])
qed

lemma sound_list:
  "(\<And>x. x \<in> set xs \<Longrightarrow> keeps (sound K) (snd x)) \<Longrightarrow> keeps (sound K) (list_eval env xs)"
proof (induction xs)
  case (Cons x xs)
  then have "keeps (sound K) (list_step env (fst x) (snd x))"
    unfolding list_step_def by (intro keeps_intros) simp
  then show ?case using Cons by (auto intro: keeps_intros)
qed (auto intro: keeps_intros)

lemma sound_exec: "env_ok env \<Longrightarrow> stmt_ok st \<Longrightarrow> keeps (sound K) (exec env st)"
proof (induction st)
  case (pgsAssertStmt e)
  have "keeps (sound K) (bind_prog (truth env (eval env e))
      (\<lambda>b. if b then ret () else throw (pgsAssertException (expr_value e))))"
    using pgsAssertStmt by (intro keeps_intros sound_truth) simp_all
  then show ?case by (simp add: assert_eval_def truth_def bind_assoc)
next
  case (pgsStmtList ls)
  then have "keeps (sound K) (exec env st)" if "(line, st) \<in> set ls" for line st
    using that by fastforce
  then show ?case by (auto intro!: sound_list)
qed (auto simp: expression_stmt_eval_def break_eval_def continue_eval_def if_eval_def
    intro!: keeps_intros keeps_while sound_truth sound_eval sound_print sound_declare)

text \<open>C2. Scripts are sound: whatever a statement does, also when it throws, every variable stays
  well formed, and every generator a variable refers to still exists and has kept its type.\<close>

theorem script_sound:
  assumes "env_ok env" "stmt_ok st" "st_ok s" "exec env st s = Some (r, t)"
  shows "st_ok t \<and> prefix (kinds s) (kinds t)"
  using keepsD[OF sound_exec[OF assms(1,2), of "kinds s"]] assms(3,4) by blast

abbreviation one :: expr where "one \<equiv> Literal (PgsNumber False ''1'')"

abbreviation set_a :: stmt where "set_a \<equiv> pgsExpressionStmt (pgsAssign ''@A'' one)"

lemma one_ok: "expr_ok one"
  by (simp add: number_is_valid_def num_type_def int_form_def skip_sign_def is_digit_def)

lemma set_a_run:
  "exec env set_a s = Some (Inr (), s\<lparr>ps_vars := (ps_vars s)(''@A'' \<mapsto> Scalar (PgsNumber False ''1''))\<rparr>)"
  by (simp add: expression_stmt_eval_def assign_eval_def set_var_def prog_simps modifies_def bind_prog_def
      ret_apply)

theorem script_sound_witness: "st_ok (snd (the (exec idle_env set_a (with_vars (\<lambda>n. None)))))"
proof -
  have "stmt_ok set_a" using one_ok by simp
  from script_sound[OF idle_env_ok this empty_state_ok set_a_run] show ?thesis
    by (simp only: set_a_run option.sel snd_conv)
qed

section \<open>The output semaphore\<close>

lemma stream_given_back: "ps_stream s = 1 \<Longrightarrow> exec env st s = Some (r, t) \<Longrightarrow> ps_stream t = 1"
  by (rule keepsD[OF free_exec])

text \<open>The output semaphore is balanced: a statement that is started with the semaphore free and
  that ends, by an exception or not, leaves it free.\<close>

theorem output_released:
  "ps_stream s = 1 \<Longrightarrow> exec env st s = Some (r, t) \<Longrightarrow> ps_stream t = 1"
  by (rule stream_given_back)

lemma print_one:
  "ps_stream s = 1 \<Longrightarrow> exec env (pgsPrintStmt one) s =
     Some (Inr (), s\<lparr>ps_out := ps_out s @ PGSOUTPGSCRIPT @ ''1'' @ [newline_char], ps_stream := 1\<rparr>)"
  by (simp add: print_eval_def lock_output_def unlock_output_def emit_def prog_simps run_simps
      bind_prog_def try_catch_def)

lemma empty_state_free: "ps_stream (with_vars vs) = 1"
  by (simp add: with_vars_def state_with_def)

theorem output_released_witness:
  "ps_stream (snd (the (exec idle_env (pgsPrintStmt one) (with_vars (\<lambda>n. None))))) = 1"
  using output_released[OF empty_state_free print_one[OF empty_state_free]]
  by (simp only: print_one[OF empty_state_free] option.sel snd_conv)

section \<open>Errors\<close>

lemma program_run:
  "exec env (pgsStmtList ls) s = Some (q, u) \<Longrightarrow> program_eval env ls s = Some (Inr (), u\<lparr>ps_thrown := False\<rparr>)"
  by (cases q) (simp_all add: program_eval_def bind_prog_def try_catch_def ret_def modifies_def)

text \<open>How a script ends in the state \<open>t\<close>, where without reports its statements end with \<open>q\<close> in \<open>u\<close>.\<close>

definition ended_as :: "int set \<Rightarrow> pgsException + unit \<Rightarrow> pgs_state \<Rightarrow> pgs_state \<Rightarrow> bool" where
  "ended_as L q u t \<longleftrightarrow>
     (case q of
        Inl e \<Rightarrow>
          if is_error e
          then \<exists>line\<in>L. t = u\<lparr>ps_error_line := line, ps_out := ps_out u @ error_text e line\<rparr>
          else t = u
      | Inr _ \<Rightarrow> t = u)"

lemma program_outcome:
  assumes "ps_stream s = 1" "\<not> ps_thrown s"
  shows "case unreported env (pgsStmtList ls) s of
      None \<Rightarrow> program_eval env ls s = None
    | Some (q, u) \<Rightarrow> quiet (ps_error_line s) (ps_out s) u
        \<and> (\<exists>t. program_eval env ls s = Some (Inr (), t) \<and> ended_as (lines_of (pgsStmtList ls)) q u t)"
proof -
  let ?L = "lines_of (pgsStmtList ls)" and ?m = "exec env (pgsStmtList ls)" and ?m' = "unreported env (pgsStmtList ls)"
  have "quiet (ps_error_line s) (ps_out s) s" using assms by (simp add: quiet_def)
  then have r: "case ?m' s of None \<Rightarrow> ?m s = None
    | Some (q, u) \<Rightarrow> quiet (ps_error_line s) (ps_out s) u
        \<and> (if untold_error q then told ?L q u (?m s) else ?m s = Some (q, u))"
    using list_reports[of ls env] unfolding reports_def by blast
  show ?thesis
  proof (cases "?m' s")
    case None
    then show ?thesis using r by (simp add: program_eval_def run_simps del: exec.simps unreported.simps)
  next
    case (Some y)
    obtain q u where y: "y = (q, u)" by (cases y)
    then have u: "quiet (ps_error_line s) (ps_out s) u" "if untold_error q then told ?L q u (?m s) else ?m s = Some (q, u)"
      using r Some by (simp_all del: exec.simps unreported.simps lines_of.simps)
    have "\<exists>t. program_eval env ls s = Some (Inr (), t) \<and> ended_as ?L q u t"
    proof (cases "untold_error q")
      case True
      then obtain e line where e: "q = Inl e" "is_error e" "line \<in> ?L" "?m s = Some (Inl e, reported e line u)"
        using u(2) by (auto simp: told_def)
      have "(reported e line u)\<lparr>ps_thrown := False\<rparr> = u\<lparr>ps_error_line := line, ps_out := ps_out u @ error_text e line\<rparr>"
        using u(1) by (simp add: reported_def quiet_def)
      then show ?thesis using program_run[OF e(4)] e(1-3) by (auto simp: ended_as_def simp del: lines_of.simps)
    next
      case False
      then have "?m s = Some (q, u)" using u(2) by simp
      moreover have "u\<lparr>ps_thrown := False\<rparr> = u" using u(1) by (simp add: quiet_def)
      ultimately have "program_eval env ls s = Some (Inr (), u)" using program_run by metis
      then show ?thesis using False by (auto simp: ended_as_def untold_error_def split: sum.split)
    qed
    then show ?thesis using u(1) Some y by (simp del: exec.simps unreported.simps lines_of.simps)
  qed
qed

text \<open>C1. A script never throws: it does what its statements do when nothing is reported, and ends in the state
  they end in, with the output semaphore free and the error flag cleared. If they end with an error,
  however deep in nested blocks and loops it was raised, exactly one report of it is added, at the end of the
  output, with the line of a statement of the script, which becomes the error line. If they end
  normally, or with a stray \<open>BREAK\<close> or \<open>CONTINUE\<close>, nothing is added and the error line stays as it
  was. The script runs for ever exactly when they do.\<close>

theorem program_reports:
  assumes "ps_stream s = 1" "\<not> ps_thrown s"
  shows "case unreported env (pgsStmtList ls) s of
      None \<Rightarrow> program_eval env ls s = None
    | Some (q, u) \<Rightarrow> ps_stream u = 1 \<and> \<not> ps_thrown u \<and> ps_error_line u = ps_error_line s \<and>
       (case q of
          Inl e \<Rightarrow>
            if is_error e
            then \<exists>line\<in>lines_of (pgsStmtList ls). program_eval env ls s
                   = Some (Inr (), u\<lparr>ps_error_line := line, ps_out := ps_out u @ error_text e line\<rparr>)
            else program_eval env ls s = Some (Inr (), u)
        | Inr _ \<Rightarrow> program_eval env ls s = Some (Inr (), u))"
  using program_outcome[OF assms, of env ls]
  by (auto simp: quiet_def ended_as_def split: option.splits sum.splits simp del: unreported.simps lines_of.simps)

abbreviation fails :: stmt where "fails \<equiv> pgsAssertStmt (Literal (PgsString []))"

lemma fails_run: "exec env fails s = Some (Inl (pgsAssertException []), s)"
proof -
  have "\<not> string_is_true []" by code_simp
  then show ?thesis by (simp add: assert_eval_def prog_simps pgs_is_true_def dispatch_def throw_apply)
qed

lemma failing_blocks:
  "unreported env (pgsStmtList [(1, pgsIfStmt one (pgsStmtList [(3, fails)]) (pgsStmtList []))]) s
    = Some (Inl (pgsAssertException []), s)"
proof -
  have "number_is_true ''1''" by code_simp
  then have "truth env (eval env one) = ret True"
    by (simp add: truth_def prog_simps pgs_is_true_def dispatch_def)
  then show ?thesis
    using fails_run[of env s] by (simp add: if_eval_def prog_simps bind_prog_def throw_apply)
qed

theorem program_reports_witness:
  "\<exists>line\<in>{1, 3}. program_eval idle_env [(1, pgsIfStmt one (pgsStmtList [(3, fails)]) (pgsStmtList []))] (with_vars (\<lambda>n. None))
     = Some (Inr (), (with_vars (\<lambda>n. None))\<lparr>ps_error_line := line,
         ps_out := ps_out (with_vars (\<lambda>n. None)) @ error_text (pgsAssertException []) line\<rparr>)"
proof -
  have s: "\<not> ps_thrown (with_vars (\<lambda>n. None))" by (simp add: with_vars_def state_with_def)
  have l: "lines_of (pgsStmtList [(1, pgsIfStmt one (pgsStmtList [(3, fails)]) (pgsStmtList []))]) = {1, 3}" by simp
  show ?thesis
    using program_reports[OF empty_state_free s, of idle_env "[(1, pgsIfStmt one (pgsStmtList [(3, fails)]) (pgsStmtList []))]"]
    unfolding failing_blocks l option.case prod.case sum.case by simp
qed

lemma list_append:
  "list_eval env (xs @ ys) = bind_prog (list_eval env xs) (\<lambda>_. list_eval env ys)"
  by (induction xs) (simp_all add: prog_simps bind_assoc)

text \<open>\<open>BREAK\<close> outside a loop ends the script, silently: the statements after it are not run and
  nothing is reported, whatever they are.\<close>

theorem break_ends_script:
  assumes "ps_stream s = 1" "exec env (pgsStmtList before) s = Some (Inr (), t)"
  shows "program_eval env (before @ (line, pgsBreakStmt) # after) s = Some (Inr (), t\<lparr>ps_thrown := False\<rparr>)"
proof -
  have t: "ps_stream t = 1" by (rule stream_given_back[OF assms])
  have "list_step env line break_eval t = Some (Inl pgsBreakException, t)"
    using t by (simp add: list_step_def try_catch_def bind_prog_def break_eval_def throw_apply report_error_run)
  then have "exec env (pgsStmtList (before @ (line, pgsBreakStmt) # after)) s = Some (Inl pgsBreakException, t)"
    using assms(2) by (simp add: list_append bind_prog_def)
  then show ?thesis
    by (simp add: program_eval_def bind_prog_def try_catch_def ret_def modifies_def)
qed

theorem break_ends_script_witness:
  "program_eval idle_env [(1, pgsBreakStmt), (2, fails)] (with_vars (\<lambda>n. None)) =
     Some (Inr (), with_vars (\<lambda>n. None))"
  using break_ends_script[OF empty_state_free, of idle_env "[]" "\<lambda>n. None" "with_vars (\<lambda>n. None)" 1 "[(2, fails)]"]
  by (simp add: ret_apply with_vars_def state_with_def del: exec.simps(3))

section \<open>Loops\<close>

text \<open>C5. The loop \<open>WHILE\<close> is exactly its big-step rules: the condition is tested before each run of
  the body, \<open>CONTINUE\<close> ends that run only, \<open>BREAK\<close> the loop without an exception, any other
  exception of condition or body ends the loop and is passed on, and after each run the script is
  asked whether it is to stop. It returns nothing exactly when no derivation exists.\<close>

theorem while_rules: "while_eval env c b s = Some (r, t) \<longleftrightarrow> while_run env c b s r t"
  using while_run_sound while_run_complete by blast

section \<open>Stopping\<close>

text \<open>A program that returns, from each well-formed state with the semaphore free, to such a state.\<close>

definition ends :: "'a pgs \<Rightarrow> bool" where
  "ends m \<longleftrightarrow> (\<forall>s. st_ok s \<and> ps_stream s = 1 \<longrightarrow>
     (\<exists>r t. m s = Some (r, t) \<and> st_ok t \<and> ps_stream t = 1 \<and> ps_tests s \<le> ps_tests t))"

definition answers :: "'a pgs \<Rightarrow> bool" where
  "answers m \<longleftrightarrow> (\<forall>s. st_ok s \<longrightarrow> (\<exists>r t. m s = Some (r, t) \<and> ps_tests s \<le> ps_tests t))"

text \<open>Each use a statement makes of an expression returns.\<close>

definition expr_answers :: "pgs_env \<Rightarrow> expr \<Rightarrow> bool" where
  "expr_answers env e \<longleftrightarrow> answers (eval env e) \<and> answers (bind_prog (eval env e) (var_value env))
     \<and> answers (truth env (eval env e))"

fun exprs_of :: "stmt \<Rightarrow> expr set" where
  "exprs_of (pgsExpressionStmt e) = {e}"
| "exprs_of (pgsPrintStmt e) = {e}"
| "exprs_of (pgsAssertStmt e) = {e}"
| "exprs_of (pgsIfStmt c a b) = {c} \<union> exprs_of a \<union> exprs_of b"
| "exprs_of (pgsWhileStmt c b) = {c} \<union> exprs_of b"
| "exprs_of (pgsStmtList ls) = (\<Union>x\<in>set ls. exprs_of (snd x))"
| "exprs_of _ = {}"

lemma endsD:
  assumes "ends m" "st_ok s" "ps_stream s = 1"
  obtains r t where "m s = Some (r, t)" "st_ok t" "ps_stream t = 1" "ps_tests s \<le> ps_tests t"
  using assms by (auto simp: ends_def)

lemma endsI:
  assumes "answers m" "\<And>K. keeps (sound K) m" "keeps (\<lambda>s. ps_stream s = 1) m"
  shows "ends m"
  unfolding ends_def
proof (intro allI impI)
  fix s
  assume s: "st_ok s \<and> ps_stream s = 1"
  obtain r t where t: "m s = Some (r, t)" "ps_tests s \<le> ps_tests t" using assms(1) s by (auto simp: answers_def)
  moreover have "st_ok t" using keepsD[OF assms(2)[of "[]"] _ t(1)] s by simp
  moreover have "ps_stream t = 1" using keepsD[OF assms(3) _ t(1)] s by simp
  ultimately show "\<exists>r t. m s = Some (r, t) \<and> st_ok t \<and> ps_stream t = 1 \<and> ps_tests s \<le> ps_tests t"
    by blast
qed

lemma ends_ret: "ends (ret x)" and ends_throw: "ends (throw e)"
  by (auto simp: ends_def ret_def throw_def)

lemma ends_bind:
  assumes "ends m" "\<And>x. ends (k x)"
  shows "ends (bind_prog m k)"
  unfolding ends_def
proof (intro allI impI)
  fix s
  assume "st_ok s \<and> ps_stream s = 1"
  then obtain r t where t: "m s = Some (r, t)" "st_ok t" "ps_stream t = 1" "ps_tests s \<le> ps_tests t"
    using endsD[OF assms(1)] by blast
  show "\<exists>r t. bind_prog m k s = Some (r, t) \<and> st_ok t \<and> ps_stream t = 1 \<and> ps_tests s \<le> ps_tests t"
  proof (cases r)
    case (Inr x)
    obtain q u where "k x t = Some (q, u)" "st_ok u" "ps_stream u = 1" "ps_tests t \<le> ps_tests u"
      using endsD[OF assms(2) t(2,3)] by blast
    then show ?thesis using t Inr by (auto simp: bind_prog_def)
  qed (use t in \<open>auto simp: bind_prog_def\<close>)
qed

lemma ends_catch:
  assumes "ends m" "\<And>e. ends (h e)"
  shows "ends (try_catch m h)"
  unfolding ends_def
proof (intro allI impI)
  fix s
  assume "st_ok s \<and> ps_stream s = 1"
  then obtain r t where t: "m s = Some (r, t)" "st_ok t" "ps_stream t = 1" "ps_tests s \<le> ps_tests t"
    using endsD[OF assms(1)] by blast
  show "\<exists>r t. try_catch m h s = Some (r, t) \<and> st_ok t \<and> ps_stream t = 1 \<and> ps_tests s \<le> ps_tests t"
  proof (cases r)
    case (Inl e)
    obtain q u where "h e t = Some (q, u)" "st_ok u" "ps_stream u = 1" "ps_tests t \<le> ps_tests u"
      using endsD[OF assms(2) t(2,3)] by blast
    then show ?thesis using t Inl by (auto simp: try_catch_def)
  qed (use t in \<open>auto simp: try_catch_def\<close>)
qed

lemma ends_interruptible: "ends (interruptible env)"
  by (auto simp: ends_def interruptible_run st_ok_def kinds_def)

lemma ends_if: "ends m \<Longrightarrow> ends n \<Longrightarrow> ends (if b then m else n)"
  by simp

lemma ends_report: "ends (report_error line e)"
  by (auto simp: ends_def report_error_run reported_def st_ok_def kinds_def)

lemma ends_body: "ends b \<Longrightarrow> ends (loop_body b)"
  unfolding loop_body_def
  by (intro ends_catch ends_bind ends_ret) (auto split: pgsException.split intro: ends_ret ends_throw)

lemma while_step:
  assumes "c s = Some (Inr True, t)" "loop_body b t = Some (Inr True, u)" "interruptible env u = Some (q, v)"
  shows "while_eval env c b s = (case q of Inl e \<Rightarrow> Some (Inl e, v) | Inr _ \<Rightarrow> while_eval env c b v)"
  by (subst while_eval.simps) (simp add: bind_prog_def assms split: sum.split)

lemma ends_while:
  assumes "ends c" "ends b" "\<And>k. n \<le> k \<Longrightarrow> env_destroyed env k"
  shows "ends (while_eval env c b)"
proof -
  have "\<exists>r t. while_eval env c b s = Some (r, t) \<and> st_ok t \<and> ps_stream t = 1 \<and> ps_tests s \<le> ps_tests t"
    if "st_ok s" "ps_stream s = 1" for s
    using that
  proof (induction "n - ps_tests s" arbitrary: s rule: less_induct)
    case less
    obtain r t where t: "c s = Some (r, t)" "st_ok t" "ps_stream t = 1" "ps_tests s \<le> ps_tests t"
      using endsD[OF assms(1) less.prems] .
    obtain q u where u: "loop_body b t = Some (q, u)" "st_ok u" "ps_stream u = 1" "ps_tests t \<le> ps_tests u"
      using endsD[OF ends_body[OF assms(2)] t(2,3)] .
    show ?case
    proof (cases "r = Inr True \<and> q = Inr True")
      case False
      then show ?thesis
        using t u by (subst while_eval.simps) (auto simp: bind_prog_def ret_def split: sum.splits)
    next
      case True
      let ?v = "u\<lparr>ps_tests := Suc (ps_tests u)\<rparr>"
      have v: "st_ok ?v" "ps_stream ?v = 1" using u(2,3) by (simp_all add: st_ok_def kinds_def)
      note w = while_step[where c = c and b = b and s = s, OF t(1)[unfolded conjunct1[OF True]] u(1)[unfolded conjunct2[OF True]]]
      show ?thesis
      proof (cases "env_destroyed env (ps_tests u)")
        case True
        then show ?thesis using w v t(4) u(4) by (simp add: interruptible_run)
      next
        case False
        then have "ps_tests u < n" using assms(3) not_le_imp_less by blast
        then have "n - ps_tests ?v < n - ps_tests s" using t(4) u(4) by simp
        from less.hyps[OF this v] show ?thesis
          using w False t(4) u(4) by (fastforce simp: interruptible_run)
      qed
    qed
  qed
  then show ?thesis by (auto simp: ends_def)
qed

lemma ends_print:
  assumes "env_ok env" "expr_ok e" "answers (bind_prog (eval env e) (var_value env))"
  shows "ends (print_eval env (eval env e))"
  unfolding ends_def
proof (intro allI impI)
  fix s
  assume s: "st_ok s \<and> ps_stream s = 1"
  let ?u = "s\<lparr>ps_stream := 0, ps_out := ps_out s @ PGSOUTPGSCRIPT\<rparr>"
  have "st_ok ?u" using s by (simp add: st_ok_def kinds_def)
  then obtain r t where t: "bind_prog (eval env e) (var_value env) ?u = Some (r, t)" "ps_tests s \<le> ps_tests t"
    using assms(3) by (fastforce simp: answers_def)
  have k: "bind_prog (eval env e) (\<lambda>v. bind_prog (var_value env v) k) ?u =
      (case r of Inl x \<Rightarrow> Some (Inl x, t) | Inr x \<Rightarrow> k x t)" for k :: "string \<Rightarrow> unit pgs"
    using t(1) by (simp only: bind_assoc[symmetric]) (simp add: bind_prog_def split: sum.split)
  have l: "lock_output s = Some (Inr (), s\<lparr>ps_stream := 0\<rparr>)" using s by (simp add: lock_output_def)
  have i: "bind_prog (emit PGSOUTPGSCRIPT) m (s\<lparr>ps_stream := 0\<rparr>) = m () ?u" for m :: "unit \<Rightarrow> unit pgs"
    by (simp add: emit_def bind_modifies)
  have "\<exists>q u. print_eval env (eval env e) s = Some (q, u) \<and> ps_tests s \<le> ps_tests u"
  proof (cases r)
    case (Inl x)
    then show ?thesis using t(2)
      by (simp add: print_eval_def bind_Inr[where m = lock_output, OF l] i k bind_prog_def[of "try_catch _ _"]
          bind_prog_def[of "modifies _"] try_catch_def unlock_output_def throw_def modifies_def)
  next
    case (Inr x)
    then show ?thesis using t(2)
      by (simp add: print_eval_def bind_Inr[where m = lock_output, OF l] emit_def bind_modifies k
          bind_prog_def[of "try_catch _ _"] try_catch_def unlock_output_def modifies_apply)
  qed
  then obtain q u where u: "print_eval env (eval env e) s = Some (q, u)" "ps_tests s \<le> ps_tests u" by blast
  then show "\<exists>r t. print_eval env (eval env e) s = Some (r, t) \<and> st_ok t \<and> ps_stream t = 1 \<and> ps_tests s \<le> ps_tests t"
    using keepsD[OF sound_print[OF assms(1,2), of "[]"] _ u(1)] keepsD[OF free_print _ u(1)] s by simp
qed

lemma ends_list: "(\<And>x. x \<in> set xs \<Longrightarrow> ends (snd x)) \<Longrightarrow> ends (list_eval env xs)"
proof (induction xs)
  case (Cons x xs)
  then have "ends (list_step env (fst x) (snd x))"
    unfolding list_step_def
    by (intro ends_catch ends_bind ends_interruptible ends_report ends_throw) simp
  then show ?case using Cons by (auto intro: ends_bind)
qed (auto intro: ends_ret)

lemma ends_exec:
  assumes "env_ok env" "\<And>k. n \<le> k \<Longrightarrow> env_destroyed env k"
  shows "stmt_ok st \<Longrightarrow> \<forall>e\<in>exprs_of st. expr_answers env e \<Longrightarrow> ends (exec env st)"
proof -
  have e: "ends (eval env e)" if "expr_ok e" "expr_answers env e" for e
    using that assms(1) by (intro endsI) (auto simp: expr_answers_def simp del: One_nat_def intro: sound_eval free.evaluation)
  have c: "ends (truth env (eval env e))" if "expr_ok e" "expr_answers env e" for e
  proof (rule endsI)
    show "keeps (sound K) (truth env (eval env e))" for K by (rule sound_truth[OF assms(1) that(1)])
    show "keeps (\<lambda>s. ps_stream s = 1) (truth env (eval env e))"
      unfolding truth_def by (intro keeps_bind free.evaluation free.unary)
  qed (use that in \<open>simp add: expr_answers_def\<close>)
  show "stmt_ok st \<Longrightarrow> \<forall>e\<in>exprs_of st. expr_answers env e \<Longrightarrow> ends (exec env st)"
  proof (induction st)
    case (pgsPrintStmt x)
    then show ?case using assms(1) by (simp add: ends_print expr_answers_def)
  next
    case (pgsAssertStmt x)
    have "ends (bind_prog (truth env (eval env x)) (\<lambda>b. if b then ret () else throw (pgsAssertException (expr_value x))))"
      using pgsAssertStmt by (intro ends_bind c) (auto intro: ends_ret ends_throw)
    then show ?case by (simp add: assert_eval_def truth_def bind_assoc)
  next
    case (pgsDeclareRecordStmt m cs)
    have "answers (declare_eval m cs)" by (simp add: answers_def declare_eval_def set_var_def modifies_def)
    moreover have "keeps (\<lambda>s. ps_stream s = 1) (declare_eval m cs)"
      unfolding declare_eval_def by (rule free.state_access)
    ultimately show ?case using sound_declare by (auto intro: endsI)
  next
    case (pgsStmtList ls)
    then have "ends (exec env st)" if "(line, st) \<in> set ls" for line st
      using that by fastforce
    then show ?case by (auto intro!: ends_list)
  next
    case (pgsWhileStmt x b)
    then show ?case by (auto intro!: ends_while c assms(2))
  qed (auto simp: expression_stmt_eval_def break_eval_def continue_eval_def if_eval_def
      intro!: ends_bind ends_ret ends_throw e c)
qed

lemma statement_stops:
  assumes "env_ok env" "stmt_ok st" "\<forall>e\<in>exprs_of st. expr_answers env e"
    and "\<forall>k\<ge>n. env_destroyed env k" "st_ok s" "ps_stream s = 1"
  shows "\<exists>r t. exec env st s = Some (r, t)"
  using endsD[OF ends_exec[OF assms(1) _ assms(2,3), of n] assms(5,6)] assms(4) by blast

text \<open>C6. A script that is told to stop stops. Let every expression of a statement return, and let
  \<open>TestDestroy\<close> answer yes from some test on: then the statement returns, whatever its loops do,
  because every turn of a loop and every statement of a list asks.\<close>

theorem script_stops:
  assumes "env_ok env" "stmt_ok st" "\<forall>e\<in>exprs_of st. expr_answers env e"
    and "\<forall>k\<ge>n. env_destroyed env k" "st_ok s" "ps_stream s = 1"
  shows "\<exists>r t. exec env st s = Some (r, t)"
  by (rule statement_stops[OF assms])

definition stopping_env :: pgs_env where
  "stopping_env = idle_env\<lparr>env_destroyed := (\<lambda>n. 100 \<le> n)\<rparr>"

theorem script_stops_witness:
  "\<exists>r t. exec stopping_env (pgsWhileStmt one (pgsStmtList [(1, set_a)])) (with_vars (\<lambda>n. None)) = Some (r, t)"
proof -
  let ?st = "pgsWhileStmt one (pgsStmtList [(1, set_a)])"
  have ok: "env_ok stopping_env" using idle_env_ok by (simp add: env_ok_def stopping_env_def)
  have "expr_answers stopping_env one" "expr_answers stopping_env (pgsAssign ''@A'' one)"
    by (simp_all add: expr_answers_def answers_def truth_def assign_eval_def set_var_def prog_simps run_simps
        bind_prog_def pgs_is_true_def dispatch_def ret_def)
  then have e: "\<forall>e\<in>exprs_of ?st. expr_answers stopping_env e" by simp
  have k: "\<forall>k\<ge>100. env_destroyed stopping_env k" by (simp add: stopping_env_def)
  have s: "stmt_ok ?st" using one_ok by simp
  show ?thesis by (rule script_stops[OF ok s e k empty_state_ok empty_state_free])
qed

section \<open>Queries within PRINT\<close>

lemma run_query_tests: "run_query env q s = Some (r, t) \<Longrightarrow> ps_stream t = ps_stream s \<and> (\<exists>n. r = Inr (env_query env n q))"
  by (auto simp: run_query_def bind_reads bind_modifies ret_apply elim!: bind_cases dest!: wait_query_state)

text \<open>\<open>PRINT (SELECT ...)\<close> blocks for ever as soon as the query is run: \<open>PRINT\<close> holds the output
  semaphore while it evaluates its argument, and the report of the query waits for it.\<close>

theorem print_query_blocks:
  assumes "env_connected env" "env_thread_ok env" "\<forall>n. \<not> env_destroyed env n" "find_identifier q = None"
    and "ps_stream s \<le> 1"
  shows "exec env (pgsPrintStmt (pgsExecute q)) s = None"
proof (cases "ps_stream s = 1")
  case True
  let ?u = "s\<lparr>ps_stream := 0, ps_out := ps_out s @ PGSOUTPGSCRIPT\<rparr>"
  have test: "bind_prog (test_destroy env) k v = k False (v\<lparr>ps_tests := Suc (ps_tests v)\<rparr>)" for k v
    using assms(3) by (simp add: bind_prog_def test_destroy_def)
  have rep: "report True msg v = None" if "ps_stream v = 0" for msg v
    using that by (simp add: report_def prog_simps bind_prog_def lock_output_def)
  have "execute_eval env True q v = None" if "ps_stream v = 0" for v
  proof -
    note v0 = that
    let ?w = "v\<lparr>ps_tests := Suc (ps_tests v)\<rparr>"
    show ?thesis
    proof (cases "run_query env (unescape q) ?w")
      case None
      then show ?thesis
        using assms by (simp add: execute_eval_def execute_stmt_def Let_def expand_vars.simps[of env q] ret_apply bind_prog_def[of "expand_vars env q"] test bind_None)
    next
      case (Some y)
      obtain r t where y: "y = (r, t)" by (cases y)
      obtain n where r: "r = Inr (env_query env n (unescape q))" "ps_stream t = 0"
        using run_query_tests[of env "unescape q" ?w r t] Some v0 y by fastforce
      show ?thesis
        using assms Some r y rep
        by (simp add: execute_eval_def execute_stmt_def Let_def expand_vars.simps[of env q] ret_apply
            bind_prog_def[of "expand_vars env q"] test bind_prog_def[of "run_query _ _"] bind_None)
    qed
  qed
  then have "execute_eval env True q ?u = None" by simp
  then show ?thesis
    using True
    by (simp add: print_eval_def lock_output_def bind_prog_def[of lock_output] emit_def bind_modifies
        bind_None catch_None)
qed (use assms(5) in \<open>auto simp: print_eval_def bind_prog_def lock_output_def\<close>)

theorem print_query_blocks_witness:
  "exec idle_env (pgsPrintStmt (pgsExecute ''SELECT 1'')) (with_vars (\<lambda>n. None)) = None"
  by (rule print_query_blocks) (simp_all add: idle_env_def empty_state_free)

section \<open>Declarations\<close>

text \<open>\<open>DECLARE @R { @a, @b, ... }\<close> with distinct, non-empty column names makes \<open>@R\<close> an empty record
  with these columns, in this order and in lower case, and changes nothing else.\<close>

theorem declare_record:
  assumes "distinct (map column_name cs)" "[] \<notin> set (map column_name cs)" "length cs < 65536"
  shows "exec env (pgsDeclareRecordStmt n cs) s =
    Some (Inr (), s\<lparr>ps_vars := (ps_vars s)(n \<mapsto> RecordVar \<lparr>m_columns = map column_name cs, m_record = []\<rparr>)\<rparr>)"
proof -
  have "unat (of_nat (length cs) :: ushort) = length cs" using assms(3) by (simp add: unat_of_nat)
  then have "m_columns (name_columns 0 cs (new_record (of_nat (length cs)))) = map column_name cs
      \<and> m_record (name_columns 0 cs (new_record (of_nat (length cs)))) = []"
    using name_columns_names[OF rec_ok_new[of "of_nat (length cs)"], of "[]" cs 0] assms(1,2)
    by (simp add: new_record_def)
  then have "name_columns 0 cs (new_record (of_nat (length cs))) = \<lparr>m_columns = map column_name cs, m_record = []\<rparr>"
    by simp
  then show ?thesis by (simp add: declare_eval_def set_var_def modifies_def)
qed

theorem declare_record_witness:
  "exec idle_env (pgsDeclareRecordStmt ''@R'' [''A'', ''b'']) (with_vars (\<lambda>n. None)) =
    Some (Inr (), with_vars [''@R'' \<mapsto> RecordVar \<lparr>m_columns = [''a'', ''b''], m_record = []\<rparr>])"
proof -
  have c: "column_name ''A'' = ''a''" "column_name ''b'' = ''b''" by code_simp+
  show ?thesis using declare_record[of "[''A'', ''b'']" idle_env "''@R''"] by (simp add: c with_vars_def state_with_def)
qed

end
