(* ===== verification/MapmStruct.thy ===== *)
theory MapmStruct
  imports MapmText
begin

text \<open>
  The MAPM number as the code keeps it (\<open>m_apm.h\<close>, \<open>mapmutil.cpp\<close>, \<open>mapmutl2.cpp\<close>): bytes of two
  decimal digits, the number of digits, an exponent and a sign. The bytes are those in use,
  \<open>(m_apm_datalength + 1) >> 1\<close> of them; what the buffer holds behind them is never read. The number
  of digits and the exponent are \<open>int\<close> in the code and unbounded here: their overflow is not modelled. Shown:
  scaling, padding and normalising keep the value, and \<open>m_apm_compare\<close> is the order of the values.
\<close>

record M_APM =
  m_apm_data :: "int list"
  m_apm_datalength :: nat
  m_apm_exponent :: int
  m_apm_sign :: int

definition uchar :: "int \<Rightarrow> int" where "uchar x = x mod 256"

definition nbytes :: "nat \<Rightarrow> nat" where "nbytes len = (len + 1) div 2"

definition M_set_to_zero :: M_APM where
  "M_set_to_zero = \<lparr>m_apm_data = [0], m_apm_datalength = 1, m_apm_exponent = 0, m_apm_sign = 0\<rparr>"

definition m_apm_copy :: "M_APM \<Rightarrow> M_APM" where
  "m_apm_copy src = src\<lparr>m_apm_data := take (nbytes (m_apm_datalength src)) (m_apm_data src)\<rparr>"

definition m_apm_negate :: "M_APM \<Rightarrow> M_APM" where
  "m_apm_negate s =
     (let d = m_apm_copy s in if m_apm_sign d \<noteq> 0 then d\<lparr>m_apm_sign := - m_apm_sign d\<rparr> else d)"

definition m_apm_absolute_value :: "M_APM \<Rightarrow> M_APM" where
  "m_apm_absolute_value s =
     (let d = m_apm_copy s in if m_apm_sign d \<noteq> 0 then d\<lparr>m_apm_sign := 1\<rparr> else d)"

text \<open>The lead byte is the first of the number written in base 10.\<close>

definition m_apm_set_long :: "int \<Rightarrow> M_APM" where
  "m_apm_set_long mm =
     (if mm = 0 then M_set_to_zero
      else
        let buf = dec (nat \<bar>mm\<bar>); ds = rev (dropWhile (\<lambda>c. c = CHR ''0'') (rev buf)) in
        \<lparr>m_apm_data = data_bytes ds, m_apm_datalength = length ds,
         m_apm_exponent = int (length buf), m_apm_sign = (if mm < 0 then - 1 else 1)\<rparr>)"

section \<open>Shifting\<close>

text \<open>\<open>uv wx yz\<close> becomes \<open>0u vw xy z0\<close>.\<close>

fun nibble_shift :: "int \<Rightarrow> int list \<Rightarrow> int list" where
  "nibble_shift c [] = [10 * c]"
| "nibble_shift c (b # bs) = (10 * c + b div 10) # nibble_shift (b mod 10) bs"

definition M_apm_scale :: "M_APM \<Rightarrow> nat \<Rightarrow> M_APM" where
  "M_apm_scale c places =
     (let c1 = (if odd places then
          c\<lparr>m_apm_data :=
              (if even (m_apm_datalength c) then nibble_shift 0 (m_apm_data c)
               else butlast (nibble_shift 0 (m_apm_data c))),
            m_apm_exponent := m_apm_exponent c + 1,
            m_apm_datalength := m_apm_datalength c + 1\<rparr> else c);
          ct = (if odd places then places - 1 else places) in
      if 0 < ct then
        c1\<lparr>m_apm_data := replicate (ct div 2) 0 @ m_apm_data c1,
           m_apm_datalength := m_apm_datalength c1 + ct,
           m_apm_exponent := m_apm_exponent c1 + int ct\<rparr>
      else c1)"

definition M_apm_pad :: "M_APM \<Rightarrow> nat \<Rightarrow> M_APM" where
  "M_apm_pad c new_length =
     (if m_apm_datalength c \<ge> new_length then c
      else
        let num1 = nbytes (m_apm_datalength c); numb = nbytes new_length;
            data = (if odd (m_apm_datalength c)
                    then (m_apm_data c)[num1 - 1 := 10 * (m_apm_data c ! (num1 - 1) div 10)]
                    else m_apm_data c)
        in c\<lparr>m_apm_data := take num1 data @ replicate (numb - num1) 0,
             m_apm_datalength := new_length\<rparr>)"

section \<open>Normalising\<close>

text \<open>Lead-in zeros: whole bytes are moved, a single nibble is shifted.\<close>

partial_function (option) strip_lead ::
  "int list \<Rightarrow> nat \<Rightarrow> int \<Rightarrow> (int list \<times> nat \<times> int) option" where
  "strip_lead data datalength exponent =
     (if hd data div 10 \<ge> 1 then Some (data, datalength, exponent)
      else
        let index = nbytes datalength in
        if hd data mod 10 = 0 then
          let i = length (takeWhile (\<lambda>b. b = 0) data) in
          if i = length data then None  \<comment> \<open>the search leaves the buffer\<close>
          else strip_lead (take (index + 1 - i) (drop i data)) (datalength - 2 * i) (exponent - 2 * int i)
        else
          strip_lead
            (map (\<lambda>i. 10 * (data ! i mod 10) + data ! (i + 1) div 10) [0..<index] @ drop index data)
            (datalength - 1) (exponent - 1))"

declare strip_lead.simps [code]

text \<open>Trailing zeros: the digits that remain, and whether the number is not zero.\<close>

partial_function (option) strip_trail :: "int list \<Rightarrow> nat \<Rightarrow> (nat \<times> bool) option" where
  "strip_trail data datalength =
     (let index = nbytes datalength - 1;
          z = length (takeWhile (\<lambda>b. b = 0) (rev (take (index + 1) data)));
          len = (if even datalength then datalength - 2 * z else datalength);
          b = data ! (nbytes len - 1) in
      if even datalength \<and> z = index + 1 then None  \<comment> \<open>the search leaves the buffer\<close>
      else if b mod 10 \<noteq> 0 \<or> odd len \<and> b div 10 \<noteq> 0 then Some (len, True)
      else if len = 1 then Some (len, False)
      else strip_trail data (len - 1))"

declare strip_trail.simps [code]

definition M_apm_normalize :: "M_APM \<Rightarrow> M_APM option" where
  "M_apm_normalize a =
     (if m_apm_sign a = 0 then Some a
      else
        Option.bind
          (strip_lead (m_apm_data (M_apm_pad a (m_apm_datalength a + 3))) (m_apm_datalength a)
             (m_apm_exponent a))
          (\<lambda>(data, datalength, exponent). map_option
            (\<lambda>(len, nonzero).
               \<lparr>m_apm_data = take (nbytes len) data, m_apm_datalength = len,
                m_apm_exponent = (if nonzero then exponent else 0),
                m_apm_sign = (if nonzero then m_apm_sign a else 0)\<rparr>)
            (strip_trail data datalength)))"

section \<open>Comparison\<close>

fun compare_bytes :: "int list \<Rightarrow> int list \<Rightarrow> int" where
  "compare_bytes (x # xs) (y # ys) = (if x > y then 1 else if x < y then - 1 else compare_bytes xs ys)"
| "compare_bytes _ _ = 0"

definition m_apm_compare :: "M_APM \<Rightarrow> M_APM \<Rightarrow> int" where
  "m_apm_compare l r =
     (if m_apm_sign r = 0 then m_apm_sign l
      else if m_apm_sign l = 0 then - m_apm_sign r
      else if m_apm_sign l = - m_apm_sign r then m_apm_sign l
      else
        let greater = (if m_apm_sign l = 1 then 1 else - 1); less = (if m_apm_sign l = 1 then - 1 else 1);
            llen = m_apm_datalength l; rlen = m_apm_datalength r;
            j = (if llen < rlen then nbytes llen else nbytes rlen);
            c = compare_bytes (take j (m_apm_data l)) (take j (m_apm_data r)) in
        if m_apm_exponent l > m_apm_exponent r then greater
        else if m_apm_exponent l < m_apm_exponent r then less
        else if c = 1 then greater
        else if c = - 1 then less
        else if llen = rlen then 0
        else if llen > rlen then greater
        else less)"

section \<open>The number in the bytes\<close>

definition is_bytes :: "int list \<Rightarrow> bool" where
  "is_bytes bs \<longleftrightarrow> (\<forall>b\<in>set bs. 0 \<le> b \<and> b < 100)"

lemma is_bytes_simps [simp]:
  "is_bytes []" "is_bytes (b # bs) \<longleftrightarrow> 0 \<le> b \<and> b < 100 \<and> is_bytes bs"
  "is_bytes (xs @ ys) \<longleftrightarrow> is_bytes xs \<and> is_bytes ys" "is_bytes (replicate k 0)"
  by (auto simp: is_bytes_def)

lemma is_bytes_take [simp]: "is_bytes bs \<Longrightarrow> is_bytes (take k bs)" "is_bytes bs \<Longrightarrow> is_bytes (drop k bs)"
  by (auto simp: is_bytes_def dest: in_set_takeD in_set_dropD)

lemma bytes_int_snoc: "bytes_int (bs @ [b]) = 100 * bytes_int bs + b"
  by (simp add: bytes_int_def)

lemma bytes_int_Nil [simp]: "bytes_int [] = 0"
  by (simp add: bytes_int_def)

lemma bytes_int_append: "bytes_int (xs @ ys) = bytes_int xs * 100 ^ length ys + bytes_int ys"
proof (induction ys rule: rev_induct)
  case (snoc y ys)
  have "bytes_int (xs @ ys @ [y]) = 100 * bytes_int (xs @ ys) + y" using bytes_int_snoc[of "xs @ ys"] by simp
  then show ?case using snoc by (simp add: bytes_int_snoc algebra_simps)
qed simp

lemma bytes_int_Cons: "bytes_int (b # bs) = b * 100 ^ length bs + bytes_int bs"
  using bytes_int_append[of "[b]" bs] bytes_int_snoc[of "[]" b] by simp

lemma bytes_int_zeros [simp]: "bytes_int (replicate k 0) = 0" "bytes_int (replicate k 0 @ bs) = bytes_int bs"
proof -
  show z: "bytes_int (replicate k 0) = 0" by (induction k) (simp_all add: bytes_int_Cons)
  show "bytes_int (replicate k 0 @ bs) = bytes_int bs" by (simp add: bytes_int_append z)
qed

lemma bytes_int_bounds: "is_bytes bs \<Longrightarrow> 0 \<le> bytes_int bs \<and> bytes_int bs < 100 ^ length bs"
proof (induction bs)
  case (Cons b bs)
  then have b: "0 \<le> b" "b \<le> 99" "0 \<le> bytes_int bs" "bytes_int bs < 100 ^ length bs" by simp_all
  have "b * 100 ^ length bs \<le> 99 * 100 ^ length bs" using b(2) by (intro mult_right_mono) simp_all
  moreover have "0 \<le> b * 100 ^ length bs" using b(1) by simp
  moreover have "100 ^ length (b # bs) = 100 * (100::int) ^ length bs" by simp
  ultimately show ?case using b unfolding bytes_int_Cons by linarith
qed simp

lemma bytes_int_tail: "bytes_int bs = 100 * bytes_int (butlast bs) + last bs" if "bs \<noteq> []"
  using bytes_int_snoc[of "butlast bs" "last bs"] that by simp

section \<open>Well-formed numbers\<close>

text \<open>\<open>mval\<close> is the number denoted, \<open>m_ok\<close> says that the parts fit together, \<open>canonical\<close> that the
  number is normalised: its first and its last digit are not 0.\<close>

definition mexp :: "M_APM \<Rightarrow> int" where
  "mexp x = m_apm_exponent x - 2 * int (length (m_apm_data x))"

definition mval :: "M_APM \<Rightarrow> rat" where
  "mval x = of_int (m_apm_sign x * bytes_int (m_apm_data x)) * 10 powi mexp x"

definition m_ok :: "M_APM \<Rightarrow> bool" where
  "m_ok x \<longleftrightarrow> m_apm_sign x \<in> {-1, 0, 1} \<and> 1 \<le> m_apm_datalength x
     \<and> length (m_apm_data x) = nbytes (m_apm_datalength x) \<and> is_bytes (m_apm_data x)
     \<and> (odd (m_apm_datalength x) \<longrightarrow> last (m_apm_data x) mod 10 = 0)"

definition canonical :: "M_APM \<Rightarrow> bool" where
  "canonical x \<longleftrightarrow> m_ok x \<and>
     (if m_apm_sign x = 0 then x = M_set_to_zero
      else 10 \<le> hd (m_apm_data x) \<and> last (m_apm_data x) \<noteq> 0
        \<and> (even (m_apm_datalength x) \<longrightarrow> last (m_apm_data x) mod 10 \<noteq> 0))"

definition abs_mapm :: "M_APM \<Rightarrow> mapm" where
  "abs_mapm x = mk_mapm (m_apm_sign x * bytes_int (m_apm_data x)) (mexp x)"

lemma val_abs [num_simps]: "mapm_val (abs_mapm x) = mval x"
  by (simp add: abs_mapm_def val_mk mval_def)

lemma normal_abs [num_simps]: "normal (abs_mapm x)"
  by (simp add: abs_mapm_def normal_mk)

lemma abs_eqI: "normal m \<Longrightarrow> mval x = mapm_val m \<Longrightarrow> abs_mapm x = m"
  by (rule normal_unique) (simp_all add: num_simps)

lemma canonical_zero [simp]: "canonical M_set_to_zero"
  by (simp add: canonical_def m_ok_def M_set_to_zero_def nbytes_def)

lemma mval_zero [simp]: "mval M_set_to_zero = 0" "m_apm_sign M_set_to_zero = 0"
  by (simp_all add: mval_def M_set_to_zero_def)

lemma m_okD:
  assumes "m_ok x"
  shows "m_apm_data x \<noteq> []" "is_bytes (m_apm_data x)" "length (m_apm_data x) = nbytes (m_apm_datalength x)"
    "1 \<le> m_apm_datalength x" "odd (m_apm_datalength x) \<Longrightarrow> last (m_apm_data x) mod 10 = 0"
    "m_apm_sign x = - 1 \<or> m_apm_sign x = 0 \<or> m_apm_sign x = 1"
  using assms by (auto simp: m_ok_def nbytes_def)

lemma copy_ok [simp]: "m_ok x \<Longrightarrow> m_apm_copy x = x"
  by (simp add: m_apm_copy_def m_ok_def)

lemma negate_spec:
  assumes "canonical x"
  shows "canonical (m_apm_negate x)" "mval (m_apm_negate x) = - mval x"
  using assms by (auto simp: m_apm_negate_def Let_def canonical_def m_ok_def mval_def mexp_def)

lemma absolute_spec:
  assumes "canonical x"
  shows "canonical (m_apm_absolute_value x)" "mval (m_apm_absolute_value x) = \<bar>mval x\<bar>"
  using assms
  by (auto simp: m_apm_absolute_value_def Let_def canonical_def m_ok_def mval_def mexp_def abs_mult
      dest: bytes_int_bounds)

section \<open>Scaling and padding keep the value\<close>

lemma nibble_bounds: "0 \<le> b \<Longrightarrow> b < 100 \<Longrightarrow> 0 \<le> b div 10 \<and> b div 10 < 10 \<and> 0 \<le> b mod 10 \<and> b mod (10::int) < 10"
  by auto

lemma nibble_shift_spec:
  "is_bytes bs \<Longrightarrow> 0 \<le> c \<Longrightarrow> c < 10 \<Longrightarrow>
    is_bytes (nibble_shift c bs) \<and> length (nibble_shift c bs) = Suc (length bs)
    \<and> bytes_int (nibble_shift c bs) = 10 * (c * 100 ^ length bs + bytes_int bs)
    \<and> last (nibble_shift c bs) = 10 * (last (c # bs) mod 10)"
proof (induction c bs rule: nibble_shift.induct)
  case (2 c b bs)
  have b: "0 \<le> b div 10" "b div 10 < 10" "0 \<le> b mod 10" "b mod 10 < 10" using nibble_bounds[of b] 2 by simp_all
  have e: "b * 100 ^ length bs = 10 * (b div 10) * 100 ^ length bs + b mod 10 * 100 ^ length bs"
    by (simp flip: distrib_right)
  note IH = 2(1)[OF _ b(3,4)]
  then have "nibble_shift (b mod 10) bs \<noteq> []" using 2 by auto
  then show ?case using IH 2(2-4) b e by (auto simp: bytes_int_Cons algebra_simps)
qed (simp add: bytes_int_Cons)

lemma nbytes_simps [simp]:
  "even n \<Longrightarrow> nbytes n = n div 2" "odd n \<Longrightarrow> nbytes n = Suc n div 2" "even k \<Longrightarrow> nbytes (n + k) = nbytes n + k div 2"
  by (auto simp: nbytes_def elim!: evenE oddE)

lemma nbytes_pred: "even n \<Longrightarrow> 1 \<le> n \<Longrightarrow> nbytes (n - 1) = nbytes n"
  by (auto simp: nbytes_def elim!: evenE)

lemma shift_one:
  assumes x: "m_ok x"
  defines "y \<equiv> M_apm_scale x 1"
  shows "m_ok y" "mval y = mval x" "m_apm_exponent y = m_apm_exponent x + 1"
    "m_apm_sign y = m_apm_sign x" "m_apm_datalength y = Suc (m_apm_datalength x)"
proof -
  let ?d = "m_apm_data x" and ?len = "m_apm_datalength x"
  note m = m_okD[OF x]
  have n: "is_bytes (nibble_shift 0 ?d)" "length (nibble_shift 0 ?d) = Suc (length ?d)"
    "bytes_int (nibble_shift 0 ?d) = 10 * bytes_int ?d" "last (nibble_shift 0 ?d) = 10 * (last ?d mod 10)"
    using nibble_shift_spec[OF m(2), of 0] m(1) by simp_all
  have y: "y = x\<lparr>m_apm_data := (if even ?len then nibble_shift 0 ?d else butlast (nibble_shift 0 ?d)),
      m_apm_exponent := m_apm_exponent x + 1, m_apm_datalength := Suc ?len\<rparr>"
    by (simp add: y_def M_apm_scale_def)
  show "m_apm_exponent y = m_apm_exponent x + 1" "m_apm_sign y = m_apm_sign x" "m_apm_datalength y = Suc ?len"
    by (simp_all add: y)
  have ne: "nibble_shift 0 ?d \<noteq> []" using n(2) by auto
  show "m_ok y"
  proof (cases "even ?len")
    case True
    then show ?thesis using n m x by (auto simp: m_ok_def y)
  next
    case False
    have "is_bytes (butlast (nibble_shift 0 ?d))" using n(1) by (auto simp: is_bytes_def dest: in_set_butlastD)
    then show ?thesis using n m x False by (auto simp: m_ok_def y)
  qed
  show "mval y = mval x"
  proof (cases "even ?len")
    case True
    have "(10::rat) powi mexp x = 10 * 10 powi (mexp x - 1)" using powi_10_Suc[of "mexp x - 1"] by simp
    then show ?thesis using n(2,3) True by (simp add: y mval_def mexp_def)
  next
    case False
    then have "last (nibble_shift 0 ?d) = 0" using n(4) m(5) by simp
    then have "10 * bytes_int ?d = 100 * bytes_int (butlast (nibble_shift 0 ?d))"
      using bytes_int_tail[OF ne] n(3) by simp
    then have "bytes_int ?d = 10 * bytes_int (butlast (nibble_shift 0 ?d))" by simp
    moreover have "(10::rat) powi (mexp x + 1) = 10 * 10 powi mexp x" by (rule powi_10_Suc)
    ultimately show ?thesis using n(2) False by (simp add: y mval_def mexp_def algebra_simps)
  qed
qed

lemma shift_bytes:
  assumes x: "m_ok x" and k: "even k"
  defines "y \<equiv> M_apm_scale x k"
  shows "m_ok y" "mval y = mval x" "m_apm_exponent y = m_apm_exponent x + int k"
    "m_apm_sign y = m_apm_sign x" "m_apm_datalength y = m_apm_datalength x + k"
    "m_apm_data y = replicate (k div 2) 0 @ m_apm_data x"
  using x k m_okD(1)[OF x] unfolding y_def M_apm_scale_def
  by (auto simp: m_ok_def mval_def mexp_def elim!: evenE)

lemma scale_split: "odd k \<Longrightarrow> M_apm_scale x k = M_apm_scale (M_apm_scale x 1) (k - 1)"
  by (auto simp: M_apm_scale_def Let_def)

lemma scale_spec:
  assumes x: "m_ok x"
  shows "m_ok (M_apm_scale x k)" "mval (M_apm_scale x k) = mval x"
    "m_apm_exponent (M_apm_scale x k) = m_apm_exponent x + int k"
    "m_apm_sign (M_apm_scale x k) = m_apm_sign x" "m_apm_datalength (M_apm_scale x k) = m_apm_datalength x + k"
proof -
  have "m_ok (M_apm_scale x k) \<and> mval (M_apm_scale x k) = mval x
    \<and> m_apm_exponent (M_apm_scale x k) = m_apm_exponent x + int k
    \<and> m_apm_sign (M_apm_scale x k) = m_apm_sign x \<and> m_apm_datalength (M_apm_scale x k) = m_apm_datalength x + k"
  proof (cases "even k")
    case True
    then show ?thesis by (simp only: shift_bytes(1-5)[OF x])
  next
    case False
    then have k: "even (k - 1)" "int k = 1 + int (k - 1)" "k = Suc (k - 1)" by presburger+
    note t = shift_bytes(1-5)[OF shift_one(1)[OF x] k(1)]
    show ?thesis
      unfolding scale_split[OF False] t(2-5) shift_one(2-5)[OF x] using t(1) k(2,3) by linarith
  qed
  then show "m_ok (M_apm_scale x k)" "mval (M_apm_scale x k) = mval x"
    "m_apm_exponent (M_apm_scale x k) = m_apm_exponent x + int k"
    "m_apm_sign (M_apm_scale x k) = m_apm_sign x" "m_apm_datalength (M_apm_scale x k) = m_apm_datalength x + k"
    by blast+
qed

text \<open>The lead byte of a scaled number is 0.\<close>

lemma scale_lead:
  assumes x: "m_ok x" and k: "2 \<le> k"
  shows "hd (m_apm_data (M_apm_scale x k)) = 0"
proof (cases "even k")
  case True
  then show ?thesis using shift_bytes(6)[OF x True] k by (cases "k div 2") auto
next
  case False
  then have e: "even (k - 1)" "2 \<le> k - 1" using k by presburger+
  then show ?thesis
    using shift_bytes(6)[OF shift_one(1)[OF x] e(1)] unfolding scale_split[OF False]
    by (cases "(k - 1) div 2") auto
qed

lemma pad_spec:
  assumes x: "m_ok x"
  shows "m_ok (M_apm_pad x n)" "mval (M_apm_pad x n) = mval x"
    "m_apm_exponent (M_apm_pad x n) = m_apm_exponent x" "m_apm_sign (M_apm_pad x n) = m_apm_sign x"
    "m_apm_datalength (M_apm_pad x n) = max n (m_apm_datalength x)"
    "m_apm_data (M_apm_pad x n) = m_apm_data x @ replicate (nbytes n - nbytes (m_apm_datalength x)) 0"
proof -
  let ?len = "m_apm_datalength x" and ?d = "m_apm_data x"
  note m = m_okD[OF x]
  have upd: "?d[nbytes ?len - 1 := 10 * (?d ! (nbytes ?len - 1) div 10)] = ?d" if "odd ?len"
  proof -
    have "?d ! (nbytes ?len - 1) = last ?d" using m(1,3) by (simp add: last_conv_nth)
    moreover have "10 * (last ?d div 10) = last ?d" using m(5)[OF that] by presburger
    ultimately show ?thesis by (metis list_update_id)
  qed
  have mono: "nbytes ?len \<le> nbytes n" if "?len \<le> n" using that by (simp add: nbytes_def div_le_mono)
  have y: "M_apm_pad x n = (if n \<le> ?len then x
      else x\<lparr>m_apm_data := ?d @ replicate (nbytes n - nbytes ?len) 0, m_apm_datalength := n\<rparr>)"
    using upd m(3) by (simp add: M_apm_pad_def Let_def)
  show "m_apm_exponent (M_apm_pad x n) = m_apm_exponent x" "m_apm_sign (M_apm_pad x n) = m_apm_sign x"
    "m_apm_datalength (M_apm_pad x n) = max n ?len" by (simp_all add: y)
  show d: "m_apm_data (M_apm_pad x n) = ?d @ replicate (nbytes n - nbytes ?len) 0"
    using mono m(3) by (auto simp: y nbytes_def div_le_mono)
  show "m_ok (M_apm_pad x n)"
  proof (cases "n \<le> ?len")
    case False
    have "last (?d @ replicate (nbytes n - nbytes ?len) 0) mod 10 = 0" if "odd n"
    proof (cases "nbytes n - nbytes ?len")
      case 0
      have "odd ?len" using 0 False that mono by (auto simp: nbytes_def elim!: oddE)
      then show ?thesis using m(5) 0 by simp
    qed (simp add: last_append)
    then show ?thesis using m x mono False by (auto simp: m_ok_def y)
  qed (use x y in simp)
  show "mval (M_apm_pad x n) = mval x"
  proof (cases "n \<le> ?len")
    case False
    define k where "k = nbytes n - nbytes ?len"
    have "(10::rat) powi mexp x = 10 powi (2 * int k) * 10 powi (mexp x - 2 * int k)"
      by (simp flip: power_int_add)
    moreover have "(10::rat) powi (2 * int k) = 100 ^ k"
      using power_int_of_nat[of "10::rat" "2 * k"] by (simp add: power_mult)
    moreover have "mval (M_apm_pad x n) =
        of_int (m_apm_sign x * (bytes_int ?d * 100 ^ k)) * 10 powi (mexp x - 2 * int k)"
      using False by (simp add: y mval_def mexp_def bytes_int_append algebra_simps flip: k_def)
    ultimately show ?thesis by (simp add: mval_def)
  qed (simp add: y)
qed

section \<open>Normalising keeps the value\<close>

definition shape :: "int list \<Rightarrow> nat \<Rightarrow> bool" where
  "shape body len \<longleftrightarrow> is_bytes body \<and> length body = nbytes len \<and> 1 \<le> len \<and> (odd len \<longrightarrow> last body mod 10 = 0)"

definition bval :: "int list \<Rightarrow> int \<Rightarrow> rat" where
  "bval body e = of_int (bytes_int body) * 10 powi (e - 2 * int (length body))"

lemma shape_nonempty: "shape body len \<Longrightarrow> body \<noteq> []"
  by (auto simp: shape_def nbytes_def)

lemma mval_bval: "mval x = of_int (m_apm_sign x) * bval (m_apm_data x) (m_apm_exponent x)"
  by (simp add: mval_def bval_def mexp_def)

lemma bval_zeros: "bval (replicate i 0 @ bs) e = bval bs (e - 2 * int i)"
  by (simp add: bval_def algebra_simps)

lemma bval_snoc_0: "bval (bs @ [0]) e = bval bs e"
  using power_int_add[of "10::rat" 2 "e - 2 - 2 * int (length bs)"]
  by (simp add: bval_def bytes_int_snoc algebra_simps)

lemma bval_append_zeros: "bval (bs @ replicate k 0) e = bval bs e"
proof (induction k)
  case (Suc k)
  then show ?case
    using bval_snoc_0[of "bs @ replicate k 0" e] by (simp add: replicate_append_same[symmetric])
qed simp

text \<open>Shifting to the left by one nibble.\<close>

definition shift_left :: "int list \<Rightarrow> int list" where
  "shift_left bs = map (\<lambda>i. 10 * (bs ! i mod 10) + (bs @ [0]) ! (i + 1) div 10) [0..<length bs]"

lemma shift_left_simps:
  "shift_left [] = []" "shift_left (b # bs) = (10 * (b mod 10) + hd (bs @ [0]) div 10) # shift_left bs"
proof -
  show "shift_left [] = []" by (simp add: shift_left_def)
  show "shift_left (b # bs) = (10 * (b mod 10) + hd (bs @ [0]) div 10) # shift_left bs"
  proof (rule nth_equalityI)
    fix i
    assume i: "i < length (shift_left (b # bs))"
    have h: "(bs @ [0]) ! 0 = hd (bs @ [0])" by (simp add: hd_conv_nth)
    from i show "shift_left (b # bs) ! i = ((10 * (b mod 10) + hd (bs @ [0]) div 10) # shift_left bs) ! i"
      by (cases i) (simp_all add: shift_left_def h del: upt_Suc)
  qed (simp add: shift_left_def)
qed

lemma shift_left_spec:
  "is_bytes bs \<Longrightarrow> is_bytes (shift_left bs) \<and> length (shift_left bs) = length bs
    \<and> 10 * bytes_int bs = hd (bs @ [0]) div 10 * 100 ^ length bs + bytes_int (shift_left bs)
    \<and> (bs \<noteq> [] \<longrightarrow> last (shift_left bs) = 10 * (last bs mod 10))"
proof (induction bs)
  case (Cons b bs)
  let ?h = "hd (bs @ [0])"
  have h: "0 \<le> ?h" "?h < 100" using Cons.prems by (cases bs; simp)+
  note nb = nibble_bounds[OF h] nibble_bounds[of b]
  have e: "10 * (b * 100 ^ length bs) = (b div 10 * 100 + 10 * (b mod 10)) * 100 ^ length bs"
    by (simp add: mult.assoc[symmetric]) (simp add: algebra_simps minus_mult_div_eq_mod[symmetric])
  have b: "is_bytes bs" "0 \<le> b" "b < 100" using Cons.prems by simp_all
  note IH = Cons.IH[OF b(1)]
  have "is_bytes (shift_left (b # bs))" using IH nb b by (simp add: shift_left_simps) linarith
  moreover have "10 * bytes_int (b # bs) = b div 10 * 100 ^ length (b # bs) + bytes_int (shift_left (b # bs))"
    using IH e by (simp add: shift_left_simps bytes_int_Cons algebra_simps)
  moreover have "last (shift_left (b # bs)) = 10 * (last (b # bs) mod 10)"
    using IH by (cases bs) (simp_all add: shift_left_simps)
  ultimately show ?case using IH by (simp add: shift_left_simps)
qed (simp add: shift_left_simps)

definition lead_done :: "int list \<Rightarrow> nat \<Rightarrow> int \<Rightarrow> (int list \<times> nat \<times> int) option \<Rightarrow> bool" where
  "lead_done body len e r \<longleftrightarrow> (\<exists>body' len' e' m. r = Some (body' @ replicate (Suc m) 0, len', e')
     \<and> shape body' len' \<and> 10 \<le> hd body' \<and> bval body' e' = bval body e)"

lemma hd_body: "body \<noteq> [] \<Longrightarrow> hd (body @ zs) = hd body"
  by (cases body) auto

lemma lead_stop:
  assumes "shape body len" "10 \<le> hd body"
  shows "lead_done body len e (strip_lead (body @ replicate (Suc m) 0) len e)"
proof -
  have "1 \<le> hd body div 10" using zdiv_mono1[OF assms(2), of 10] by simp
  then have "strip_lead (body @ replicate (Suc m) 0) len e = Some (body @ replicate (Suc m) 0, len, e)"
    using shape_nonempty[OF assms(1)] by (subst strip_lead.simps) (simp add: hd_body)
  then show ?thesis using assms unfolding lead_done_def by blast
qed

lemma nibble_step:
  "length body = index \<Longrightarrow>
   map (\<lambda>i. 10 * ((body @ replicate (Suc m) 0) ! i mod 10) + (body @ replicate (Suc m) 0) ! (i + 1) div 10) [0..<index]
     @ drop index (body @ replicate (Suc m) 0) = shift_left body @ replicate (Suc m) 0"
  unfolding shift_left_def by (auto simp: nth_append nth_Cons' intro!: arg_cong2[where f = "(@)"])

lemma lead_nibble:
  assumes s: "shape body len" and h: "0 < hd body" "hd body < 10"
  shows "lead_done body len e (strip_lead (body @ replicate (Suc m) 0) len e)"
proof -
  have ne: "body \<noteq> []" using s by (rule shape_nonempty)
  have sh: "is_bytes body" "length body = nbytes len" "1 \<le> len" "odd len \<Longrightarrow> last body mod 10 = 0"
    using s by (auto simp: shape_def)
  note l = shift_left_spec[OF sh(1)]
  have v: "bytes_int (shift_left body) = 10 * bytes_int body" using l h ne by (simp add: hd_body div_pos_pos_trivial)
  have bv: "bval (shift_left body) (e - 1) = bval body e"
    using powi_10_Suc[of "e - 1 - 2 * int (length body)"] l v by (simp add: bval_def algebra_simps)
  have hd: "10 \<le> hd (shift_left body)"
  proof -
    have "0 \<le> hd (tl body @ [0])" using sh(1) by (cases body; cases "tl body") auto
    then have "0 \<le> hd (tl body @ [0]) div 10" by (rule pos_imp_zdiv_nonneg_iff[THEN iffD2, rotated]) simp
    moreover have "hd body mod 10 = hd body" using h by simp
    ultimately show ?thesis using h ne by (cases body) (simp_all add: shift_left_simps)
  qed
  have st: "strip_lead (body @ replicate (Suc m) 0) len e =
      strip_lead (shift_left body @ replicate (Suc m) 0) (len - 1) (e - 1)"
  proof -
    have "\<not> 1 \<le> hd body div 10" "hd body mod 10 \<noteq> 0" using h by simp_all
    then show ?thesis
      unfolding nibble_step[OF sh(2), of m, symmetric]
      by (subst strip_lead.simps) (simp only: hd_body[OF ne] Let_def if_False)
  qed
  show ?thesis
  proof (cases "even len")
    case True
    then have "2 \<le> len" using sh(3) by presburger
    have "last (shift_left body) mod 10 = 0" using l ne by simp
    moreover have "nbytes (len - 1) = nbytes len" using True \<open>2 \<le> len\<close> by (auto simp: nbytes_def elim!: evenE)
    ultimately have "shape (shift_left body) (len - 1)" using l sh \<open>2 \<le> len\<close> by (simp add: shape_def)
    from lead_stop[OF this hd, of "e - 1" m] show ?thesis unfolding st lead_done_def bv .
  next
    case False
    have z: "last (shift_left body) = 0" using l ne sh(4)[OF False] by simp
    have len: "3 \<le> len"
    proof (rule ccontr)
      assume "\<not> 3 \<le> len"
      then have "len = 1" using False sh(3) by presburger
      then have "length body = 1" using sh(2) by (simp add: nbytes_def)
      then show False using sh(4)[OF False] h by (cases body) auto
    qed
    define b where "b = butlast (shift_left body)"
    have "shift_left body \<noteq> []" using l ne by auto
    then have b: "shift_left body = b @ [0]" using z by (metis b_def append_butlast_last_id)
    have lb: "length b = nbytes (len - 1)"
      using l sh(2) False len unfolding b by (auto simp: nbytes_def elim!: oddE)
    moreover have "is_bytes b" using l unfolding b by simp
    moreover have "even (len - 1)" using False by simp
    ultimately have s': "shape b (len - 1)" using len by (simp add: shape_def)
    have "b \<noteq> []" using s' by (rule shape_nonempty)
    then have hb: "10 \<le> hd b" using hd unfolding b by (simp add: hd_body)
    have "strip_lead (b @ replicate (Suc (Suc m)) 0) (len - 1) (e - 1) =
        strip_lead (shift_left body @ replicate (Suc m) 0) (len - 1) (e - 1)" by (simp add: b)
    then show ?thesis
      using lead_stop[OF s' hb, of "e - 1" "Suc m"] bv bval_snoc_0[of b "e - 1"]
      unfolding st lead_done_def b by simp
  qed
qed

lemma lead_byte:
  assumes s: "shape body len" and h: "hd body = 0" and nz: "bytes_int body \<noteq> 0"
  shows "lead_done body len e (strip_lead (body @ replicate (Suc m) 0) len e)"
proof -
  let ?data = "body @ replicate (Suc m) 0"
  define i where "i = length (takeWhile (\<lambda>b. b = 0) body)"
  define b where "b = dropWhile (\<lambda>b. b = 0) body"
  have sh: "is_bytes body" "length body = nbytes len" "1 \<le> len" "odd len \<Longrightarrow> last body mod 10 = 0"
    using s by (auto simp: shape_def)
  have "takeWhile (\<lambda>b. b = 0) body = replicate i 0"
    unfolding i_def by (rule replicate_eqI) (auto dest: set_takeWhileD)
  then have split: "body = replicate i 0 @ b" by (metis b_def takeWhile_dropWhile_id)
  have b: "b \<noteq> []" using nz split by auto
  then have hb: "hd b \<noteq> 0" unfolding b_def by (rule hd_dropWhile)
  have "is_bytes b" using sh(1) split by (metis is_bytes_simps(3))
  then have hb': "0 < hd b" "hd b < 100" using hb b by (cases b; simp)+
  have "i \<noteq> 0"
  proof
    assume "i = 0"
    then have "body = b" using split by simp
    then show False using h hb by simp
  qed
  moreover have "nbytes len = i + length b" using sh(2) split by (metis length_append length_replicate)
  ultimately have i: "1 \<le> i" "i < nbytes len" "length b = nbytes len - i" using b by simp_all
  have len: "2 * i < len" using i(2) by (simp add: nbytes_def)
  have tw: "length (takeWhile (\<lambda>b. b = 0) ?data) = i"
  proof -
    obtain c cs where c: "b = c # cs" using b by (cases b) auto
    then have "takeWhile (\<lambda>b. b = 0) (replicate i 0 @ b @ replicate (Suc m) 0) = replicate i (0::int)"
      using hb by (subst takeWhile_append2) auto
    then show ?thesis using split by simp
  qed
  have new: "take (nbytes len + 1 - i) (drop i ?data) = b @ replicate (Suc 0) 0"
    using i split by (simp add: Suc_diff_le)
  have st: "strip_lead ?data len e = strip_lead (b @ replicate (Suc 0) 0) (len - 2 * i) (e - 2 * int i)"
  proof -
    have "i \<noteq> length ?data" using i(2) sh(2) by simp
    moreover have "hd ?data = 0" using h shape_nonempty[OF s] by (simp add: hd_body)
    ultimately show ?thesis
      by (subst strip_lead.simps) (simp only: Let_def tw new if_False div_0 mod_0 simp_thms if_True
            not_one_le_zero)
  qed
  have s': "shape b (len - 2 * i)"
  proof -
    have "last b = last body" using split b by simp
    moreover have "nbytes (len - 2 * i) = nbytes len - i" using len by (auto simp: nbytes_def)
    moreover have "odd (len - 2 * i) = odd len" using len by presburger
    ultimately show ?thesis using sh i len \<open>is_bytes b\<close> by (auto simp: shape_def)
  qed
  have "lead_done b (len - 2 * i) (e - 2 * int i)
      (strip_lead (b @ replicate (Suc 0) 0) (len - 2 * i) (e - 2 * int i))"
    using lead_stop[OF s', of _ 0] lead_nibble[OF s' hb'(1), of _ 0] by (cases "10 \<le> hd b") simp_all
  then show ?thesis unfolding st lead_done_def using split bval_zeros[of i b e] by simp
qed

lemma strip_lead_spec:
  assumes "shape body len" "bytes_int body \<noteq> 0"
  shows "lead_done body len e (strip_lead (body @ replicate (Suc m) 0) len e)"
proof -
  have "0 \<le> hd body" using assms shape_nonempty[OF assms(1)] by (cases body) (auto simp: shape_def)
  then consider "hd body = 0" | "0 < hd body" "hd body < 10" | "10 \<le> hd body" by linarith
  then show ?thesis by cases (use assms lead_byte lead_nibble lead_stop in blast)+
qed

definition trail_done :: "int list \<Rightarrow> int list \<Rightarrow> int \<Rightarrow> (nat \<times> bool) option \<Rightarrow> bool" where
  "trail_done data body e r \<longleftrightarrow> (\<exists>len. r = Some (len, True)
     \<and> (let b = take (nbytes len) data in shape b len \<and> hd b = hd body \<and> last b \<noteq> 0
       \<and> (even len \<longrightarrow> last b mod 10 \<noteq> 0) \<and> bval b e = bval body e))"

lemma trail_stop:
  assumes s: "shape body len" and r: "r = Some (len, True)" and l: "last body \<noteq> 0" "even len \<Longrightarrow> last body mod 10 \<noteq> 0"
  shows "trail_done (body @ zs) body e r"
  using assms by (auto simp: trail_done_def shape_def Let_def)

lemma last_byte: "shape body len \<Longrightarrow> (body @ zs) ! (nbytes len - 1) = last body"
proof -
  assume s: "shape body len"
  then have "length body = nbytes len" "body \<noteq> []" using shape_nonempty by (simp_all add: shape_def)
  then show ?thesis by (simp add: nth_append last_conv_nth flip: length_greater_0_conv)
qed

lemma strip_trail_odd:
  "odd len \<Longrightarrow> strip_trail data len =
    (if data ! (nbytes len - 1) mod 10 \<noteq> 0 \<or> data ! (nbytes len - 1) div 10 \<noteq> 0 then Some (len, True)
     else if len = 1 then Some (len, False) else strip_trail data (len - 1))"
  by (simp only: strip_trail.simps[of data len] Let_def if_False simp_thms)

lemma strip_trail_even:
  "even len \<Longrightarrow> z = length (takeWhile (\<lambda>b. b = 0) (rev (take (nbytes len) data))) \<Longrightarrow> z < nbytes len \<Longrightarrow>
   strip_trail data len =
     (if data ! (nbytes (len - 2 * z) - 1) mod 10 \<noteq> 0 then Some (len - 2 * z, True)
      else strip_trail data (len - 2 * z - 1))"
proof -
  assume len: "even len" and z: "z = length (takeWhile (\<lambda>b. b = 0) (rev (take (nbytes len) data)))"
    and less: "z < nbytes len"
  have e: "nbytes len - 1 + 1 = nbytes len" "even (len - 2 * z)" "z \<noteq> nbytes len" using less len by simp_all
  then have "len - 2 * z \<noteq> 1" by presburger
  with e len show ?thesis
    by (simp only: strip_trail.simps[of data len] Let_def e(1) z[symmetric] if_False if_True simp_thms not_True_eq_False)
qed

lemma trail_odd:
  assumes s: "shape body len" and o: "odd len" and l: "last body \<noteq> 0"
  shows "trail_done (body @ zs) body e (strip_trail (body @ zs) len)"
proof (rule trail_stop[OF s])
  have "last body mod 10 = 0" using s o by (auto simp: shape_def)
  then have "last body div 10 \<noteq> 0" using l by presburger
  then show "strip_trail (body @ zs) len = Some (len, True)"
    by (simp only: strip_trail_odd[OF o] last_byte[OF s] simp_thms if_True)
qed (use l o in auto)

lemma trail_even:
  assumes s: "shape body len" and ev: "even len" and h: "hd body \<noteq> 0"
  shows "trail_done (body @ zs) body e (strip_trail (body @ zs) len)"
proof -
  define z where "z = length (takeWhile (\<lambda>b. b = 0) (rev body))"
  define b where "b = rev (dropWhile (\<lambda>b. b = 0) (rev body))"
  have ne: "body \<noteq> []" using s by (rule shape_nonempty)
  have sh: "is_bytes body" "length body = nbytes len" "1 \<le> len" using s by (auto simp: shape_def)
  have "takeWhile (\<lambda>b. b = 0) (rev body) = replicate z 0"
    unfolding z_def by (rule replicate_eqI) (auto dest: set_takeWhileD)
  then have "rev body = replicate z 0 @ rev b" by (metis b_def rev_rev_ident takeWhile_dropWhile_id)
  then have split: "body = b @ replicate z 0" by (metis rev_append rev_replicate rev_rev_ident)
  have b: "b \<noteq> []"
  proof
    assume "b = []"
    then have "body = replicate z 0" using split by simp
    then show False using h ne by (cases z) auto
  qed
  then have lb: "last b \<noteq> 0"
    using hd_dropWhile[of "\<lambda>b. b = 0" "rev body"] by (simp add: b_def last_rev)
  have lenb: "length b = nbytes len - z" "z < nbytes len" using split sh(2) b by (auto simp: neq_Nil_conv)
  have hb: "hd b = hd body" using split b by (metis hd_append2)
  have bytes: "is_bytes b" using sh(1) split by (metis is_bytes_simps(3))
  let ?l = "len - 2 * z"
  have l: "even ?l" "2 \<le> ?l" "nbytes ?l = length b" using ev lenb by (auto simp: nbytes_def elim!: evenE)
  have s': "shape b ?l" using l bytes lenb by (auto simp: shape_def)
  have data: "body @ zs = b @ replicate z 0 @ zs" using split by simp
  have tk: "take (nbytes len) (body @ zs) = body" using sh(2) by simp
  have b1: "(body @ zs) ! (nbytes ?l - 1) = last b" unfolding data by (rule last_byte[OF s'])
  have st: "strip_trail (body @ zs) len =
      (if last b mod 10 \<noteq> 0 then Some (?l, True) else strip_trail (body @ zs) (?l - 1))"
    using strip_trail_even[OF ev _ lenb(2), of "body @ zs"] unfolding b1 tk z_def[symmetric] by blast
  have bv: "bval b e = bval body e" using bval_append_zeros[of b z e] split by simp
  show ?thesis
  proof (cases "last b mod 10 = 0")
    case False
    then have "trail_done (b @ replicate z 0 @ zs) b e (strip_trail (body @ zs) len)"
      unfolding st by (intro trail_stop[OF s']) (simp_all add: lb)
    then show ?thesis unfolding trail_done_def data[symmetric] bv hb .
  next
    case True
    have "shape b (?l - 1)"
      using s' True l nbytes_pred[OF l(1)] by (simp add: shape_def)
    moreover have "odd (?l - 1)" using l by presburger
    ultimately have "trail_done (b @ replicate z 0 @ zs) b e (strip_trail (b @ replicate z 0 @ zs) (?l - 1))"
      using lb by (intro trail_odd)
    then show ?thesis using True unfolding st trail_done_def data[symmetric] bv hb by simp
  qed
qed

lemma strip_trail_spec:
  assumes s: "shape body len" and h: "10 \<le> hd body"
  shows "trail_done (body @ zs) body e (strip_trail (body @ zs) len)"
proof -
  have h0: "hd body \<noteq> 0" using h by simp
  show ?thesis
  proof (cases "even len \<or> last body \<noteq> 0")
    case True
    then show ?thesis using trail_even[OF s _ h0] trail_odd[OF s] by blast
  next
    case False
    then have o: "odd len" and l: "last body = 0" by simp_all
    have ne: "body \<noteq> []" using s by (rule shape_nonempty)
    define b where "b = butlast body"
    have split: "body = b @ [0]" using l ne by (metis append_butlast_last_id b_def)
    have "b \<noteq> []" using h0 split by auto
    have sh: "is_bytes b" "length b + 1 = nbytes len" "1 \<le> len" using s split by (auto simp: shape_def)
    have len: "len \<noteq> 1" "nbytes (len - 1) = length b" using sh o \<open>b \<noteq> []\<close> by (auto simp: nbytes_def elim!: oddE)
    have s': "shape b (len - 1)" using sh len o by (auto simp: shape_def)
    have hb: "hd b = hd body" using split \<open>b \<noteq> []\<close> by (metis hd_append2)
    have st: "strip_trail (body @ zs) len = strip_trail (body @ zs) (len - 1)"
    proof -
      have "last body mod 10 = 0" "last body div 10 = 0" using l by simp_all
      then show ?thesis
        using len(1) by (simp only: strip_trail_odd[OF o] last_byte[OF s] simp_thms if_False)
    qed
    have "trail_done (b @ 0 # zs) b e (strip_trail (b @ 0 # zs) (len - 1))"
      using trail_even[OF s', of "0 # zs" e] o hb h0 by simp
    moreover have "b @ 0 # zs = body @ zs" using split by simp
    moreover have "bval b e = bval body e" using bval_snoc_0[of b e] split by simp
    ultimately show ?thesis unfolding st trail_done_def by (simp only: hb)
  qed
qed

lemma normalize_spec:
  assumes x: "m_ok x" and nz: "mval x \<noteq> 0"
  obtains y where "M_apm_normalize x = Some y" "canonical y" "mval y = mval x"
proof -
  let ?d = "m_apm_data x" and ?len = "m_apm_datalength x" and ?e = "m_apm_exponent x" and ?sg = "m_apm_sign x"
  have s: "shape ?d ?len" using x by (auto simp: shape_def m_ok_def)
  have sg: "?sg = 1 \<or> ?sg = - 1" "bytes_int ?d \<noteq> 0" using nz m_okD(6)[OF x] by (auto simp: mval_def)
  obtain m where pad: "m_apm_data (M_apm_pad x (?len + 3)) = ?d @ replicate (Suc m) 0"
  proof -
    have "nbytes (?len + 3) - nbytes ?len = Suc (nbytes (?len + 3) - nbytes ?len - 1)"
      by (simp add: nbytes_def)
    then show ?thesis using that pad_spec(6)[OF x, of "?len + 3"] by metis
  qed
  obtain b l e k where lead: "strip_lead (?d @ replicate (Suc m) 0) ?len ?e = Some (b @ replicate (Suc k) 0, l, e)"
    and b: "shape b l" "10 \<le> hd b" "bval b e = bval ?d ?e"
    using strip_lead_spec[OF s sg(2), of ?e m] unfolding lead_done_def by blast
  obtain n where trail: "strip_trail (b @ replicate (Suc k) 0) l = Some (n, True)"
    and c: "shape (take (nbytes n) (b @ replicate (Suc k) 0)) n"
      "hd (take (nbytes n) (b @ replicate (Suc k) 0)) = hd b" "last (take (nbytes n) (b @ replicate (Suc k) 0)) \<noteq> 0"
      "even n \<Longrightarrow> last (take (nbytes n) (b @ replicate (Suc k) 0)) mod 10 \<noteq> 0"
      "bval (take (nbytes n) (b @ replicate (Suc k) 0)) e = bval b e"
    using strip_trail_spec[OF b(1,2), of "replicate (Suc k) 0" e] unfolding trail_done_def Let_def by blast
  define y where "y = \<lparr>m_apm_data = take (nbytes n) (b @ replicate (Suc k) 0), m_apm_datalength = n,
    m_apm_exponent = e, m_apm_sign = ?sg\<rparr>"
  have "M_apm_normalize x = Some y"
    using sg by (auto simp: M_apm_normalize_def pad lead trail y_def simp del: replicate.simps)
  moreover have "canonical y"
    using c b(2) sg(1) by (auto simp: canonical_def m_ok_def shape_def y_def)
  moreover have "mval y = mval x" by (simp only: mval_bval y_def M_APM.simps c(5) b(3))
  ultimately show thesis by (rule that)
qed

section \<open>The comparison is that of the values\<close>

text \<open>The bytes as a fraction between 0 and 1.\<close>

definition fraction :: "int list \<Rightarrow> rat" where
  "fraction bs = of_int (bytes_int bs) / 100 ^ length bs"

lemma bval_frac: "bval bs e = fraction bs * 10 powi e"
proof -
  have "(10::rat) powi e = 10 powi (2 * int (length bs)) * 10 powi (e - 2 * int (length bs))"
    by (simp flip: power_int_add)
  moreover have "(10::rat) powi (2 * int (length bs)) = 100 ^ length bs"
    using power_int_of_nat[of "10::rat" "2 * length bs"] by (simp add: power_mult)
  ultimately show ?thesis by (simp add: bval_def fraction_def)
qed

lemma fraction_Nil [simp]: "fraction [] = 0"
  by (simp add: fraction_def)

lemma fraction_Cons: "fraction (b # bs) = (of_int b + fraction bs) / 100"
  by (simp add: fraction_def bytes_int_Cons field_simps)

lemma fraction_append: "fraction (xs @ zs) = fraction xs + fraction zs / 100 ^ length xs"
  by (induction xs) (simp_all add: fraction_Cons field_simps)

lemma fraction_bounds: "is_bytes bs \<Longrightarrow> 0 \<le> fraction bs \<and> fraction bs < 1"
proof -
  assume "is_bytes bs"
  then have b: "0 \<le> bytes_int bs" "bytes_int bs < 100 ^ length bs" using bytes_int_bounds by auto
  then have "of_int (bytes_int bs) < (of_int (100 ^ length bs) :: rat)" by (simp only: of_int_less_iff)
  then show ?thesis using b(1) by (simp add: fraction_def)
qed

lemma fraction_lead: "is_bytes bs \<Longrightarrow> bs \<noteq> [] \<Longrightarrow> 10 \<le> hd bs \<Longrightarrow> 1 / 10 \<le> fraction bs"
  using fraction_bounds[of "tl bs"] by (cases bs) (simp_all add: fraction_Cons)

lemma fraction_last: "is_bytes bs \<Longrightarrow> bs \<noteq> [] \<Longrightarrow> last bs \<noteq> 0 \<Longrightarrow> 0 < fraction bs"
proof (induction bs)
  case (Cons b bs)
  then have "0 \<le> b" "0 \<le> fraction bs" using fraction_bounds[of bs] by auto
  moreover have "0 < b \<or> 0 < fraction bs" using Cons by (cases bs) auto
  ultimately show ?case by (auto simp: fraction_Cons intro: add_pos_nonneg add_nonneg_pos)
qed simp

lemma compare_bytes_frac:
  assumes "is_bytes xs" "is_bytes ys"
  shows "compare_bytes xs ys = 1 \<Longrightarrow> fraction ys < fraction xs"
    and "compare_bytes xs ys = - 1 \<Longrightarrow> fraction xs < fraction ys"
    and "compare_bytes xs ys \<in> {- 1, 0, 1}"
    and "compare_bytes xs ys = 0 \<Longrightarrow> take (min (length xs) (length ys)) xs = take (min (length xs) (length ys)) ys"
proof -
  have lt: "fraction (x # xs) < fraction (y # ys)" if "x < y" "is_bytes xs" "is_bytes ys" for x y :: int and xs ys
  proof -
    have "of_int x + 1 \<le> (of_int y :: rat)" using that(1) by (metis of_int_1 of_int_add of_int_le_iff zless_imp_add1_zle)
    then show ?thesis using fraction_bounds[OF that(2)] fraction_bounds[OF that(3)] by (simp add: fraction_Cons divide_strict_right_mono)
  qed
  have "(compare_bytes xs ys = 1 \<longrightarrow> fraction ys < fraction xs) \<and> (compare_bytes xs ys = - 1 \<longrightarrow> fraction xs < fraction ys)
    \<and> compare_bytes xs ys \<in> {- 1, 0, 1}
    \<and> (compare_bytes xs ys = 0 \<longrightarrow> take (min (length xs) (length ys)) xs = take (min (length xs) (length ys)) ys)"
    using assms
  proof (induction xs ys rule: compare_bytes.induct)
    case (1 x xs y ys)
    consider "x > y" | "x < y" | "x = y" by linarith
    then show ?case
    proof cases
      case 3
      then show ?thesis using 1 by (auto simp: fraction_Cons divide_strict_right_mono)
    qed (use lt 1 in auto)
  qed auto
  then show "compare_bytes xs ys = 1 \<Longrightarrow> fraction ys < fraction xs"
    "compare_bytes xs ys = - 1 \<Longrightarrow> fraction xs < fraction ys"
    "compare_bytes xs ys \<in> {- 1, 0, 1}"
    "compare_bytes xs ys = 0 \<Longrightarrow> take (min (length xs) (length ys)) xs = take (min (length xs) (length ys)) ys"
    by blast+
qed

lemma compare_bytes_take:
  "compare_bytes (take (min (length xs) (length ys)) xs) (take (min (length xs) (length ys)) ys) = compare_bytes xs ys"
  by (induction xs ys rule: compare_bytes.induct) auto

lemma canonicalD:
  assumes "canonical x" "m_apm_sign x \<noteq> 0"
  shows "m_ok x" "10 \<le> hd (m_apm_data x)" "last (m_apm_data x) \<noteq> 0"
    "even (m_apm_datalength x) \<Longrightarrow> last (m_apm_data x) mod 10 \<noteq> 0"
    "m_apm_sign x = 1 \<or> m_apm_sign x = - 1"
  using assms m_okD(6)[of x] by (auto simp: canonical_def)

text \<open>The magnitude is a fraction between 1/10 and 1, times ten to the exponent.\<close>

lemma magnitude:
  assumes "canonical x" "m_apm_sign x \<noteq> 0"
  shows "1 / 10 \<le> fraction (m_apm_data x)" "fraction (m_apm_data x) < 1"
    "mval x = of_int (m_apm_sign x) * (fraction (m_apm_data x) * 10 powi m_apm_exponent x)"
  using canonicalD[OF assms] m_okD(1,2)[of x] fraction_lead[of "m_apm_data x"] fraction_bounds[of "m_apm_data x"]
  by (simp_all add: mval_bval bval_frac)

lemma powi_10_mono: "e \<le> f \<Longrightarrow> (10::rat) powi e \<le> 10 powi f"
  by (rule power_int_increasing) simp_all

lemma larger_exponent:
  assumes "1 / 10 \<le> (f::rat)" "g < 1" "e' < e"
  shows "g * 10 powi e' < f * 10 powi e"
proof -
  have "g * 10 powi e' < 1 * 10 powi e'" using assms(2) by (intro mult_strict_right_mono) simp_all
  also have "\<dots> \<le> 10 powi (e - 1)" using assms(3) powi_10_mono[of e' "e - 1"] by simp
  also have "\<dots> = 1 / 10 * 10 powi e" using powi_10_Suc[of "e - 1"] by simp
  also have "\<dots> \<le> f * 10 powi e" using assms(1) by (intro mult_right_mono) simp_all
  finally show ?thesis .
qed

text \<open>The comparison of the digits, when they start at the same place.\<close>

definition digits_order :: "M_APM \<Rightarrow> M_APM \<Rightarrow> int" where
  "digits_order l r =
     (let c = compare_bytes (m_apm_data l) (m_apm_data r) in
      if c \<noteq> 0 then c
      else if m_apm_datalength l = m_apm_datalength r then 0
      else if m_apm_datalength l > m_apm_datalength r then 1 else - 1)"

lemma longer_greater:
  assumes l: "canonical l" "m_apm_sign l \<noteq> 0" and r: "canonical r" "m_apm_sign r \<noteq> 0"
    and c: "compare_bytes (m_apm_data l) (m_apm_data r) = 0"
    and len: "m_apm_datalength r < m_apm_datalength l"
  shows "fraction (m_apm_data r) < fraction (m_apm_data l)"
proof -
  let ?l = "m_apm_data l" and ?r = "m_apm_data r"
  note L = canonicalD[OF l] and R = canonicalD[OF r]
  note ml = m_okD[OF L(1)] and mr = m_okD[OF R(1)]
  have le: "length ?r \<le> length ?l" using ml(3) mr(3) len by (simp add: nbytes_def div_le_mono)
  then have pre: "take (length ?r) ?l = ?r"
    using compare_bytes_frac(4)[OF ml(2) mr(2) c] by (simp add: min_def split: if_splits)
  have "length ?r \<noteq> length ?l"
  proof
    assume e: "length ?r = length ?l"
    then have d: "?l = ?r" using pre by simp
    have "odd (m_apm_datalength r)" "even (m_apm_datalength l)"
      using e ml(3) mr(3) len by (auto simp: nbytes_def) presburger+
    then show False using L(4) mr(5) d by simp
  qed
  then obtain zs where zs: "?l = ?r @ zs" "zs \<noteq> []"
    using pre le by (metis append_Nil2 append_take_drop_id)
  then have "is_bytes zs" "last zs \<noteq> 0" using ml(2) L(3) by auto
  then have "0 < fraction zs" using zs(2) by (intro fraction_last)
  then show ?thesis by (simp add: zs(1) fraction_append)
qed

lemma compare_bytes_flip: "compare_bytes ys xs = - compare_bytes xs ys"
  by (induction xs ys rule: compare_bytes.induct) auto

lemma digits_order_spec:
  assumes l: "canonical l" "m_apm_sign l \<noteq> 0" and r: "canonical r" "m_apm_sign r \<noteq> 0"
  shows "digits_order l r =
    (if fraction (m_apm_data l) > fraction (m_apm_data r) then 1
     else if fraction (m_apm_data l) < fraction (m_apm_data r) then - 1 else 0)"
proof -
  let ?l = "m_apm_data l" and ?r = "m_apm_data r"
  note ml = m_okD[OF canonicalD(1)[OF l]] and mr = m_okD[OF canonicalD(1)[OF r]]
  note c = compare_bytes_frac[OF ml(2) mr(2)]
  consider "compare_bytes ?l ?r = 1" | "compare_bytes ?l ?r = - 1" | "compare_bytes ?l ?r = 0" using c(3) by blast
  then show ?thesis
  proof cases
    case 3
    then have f: "compare_bytes ?r ?l = 0" by (simp add: compare_bytes_flip[of ?r])
    consider "m_apm_datalength l = m_apm_datalength r" | "m_apm_datalength r < m_apm_datalength l"
      | "m_apm_datalength l < m_apm_datalength r" by linarith
    then show ?thesis
    proof cases
      case 1
      then have "length ?l = length ?r" using ml(3) mr(3) by simp
      then show ?thesis using c(4)[OF 3] 1 3 by (simp add: digits_order_def)
    next
      case 2
      then show ?thesis using longer_greater[OF l r 3 2] 3 by (simp add: digits_order_def)
    next
      case 3
      then show ?thesis
        using longer_greater[OF r l f 3] \<open>compare_bytes ?l ?r = 0\<close> by (simp add: digits_order_def)
    qed
  qed (use c in \<open>auto simp: digits_order_def\<close>)
qed

lemma compare_digits:
  assumes "m_ok l" "m_ok r" "m_apm_sign l = m_apm_sign r" "m_apm_sign l = 1 \<or> m_apm_sign l = - 1"
  shows "m_apm_compare l r = m_apm_sign l *
    (if m_apm_exponent l > m_apm_exponent r then 1
     else if m_apm_exponent l < m_apm_exponent r then - 1 else digits_order l r)"
proof -
  have len: "length (m_apm_data l) = nbytes (m_apm_datalength l)"
    "length (m_apm_data r) = nbytes (m_apm_datalength r)"
    using assms by (simp_all add: m_ok_def)
  have j: "(if m_apm_datalength l < m_apm_datalength r then nbytes (m_apm_datalength l)
      else nbytes (m_apm_datalength r)) = min (length (m_apm_data l)) (length (m_apm_data r))"
    unfolding len by (auto simp: nbytes_def min_def dest: div_le_mono[of _ _ 2])
  have "compare_bytes (m_apm_data l) (m_apm_data r) \<in> {- 1, 0, 1}"
    using assms by (intro compare_bytes_frac(3)) (simp_all add: m_ok_def)
  then show ?thesis
    using assms(3,4) unfolding m_apm_compare_def j compare_bytes_take digits_order_def Let_def by auto
qed

lemma order_cases:
  fixes a b :: rat
  assumes "0 < c"
  shows "a * c < b * c \<longleftrightarrow> a < b"
  using assms by simp

text \<open>\<open>m_apm_compare\<close> on normalised numbers is the order of the numbers denoted.\<close>

lemma compare_value:
  assumes l: "canonical l" and r: "canonical r"
  shows "m_apm_compare l r = (if mval l > mval r then 1 else if mval l < mval r then - 1 else 0)"
proof -
  have pos: "0 < fraction (m_apm_data x) * 10 powi m_apm_exponent x" if "canonical x" "m_apm_sign x \<noteq> 0" for x
    using magnitude(1)[OF that] by simp
  have zero: "mval x = 0" if "m_apm_sign x = 0" for x using that by (simp add: mval_def)
  have sign: "0 < mval x" if "canonical x" "m_apm_sign x = 1" for x
    using pos[of x] magnitude(3)[of x] that by simp
  have sign': "mval x < 0" if "canonical x" "m_apm_sign x = - 1" for x
    using pos[of x] magnitude(3)[of x] that by simp
  have s: "m_apm_sign x = 0 \<or> m_apm_sign x = 1 \<or> m_apm_sign x = - 1" if "canonical x" for x
    using canonicalD(5)[OF that] by blast
  have signs: "m_apm_sign x = 0 \<and> mval x = 0 \<or> m_apm_sign x = 1 \<and> 0 < mval x \<or> m_apm_sign x = - 1 \<and> mval x < 0"
    if "canonical x" for x
    using s[OF that] zero[of x] sign[OF that] sign'[OF that] by blast
  show ?thesis
  proof (cases "m_apm_sign l \<noteq> 0 \<and> m_apm_sign l = m_apm_sign r")
    case False
    from signs[OF l] signs[OF r] show ?thesis
      by (elim disjE conjE; insert False; simp add: m_apm_compare_def)
  next
    case True
    then have nz: "m_apm_sign l \<noteq> 0" "m_apm_sign r \<noteq> 0" "m_apm_sign l = m_apm_sign r" by simp_all
    let ?f = "fraction (m_apm_data l)" and ?g = "fraction (m_apm_data r)"
    let ?e = "m_apm_exponent l" and ?h = "m_apm_exponent r"
    note L = magnitude[OF l nz(1)] and R = magnitude[OF r nz(2)]
    define o1 where "o1 = (if ?f * 10 powi ?e > ?g * 10 powi ?h then 1 else if ?f * 10 powi ?e < ?g * 10 powi ?h then - 1 else (0::int))"
    have o1: "(if ?e > ?h then 1 else if ?e < ?h then - 1 else digits_order l r) = o1"
    proof -
      consider "?h < ?e" | "?e < ?h" | "?e = ?h" by linarith
      then show ?thesis
      proof cases
        case 1
        then show ?thesis using larger_exponent[OF L(1) R(2) 1] by (simp add: o1_def)
      next
        case 2
        then show ?thesis using larger_exponent[OF R(1) L(2) 2] by (simp add: o1_def)
      next
        case 3
        then show ?thesis using digits_order_spec[OF l nz(1) r nz(2)] by (simp add: o1_def order_cases)
      qed
    qed
    have "m_apm_compare l r = m_apm_sign l * o1"
      using compare_digits[OF canonicalD(1)[OF l nz(1)] canonicalD(1)[OF r nz(2)] nz(3) canonicalD(5)[OF l nz(1)]] o1
      by simp
    then show ?thesis
      using canonicalD(5)[OF l nz(1)] nz(3) L(3) R(3) by (auto simp: o1_def)
  qed
qed

end
