(* ===== verification/MapmSum.thy ===== *)
theory MapmSum
  imports MapmStruct
begin

text \<open>
  Addition and subtraction on the bytes (\<open>mapm_add.cpp\<close>): \<open>m_apm_add\<close> and \<open>m_apm_subtract\<close> with their
  alignment by scaling, the carry and borrow loops and the final normalisation. Shown: on
  normalised numbers they return a normalised number, which denotes the exact sum or difference.
\<close>

section \<open>The loops\<close>

text \<open>\<open>r->m_apm_data[j] += carry + work->m_apm_data[j]\<close>, from the right; the carry out of the first byte.\<close>

fun add_bytes :: "int list \<Rightarrow> int list \<Rightarrow> int \<times> int list" where
  "add_bytes (x # xs) (y # ys) =
     (let (carry, zs) = add_bytes xs ys; s = uchar (x + (carry + y)) in
      if s \<ge> 100 then (1, uchar (s - 100) # zs) else (0, s # zs))"
| "add_bytes xs ys = (0, xs)"

fun sub_bytes :: "int list \<Rightarrow> int list \<Rightarrow> int \<times> int list" where
  "sub_bytes (x # xs) (y # ys) =
     (let (borrow, zs) = sub_bytes xs ys; itmp = x - (y + borrow) in
      if itmp \<ge> 0 then (0, uchar itmp # zs) else (1, uchar (100 + itmp) # zs))"
| "sub_bytes xs ys = (0, xs)"

section \<open>m_apm_add and m_apm_subtract\<close>

text \<open>\<open>m_apm_add\<close> once the signs are the same, \<open>m_apm_subtract\<close> likewise.\<close>

definition add_aligned :: "M_APM \<Rightarrow> M_APM \<Rightarrow> M_APM option" where
  "add_aligned a b =
     (let aexp = m_apm_exponent a; bexp = m_apm_exponent b;
          work1 = M_apm_scale (m_apm_copy a) (if aexp \<ge> bexp then 2 else nat (bexp + 2 - aexp));
          work2 = M_apm_scale (m_apm_copy b) (if aexp > bexp then nat (aexp + 2 - bexp) else 2);
          r = (if m_apm_datalength work1 \<ge> m_apm_datalength work2
               then work1\<lparr>m_apm_data := snd (add_bytes (m_apm_data work1) (m_apm_data work2))\<rparr>
               else work2\<lparr>m_apm_data := snd (add_bytes (m_apm_data work2) (m_apm_data work1))\<rparr>)
      in M_apm_normalize (r\<lparr>m_apm_sign := m_apm_sign a\<rparr>))"

text \<open>The work copies of \<open>m_apm_subtract\<close> brought to the same exponent and length.\<close>

definition sub_align :: "M_APM \<Rightarrow> M_APM \<Rightarrow> M_APM \<times> M_APM" where
  "sub_align work1 work2 =
     (let aexp = m_apm_exponent work1; bexp = m_apm_exponent work2;
          work2 = (if aexp > bexp then M_apm_scale work2 (nat (aexp - bexp)) else work2);
          work1 = (if aexp < bexp then M_apm_scale work1 (nat (bexp - aexp)) else work1);
          adigits = m_apm_datalength work1; bdigits = m_apm_datalength work2
      in (if adigits < bdigits then M_apm_pad work1 bdigits else work1,
          if adigits > bdigits then M_apm_pad work2 adigits else work2))"

definition sub_aligned :: "M_APM \<Rightarrow> M_APM \<Rightarrow> M_APM option" where
  "sub_aligned a b =
     (let work1 = m_apm_absolute_value a; work2 = m_apm_absolute_value b;
          icompare = m_apm_compare work1 work2 in
      if icompare = 0 then Some M_set_to_zero
      else
        let (w1, w2) = sub_align work1 work2 in
        if icompare = 1 then
          M_apm_normalize (w1\<lparr>m_apm_data := snd (sub_bytes (m_apm_data w1) (m_apm_data w2)),
            m_apm_sign := m_apm_sign a\<rparr>)
        else
          M_apm_normalize (w2\<lparr>m_apm_data := snd (sub_bytes (m_apm_data w2) (m_apm_data w1)),
            m_apm_sign := - m_apm_sign a\<rparr>))"

function m_apm_add :: "M_APM \<Rightarrow> M_APM \<Rightarrow> M_APM option"
and m_apm_subtract :: "M_APM \<Rightarrow> M_APM \<Rightarrow> M_APM option" where
  "m_apm_add a b =
     (if m_apm_sign a = 0 then Some (m_apm_copy b)
      else if m_apm_sign b = 0 then Some (m_apm_copy a)
      else if m_apm_sign a = 1 \<and> m_apm_sign b = - 1 then m_apm_subtract a (b\<lparr>m_apm_sign := 1\<rparr>)
      else if m_apm_sign a = - 1 \<and> m_apm_sign b = 1 then m_apm_subtract b (a\<lparr>m_apm_sign := 1\<rparr>)
      else add_aligned a b)"
| "m_apm_subtract a b =
     (if m_apm_sign b = 0 then Some (m_apm_copy a)
      else if m_apm_sign a = 0 then
        Some (let r = m_apm_copy b in r\<lparr>m_apm_sign := - m_apm_sign r\<rparr>)
      else if m_apm_sign a = 1 \<and> m_apm_sign b = - 1 then m_apm_add a (b\<lparr>m_apm_sign := 1\<rparr>)
      else if m_apm_sign a = - 1 \<and> m_apm_sign b = 1 then m_apm_add a (b\<lparr>m_apm_sign := - 1\<rparr>)
      else sub_aligned a b)"
  by pat_completeness auto
termination
  by (relation "measure (\<lambda>p. case p of Inl (a, b) \<Rightarrow> if m_apm_sign a = m_apm_sign b then 0 else 1
      | Inr (a, b) \<Rightarrow> if m_apm_sign a = m_apm_sign b then 0 else 1)") auto

declare m_apm_add.simps [simp del] m_apm_subtract.simps [simp del]

section \<open>The loops are exact\<close>

lemma add_bytes_spec:
  "is_bytes xs \<Longrightarrow> is_bytes ys \<Longrightarrow> length ys \<le> length xs \<Longrightarrow> add_bytes xs ys = (c, zs) \<Longrightarrow>
    is_bytes zs \<and> length zs = length xs \<and> (c = 0 \<or> c = 1) \<and> fraction zs + of_int c = fraction xs + fraction ys
    \<and> (last xs mod 10 = 0 \<longrightarrow> length ys < length xs \<or> last ys mod 10 = 0 \<longrightarrow> last zs mod 10 = 0)"
proof (induction xs ys arbitrary: c zs rule: add_bytes.induct)
  case (1 x xs y ys)
  obtain d us where d: "add_bytes xs ys = (d, us)" by (cases "add_bytes xs ys")
  have b: "is_bytes xs" "is_bytes ys" "length ys \<le> length xs" "0 \<le> x" "x < 100" "0 \<le> y" "y < 100"
    using "1.prems" by simp_all
  note IH = "1.IH"[OF b(1-3) d]
  define s where "s = x + (d + y)"
  have s: "0 \<le> s" "s < 200" using b IH by (auto simp: s_def)
  then have r: "c = (if 100 \<le> s then 1 else 0)" "zs = (if 100 \<le> s then s - 100 else s) # us"
    using "1.prems"(4) d by (auto simp: uchar_def Let_def simp flip: s_def split: if_splits)
  have "fraction zs + of_int c = (of_int s + fraction us) / 100"
    by (simp add: r fraction_Cons field_simps)
  also have "\<dots> = fraction (x # xs) + fraction (y # ys)"
  proof -
    have "fraction us + of_int d = fraction xs + fraction ys" using IH by blast
    then have "fraction us = fraction xs + fraction ys - of_int d" by simp
    then show ?thesis by (simp add: s_def fraction_Cons add_divide_distrib)
  qed
  finally have f: "fraction zs + of_int c = fraction (x # xs) + fraction (y # ys)" .
  have l: "last zs mod 10 = 0" if "last (x # xs) mod 10 = 0" "length ys < length xs \<or> last (y # ys) mod 10 = 0"
  proof (cases "xs = []")
    case True
    then have "ys = []" "us = []" "d = 0" using b(3) d by auto
    then have "s mod 10 = 0" "zs = [if 100 \<le> s then s - 100 else s]"
      using that True r by (auto simp: s_def mod_add_eq[symmetric])
    then show ?thesis by auto
  next
    case False
    then have "us \<noteq> []" using IH by auto
    then show ?thesis using IH that False r by (cases "ys = []") auto
  qed
  show ?case using IH f l s r by auto
qed auto

lemma sub_bytes_spec:
  "is_bytes xs \<Longrightarrow> is_bytes ys \<Longrightarrow> length ys = length xs \<Longrightarrow> sub_bytes xs ys = (c, zs) \<Longrightarrow>
    is_bytes zs \<and> length zs = length xs \<and> (c = 0 \<or> c = 1) \<and> fraction zs - of_int c = fraction xs - fraction ys
    \<and> (last xs mod 10 = 0 \<longrightarrow> last ys mod 10 = 0 \<longrightarrow> last zs mod 10 = 0)"
proof (induction xs ys arbitrary: c zs rule: sub_bytes.induct)
  case (1 x xs y ys)
  obtain d us where d: "sub_bytes xs ys = (d, us)" by (cases "sub_bytes xs ys")
  have b: "is_bytes xs" "is_bytes ys" "length ys = length xs" "0 \<le> x" "x < 100" "0 \<le> y" "y < 100"
    using "1.prems" by simp_all
  note IH = "1.IH"[OF b(1-3) d]
  define s where "s = x - (y + d)"
  have s: "- 100 \<le> s" "s < 100" using b IH by (auto simp: s_def)
  have le: "y + d \<le> x \<longleftrightarrow> 0 \<le> s" by (simp add: s_def)
  have r: "c = (if 0 \<le> s then 0 else 1)" "zs = (if 0 \<le> s then s else 100 + s) # us"
    using "1.prems"(4) d s le by (auto simp: uchar_def Let_def simp flip: s_def split: if_splits)
  have "fraction zs - of_int c = (of_int s + fraction us) / 100"
    by (simp add: r fraction_Cons field_simps)
  also have "\<dots> = fraction (x # xs) - fraction (y # ys)"
  proof -
    have "fraction us - of_int d = fraction xs - fraction ys" using IH by blast
    then have "fraction us = fraction xs - fraction ys + of_int d" by simp
    then show ?thesis by (simp add: s_def fraction_Cons add_divide_distrib diff_divide_distrib)
  qed
  finally have f: "fraction zs - of_int c = fraction (x # xs) - fraction (y # ys)" .
  have l: "last zs mod 10 = 0" if "last (x # xs) mod 10 = 0" "last (y # ys) mod 10 = 0"
  proof (cases "xs = []")
    case True
    then have "ys = []" "us = []" "d = 0" using b(3) d by auto
    then have "x mod 10 = 0" "y mod 10 = 0" "s = x - y" "zs = [if 0 \<le> s then s else 100 + s]"
      using that True r by (auto simp: s_def)
    then show ?thesis by auto
  next
    case False
    then have "us \<noteq> []" "ys \<noteq> []" using IH b(3) by auto
    then show ?thesis using IH that False r by auto
  qed
  show ?case using IH f l s r by auto
qed auto

section \<open>Addition\<close>

lemma mval_fraction: "mval x = of_int (m_apm_sign x) * (fraction (m_apm_data x) * 10 powi m_apm_exponent x)"
  by (simp add: mval_bval bval_frac)

text \<open>Adding the shorter number to the longer one, both with a lead byte 0 and the same exponent.\<close>

lemma add_data:
  assumes x: "m_ok x" and y: "m_ok y" and e: "m_apm_exponent x = m_apm_exponent y"
    and s: "m_apm_sign x = m_apm_sign y"
    and lead: "hd (m_apm_data x) = 0" "hd (m_apm_data y) = 0"
    and len: "m_apm_datalength y \<le> m_apm_datalength x"
  defines "r \<equiv> x\<lparr>m_apm_data := snd (add_bytes (m_apm_data x) (m_apm_data y))\<rparr>"
  shows "m_ok r" "mval r = mval x + mval y"
proof -
  let ?x = "m_apm_data x" and ?y = "m_apm_data y"
  obtain c zs where z: "add_bytes ?x ?y = (c, zs)" by (cases "add_bytes ?x ?y")
  note mx = m_okD[OF x] and my = m_okD[OF y]
  have l: "length ?y \<le> length ?x" using mx(3) my(3) len by (simp add: nbytes_def div_le_mono)
  note a = add_bytes_spec[OF mx(2) my(2) l z]
  have small: "fraction d < 1 / 100" if "m_ok w" "hd d = 0" "d = m_apm_data w" for w d
  proof -
    have d: "d = 0 # tl d" using m_okD(1)[OF that(1)] that(2) unfolding that(3)[symmetric]
      by (metis list.collapse)
    then have "is_bytes (tl d)" using m_okD(2)[OF that(1)] that(3) by (metis is_bytes_simps(2))
    then show ?thesis using fraction_Cons[of 0 "tl d"] fraction_bounds[of "tl d"] d by simp
  qed
  have "fraction ?x + fraction ?y < 1" using small[OF x lead(1) refl] small[OF y lead(2) refl] by simp
  moreover have "0 \<le> fraction zs" using a fraction_bounds[of zs] by blast
  ultimately have c: "c = 0" using a by auto
  have r: "r = x\<lparr>m_apm_data := zs\<rparr>" by (simp add: r_def z)
  have "last zs mod 10 = 0" if o: "odd (m_apm_datalength x)"
  proof -
    have "length ?y < length ?x \<or> last ?y mod 10 = 0"
    proof (cases "odd (m_apm_datalength y)")
      case False
      then have "m_apm_datalength y < m_apm_datalength x" using len o by (metis le_neq_implies_less)
      then show ?thesis using mx(3) my(3) o False by (auto simp: nbytes_def elim!: oddE evenE)
    qed (use my(5) in simp)
    then show ?thesis using a mx(5)[OF o] by simp
  qed
  then show "m_ok r" using x a by (simp add: r m_ok_def)
  have "fraction zs = fraction ?x + fraction ?y" using a c by simp
  then show "mval r = mval x + mval y" by (simp add: mval_fraction r e s algebra_simps)
qed

lemma canonical_ok: "canonical x \<Longrightarrow> m_ok x"
  by (simp add: canonical_def)

lemma sign_mval: "canonical x \<Longrightarrow> m_apm_sign x = 1 \<Longrightarrow> 0 < mval x"
  "canonical x \<Longrightarrow> m_apm_sign x = - 1 \<Longrightarrow> mval x < 0"
  "m_apm_sign x = 0 \<Longrightarrow> mval x = 0"
proof -
  have "0 < fraction (m_apm_data x) * 10 powi m_apm_exponent x" if "canonical x" "m_apm_sign x \<noteq> 0"
    using magnitude(1)[OF that] by simp
  then show "canonical x \<Longrightarrow> m_apm_sign x = 1 \<Longrightarrow> 0 < mval x"
    "canonical x \<Longrightarrow> m_apm_sign x = - 1 \<Longrightarrow> mval x < 0" "m_apm_sign x = 0 \<Longrightarrow> mval x = 0"
    by (simp_all add: mval_fraction)
qed

text \<open>The outcome of an operation: a normalised number with a given value.\<close>

definition gives :: "M_APM option \<Rightarrow> rat \<Rightarrow> bool" where
  "gives r v \<longleftrightarrow> (\<exists>y. r = Some y \<and> canonical y \<and> mval y = v)"

lemma gives_Some: "canonical y \<Longrightarrow> mval y = v \<Longrightarrow> gives (Some y) v"
  by (auto simp: gives_def)

lemma gives_normalize: "m_ok x \<Longrightarrow> mval x = v \<Longrightarrow> v \<noteq> 0 \<Longrightarrow> gives (M_apm_normalize x) v"
  by (metis gives_def normalize_spec)

lemma add_aligned_spec:
  assumes a: "canonical a" and b: "canonical b" and s: "m_apm_sign a = m_apm_sign b" "m_apm_sign a \<noteq> 0"
  shows "gives (add_aligned a b) (mval a + mval b)"
proof -
  let ?ae = "m_apm_exponent a" and ?be = "m_apm_exponent b"
  note oa = canonical_ok[OF a] and ob = canonical_ok[OF b]
  define w1 where "w1 = M_apm_scale a (if ?ae \<ge> ?be then 2 else nat (?be + 2 - ?ae))"
  define w2 where "w2 = M_apm_scale b (if ?ae > ?be then nat (?ae + 2 - ?be) else 2)"
  have w: "m_ok w1" "m_ok w2" "mval w1 = mval a" "mval w2 = mval b" "m_apm_sign w1 = m_apm_sign a"
    "m_apm_sign w2 = m_apm_sign a" "m_apm_exponent w1 = m_apm_exponent w2"
    using scale_spec[OF oa] scale_spec[OF ob] s by (auto simp: w1_def w2_def)
  have lead: "hd (m_apm_data w1) = 0" "hd (m_apm_data w2) = 0"
    by (simp add: w1_def scale_lead[OF oa]) (simp add: w2_def scale_lead[OF ob])
  define r where "r = (if m_apm_datalength w1 \<ge> m_apm_datalength w2
    then w1\<lparr>m_apm_data := snd (add_bytes (m_apm_data w1) (m_apm_data w2))\<rparr>
    else w2\<lparr>m_apm_data := snd (add_bytes (m_apm_data w2) (m_apm_data w1))\<rparr>)"
  have r: "m_ok r" "mval r = mval a + mval b" "m_apm_sign r = m_apm_sign a"
    using add_data[OF w(1,2) w(7) _ lead] add_data[OF w(2,1) w(7)[symmetric] _ lead(2,1)] w
    by (auto simp: r_def)
  have "add_aligned a b = M_apm_normalize (r\<lparr>m_apm_sign := m_apm_sign a\<rparr>)"
    by (simp only: add_aligned_def Let_def copy_ok[OF oa] copy_ok[OF ob] w1_def[symmetric] w2_def[symmetric] r_def)
  moreover have "r\<lparr>m_apm_sign := m_apm_sign a\<rparr> = r" using r(3) by simp
  moreover have "mval a + mval b \<noteq> 0"
    using sign_mval(1,2)[OF a] sign_mval(1,2)[OF b] s m_okD(6)[OF oa] by fastforce
  ultimately show ?thesis using r by (simp add: gives_normalize)
qed

section \<open>Subtraction\<close>

lemma same_length:
  assumes "m_ok x" "m_ok y" "m_apm_datalength x = m_apm_datalength y"
  shows "length (m_apm_data x) = length (m_apm_data y)"
  using assms by (simp add: m_ok_def)

lemma sub_data:
  assumes x: "m_ok x" and y: "m_ok y" and e: "m_apm_exponent x = m_apm_exponent y"
    and s: "m_apm_sign x = 1" "m_apm_sign y = 1" and len: "m_apm_datalength x = m_apm_datalength y"
    and le: "mval y \<le> mval x" and sg: "sg = 1 \<or> sg = - 1"
  defines "r \<equiv> x\<lparr>m_apm_data := snd (sub_bytes (m_apm_data x) (m_apm_data y)), m_apm_sign := sg\<rparr>"
  shows "m_ok r" "mval r = of_int sg * (mval x - mval y)"
proof -
  let ?x = "m_apm_data x" and ?y = "m_apm_data y"
  obtain c zs where z: "sub_bytes ?x ?y = (c, zs)" by (cases "sub_bytes ?x ?y")
  note mx = m_okD[OF x] and my = m_okD[OF y]
  note a = sub_bytes_spec[OF mx(2) my(2) same_length[OF y x len[symmetric]] z]
  have "fraction ?y \<le> fraction ?x" using le s e by (simp add: mval_fraction)
  moreover have "fraction zs < 1" using a fraction_bounds[of zs] by blast
  ultimately have c: "c = 0" using a by auto
  have r: "r = x\<lparr>m_apm_data := zs, m_apm_sign := sg\<rparr>" by (simp add: r_def z)
  show "m_ok r" using x a mx(5) my(5) len sg by (auto simp: r m_ok_def)
  have "fraction zs = fraction ?x - fraction ?y" using a c by simp
  moreover have "mval r = of_int sg * (fraction zs * 10 powi m_apm_exponent x)" by (simp add: mval_fraction r)
  ultimately show "mval r = of_int sg * (mval x - mval y)"
    using s e by (simp add: mval_fraction left_diff_distrib)
qed

lemma absolute_sign: "canonical a \<Longrightarrow> m_apm_sign a \<noteq> 0 \<Longrightarrow> m_apm_sign (m_apm_absolute_value a) = 1"
  by (simp add: m_apm_absolute_value_def Let_def canonical_ok)

text \<open>Both numbers brought to the same exponent and length.\<close>

lemma sub_work:
  assumes x: "m_ok x" and y: "m_ok y" and s: "m_apm_sign x = 1" "m_apm_sign y = 1"
    and z: "sub_align x y = (x2, y2)"
  shows "m_ok x2" "m_ok y2" "mval x2 = mval x" "mval y2 = mval y" "m_apm_exponent x2 = m_apm_exponent y2"
    "m_apm_datalength x2 = m_apm_datalength y2" "m_apm_sign x2 = 1" "m_apm_sign y2 = 1"
proof -
  define y1 where "y1 = (if m_apm_exponent x > m_apm_exponent y
      then M_apm_scale y (nat (m_apm_exponent x - m_apm_exponent y)) else y)"
  define x1 where "x1 = (if m_apm_exponent x < m_apm_exponent y
      then M_apm_scale x (nat (m_apm_exponent y - m_apm_exponent x)) else x)"
  have 1: "m_ok x1" "m_ok y1" "mval x1 = mval x" "mval y1 = mval y" "m_apm_exponent x1 = m_apm_exponent y1"
    "m_apm_sign x1 = 1" "m_apm_sign y1 = 1"
    using x y s scale_spec[OF x] scale_spec[OF y] by (auto simp: x1_def y1_def)
  have 2: "x2 = (if m_apm_datalength x1 < m_apm_datalength y1 then M_apm_pad x1 (m_apm_datalength y1) else x1)"
    "y2 = (if m_apm_datalength x1 > m_apm_datalength y1 then M_apm_pad y1 (m_apm_datalength x1) else y1)"
    using z unfolding sub_align_def Let_def x1_def[symmetric] y1_def[symmetric] by (simp_all only: prod.inject)
  note p = pad_spec[OF 1(1)] pad_spec[OF 1(2)]
  show "m_ok x2" "m_ok y2" "mval x2 = mval x" "mval y2 = mval y" "m_apm_exponent x2 = m_apm_exponent y2"
    "m_apm_datalength x2 = m_apm_datalength y2" "m_apm_sign x2 = 1" "m_apm_sign y2 = 1"
    using 1 p by (simp_all add: 2)
qed

lemma sub_aligned_spec:
  assumes a: "canonical a" and b: "canonical b" and s: "m_apm_sign a = m_apm_sign b" "m_apm_sign a \<noteq> 0"
  shows "gives (sub_aligned a b) (mval a - mval b)"
proof -
  define w1 where "w1 = m_apm_absolute_value a"
  define w2 where "w2 = m_apm_absolute_value b"
  define sg where "sg = m_apm_sign a"
  have sg: "sg = 1 \<or> sg = - 1" using canonicalD(5)[OF a s(2)] by (simp add: sg_def)
  have w: "canonical w1" "canonical w2" "mval w1 = \<bar>mval a\<bar>" "mval w2 = \<bar>mval b\<bar>" "m_apm_sign w1 = 1" "m_apm_sign w2 = 1"
    using absolute_spec[OF a] absolute_spec[OF b] absolute_sign[OF a] absolute_sign[OF b] s
    by (simp_all add: w1_def w2_def)
  have v: "mval a = of_int sg * mval w1" "mval b = of_int sg * mval w2"
    using sg w(3,4) sign_mval(1,2)[OF a] sign_mval(1,2)[OF b] s by (auto simp: sg_def)
  note cmp = compare_value[OF w(1,2)]
  obtain x y where xy: "sub_align w1 w2 = (x, y)" by (cases "sub_align w1 w2")
  note W = sub_work[OF canonical_ok[OF w(1)] canonical_ok[OF w(2)] w(5,6) xy]
  have step: "sub_aligned a b = (if m_apm_compare w1 w2 = 0 then Some M_set_to_zero
      else if m_apm_compare w1 w2 = 1
      then M_apm_normalize (x\<lparr>m_apm_data := snd (sub_bytes (m_apm_data x) (m_apm_data y)), m_apm_sign := sg\<rparr>)
      else M_apm_normalize (y\<lparr>m_apm_data := snd (sub_bytes (m_apm_data y) (m_apm_data x)), m_apm_sign := - sg\<rparr>))"
    unfolding sub_aligned_def w1_def[symmetric] w2_def[symmetric] Let_def xy prod.case sg_def ..
  consider "mval w1 = mval w2" | "mval w1 > mval w2" | "mval w1 < mval w2" by linarith
  then show ?thesis
  proof cases
    case 1
    then have "sub_aligned a b = Some M_set_to_zero" using cmp step by simp
    then show ?thesis using 1 v by (simp add: gives_Some)
  next
    case 2
    note d = sub_data[OF W(1,2) W(5) W(7,8) W(6) _ sg]
    have "of_int sg * (mval w1 - mval w2) \<noteq> (0::rat)" using 2 sg by auto
    then have "gives (M_apm_normalize (x\<lparr>m_apm_data := snd (sub_bytes (m_apm_data x) (m_apm_data y)), m_apm_sign := sg\<rparr>))
        (of_int sg * (mval w1 - mval w2))"
      using d 2 W(3,4) by (intro gives_normalize) simp_all
    then show ?thesis using 2 cmp step v by (simp add: right_diff_distrib)
  next
    case 3
    have sg': "- sg = 1 \<or> - sg = - 1" using sg by auto
    note d = sub_data[OF W(2,1) W(5)[symmetric] W(8,7) W(6)[symmetric] _ sg']
    have "of_int (- sg) * (mval w2 - mval w1) \<noteq> (0::rat)" using 3 sg by auto
    then have "gives (M_apm_normalize (y\<lparr>m_apm_data := snd (sub_bytes (m_apm_data y) (m_apm_data x)), m_apm_sign := - sg\<rparr>))
        (of_int (- sg) * (mval w2 - mval w1))"
      using d 3 W(3,4) by (intro gives_normalize) simp_all
    then show ?thesis using 3 cmp step v by (simp add: right_diff_distrib)
  qed
qed

section \<open>The operations\<close>

lemma sign_cases: "canonical x \<Longrightarrow> m_apm_sign x = 0 \<or> m_apm_sign x = 1 \<or> m_apm_sign x = - 1"
  using m_okD(6)[OF canonical_ok] by blast

lemma with_sign:
  assumes "canonical x" "m_apm_sign x \<noteq> 0" "sg = 1 \<or> sg = - 1"
  shows "canonical (x\<lparr>m_apm_sign := sg\<rparr>)" "mval (x\<lparr>m_apm_sign := sg\<rparr>) = of_int sg * \<bar>mval x\<bar>"
proof -
  show "canonical (x\<lparr>m_apm_sign := sg\<rparr>)"
    using assms(3) by (rule disjE) (use assms(1,2) in \<open>simp_all add: canonical_def m_ok_def\<close>)
  have "0 < fraction (m_apm_data x)" using magnitude(1)[OF assms(1,2)] by simp
  then show "mval (x\<lparr>m_apm_sign := sg\<rparr>) = of_int sg * \<bar>mval x\<bar>"
    using canonicalD(5)[OF assms(1,2)] by (auto simp: mval_fraction abs_mult)
qed

lemma add_sub_value:
  assumes a: "canonical a" and b: "canonical b"
  shows "gives (m_apm_add a b) (mval a + mval b)" "gives (m_apm_subtract a b) (mval a - mval b)"
proof -
  have same: "gives (m_apm_add a b) (mval a + mval b)" "gives (m_apm_subtract a b) (mval a - mval b)"
    if "canonical a" "canonical b" "m_apm_sign a = m_apm_sign b" "m_apm_sign a \<noteq> 0" for a b
    using add_aligned_spec[OF that] sub_aligned_spec[OF that] that(3,4)
    by (auto simp: m_apm_add.simps[of a b] m_apm_subtract.simps[of a b])
  have pa: "m_apm_sign a = 1 \<Longrightarrow> 0 < mval a" "m_apm_sign a = - 1 \<Longrightarrow> mval a < 0"
    and pb: "m_apm_sign b = 1 \<Longrightarrow> 0 < mval b" "m_apm_sign b = - 1 \<Longrightarrow> mval b < 0"
    using sign_mval(1,2)[OF a] sign_mval(1,2)[OF b] by blast+
  consider "m_apm_sign a = 0" | "m_apm_sign b = 0" | "m_apm_sign a = m_apm_sign b" "m_apm_sign a \<noteq> 0"
    | "m_apm_sign a = 1" "m_apm_sign b = - 1" | "m_apm_sign a = - 1" "m_apm_sign b = 1"
    using sign_cases[OF a] sign_cases[OF b] by argo
  note c = this
  show "gives (m_apm_add a b) (mval a + mval b)"
  proof (cases rule: c)
    case 3
    then show ?thesis by (rule same(1)[OF a b])
  next
    case 4
    note w = with_sign[OF b, of 1]
    show ?thesis using same(2)[OF a w(1)] w(2) pb(2) 4 by (simp add: m_apm_add.simps[of a b])
  next
    case 5
    note w = with_sign[OF a, of 1]
    show ?thesis using same(2)[OF b w(1)] w(2) pa(2) 5 by (simp add: m_apm_add.simps[of a b] add.commute)
  qed (use a b same sign_mval(3) in \<open>auto simp: m_apm_add.simps[of a b] canonical_ok gives_Some\<close>)
  show "gives (m_apm_subtract a b) (mval a - mval b)"
  proof (cases rule: c)
    case 1
    have "m_apm_subtract a b = (if m_apm_sign b = 0 then Some a else Some (m_apm_negate b))"
      using 1 canonical_ok[OF a] canonical_ok[OF b]
      by (simp add: m_apm_subtract.simps[of a b] m_apm_negate_def)
    then show ?thesis using negate_spec[OF b] a 1 sign_mval(3) by (simp add: gives_Some)
  next
    case 3
    then show ?thesis by (rule same(2)[OF a b])
  next
    case 4
    note w = with_sign[OF b, of 1]
    show ?thesis using same(1)[OF a w(1)] w(2) pb(2) 4 by (simp add: m_apm_subtract.simps[of a b])
  next
    case 5
    note w = with_sign[OF b, of "- 1"]
    show ?thesis using same(1)[OF a w(1)] w(2) pb(1) 5 by (simp add: m_apm_subtract.simps[of a b])
  qed (use a b same sign_mval(3) in \<open>auto simp: m_apm_subtract.simps[of a b] canonical_ok gives_Some\<close>)
qed

end
