(* ===== verification/MapmProduct.thy ===== *)
theory MapmProduct
  imports MapmSum
begin

text \<open>
  Multiplication on the bytes (\<open>mapm_mul.cpp\<close>): the two nested loops of \<open>m_apm_multiply\<close> work in
  place on the bytes of the result and pass a carry on one place at a time. Shown: no byte ever
  exceeds its 8 bits, no carry is lost, and the result denotes the exact product. The Fourier
  multiplication \<open>M_fast_multiply\<close>, used when both operands have 48 bytes and more, is a parameter.
\<close>

section \<open>The loops\<close>

text \<open>\<open>if (*cpr >= 100) { *cpr -= 100; *(cpr - 1) += 1; }\<close>\<close>

definition carry_at :: "nat \<Rightarrow> int list \<Rightarrow> int list" where
  "carry_at p r = (if r ! p \<ge> 100
     then r[p := uchar (r ! p - 100), p - 1 := uchar (r ! (p - 1) + 1)] else r)"

text \<open>The body of the inner loop, for the product \<open>itmp\<close> of two bytes at position \<open>p\<close> (\<open>cpr\<close>).\<close>

definition mul_step :: "int \<Rightarrow> nat \<Rightarrow> int list \<Rightarrow> int list" where
  "mul_step itmp p r =
     (let r1 = r[p - 1 := uchar (r ! (p - 1) + itmp div 100)];
          r2 = r1[p := uchar (r1 ! p + itmp mod 100)]
      in carry_at (p - 1) (carry_at p r2))"

text \<open>\<open>jj\<close> bytes of \<open>b\<close> are still to be multiplied.\<close>

primrec mul_inner :: "int \<Rightarrow> int list \<Rightarrow> nat \<Rightarrow> nat \<Rightarrow> int list \<Rightarrow> int list" where
  "mul_inner ai b 0 p r = r"
| "mul_inner ai b (Suc jj) p r = mul_inner ai b jj (p - 1) (mul_step (ai * b ! jj) p r)"

primrec mul_outer :: "int list \<Rightarrow> int list \<Rightarrow> nat \<Rightarrow> nat \<Rightarrow> int list \<Rightarrow> int list" where
  "mul_outer a b 0 index0 r = r"
| "mul_outer a b (Suc ii) index0 r =
     mul_outer a b ii (index0 - 1) (mul_inner (a ! ii) b (length b) (index0 - 1) r)"

text \<open>The product of two numbers other than 0, from the \<open>memset\<close> of the result to its normalisation.\<close>

definition multiply_loops :: "M_APM \<Rightarrow> M_APM \<Rightarrow> M_APM option" where
  "multiply_loops a b =
     (let numdigits = m_apm_datalength a + m_apm_datalength b;
          indexa = nbytes (m_apm_datalength a); indexb = nbytes (m_apm_datalength b);
          cp = mul_outer (take indexa (m_apm_data a)) (take indexb (m_apm_data b)) indexa
                 (indexa + indexb) (replicate (indexa + indexb) 0)
      in M_apm_normalize
           \<lparr>m_apm_data = take (nbytes numdigits) cp, m_apm_datalength = numdigits,
            m_apm_exponent = m_apm_exponent a + m_apm_exponent b,
            m_apm_sign = m_apm_sign a * m_apm_sign b\<rparr>)"

definition m_apm_multiply :: "(M_APM \<Rightarrow> M_APM \<Rightarrow> M_APM option) \<Rightarrow> M_APM \<Rightarrow> M_APM \<Rightarrow> M_APM option" where
  "m_apm_multiply M_fast_multiply a b =
     (if m_apm_sign a * m_apm_sign b = 0 then Some M_set_to_zero
      else if nbytes (m_apm_datalength a) \<ge> 48 \<and> nbytes (m_apm_datalength b) \<ge> 48
      then M_fast_multiply a b
      else multiply_loops a b)"

section \<open>The loops are exact\<close>

lemma bytes_int_update:
  "i < length r \<Longrightarrow> bytes_int (r[i := v]) = bytes_int r + (v - r ! i) * 100 ^ (length r - 1 - i)"
proof (induction r arbitrary: i)
  case (Cons x r)
  then show ?case by (cases i) (simp_all add: bytes_int_Cons algebra_simps)
qed simp

lemma bytes_int_ge:
  "\<forall>b\<in>set r. 0 \<le> b \<Longrightarrow> i < length r \<Longrightarrow> r ! i * 100 ^ (length r - 1 - i) \<le> bytes_int r"
proof (induction r arbitrary: i)
  case (Cons x r)
  have "0 \<le> bytes_int r"
    using Cons.prems(1) by (induction r) (simp_all add: bytes_int_Cons)
  moreover have "0 \<le> x * 100 ^ length r" using Cons.prems(1) by simp
  moreover have "r ! j * 100 ^ (length r - 1 - j) \<le> bytes_int r" if "j < length r" for j
    using Cons.IH[OF _ that] Cons.prems(1) by simp
  ultimately show ?case using Cons.prems(2) by (cases i) (force simp: bytes_int_Cons)+
qed simp

text \<open>Between two steps one byte, the next to be added to, may be 100.\<close>

definition row_ok :: "int list \<Rightarrow> nat \<Rightarrow> bool" where
  "row_ok r p \<longleftrightarrow> (\<forall>k<length r. 0 \<le> r ! k \<and> r ! k \<le> (if Suc k = p then 100 else 99))"

lemma row_okD: "row_ok r p \<Longrightarrow> k < length r \<Longrightarrow> 0 \<le> r ! k \<and> r ! k \<le> (if Suc k = p then 100 else 99)"
  by (simp add: row_ok_def)

lemma row_ok_bound: "row_ok r p \<Longrightarrow> k < length r \<Longrightarrow> 0 \<le> r ! k \<and> r ! k < 200"
  using row_okD[of r p k] by (simp split: if_splits)

lemma carry_at_value:
  assumes "p < length r" "r ! p < 200" "1 \<le> p \<or> r ! p < 100" "0 \<le> r ! (p - 1)" "r ! (p - 1) < 200"
  shows "length (carry_at p r) = length r" "bytes_int (carry_at p r) = bytes_int r"
    "k \<noteq> p \<Longrightarrow> Suc k \<noteq> p \<Longrightarrow> carry_at p r ! k = r ! k"
    "0 \<le> r ! p \<Longrightarrow> 0 \<le> carry_at p r ! p \<and> carry_at p r ! p < 100"
    "1 \<le> p \<Longrightarrow> r ! (p - 1) \<le> carry_at p r ! (p - 1) \<and> carry_at p r ! (p - 1) \<le> r ! (p - 1) + 1"
proof -
  show "length (carry_at p r) = length r" by (simp add: carry_at_def)
  have u: "uchar (r ! p - 100) = r ! p - 100" if "100 \<le> r ! p" using that assms(2) by (simp add: uchar_def)
  have u1: "uchar (r ! (p - 1) + 1) = r ! (p - 1) + 1" using assms(4,5) by (simp add: uchar_def)
  show "bytes_int (carry_at p r) = bytes_int r"
  proof (cases "100 \<le> r ! p")
    case True
    then have p: "1 \<le> p" using assms(3) by linarith
    then have w: "length r - 1 - (p - 1) = Suc (length r - 1 - p)" using assms(1) by simp
    have "bytes_int (carry_at p r) = bytes_int (r[p := r ! p - 100]) +
        (r ! (p - 1) + 1 - r[p := r ! p - 100] ! (p - 1)) * 100 ^ (length r - 1 - (p - 1))"
      using True assms(1) p u u1 bytes_int_update[of "p - 1" "r[p := r ! p - 100]" "r ! (p - 1) + 1"]
      by (simp add: carry_at_def)
    also have "\<dots> = bytes_int r"
      using bytes_int_update[OF assms(1), of "r ! p - 100"] p unfolding w by simp
    finally show ?thesis .
  qed (simp add: carry_at_def)
  show "k \<noteq> p \<Longrightarrow> Suc k \<noteq> p \<Longrightarrow> carry_at p r ! k = r ! k"
    using assms(3) by (cases p) (auto simp: carry_at_def nth_list_update)
  show "0 \<le> r ! p \<Longrightarrow> 0 \<le> carry_at p r ! p \<and> carry_at p r ! p < 100"
    using assms u by (cases p) (auto simp: carry_at_def)
  show "1 \<le> p \<Longrightarrow> r ! (p - 1) \<le> carry_at p r ! (p - 1) \<and> carry_at p r ! (p - 1) \<le> r ! (p - 1) + 1"
    using assms(1) u1 by (auto simp: carry_at_def nth_list_update)
qed

lemma mul_step_spec:
  assumes r: "row_ok r p" and p: "1 \<le> p" "p < length r" and i: "0 \<le> itmp" "itmp \<le> 9801"
    and fits: "bytes_int r + itmp * 100 ^ (length r - 1 - p) < 100 ^ length r"
  shows "length (mul_step itmp p r) = length r" "row_ok (mul_step itmp p r) (p - 1)"
    "bytes_int (mul_step itmp p r) = bytes_int r + itmp * 100 ^ (length r - 1 - p)"
proof -
  define n where "n = length r"
  have q: "p - 1 < length r" "p - 1 \<noteq> p" using p by simp_all
  have lo: "0 \<le> r ! p" "r ! p \<le> 99" "0 \<le> r ! (p - 1)" "r ! (p - 1) \<le> 100"
    using row_okD[OF r p(2)] row_okD[OF r q(1)] p by simp_all
  have d: "0 \<le> itmp div 100" "itmp div 100 \<le> 98" "0 \<le> itmp mod 100" "itmp mod 100 \<le> 99" using i by auto
  define r1 where "r1 = r[p - 1 := r ! (p - 1) + itmp div 100]"
  define r2 where "r2 = r1[p := r ! p + itmp mod 100]"
  have u: "uchar (r ! (p - 1) + itmp div 100) = r ! (p - 1) + itmp div 100" "uchar (r ! p + itmp mod 100) = r ! p + itmp mod 100"
    using lo d by (simp_all add: uchar_def)
  have step: "mul_step itmp p r = carry_at (p - 1) (carry_at p r2)"
    by (simp only: mul_step_def Let_def u(1) nth_list_update_neq[OF q(2)] u(2) r1_def r2_def)
  have w: "n - 1 - (p - 1) = Suc (n - 1 - p)" using p by (simp add: n_def)
  have "bytes_int r2 = bytes_int r1 + itmp mod 100 * 100 ^ (n - 1 - p)"
    using bytes_int_update[of p r1 "r ! p + itmp mod 100"] p q by (simp add: r2_def r1_def n_def)
  also have "bytes_int r1 = bytes_int r + itmp div 100 * 100 * 100 ^ (n - 1 - p)"
    unfolding r1_def bytes_int_update[OF q(1)] w[unfolded n_def] n_def by simp
  finally have "bytes_int r2 = bytes_int r + (itmp div 100 * 100 + itmp mod 100) * 100 ^ (n - 1 - p)"
    unfolding distrib_right by linarith
  then have v2: "bytes_int r2 = bytes_int r + itmp * 100 ^ (n - 1 - p)" unfolding div_mult_mod_eq .
  have l2: "length r2 = n" by (simp add: r2_def r1_def n_def)
  have r2: "r2 ! p = r ! p + itmp mod 100" "r2 ! (p - 1) = r ! (p - 1) + itmp div 100"
    "\<And>k. k \<noteq> p \<Longrightarrow> k \<noteq> p - 1 \<Longrightarrow> r2 ! k = r ! k"
    using p q by (simp_all add: r2_def r1_def)
  have c1: "p < length r2" "r2 ! p < 200" "1 \<le> p \<or> r2 ! p < 100" "0 \<le> r2 ! (p - 1)" "r2 ! (p - 1) < 200"
    using p lo d r2 l2 by (simp_all add: n_def)
  define r3 where "r3 = carry_at p r2"
  note C = carry_at_value[OF c1]
  have r3: "length r3 = n" "bytes_int r3 = bytes_int r2" "0 \<le> r3 ! p" "r3 ! p \<le> 99"
    "0 \<le> r3 ! (p - 1)" "r3 ! (p - 1) \<le> 199"
    using C(1,2,4,5) r2(1,2) lo d l2 p by (auto simp: r3_def)
  have r3k: "r3 ! k = r ! k" if "k \<noteq> p" "k \<noteq> p - 1" for k
  proof -
    have "Suc k \<noteq> p" using that(2) by linarith
    then show ?thesis using C(3)[OF that(1)] r2(3)[OF that] by (simp add: r3_def)
  qed
  have pos: "\<forall>b\<in>set r3. 0 \<le> b"
  proof
    fix b
    assume "b \<in> set r3"
    then obtain k where k: "k < n" "b = r3 ! k" using r3(1) by (auto simp: in_set_conv_nth)
    then show "0 \<le> b" using r3(3,5) r3k[of k] row_okD[OF r, of k] by (cases "k = p"; cases "k = p - 1") (auto simp: n_def)
  qed
  have top: "r3 ! (p - 1) < 100" if "p = 1"
  proof -
    have "r3 ! 0 * 100 ^ (n - 1) \<le> bytes_int r3"
      using bytes_int_ge[OF pos, of 0] r3(1) p unfolding n_def by (metis diff_zero gr_implies_not_zero not_gr_zero)
    also have "\<dots> < 100 * 100 ^ (n - 1)"
    proof -
      have "(100::int) ^ length r = 100 * 100 ^ (n - 1)" using p by (cases "length r") (simp_all add: n_def)
      then show ?thesis using fits v2 r3(2) by (simp add: n_def)
    qed
    finally have "r3 ! 0 < 100" by (rule mult_right_less_imp_less) simp
    then show ?thesis using that by simp
  qed
  have c2: "p - 1 < length r3" "r3 ! (p - 1) < 200" "1 \<le> p - 1 \<or> r3 ! (p - 1) < 100"
    "0 \<le> r3 ! (p - 1 - 1)" "r3 ! (p - 1 - 1) < 200"
  proof -
    show "p - 1 < length r3" "r3 ! (p - 1) < 200" using r3 p by (simp_all add: n_def)
    show "1 \<le> p - 1 \<or> r3 ! (p - 1) < 100" using top p by linarith
    show "0 \<le> r3 ! (p - 1 - 1)" "r3 ! (p - 1 - 1) < 200"
    proof -
      have "p - 1 - 1 = p - 1 \<or> p - 1 - 1 \<noteq> p - 1 \<and> p - 1 - 1 \<noteq> p" using p by linarith
      moreover have "p - 1 - 1 < length r" using p by linarith
      then have "0 \<le> r ! (p - 1 - 1) \<and> r ! (p - 1 - 1) < 200"
        by (rule row_ok_bound[OF r])
      ultimately show "0 \<le> r3 ! (p - 1 - 1)" "r3 ! (p - 1 - 1) < 200"
        using r3(5,6) r3k[of "p - 1 - 1"] by auto
    qed
  qed
  note D = carry_at_value[OF c2]
  have m: "mul_step itmp p r = carry_at (p - 1) r3" by (simp add: step r3_def)
  show "length (mul_step itmp p r) = length r" using D(1) r3(1) by (simp add: m n_def)
  show "bytes_int (mul_step itmp p r) = bytes_int r + itmp * 100 ^ (length r - 1 - p)"
    using D(2) r3(2) v2 by (simp add: m n_def)
  show "row_ok (mul_step itmp p r) (p - 1)"
    unfolding row_ok_def
  proof (intro allI impI)
    fix k
    assume "k < length (mul_step itmp p r)"
    then have k: "k < length r" using D(1) r3(1) by (simp add: m n_def)
    note R = row_okD[OF r k]
    consider "k = p - 1" | "Suc k = p - 1" | "k = p" | "k \<noteq> p - 1" "Suc k \<noteq> p - 1" "k \<noteq> p" by blast
    then show "0 \<le> mul_step itmp p r ! k \<and> mul_step itmp p r ! k \<le> (if Suc k = p - 1 then 100 else 99)"
    proof cases
      case 1
      then have "Suc k \<noteq> p - 1" by linarith
      then show ?thesis using D(4)[OF r3(5)] 1 by (simp only: m if_False) simp
    next
      case 2
      then have "k = p - 1 - 1" "1 \<le> p - 1" "k \<noteq> p" "k \<noteq> p - 1" by linarith+
      then show ?thesis using D(5) r3k[of k] R 2(1) unfolding m by (simp del: One_nat_def split: if_splits)
    next
      case 3
      then have "Suc k \<noteq> p - 1" "k \<noteq> p - 1" using p by linarith+
      then show ?thesis using D(3)[of k] r3(3,4) 3 by (simp only: m if_False) simp
    next
      case 4
      then show ?thesis using D(3)[of k] r3k[of k] R p by (simp add: m split: if_splits)
    qed
  qed
qed

lemma product_bounds: "is_bytes [x] \<Longrightarrow> is_bytes [y] \<Longrightarrow> 0 \<le> x * y \<and> x * y \<le> 9801"
proof -
  assume "is_bytes [x]" "is_bytes [y]"
  then have "0 \<le> x" "x \<le> 99" "0 \<le> y" "y \<le> 99" by simp_all
  then have "0 \<le> x * y" "x * y \<le> 99 * 99" using mult_mono[of x 99 y 99] by simp_all
  then show ?thesis by simp
qed

lemma bytes_nth: "is_bytes b \<Longrightarrow> j < length b \<Longrightarrow> is_bytes [b ! j]"
  by (auto simp: is_bytes_def)

lemma mul_inner_spec:
  assumes ai: "is_bytes [ai]" and b: "is_bytes b"
  shows "j \<le> length b \<Longrightarrow> row_ok r p \<Longrightarrow> j \<le> p \<Longrightarrow> p < length r \<Longrightarrow>
    bytes_int r + ai * bytes_int (take j b) * 100 ^ (length r - 1 - p) < 100 ^ length r \<Longrightarrow>
    length (mul_inner ai b j p r) = length r \<and> row_ok (mul_inner ai b j p r) (p - j)
    \<and> bytes_int (mul_inner ai b j p r) = bytes_int r + ai * bytes_int (take j b) * 100 ^ (length r - 1 - p)"
proof (induction j arbitrary: p r)
  case (Suc j)
  let ?w = "(100::int) ^ (length r - 1 - p)" and ?t = "ai * b ! j"
  have i: "0 \<le> ?t" "?t \<le> 9801" using product_bounds[OF ai bytes_nth[OF b]] Suc.prems(1) by auto
  have tk: "bytes_int (take (Suc j) b) = 100 * bytes_int (take j b) + b ! j"
    using Suc.prems(1) by (simp add: take_Suc_conv_app_nth bytes_int_snoc)
  have pos: "0 \<le> ai * bytes_int (take j b)"
    using ai bytes_int_bounds[of "take j b"] b by simp
  have tot: "bytes_int r + ai * bytes_int (take (Suc j) b) * ?w
      = bytes_int r + ?t * ?w + ai * bytes_int (take j b) * (100 * ?w)"
    by (simp add: tk algebra_simps)
  have "0 \<le> ai * bytes_int (take j b) * (100 * ?w)" by (rule mult_nonneg_nonneg[OF pos]) simp
  then have fits: "bytes_int r + ?t * ?w < 100 ^ length r" using Suc.prems(5) tot by linarith
  have p1: "1 \<le> p" using Suc.prems(3) by simp
  note m = mul_step_spec[OF Suc.prems(2) p1 Suc.prems(4) i fits]
  have w: "(100::int) ^ (length r - 1 - (p - 1)) = 100 * ?w"
    using p1 Suc.prems(4) by (simp add: power_Suc[symmetric] Suc_diff_Suc del: power_Suc)
  have "length (mul_inner ai b j (p - 1) (mul_step ?t p r)) = length r
    \<and> row_ok (mul_inner ai b j (p - 1) (mul_step ?t p r)) (p - 1 - j)
    \<and> bytes_int (mul_inner ai b j (p - 1) (mul_step ?t p r)) =
        bytes_int (mul_step ?t p r) + ai * bytes_int (take j b) * 100 ^ (length r - 1 - (p - 1))"
  proof (rule Suc.IH[of "mul_step ?t p r" "p - 1", unfolded m(1)])
    show "j \<le> length b" "j \<le> p - 1" "p - 1 < length r" using Suc.prems by linarith+
    show "row_ok (mul_step ?t p r) (p - 1)" by (rule m(2))
    show "bytes_int (mul_step ?t p r) + ai * bytes_int (take j b) * 100 ^ (length r - 1 - (p - 1)) < 100 ^ length r"
      using Suc.prems(5) unfolding m(3) w tot .
  qed
  then show ?case unfolding m(3) w tot by simp
qed simp

lemma row_end:
  assumes "row_ok r i" "i \<le> length r" "bytes_int r < 100 ^ (length r - i)"
  shows "is_bytes r"
  unfolding is_bytes_def
proof
  fix x
  assume "x \<in> set r"
  then obtain k where k: "k < length r" "x = r ! k" by (auto simp: in_set_conv_nth)
  note R = row_okD[OF assms(1) k(1)]
  have "r ! k \<le> 99"
  proof (cases "Suc k = i")
    case True
    have "\<forall>b\<in>set r. 0 \<le> b" using row_okD[OF assms(1)] by (auto simp: in_set_conv_nth)
    then have "r ! k * 100 ^ (length r - 1 - k) < 100 ^ (length r - i)"
      using bytes_int_ge[of r k] k(1) assms(3) by linarith
    moreover have "length r - 1 - k = length r - i" using True by simp
    ultimately have "r ! k * 100 ^ (length r - i) < 1 * 100 ^ (length r - i)" by simp
    then have "r ! k < 1" by (rule mult_right_less_imp_less) simp
    then show ?thesis by simp
  qed (use R in simp)
  then show "0 \<le> x \<and> x < 100" using R k(2) by simp
qed

lemma mul_outer_spec:
  assumes a: "is_bytes a" and b: "is_bytes b" "b \<noteq> []"
  shows "i \<le> length a \<Longrightarrow> is_bytes r \<Longrightarrow> length r = length a + length b \<Longrightarrow>
    bytes_int r = bytes_int (drop i a) * bytes_int b \<Longrightarrow>
    length (mul_outer a b i (i + length b) r) = length r \<and> is_bytes (mul_outer a b i (i + length b) r)
    \<and> bytes_int (mul_outer a b i (i + length b) r) = bytes_int a * bytes_int b"
proof (induction i arbitrary: r)
  case (Suc i)
  let ?n = "length r" and ?p = "i + length b"
  have i: "i < length a" using Suc.prems(1) by simp
  have d: "drop i a = a ! i # drop (Suc i) a" using i by (simp add: Cons_nth_drop_Suc)
  have w: "?n - 1 - ?p = length a - Suc i" using Suc.prems(3) by simp
  have "bytes_int (drop i a) = a ! i * 100 ^ (length a - Suc i) + bytes_int (drop (Suc i) a)"
    by (simp add: d bytes_int_Cons)
  then have tot: "bytes_int r + a ! i * bytes_int (take (length b) b) * 100 ^ (?n - 1 - ?p)
      = bytes_int (drop i a) * bytes_int b"
    using Suc.prems(4) unfolding w by (simp add: algebra_simps)
  have fit: "bytes_int (drop i a) * bytes_int b < 100 ^ (?n - i)"
  proof -
    have "0 \<le> bytes_int (drop i a)" "bytes_int (drop i a) < 100 ^ (length a - i)"
      "0 \<le> bytes_int b" "bytes_int b < 100 ^ length b"
      using bytes_int_bounds[of "drop i a"] bytes_int_bounds[of b] a b by simp_all
    then have "bytes_int (drop i a) * bytes_int b < 100 ^ (length a - i) * 100 ^ length b"
      by (intro mult_strict_mono) simp_all
    moreover have "length a - i + length b = ?n - i" using Suc.prems(3) i by simp
    ultimately show ?thesis by (simp flip: power_add)
  qed
  have fit': "bytes_int (drop i a) * bytes_int b < 100 ^ ?n"
    using fit power_increasing[of "?n - i" ?n "100::int"] by linarith
  have "r ! k \<in> set r" if "k < length r" for k using that by simp
  then have ok: "row_ok r ?p" using Suc.prems(2) unfolding row_ok_def is_bytes_def by fastforce
  let ?r = "mul_inner (a ! i) b (length b) ?p r"
  have p: "?p < ?n" using Suc.prems(3) i by simp
  have "length ?r = ?n \<and> row_ok ?r (?p - length b) \<and> bytes_int ?r = bytes_int (drop i a) * bytes_int b"
    by (rule mul_inner_spec[OF bytes_nth[OF a i] b(1) le_refl ok _ p, unfolded tot, OF _ fit']) simp
  then have inner: "length ?r = ?n" "row_ok ?r i" "bytes_int ?r = bytes_int (drop i a) * bytes_int b"
    by simp_all
  have "is_bytes ?r" by (rule row_end[OF inner(2)]) (use inner fit i Suc.prems(3) in simp_all)
  from Suc.IH[OF _ this _ inner(3)] inner(1) i Suc.prems(3) show ?case by simp
qed simp

section \<open>The product\<close>

lemma bytes_mod_10: "bytes_int bs mod 10 = last bs mod 10" "bytes_int bs mod 100 = last bs mod 100" if "bs \<noteq> []"
proof -
  have "bytes_int bs = last bs + 100 * bytes_int (butlast bs)" "bytes_int bs = last bs + 10 * (10 * bytes_int (butlast bs))"
    using bytes_int_tail[OF that] by simp_all
  then show "bytes_int bs mod 10 = last bs mod 10" "bytes_int bs mod 100 = last bs mod 100"
    by (metis mod_mult_self2)+
qed

lemma odd_bytes: "m_ok x \<Longrightarrow> odd (m_apm_datalength x) \<Longrightarrow> 10 dvd bytes_int (m_apm_data x)"
  using m_okD(1,5)[of x] bytes_mod_10(1)[of "m_apm_data x"] by presburger

lemma fraction_product:
  "bytes_int c = bytes_int a * bytes_int b \<Longrightarrow> length c = length a + length b \<Longrightarrow>
    fraction c = fraction a * fraction b"
  by (simp add: fraction_def power_add)

lemma multiply_loops_spec:
  assumes a: "canonical a" and b: "canonical b" and nz: "m_apm_sign a * m_apm_sign b \<noteq> 0"
  shows "gives (multiply_loops a b) (mval a * mval b)"
proof -
  let ?la = "m_apm_datalength a" and ?lb = "m_apm_datalength b"
  let ?A = "m_apm_data a" and ?B = "m_apm_data b"
  note ma = m_okD[OF canonical_ok[OF a]] and mb = m_okD[OF canonical_ok[OF b]]
  define c where "c = mul_outer ?A ?B (length ?A) (length ?A + length ?B) (replicate (length ?A + length ?B) 0)"
  have c: "length c = length ?A + length ?B" "is_bytes c" "bytes_int c = bytes_int ?A * bytes_int ?B"
    using mul_outer_spec[OF ma(2) mb(2,1), of "length ?A" "replicate (length ?A + length ?B) 0"]
    by (simp_all add: c_def)
  have cne: "c \<noteq> []" using c(1) ma(1) by auto
  have last_c: "0 \<le> last c" "last c < 100" using c(2) cne by (auto simp: is_bytes_def)
  define y where "y = \<lparr>m_apm_data = take (nbytes (?la + ?lb)) c, m_apm_datalength = ?la + ?lb,
    m_apm_exponent = m_apm_exponent a + m_apm_exponent b, m_apm_sign = m_apm_sign a * m_apm_sign b\<rparr>"
  have step: "multiply_loops a b = M_apm_normalize y"
    by (simp add: multiply_loops_def Let_def y_def c_def flip: ma(3) mb(3))
  have sg: "m_apm_sign a * m_apm_sign b \<in> {-1, 0, 1}" using ma(6) mb(6) by auto
  have fc: "fraction c = fraction ?A * fraction ?B" using fraction_product[OF c(3,1)] .
  have y: "m_ok y \<and> fraction (m_apm_data y) = fraction c"
  proof (cases "odd ?la \<and> odd ?lb")
    case True
    then have "100 dvd bytes_int c"
      using mult_dvd_mono[OF odd_bytes[OF canonical_ok[OF a]] odd_bytes[OF canonical_ok[OF b]]] c(3) by simp
    then have "last c = 0" using bytes_mod_10(2)[OF cne] last_c by simp
    then have snoc: "c = butlast c @ [0]" using append_butlast_last_id[OF cne] by simp
    have n: "nbytes (?la + ?lb) = length c - 1"
      using True c(1) ma(3) mb(3) by (auto simp: nbytes_def elim!: oddE)
    then have t: "take (nbytes (?la + ?lb)) c = butlast c" by (simp only: butlast_conv_take)
    have "fraction c = fraction (butlast c)" by (subst snoc) (simp add: fraction_append fraction_Cons)
    moreover have "is_bytes (butlast c)" using c(2) by (auto simp: is_bytes_def dest: in_set_butlastD)
    ultimately show ?thesis 
      using n t sg True ma(4) unfolding m_ok_def y_def by (simp only: M_APM.simps length_butlast) simp
  next
    case False
    then have n: "nbytes (?la + ?lb) = length c"
      using c(1) ma(3) mb(3) by (cases "odd ?la"; cases "odd ?lb") (auto simp: nbytes_def elim!: oddE evenE)
    have "10 dvd bytes_int c" if "odd (?la + ?lb)"
      using that odd_bytes[OF canonical_ok[OF a]] odd_bytes[OF canonical_ok[OF b]] unfolding c(3)
      by (auto intro: dvd_mult dvd_mult2)
    then have "last c mod 10 = 0" if "odd (?la + ?lb)" using that bytes_mod_10(1)[OF cne] by presburger
    then show ?thesis using n c(2) sg ma(4) by (auto simp: m_ok_def y_def)
  qed
  then have "mval y = mval a * mval b"
    by (simp add: mval_fraction fc) (simp add: y_def power_int_add)
  moreover have "mval a * mval b \<noteq> 0"
    using nz sign_mval(1,2)[OF a] sign_mval(1,2)[OF b] sign_cases[OF a] sign_cases[OF b] by force
  ultimately show ?thesis using y unfolding step by (intro gives_normalize) blast+
qed

lemma multiply_spec:
  assumes a: "canonical a" and b: "canonical b"
    and fast: "48 \<le> nbytes (m_apm_datalength a) \<Longrightarrow> 48 \<le> nbytes (m_apm_datalength b) \<Longrightarrow>
      gives (fast a b) (mval a * mval b)"
  shows "gives (m_apm_multiply fast a b) (mval a * mval b)"
proof (cases "m_apm_sign a * m_apm_sign b = 0")
  case True
  then have "mval a * mval b = 0" using sign_mval(3) by auto
  then show ?thesis using True by (simp add: m_apm_multiply_def gives_Some)
next
  case False
  then show ?thesis using fast multiply_loops_spec[OF a b] unfolding m_apm_multiply_def by presburger
qed

text \<open>What \<open>M_fast_multiply\<close> is used for: the product of two big numbers.\<close>

definition multiplies :: "(M_APM \<Rightarrow> M_APM \<Rightarrow> M_APM option) \<Rightarrow> bool" where
  "multiplies fast \<longleftrightarrow> (\<forall>a b. canonical a \<longrightarrow> canonical b \<longrightarrow> 48 \<le> nbytes (m_apm_datalength a) \<longrightarrow>
     48 \<le> nbytes (m_apm_datalength b) \<longrightarrow> gives (fast a b) (mval a * mval b))"

lemma multiply_value:
  "multiplies fast \<Longrightarrow> canonical a \<Longrightarrow> canonical b \<Longrightarrow> gives (m_apm_multiply fast a b) (mval a * mval b)"
  by (rule multiply_spec) (simp_all add: multiplies_def)

text \<open>The loops themselves are such a multiplication.\<close>

lemma multiplies_loops: "multiplies (\<lambda>a b. if m_apm_sign a * m_apm_sign b = 0 then Some M_set_to_zero else multiply_loops a b)"
  unfolding multiplies_def
proof (intro allI impI)
  fix a b
  assume "canonical a" "canonical b"
  then show "gives (if m_apm_sign a * m_apm_sign b = 0 then Some M_set_to_zero else multiply_loops a b) (mval a * mval b)"
    using multiply_loops_spec[of a b] sign_mval(3)[of a] sign_mval(3)[of b] by (auto simp: gives_Some)
qed

end
