(* ===== verification/MapmSdivide.thy ===== *)
theory MapmSdivide
  imports MapmProduct MapmDiv
begin

text \<open>
  The long division \<open>M_apm_sdivide\<close> of \<open>mapm_div.cpp\<close> on the bytes: Knuth's algorithm D in base
  100, with its normalising factor, its trial quotient from the leading digits and the single
  correction. Shown: every trial quotient is right or one too large, the loop ends, and the result
  is the quotient of \<open>sdivide\<close>, cut to the digits the code computes.
\<close>

section \<open>m_apm_set_long\<close>

lemma data_bytes_ends:
  "list_all is_digit s \<Longrightarrow> s \<noteq> [] \<Longrightarrow>
    is_bytes (data_bytes s) \<and> length (data_bytes s) = nbytes (length s)
    \<and> int (digit_val (hd s)) \<le> hd (data_bytes s) div 10
    \<and> last (data_bytes s) mod 10 = (if even (length s) then int (digit_val (last s)) else 0)
    \<and> int (digit_val (last s)) \<le> last (data_bytes s)"
proof (induction s rule: data_bytes.induct)
  case (1 c d s)
  have v: "of_char c - 48 = (int (digit_val c) :: int)" "of_char d - 48 = (int (digit_val d) :: int)"
    "digit_val c < 10" "digit_val d < 10"
    using 1(2) byte_value by simp_all
  then have b: "data_bytes (c # d # s) = (10 * int (digit_val c) + int (digit_val d)) # data_bytes s" by simp
  show ?case
  proof (cases "s = []")
    case False
    then have "data_bytes s \<noteq> []" by (cases s rule: data_bytes.cases) simp_all
    then show ?thesis using 1 v False unfolding b by (simp add: nbytes_def)
  qed (use v in \<open>simp add: b nbytes_def\<close>)
next
  case (2 c)
  then have "of_char c - 48 = (int (digit_val c) :: int)" "digit_val c < 10" using byte_value by simp_all
  then show ?case by (simp add: nbytes_def)
qed simp

lemma digit_val_0: "is_digit c \<Longrightarrow> digit_val c = 0 \<longleftrightarrow> c = CHR ''0''"
  by (auto simp: is_digit_cases digit_val_def)

lemma set_long_spec: "canonical (m_apm_set_long i) \<and> mval (m_apm_set_long i) = of_int i"
proof (cases "i = 0")
  case False
  define buf where "buf = dec (nat \<bar>i\<bar>)"
  define ds where "ds = rev (dropWhile (\<lambda>c. c = CHR ''0'') (rev buf))"
  define k where "k = length (takeWhile (\<lambda>c. c = CHR ''0'') (rev buf))"
  have "rev buf = replicate k CHR ''0'' @ rev ds"
  proof -
    have "takeWhile (\<lambda>c. c = CHR ''0'') (rev buf) = replicate k CHR ''0''"
      unfolding k_def by (rule replicate_length_same[symmetric]) (auto dest: set_takeWhileD)
    then show ?thesis using takeWhile_dropWhile_id[of "\<lambda>c. c = CHR ''0''" "rev buf"] by (simp add: ds_def)
  qed
  then have b: "buf = ds @ replicate k CHR ''0''" by (metis rev_append rev_replicate rev_rev_ident)
  have hd_buf: "hd buf \<noteq> CHR ''0''" using dec_hd False by (simp add: buf_def)
  have digits: "list_all is_digit buf" by (simp add: buf_def dec_digits)
  have ne: "ds \<noteq> []"
  proof
    assume "ds = []"
    then have "buf = replicate k CHR ''0''" using b by simp
    moreover have "buf \<noteq> []" by (simp add: buf_def)
    ultimately show False using hd_buf by (cases k) auto
  qed
  have lst: "last ds \<noteq> CHR ''0''" using ne hd_dropWhile[of "\<lambda>c. c = CHR ''0''" "rev buf"]
    by (simp add: ds_def last_rev)
  have dd: "list_all is_digit ds" using digits b by simp
  have isd: "is_digit (hd ds)" "is_digit (last ds)" using dd ne by (auto simp: list_all_iff)
  have hd_ds: "hd ds \<noteq> CHR ''0''" using hd_buf ne b by simp
  note E = data_bytes_ends[OF dd ne]
  have nz: "1 \<le> int (digit_val (hd ds))" "1 \<le> int (digit_val (last ds))"
    using digit_val_0[OF isd(1)] digit_val_0[OF isd(2)] hd_ds lst by linarith+
  define x where "x = m_apm_set_long i"
  have x: "x = \<lparr>m_apm_data = data_bytes ds, m_apm_datalength = length ds,
      m_apm_exponent = int (length buf), m_apm_sign = (if i < 0 then - 1 else 1)\<rparr>"
    using False by (simp add: x_def m_apm_set_long_def Let_def buf_def ds_def)
  have "1 \<le> length ds" using ne by (cases ds) simp_all
  moreover have "10 \<le> hd (data_bytes ds)" "last (data_bytes ds) \<noteq> 0"
    "even (length ds) \<Longrightarrow> last (data_bytes ds) mod 10 \<noteq> 0" using E nz by auto
  ultimately have c: "canonical x" using E by (simp add: x canonical_def m_ok_def)
  have "undec buf = undec ds * 10 ^ k" by (simp add: b undec_append undec_zeros)
  then have u: "\<bar>i\<bar> = int (undec ds) * 10 ^ k" by (simp add: buf_def undec_dec) (metis of_nat_mult of_nat_numeral of_nat_power nat_0_le abs_ge_zero)
  have bi: "bytes_int (data_bytes ds) = int (undec ds) * (if even (length ds) then 1 else 10)"
    using data_bytes_digits[OF dd, of 0] foldl_int[of 0 ds] by (simp add: bytes_int_def undec_def)
  have l: "int (length buf) - 2 * int (length (data_bytes ds)) = int k - (if even (length ds) then 0 else 1)"
    using E by (auto simp: b elim!: evenE oddE)
  have "of_int (bytes_int (data_bytes ds)) * (10::rat) powi (int (length buf) - 2 * int (length (data_bytes ds)))
      = of_int \<bar>i\<bar>"
    unfolding l bi u by (cases "even (length ds)") (simp_all add: power_int_diff)
  then have "mval x = of_int i" by (simp add: x mval_def mexp_def abs_if split: if_splits)
  then show ?thesis using c by (simp add: x_def)
qed (simp add: m_apm_set_long_def)

lemma set_long_canonical [simp]: "canonical (m_apm_set_long i)" "mval (m_apm_set_long i) = of_int i"
  using set_long_spec by auto

section \<open>The division\<close>

definition trial_numer :: "M_APM \<Rightarrow> int" where
  "trial_numer w = 10000 * m_apm_data w ! 0 +
     (if m_apm_datalength w \<ge> 5 then 100 * m_apm_data w ! 1 + m_apm_data w ! 2
      else if m_apm_datalength w \<ge> 3 then 100 * m_apm_data w ! 1 else 0)"

definition trial_denom :: "M_APM \<Rightarrow> int" where
  "trial_denom w = 100 * m_apm_data w ! 0 + (if m_apm_datalength w \<ge> 3 then m_apm_data w ! 1 else 0)"

text \<open>\<open>j /= 10\<close>, \<open>k\<close> times.\<close>

primrec div_tens :: "nat \<Rightarrow> int \<Rightarrow> int" where
  "div_tens 0 j = j"
| "div_tens (Suc k) j = div_tens k (cdiv j 10)"

definition q_hat :: "int \<Rightarrow> M_APM \<Rightarrow> int" where
  "q_hat b0 worka =
     (let j0 = cdiv (trial_numer worka) b0; k = 2 - m_apm_exponent worka;
          j = (if k > 0 then div_tens (nat k) j0 else j0)
      in if j = 100 then 99 else j)"

text \<open>The digit and its product with the denominator, after the correction.\<close>

definition sdiv_digit ::
  "(M_APM \<Rightarrow> M_APM \<Rightarrow> M_APM option) \<Rightarrow> int \<Rightarrow> M_APM \<Rightarrow> M_APM \<Rightarrow> (int \<times> M_APM) option" where
  "sdiv_digit fast b0 workb worka =
     (let j = q_hat b0 worka in
      Option.bind (m_apm_multiply fast (m_apm_set_long j) workb) (\<lambda>tmp7.
        if m_apm_compare tmp7 worka = 1
        then map_option (\<lambda>tmp8. (j - 1, m_apm_copy tmp8)) (m_apm_subtract tmp7 workb)
        else Some (j, tmp7)))"

text \<open>The digits stored in the result and the \<open>iterations\<close> at the end of the loop.\<close>

function sdiv_loop ::
  "(M_APM \<Rightarrow> M_APM \<Rightarrow> M_APM option) \<Rightarrow> int \<Rightarrow> M_APM \<Rightarrow> int \<Rightarrow> int \<Rightarrow> M_APM \<Rightarrow> (int list \<times> int) option" where
  "sdiv_loop fast b0 workb iterations m worka =
     (case sdiv_digit fast b0 workb worka of
        None \<Rightarrow> None
      | Some (j, tmp7) \<Rightarrow>
          if m + 2 \<ge> iterations then Some ([uchar j], iterations)
          else case m_apm_subtract worka tmp7 of
              None \<Rightarrow> None
            | Some tmp9 \<Rightarrow>
                if m_apm_sign tmp9 = 0 then Some ([uchar j], m + 2)
                else map_option (\<lambda>(ds, n). (uchar j # ds, n))
                  (sdiv_loop fast b0 workb iterations (m + 2)
                    (m_apm_copy (tmp9\<lparr>m_apm_exponent := m_apm_exponent tmp9 + 2\<rparr>))))"
  by pat_completeness auto
termination
  by (relation "measure (\<lambda>(fast, b0, workb, iterations, m, worka). nat (iterations - m))") auto

declare sdiv_loop.simps [simp del]

text \<open>Step D1: the work copies, positive and with a first byte of the denominator of at least 50.\<close>

definition sdiv_works :: "(M_APM \<Rightarrow> M_APM \<Rightarrow> M_APM option) \<Rightarrow> M_APM \<Rightarrow> M_APM \<Rightarrow> (M_APM \<times> M_APM) option" where
  "sdiv_works fast a b =
     (if m_apm_data b ! 0 \<ge> 50 then Some (m_apm_absolute_value a, m_apm_absolute_value b)
      else
        let tmp9 = m_apm_set_long (cdiv 100 (m_apm_data b ! 0 + 1)) in
        Option.bind (m_apm_multiply fast tmp9 a) (\<lambda>worka.
          map_option (\<lambda>workb. (worka\<lparr>m_apm_sign := 1\<rparr>, workb\<lparr>m_apm_sign := 1\<rparr>))
            (m_apm_multiply fast tmp9 b)))"

definition sdiv_quotient ::
  "(M_APM \<Rightarrow> M_APM \<Rightarrow> M_APM option) \<Rightarrow> int \<Rightarrow> int \<Rightarrow> M_APM \<Rightarrow> M_APM \<Rightarrow> M_APM option" where
  "sdiv_quotient fast places sign worka workb =
     (let b0 = trial_denom workb;
          nexp = m_apm_exponent worka - m_apm_exponent workb;
          iterations = (if nexp > 0 then nexp + places + 1 else places + 1);
          wa = worka\<lparr>m_apm_exponent := 0\<rparr>; wb = workb\<lparr>m_apm_exponent := 0\<rparr>;
          icompare = m_apm_compare wa wb in
      if icompare = 0 then
        M_apm_normalize \<lparr>m_apm_data = [10], m_apm_datalength = 1, m_apm_exponent = nexp + 1, m_apm_sign = sign\<rparr>
      else
        Option.bind
          (sdiv_loop fast b0 wb iterations 0
            (wa\<lparr>m_apm_exponent := m_apm_exponent wa + (if icompare = 1 then 1 else 2)\<rparr>))
          (\<lambda>(ds, n). M_apm_normalize
            \<lparr>m_apm_data = ds, m_apm_datalength = nat n,
             m_apm_exponent = (if icompare = 1 then nexp + 1 else nexp), m_apm_sign = sign\<rparr>))"

definition M_apm_sdivide :: "(M_APM \<Rightarrow> M_APM \<Rightarrow> M_APM option) \<Rightarrow> int \<Rightarrow> M_APM \<Rightarrow> M_APM \<Rightarrow> M_APM option" where
  "M_apm_sdivide fast places a b =
     (let sign = m_apm_sign a * m_apm_sign b in
      if sign = 0 then Some M_set_to_zero
      else Option.bind (sdiv_works fast a b) (\<lambda>(worka, workb). sdiv_quotient fast places sign worka workb))"

definition m_apm_integer_divide :: "(M_APM \<Rightarrow> M_APM \<Rightarrow> M_APM option) \<Rightarrow> M_APM \<Rightarrow> M_APM \<Rightarrow> M_APM option" where
  "m_apm_integer_divide fast aa bb =
     Option.bind (M_apm_sdivide fast 4 aa bb) (\<lambda>rr.
       if m_apm_exponent rr \<le> 0 then Some M_set_to_zero
       else if int (m_apm_datalength rr) > m_apm_exponent rr
       then M_apm_normalize (rr\<lparr>m_apm_datalength := nat (m_apm_exponent rr)\<rparr>)
       else Some rr)"

definition m_apm_integer_div_rem ::
  "(M_APM \<Rightarrow> M_APM \<Rightarrow> M_APM option) \<Rightarrow> M_APM \<Rightarrow> M_APM \<Rightarrow> (M_APM \<times> M_APM) option" where
  "m_apm_integer_div_rem fast aa bb =
     Option.bind (m_apm_integer_divide fast aa bb) (\<lambda>qq.
       Option.bind (m_apm_multiply fast qq bb) (\<lambda>tmp7.
         map_option (\<lambda>rr. (qq, rr)) (m_apm_subtract aa tmp7)))"

section \<open>The trial quotient\<close>

lemma div_tens_div: "0 \<le> j \<Longrightarrow> div_tens k j = j div 10 ^ k"
proof (induction k arbitrary: j)
  case (Suc k)
  then have "div_tens (Suc k) j = j div 10 div 10 ^ k" by simp
  then show ?case by (simp add: zdiv_zmult2_eq)
qed simp

lemma leading_digits:
  assumes x: "m_ok x"
  shows "trial_numer x = \<lfloor>fraction (m_apm_data x) * 10 ^ 6\<rfloor>" "trial_denom x = \<lfloor>fraction (m_apm_data x) * 10 ^ 4\<rfloor>"
proof -
  let ?d = "m_apm_data x" and ?len = "m_apm_datalength x"
  note m = m_okD[OF x]
  consider (1) a where "?d = [a]" "?len < 3" | (2) a b where "?d = [a, b]" "3 \<le> ?len" "?len < 5"
    | (3) a b c ds where "?d = a # b # c # ds" "5 \<le> ?len"
    using m(1,3,4) by (cases ?d rule: list.exhaust; cases "tl ?d"; cases "tl (tl ?d)") (auto simp: nbytes_def)
  then have "trial_numer x = \<lfloor>fraction ?d * 10 ^ 6\<rfloor> \<and> trial_denom x = \<lfloor>fraction ?d * 10 ^ 4\<rfloor>"
  proof cases
    case (3 a b c ds)
    have ds: "0 \<le> fraction ds" "fraction ds < 1" "0 \<le> c" "c < 100" using m(2) 3 fraction_bounds[of ds] by simp_all
    have "fraction ?d * 10 ^ 6 = of_int (10000 * a + 100 * b + c) + fraction ds"
      by (simp add: 3 fraction_Cons field_simps)
    moreover have "fraction ?d * 10 ^ 4 = of_int (100 * a + b) + (of_int c + fraction ds) / 100"
      by (simp add: 3 fraction_Cons field_simps)
    moreover have "0 \<le> (of_int c + fraction ds) / 100" "(of_int c + fraction ds) / 100 < 1"
    proof -
      have "(of_int c :: rat) \<le> of_int 99" using ds(4) by (subst of_int_le_iff) simp
      then show "(of_int c + fraction ds) / 100 < 1" using ds by simp
      show "0 \<le> (of_int c + fraction ds) / 100" using ds by simp
    qed
    ultimately have "\<lfloor>fraction ?d * 10 ^ 6\<rfloor> = 10000 * a + 100 * b + c" "\<lfloor>fraction ?d * 10 ^ 4\<rfloor> = 100 * a + b"
      using ds(1,2) by (simp_all only: floor_eq_iff) linarith+
    then show ?thesis using 3 by (simp add: trial_numer_def trial_denom_def)
  next
    case (2 a b)
    have "fraction ?d * 10 ^ 6 = of_int (10000 * a + 100 * b)" "fraction ?d * 10 ^ 4 = of_int (100 * a + b)"
      by (simp_all add: 2 fraction_Cons field_simps)
    then have "\<lfloor>fraction ?d * 10 ^ 6\<rfloor> = 10000 * a + 100 * b" "\<lfloor>fraction ?d * 10 ^ 4\<rfloor> = 100 * a + b"
      by (simp_all only: floor_of_int)
    then show ?thesis using 2 by (simp add: trial_numer_def trial_denom_def)
  next
    case (1 a)
    have "fraction ?d * 10 ^ 6 = of_int (10000 * a)" "fraction ?d * 10 ^ 4 = of_int (100 * a)"
      by (simp_all add: 1 fraction_Cons field_simps)
    then have "\<lfloor>fraction ?d * 10 ^ 6\<rfloor> = 10000 * a" "\<lfloor>fraction ?d * 10 ^ 4\<rfloor> = 100 * a"
      by (simp_all only: floor_of_int)
    then show ?thesis using 1 by (simp add: trial_numer_def trial_denom_def)
  qed
  then show "trial_numer x = \<lfloor>fraction ?d * 10 ^ 6\<rfloor>" "trial_denom x = \<lfloor>fraction ?d * 10 ^ 4\<rfloor>" by blast+
qed

text \<open>The trial quotient is right or one too large, since the denominator starts with 50 or more.\<close>

lemma trial_quotient:
  fixes f g :: rat and e :: int
  assumes e: "e \<le> 2" and f: "0 \<le> f" and g: "1 / 2 \<le> g"
    and lt: "f * 10 powi e < 100 * g"
  defines "T \<equiv> \<lfloor>f * 10 ^ 6\<rfloor>" and "d \<equiv> \<lfloor>g * 10 ^ 4\<rfloor>" and "x \<equiv> f * 10 powi e / g"
  shows "0 < d" "\<lfloor>x\<rfloor> \<le> T div d div 10 ^ nat (2 - e)" "T div d div 10 ^ nat (2 - e) \<le> \<lfloor>x\<rfloor> + 1"
proof -
  define K :: int where "K = 10 ^ nat (2 - e)"
  define J where "J = T div d div 10 ^ nat (2 - e)"
  define q where "q = \<lfloor>x\<rfloor>"
  have K: "0 < K" by (simp add: K_def)
  have g0: "0 < g" using g by simp
  have "5000 \<le> d" using g by (simp add: d_def le_floor_iff)
  then show d: "0 < d" by simp
  have J: "J = T div (d * K)" using d by (simp add: J_def K_def zdiv_zmult2_eq)
  have dK: "0 < d * K" using d K by simp
  have p: "f * 10 powi e * of_int K = 100 * f"
  proof -
    have "(10::rat) powi e * of_int K = 10 powi e * 10 powi (2 - e)" using e by (simp add: K_def powi_split)
    also have "\<dots> = 10 powi 2" by (simp flip: power_int_add)
    finally show ?thesis by simp
  qed
  have xg: "x * (g * of_int K) = 100 * f" using p g0 by (simp add: x_def)
  have dg: "of_int d \<le> g * 10 ^ 4" "g * 10 ^ 4 - 1 < of_int d" unfolding d_def by linarith+
  have Tf: "of_int T \<le> f * 10 ^ 6" unfolding T_def by linarith
  have x0: "0 \<le> x" using f g0 by (simp add: x_def)
  have q0: "0 \<le> q" using x0 by (simp add: q_def)
  have gK: "0 < g * of_int K" using g0 K by simp
  have "of_int (q * (d * K)) \<le> (of_int q * (g * of_int K)) * 10 ^ 4"
  proof -
    have "of_int q * of_int K * of_int d \<le> of_int q * of_int K * (g * 10 ^ 4)"
      using q0 K dg(1) by (intro mult_left_mono) simp_all
    then show ?thesis by (simp add: mult.commute mult.left_commute)
  qed
  also have "\<dots> \<le> (x * (g * of_int K)) * 10 ^ 4"
    using gK by (intro mult_right_mono) (simp_all add: q_def)
  also have "\<dots> = f * 10 ^ 6" by (simp add: xg)
  finally have "q * (d * K) \<le> T" unfolding T_def le_floor_iff .
  then have "q * (d * K) div (d * K) \<le> J" unfolding J by (rule zdiv_mono1[OF _ dK])
  then show "\<lfloor>x\<rfloor> \<le> T div d div 10 ^ nat (2 - e)" using dK d K by (simp add: q_def J_def)
  have "J \<le> q + 1"
  proof (rule ccontr)
    assume "\<not> J \<le> q + 1"
    then have Jq: "q + 1 \<le> J - 1" by simp
    then have J1: "0 < J" using q0 by simp
    have "J * (d * K) \<le> T" unfolding J using dK by (simp add: pos_mod_sign minus_mod_eq_div_mult[symmetric])
    then have "of_int (J * (d * K)) \<le> (of_int T :: rat)" by (simp only: of_int_le_iff)
    also have "\<dots> \<le> 10 ^ 4 * (x * (g * of_int K))" using Tf by (simp add: xg)
    finally have u: "of_int J * of_int d * of_int K \<le> 10 ^ 4 * (x * g) * of_int K" by (simp add: mult.assoc)
    have u: "of_int J * of_int d \<le> 10 ^ 4 * (x * g)"
      by (rule mult_right_le_imp_le[OF u]) (use K in simp)
    have "of_int J * (g * 10 ^ 4 - 1) \<le> of_int J * of_int d" using J1 dg(2) by (intro mult_left_mono) simp_all
    with u have v: "of_int J * (g * 10 ^ 4 - 1) \<le> 10 ^ 4 * (x * g)" by linarith
    have "x < of_int (q + 1)" unfolding q_def by linarith
    also have "\<dots> \<le> of_int (J - 1)" using Jq by (simp only: of_int_le_iff)
    finally have "x \<le> of_int J - 1" by simp
    then have "10 ^ 4 * (x * g) \<le> 10 ^ 4 * ((of_int J - 1) * g)" using g0 by (intro mult_left_mono mult_right_mono) simp_all
    with v have w: "g * 10 ^ 4 \<le> of_int J" by (simp add: algebra_simps)
    have "x < 100" using lt g0 by (simp add: x_def divide_less_eq)
    then have "10 ^ 4 * (x * g) \<le> 10 ^ 4 * (100 * g)" using g0 by (intro mult_left_mono mult_right_mono) simp_all
    with v have "of_int J * (g * 10 ^ 4 - 1) \<le> 10 ^ 4 * (100 * g)" by (rule order_trans)
    moreover have "101 * (g * 10 ^ 4 - 1) \<le> of_int J * (g * 10 ^ 4 - 1)"
      using w g by (intro mult_right_mono) simp_all
    ultimately have "101 * (g * 10 ^ 4 - 1) \<le> 10 ^ 4 * (100 * g)" by linarith
    then show False using g by simp
  qed
  then show "T div d div 10 ^ nat (2 - e) \<le> \<lfloor>x\<rfloor> + 1" by (simp add: J_def q_def)
qed

lemma multiply_small:
  assumes j: "\<bar>j\<bar> < 1000" and b: "canonical b"
  shows "gives (m_apm_multiply fast (m_apm_set_long j) b) (of_int j * mval b)"
proof -
  have "length (dec (nat \<bar>j\<bar>)) \<le> 3"
  proof (cases "j = 0")
    case False
    have "nat \<bar>j\<bar> < 10 ^ 3" using j by simp
    then have "(10::nat) ^ (length (dec (nat \<bar>j\<bar>)) - 1) < 10 ^ 3"
      using dec_lower[of "nat \<bar>j\<bar>"] False by linarith
    then have "length (dec (nat \<bar>j\<bar>)) - 1 < 3" by (rule power_less_imp_less_exp[rotated]) simp
    then show ?thesis by linarith
  qed (simp add: dec_small)
  then have "nbytes (m_apm_datalength (m_apm_set_long j)) < 48"
    using length_dropWhile_le[of "\<lambda>c. c = CHR ''0''" "rev (dec (nat \<bar>j\<bar>))"]
    by (auto simp: m_apm_set_long_def M_set_to_zero_def nbytes_def Let_def)
  then show ?thesis using multiply_spec[of "m_apm_set_long j" b fast] b by simp
qed

lemma m_val_pos: "m_apm_sign x = 1 \<Longrightarrow> mval x = fraction (m_apm_data x) * 10 powi m_apm_exponent x"
  by (simp add: mval_fraction)

lemma small_exponent: "canonical x \<Longrightarrow> m_apm_sign x = 1 \<Longrightarrow> mval x < 100 \<Longrightarrow> m_apm_exponent x \<le> 2"
proof (rule ccontr)
  assume x: "canonical x" "m_apm_sign x = 1" and lt: "mval x < 100" and "\<not> m_apm_exponent x \<le> 2"
  then have "(10::rat) powi 3 \<le> 10 powi m_apm_exponent x" by (intro powi_10_mono) simp
  moreover have "1 / 10 * 10 powi m_apm_exponent x \<le> mval x"
    using magnitude(1)[OF x(1)] x(2) m_val_pos[OF x(2)] by (simp only:) (intro mult_right_mono; simp)
  ultimately show False using lt by simp
qed

lemma sdiv_digit_spec:
  assumes b: "canonical b" "m_apm_sign b = 1" "m_apm_exponent b = 0" "50 \<le> hd (m_apm_data b)"
    and w: "canonical w" "m_apm_sign w = 1" and lt: "mval w < 100 * mval b"
  defines "q \<equiv> \<lfloor>mval w / mval b\<rfloor>"
  obtains t where "sdiv_digit fast (trial_denom b) b w = Some (q, t)" "canonical t" "mval t = of_int q * mval b"
    "0 \<le> q" "q \<le> 99"
proof -
  define g where "g = fraction (m_apm_data b)"
  define f where "f = fraction (m_apm_data w)"
  define e where "e = m_apm_exponent w"
  note ob = m_okD[OF canonical_ok[OF b(1)]] and ow = m_okD[OF canonical_ok[OF w(1)]]
  have v: "mval b = g" "mval w = f * 10 powi e" using m_val_pos[OF b(2)] m_val_pos[OF w(2)] b(3)
    by (simp_all add: g_def f_def e_def)
  have g: "1 / 2 \<le> g" "g < 1"
  proof -
    have "0 \<le> fraction (tl (m_apm_data b))"
      using ob(1,2) fraction_bounds[of "tl (m_apm_data b)"] by (cases "m_apm_data b") simp_all
    moreover have "(50::rat) \<le> of_int (hd (m_apm_data b))" using b(4) by linarith
    ultimately show "1 / 2 \<le> g" using ob(1) by (cases "m_apm_data b") (simp_all add: g_def fraction_Cons)
    show "g < 1" using fraction_bounds[OF ob(2)] by (simp add: g_def)
  qed
  have f: "0 \<le> f" using fraction_bounds[OF ow(2)] by (simp add: f_def)
  have e: "e \<le> 2" using small_exponent[OF w] lt g v by (simp add: e_def)
  have lt': "f * 10 powi e < 100 * g" using lt v by simp
  note T = trial_quotient[OF e f g(1) lt']
  have q: "q = \<lfloor>f * 10 powi e / g\<rfloor>" by (simp add: q_def v)
  have q0: "0 \<le> q" "q \<le> 99"
  proof -
    show "0 \<le> q" using f g by (simp add: q)
    have "f * 10 powi e / g < 100" using lt' g by (simp add: divide_less_eq)
    then have "q < 100" by (simp add: q floor_less_iff)
    then show "q \<le> 99" by simp
  qed
  have tn: "trial_numer w = \<lfloor>f * 10 ^ 6\<rfloor>" "trial_denom b = \<lfloor>g * 10 ^ 4\<rfloor>"
    using leading_digits[OF canonical_ok[OF w(1)]] leading_digits[OF canonical_ok[OF b(1)]]
    by (simp_all add: f_def g_def)
  have t0: "0 \<le> trial_numer w" using f by (simp add: tn)
  define j where "j = q_hat (trial_denom b) w"
  have "(if 2 - e > 0 then div_tens (nat (2 - e)) (cdiv (trial_numer w) (trial_denom b))
      else cdiv (trial_numer w) (trial_denom b)) = \<lfloor>f * 10 ^ 6\<rfloor> div \<lfloor>g * 10 ^ 4\<rfloor> div 10 ^ nat (2 - e)"
    using t0 T(1) by (simp add: div_tens_div tn pos_imp_zdiv_nonneg_iff)
  then have "j = (if \<lfloor>f * 10 ^ 6\<rfloor> div \<lfloor>g * 10 ^ 4\<rfloor> div 10 ^ nat (2 - e) = 100 then 99
      else \<lfloor>f * 10 ^ 6\<rfloor> div \<lfloor>g * 10 ^ 4\<rfloor> div 10 ^ nat (2 - e))"
    unfolding j_def q_hat_def Let_def e_def[symmetric] by (simp only:)
  then have j: "j = q \<or> j = q + 1"
    using T(2,3)[folded q] q0(2) by (simp split: if_splits) linarith+
  have "gives (m_apm_multiply fast (m_apm_set_long j) b) (of_int j * mval b)"
    by (rule multiply_small[OF _ b(1)]) (use j q0 in auto)
  then obtain t where t: "m_apm_multiply fast (m_apm_set_long j) b = Some t" "canonical t" "mval t = of_int j * mval b"
    unfolding gives_def by blast
  have step: "sdiv_digit fast (trial_denom b) b w =
      (if m_apm_compare t w = 1 then map_option (\<lambda>tmp8. (j - 1, m_apm_copy tmp8)) (m_apm_subtract t b) else Some (j, t))"
    by (simp add: sdiv_digit_def Let_def t(1) flip: j_def)
  have cmp: "m_apm_compare t w = 1 \<longleftrightarrow> mval w < mval t" using compare_value[OF t(2) w(1)] by simp
  have qx: "of_int q * mval b \<le> mval w" "mval w < (of_int q + 1) * mval b"
  proof -
    have "of_int q \<le> mval w / mval b" "mval w / mval b < of_int q + 1" unfolding q_def by linarith+
    then show "of_int q * mval b \<le> mval w" "mval w < (of_int q + 1) * mval b"
      using g v(1) by (simp_all add: pos_le_divide_eq pos_divide_less_eq)
  qed
  from j show ?thesis
  proof
    assume "j = q"
    then show ?thesis using that[of t] step cmp t q0 qx by simp
  next
    assume jq: "j = q + 1"
    then have "mval w < mval t" using t(3) qx(2) by simp
    moreover obtain u where u: "m_apm_subtract t b = Some u" "canonical u" "mval u = mval t - mval b"
      using add_sub_value(2)[OF t(2) b(1)] unfolding gives_def by blast
    moreover have "m_apm_copy u = u" using u(2) canonical_ok by simp
    ultimately show ?thesis using that[of u] step cmp t q0 jq by (simp add: algebra_simps)
  qed
qed

section \<open>The loop\<close>

text \<open>
  The digits are the quotient cut, as many of them as \<open>iterations\<close> asks for, or fewer when the
  division comes out even.
\<close>

definition digits_of :: "int list \<Rightarrow> int \<Rightarrow> int \<Rightarrow> rat \<Rightarrow> rat \<Rightarrow> bool" where
  "digits_of ds n iterations w b \<longleftrightarrow> is_bytes ds \<and> ds \<noteq> [] \<and> bytes_int ds = \<lfloor>w * 100 ^ (length ds - 1) / b\<rfloor>
     \<and> (n = iterations \<and> iterations \<le> 2 * int (length ds) \<and> 2 * int (length ds) < iterations + 2
        \<or> n = 2 * int (length ds) \<and> n < iterations \<and> of_int (bytes_int ds) * b = w * 100 ^ (length ds - 1))"

lemma next_dividend:
  assumes y: "canonical y" "m_apm_sign y = 1"
  defines "z \<equiv> m_apm_copy (y\<lparr>m_apm_exponent := m_apm_exponent y + 2\<rparr>)"
  shows "canonical z" "m_apm_sign z = 1" "mval z = 100 * mval y"
proof -
  have "m_ok (y\<lparr>m_apm_exponent := m_apm_exponent y + 2\<rparr>)" using canonical_ok[OF y(1)] by (simp add: m_ok_def)
  then have z: "z = y\<lparr>m_apm_exponent := m_apm_exponent y + 2\<rparr>" by (simp add: z_def)
  show "canonical z" "m_apm_sign z = 1" using y by (simp_all add: z canonical_def m_ok_def)
  show "mval z = 100 * mval y" by (simp add: mval_fraction z power_int_add)
qed

lemma more_digits:
  assumes d: "digits_of ds n (iterations - 2) (100 * (w - of_int q * b)) b" and q: "0 \<le> q" "q \<le> 99" and b: "0 < b"
  shows "digits_of (q # ds) (n + 2) iterations w b"
proof -
  obtain k where k: "length ds = Suc k" using d by (cases ds) (auto simp: digits_of_def)
  have e: "w * 100 ^ Suc k / b = of_int (q * 100 ^ Suc k) + 100 * (w - of_int q * b) * 100 ^ k / b"
    using b by (simp add: field_simps)
  have "\<lfloor>w * 100 ^ Suc k / b\<rfloor> = q * 100 ^ Suc k + \<lfloor>100 * (w - of_int q * b) * 100 ^ k / b\<rfloor>"
    unfolding e by (rule int_add_floor[symmetric])
  then have f: "bytes_int (q # ds) = \<lfloor>w * 100 ^ Suc k / b\<rfloor>"
    using d k by (simp add: digits_of_def bytes_int_Cons)
  moreover have "of_int (bytes_int (q # ds)) * b = w * 100 ^ Suc k"
    if "of_int (bytes_int ds) * b = 100 * (w - of_int q * b) * 100 ^ k"
  proof -
    have "of_int (bytes_int (q # ds)) * b = of_int q * 100 ^ Suc k * b + of_int (bytes_int ds) * b"
      by (simp add: bytes_int_Cons k distrib_right)
    then show ?thesis unfolding that by (simp add: algebra_simps)
  qed
  moreover have "is_bytes (q # ds)" "2 * int (length (q # ds)) = 2 * int (length ds) + 2" "length (q # ds) - 1 = Suc k"
    using d q k by (simp_all add: digits_of_def)
  moreover have "length ds - 1 = k" using k by simp
  ultimately show ?thesis using d unfolding digits_of_def by (elim conjE disjE) simp_all
qed

lemma sdiv_loop_spec:
  assumes b: "canonical b" "m_apm_sign b = 1" "m_apm_exponent b = 0" "50 \<le> hd (m_apm_data b)"
  shows "canonical w \<Longrightarrow> m_apm_sign w = 1 \<Longrightarrow> mval w < 100 * mval b \<Longrightarrow> m < iterations \<Longrightarrow>
    \<exists>ds n. sdiv_loop fast (trial_denom b) b iterations m w = Some (ds, n + m)
      \<and> digits_of ds n (iterations - m) (mval w) (mval b)"
proof (induction "nat (iterations - m)" arbitrary: m w rule: less_induct)
  case less
  define q where "q = \<lfloor>mval w / mval b\<rfloor>"
  obtain t where t: "sdiv_digit fast (trial_denom b) b w = Some (q, t)" "canonical t" "mval t = of_int q * mval b"
    "0 \<le> q" "q \<le> 99"
    using sdiv_digit_spec[OF b less.prems(1-3)] unfolding q_def by blast
  have u: "uchar q = q" using t(4,5) by (simp add: uchar_def)
  have b0: "0 < mval b" by (rule sign_mval(1)[OF b(1,2)])
  have q: "of_int q * mval b \<le> mval w" "mval w < (of_int q + 1) * mval b"
  proof -
    have "of_int q \<le> mval w / mval b" "mval w / mval b < of_int q + 1" unfolding q_def by linarith+
    then show "of_int q * mval b \<le> mval w" "mval w < (of_int q + 1) * mval b"
      using b0 by (simp_all add: pos_le_divide_eq pos_divide_less_eq)
  qed
  have one: "digits_of [q] n k (mval w) (mval b)"
    if "n = k \<and> k \<le> 2 \<and> 0 < k \<or> n = 2 \<and> 2 < k \<and> of_int q * mval b = mval w" for n k
    using that t(4,5) by (auto simp: digits_of_def bytes_int_Cons q_def)
  note step = sdiv_loop.simps[of fast "trial_denom b" b iterations m w, unfolded t(1) option.case prod.case u]
  show ?case
  proof (cases "m + 2 \<ge> iterations")
    case True
    then have "digits_of [q] (iterations - m) (iterations - m) (mval w) (mval b)"
      using less.prems(4) by (intro one) simp
    then show ?thesis using True unfolding step by force
  next
    case False
    obtain y where y: "m_apm_subtract w t = Some y" "canonical y" "mval y = mval w - mval t"
      using add_sub_value(2)[OF less.prems(1) t(2)] unfolding gives_def by blast
    show ?thesis
    proof (cases "m_apm_sign y = 0")
      case True
      then have "of_int q * mval b = mval w" using sign_mval(3) y(3) t(3) by simp
      then have "digits_of [q] 2 (iterations - m) (mval w) (mval b)" using False by (intro one) simp
      then show ?thesis using True False y(1) unfolding step by (force simp: add.commute)
    next
      case nz: False
      have "0 \<le> mval y" using q(1) y(3) t(3) by simp
      then have sy: "m_apm_sign y = 1" using nz sign_cases[OF y(2)] sign_mval(2)[OF y(2)] by fastforce
      define z where "z = m_apm_copy (y\<lparr>m_apm_exponent := m_apm_exponent y + 2\<rparr>)"
      note nd = next_dividend[OF y(2) sy, folded z_def]
      have vz: "mval z = 100 * (mval w - of_int q * mval b)" by (simp add: nd(3) y(3) t(3))
      have "mval z < 100 * mval b" using q(2) vz by (simp add: algebra_simps)
      then obtain ds n where d: "sdiv_loop fast (trial_denom b) b iterations (m + 2) z = Some (ds, n + (m + 2))"
        "digits_of ds n (iterations - (m + 2)) (mval z) (mval b)"
        using less.hyps[OF _ nd(1,2), of "m + 2"] False by auto
      have "digits_of (q # ds) (n + 2) (iterations - m) (mval w) (mval b)"
        using d(2) unfolding vz by (intro more_digits[OF _ t(4,5) b0]) (simp add: algebra_simps)
      moreover have "sdiv_loop fast (trial_denom b) b iterations m w = Some (q # ds, n + 2 + m)"
        unfolding step using False nz y(1) d(1) by (simp flip: z_def)
      ultimately show ?thesis by blast
    qed
  qed
qed

section \<open>What normalising does with the bytes behind the last digit\<close>

definition clean :: "M_APM \<Rightarrow> M_APM" where
  "clean x = (let n = nbytes (m_apm_datalength x); d = take n (m_apm_data x) in
     x\<lparr>m_apm_data := (if odd (m_apm_datalength x) then d[n - 1 := 10 * (d ! (n - 1) div 10)] else d)\<rparr>)"

lemma clean_simps [simp]:
  "m_apm_datalength (clean x) = m_apm_datalength x" "m_apm_sign (clean x) = m_apm_sign x"
  "m_apm_exponent (clean x) = m_apm_exponent x"
  by (simp_all add: clean_def Let_def)

lemma nbytes_pos: "1 \<le> len \<Longrightarrow> 1 \<le> nbytes len"
  by (simp add: nbytes_def)

lemma clean_spec:
  assumes l: "1 \<le> m_apm_datalength x" "nbytes (m_apm_datalength x) \<le> length (m_apm_data x)"
    and b: "is_bytes (m_apm_data x)" and s: "m_apm_sign x = 1 \<or> m_apm_sign x = - 1"
  defines "d \<equiv> take (nbytes (m_apm_datalength x)) (m_apm_data x)"
  shows "m_ok (clean x)" "length (m_apm_data (clean x)) = nbytes (m_apm_datalength x)"
    "bytes_int (m_apm_data (clean x)) =
      (if odd (m_apm_datalength x) then 10 * (bytes_int d div 10) else bytes_int d)"
proof -
  let ?len = "m_apm_datalength x" and ?c = "m_apm_data (clean x)"
  define n where "n = nbytes ?len"
  have n: "1 \<le> n" using nbytes_pos[OF l(1)] by (simp add: n_def)
  have d: "length d = n" "d \<noteq> []" "is_bytes d" using l(2) b n by (auto simp: d_def n_def)
  have c: "?c = (if odd ?len then d[n - 1 := 10 * (d ! (n - 1) div 10)] else d)"
    by (simp add: clean_def Let_def d_def n_def)
  have ld: "d ! (n - 1) = last d" using d by (simp add: last_conv_nth)
  have lb: "0 \<le> last d" "last d < 100" using d by (auto simp: is_bytes_def)
  have bl: "d[n - 1 := v] = butlast d @ [v]" for v
    using d n by (metis append_butlast_last_id list_update_length length_butlast)
  show len: "length ?c = nbytes ?len" using d by (simp add: c flip: n_def)
  have "is_bytes (butlast d)" using d(3) by (auto simp: is_bytes_def dest: in_set_butlastD)
  then have "is_bytes ?c" "odd ?len \<Longrightarrow> last ?c mod 10 = 0"
    using lb d(3) unfolding c bl ld by auto
  then show "m_ok (clean x)" using len l(1) s by (auto simp: m_ok_def)
  have "10 * (bytes_int d div 10) = bytes_int d - last d mod 10"
    using bytes_mod_10(1)[OF d(2)] minus_mod_eq_mult_div[of "bytes_int d" 10] by simp
  moreover have "bytes_int (butlast d @ [10 * (last d div 10)]) = bytes_int d - last d mod 10"
    using bytes_int_tail[OF d(2)] minus_mod_eq_mult_div[of "last d" 10] by (simp add: bytes_int_snoc)
  ultimately show "bytes_int ?c = (if odd ?len then 10 * (bytes_int d div 10) else bytes_int d)"
    unfolding c bl ld by simp
qed

lemma normalize_clean:
  assumes l: "1 \<le> m_apm_datalength x" "nbytes (m_apm_datalength x) \<le> length (m_apm_data x)"
    and s: "m_apm_sign x \<noteq> 0"
  shows "M_apm_normalize x = M_apm_normalize (clean x)"
proof -
  let ?len = "m_apm_datalength x"
  have n: "nbytes ?len - 1 < nbytes ?len" using nbytes_pos[OF l(1)] by linarith
  have "m_apm_data (M_apm_pad x (?len + 3)) = m_apm_data (M_apm_pad (clean x) (?len + 3))"
    using l(2) n by (simp add: M_apm_pad_def clean_def Let_def take_update_swap del: nbytes_simps)
  then show ?thesis using s unfolding M_apm_normalize_def clean_simps by simp
qed

section \<open>The quotient\<close>

text \<open>A positive number cut after \<open>s\<close> digits behind the radix point.\<close>

definition cut_at :: "int \<Rightarrow> rat \<Rightarrow> rat" where
  "cut_at s v = of_int \<lfloor>v * 10 powi s\<rfloor> * 10 powi (- s)"

lemma cut_exact: "v * 10 powi s = of_int i \<Longrightarrow> cut_at s v = v"
proof -
  assume v: "v * 10 powi s = of_int i"
  have "cut_at s v = v * 10 powi s * 10 powi (- s)" by (simp add: cut_at_def v)
  also have "\<dots> = v" by (simp add: mult.assoc flip: power_int_add)
  finally show ?thesis .
qed

lemma cut_even_result: "v * 10 powi s = of_int i \<Longrightarrow> s \<le> s' \<Longrightarrow> cut_at s' v = v"
proof -
  assume v: "v * 10 powi s = of_int i" and s: "s \<le> s'"
  have "v * 10 powi s' = v * 10 powi s * 10 powi (s' - s)" by (simp add: mult.assoc flip: power_int_add)
  also have "10 powi (s' - s) = (of_int (10 ^ nat (s' - s)) :: rat)" using s by (simp add: power_int_def)
  also have "v * 10 powi s * of_int (10 ^ nat (s' - s)) = of_int (i * 10 ^ nat (s' - s))" unfolding v by simp
  finally show ?thesis by (rule cut_exact)
qed

lemma cut_one_less: "of_int (10 * (\<lfloor>v * 10 powi (s + 1)\<rfloor> div 10)) * (10::rat) powi (- (s + 1)) = cut_at s v"
proof -
  have "\<lfloor>v * 10 powi (s + 1)\<rfloor> div 10 = \<lfloor>of_int \<lfloor>v * 10 powi (s + 1)\<rfloor> / (of_int 10 :: rat)\<rfloor>"
    by (rule floor_divide_of_int_eq[symmetric])
  also have "\<dots> = \<lfloor>v * 10 powi (s + 1) / of_int 10\<rfloor>" by (rule floor_floor_div) simp
  also have "v * 10 powi (s + 1) / of_int 10 = v * 10 powi s" unfolding powi_10_Suc by simp
  finally have d: "\<lfloor>v * 10 powi (s + 1)\<rfloor> div 10 = \<lfloor>v * 10 powi s\<rfloor>" .
  have "(10::rat) powi (- s) = 10 * 10 powi (- (s + 1))" using powi_10_Suc[of "- (s + 1)"] by simp
  then show ?thesis unfolding d by (simp add: cut_at_def)
qed

lemma cut_nonzero: "10 powi (- s) \<le> v \<Longrightarrow> 1 \<le> v * 10 powi s \<and> cut_at s v \<noteq> 0"
proof -
  assume v: "10 powi (- s) \<le> v"
  have "10 powi (- s) * 10 powi s \<le> v * 10 powi s" by (rule mult_right_mono[OF v]) simp
  then have "1 \<le> v * 10 powi s" by (simp flip: power_int_add)
  moreover from this have "\<lfloor>v * 10 powi s\<rfloor> \<noteq> 0" by linarith
  ultimately show ?thesis by (simp add: cut_at_def)
qed

text \<open>The number the digits stand for.\<close>

lemma digits_value:
  assumes d: "digits_of ds n it (r * g * 10 powi (2 - x)) g" and g: "0 < g" and sg: "sg = 1 \<or> sg = - 1"
    and it: "1 \<le> it" and r: "10 powi (x - it) \<le> r"
  shows "gives (M_apm_normalize \<lparr>m_apm_data = ds, m_apm_datalength = nat n, m_apm_exponent = x, m_apm_sign = sg\<rparr>)
      (of_int sg * cut_at (it - x) r)"
proof -
  define L where "L = length ds"
  define Q where "Q = bytes_int ds"
  define y where "y = \<lparr>m_apm_data = ds, m_apm_datalength = nat n, m_apm_exponent = x, m_apm_sign = sg\<rparr>"
  have L: "1 \<le> L" using d by (cases ds) (auto simp: digits_of_def L_def)
  have w: "r * g * 10 powi (2 - x) * 100 ^ (L - 1) / g = r * 10 powi (2 * int L - x)"
  proof -
    have "(100::rat) ^ (L - 1) = 10 powi (2 * int L - 2)"
      using L power_int_of_nat[of "10::rat" "2 * (L - 1)"] by (simp add: power_mult of_nat_diff)
    then have "(10::rat) powi (2 - x) * 100 ^ (L - 1) = 10 powi (2 * int L - x)"
      by (simp flip: power_int_add)
    then show ?thesis using g by (simp add: mult.assoc)
  qed
  have Q: "Q = \<lfloor>r * 10 powi (2 * int L - x)\<rfloor>" using d w by (simp add: digits_of_def Q_def L_def)
  have n: "n = it \<and> it = 2 * int L \<or> n = it \<and> it = 2 * int L - 1
      \<or> n = 2 * int L \<and> n < it \<and> of_int Q = r * 10 powi (2 * int L - x)"
  proof -
    have "of_int Q * g / g = r * g * 10 powi (2 - x) * 100 ^ (L - 1) / g"
      if "of_int Q * g = r * g * 10 powi (2 - x) * 100 ^ (L - 1)" using that by (rule arg_cong)
    then have "of_int Q = r * 10 powi (2 * int L - x)"
      if "of_int Q * g = r * g * 10 powi (2 - x) * 100 ^ (L - 1)" using that g w by simp
    then show ?thesis using d unfolding digits_of_def Q_def[symmetric] L_def[symmetric] by linarith
  qed
  have b: "is_bytes ds" using d by (simp add: digits_of_def)
  have nb: "1 \<le> nat n" "nbytes (nat n) = L" using n L it by (auto simp: nbytes_def nat_eq_iff)
  have y1: "1 \<le> m_apm_datalength y" "nbytes (m_apm_datalength y) \<le> length (m_apm_data y)" "is_bytes (m_apm_data y)"
    "m_apm_sign y = 1 \<or> m_apm_sign y = - 1" using nb b sg by (simp_all add: y_def L_def)
  note C = clean_spec[OF y1]
  have odd: "odd (nat n) \<longleftrightarrow> n = 2 * int L - 1" using n nb(1) by (auto simp: even_nat_iff)
  have "bytes_int (m_apm_data (clean y)) = (if n = 2 * int L - 1 then 10 * (Q div 10) else Q)"
  proof -
    have "take (nbytes (m_apm_datalength y)) (m_apm_data y) = ds" "m_apm_datalength y = nat n"
      using nb by (simp_all add: y_def L_def)
    then show ?thesis using C(3) odd by (simp only: Q_def)
  qed
  then have v: "mval (clean y) = of_int sg * (of_int (if n = 2 * int L - 1 then 10 * (Q div 10) else Q) * 10 powi (- (2 * int L - x)))"
    using C(2) nb(2) by (simp add: mval_def mexp_def y_def)
  have "of_int (if n = 2 * int L - 1 then 10 * (Q div 10) else Q) * 10 powi (- (2 * int L - x)) = cut_at (it - x) r"
    using n
  proof (elim disjE conjE)
    assume "n = it" "it = 2 * int L"
    then show ?thesis by (simp add: cut_at_def Q)
  next
    assume e: "n = it" "it = 2 * int L - 1"
    then have s: "2 * int L - x = it - x + 1" by simp
    show ?thesis using e cut_one_less[of r "it - x"] unfolding Q s by simp
  next
    assume e: "n = 2 * int L" "n < it" "of_int Q = r * 10 powi (2 * int L - x)"
    have "cut_at (it - x) r = r" by (rule cut_even_result[OF e(3)[symmetric]]) (use e in simp)
    moreover have "of_int Q * 10 powi (- (2 * int L - x)) = r"
      unfolding e(3) by (simp add: mult.assoc flip: power_int_add)
    ultimately show ?thesis using e(1) by simp
  qed
  with v have v: "mval (clean y) = of_int sg * cut_at (it - x) r" by simp
  have "cut_at (it - x) r \<noteq> 0" using cut_nonzero[of "it - x" r] r by simp
  then have "of_int sg * cut_at (it - x) r \<noteq> 0" using sg by auto
  then have "gives (M_apm_normalize (clean y)) (of_int sg * cut_at (it - x) r)"
    by (rule gives_normalize[OF C(1) v])
  moreover have "m_apm_sign y \<noteq> 0" using y1(4) by auto
  ultimately have "gives (M_apm_normalize y) (of_int sg * cut_at (it - x) r)"
    using normalize_clean[OF y1(1,2)] by metis
  then show ?thesis by (simp only: y_def)
qed

lemma set_exponent:
  assumes "canonical x" "m_apm_sign x = 1"
  shows "canonical (x\<lparr>m_apm_exponent := e\<rparr>)" "mval (x\<lparr>m_apm_exponent := e\<rparr>) = fraction (m_apm_data x) * 10 powi e"
proof -
  show "canonical (x\<lparr>m_apm_exponent := e\<rparr>)" using assms by (simp add: canonical_def m_ok_def)
  show "mval (x\<lparr>m_apm_exponent := e\<rparr>) = fraction (m_apm_data x) * 10 powi e" using assms(2) by (simp add: mval_fraction)
qed

lemma sdiv_quotient_spec:
  assumes a: "canonical a" "m_apm_sign a = 1" and b: "canonical b" "m_apm_sign b = 1" "50 \<le> hd (m_apm_data b)"
    and sg: "sg = 1 \<or> sg = - 1" and places: "0 \<le> places"
  defines "nexp \<equiv> m_apm_exponent a - m_apm_exponent b"
  defines "x \<equiv> nexp + (if fraction (m_apm_data b) \<le> fraction (m_apm_data a) then 1 else 0)"
  shows "10 powi (x - 1) \<le> mval a / mval b \<and> mval a / mval b < 10 powi x"
    "gives (sdiv_quotient fast places sg a b)
      (of_int sg * cut_at ((if nexp > 0 then nexp + places + 1 else places + 1) - x) (mval a / mval b))"
proof -
  define f where "f = fraction (m_apm_data a)"
  define g where "g = fraction (m_apm_data b)"
  define r where "r = mval a / mval b"
  define it where "it = (if nexp > 0 then nexp + places + 1 else places + 1)"
  have fg: "1 / 10 \<le> f" "f < 1" "1 / 10 \<le> g" "g < 1" using magnitude[OF a(1)] magnitude[OF b(1)] a(2) b(2)
    by (simp_all add: f_def g_def)
  have ob: "is_bytes (m_apm_data b)" "m_apm_data b \<noteq> []" using m_okD(1,2)[OF canonical_ok[OF b(1)]] by blast+
  have g2: "1 / 2 \<le> g"
  proof -
    have "(50::rat) \<le> of_int (hd (m_apm_data b))" using b(3) by linarith
    moreover have "0 \<le> fraction (tl (m_apm_data b))"
      using ob fraction_bounds[of "tl (m_apm_data b)"] by (cases "m_apm_data b") simp_all
    ultimately show ?thesis using ob(2) by (cases "m_apm_data b") (simp_all add: g_def fraction_Cons)
  qed
  have g0: "0 < g" using fg by simp
  have r: "r = f / g * 10 powi nexp"
    using m_val_pos[OF a(2)] m_val_pos[OF b(2)] by (simp add: r_def f_def g_def nexp_def power_int_diff)
  have x: "x = nexp + (if g \<le> f then 1 else 0)" by (simp add: x_def f_def g_def)
  have bnd: "10 powi (x - 1) \<le> r \<and> r < 10 powi x"
  proof (cases "g \<le> f")
    case True
    then have "1 \<le> f / g" "f / g < 10" using fg g0 by (simp_all add: le_divide_eq divide_less_eq)
    then have "1 * 10 powi nexp \<le> r" "r < 10 * 10 powi nexp" unfolding r by (simp_all only: mult_right_mono mult_strict_right_mono powi_10_pos less_imp_le)
    then show ?thesis using True powi_10_Suc[of nexp] by (simp add: x)
  next
    case False
    then have "1 / 10 \<le> f / g" "f / g < 1" using fg g0 by (simp_all add: le_divide_eq divide_less_eq)
    then have "1 / 10 * 10 powi nexp \<le> r" "r < 1 * 10 powi nexp" unfolding r by (simp_all only: mult_right_mono mult_strict_right_mono powi_10_pos less_imp_le)
    then show ?thesis using False powi_10_Suc[of "nexp - 1"] by (simp add: x)
  qed
  then show "10 powi (x - 1) \<le> mval a / mval b \<and> mval a / mval b < 10 powi x" by (simp add: r_def)
  have it: "1 \<le> it" using places by (simp add: it_def)
  have low: "10 powi (x - it) \<le> r" using bnd powi_10_mono[of "x - it" "x - 1"] it by linarith
  define wa where "wa = a\<lparr>m_apm_exponent := 0\<rparr>"
  define wb where "wb = b\<lparr>m_apm_exponent := 0\<rparr>"
  have w: "canonical wa" "canonical wb" "mval wa = f" "mval wb = g"
    using set_exponent[OF a, of 0] set_exponent[OF b(1,2), of 0] by (simp_all add: wa_def wb_def f_def g_def)
  note cmp = compare_value[OF w(1,2), unfolded w(3,4)]
  define ic where "ic = m_apm_compare wa wb"
  have td: "trial_denom b = trial_denom wb" by (simp add: trial_denom_def wb_def)
  have step: "sdiv_quotient fast places sg a b =
      (if ic = 0 then M_apm_normalize \<lparr>m_apm_data = [10], m_apm_datalength = 1, m_apm_exponent = nexp + 1, m_apm_sign = sg\<rparr>
       else Option.bind (sdiv_loop fast (trial_denom wb) wb it 0 (wa\<lparr>m_apm_exponent := m_apm_exponent wa + (if ic = 1 then 1 else 2)\<rparr>))
          (\<lambda>(ds, n). M_apm_normalize \<lparr>m_apm_data = ds, m_apm_datalength = nat n,
             m_apm_exponent = (if ic = 1 then nexp + 1 else nexp), m_apm_sign = sg\<rparr>))"
    unfolding sdiv_quotient_def Let_def nexp_def[symmetric] it_def[symmetric] wa_def[symmetric] wb_def[symmetric] ic_def[symmetric] td ..
  have "gives (sdiv_quotient fast places sg a b) (of_int sg * cut_at (it - x) r)"
  proof (cases "f = g")
    case True
    define y where "y = \<lparr>m_apm_data = [10], m_apm_datalength = 1, m_apm_exponent = nexp + 1, m_apm_sign = sg\<rparr>"
    have y: "m_ok y" "mval y = of_int sg * 10 powi nexp"
      using sg by (auto simp: m_ok_def y_def mval_fraction fraction_Cons powi_10_Suc nbytes_def)
    have r': "r = 10 powi nexp" using True g0 by (simp add: r)
    have "r * 10 powi (- nexp) = of_int 1" by (simp add: r' flip: power_int_add)
    then have "cut_at (it - x) r = r" using it True by (intro cut_even_result[of r "- nexp" 1]) (simp_all add: x)
    then have "gives (M_apm_normalize y) (of_int sg * cut_at (it - x) r)"
      using y r' sg by (intro gives_normalize) auto
    moreover have "ic = 0" using cmp True by (simp add: ic_def)
    ultimately show ?thesis unfolding step y_def by simp
  next
    case False
    then have ic: "ic \<noteq> 0" "ic = 1 \<longleftrightarrow> g \<le> f" using cmp by (auto simp: ic_def split: if_splits)
    define w where "w = wa\<lparr>m_apm_exponent := m_apm_exponent wa + (if ic = 1 then 1 else 2)\<rparr>"
    have w1: "w = a\<lparr>m_apm_exponent := (if g \<le> f then 1 else 2)\<rparr>" by (simp add: w_def wa_def ic(2))
    have w2: "canonical w" "m_apm_sign w = 1" "mval w = f * 10 powi (if g \<le> f then 1 else 2)"
      using set_exponent[OF a] a by (simp_all add: w1 f_def)
    have wv: "mval w = r * g * 10 powi (2 - x)"
    proof -
      have "10 powi nexp * 10 powi (2 - x) = (10::rat) powi (if g \<le> f then 1 else 2)" by (simp add: x flip: power_int_add)
      moreover have "r * g * 10 powi (2 - x) = f * (10 powi nexp * 10 powi (2 - x))" using g0 by (simp add: r)
      ultimately show ?thesis by (simp only: w2(3))
    qed
    have "mval w < 100 * mval wb" using fg g2 w(4) w2(3) by (simp split: if_splits)
    then obtain ds n where l: "sdiv_loop fast (trial_denom wb) wb it 0 w = Some (ds, n + 0)"
      "digits_of ds n (it - 0) (mval w) (mval wb)"
      using sdiv_loop_spec[OF w(2) _ _ _ w2(1,2), of 0 it fast] b it by (auto simp: wb_def)
    have "gives (M_apm_normalize \<lparr>m_apm_data = ds, m_apm_datalength = nat n, m_apm_exponent = x, m_apm_sign = sg\<rparr>)
        (of_int sg * cut_at (it - x) r)"
      using l(2) w(4) wv by (intro digits_value[OF _ g0 sg it low]) simp
    moreover have "(if ic = 1 then nexp + 1 else nexp) = x" by (simp add: x ic(2))
    ultimately show ?thesis using l(1) ic(1) unfolding step w_def[symmetric] by simp
  qed
  then show "gives (sdiv_quotient fast places sg a b)
      (of_int sg * cut_at ((if nexp > 0 then nexp + places + 1 else places + 1) - x) (mval a / mval b))"
    by (simp only: it_def r_def)
qed

section \<open>Step D1\<close>

lemma unique_exponent:
  assumes "10 powi (e - 1) \<le> (v::rat)" "v < 10 powi e" "10 powi (e' - 1) \<le> v" "v < 10 powi e'"
  shows "e = e'"
proof (rule ccontr)
  assume "e \<noteq> e'"
  then consider "e \<le> e' - 1" | "e' \<le> e - 1" by linarith
  then show False using assms powi_10_mono[of e "e' - 1"] powi_10_mono[of e' "e - 1"] by cases linarith+
qed

lemma m_exponent_bounds:
  assumes "canonical x" "m_apm_sign x \<noteq> 0"
  shows "10 powi (m_apm_exponent x - 1) \<le> \<bar>mval x\<bar>" "\<bar>mval x\<bar> < 10 powi m_apm_exponent x"
    "\<bar>mval x\<bar> = fraction (m_apm_data x) * 10 powi m_apm_exponent x"
proof -
  let ?f = "fraction (m_apm_data x)" and ?e = "m_apm_exponent x"
  note m = magnitude[OF assms]
  have s: "\<bar>of_int (m_apm_sign x) :: rat\<bar> = 1" using canonicalD(5)[OF assms] by auto
  then show v: "\<bar>mval x\<bar> = ?f * 10 powi ?e" using m by (simp add: abs_mult)
  have "1 / 10 * 10 powi ?e \<le> ?f * 10 powi ?e" "?f * 10 powi ?e < 1 * 10 powi ?e"
    using m by (simp_all only: mult_right_mono mult_strict_right_mono powi_10_pos less_imp_le)
  then show "10 powi (?e - 1) \<le> \<bar>mval x\<bar>" "\<bar>mval x\<bar> < 10 powi ?e"
    using powi_10_Suc[of "?e - 1"] by (simp_all add: v)
qed

lemma hd_fraction:
  assumes "m_ok x"
  shows "hd (m_apm_data x) = \<lfloor>fraction (m_apm_data x) * 100\<rfloor>" "0 \<le> hd (m_apm_data x)" "hd (m_apm_data x) < 100"
    "m_apm_data x ! 0 = hd (m_apm_data x)"
proof -
  obtain h ds where d: "m_apm_data x = h # ds" using m_okD(1)[OF assms] by (cases "m_apm_data x") auto
  have b: "0 \<le> h" "h < 100" "is_bytes ds" using m_okD(2)[OF assms] by (simp_all add: d)
  have "fraction (m_apm_data x) * 100 = of_int h + fraction ds" by (simp add: d fraction_Cons)
  then have "\<lfloor>fraction (m_apm_data x) * 100\<rfloor> = h"
    using fraction_bounds[OF b(3)] by linarith
  then show "hd (m_apm_data x) = \<lfloor>fraction (m_apm_data x) * 100\<rfloor>" "0 \<le> hd (m_apm_data x)" "hd (m_apm_data x) < 100"
    "m_apm_data x ! 0 = hd (m_apm_data x)"
    using b by (simp_all add: d)
qed

definition d1_factor :: "M_APM \<Rightarrow> int" where
  "d1_factor b = (if hd (m_apm_data b) \<ge> 50 then 1 else 100 div (hd (m_apm_data b) + 1))"

lemma factor_range:
  "10 \<le> h \<Longrightarrow> h < 50 \<Longrightarrow> 50 \<le> (100 div (h + 1)) * h \<and> (100 div (h + 1)) * (h + 1) \<le> 100 \<and> 1 \<le> 100 div (h + 1)
    \<and> 100 div (h + 1) < (10::int)"
proof -
  assume h: "10 \<le> h" "h < 50"
  define k where "k = 100 div (h + 1)"
  have k: "k * (h + 1) \<le> 100" "100 < k * (h + 1) + (h + 1)"
    using h pos_mod_bound[of "h + 1" 100] pos_mod_sign[of "h + 1" 100] div_mult_mod_eq[of 100 "h + 1"] unfolding k_def by linarith+
  have "k < 10" using h by (simp add: k_def div_less_int)
  moreover have "2 \<le> k" using zdiv_mono2[of 100 "h + 1" 50] h by (simp add: k_def)
  moreover have "50 \<le> k * h"
  proof -
    consider "k = 2" | "k = 3" | "4 \<le> k" using \<open>2 \<le> k\<close> by linarith
    then show ?thesis
    proof cases
      case 3
      then have "k * (h + 1) = k * h + k" by (simp add: algebra_simps)
      moreover have "100 < k * h + k + h + 1" using k(2) by (simp add: algebra_simps)
      moreover have "4 * (h + 1) \<le> k * (h + 1)" using 3 h by (intro mult_right_mono) simp_all
      then have "h \<le> 24" using k(1) by simp
      ultimately show ?thesis using \<open>k < 10\<close> by linarith
    next
      case 1
      then show ?thesis using k by simp
    next
      case 2
      then show ?thesis using k by simp
    qed
  qed
  ultimately show ?thesis using k by (simp add: k_def)
qed

lemma sdiv_works_spec:
  assumes a: "canonical a" "m_apm_sign a \<noteq> 0" and b: "canonical b" "m_apm_sign b \<noteq> 0"
  obtains wa wb where "sdiv_works fast a b = Some (wa, wb)" "canonical wa" "canonical wb"
    "m_apm_sign wa = 1" "m_apm_sign wb = 1" "50 \<le> hd (m_apm_data wb)"
    "mval wa = of_int (d1_factor b) * \<bar>mval a\<bar>" "mval wb = of_int (d1_factor b) * \<bar>mval b\<bar>"
proof (cases "50 \<le> hd (m_apm_data b)")
  case True
  have "hd (m_apm_data (m_apm_absolute_value b)) = hd (m_apm_data b)"
    using canonical_ok[OF b(1)] by (simp add: m_apm_absolute_value_def Let_def)
  then show ?thesis
    using that[of "m_apm_absolute_value a" "m_apm_absolute_value b"] True hd_fraction(4)[OF canonical_ok[OF b(1)]]
      absolute_spec[OF a(1)] absolute_spec[OF b(1)] absolute_sign[OF a(1)] absolute_sign[OF b(1)] a(2) b(2)
    by (simp add: sdiv_works_def d1_factor_def)
next
  case False
  define h where "h = hd (m_apm_data b)"
  define k where "k = 100 div (h + 1)"
  note hf = hd_fraction[OF canonical_ok[OF b(1)], folded h_def]
  have h: "10 \<le> h" "h < 50" using canonicalD(2)[OF b] False by (simp_all add: h_def)
  note k = factor_range[OF h, folded k_def]
  have kf: "d1_factor b = k" "k < 1000" "0 \<le> k" using False k by (simp_all add: d1_factor_def k_def h_def)
  obtain u where u: "m_apm_multiply fast (m_apm_set_long k) a = Some u" "canonical u" "mval u = of_int k * mval a"
    using multiply_small[OF _ a(1), of k] kf unfolding gives_def by auto
  obtain v where v: "m_apm_multiply fast (m_apm_set_long k) b = Some v" "canonical v" "mval v = of_int k * mval b"
    using multiply_small[OF _ b(1), of k] kf unfolding gives_def by auto
  have nz: "m_apm_sign y \<noteq> 0" if "mval y = of_int k * mval x" "canonical x" "m_apm_sign x \<noteq> 0" for x y
    using that sign_mval(1,2)[OF that(2)] sign_mval(3)[of y] canonicalD(5)[OF that(2,3)] k by fastforce
  define wa where "wa = u\<lparr>m_apm_sign := 1\<rparr>"
  define wb where "wb = v\<lparr>m_apm_sign := 1\<rparr>"
  have w: "canonical wa" "canonical wb" "mval wa = of_int k * \<bar>mval a\<bar>" "mval wb = of_int k * \<bar>mval b\<bar>"
    using with_sign[OF u(2) nz[OF u(3) a], of 1] with_sign[OF v(2) nz[OF v(3) b], of 1] k
    by (simp_all add: wa_def wb_def u(3) v(3) abs_mult)
  have sg: "m_apm_sign wa = 1" "m_apm_sign wb = 1" by (simp_all add: wa_def wb_def)
  define g where "g = fraction (m_apm_data b)"
  have hg: "of_int h \<le> g * 100" "g * 100 < of_int h + 1" unfolding g_def hf(1) by linarith+
  have kg: "1 / 2 \<le> of_int k * g" "of_int k * g < 1"
  proof -
    have "(50::rat) \<le> of_int (k * h)" "(of_int (k * (h + 1)) :: rat) \<le> 100" using k by linarith+
    moreover have "of_int k * of_int h \<le> of_int k * (g * 100)" "of_int k * (g * 100) < of_int k * (of_int h + 1)"
      using hg k by (auto intro: mult_left_mono mult_strict_left_mono)
    ultimately show "1 / 2 \<le> of_int k * g" "of_int k * g < 1" by simp_all
  qed
  have vb: "mval wb = of_int k * g * 10 powi m_apm_exponent b"
    using w(4) m_exponent_bounds(3)[OF b] by (simp add: g_def)
  have "m_apm_exponent wb = m_apm_exponent b"
  proof (rule unique_exponent)
    show "10 powi (m_apm_exponent wb - 1) \<le> \<bar>mval wb\<bar>" "\<bar>mval wb\<bar> < 10 powi m_apm_exponent wb"
      using m_exponent_bounds(1,2)[OF w(2)] sg by simp_all
    have "1 / 10 * 10 powi m_apm_exponent b \<le> of_int k * g * 10 powi m_apm_exponent b"
      "of_int k * g * 10 powi m_apm_exponent b < 1 * 10 powi m_apm_exponent b"
      using kg by (auto intro!: mult_right_mono mult_strict_right_mono)
    then show "10 powi (m_apm_exponent b - 1) \<le> \<bar>mval wb\<bar>" "\<bar>mval wb\<bar> < 10 powi m_apm_exponent b"
      using powi_10_Suc[of "m_apm_exponent b - 1"] sign_mval(1)[OF w(2) sg(2)] by (simp_all flip: vb)
  qed
  then have "fraction (m_apm_data wb) = of_int k * g" using vb m_val_pos[OF sg(2)] by simp
  moreover have "50 \<le> of_int k * g * 100" using kg(1) by linarith
  ultimately have "50 \<le> hd (m_apm_data wb)"
    unfolding hd_fraction(1)[OF canonical_ok[OF w(2)]] by (simp only: le_floor_iff of_int_numeral)
  moreover have "sdiv_works fast a b = Some (wa, wb)"
    using False hf(4) h u(1) v(1) by (simp add: sdiv_works_def Let_def wa_def wb_def k_def flip: h_def)
  ultimately show ?thesis using that w sg kf by simp
qed

section \<open>The division is the cut quotient\<close>

lemma mant_abs: "mant (abs_mapm x) \<noteq> 0 \<longleftrightarrow> mval x \<noteq> 0"
  by (cases "abs_mapm x") (metis mapm.sel(1) mapm_val.simps mult_eq_0_iff of_int_eq_0_iff power_int_eq_0_iff
      val_abs zero_neq_numeral)

lemma nonzero_sign: "canonical x \<Longrightarrow> m_apm_sign x \<noteq> 0 \<longleftrightarrow> mval x \<noteq> 0"
  using sign_mval[of x] sign_cases[of x] by fastforce

lemma abs_magnitude:
  "\<bar>mval x\<bar> = of_int \<bar>mant (abs_mapm x)\<bar> * 10 powi expo (abs_mapm x)"
  by (cases "abs_mapm x") (simp add: val_abs[symmetric] abs_mult)

lemma ndigits_exponent:
  assumes "0 < j" "mant m \<noteq> 0"
  shows "10 powi (ndigits (j * mant m) + expo m - 1) \<le> of_int j * (of_int \<bar>mant m\<bar> * (10::rat) powi expo m)"
    "of_int j * (of_int \<bar>mant m\<bar> * 10 powi expo m) < (10::rat) powi (ndigits (j * mant m) + expo m)"
proof -
  define n where "n = ndigits (j * mant m)"
  have n: "1 \<le> n" "10 ^ nat (n - 1) \<le> \<bar>j * mant m\<bar>" "\<bar>j * mant m\<bar> < 10 ^ nat n"
    using ndigits_bounds[of "j * mant m"] assms by (auto simp: n_def)
  have p: "(10::rat) powi (n - 1) = of_int (10 ^ nat (n - 1))" "(10::rat) powi n = of_int (10 ^ nat n)"
    using n(1) by (simp_all add: power_int_def)
  have "(of_int (10 ^ nat (n - 1)) :: rat) \<le> of_int \<bar>j * mant m\<bar>" "of_int \<bar>j * mant m\<bar> < (of_int (10 ^ nat n) :: rat)"
    using n(2,3) by (simp_all only: of_int_le_iff of_int_less_iff)
  then have b: "10 powi (n - 1) \<le> (of_int j * of_int \<bar>mant m\<bar> :: rat)" "of_int j * of_int \<bar>mant m\<bar> < (10::rat) powi n"
    unfolding p using assms(1) by (simp_all add: abs_mult)
  have "10 powi (n - 1) * 10 powi expo m \<le> of_int j * of_int \<bar>mant m\<bar> * (10::rat) powi expo m"
    "of_int j * of_int \<bar>mant m\<bar> * 10 powi expo m < 10 powi n * (10::rat) powi expo m"
    using b by (simp_all only: mult_right_mono mult_strict_right_mono powi_10_pos less_imp_le)
  then show "10 powi (ndigits (j * mant m) + expo m - 1) \<le> of_int j * (of_int \<bar>mant m\<bar> * (10::rat) powi expo m)"
    "of_int j * (of_int \<bar>mant m\<bar> * 10 powi expo m) < (10::rat) powi (ndigits (j * mant m) + expo m)"
    by (simp_all add: n_def mult.assoc algebra_simps flip: power_int_add)
qed

lemma first_byte_floor:
  assumes "m \<noteq> 0"
  shows "first_byte m = \<lfloor>of_int \<bar>m\<bar> * (10::rat) powi (2 - ndigits m)\<rfloor>"
proof -
  define n where "n = nat \<bar>m\<bar>"
  define k where "k = length (dec n)"
  have nk: "ndigits m = int k" "\<bar>m\<bar> = int n" by (simp_all add: ndigits_def k_def n_def)
  have k1: "1 \<le> k" using dec_nonempty[of n] by (cases "dec n") (auto simp: k_def)
  have fb: "first_byte m = (if k = 1 then 10 * int n else int (n div 10 ^ (k - 2)))"
    by (simp add: first_byte_def Let_def n_def k_def)
  show ?thesis
  proof (cases "k = 1")
    case True
    have "of_int \<bar>m\<bar> * (10::rat) powi (2 - ndigits m) = of_int (10 * int n)" by (simp add: nk True)
    then show ?thesis by (simp only: fb True if_True floor_of_int refl)
  next
    case False
    then have e: "2 - ndigits m = - int (k - 2)" using k1 nk by simp
    have p: "(10::rat) powi (- int j) = 1 / of_int (10 ^ j)" for j by (simp add: power_int_minus divide_inverse)
    have "of_int \<bar>m\<bar> * (10::rat) powi (2 - ndigits m) = of_int (int n) / of_int (10 ^ (k - 2))"
      unfolding e nk(2) p by simp
    then have "\<lfloor>of_int \<bar>m\<bar> * (10::rat) powi (2 - ndigits m)\<rfloor> = int n div 10 ^ (k - 2)"
      by (simp only: floor_divide_of_int_eq)
    then show ?thesis using False by (simp add: fb zdiv_int)
  qed
qed

lemma factor_scale: "canonical b \<Longrightarrow> m_apm_sign b \<noteq> 0 \<Longrightarrow> sdivide_scale (abs_mapm b) = d1_factor b"
proof -
  assume b: "canonical b" "m_apm_sign b \<noteq> 0"
  let ?m = "mant (abs_mapm b)" and ?e = "expo (abs_mapm b)"
  have nz: "?m \<noteq> 0" using b nonzero_sign mant_abs by blast
  have e: "m_apm_exponent b = ndigits ?m + ?e"
    using m_exponent_bounds(1,2)[OF b] ndigits_exponent[OF zero_less_one nz]
    by (intro unique_exponent[of _ "\<bar>mval b\<bar>"]) (simp_all add: abs_magnitude)
  have "fraction (m_apm_data b) * 100 = \<bar>mval b\<bar> * 10 powi (2 - m_apm_exponent b)"
    unfolding m_exponent_bounds(3)[OF b] by (simp add: mult.assoc flip: power_int_add)
  also have "\<dots> = of_int \<bar>?m\<bar> * 10 powi (2 - ndigits ?m)"
    unfolding abs_magnitude e by (simp add: mult.assoc flip: power_int_add)
  finally have "first_byte ?m = hd (m_apm_data b)"
    using hd_fraction(1)[OF canonical_ok[OF b(1)]] first_byte_floor[OF nz] by simp
  then show ?thesis by (simp add: sdivide_scale_def d1_factor_def)
qed

lemma sdivide_value:
  assumes a: "canonical a" and b: "canonical b" and places: "0 \<le> places"
  shows "gives (M_apm_sdivide fast places a b) (mapm_val (sdivide places (abs_mapm a) (abs_mapm b)))"
proof (cases "m_apm_sign a = 0 \<or> m_apm_sign b = 0")
  case True
  then have "mant (abs_mapm a) = 0 \<or> mant (abs_mapm b) = 0" using mant_abs sign_mval(3) by blast
  then have "sdivide places (abs_mapm a) (abs_mapm b) = mapm_zero" by (auto simp: sdivide_def)
  moreover have "M_apm_sdivide fast places a b = Some M_set_to_zero" using True by (auto simp: M_apm_sdivide_def)
  ultimately show ?thesis by (simp add: gives_Some val_zero)
next
  case False
  then have s: "m_apm_sign a \<noteq> 0" "m_apm_sign b \<noteq> 0" by simp_all
  let ?A = "abs_mapm a" and ?B = "abs_mapm b"
  define sg where "sg = m_apm_sign a * m_apm_sign b"
  define k where "k = d1_factor b"
  define r where "r = \<bar>mval a\<bar> / \<bar>mval b\<bar>"
  have sg: "sg = 1 \<or> sg = - 1" using canonicalD(5)[OF a s(1)] canonicalD(5)[OF b s(2)] by (auto simp: sg_def)
  have nz: "mant ?A \<noteq> 0" "mant ?B \<noteq> 0" using s nonzero_sign[OF a] nonzero_sign[OF b] mant_abs by blast+
  have kS: "sdivide_scale ?B = k" using factor_scale[OF b s(2)] by (simp add: k_def)
  have k0: "0 < k" using sdivide_scale_pos[OF nz(2)] kS by simp
  obtain wa wb where w: "sdiv_works fast a b = Some (wa, wb)" "canonical wa" "canonical wb"
    "m_apm_sign wa = 1" "m_apm_sign wb = 1" "50 \<le> hd (m_apm_data wb)"
    "mval wa = of_int k * \<bar>mval a\<bar>" "mval wb = of_int k * \<bar>mval b\<bar>"
    using sdiv_works_spec[OF a s(1) b s(2)] unfolding k_def by blast
  have exps: "m_apm_exponent w = ndigits (k * mant m) + expo m"
    if "canonical w" "m_apm_sign w = 1" "mval w = of_int k * \<bar>mval x\<bar>" "m = abs_mapm x" "mant m \<noteq> 0" for w x m
  proof (rule unique_exponent)
    show "10 powi (m_apm_exponent w - 1) \<le> \<bar>mval w\<bar>" "\<bar>mval w\<bar> < 10 powi m_apm_exponent w"
      using m_exponent_bounds(1,2)[OF that(1)] that(2) by simp_all
    have "\<bar>mval w\<bar> = of_int k * (of_int \<bar>mant m\<bar> * 10 powi expo m)"
      using k0 by (simp add: that(3,4) abs_mult abs_magnitude)
    then show "10 powi (ndigits (k * mant m) + expo m - 1) \<le> \<bar>mval w\<bar>" "\<bar>mval w\<bar> < 10 powi (ndigits (k * mant m) + expo m)"
      using ndigits_exponent[OF k0 that(5)] by simp_all
  qed
  define nexp where "nexp = m_apm_exponent wa - m_apm_exponent wb"
  have nexp: "sdivide_nexp ?A ?B = nexp"
    using exps[OF w(2,4,7) refl nz(1)] exps[OF w(3,5,8) refl nz(2)] by (simp add: sdivide_nexp_def kS nexp_def)
  have r: "mval wa / mval wb = r" using k0 by (simp add: w(7,8) r_def)
  define x where "x = nexp + (if fraction (m_apm_data wb) \<le> fraction (m_apm_data wa) then 1 else 0)"
  define it where "it = (if nexp > 0 then nexp + places + 1 else places + 1)"
  note Q = sdiv_quotient_spec(1)[OF w(2,4,3,5,6) sg places, folded nexp_def, folded x_def, unfolded r]
    sdiv_quotient_spec(2)[where fast = fast, OF w(2,4,3,5,6) sg places, folded nexp_def, folded x_def it_def, unfolded r]
  have rq: "r = of_int \<bar>mant ?A\<bar> / of_int \<bar>mant ?B\<bar> * 10 powi (expo ?A - expo ?B)"
    by (simp add: r_def abs_magnitude power_int_diff)
  have x: "sdivide_rexp ?A ?B = x"
    using Q(1) quotient_exponent[OF nz] by (intro unique_exponent[of _ r]) (simp_all add: rq)
  have it: "sdivide_iterations places ?A ?B = it" by (simp add: sdivide_iterations_def nexp it_def)
  have "sgn (mant ?A) * sgn (mant ?B) = sg"
  proof -
    have "sgn (mant (abs_mapm y)) = m_apm_sign y" if "canonical y" "m_apm_sign y \<noteq> 0" for y
    proof -
      have "mval y = of_int (mant (abs_mapm y)) * 10 powi expo (abs_mapm y)"
        by (cases "abs_mapm y") (simp flip: val_abs)
      then have "sgn (mval y) = of_int (sgn (mant (abs_mapm y)))"
        using less_not_sym[OF powi_10_pos[of "expo (abs_mapm y)"]] by (simp add: sgn_if zero_less_mult_iff)
      then have "(of_int (sgn (mant (abs_mapm y))) :: rat) = of_int (m_apm_sign y)"
        using canonicalD(5)[OF that] sign_mval(1,2)[OF that(1)] by auto
      then show ?thesis by (simp only: of_int_eq_iff)
    qed
    then show ?thesis using a b s by (simp add: sg_def)
  qed
  then have "mapm_val (sdivide places ?A ?B) = of_int sg * cut_at (it - x) r"
    using nz by (simp add: sdivide_def Let_def it x val_mk floor_shift_floor cut_at_def rq power_int_add mult.assoc)
  moreover have "M_apm_sdivide fast places a b = sdiv_quotient fast places sg wa wb"
    using sg by (auto simp: M_apm_sdivide_def w(1) simp flip: sg_def)
  ultimately show ?thesis using Q(2) by simp
qed

section \<open>Integer division\<close>

lemma gives_abs: "gives (Some x) v \<Longrightarrow> normal m \<Longrightarrow> mapm_val m = v \<Longrightarrow> abs_mapm x = m"
  by (rule abs_eqI) (simp_all add: gives_def)

lemma dexp_abs: "canonical x \<Longrightarrow> dexp (abs_mapm x) = m_apm_exponent x"
proof (cases "m_apm_sign x = 0")
  case True
  assume "canonical x"
  then have "x = M_set_to_zero" using True by (simp add: canonical_def)
  moreover have "mant (abs_mapm x) = 0" using mant_abs[of x] sign_mval(3)[OF True] by simp
  ultimately show ?thesis by (simp add: dexp_def M_set_to_zero_def)
next
  case False
  assume x: "canonical x"
  have nz: "mant (abs_mapm x) \<noteq> 0" using mant_abs nonzero_sign[OF x] False by blast
  show ?thesis
    using m_exponent_bounds(1,2)[OF x False] ndigits_exponent[OF zero_less_one nz]
    by (intro unique_exponent[of _ "\<bar>mval x\<bar>"]) (simp_all add: dexp_def nz abs_magnitude)
qed

lemma take_floor:
  assumes "is_bytes d" "n \<le> length d"
  shows "bytes_int (take n d) = \<lfloor>fraction d * 100 ^ n\<rfloor>"
proof -
  have "fraction d * 100 ^ n = (fraction (take n d) + fraction (drop n d) / 100 ^ n) * 100 ^ n"
    using assms(2) fraction_append[of "take n d" "drop n d"] by simp
  also have "\<dots> = of_int (bytes_int (take n d)) + fraction (drop n d)"
    using assms(2) by (simp add: fraction_def[of "take n d"] distrib_right)
  finally show ?thesis using fraction_bounds[OF is_bytes_take(2)[OF assms(1)], of n] by linarith
qed

lemma cut_integer:
  assumes x: "canonical x" "m_apm_sign x \<noteq> 0" and e: "0 < m_apm_exponent x" "m_apm_exponent x < int (m_apm_datalength x)"
  shows "gives (M_apm_normalize (x\<lparr>m_apm_datalength := nat (m_apm_exponent x)\<rparr>)) (of_int (trunc_rat (mval x)))"
proof -
  define n where "n = nbytes (nat (m_apm_exponent x))"
  define v where "v = \<bar>mval x\<bar>"
  define y where "y = x\<lparr>m_apm_datalength := nat (m_apm_exponent x)\<rparr>"
  note m = m_okD[OF canonical_ok[OF x(1)]]
  note sg = canonicalD(5)[OF x]
  have n: "n \<le> length (m_apm_data x)" using e m(3) by (simp add: n_def nbytes_def del: nbytes_simps)
  have y: "1 \<le> m_apm_datalength y" "nbytes (m_apm_datalength y) \<le> length (m_apm_data y)" "is_bytes (m_apm_data y)"
    "m_apm_sign y = 1 \<or> m_apm_sign y = - 1"
    using e m n sg by (auto simp: y_def n_def)
  note C = clean_spec[OF y]
  have odd: "odd (nat (m_apm_exponent x)) \<longleftrightarrow> 2 * int n = m_apm_exponent x + 1"
    "even (nat (m_apm_exponent x)) \<longleftrightarrow> 2 * int n = m_apm_exponent x"
  proof -
    obtain k where k: "m_apm_exponent x = int k" using e(1) by (metis nonneg_int_cases less_imp_le)
    show "odd (nat (m_apm_exponent x)) \<longleftrightarrow> 2 * int n = m_apm_exponent x + 1"
      "even (nat (m_apm_exponent x)) \<longleftrightarrow> 2 * int n = m_apm_exponent x"
      unfolding n_def nbytes_def k nat_int by presburger+
  qed
  have "fraction (m_apm_data x) * 100 ^ n = v * 10 powi (2 * int n - m_apm_exponent x)"
  proof -
    have "(100::rat) ^ n = 10 powi (2 * int n)" using power_int_of_nat[of "10::rat" "2 * n"] by (simp add: power_mult)
    then show ?thesis unfolding v_def m_exponent_bounds(3)[OF x] by (simp add: mult.assoc flip: power_int_add)
  qed
  then have b: "bytes_int (take n (m_apm_data x)) = \<lfloor>v * 10 powi (2 * int n - m_apm_exponent x)\<rfloor>"
    using take_floor[OF m(2) n] by simp
  then have c: "bytes_int (m_apm_data (clean y)) = (if odd (nat (m_apm_exponent x))
      then 10 * (\<lfloor>v * 10 powi (0 + 1)\<rfloor> div 10) else \<lfloor>v * 10 powi 0\<rfloor>)"
  proof -
    have "take (nbytes (m_apm_datalength y)) (m_apm_data y) = take n (m_apm_data x)"
      "m_apm_datalength y = nat (m_apm_exponent x)" by (simp_all add: y_def n_def)
    then have c: "bytes_int (m_apm_data (clean y)) = (if odd (nat (m_apm_exponent x))
        then 10 * (bytes_int (take n (m_apm_data x)) div 10) else bytes_int (take n (m_apm_data x)))"
      using C(3) by (simp only:)
    have "2 * int n - m_apm_exponent x = (if odd (nat (m_apm_exponent x)) then 0 + 1 else 0)"
      using odd by auto
    then show ?thesis using b unfolding c by simp
  qed
  have "of_int (bytes_int (m_apm_data (clean y))) * 10 powi mexp (clean y) = cut_at 0 v"
  proof (cases "odd (nat (m_apm_exponent x))")
    case True
    then have "mexp (clean y) = - (0 + 1)" using C(2) odd by (simp add: mexp_def y_def flip: n_def)
    then show ?thesis using True cut_one_less[of v 0] c by simp
  next
    case False
    then have "mexp (clean y) = 0" using C(2) odd by (simp add: mexp_def y_def flip: n_def)
    then show ?thesis using False c by (simp add: cut_at_def)
  qed
  then have val: "mval (clean y) = of_int (m_apm_sign x) * cut_at 0 v" by (simp add: mval_def y_def mult.assoc)
  have "10 powi - 0 \<le> v"
  proof -
    have "(10::rat) powi 0 \<le> 10 powi (m_apm_exponent x - 1)" using e(1) by (intro powi_10_mono) simp
    then show ?thesis using m_exponent_bounds(1)[OF x] by (simp add: v_def)
  qed
  then have nz: "of_int (m_apm_sign x) * cut_at 0 v \<noteq> 0" using cut_nonzero[of 0 v] sg by auto
  have "mval x = of_int (m_apm_sign x) * v"
    using sign_mval(1,2)[OF x(1)] sg by (auto simp: v_def)
  then have "of_int (trunc_rat (mval x)) = of_int (m_apm_sign x) * cut_at 0 v"
    using trunc_signed[of v "m_apm_sign x"] sg by (simp add: cut_at_def v_def)
  then show ?thesis
    using gives_normalize[OF C(1) val nz] normalize_clean[OF y(1,2)] x(2) by (simp add: y_def)
qed

lemma whole_number:
  assumes x: "canonical x" "m_apm_sign x \<noteq> 0" and e: "int (m_apm_datalength x) \<le> m_apm_exponent x"
  shows "of_int (trunc_rat (mval x)) = mval x"
proof -
  note m = m_okD[OF canonical_ok[OF x(1)]]
  obtain i where i: "mval x = of_int i"
  proof (cases "mexp x \<ge> 0")
    case True
    then have "mval x = of_int (m_apm_sign x * bytes_int (m_apm_data x) * 10 ^ nat (mexp x))"
      by (simp add: mval_def power_int_def)
    then show ?thesis by (rule that)
  next
    case False
    then have o: "odd (m_apm_datalength x)" "mexp x = - 1"
      using e m(3) by (auto simp: mexp_def nbytes_def elim!: evenE oddE)
    then obtain j where "bytes_int (m_apm_data x) = 10 * j" using odd_bytes[OF canonical_ok[OF x(1)]] by blast
    then have "mval x = of_int (m_apm_sign x * j)" using o(2) by (simp add: mval_def power_int_minus)
    then show ?thesis by (rule that)
  qed
  then show ?thesis by (simp add: trunc_rat_def)
qed

lemma integer_divide_value:
  assumes a: "canonical a" and b: "canonical b"
  shows "gives (m_apm_integer_divide fast a b) (mapm_val (integer_divide (abs_mapm a) (abs_mapm b)))"
proof -
  obtain r where r: "M_apm_sdivide fast 4 a b = Some r" "canonical r"
    "mval r = mapm_val (sdivide 4 (abs_mapm a) (abs_mapm b))"
    using sdivide_value[OF a b, of 4 fast] unfolding gives_def by auto
  have R: "sdivide 4 (abs_mapm a) (abs_mapm b) = abs_mapm r"
    by (rule abs_eqI[OF normal_sdivide r(3), symmetric])
  have de: "dexp (abs_mapm r) = m_apm_exponent r" by (rule dexp_abs[OF r(2)])
  have I: "integer_divide (abs_mapm a) (abs_mapm b) =
      (if m_apm_exponent r \<le> 0 then mapm_zero else mapm_of_int (trunc_rat (mval r)))"
    using cut_fraction[OF normal_abs, of r] by (simp add: integer_divide_def Let_def R de val_abs)
  have step: "m_apm_integer_divide fast a b = (if m_apm_exponent r \<le> 0 then Some M_set_to_zero
      else if int (m_apm_datalength r) > m_apm_exponent r
      then M_apm_normalize (r\<lparr>m_apm_datalength := nat (m_apm_exponent r)\<rparr>) else Some r)"
    by (simp add: m_apm_integer_divide_def r(1))
  show ?thesis
  proof (cases "m_apm_exponent r \<le> 0")
    case True
    then show ?thesis by (simp add: step I gives_Some val_zero)
  next
    case False
    then have nz: "m_apm_sign r \<noteq> 0" using r(2) by (auto simp: canonical_def M_set_to_zero_def)
    show ?thesis
      using cut_integer[OF r(2) nz] whole_number[OF r(2) nz] False r(2)
      by (auto simp: step I val_of_int gives_Some)
  qed
qed

lemma div_rem_value:
  assumes fast: "multiplies fast" and a: "canonical a" and b: "canonical b"
  obtains q r where "m_apm_integer_div_rem fast a b = Some (q, r)" "canonical q" "canonical r"
    "abs_mapm q = integer_divide (abs_mapm a) (abs_mapm b)" "abs_mapm r = integer_rem (abs_mapm a) (abs_mapm b)"
proof -
  obtain q where q: "m_apm_integer_divide fast a b = Some q" "canonical q"
    "mval q = mapm_val (integer_divide (abs_mapm a) (abs_mapm b))"
    using integer_divide_value[OF a b, of fast] unfolding gives_def by blast
  obtain t where t: "m_apm_multiply fast q b = Some t" "canonical t" "mval t = mval q * mval b"
    using multiply_value[OF fast q(2) b] unfolding gives_def by blast
  obtain r where r: "m_apm_subtract a t = Some r" "canonical r" "mval r = mval a - mval t"
    using add_sub_value(2)[OF a t(2)] unfolding gives_def by blast
  have "normal (integer_divide (abs_mapm a) (abs_mapm b))"
    using normal_sdivide by (simp add: integer_divide_def Let_def normal_mk normal_ops)
  then have "abs_mapm q = integer_divide (abs_mapm a) (abs_mapm b)" by (rule abs_eqI) (rule q(3))
  moreover have "abs_mapm r = integer_rem (abs_mapm a) (abs_mapm b)"
    by (rule abs_eqI) (simp_all add: integer_rem_def normal_ops val_sub val_mul val_abs r(3) t(3) q(3))
  ultimately show ?thesis using that[of q r] q r t by (simp add: m_apm_integer_div_rem_def)
qed

end
