(* ===== verification/MapmRefine.thy ===== *)
theory MapmRefine
  imports MapmSdivide
begin

text \<open>
  The decimal arithmetic of the interpreter, \<open>mapm_add\<close> and its companions, is what the code does
  on bytes: \<open>abs_mapm\<close> takes every normalised number of the code to a number of the interpreter's
  model, and the operations commute with it. \<open>m_apm_exponent\<close> and \<open>m_apm_datalength\<close>, which the
  code declares as \<open>int\<close>, are unbounded in both models: overflow of an exponent is not modelled. The numbers of the examples are 12.5, -7 and 0.
\<close>

definition refines :: "M_APM option \<Rightarrow> mapm \<Rightarrow> bool" where
  "refines r m \<longleftrightarrow> (case r of None \<Rightarrow> False | Some y \<Rightarrow> canonical y \<and> abs_mapm y = m)"

lemma gives_refines: "gives r v \<Longrightarrow> normal m \<Longrightarrow> mapm_val m = v \<Longrightarrow> refines r m"
  unfolding gives_def refines_def using abs_eqI by force

definition twelve_5 :: M_APM where
  "twelve_5 = \<lparr>m_apm_data = [12, 50], m_apm_datalength = 3, m_apm_exponent = 2, m_apm_sign = 1\<rparr>"

definition minus_7 :: M_APM where
  "minus_7 = \<lparr>m_apm_data = [70], m_apm_datalength = 1, m_apm_exponent = 1, m_apm_sign = - 1\<rparr>"

lemma examples_canonical: "canonical twelve_5" "canonical minus_7" "m_ok twelve_5"
  by (simp_all add: canonical_def m_ok_def twelve_5_def minus_7_def nbytes_def)

text \<open>C12. Addition and subtraction on the bytes (alignment, carries, borrows, normalisation) return
  the exact sum and difference, and end for every two normalised numbers.\<close>

theorem add_refines:
  assumes "canonical a" "canonical b"
  shows "refines (m_apm_add a b) (mapm_add (abs_mapm a) (abs_mapm b))
    \<and> refines (m_apm_subtract a b) (mapm_sub (abs_mapm a) (abs_mapm b))"
  using add_sub_value[OF assms]
  by (auto intro!: gives_refines simp: normal_ops val_add val_sub val_abs)

theorem add_refines_witness:
  "refines (m_apm_add twelve_5 minus_7) (mapm_add (abs_mapm twelve_5) (abs_mapm minus_7))
    \<and> refines (m_apm_subtract twelve_5 minus_7) (mapm_sub (abs_mapm twelve_5) (abs_mapm minus_7))"
  by (rule add_refines[OF examples_canonical(1,2)])

text \<open>\<open>m_apm_compare\<close> orders normalised numbers as their values, and numbers that compare as
  equal are the same number.\<close>

theorem compare_order:
  assumes "canonical a" "canonical b"
  shows "m_apm_compare a b =
      (if mapm_less (abs_mapm b) (abs_mapm a) then 1 else if mapm_less (abs_mapm a) (abs_mapm b) then - 1 else 0)
    \<and> (m_apm_compare a b = 0 \<longleftrightarrow> mapm_eq (abs_mapm a) (abs_mapm b))"
  using compare_value[OF assms] by (auto simp: less_val eq_val val_abs)

theorem compare_order_witness:
  "m_apm_compare twelve_5 minus_7 =
      (if mapm_less (abs_mapm minus_7) (abs_mapm twelve_5) then 1
       else if mapm_less (abs_mapm twelve_5) (abs_mapm minus_7) then - 1 else 0)
    \<and> (m_apm_compare twelve_5 minus_7 = 0 \<longleftrightarrow> mapm_eq (abs_mapm twelve_5) (abs_mapm minus_7))"
  by (rule compare_order[OF examples_canonical(1,2)])

text \<open>C11. The multiplication returns the exact product: no byte of the accumulator exceeds 8 bits
  and no carry leaves it, whatever the lengths of the operands. The Fourier multiplication of long
  operands is the parameter, of which only that is required.\<close>

theorem multiply_refines:
  assumes "multiplies fast" "canonical a" "canonical b"
  shows "refines (m_apm_multiply fast a b) (mapm_mul (abs_mapm a) (abs_mapm b))"
  by (rule gives_refines[OF multiply_value[OF assms]]) (simp_all add: normal_ops val_mul val_abs)

theorem multiply_refines_witness:
  "refines (m_apm_multiply (\<lambda>a b. if m_apm_sign a * m_apm_sign b = 0 then Some M_set_to_zero else multiply_loops a b)
      twelve_5 minus_7) (mapm_mul (abs_mapm twelve_5) (abs_mapm minus_7))"
  by (rule multiply_refines[OF multiplies_loops examples_canonical(1,2)])

text \<open>C10. The long division returns the quotient cut to the digits asked for: every trial
  quotient is right after at most one correction, the loop ends, and the exponent of the result is
  that of the quotient. The Fourier multiplication is never used.\<close>

theorem sdivide_refines:
  assumes "canonical a" "canonical b" "0 \<le> places"
  shows "refines (M_apm_sdivide fast places a b) (sdivide places (abs_mapm a) (abs_mapm b))"
  by (rule gives_refines[OF sdivide_value[OF assms] normal_sdivide refl])

theorem sdivide_refines_witness:
  "\<forall>fast. refines (M_apm_sdivide fast 30 twelve_5 minus_7) (sdivide 30 (abs_mapm twelve_5) (abs_mapm minus_7))"
  by (rule allI, rule sdivide_refines[OF examples_canonical(1,2)]) simp

text \<open>C13. \<open>m_apm_integer_div_rem\<close> returns the quotient truncated towards zero and the remainder that
  belongs to it.\<close>

theorem div_rem_refines:
  assumes "multiplies fast" "canonical a" "canonical b"
  shows "\<exists>q r. m_apm_integer_div_rem fast a b = Some (q, r) \<and> canonical q \<and> canonical r
    \<and> abs_mapm q = integer_divide (abs_mapm a) (abs_mapm b)
    \<and> abs_mapm r = integer_rem (abs_mapm a) (abs_mapm b)"
  using div_rem_value[OF assms] by metis

theorem div_rem_refines_witness:
  "\<exists>q r. m_apm_integer_div_rem (\<lambda>a b. if m_apm_sign a * m_apm_sign b = 0 then Some M_set_to_zero else multiply_loops a b)
      twelve_5 minus_7 = Some (q, r) \<and> canonical q \<and> canonical r
    \<and> abs_mapm q = integer_divide (abs_mapm twelve_5) (abs_mapm minus_7)
    \<and> abs_mapm r = integer_rem (abs_mapm twelve_5) (abs_mapm minus_7)"
  by (rule div_rem_refines[OF multiplies_loops examples_canonical(1,2)])

text \<open>\<open>m_apm_set_long\<close> and \<open>M_apm_normalize\<close> produce normalised numbers, of the value of the
  integer and of the number normalised.\<close>

theorem set_long_normalize:
  "refines (Some (m_apm_set_long i)) (mapm_of_int i)
    \<and> (m_ok x \<and> mval x \<noteq> 0 \<longrightarrow> refines (M_apm_normalize x) (abs_mapm x))"
proof (intro conjI impI)
  show "refines (Some (m_apm_set_long i)) (mapm_of_int i)"
    by (simp add: refines_def abs_eqI normal_ops val_of_int)
  assume "m_ok x \<and> mval x \<noteq> 0"
  then have "gives (M_apm_normalize x) (mval x)" by (simp add: gives_normalize)
  then show "refines (M_apm_normalize x) (abs_mapm x)" by (rule gives_refines) (simp_all add: normal_abs val_abs)
qed

theorem set_long_normalize_witness:
  "refines (Some (m_apm_set_long 1200)) (mapm_of_int 1200)
    \<and> (m_ok twelve_5 \<and> mval twelve_5 \<noteq> 0) \<and> refines (M_apm_normalize twelve_5) (abs_mapm twelve_5)"
proof -
  have "m_ok twelve_5 \<and> mval twelve_5 \<noteq> 0"
    using examples_canonical(3) by (auto simp: mval_def twelve_5_def bytes_int_def)
  then show ?thesis using set_long_normalize[of 1200 twelve_5] by blast
qed

end
