(* ===== verification/PgsApp.thy ===== *)
theory PgsApp
  imports PgsScript
begin

text \<open>
  The application that runs scripts (\<open>pgsApplication.cpp\<close>, \<open>utilities/pgsThread.cpp\<close>,
  \<open>utilities/pgsDriver.cpp\<close>) and the query window that uses it (\<open>frm/frmQuery.cpp\<close>). The semaphore
  \<open>m_mutex\<close> is held by a script thread from its constructor to the end of its destructor;
  \<open>IsRunning\<close> only looks at it. The threads on the heap are \<open>ap_threads\<close>: a detached thread deletes
  itself, which leaves \<open>m_thread\<close> dangling. \<open>None\<close> is a call that blocks for ever or reads a deleted
  object. The main thread and the script thread interleave as the steps of \<open>gui_step\<close>.
\<close>

section \<open>The driver\<close>

datatype parsed = Program "(int \<times> stmt) list" | Syntax_error int string string

record app_env =
  ae_read :: "string \<Rightarrow> string option"  \<comment> \<open>the text of a file that exists and is readable\<close>
  ae_parse :: "string \<Rightarrow> parsed"  \<comment> \<open>scanner and parser\<close>
  ae_pgs :: "nat \<Rightarrow> bool \<Rightarrow> pgs_env"  \<comment> \<open>the surroundings of a thread, by its number and whether it is to end\<close>

definition PGSOUTERROR :: string where "PGSOUTERROR = ''[ERROR    ] ''"

text \<open>\<open>pgsDriver::error\<close>: \<open>loc\<close> is the text of the location, \<open>line\<close> its first line.\<close>

definition driver_error :: "int \<Rightarrow> string \<Rightarrow> string \<Rightarrow> unit pgs" where
  "driver_error line loc m =
     bind_prog (modifies (\<lambda>s. s\<lparr>ps_error_line := line\<rparr>)) (\<lambda>_.
     bind_prog lock_output (\<lambda>_.
     bind_prog (emit (PGSOUTERROR @ loc @ '': '' @ m @ [newline_char])) (\<lambda>_.
     unlock_output)))"

text \<open>The rule \<open>translation_unit\<close> of the grammar evaluates the program once all of it is parsed.\<close>

definition parse_string :: "app_env \<Rightarrow> pgs_env \<Rightarrow> string \<Rightarrow> bool pgs" where
  "parse_string E env input =
     (case ae_parse E input of
        Program ls \<Rightarrow> bind_prog (program_eval env ls) (\<lambda>_. ret True)
      | Syntax_error line loc m \<Rightarrow> bind_prog (driver_error line loc m) (\<lambda>_. ret False))"

definition parse_file :: "app_env \<Rightarrow> pgs_env \<Rightarrow> string \<Rightarrow> bool pgs" where
  "parse_file E env filename =
     (case ae_read E filename of Some input \<Rightarrow> parse_string E env input | None \<Rightarrow> ret False)"

section \<open>Threads and the application\<close>

datatype script = Script_file string | Script_string string

datatype phase = Created | Running | Finishing | Completed

record pgsThread =
  th_data :: script
  th_phase :: phase
  th_cancelled :: bool
  th_last_error_line :: int

text \<open>\<open>ap_script\<close> holds \<open>m_vars\<close>, the output and its semaphore \<open>m_stream\<close>.\<close>

record pgsApplication =
  m_mutex :: nat
  m_connection :: nat
  m_defined_conn :: bool
  m_thread :: "nat option"
  m_caller :: "nat option"
  m_event_id :: int
  m_last_error_line :: int
  ap_script :: pgs_state
  ap_threads :: "nat \<Rightarrow> pgsThread option"
  ap_next :: nat
  ap_events :: "(nat \<times> int) list"
  ap_deleted :: "nat list"

text \<open>A \<open>wxSemaphore(1, 1)\<close>.\<close>

definition sem_try_wait :: "nat \<Rightarrow> nat option" where
  "sem_try_wait m = (if 0 < m then Some (m - 1) else None)"

definition sem_post :: "nat \<Rightarrow> nat" where "sem_post m = (if m < 1 then m + 1 else m)"

definition IsRunning :: "pgsApplication \<Rightarrow> bool \<times> pgsApplication" where
  "IsRunning a = (case sem_try_wait (m_mutex a) of
     Some m \<Rightarrow> (False, a\<lparr>m_mutex := sem_post m\<rparr>)
   | None \<Rightarrow> (True, a))"

abbreviation running :: "pgsApplication \<Rightarrow> bool" where "running a \<equiv> fst (IsRunning a)"

text \<open>The constructors of \<open>pgsApplication\<close> leave \<open>m_last_error_line\<close> and \<open>m_event_id\<close> as they find them.\<close>

definition new_application :: "nat \<Rightarrow> bool \<Rightarrow> int \<Rightarrow> int \<Rightarrow> pgs_state \<Rightarrow> pgsApplication" where
  "new_application conn defined unset_line unset_id st =
     \<lparr>m_mutex = 1, m_connection = conn, m_defined_conn = defined, m_thread = None, m_caller = None,
      m_event_id = unset_id, m_last_error_line = unset_line, ap_script = st, ap_threads = (\<lambda>t. None),
      ap_next = 0, ap_events = [], ap_deleted = []\<rparr>"

definition SetCaller :: "nat \<Rightarrow> int \<Rightarrow> pgsApplication \<Rightarrow> pgsApplication" where
  "SetCaller caller event_id a = a\<lparr>m_caller := Some caller, m_event_id := event_id\<rparr>"

definition SetConnection :: "nat \<Rightarrow> pgsApplication \<Rightarrow> pgsApplication" where
  "SetConnection conn a =
     (let a1 = (if m_defined_conn a
                then a\<lparr>ap_deleted := m_connection a # ap_deleted a, m_defined_conn := False\<rparr> else a)
      in a1\<lparr>m_connection := conn\<rparr>)"

definition ClearSymbols :: "pgsApplication \<Rightarrow> pgsApplication" where
  "ClearSymbols a = (case IsRunning a of (r, b) \<Rightarrow>
     if \<not> r then b\<lparr>ap_script := (ap_script b)\<lparr>ps_vars := (\<lambda>n. None)\<rparr>\<rparr> else b)"

definition errorOccurred :: "pgsApplication \<Rightarrow> bool" where
  "errorOccurred a \<longleftrightarrow> m_last_error_line a \<noteq> - 1"

definition errorLine :: "pgsApplication \<Rightarrow> int" where "errorLine a = m_last_error_line a"

text \<open>The constructor of \<open>pgsThread\<close> waits for the semaphore.\<close>

definition new_thread :: "script \<Rightarrow> pgsApplication \<Rightarrow> (nat \<times> pgsApplication) option" where
  "new_thread d a = map_option
     (\<lambda>m. (ap_next a, a\<lparr>m_mutex := m, ap_next := Suc (ap_next a),
        ap_threads := (ap_threads a)(ap_next a \<mapsto>
          \<lparr>th_data = d, th_phase = Created, th_cancelled = False, th_last_error_line = - 1\<rparr>)\<rparr>))
     (sem_try_wait (m_mutex a))"

definition Complete :: "pgsApplication \<Rightarrow> pgsApplication option" where
  "Complete a =
     Option.bind (m_thread a) (\<lambda>t. map_option (\<lambda>th.
       a\<lparr>m_last_error_line := th_last_error_line th,
         ap_events := ap_events a @ (case m_caller a of Some c \<Rightarrow> [(c, m_event_id a)] | None \<Rightarrow> [])\<rparr>)
       (ap_threads a t))"

text \<open>The end of the destructor of \<open>pgsThread\<close>: \<open>m_mutex.Post()\<close>, and the object is gone.\<close>

definition thread_post :: "nat \<Rightarrow> pgsApplication \<Rightarrow> pgsApplication" where
  "thread_post t a = a\<lparr>m_mutex := sem_post (m_mutex a), ap_threads := (ap_threads a)(t := None)\<rparr>"

text \<open>\<open>started\<close>: \<open>Create\<close> and \<open>Run\<close> of the thread succeed.\<close>

definition RunThread :: "bool \<Rightarrow> pgsApplication \<Rightarrow> (bool \<times> pgsApplication) option" where
  "RunThread started a =
     (case m_thread a of
        None \<Rightarrow> Some (False, a)
      | Some t \<Rightarrow>
          if started
          then Some (True, a\<lparr>ap_threads := (ap_threads a)(t := map_option (\<lambda>th. th\<lparr>th_phase := Running\<rparr>) (ap_threads a t))\<rparr>)
          else map_option (\<lambda>b. (False, (thread_post t b)\<lparr>m_thread := None\<rparr>)) (Complete a))"

definition start_script :: "bool \<Rightarrow> script \<Rightarrow> pgsApplication \<Rightarrow> (bool \<times> pgsApplication) option" where
  "start_script started d a = (case IsRunning a of (r, b) \<Rightarrow>
     if \<not> r then
       Option.bind (new_thread d (b\<lparr>m_last_error_line := - 1\<rparr>)) (\<lambda>(t, c).
         RunThread started (c\<lparr>m_thread := Some t\<rparr>))
     else Some (False, b))"

definition ParseString :: "bool \<Rightarrow> string \<Rightarrow> pgsApplication \<Rightarrow> (bool \<times> pgsApplication) option" where
  "ParseString started s = start_script started (Script_string s)"

definition ParseFile :: "bool \<Rightarrow> string \<Rightarrow> pgsApplication \<Rightarrow> (bool \<times> pgsApplication) option" where
  "ParseFile started f = start_script started (Script_file f)"

text \<open>\<open>Wait\<close> blocks while a script holds the semaphore, and gives it back.\<close>

definition Wait_app :: "pgsApplication \<Rightarrow> pgsApplication option" where
  "Wait_app a = (case IsRunning a of (r, b) \<Rightarrow>
     if r then map_option (\<lambda>m. b\<lparr>m_mutex := sem_post m\<rparr>) (sem_try_wait (m_mutex b)) else Some b)"

text \<open>\<open>pgsThread::Entry\<close>. Its effects show when it is over; that it holds the semaphore of the output at times
  before shows in steps of their own (\<open>script_takes_output\<close>).\<close>

definition thread_entry :: "app_env \<Rightarrow> pgs_env \<Rightarrow> script \<Rightarrow> bool pgs" where
  "thread_entry E env d = (case d of
     Script_file f \<Rightarrow> parse_file E env f
   | Script_string s \<Rightarrow> parse_string E env s)"

definition run_script :: "app_env \<Rightarrow> nat \<Rightarrow> pgsThread \<Rightarrow> pgsApplication \<Rightarrow> pgsApplication option" where
  "run_script E t th a = map_option
     (\<lambda>p. a\<lparr>ap_script := snd p,
        ap_threads := (ap_threads a)(t \<mapsto> th\<lparr>th_phase := Finishing, th_last_error_line := ps_error_line (snd p)\<rparr>)\<rparr>)
     (thread_entry E (ae_pgs E t (th_cancelled th)) (th_data th)
        ((ap_script a)\<lparr>ps_error_line := th_last_error_line th\<rparr>))"

section \<open>The query window\<close>

text \<open>\<open>ms_pgScriptRunning\<close> guards the parser; \<open>fq_cancelling\<close>: \<open>Terminate\<close> is past its test of \<open>IsRunning\<close>;
  \<open>fq_dangling\<close>: it has called \<open>Delete\<close> on a thread that is gone.\<close>

record frmQuery =
  fq_app :: pgsApplication
  ms_pgScriptRunning :: bool
  fq_result :: string
  fq_cancelling :: bool
  fq_dangling :: bool

definition OnExecScript :: "bool \<Rightarrow> string \<Rightarrow> frmQuery \<Rightarrow> frmQuery option" where
  "OnExecScript started query w =
     (if ms_pgScriptRunning w then Some w
      else map_option (\<lambda>(r, a). w\<lparr>ms_pgScriptRunning := True, fq_app := a\<rparr>)
        (ParseString started (query @ [newline_char]) (ClearSymbols (fq_app w))))"

definition writeScriptOutput :: "frmQuery \<Rightarrow> frmQuery option" where
  "writeScriptOutput w =
     (let a = fq_app w; s = ap_script a in
      map_option (\<lambda>m. w\<lparr>fq_result := fq_result w @ ps_out s,
          fq_app := a\<lparr>ap_script := s\<lparr>ps_out := [], ps_stream := sem_post m\<rparr>\<rparr>\<rparr>)
        (sem_try_wait (ps_stream s)))"

text \<open>The handler of the event that \<open>Complete\<close> posts.\<close>

definition OnScriptComplete :: "frmQuery \<Rightarrow> frmQuery option" where
  "OnScriptComplete w =
     (case ap_events (fq_app w) of
        [] \<Rightarrow> None
      | ev # evs \<Rightarrow> map_option (\<lambda>v. v\<lparr>ms_pgScriptRunning := False\<rparr>)
          (writeScriptOutput (w\<lparr>fq_app := (fq_app w)\<lparr>ap_events := evs\<rparr>\<rparr>)))"

definition Terminate_test :: "frmQuery \<Rightarrow> frmQuery" where
  "Terminate_test w = (if running (fq_app w) then w\<lparr>fq_cancelling := True\<rparr> else w)"

definition Terminate_delete :: "frmQuery \<Rightarrow> frmQuery" where
  "Terminate_delete w =
     (let a = fq_app w; v = w\<lparr>fq_cancelling := False\<rparr> in
      case Option.bind (m_thread a) (\<lambda>t. map_option (\<lambda>th. (t, th)) (ap_threads a t)) of
        None \<Rightarrow> v\<lparr>fq_dangling := True\<rparr>
      | Some (t, th) \<Rightarrow> v\<lparr>fq_app := a\<lparr>ap_threads := (ap_threads a)(t \<mapsto> th\<lparr>th_cancelled := True\<rparr>)\<rparr>\<rparr>)"

definition with_stream :: "nat \<Rightarrow> frmQuery \<Rightarrow> frmQuery" where
  "with_stream m w = w\<lparr>fq_app := (fq_app w)\<lparr>ap_script := (ap_script (fq_app w))\<lparr>ps_stream := m\<rparr>\<rparr>\<rparr>"

text \<open>The steps of the main thread, which is in no call of \<open>Terminate\<close> when it starts another, and of the
  script thread \<open>t\<close>. A running script may take the semaphore of the output at any time and give it
  back later, as \<open>PRINT\<close> does around the evaluation of its operand, and reports around their text.
  A step that waits for a semaphore which is not free cannot be taken.\<close>

inductive gui_step :: "app_env \<Rightarrow> frmQuery \<Rightarrow> frmQuery \<Rightarrow> bool" for E where
  execute: "\<not> fq_cancelling w \<Longrightarrow> OnExecScript started query w = Some v \<Longrightarrow> gui_step E w v"
| completed: "\<not> fq_cancelling w \<Longrightarrow> OnScriptComplete w = Some v \<Longrightarrow> gui_step E w v"
| poll_output: "\<not> fq_cancelling w \<Longrightarrow> writeScriptOutput w = Some v \<Longrightarrow> gui_step E w v"
| connect: "\<not> fq_cancelling w \<Longrightarrow> gui_step E w (w\<lparr>fq_app := SetConnection c (fq_app w)\<rparr>)"
| cancel: "\<not> fq_cancelling w \<Longrightarrow> gui_step E w (Terminate_test w)"
| cancel_thread: "fq_cancelling w \<Longrightarrow> gui_step E w (Terminate_delete w)"
| script_takes_output: "ap_threads (fq_app w) t = Some th \<Longrightarrow> th_phase th = Running \<Longrightarrow>
    sem_try_wait (ps_stream (ap_script (fq_app w))) = Some m \<Longrightarrow> gui_step E w (with_stream m w)"
| script_gives_output: "ap_threads (fq_app w) t = Some th \<Longrightarrow> th_phase th = Running \<Longrightarrow>
    ps_stream (ap_script (fq_app w)) = 0 \<Longrightarrow> gui_step E w (with_stream (sem_post 0) w)"
| thread_runs: "ap_threads (fq_app w) t = Some th \<Longrightarrow> th_phase th = Running \<Longrightarrow>
    ps_stream (ap_script (fq_app w)) = 1 \<Longrightarrow> run_script E t th (fq_app w) = Some a \<Longrightarrow> gui_step E w (w\<lparr>fq_app := a\<rparr>)"
| thread_completes: "ap_threads (fq_app w) t = Some th \<Longrightarrow> th_phase th = Finishing \<Longrightarrow>
    Complete (fq_app w) = Some a \<Longrightarrow>
    gui_step E w (w\<lparr>fq_app := a\<lparr>ap_threads := (ap_threads a)(t \<mapsto> th\<lparr>th_phase := Completed\<rparr>)\<rparr>\<rparr>)"
| thread_ends: "ap_threads (fq_app w) t = Some th \<Longrightarrow> th_phase th = Completed \<Longrightarrow>
    gui_step E w (w\<lparr>fq_app := thread_post t (fq_app w)\<rparr>)"

definition gui_start :: "frmQuery \<Rightarrow> bool" where
  "gui_start w \<longleftrightarrow> (\<exists>conn unset_line unset_id caller event_id st.
     ps_stream st = 1 \<and> \<not> ps_thrown st \<and>
     w = \<lparr>fq_app = SetCaller caller event_id (new_application conn False unset_line unset_id st),
          ms_pgScriptRunning = False, fq_result = [], fq_cancelling = False, fq_dangling = False\<rparr>)"

end
