(* ===== verification/Reach.thy ===== *)
theory Reach
  imports Prelude
begin

text \<open>
  Invariants of step relations: a set of states that no step leaves, and one that also holds the
  states in which a system starts.
\<close>

locale closed_under =
  fixes step :: "'s \<Rightarrow> 's \<Rightarrow> bool" and inv :: "'s \<Rightarrow> bool"
  assumes kept: "inv s \<Longrightarrow> step s t \<Longrightarrow> inv t"
begin

lemma stays: "inv s \<Longrightarrow> step\<^sup>*\<^sup>* s t \<Longrightarrow> inv t"
  by (rotate_tac 1, induction rule: rtranclp_induct) (auto intro: kept)

end

locale inductive_invariant = closed_under step inv
  for step :: "'s \<Rightarrow> 's \<Rightarrow> bool" and inv :: "'s \<Rightarrow> bool" +
  fixes start :: "'s \<Rightarrow> bool"
  assumes starts: "start s \<Longrightarrow> inv s"
begin

lemma reached: "start s \<Longrightarrow> step\<^sup>*\<^sup>* s t \<Longrightarrow> inv t"
  by (rule stays[OF starts])

end

end
