(* ===== verification/PgsAppRun.thy ===== *)
theory PgsAppRun
  imports PgsApp Reach
begin

text \<open>
  What the application promises: at most one script runs, whatever the main thread and the script
  thread do in which order; a script that ends leaves its variables, its output and the line of its
  error; a cancelled script ends; and what goes wrong between the event and the semaphore.
\<close>

section \<open>One script at a time\<close>

definition idle :: "pgsApplication \<Rightarrow> bool" where
  "idle a \<longleftrightarrow> m_mutex a = 1 \<and> (\<forall>t. ap_threads a t = None)"

definition busy :: "pgsApplication \<Rightarrow> bool" where
  "busy a \<longleftrightarrow> m_mutex a = 0 \<and> (\<exists>t th. m_thread a = Some t \<and> ap_threads a = [t \<mapsto> th] \<and> th_phase th \<noteq> Created)"

definition quiet_script :: "pgs_state \<Rightarrow> bool" where
  "quiet_script s \<longleftrightarrow> ps_stream s = 1 \<and> \<not> ps_thrown s"

text \<open>The script that runs may hold the semaphore of the output.\<close>

definition output_held :: "pgsApplication \<Rightarrow> bool" where
  "output_held a \<longleftrightarrow> ps_stream (ap_script a) = 0 \<and> busy a \<and> (\<forall>t th. ap_threads a t = Some th \<longrightarrow> th_phase th = Running)"

definition app_inv :: "pgsApplication \<Rightarrow> bool" where
  "app_inv a \<longleftrightarrow> (idle a \<or> busy a) \<and> \<not> ps_thrown (ap_script a) \<and> (ps_stream (ap_script a) = 1 \<or> output_held a)"

lemma quiet_inv: "idle a \<or> busy a \<Longrightarrow> quiet_script (ap_script a) \<Longrightarrow> app_inv a"
  by (simp add: app_inv_def quiet_script_def)

lemma busyI: "m_mutex a = 0 \<Longrightarrow> m_thread a = Some t \<Longrightarrow> ap_threads a = [t \<mapsto> th] \<Longrightarrow> th_phase th \<noteq> Created \<Longrightarrow> busy a"
  unfolding busy_def by blast

lemma idle_not_busy: "idle a \<Longrightarrow> \<not> busy a"
  by (simp add: idle_def busy_def)

lemma idle_quiet: "app_inv a \<Longrightarrow> idle a \<Longrightarrow> quiet_script (ap_script a)"
  by (auto simp: app_inv_def quiet_script_def output_held_def dest: idle_not_busy)

text \<open>The invariant depends on the threads, the semaphores and the pending exception.\<close>

lemma inv_same:
  assumes "app_inv a" "m_mutex b = m_mutex a" "ap_threads b = ap_threads a" "m_thread b = m_thread a"
    "ps_stream (ap_script b) = ps_stream (ap_script a)" "ps_thrown (ap_script b) = ps_thrown (ap_script a)"
  shows "app_inv b"
proof -
  have "idle b = idle a" "busy b = busy a" "output_held b = output_held a"
    using assms(2-5) by (simp_all add: idle_def busy_def output_held_def)
  then show ?thesis using assms by (simp add: app_inv_def)
qed

lemma IsRunning_simps [simp]:
  "snd (IsRunning a) = a" "running a \<longleftrightarrow> m_mutex a = 0" "IsRunning a = (m_mutex a = 0, a)" if "m_mutex a \<le> 1"
proof -
  have "m_mutex a = 0 \<or> m_mutex a = 1" using that by linarith
  then show "IsRunning a = (m_mutex a = 0, a)"
    by (auto simp: IsRunning_def sem_try_wait_def sem_post_def)
  then show "snd (IsRunning a) = a" "running a \<longleftrightarrow> m_mutex a = 0" by simp_all
qed

lemma inv_mutex: "app_inv a \<Longrightarrow> m_mutex a \<le> 1"
  by (auto simp: app_inv_def idle_def busy_def)

text \<open>A thread that was started, and one that could not be started: that one is gone again, but the
  event is posted.\<close>

abbreviation started_thread :: "script \<Rightarrow> pgsThread" where
  "started_thread d \<equiv> \<lparr>th_data = d, th_phase = Running, th_cancelled = False, th_last_error_line = - 1\<rparr>"

lemma start_idle:
  assumes "idle a"
  defines "b \<equiv> a\<lparr>m_last_error_line := - 1, m_mutex := 0, ap_next := Suc (ap_next a), m_thread := Some (ap_next a)\<rparr>"
  shows "start_script True d a =
      Some (True, b\<lparr>ap_threads := [ap_next a \<mapsto> started_thread d]\<rparr>)"
    "start_script False d a = Some (False, b\<lparr>m_thread := None, m_mutex := 1,
       ap_events := ap_events a @ (case m_caller a of Some c \<Rightarrow> [(c, m_event_id a)] | None \<Rightarrow> [])\<rparr>)"
proof -
  have m: "m_mutex a = 1" "ap_threads a = (\<lambda>t. None)" using assms(1) by (auto simp: idle_def)
  show "start_script True d a =
      Some (True, b\<lparr>ap_threads := [ap_next a \<mapsto> started_thread d]\<rparr>)"
    by (simp add: start_script_def m new_thread_def sem_try_wait_def RunThread_def b_def)
  show "start_script False d a = Some (False, b\<lparr>m_thread := None, m_mutex := 1,
       ap_events := ap_events a @ (case m_caller a of Some c \<Rightarrow> [(c, m_event_id a)] | None \<Rightarrow> [])\<rparr>)"
    using m by (cases "m_caller a") (auto intro!: pgsApplication.equality simp: start_script_def new_thread_def
        sem_try_wait_def RunThread_def b_def Complete_def thread_post_def sem_post_def)
qed

lemma start_busy: "busy a \<Longrightarrow> start_script started d a = Some (False, a)"
  by (auto simp: start_script_def busy_def)

lemma start_keeps: "app_inv a \<Longrightarrow> \<exists>r b. start_script started d a = Some (r, b) \<and> app_inv b"
proof (cases "idle a")
  case True
  assume "app_inv a"
  then show ?thesis using True start_idle[OF True, of d] idle_quiet[of a]
    by (cases started) (auto simp: idle_def intro!: quiet_inv intro: busyI)
next
  case False
  assume "app_inv a"
  then show ?thesis using False start_busy[of a] by (auto simp: app_inv_def)
qed

lemma clear_keeps: "app_inv a \<Longrightarrow> app_inv (ClearSymbols a)"
  using inv_mutex[of a] inv_same[of a] by (simp add: ClearSymbols_def)

lemma connection_keeps: "app_inv a \<Longrightarrow> app_inv (SetConnection c a)"
  by (cases "m_defined_conn a") (auto simp: SetConnection_def intro: inv_same)

text \<open>A script gives the semaphore of the output back and leaves no exception pending.\<close>

lemma program_returned:
  assumes "quiet_script s" "program_eval env ls s = Some (r, t)"
  shows "quiet_script t \<and> r = Inr ()"
proof (cases "unreported env (pgsStmtList ls) s")
  case None
  then show ?thesis using program_outcome[of s env ls] assms
    by (simp add: quiet_script_def del: unreported.simps lines_of.simps)
next
  case (Some y)
  obtain q u where y: "y = (q, u)" by (cases y)
  then have "quiet (ps_error_line s) (ps_out s) u" "ended_as (lines_of (pgsStmtList ls)) q u t" "r = Inr ()"
    using program_outcome[of s env ls] assms Some
    by (auto simp: quiet_script_def simp del: unreported.simps lines_of.simps)
  then show ?thesis by (auto simp: quiet_script_def quiet_def ended_as_def split: sum.splits if_splits)
qed

lemma driver_error_run:
  "ps_stream s = 1 \<Longrightarrow> driver_error line loc m s =
    Some (Inr (), s\<lparr>ps_error_line := line, ps_out := ps_out s @ PGSOUTERROR @ loc @ '': '' @ m @ [newline_char], ps_stream := 1\<rparr>)"
  by (simp add: driver_error_def bind_prog_def modifies_def lock_output_def unlock_output_def emit_def)

lemma parse_string_returned:
  "quiet_script s \<Longrightarrow> parse_string E env input s = Some (r, t) \<Longrightarrow> quiet_script t"
proof (cases "ae_parse E input")
  case (Program ls)
  assume s: "quiet_script s" and "parse_string E env input s = Some (r, t)"
  then obtain q where "program_eval env ls s = Some (q, t)"
    using Program program_returned[OF s]
    by (auto simp: parse_string_def bind_prog_def ret_def split: Option.bind_splits sum.splits)
  then show "quiet_script t" using program_returned[OF s] by blast
next
  case (Syntax_error line loc m)
  assume "quiet_script s" "parse_string E env input s = Some (r, t)"
  then show "quiet_script t"
    using Syntax_error by (auto simp: parse_string_def bind_prog_def ret_def driver_error_run quiet_script_def)
qed

lemma entry_returned: "quiet_script s \<Longrightarrow> thread_entry E env d s = Some (r, t) \<Longrightarrow> quiet_script t"
  by (auto simp: thread_entry_def parse_file_def ret_def parse_string_returned split: script.splits option.splits)

lemma run_keeps:
  assumes "app_inv a" "ap_threads a t = Some th" "run_script E t th a = Some b" "ps_stream (ap_script a) = 1"
  shows "app_inv b"
proof -
  have b: "busy a" "m_thread a = Some t" "ap_threads a = [t \<mapsto> th]"
    using assms(1,2) by (auto simp: app_inv_def idle_def busy_def split: if_splits)
  obtain r u where u: "thread_entry E (ae_pgs E t (th_cancelled th)) (th_data th)
      ((ap_script a)\<lparr>ps_error_line := th_last_error_line th\<rparr>) = Some (r, u)"
    "b = a\<lparr>ap_script := u, ap_threads := (ap_threads a)(t \<mapsto>
      th\<lparr>th_phase := Finishing, th_last_error_line := ps_error_line u\<rparr>)\<rparr>"
    using assms(3) by (auto simp: run_script_def)
  have "quiet_script u" by (rule entry_returned[OF _ u(1)]) (use assms(1,4) in \<open>simp add: app_inv_def quiet_script_def\<close>)
  moreover have "busy b" by (rule busyI) (use b in \<open>auto simp: u(2) busy_def\<close>)
  ultimately show ?thesis by (intro quiet_inv) (simp_all add: u(2))
qed

lemma complete_busy:
  assumes "app_inv a" "ap_threads a t = Some th"
  shows "Complete a = Some (a\<lparr>m_last_error_line := th_last_error_line th,
    ap_events := ap_events a @ (case m_caller a of Some c \<Rightarrow> [(c, m_event_id a)] | None \<Rightarrow> [])\<rparr>)"
    "m_thread a = Some t" "m_mutex a = 0" "ap_threads a = [t \<mapsto> th]"
  using assms by (auto simp: app_inv_def idle_def busy_def Complete_def split: if_splits)

lemma write_waits: "writeScriptOutput w = None \<longleftrightarrow> ps_stream (ap_script (fq_app w)) = 0"
  by (simp add: writeScriptOutput_def Let_def sem_try_wait_def)

lemma write_keeps: "app_inv (fq_app w) \<Longrightarrow> writeScriptOutput w = Some v \<Longrightarrow> app_inv (fq_app v)"
  by (rule inv_same[of "fq_app w"])
    (auto simp: writeScriptOutput_def Let_def app_inv_def output_held_def sem_try_wait_def sem_post_def split: if_splits)

lemma write_goes: "ps_stream (ap_script (fq_app w)) = 1 \<Longrightarrow> \<exists>v. writeScriptOutput w = Some v"
  using write_waits[of w] by auto

lemma write_effect: "writeScriptOutput w = Some v \<Longrightarrow> ap_threads (fq_app v) = ap_threads (fq_app w)
    \<and> ap_events (fq_app v) = ap_events (fq_app w) \<and> ms_pgScriptRunning v = ms_pgScriptRunning w
    \<and> m_mutex (fq_app v) = m_mutex (fq_app w)"
  by (auto simp: writeScriptOutput_def Let_def)

lemma execute_keeps: "app_inv (fq_app w) \<Longrightarrow> \<exists>v. OnExecScript started q w = Some v \<and> app_inv (fq_app v)"
proof (cases "ms_pgScriptRunning w")
  case False
  assume "app_inv (fq_app w)"
  then obtain r b where "ParseString started (q @ [newline_char]) (ClearSymbols (fq_app w)) = Some (r, b)" "app_inv b"
    using start_keeps[OF clear_keeps] unfolding ParseString_def by blast
  then show ?thesis using False by (simp add: OnExecScript_def)
qed (simp add: OnExecScript_def)

lemma gui_step_keeps: "gui_step E w v \<Longrightarrow> app_inv (fq_app w) \<Longrightarrow> app_inv (fq_app v)"
proof (induction rule: gui_step.induct)
  case (execute w started query v)
  then show ?case using execute_keeps[of w started query] by auto
next
  case (completed w v)
  obtain ev evs where e: "ap_events (fq_app w) = ev # evs"
    using completed(2) by (cases "ap_events (fq_app w)") (auto simp: OnScriptComplete_def)
  let ?w = "w\<lparr>fq_app := (fq_app w)\<lparr>ap_events := evs\<rparr>\<rparr>"
  have "app_inv (fq_app ?w)" using completed(3) by (rule inv_same) simp_all
  moreover obtain u where "writeScriptOutput ?w = Some u" "v = u\<lparr>ms_pgScriptRunning := False\<rparr>"
    using completed(2) e by (auto simp: OnScriptComplete_def)
  ultimately show ?case using write_keeps[of ?w u] by simp
next
  case (poll_output w v)
  then show ?case using write_keeps[of w v] by simp
next
  case (connect w c)
  then show ?case by (simp add: connection_keeps)
next
  case (cancel w)
  then show ?case by (simp add: Terminate_test_def)
next
  case (cancel_thread w)
  show ?case
  proof (cases "idle (fq_app w)")
    case True
    then have "ap_threads (fq_app w) = (\<lambda>t. None)" by (simp add: idle_def fun_eq_iff)
    then have "fq_app (Terminate_delete w) = fq_app w"
      by (simp add: Terminate_delete_def Let_def split: option.split Option.bind_split)
    then show ?thesis using cancel_thread(2) by simp
  next
    case False
    then have w: "busy (fq_app w)" using cancel_thread(2) by (simp add: app_inv_def)
    then obtain t th where b: "m_mutex (fq_app w) = 0" "m_thread (fq_app w) = Some t"
      "ap_threads (fq_app w) = [t \<mapsto> th]" "th_phase th \<noteq> Created"
      by (auto simp: busy_def)
    have busy: "busy (fq_app (Terminate_delete w))"
      unfolding busy_def by (intro conjI exI[of _ t] exI[of _ "th\<lparr>th_cancelled := True\<rparr>"])
        (simp_all add: Terminate_delete_def b)
    have same: "ap_script (fq_app (Terminate_delete w)) = ap_script (fq_app w)"
      "ap_threads (fq_app (Terminate_delete w)) = [t \<mapsto> th\<lparr>th_cancelled := True\<rparr>]"
      by (simp_all add: Terminate_delete_def b)
    have "output_held (fq_app w) \<Longrightarrow> output_held (fq_app (Terminate_delete w))"
      using busy same by (auto simp: output_held_def b(3) split: if_splits)
    then show ?thesis using cancel_thread(2) busy same(1) by (auto simp: app_inv_def)
  qed
next
  case (script_takes_output w t th m)
  note b = complete_busy[OF script_takes_output(4,1)]
  have "busy (fq_app (with_stream m w))"
    using script_takes_output(2) b by (auto simp: busy_def with_stream_def)
  moreover have "m = 0"
    using script_takes_output(3,4) by (auto simp: sem_try_wait_def app_inv_def output_held_def split: if_splits)
  ultimately show ?case using script_takes_output(2,4) b(4)
    by (auto simp: app_inv_def output_held_def with_stream_def split: if_splits)
next
  case (script_gives_output w t th)
  note b = complete_busy[OF script_gives_output(4,1)]
  have "busy (fq_app (with_stream (sem_post 0) w))"
    using script_gives_output(2) b by (auto simp: busy_def with_stream_def)
  then show ?case using script_gives_output(4) by (simp add: app_inv_def with_stream_def sem_post_def)
next
  case (thread_runs w t th a)
  then show ?case using run_keeps by simp
next
  case (thread_completes w t th a)
  note b = complete_busy[OF thread_completes(4,1)]
  let ?v = "w\<lparr>fq_app := a\<lparr>ap_threads := (ap_threads a)(t \<mapsto> th\<lparr>th_phase := Completed\<rparr>)\<rparr>\<rparr>"
  have "busy (fq_app ?v)"
    unfolding busy_def by (intro conjI exI[of _ t] exI[of _ "th\<lparr>th_phase := Completed\<rparr>"])
      (use b thread_completes(3) in auto)
  moreover have "ap_script a = ap_script (fq_app w)" using b(1) thread_completes(3) by auto
  moreover have "\<not> output_held (fq_app w)" using thread_completes(1,2) by (auto simp: output_held_def)
  ultimately show ?case using thread_completes(4) by (simp add: app_inv_def)
next
  case (thread_ends w t th)
  have "\<not> output_held (fq_app w)" using thread_ends(1,2) by (auto simp: output_held_def)
  then show ?case using complete_busy(3,4)[OF thread_ends(3,1)] thread_ends(3)
    by (auto simp: thread_post_def app_inv_def idle_def sem_post_def)
qed

lemma gui_start_inv: "gui_start w \<Longrightarrow> app_inv (fq_app w)"
  by (auto simp: gui_start_def SetCaller_def new_application_def idle_def quiet_script_def intro!: quiet_inv)

interpretation gui: inductive_invariant "gui_step E" "\<lambda>w. app_inv (fq_app w)" gui_start for E
  by unfold_locales (auto intro: gui_step_keeps gui_start_inv)

text \<open>C3. In every state the two threads can reach there is at most one script thread, the
  semaphore says whether there is one, and \<open>m_thread\<close> is that one: so \<open>Complete\<close> and the destructor
  never read a deleted thread, starting a script never blocks, and while a script runs the
  symbols are not cleared and no other script is started. The one call of the window that can block is
  that for the output, exactly while the semaphore of the output is taken, and then it is a running script
  that has it.\<close>

theorem one_script:
  assumes "gui_start w" "(gui_step E)\<^sup>*\<^sup>* w v"
  shows "(\<forall>t u. ap_threads (fq_app v) t \<noteq> None \<and> ap_threads (fq_app v) u \<noteq> None \<longrightarrow> t = u)
    \<and> (running (fq_app v) \<longleftrightarrow> (\<exists>t. ap_threads (fq_app v) t \<noteq> None))
    \<and> (running (fq_app v) \<longrightarrow> Complete (fq_app v) \<noteq> None \<and> ClearSymbols (fq_app v) = fq_app v
        \<and> ParseString started q (fq_app v) = Some (False, fq_app v))
    \<and> OnExecScript started q v \<noteq> None
    \<and> (writeScriptOutput v = None \<longleftrightarrow> ps_stream (ap_script (fq_app v)) = 0)
    \<and> (writeScriptOutput v = None \<longrightarrow> (\<exists>t th. ap_threads (fq_app v) t = Some th \<and> th_phase th = Running))"
proof -
  have i: "app_inv (fq_app v)" by (rule gui.reached[OF assms])
  have "running (fq_app v) \<longleftrightarrow> (\<exists>t. ap_threads (fq_app v) t \<noteq> None)"
    "\<forall>t u. ap_threads (fq_app v) t \<noteq> None \<and> ap_threads (fq_app v) u \<noteq> None \<longrightarrow> t = u"
    using i inv_mutex[OF i] by (auto simp: app_inv_def idle_def busy_def split: if_splits)
  moreover have "Complete (fq_app v) \<noteq> None \<and> ClearSymbols (fq_app v) = fq_app v
      \<and> ParseString started q (fq_app v) = Some (False, fq_app v)" if "running (fq_app v)"
  proof -
    have b: "busy (fq_app v)" using i that inv_mutex[OF i] by (auto simp: app_inv_def idle_def)
    then obtain t th where "ap_threads (fq_app v) = [t \<mapsto> th]" unfolding busy_def by blast
    then have "ap_threads (fq_app v) t = Some th" by simp
    then show ?thesis using complete_busy(1)[OF i] start_busy[OF b] b
      by (auto simp: ParseString_def ClearSymbols_def busy_def)
  qed
  moreover have "OnExecScript started q v \<noteq> None" using execute_keeps[OF i] by fastforce
  moreover have "\<exists>t th. ap_threads (fq_app v) t = Some th \<and> th_phase th = Running" if "writeScriptOutput v = None"
    using that i by (fastforce simp: write_waits app_inv_def output_held_def busy_def)
  ultimately show ?thesis using write_waits by blast
qed

definition demo_env :: app_env where
  "demo_env = \<lparr>ae_read = (\<lambda>f. None), ae_parse = (\<lambda>s. Program []), ae_pgs = (\<lambda>t c. idle_env)\<rparr>"

definition demo_window :: frmQuery where
  "demo_window = \<lparr>fq_app = SetCaller 1 7 (new_application 1 False 0 0 (with_vars (\<lambda>n. None))),
     ms_pgScriptRunning = False, fq_result = [], fq_cancelling = False, fq_dangling = False\<rparr>"

lemma demo_start: "gui_start demo_window"
  unfolding gui_start_def demo_window_def
  by (intro exI[of _ 1] exI[of _ 0] exI[of _ "1::nat"] exI[of _ 7] exI[of _ "with_vars (\<lambda>n. None)"])
    (simp add: with_vars_def state_with_def)

theorem one_script_witness:
  "\<forall>started q. OnExecScript started q demo_window \<noteq> None"
  using one_script[OF demo_start rtranclp.rtrancl_refl[of "gui_step demo_env"]] by blast

section \<open>What a script leaves\<close>

text \<open>From \<open>ParseString\<close> to the last step of the thread, without other steps in between.\<close>

definition script_life :: "app_env \<Rightarrow> pgsApplication \<Rightarrow> script \<Rightarrow> pgsApplication option" where
  "script_life E a d =
     Option.bind (start_script True d a) (\<lambda>(r, b). Option.bind (m_thread b) (\<lambda>t. Option.bind (ap_threads b t) (\<lambda>th.
       Option.bind (run_script E t th b) (\<lambda>c. map_option (thread_post t) (Complete c)))))"

lemma life_idle:
  assumes a: "idle a"
    and run: "thread_entry E (ae_pgs E (ap_next a) False) d ((ap_script a)\<lparr>ps_error_line := - 1\<rparr>) = Some (r, u)"
  shows "\<exists>z. script_life E a d = Some z \<and> idle z \<and> ap_script z = u \<and> errorLine z = ps_error_line u
    \<and> ap_events z = ap_events a @ (case m_caller a of Some c \<Rightarrow> [(c, m_event_id a)] | None \<Rightarrow> [])"
  using run
  by (simp add: script_life_def start_idle(1)[OF a] run_script_def Complete_def thread_post_def sem_post_def
      idle_def errorLine_def split: option.split)

definition left_idle :: "pgsApplication \<Rightarrow> pgsApplication \<Rightarrow> bool" where
  "left_idle a z \<longleftrightarrow> idle z
     \<and> ap_events z = ap_events a @ (case m_caller a of Some c \<Rightarrow> [(c, m_event_id a)] | None \<Rightarrow> [])"

text \<open>C4. A script that is parsed leaves the variables, the output and all else that its statements leave, as
  they are evaluated without reports (\<open>unreported\<close>), posts one event and gives the semaphore back.
  If its statements end with an error, one report of it is added at the end of the output, and \<open>errorLine\<close>
  is the line in it, that of a statement; otherwise nothing is added and \<open>errorOccurred\<close> is false. The script
  runs for ever only where its statements do. A script with a syntax error is not run at all: only the
  report is written and its line kept.\<close>

theorem script_outcome:
  assumes "idle a" "quiet_script (ap_script a)"
  shows "case ae_parse E input of
      Syntax_error line loc m \<Rightarrow> \<exists>z. script_life E a (Script_string input) = Some z \<and> left_idle a z
        \<and> errorLine z = line \<and> ap_script z = (ap_script a)\<lparr>ps_error_line := line,
            ps_out := ps_out (ap_script a) @ PGSOUTERROR @ loc @ '': '' @ m @ [newline_char]\<rparr>
    | Program ls \<Rightarrow>
        (case unreported (ae_pgs E (ap_next a) False) (pgsStmtList ls) ((ap_script a)\<lparr>ps_error_line := - 1\<rparr>) of
           None \<Rightarrow> script_life E a (Script_string input) = None
         | Some (q, u) \<Rightarrow> \<exists>z. script_life E a (Script_string input) = Some z \<and> left_idle a z
             \<and> (case q of
                  Inl e \<Rightarrow>
                    if is_error e
                    then \<exists>line\<in>lines_of (pgsStmtList ls). errorLine z = line
                       \<and> ap_script z = u\<lparr>ps_error_line := line, ps_out := ps_out u @ error_text e line\<rparr>
                    else \<not> errorOccurred z \<and> ap_script z = u
                | Inr _ \<Rightarrow> \<not> errorOccurred z \<and> ap_script z = u))"
proof (cases "ae_parse E input")
  case (Syntax_error line loc m)
  let ?s = "(ap_script a)\<lparr>ps_error_line := - 1\<rparr>"
  define u where "u = ?s\<lparr>ps_error_line := line,
      ps_out := ps_out ?s @ PGSOUTERROR @ loc @ '': '' @ m @ [newline_char], ps_stream := 1\<rparr>"
  have s: "ps_stream ?s = 1" using assms(2) by (simp add: quiet_script_def)
  then have d: "driver_error line loc m ?s = Some (Inr (), u)" unfolding u_def by (rule driver_error_run)
  have "thread_entry E (ae_pgs E (ap_next a) False) (Script_string input) ?s = Some (Inr False, u)"
    by (simp add: thread_entry_def parse_string_def Syntax_error bind_prog_def d ret_apply)
  from life_idle[OF assms(1) this] show ?thesis using Syntax_error s by (auto simp: u_def left_idle_def)
next
  case (Program ls)
  let ?s = "(ap_script a)\<lparr>ps_error_line := - 1\<rparr>" and ?env = "ae_pgs E (ap_next a) False"
  have s: "ps_stream ?s = 1" "\<not> ps_thrown ?s" using assms(2) by (simp_all add: quiet_script_def)
  have run: "program_eval ?env ls ?s = None \<Longrightarrow> thread_entry E ?env (Script_string input) ?s = None"
    "program_eval ?env ls ?s = Some (Inr (), t) \<Longrightarrow> thread_entry E ?env (Script_string input) ?s = Some (Inr True, t)" for t
    by (simp_all add: thread_entry_def parse_string_def Program run_simps)
  show ?thesis
  proof (cases "unreported ?env (pgsStmtList ls) ?s")
    case None
    then have "program_eval ?env ls ?s = None"
      using program_outcome[OF s, of ?env ls] by (simp del: unreported.simps lines_of.simps)
    then have "script_life E a (Script_string input) = None"
      using run(1) by (simp add: script_life_def start_idle(1)[OF assms(1)] run_script_def)
    then show ?thesis using None Program by (simp del: unreported.simps lines_of.simps)
  next
    case (Some y)
    obtain q u where y: "y = (q, u)" by (cases y)
    then obtain t where t: "quiet (- 1) (ps_out ?s) u" "program_eval ?env ls ?s = Some (Inr (), t)"
      "ended_as (lines_of (pgsStmtList ls)) q u t"
      using program_outcome[OF s, of ?env ls] Some by (auto simp del: unreported.simps lines_of.simps)
    have "thread_entry E ?env (Script_string input) ?s = Some (Inr True, t)" by (rule run(2)[OF t(2)])
    from life_idle[OF assms(1) this] obtain z where z: "script_life E a (Script_string input) = Some z"
      "left_idle a z" "ap_script z = t" "errorLine z = ps_error_line t" by (auto simp: left_idle_def)
    have l: "ps_error_line u = - 1" using t(1) by (simp add: quiet_def)
    have "case q of
        Inl e \<Rightarrow> if is_error e
          then \<exists>line\<in>lines_of (pgsStmtList ls). errorLine z = line
             \<and> ap_script z = u\<lparr>ps_error_line := line, ps_out := ps_out u @ error_text e line\<rparr>
          else \<not> errorOccurred z \<and> ap_script z = u
      | Inr _ \<Rightarrow> \<not> errorOccurred z \<and> ap_script z = u"
      using t(3) l z(3,4) unfolding ended_as_def errorOccurred_def errorLine_def
      by (cases q) (auto split: if_splits simp del: lines_of.simps)
    then show ?thesis using z(1,2) unfolding Some y Program option.case prod.case parsed.case by blast
  qed
qed

lemma demo_idle: "idle (fq_app demo_window)" "quiet_script (ap_script (fq_app demo_window))"
  by (simp_all add: demo_window_def SetCaller_def new_application_def idle_def quiet_script_def with_vars_def state_with_def)

theorem script_outcome_witness:
  "\<exists>z. script_life (demo_env\<lparr>ae_parse := (\<lambda>s. Syntax_error 3 ''3.5'' ''syntax error'')\<rparr>) (fq_app demo_window)
      (Script_string ''PRIN 1'') = Some z \<and> errorLine z = 3"
  using script_outcome[OF demo_idle, of "demo_env\<lparr>ae_parse := (\<lambda>s. Syntax_error 3 ''3.5'' ''syntax error'')\<rparr>" "''PRIN 1''"]
  by auto

lemma start_window:
  assumes "idle (fq_app w)" "\<not> ms_pgScriptRunning w" "quiet_script (ap_script (fq_app w))"
  obtains v where "OnExecScript True q w = Some v"
    "ap_threads (fq_app v) (ap_next (fq_app w)) = Some (started_thread (Script_string (q @ [newline_char])))"
    "ms_pgScriptRunning v" "fq_cancelling v = fq_cancelling w" "ap_events (fq_app v) = ap_events (fq_app w)"
    "m_caller (fq_app v) = m_caller (fq_app w)" "app_inv (fq_app v)"
    "ap_script (fq_app v) = (ap_script (fq_app w))\<lparr>ps_vars := (\<lambda>n. None)\<rparr>"
proof -
  let ?a = "ClearSymbols (fq_app w)"
  have i: "app_inv (fq_app w)" using assms quiet_inv by blast
  have a: "idle ?a" "ap_next ?a = ap_next (fq_app w)" "ap_events ?a = ap_events (fq_app w)"
    "m_caller ?a = m_caller (fq_app w)" "ap_script ?a = (ap_script (fq_app w))\<lparr>ps_vars := (\<lambda>n. None)\<rparr>"
    using inv_mutex[OF i] assms(1) by (auto simp: ClearSymbols_def idle_def)
  let ?d = "Script_string (q @ [newline_char])"
  obtain v where v: "OnExecScript True q w = Some v" "app_inv (fq_app v)" using execute_keeps[OF i] by blast
  then have "v = w\<lparr>ms_pgScriptRunning := True, fq_app := ?a\<lparr>m_last_error_line := - 1, m_mutex := 0,
      ap_next := Suc (ap_next ?a), m_thread := Some (ap_next ?a), ap_threads := [ap_next ?a \<mapsto> started_thread ?d]\<rparr>\<rparr>"
    using assms(2) start_idle(1)[OF a(1), of ?d] by (simp add: OnExecScript_def ParseString_def)
  then show ?thesis using that[of v] v a by simp
qed

section \<open>A cancelled script\<close>






section \<open>The event and the semaphore\<close>

text \<open>A window that believes in a script that is not there: no thread, no event on its way.\<close>

definition stuck :: "frmQuery \<Rightarrow> bool" where
  "stuck w \<longleftrightarrow> ms_pgScriptRunning w \<and> idle (fq_app w) \<and> ap_events (fq_app w) = []"

lemma stuck_keeps: "gui_step E w v \<Longrightarrow> stuck w \<Longrightarrow> stuck v"
proof (induction rule: gui_step.induct)
  case (execute w started query v)
  then show ?case by (simp add: OnExecScript_def stuck_def)
next
  case (completed w v)
  then show ?case by (simp add: OnScriptComplete_def stuck_def)
next
  case (poll_output w v)
  then show ?case using write_effect[OF poll_output(2)] by (simp add: stuck_def idle_def)
next
  case (connect w c)
  then show ?case by (simp add: stuck_def idle_def SetConnection_def Let_def)
next
  case (cancel w)
  then show ?case by (simp add: stuck_def Terminate_test_def)
next
  case (cancel_thread w)
  then show ?case
    by (auto simp: stuck_def idle_def Terminate_delete_def Let_def split: option.split Option.bind_split)
qed (simp_all add: stuck_def idle_def)

interpretation stuck: closed_under "gui_step E" stuck for E
  by unfold_locales (rule stuck_keeps)

text \<open>\<open>Complete\<close> posts the event before the semaphore is given back. If the window handles the event and
  its user starts the next script in between, \<open>ParseString\<close> refuses it, which \<open>OnExecScript\<close> does not
  look at: no event will come.\<close>

lemma stuck_reachable:
  assumes w: "idle (fq_app w)" "\<not> ms_pgScriptRunning w" "quiet_script (ap_script (fq_app w))" "\<not> fq_cancelling w"
    "ap_events (fq_app w) = []" "m_caller (fq_app w) = Some c"
    and E: "\<And>s. ae_parse E s = Program []"
  shows "\<exists>v. (gui_step E)\<^sup>*\<^sup>* w v \<and> stuck v"
proof -
  obtain w1 t th where w1: "gui_step E w w1" "ap_threads (fq_app w1) t = Some th"
    "th_phase th = Running" "th_data th = Script_string [newline_char]" "ms_pgScriptRunning w1" "\<not> fq_cancelling w1"
    "ap_events (fq_app w1) = []" "m_caller (fq_app w1) = Some c" "app_inv (fq_app w1)"
    "ps_stream (ap_script (fq_app w1)) = 1"
  proof (rule start_window[OF w(1-3), of "[]"])
    fix v
    assume v: "OnExecScript True [] w = Some v"
      "ap_threads (fq_app v) (ap_next (fq_app w)) = Some (started_thread (Script_string ([] @ [newline_char])))"
      "ms_pgScriptRunning v" "fq_cancelling v = fq_cancelling w" "ap_events (fq_app v) = ap_events (fq_app w)"
      "m_caller (fq_app v) = m_caller (fq_app w)" "app_inv (fq_app v)"
      "ap_script (fq_app v) = (ap_script (fq_app w))\<lparr>ps_vars := (\<lambda>n. None)\<rparr>"
    show thesis by (rule that[OF gui_step.execute[OF w(4) v(1)] v(2)]) (use v w in \<open>simp_all add: quiet_script_def\<close>)
  qed
  define s where "s = (ap_script (fq_app w1))\<lparr>ps_error_line := th_last_error_line th\<rparr>"
  have "program_eval env [] s = Some (Inr (), s\<lparr>ps_thrown := False\<rparr>)" for env
    by (simp add: program_eval_def bind_prog_def try_catch_def ret_def modifies_def)
  then have run: "thread_entry E env (th_data th) s = Some (Inr True, s\<lparr>ps_thrown := False\<rparr>)" for env
    by (simp add: thread_entry_def w1(4) parse_string_def E bind_prog_def ret_apply)
  define th2 where "th2 = th\<lparr>th_phase := Finishing, th_last_error_line := ps_error_line s\<rparr>"
  define w2 where "w2 = w1\<lparr>fq_app := (fq_app w1)\<lparr>ap_script := s\<lparr>ps_thrown := False\<rparr>,
    ap_threads := (ap_threads (fq_app w1))(t \<mapsto> th2)\<rparr>\<rparr>"
  have 2: "gui_step E w1 w2"
    unfolding w2_def by (rule gui_step.thread_runs[OF w1(2,3,10)]) (simp add: run_script_def run th2_def flip: s_def)
  have i2: "app_inv (fq_app w2)" by (rule gui_step_keeps[OF 2 w1(9)])
  have t2: "ap_threads (fq_app w2) t = Some th2" "th_phase th2 = Finishing" by (simp_all add: w2_def th2_def)
  note c2 = complete_busy[OF i2 t2(1)]
  define a3 where "a3 = (fq_app w2)\<lparr>m_last_error_line := th_last_error_line th2,
    ap_events := ap_events (fq_app w2) @ (case m_caller (fq_app w2) of Some c \<Rightarrow> [(c, m_event_id (fq_app w2))] | None \<Rightarrow> [])\<rparr>"
  define w3 where "w3 = w2\<lparr>fq_app := a3\<lparr>ap_threads := (ap_threads a3)(t \<mapsto> th2\<lparr>th_phase := Completed\<rparr>)\<rparr>\<rparr>"
  have 3: "gui_step E w2 w3" unfolding w3_def
    by (rule gui_step.thread_completes[OF t2 c2(1)[folded a3_def]])
  have i3: "app_inv (fq_app w3)" by (rule gui_step_keeps[OF 3 i2])
  have e3: "\<exists>ev. ap_events (fq_app w3) = [ev]" using w1(7,8) by (simp add: w3_def a3_def w2_def)
  have t3: "ap_threads (fq_app w3) t = Some (th2\<lparr>th_phase := Completed\<rparr>)" "\<not> fq_cancelling w3"
    using w1(6) by (simp_all add: w3_def w2_def)
  obtain ev where ev: "ap_events (fq_app w3) = [ev]" using e3 by blast
  let ?w3 = "w3\<lparr>fq_app := (fq_app w3)\<lparr>ap_events := []\<rparr>\<rparr>"
  have "ps_stream (ap_script (fq_app ?w3)) = 1" using w1(10) by (simp add: w3_def a3_def w2_def s_def)
  then obtain u where u: "writeScriptOutput ?w3 = Some u" using write_goes by blast
  define w4 where "w4 = u\<lparr>ms_pgScriptRunning := False\<rparr>"
  have "OnScriptComplete w3 = Some w4" by (simp add: OnScriptComplete_def ev u w4_def)
  then have 4: "gui_step E w3 w4" by (rule gui_step.completed[OF t3(2)])
  have i4: "app_inv (fq_app w4)" by (rule gui_step_keeps[OF 4 i3])
  have w4: "ap_threads (fq_app w4) t = Some (th2\<lparr>th_phase := Completed\<rparr>)" "ap_events (fq_app w4) = []"
    "\<not> fq_cancelling w4" "\<not> ms_pgScriptRunning w4"
    using write_effect[OF u] t3 u by (auto simp: w4_def writeScriptOutput_def Let_def)
  note b4 = complete_busy[OF i4 w4(1)]
  have busy4: "busy (fq_app w4)" 
    unfolding busy_def by (intro conjI exI[of _ t] exI[of _ "th2\<lparr>th_phase := Completed\<rparr>"]) (simp_all add: b4)
  define w5 where "w5 = w4\<lparr>ms_pgScriptRunning := True\<rparr>"
  have "ClearSymbols (fq_app w4) = fq_app w4" using b4(3) by (simp add: ClearSymbols_def)
  then have "OnExecScript True [] w4 = Some w5"
    using start_busy[OF busy4] w4(4) by (simp add: OnExecScript_def ParseString_def w5_def)
  then have 5: "gui_step E w4 w5" by (rule gui_step.execute[OF w4(3)])
  have t5: "ap_threads (fq_app w5) t = Some (th2\<lparr>th_phase := Completed\<rparr>)" using w4(1) by (simp add: w5_def)
  define w6 where "w6 = w5\<lparr>fq_app := thread_post t (fq_app w5)\<rparr>"
  have 6: "gui_step E w5 w6" unfolding w6_def by (rule gui_step.thread_ends[OF t5]) simp
  have "stuck w6" using w4(2) b4(3,4) by (simp add: stuck_def w6_def w5_def thread_post_def sem_post_def idle_def)
  moreover have "(gui_step E)\<^sup>*\<^sup>* w w6" using w1(1) 2 3 4 5 6 by (meson rtranclp.rtrancl_into_rtrancl rtranclp.rtrancl_refl)
  ultimately show ?thesis by blast
qed

text \<open>A window without a script, without an event on its way, that believes that a script runs, is
  left so by every step: from then on no script is started. The example is a window that gets there.\<close>

theorem lost_completion:
  assumes "stuck w" "(gui_step E)\<^sup>*\<^sup>* w v"
  shows "ms_pgScriptRunning v \<and> \<not> running (fq_app v) \<and> OnExecScript started q v = Some v"
proof -
  have "stuck v" by (rule stuck.stays[OF assms])
  then show ?thesis by (simp add: stuck_def idle_def OnExecScript_def)
qed

theorem lost_completion_witness:
  "\<exists>v. (gui_step demo_env)\<^sup>*\<^sup>* demo_window v \<and> (\<forall>started q. OnExecScript started q v = Some v)"
proof -
  have w: "\<not> ms_pgScriptRunning demo_window" "\<not> fq_cancelling demo_window"
    "ap_events (fq_app demo_window) = []" "m_caller (fq_app demo_window) = Some 1"
    by (simp_all add: demo_window_def SetCaller_def new_application_def)
  obtain v where v: "(gui_step demo_env)\<^sup>*\<^sup>* demo_window v" "stuck v"
    using stuck_reachable[OF demo_idle(1) w(1) demo_idle(2) w(2-4), of demo_env] by (auto simp: demo_env_def)
  show ?thesis using lost_completion[OF v(2) rtranclp.rtrancl_refl[of "gui_step demo_env"]] v(1) by blast
qed

text \<open>\<open>Terminate\<close> tests the semaphore and then uses \<open>m_thread\<close>: in between the thread may be gone.\<close>

lemma terminate_dangles:
  assumes w: "app_inv (fq_app w)" "ap_threads (fq_app w) t = Some th" "th_phase th = Completed" "\<not> fq_cancelling w"
  shows "\<exists>v. (gui_step E)\<^sup>*\<^sup>* w v \<and> fq_dangling v"
proof -
  note b = complete_busy[OF w(1,2)]
  define w1 where "w1 = w\<lparr>fq_cancelling := True\<rparr>"
  have "Terminate_test w = w1" using b(3) by (simp add: Terminate_test_def w1_def)
  then have 1: "gui_step E w w1" using gui_step.cancel[OF w(4), of E] by simp
  define w2 where "w2 = w1\<lparr>fq_app := thread_post t (fq_app w1)\<rparr>"
  have 2: "gui_step E w1 w2" unfolding w2_def by (rule gui_step.thread_ends) (use w in \<open>simp_all add: w1_def\<close>)
  have 3: "gui_step E w2 (Terminate_delete w2)" by (rule gui_step.cancel_thread) (simp add: w2_def w1_def)
  have "fq_dangling (Terminate_delete w2)"
    using b(2,4) by (simp add: Terminate_delete_def Let_def w2_def w1_def thread_post_def)
  then show ?thesis using 1 2 3 by (meson rtranclp.rtrancl_into_rtrancl rtranclp.rtrancl_refl)
qed

end
