(* ===== verification/CsvFiles.thy ===== *)
theory CsvFiles
  imports WxString
begin

text \<open>
  The tokenizers of CSV log files, \<open>utils/csvfiles.cpp\<close>: \<open>CSVLineTokenizer\<close> cuts a text into log
  records, \<open>CSVTokenizer\<close> a record into fields. Reading one past the end of a \<open>wxString\<close> gives the
  character 0. Shown: the fields of every record written with the quoting of CSV are read back, the
  lines of a text concatenate to it, and only the last one can be partial.
\<close>

section \<open>Fields\<close>

record csv =
  csv_string :: string
  csv_pos :: nat
  csv_notices :: "string list"  \<comment> \<open>what \<open>wxLogNotice\<close> is given\<close>

definition new_csv :: "string \<Rightarrow> csv" where
  "new_csv s = \<lparr>csv_string = s, csv_pos = 0, csv_notices = []\<rparr>"

definition char_at :: "string \<Rightarrow> nat \<Rightarrow> char" where
  "char_at s i = (if i < length s then s ! i else CHR 0x00)"

abbreviation dquote :: char where "dquote \<equiv> CHR 0x22"
abbreviation linefeed :: char where "linefeed \<equiv> CHR 0x0A"

text \<open>\<open>m_string.find_first_not_of(c, m_pos) != npos\<close>\<close>

definition other_than :: "char \<Rightarrow> string \<Rightarrow> nat \<Rightarrow> bool" where
  "other_than c s p = list_ex (\<lambda>d. d \<noteq> c) (drop p s)"

definition HasMoreTokens :: "csv \<Rightarrow> bool" where
  "HasMoreTokens t =
     (let s = csv_string t; p = csv_pos t in
      if 0 < length s then
        if length s \<le> p then False
        else if other_than CHR '','' s p then True
        else if char_at s p = linefeed then False
        else p = 0 \<and> s \<noteq> []
      else p = 0 \<and> s \<noteq> [])"

function skip_blanks :: "string \<Rightarrow> nat \<Rightarrow> nat" where
  "skip_blanks s p = (if p < length s \<and> s ! p = CHR '' '' then skip_blanks s (p + 1) else p)"
  by pat_completeness auto
termination
  by (relation "measure (\<lambda>(s, p). length s - p)") auto

declare skip_blanks.simps [simp del]

text \<open>The end of the token, and whether the text ends within a quotation.\<close>

function token_end :: "string \<Rightarrow> bool \<Rightarrow> bool \<Rightarrow> nat \<Rightarrow> nat \<times> bool" where
  "token_end s quoted inquote pos =
     (if pos < length s then
        let inq = (if quoted \<and> s ! pos = dquote then \<not> inquote else inquote) in
        if \<not> inq \<and> (s ! pos = CHR '','' \<or> s ! pos = linefeed \<and> pos = length s - 1) then (pos, inq)
        else token_end s quoted inq (pos + 1)
      else (pos, inquote))"
  by pat_completeness auto
termination
  by (relation "measure (\<lambda>(s, q, i, p). length s - p)") auto

declare token_end.simps [simp del]

definition substr :: "string \<Rightarrow> nat \<Rightarrow> nat \<Rightarrow> string" where
  "substr s start len = take len (drop start s)"

definition GetNextToken :: "csv \<Rightarrow> string \<times> csv" where
  "GetNextToken t =
     (if \<not> HasMoreTokens t then ([], t)
      else
        let s = csv_string t; start = skip_blanks s (csv_pos t);
            quoted = (char_at s start = dquote);
            (pos, inquote) = token_end s quoted False start;
            token = (if quoted \<and> \<not> inquote
                     then replace_all [dquote, dquote] [dquote] (substr s (start + 1) (pos - start - 2))
                     else substr s start (pos - start));
            notices = (if quoted \<and> inquote
                       then csv_notices t @ [''unterminated double quoted string: '' @ token @ [linefeed]]
                       else csv_notices t)
        in (token, t\<lparr>csv_pos := min (pos + 1) (length s), csv_notices := notices\<rparr>))"

section \<open>Lines\<close>

record csv_lines =
  cl_string :: string
  cl_pos :: nat

definition new_csv_lines :: "string \<Rightarrow> csv_lines" where
  "new_csv_lines s = \<lparr>cl_string = s, cl_pos = 0\<rparr>"

definition HasMoreLines :: "csv_lines \<Rightarrow> bool" where
  "HasMoreLines t = other_than linefeed (cl_string t) (cl_pos t)"

text \<open>The position of the line end outside quotes, if there is one.\<close>

function line_end :: "string \<Rightarrow> bool \<Rightarrow> nat \<Rightarrow> nat option" where
  "line_end s inquote pos =
     (if pos < length s then
        let inq = (if s ! pos = dquote then \<not> inquote else inquote) in
        if s ! pos = linefeed \<and> \<not> inq then Some pos else line_end s inq (pos + 1)
      else None)"
  by pat_completeness auto
termination
  by (relation "measure (\<lambda>(s, i, p). length s - p)") auto

declare line_end.simps [simp del]

text \<open>The line, whether it is partial, and the tokenizer.\<close>

definition GetNextLine :: "csv_lines \<Rightarrow> string \<times> bool \<times> csv_lines" where
  "GetNextLine t =
     (let s = cl_string t; p = cl_pos t in
      if \<not> HasMoreLines t then ([], True, t)
      else case line_end s False p of
        Some pos \<Rightarrow> (substr s p (pos - p + 1), False, t\<lparr>cl_pos := pos + 1\<rparr>)
      | None \<Rightarrow> (drop p s, True, t\<lparr>cl_pos := length s\<rparr>))"

section \<open>The rest of the text\<close>

text \<open>The scans as functions of the text that is left.\<close>

fun field_of :: "bool \<Rightarrow> bool \<Rightarrow> string \<Rightarrow> string \<times> bool" where
  "field_of quoted inquote [] = ([], inquote)"
| "field_of quoted inquote (c # cs) =
     (let inq = (if quoted \<and> c = dquote then \<not> inquote else inquote) in
      if \<not> inq \<and> (c = CHR '','' \<or> c = linefeed \<and> cs = []) then ([], inq)
      else (let (f, i) = field_of quoted inq cs in (c # f, i)))"

lemma token_end_field:
  "p \<le> length s \<Longrightarrow> token_end s quoted inquote p =
     (let (f, i) = field_of quoted inquote (drop p s) in (p + length f, i))"
proof (induction s quoted inquote p rule: token_end.induct)
  case (1 s quoted inquote pos)
  show ?case
  proof (cases "pos < length s")
    case False
    then show ?thesis using 1(2) by (simp add: token_end.simps)
  next
    case True
    have d: "drop pos s = s ! pos # drop (pos + 1) s" using True by (simp add: Cons_nth_drop_Suc)
    have e: "drop (pos + 1) s = [] \<longleftrightarrow> pos = length s - 1" using True by auto
    define inq where "inq = (if quoted \<and> s ! pos = dquote then \<not> inquote else inquote)"
    show ?thesis
    proof (cases "\<not> inq \<and> (s ! pos = CHR '','' \<or> s ! pos = linefeed \<and> pos = length s - 1)")
      case True
      then show ?thesis
        using \<open>pos < length s\<close> by (subst token_end.simps) (simp only: d field_of.simps e Let_def
            flip: inq_def, simp)
    next
      case False
      have "token_end s quoted inq (pos + 1) =
          (let (f, i) = field_of quoted inq (drop (pos + 1) s) in (pos + 1 + length f, i))"
        using 1(1)[OF \<open>pos < length s\<close> refl] False \<open>pos < length s\<close> by (simp add: inq_def)
      then show ?thesis
        using \<open>pos < length s\<close> False by (subst token_end.simps) (simp only: d field_of.simps e Let_def
            flip: inq_def, simp split: prod.split)
    qed
  qed
qed

fun line_of :: "bool \<Rightarrow> string \<Rightarrow> (string \<times> string) option" where
  "line_of inquote [] = None"
| "line_of inquote (c # cs) =
     (let inq = (if c = dquote then \<not> inquote else inquote) in
      if c = linefeed \<and> \<not> inq then Some ([c], cs)
      else map_option (\<lambda>(l, r). (c # l, r)) (line_of inq cs))"

lemma line_end_line:
  "p \<le> length s \<Longrightarrow> line_end s inquote p =
     map_option (\<lambda>(l, r). p + length l - 1) (line_of inquote (drop p s))"
proof (induction s inquote p rule: line_end.induct)
  case (1 s inquote pos)
  show ?case
  proof (cases "pos < length s")
    case False
    then show ?thesis using 1(2) by (simp add: line_end.simps)
  next
    case True
    have d: "drop pos s = s ! pos # drop (pos + 1) s" using True by (simp add: Cons_nth_drop_Suc)
    have pos: "line_of i u = Some (l, r) \<Longrightarrow> 0 < length l" for i u l r
      by (induction u arbitrary: l) (auto split: if_splits simp: Let_def)
    show ?thesis
      using 1 True by (subst line_end.simps)
        (auto simp: d Let_def option.map_comp comp_def case_prod_beta' intro!: option.map_cong dest: pos)
  qed
qed

lemma line_of_append: "line_of i u = Some (l, r) \<Longrightarrow> u = l @ r \<and> l \<noteq> []"
  by (induction u arbitrary: i l) (auto split: if_splits simp: Let_def)

text \<open>What \<open>GetNextLine\<close> does to the text that is left.\<close>

definition lines_left :: "csv_lines \<Rightarrow> string" where
  "lines_left t = drop (cl_pos t) (cl_string t)"

lemma other_than_drop: "other_than c s p \<longleftrightarrow> \<not> list_all (\<lambda>d. d = c) (drop p s)"
  by (simp add: other_than_def list_all_iff list_ex_iff)

lemma GetNextLine_left:
  assumes "cl_pos t \<le> length (cl_string t)"
  shows "fst (GetNextLine t) = (if HasMoreLines t then
        (case line_of False (lines_left t) of Some (l, r) \<Rightarrow> l | None \<Rightarrow> lines_left t) else [])"
    and "fst (snd (GetNextLine t)) \<longleftrightarrow> \<not> HasMoreLines t \<or> line_of False (lines_left t) = None"
    and "lines_left (snd (snd (GetNextLine t))) = (if HasMoreLines t then
        (case line_of False (lines_left t) of Some (l, r) \<Rightarrow> r | None \<Rightarrow> []) else lines_left t)"
    and "cl_pos (snd (snd (GetNextLine t))) \<le> length (cl_string (snd (snd (GetNextLine t))))"
    and "cl_string (snd (snd (GetNextLine t))) = cl_string t"
proof -
  note e = line_end_line[OF assms, of False, folded lines_left_def]
  have len: "length l \<le> length (cl_string t) - cl_pos t \<and> drop (cl_pos t) (cl_string t) = l @ r \<and> 0 < length l"
    if "line_of False (lines_left t) = Some (l, r)" for l r
    using line_of_append[OF that] unfolding lines_left_def by (metis length_drop length_greater_0_conv le_add1 length_append)
  have next_pos: "drop (cl_pos t + length l) (cl_string t) = r"
    if "line_of False (lines_left t) = Some (l, r)" for l r
    using len[OF that] by (metis add.commute append_eq_conv_conj drop_drop)
  show "fst (GetNextLine t) = (if HasMoreLines t then
        (case line_of False (lines_left t) of Some (l, r) \<Rightarrow> l | None \<Rightarrow> lines_left t) else [])"
    "fst (snd (GetNextLine t)) \<longleftrightarrow> \<not> HasMoreLines t \<or> line_of False (lines_left t) = None"
    "lines_left (snd (snd (GetNextLine t))) = (if HasMoreLines t then
        (case line_of False (lines_left t) of Some (l, r) \<Rightarrow> r | None \<Rightarrow> []) else lines_left t)"
    "cl_pos (snd (snd (GetNextLine t))) \<le> length (cl_string (snd (snd (GetNextLine t))))"
    "cl_string (snd (snd (GetNextLine t))) = cl_string t"
    using assms len next_pos
    by (auto simp: GetNextLine_def Let_def e lines_left_def substr_def split: option.splits)
qed

section \<open>All lines of a text\<close>

text \<open>The specification: a text is cut after each line end outside quotes.\<close>

function csv_cut :: "string \<Rightarrow> string list \<times> string" where
  "csv_cut s =
     (case line_of False s of
        None \<Rightarrow> ([], s)
      | Some (l, r) \<Rightarrow> (let (ls, u) = csv_cut r in (l # ls, u)))"
  by pat_completeness auto
termination
proof (relation "measure length")
  fix s :: string and p :: "string \<times> string" and l r
  assume "line_of False s = Some p" "(l, r) = p"
  then have "line_of False s = Some (l, r)" by simp
  then have "s = l @ r \<and> l \<noteq> []" by (rule line_of_append)
  then show "(r, s) \<in> measure length" by auto
qed simp

declare csv_cut.simps [simp del]

text \<open>The loop of the clients.\<close>

function all_lines :: "csv_lines \<Rightarrow> (string \<times> bool) list" where
  "all_lines t =
     (if cl_pos t \<le> length (cl_string t) \<and> HasMoreLines t
      then (case GetNextLine t of (l, partial, t') \<Rightarrow> (l, partial) # all_lines t') else [])"
  by pat_completeness auto
termination
proof (relation "measure (\<lambda>t. length (lines_left t))")
  fix t l p t' y
  assume t: "cl_pos t \<le> length (cl_string t) \<and> HasMoreLines t"
    and x: "(l, y) = GetNextLine t" "(p, t') = y"
  have "lines_left t \<noteq> []" using t by (auto simp: HasMoreLines_def other_than_drop lines_left_def)
  then have "length (lines_left (snd (snd (GetNextLine t)))) < length (lines_left t)"
    using GetNextLine_left(3)[of t] t by (auto split: option.splits dest!: line_of_append)
  then show "(t', t) \<in> measure (\<lambda>t. length (lines_left t))" using x by (metis in_measure snd_conv)
qed simp

declare all_lines.simps [simp del]

lemma csv_cut_text: "csv_cut s = (ls, r) \<Longrightarrow> s = concat ls @ r \<and> line_of False r = None"
proof (induction s arbitrary: ls r rule: csv_cut.induct)
  case (1 s)
  show ?case
  proof (cases "line_of False s")
    case None
    then show ?thesis using 1(2) by (simp add: csv_cut.simps[of s])
  next
    case (Some p)
    then obtain l u where l: "line_of False s = Some (l, u)" by (metis surj_pair)
    then obtain ls' where c: "csv_cut u = (ls', r)" "ls = l # ls'"
      using 1(2) by (auto simp: csv_cut.simps[of s] split: prod.splits)
    show ?thesis using 1(1)[OF l refl c(1)] line_of_append[OF l] c(2) by simp
  qed
qed

abbreviation blank_line :: string where "blank_line \<equiv> [linefeed]"

definition drop_blank :: "string list \<Rightarrow> string list" where
  "drop_blank ls = rev (dropWhile (\<lambda>l. l = blank_line) (rev ls))"

lemma drop_blank_Cons:
  "drop_blank (l # ls) = (if l = blank_line \<and> drop_blank ls = [] then [] else l # drop_blank ls)"
  by (simp add: drop_blank_def dropWhile_append)

lemma csv_cut_blank: "list_all (\<lambda>d. d = linefeed) u \<Longrightarrow> csv_cut u = (replicate (length u) blank_line, [])"
proof (induction u)
  case Nil
  show ?case by (simp add: csv_cut.simps)
next
  case (Cons c u)
  then have "line_of False (c # u) = Some (blank_line, u)" by simp
  then show ?case using Cons by (subst csv_cut.simps) simp
qed

lemma drop_blank_replicate: "drop_blank (replicate n blank_line) = []"
  by (simp add: drop_blank_def)

lemma drop_blank_Nil: "drop_blank ls = [] \<Longrightarrow> list_all (\<lambda>d. d = linefeed) (concat ls)"
  by (induction ls) (auto simp: drop_blank_Cons split: if_splits)

text \<open>The loop returns the complete lines and the rest, except blank lines at the very end.\<close>

lemma all_lines_cut:
  assumes "cl_pos t \<le> length (cl_string t)" "csv_cut (lines_left t) = (ls, r)"
  shows "all_lines t = map (\<lambda>l. (l, False)) (if r = [] then drop_blank ls else ls)
    @ (if r = [] then [] else [(r, True)])"
  using assms
proof (induction t arbitrary: ls r rule: all_lines.induct)
  case (1 t)
  let ?u = "lines_left t"
  note cut = csv_cut_text[OF 1(3)]
  show ?case
  proof (cases "HasMoreLines t")
    case False
    then have "list_all (\<lambda>d. d = linefeed) ?u" by (simp add: HasMoreLines_def other_than_drop lines_left_def)
    then show ?thesis
      using False 1(3) by (auto simp: all_lines.simps[of t] csv_cut_blank drop_blank_replicate)
  next
    case more: True
    then have u: "\<not> list_all (\<lambda>d. d = linefeed) ?u" by (simp add: HasMoreLines_def other_than_drop lines_left_def)
    obtain l p t' where g: "GetNextLine t = (l, p, t')" by (cases "GetNextLine t")
    note left = GetNextLine_left[OF 1(2), unfolded g fst_conv snd_conv]
    have step: "all_lines t = (l, p) # all_lines t'"
      using more g 1(2) by (simp add: all_lines.simps[of t])
    show ?thesis
    proof (cases "line_of False ?u")
      case None
      then have "ls = []" "r = ?u" using 1(3) by (simp_all add: csv_cut.simps[of ?u])
      moreover have "lines_left t' = []" "l = ?u" "p" using left more None by simp_all
      moreover from this have "\<not> HasMoreLines t'"
        by (simp add: HasMoreLines_def other_than_drop lines_left_def)
      moreover have "?u \<noteq> []" using u by auto
      ultimately show ?thesis by (simp add: step all_lines.simps[of t'])
    next
      case (Some lr)
      then obtain m w where m: "line_of False ?u = Some (m, w)" by (metis surj_pair)
      then obtain ls' where c: "csv_cut w = (ls', r)" "ls = m # ls'"
        using 1(3) by (auto simp: csv_cut.simps[of ?u] split: prod.splits)
      have t': "lines_left t' = w" "l = m" "\<not> p" using left more m by simp_all
      have IH: "all_lines t' = map (\<lambda>l. (l, False)) (if r = [] then drop_blank ls' else ls')
          @ (if r = [] then [] else [(r, True)])"
        using 1(1)[of l "(p, t')" p t'] more g left(4) 1(2) c(1) t'(1) by simp
      have "m = blank_line \<Longrightarrow> r = [] \<Longrightarrow> drop_blank ls' \<noteq> []"
        using u cut drop_blank_Nil[of ls'] by (auto simp: c(2))
      then show ?thesis by (auto simp: step IH t' c(2) drop_blank_Cons)
    qed
  qed
qed

text \<open>Cutting a text in two pieces, the rest of the first before the second.\<close>

lemma line_of_longer: "line_of i u = Some (l, r) \<Longrightarrow> line_of i (u @ v) = Some (l, r @ v)"
  by (induction u arbitrary: i l) (auto split: if_splits simp: Let_def)

lemma csv_cut_append:
  "csv_cut (u @ v) = (let (ls, r) = csv_cut u; (ls', r') = csv_cut (r @ v) in (ls @ ls', r'))"
proof (induction u rule: csv_cut.induct)
  case (1 u)
  show ?case
  proof (cases "line_of False u")
    case None
    then show ?thesis by (simp add: csv_cut.simps[of u])
  next
    case (Some p)
    then obtain l r where "line_of False u = Some (l, r)" by (metis surj_pair)
    then show ?thesis
      using 1[of "(l, r)" l r] by (simp add: csv_cut.simps[of u] csv_cut.simps[of "u @ v"] line_of_longer split: prod.splits)
  qed
qed

section \<open>Reading back a record\<close>

text \<open>A field as PostgreSQL writes it: plain, or quoted with its quotes doubled.\<close>

datatype csv_field = Plain string | Quoted string

definition double_quotes :: "string \<Rightarrow> string" where
  "double_quotes f = concat (map (\<lambda>c. if c = dquote then [dquote, dquote] else [c]) f)"

fun field_text :: "csv_field \<Rightarrow> string" where
  "field_text (Plain f) = f"
| "field_text (Quoted f) = dquote # double_quotes f @ [dquote]"

fun field_value :: "csv_field \<Rightarrow> string" where
  "field_value (Plain f) = f"
| "field_value (Quoted f) = f"

fun field_ok :: "csv_field \<Rightarrow> bool" where
  "field_ok (Plain f) \<longleftrightarrow> CHR '','' \<notin> set f \<and> linefeed \<notin> set f \<and> dquote \<notin> set f
     \<and> (f = [] \<or> hd f \<noteq> CHR '' '')"
| "field_ok (Quoted f) \<longleftrightarrow> True"

lemma replace_double_quotes: "replace_all [dquote, dquote] [dquote] (double_quotes f) = f"
proof (induction f)
  case (Cons c f)
  have "hd (double_quotes f) \<noteq> dquote \<or> double_quotes f = [] \<or> True" by simp
  then show ?case using Cons by (auto simp: double_quotes_def)
qed (simp add: double_quotes_def)

lemma field_of_double: "field_of True True (double_quotes f @ u) =
    (let (g, i) = field_of True True u in (double_quotes f @ g, i))"
proof (induction f)
  case (Cons c f)
  then show ?case by (simp add: double_quotes_def split: prod.split)
qed (simp add: double_quotes_def)

text \<open>What may follow a field within a record.\<close>

definition field_stop :: "string \<Rightarrow> bool" where
  "field_stop u \<longleftrightarrow> u = [] \<or> u = [linefeed] \<or> hd u = CHR '',''"

lemma field_of_stop: "field_stop u \<Longrightarrow> field_of q False u = ([], False)"
  by (cases u) (auto simp: field_stop_def)

lemma field_of_plain:
  "CHR '','' \<notin> set f \<Longrightarrow> linefeed \<notin> set f \<Longrightarrow> field_stop u \<Longrightarrow> field_of False False (f @ u) = (f, False)"
  by (induction f) (auto simp: field_of_stop)

lemma field_of_quoted:
  assumes "field_stop u"
  shows "field_of True False (field_text (Quoted f) @ u) = (field_text (Quoted f), False)"
  using field_of_double[of f "dquote # u"] field_of_stop[OF assms, of True] by simp

text \<open>\<open>GetNextToken\<close> on the text that is left.\<close>

definition fields_left :: "csv \<Rightarrow> string" where
  "fields_left t = drop (csv_pos t) (csv_string t)"

lemma skip_blanks_none:
  "p \<ge> length s \<or> s ! p \<noteq> CHR '' '' \<Longrightarrow> skip_blanks s p = p"
  by (subst skip_blanks.simps) auto

lemma next_field:
  assumes p: "csv_pos t \<le> length (csv_string t)" and left: "fields_left t = field_text f @ u"
    and f: "field_ok f" and u: "field_stop u" and more: "HasMoreTokens t"
  shows "fst (GetNextToken t) = field_value f"
    and "fields_left (snd (GetNextToken t)) = drop 1 u"
    and "csv_pos (snd (GetNextToken t)) \<le> length (csv_string (snd (GetNextToken t)))"
    and "csv_notices (snd (GetNextToken t)) = csv_notices t"
proof -
  let ?s = "csv_string t" and ?p = "csv_pos t"
  have d: "drop ?p ?s = field_text f @ u" using left by (simp add: fields_left_def)
  have len: "length ?s = ?p + length (field_text f) + length u"
    using arg_cong[OF d, of length] p by simp
  have nth: "?p + i < length ?s \<Longrightarrow> ?s ! (?p + i) = (field_text f @ u) ! i" for i
    using d by (metis nth_drop less_imp_le p)
  have first: "char_at ?s ?p = (if field_text f @ u = [] then CHR 0x00 else hd (field_text f @ u))"
    using nth[of 0] len by (cases "field_text f @ u") (auto simp: char_at_def)
  have stop: "u = [] \<or> hd u \<noteq> CHR '' '' \<and> hd u \<noteq> dquote" using u by (auto simp: field_stop_def)
  have hd: "field_text f @ u = [] \<or> hd (field_text f @ u) \<noteq> CHR '' ''"
    using f stop by (cases f) (auto simp: hd_append)
  have skip: "skip_blanks ?s ?p = ?p"
    using hd nth[of 0] len by (intro skip_blanks_none) (cases "field_text f @ u"; auto)
  have q: "char_at ?s ?p = dquote \<longleftrightarrow> (\<exists>g. f = Quoted g)"
    using f stop hd_in_set by (cases f) (force simp: first hd_append split: if_splits)+
  have tok: "token_end ?s q False ?p = (?p + length (field_text f), False)"
    if "q \<longleftrightarrow> (\<exists>g. f = Quoted g)" for q
    using that f u field_of_plain[of _ u] field_of_quoted[OF u]
    by (cases f) (simp_all add: token_end_field[OF p] d)
  have sub: "substr ?s ?p n = take n (field_text f @ u)"
    "substr ?s (Suc ?p) n = take n (drop 1 (field_text f @ u))" for n
    unfolding substr_def d[symmetric] by simp_all
  have "fst (GetNextToken t) = field_value f"
    using tok[OF refl] q more f
    by (cases f) (simp_all add: GetNextToken_def Let_def skip sub replace_double_quotes)
  moreover show "csv_notices (snd (GetNextToken t)) = csv_notices t"
    using tok[OF q] more by (simp add: GetNextToken_def Let_def skip)
  moreover have "csv_pos (snd (GetNextToken t)) = min (?p + length (field_text f) + 1) (length ?s)"
    "csv_string (snd (GetNextToken t)) = ?s"
    using tok[OF q] more by (simp_all add: GetNextToken_def Let_def skip)
  moreover have "drop (?p + length (field_text f) + 1) ?s = drop 1 u"
    using arg_cong[OF d, of "drop (length (field_text f) + 1)"] by (simp add: add.commute add.left_commute)
  moreover have "drop (min n (length ?s)) ?s = drop n ?s" for n by (simp add: min_def)
  ultimately show "fst (GetNextToken t) = field_value f"
    "fields_left (snd (GetNextToken t)) = drop 1 u"
    "csv_pos (snd (GetNextToken t)) \<le> length (csv_string (snd (GetNextToken t)))"
    by (auto simp: fields_left_def)
qed

text \<open>A record, and the tokens of the first \<open>n\<close> calls.\<close>

fun record_text :: "csv_field list \<Rightarrow> string" where
  "record_text [] = []"
| "record_text [f] = field_text f"
| "record_text (f # fs) = field_text f @ CHR '','' # record_text fs"

primrec next_tokens :: "nat \<Rightarrow> csv \<Rightarrow> string list" where
  "next_tokens 0 t = []"
| "next_tokens (Suc n) t = (let (x, u) = GetNextToken t in x # next_tokens n u)"

definition token_state :: "nat \<Rightarrow> csv \<Rightarrow> csv" where
  "token_state n t = ((\<lambda>u. snd (GetNextToken u)) ^^ n) t"

lemma token_state_Suc: "token_state (Suc n) t = token_state n (snd (GetNextToken t))"
  by (simp add: token_state_def funpow_Suc_right del: funpow.simps)

lemma token_state_0 [simp]: "token_state 0 t = t"
  by (simp add: token_state_def)

lemma token_state_exhausted: "\<not> HasMoreTokens t \<Longrightarrow> token_state n t = t"
  by (induction n) (simp_all add: token_state_Suc GetNextToken_def)

lemma next_tokens_take: "k \<le> n \<Longrightarrow> next_tokens k t = take k (next_tokens n t)"
proof (induction n arbitrary: k t)
  case step: (Suc n)
  show ?case
  proof (cases k)
    case (Suc j)
    then show ?thesis
      using step.IH[of j "snd (GetNextToken t)"] step.prems by (simp add: case_prod_beta)
  qed simp
qed simp

lemma next_tokens_exhausted: "\<not> HasMoreTokens t \<Longrightarrow> next_tokens n t = replicate n []"
  by (induction n) (simp_all add: GetNextToken_def)

lemma more_tokens_left:
  assumes "\<not> HasMoreTokens t"
  shows "list_all (\<lambda>c. c = CHR '','') (fields_left t)"
  using assms by (auto simp: HasMoreTokens_def Let_def other_than_drop fields_left_def split: if_splits)

lemma commas_only_1: "field_ok f \<Longrightarrow> list_all (\<lambda>c. c = CHR '','') (field_text f) \<Longrightarrow> field_value f = []"
proof (cases f)
  case (Plain x)
  then show "field_ok f \<Longrightarrow> list_all (\<lambda>c. c = CHR '','') (field_text f) \<Longrightarrow> field_value f = []"
    by (cases x) auto
qed simp

lemma commas_only: "list_all (\<lambda>c. c = CHR '','') (record_text fs @ e) \<Longrightarrow> list_all field_ok fs \<Longrightarrow>
    map field_value fs = replicate (length fs) []"
  by (induction fs rule: record_text.induct) (auto simp: commas_only_1)

lemma next_tokens_record:
  assumes "csv_pos t \<le> length (csv_string t)" "fields_left t = record_text fs @ e"
    and "list_all field_ok fs" "e \<in> {[], [linefeed]}"
  shows "next_tokens (length fs) t = map field_value fs"
  using assms
proof (induction fs arbitrary: t rule: record_text.induct)
  case (2 f)
  show ?case
  proof (cases "HasMoreTokens t")
    case True
    have "field_stop e" using 2(4) by (auto simp: field_stop_def)
    then show ?thesis using next_field[OF 2(1) _ _ _ True, of f e] 2(2,3) by (simp add: case_prod_beta)
  next
    case False
    then show ?thesis
      using commas_only[of "[f]" e] more_tokens_left[OF False] 2(2,3)
      by (simp add: next_tokens_exhausted del: next_tokens.simps)
  qed
next
  case (3 f g gs)
  show ?case
  proof (cases "HasMoreTokens t")
    case True
    note n = next_field[OF 3(2) _ _ _ True, of f "CHR '','' # record_text (g # gs) @ e"]
    have "next_tokens (length (g # gs)) (snd (GetNextToken t)) = map field_value (g # gs)"
      using n 3(3,4,5) by (intro 3(1)) (simp_all add: field_stop_def)
    moreover have "fst (GetNextToken t) = field_value f" using n 3(3,4) by (simp add: field_stop_def)
    ultimately show ?thesis by (simp add: case_prod_beta del: next_tokens.simps(2)) (simp add: case_prod_beta)
  next
    case False
    then show ?thesis
      using commas_only[of "f # g # gs" e] more_tokens_left[OF False] 3(3,4)
      by (simp add: next_tokens_exhausted del: next_tokens.simps)
  qed
qed simp

lemma token_state_record:
  assumes "csv_pos t \<le> length (csv_string t)" "fields_left t = record_text fs @ e"
    and "list_all field_ok fs" "e \<in> {[], [linefeed]}" "n \<le> length fs"
  shows "csv_notices (token_state n t) = csv_notices t"
  using assms
proof (induction fs arbitrary: t n rule: record_text.induct)
  case (2 f)
  show ?case
  proof (cases "HasMoreTokens t \<and> 0 < n")
    case True
    then have "n = Suc 0" using 2(5) by simp
    moreover have "field_stop e" using 2(4) by (auto simp: field_stop_def)
    ultimately show ?thesis using next_field[OF 2(1), of f e] True 2(2,3) by (simp add: token_state_Suc)
  qed (auto simp: token_state_exhausted)
next
  case (3 f g gs)
  show ?case
  proof (cases "HasMoreTokens t \<and> 0 < n")
    case True
    then obtain m where m: "n = Suc m" using gr0_implies_Suc by blast
    note n = next_field[OF 3(2), of f "CHR '','' # record_text (g # gs) @ e"]
    have "csv_notices (token_state m (snd (GetNextToken t))) = csv_notices (snd (GetNextToken t))"
      using n True 3(3-6) m by (intro 3(1)) (simp_all add: field_stop_def)
    then show ?thesis using n True 3(3,4) by (simp add: m token_state_Suc field_stop_def)
  qed (auto simp: token_state_exhausted)
qed simp

section \<open>Where a line ends\<close>

definition open_quote :: "bool \<Rightarrow> string \<Rightarrow> bool" where
  "open_quote i a \<longleftrightarrow> (i \<noteq> odd (count_list a dquote))"

text \<open>Every line end of a text is within quotes.\<close>

definition one_line :: "bool \<Rightarrow> string \<Rightarrow> bool" where
  "one_line i m \<longleftrightarrow> (\<forall>a b. m = a @ linefeed # b \<longrightarrow> open_quote i a)"

definition complete_line :: "string \<Rightarrow> bool" where
  "complete_line l \<longleftrightarrow> (\<exists>m. l = m @ [linefeed] \<and> \<not> open_quote False m \<and> one_line False m)"

lemma open_quote_simps [simp]:
  "open_quote i [] = i"
  "open_quote i (c # a) = open_quote (if c = dquote then \<not> i else i) a"
  by (auto simp: open_quote_def)

lemma one_line_Cons:
  "one_line i (c # m) \<longleftrightarrow> (c = linefeed \<longrightarrow> i) \<and> one_line (if c = dquote then \<not> i else i) m"
proof -
  have split: "(\<forall>a. P a) \<longleftrightarrow> P [] \<and> (\<forall>x a. P (x # a))" for P :: "string \<Rightarrow> bool"
    by (metis list.exhaust)
  show ?thesis unfolding one_line_def by (subst split) auto
qed

lemma one_line_Nil [simp]: "one_line i []"
  by (simp add: one_line_def)

lemma line_of_some:
  "line_of i u = Some (l, r) \<Longrightarrow> \<exists>m. l = m @ [linefeed] \<and> \<not> open_quote i m \<and> one_line i m"
proof (induction u arbitrary: i l)
  case (Cons c u)
  define inq where "inq = (if c = dquote then \<not> i else i)"
  show ?case
  proof (cases "c = linefeed \<and> \<not> inq")
    case True
    then have "l = [] @ [linefeed]" "\<not> i" using Cons.prems by (auto simp: inq_def)
    then show ?thesis by (intro exI[of _ "[]"]) simp
  next
    case False
    then obtain l' where l: "line_of inq u = Some (l', r)" "l = c # l'"
      using Cons.prems by (auto simp: Let_def simp flip: inq_def)
    from Cons.IH[OF l(1)] obtain m where "l' = m @ [linefeed]" "\<not> open_quote inq m" "one_line inq m" by blast
    then show ?thesis
      using l(2) False by (intro exI[of _ "c # m"]) (auto simp: one_line_Cons inq_def split: if_splits)
  qed
qed simp

lemma line_of_none: "line_of i u = None \<Longrightarrow> one_line i u"
  by (induction u arbitrary: i) (auto simp: one_line_Cons Let_def split: if_splits)

lemma csv_cut_lines: "csv_cut s = (ls, r) \<Longrightarrow> l \<in> set ls \<Longrightarrow>
    \<exists>m. l = m @ [linefeed] \<and> \<not> open_quote False m \<and> one_line False m"
proof (induction s arbitrary: ls r rule: csv_cut.induct)
  case (1 s)
  show ?case
  proof (cases "line_of False s")
    case None
    then show ?thesis using 1 by (simp add: csv_cut.simps[of s])
  next
    case (Some p)
    then obtain k u where k: "line_of False s = Some (k, u)" by (metis surj_pair)
    then obtain ls' where c: "csv_cut u = (ls', r)" "ls = k # ls'"
      using 1(2) by (auto simp: csv_cut.simps[of s] split: prod.splits)
    show ?thesis using 1(1)[OF k refl c(1)] 1(3) line_of_some[OF k] c(2) by auto
  qed
qed

section \<open>Properties of the tokenizers\<close>

text \<open>C9. The fields of a record come back: whatever strings the fields are, when each is written
  quoted with its quotes doubled, or plain where no special character requires quotes, \<open>n\<close> calls of
  \<open>GetNextToken\<close> on the record of \<open>n\<close> fields, with or without its line end, return them, empty fields
  at the end included.\<close>

theorem csv_record_roundtrip:
  assumes "list_all field_ok fs" "e \<in> {[], [linefeed]}"
  shows "next_tokens (length fs) (new_csv (record_text fs @ e)) = map field_value fs"
  by (rule next_tokens_record) (use assms in \<open>simp_all add: new_csv_def fields_left_def\<close>)

theorem csv_record_roundtrip_witness:
  "next_tokens (length [Plain ''2016-01-01'', Quoted ''a, \"b\"'', Quoted [linefeed], Plain []])
      (new_csv (record_text [Plain ''2016-01-01'', Quoted ''a, \"b\"'', Quoted [linefeed], Plain []] @ []))
    = map field_value [Plain ''2016-01-01'', Quoted ''a, \"b\"'', Quoted [linefeed], Plain []]"
  by (rule csv_record_roundtrip) simp_all

text \<open>The loop over the lines of any text ends and loses nothing but line ends at the very end:
  the lines concatenate to the text; only the last can be partial; a complete line ends at the first
  line end outside quotes, and a partial one has none.\<close>

theorem csv_lines_partition:
  "\<exists>ls. concat (map fst (all_lines (new_csv_lines s))) @ ls = s \<and> set ls \<subseteq> {linefeed}
     \<and> list_all (\<lambda>(l, partial). \<not> partial \<and> complete_line l) (butlast (all_lines (new_csv_lines s)))
     \<and> (case rev (all_lines (new_csv_lines s)) of
          [] \<Rightarrow> True
        | (l, partial) # _ \<Rightarrow> if partial then one_line False l else complete_line l)"
proof -
  obtain ls r where c: "csv_cut s = (ls, r)" by (metis surj_pair)
  define ks where "ks = (if r = [] then drop_blank ls else ls)"
  have all: "all_lines (new_csv_lines s) = map (\<lambda>l. (l, False)) ks @ (if r = [] then [] else [(r, True)])"
    using all_lines_cut[of "new_csv_lines s" ls r] c by (simp add: new_csv_lines_def lines_left_def ks_def)
  have sub: "set ks \<subseteq> set ls" by (auto simp: ks_def drop_blank_def dest: set_dropWhileD)
  have blank: "\<exists>u. concat (drop_blank ls) @ u = concat ls \<and> set u \<subseteq> {linefeed}"
  proof (induction ls)
    case (Cons l ls)
    then obtain u where "concat (drop_blank ls) @ u = concat ls" "set u \<subseteq> {linefeed}" by blast
    then show ?case by (cases "l = blank_line \<and> drop_blank ls = []") (auto simp: drop_blank_Cons)
  qed (simp add: drop_blank_def)
  have whole: "s = concat ls @ r" "line_of False r = None" using csv_cut_text[OF c] by auto
  have "\<exists>u. concat ks @ (if r = [] then [] else r) @ u = s \<and> set u \<subseteq> {linefeed}"
    using blank unfolding whole(1) by (auto simp: ks_def)
  moreover have good: "\<forall>l\<in>set ks. complete_line l"
    using csv_cut_lines[OF c] sub by (auto simp: complete_line_def)
  moreover have "list_all (\<lambda>(l, partial). \<not> partial \<and> complete_line l) (butlast (all_lines (new_csv_lines s)))"
    using good by (auto simp: all list_all_iff butlast_append dest!: in_set_butlastD)
  moreover have "case rev (all_lines (new_csv_lines s)) of [] \<Rightarrow> True
      | (l, partial) # _ \<Rightarrow> if partial then one_line False l else complete_line l"
    using good line_of_none[OF whole(2)] unfolding all by (cases ks rule: rev_cases) auto
  ultimately show ?thesis unfolding all by (auto simp: comp_def)
qed

end
