(* ===== verification/WxText.thy ===== *)
theory WxText
  imports WxString
begin

text \<open>
  More operations of \<open>wxString\<close>: searching, and taking parts.
\<close>

section \<open>Parts of a string\<close>

text \<open>\<open>Find\<close> (from the left and from the right), \<open>BeforeFirst\<close>, \<open>AfterFirst\<close>, \<open>BeforeLast\<close>, \<open>Mid\<close>,
  \<open>Left\<close>, \<open>Right\<close> and \<open>Trim\<close>. A negative position becomes a huge \<open>size_t\<close>.\<close>

fun find_string :: "string \<Rightarrow> string \<Rightarrow> int" where
  "find_string t [] = (if t = [] then 0 else -1)"
| "find_string t (c # s) =
     (if prefix t (c # s) then 0
      else let i = find_string t s in if i < 0 then -1 else i + 1)"

definition find_char :: "char \<Rightarrow> string \<Rightarrow> int" where
  "find_char c s = find_string [c] s"

definition find_char_end :: "char \<Rightarrow> string \<Rightarrow> int" where
  "find_char_end c s =
     (let i = find_char c (rev s) in if i < 0 then -1 else int (length s) - 1 - i)"

definition before_first :: "char \<Rightarrow> string \<Rightarrow> string" where
  "before_first c s = takeWhile (\<lambda>d. d \<noteq> c) s"

definition after_first :: "char \<Rightarrow> string \<Rightarrow> string" where
  "after_first c s = drop 1 (dropWhile (\<lambda>d. d \<noteq> c) s)"

definition before_last :: "char \<Rightarrow> string \<Rightarrow> string" where
  "before_last c s = rev (drop 1 (dropWhile (\<lambda>d. d \<noteq> c) (rev s)))"

definition mid :: "string \<Rightarrow> int \<Rightarrow> string" where
  "mid s start = (if start < 0 then [] else drop (nat start) s)"

definition left :: "string \<Rightarrow> int \<Rightarrow> string" where
  "left s n = (if n < 0 then s else take (nat n) s)"

definition mid_len :: "string \<Rightarrow> int \<Rightarrow> int \<Rightarrow> string" where
  "mid_len s start n = left (mid s start) n"

definition right :: "string \<Rightarrow> nat \<Rightarrow> string" where
  "right s n = drop (length s - n) s"

definition trim_right :: "string \<Rightarrow> string" where
  "trim_right s = rev (dropWhile is_space (rev s))"

definition trim_left :: "string \<Rightarrow> string" where
  "trim_left s = dropWhile is_space s"

definition contains :: "string \<Rightarrow> string \<Rightarrow> bool" where
  "contains s t \<longleftrightarrow> 0 \<le> find_string t s"

lemma trim_right_append: "trim_right (s @ t) = (if trim_right t = [] then trim_right s else s @ trim_right t)"
  by (simp add: trim_right_def dropWhile_append flip: list_all_iff)

lemma trim_right_last: "s \<noteq> [] \<Longrightarrow> \<not> is_space (last s) \<Longrightarrow> trim_right s = s"
  by (cases s rule: rev_cases) (simp_all add: trim_right_def)

lemma find_string_bound: "-1 \<le> find_string t s \<and> find_string t s \<le> int (length s)"
  by (induction t s rule: find_string.induct) (auto simp: Let_def)

lemma find_string_none: "find_string t s < 0 \<longleftrightarrow> \<not> sublist t s"
proof (induction t s rule: find_string.induct)
  case (2 t c s)
  then show ?case using find_string_bound[of t s] by (auto simp: Let_def sublist_Cons_right)
qed auto

lemma find_char_none: "find_char c s < 0 \<longleftrightarrow> c \<notin> set s"
  by (auto simp: find_char_def find_string_none sublist_def in_set_conv_decomp)

text \<open>A found position: the text occurs there, and nowhere before.\<close>

lemma find_string_at:
  "0 \<le> find_string t s \<Longrightarrow> prefix t (drop (nat (find_string t s)) s)
     \<and> (\<forall>i < nat (find_string t s). \<not> prefix t (drop i s))"
proof (induction t s rule: find_string.induct)
  case (2 t c s)
  show ?case
  proof (cases "prefix t (c # s)")
    case False
    then have f: "0 \<le> find_string t s" "find_string t (c # s) = find_string t s + 1"
      using 2(2) by (auto simp: Let_def split: if_splits)
    have "\<not> prefix t (drop i (c # s))" if "i < nat (find_string t s + 1)" for i
      using that False 2(1)[OF False f(1)] by (cases i) auto
    then show ?thesis using 2(1)[OF False f(1)] f by (simp add: nat_add_distrib)
  qed simp
qed (simp split: if_splits)

end
