(* ===== verification/ServerLog.thy ===== *)
theory ServerLog
  imports CsvFiles WxText
begin

text \<open>
  The server log of the status window, \<open>frmStatus::addLogFile\<close> and \<open>frmStatus::addLogLine\<close> of
  \<open>frm/frmStatus.cpp\<close>: the file is read from the server in pieces of 50000 bytes, cut into records,
  and each record becomes rows of the list. The server and the conversions of its bytes are
  parameters; of the widgets only the rows of the list are kept.
\<close>

section \<open>Lines of a text\<close>

text \<open>\<open>wxStringTokenizer(s, "\n")\<close>: the delimiter is white space, so empty tokens are skipped.\<close>

fun split_lines :: "string \<Rightarrow> string list" where
  "split_lines [] = [[]]"
| "split_lines (c # s) =
     (if c = linefeed then [] # split_lines s
      else (c # hd (split_lines s)) # tl (split_lines s))"

definition line_tokens :: "string \<Rightarrow> string list" where
  "line_tokens s = filter (\<lambda>l. l \<noteq> []) (split_lines s)"

definition first_token :: "string list \<Rightarrow> string" where
  "first_token ts = (case ts of [] \<Rightarrow> [] | t # _ \<Rightarrow> t)"

section \<open>State\<close>

text \<open>A row of the list: the text of each column.\<close>

type_synonym log_row = "nat \<Rightarrow> string"

record status_log =
  sl_rows :: "log_row list"
  sl_saved :: string  \<comment> \<open>\<open>savedPartialLine\<close>\<close>
  sl_notices :: "string list"

record log_conf =
  lc_format_known :: bool
  lc_has_timestamp :: bool
  lc_greenplum :: bool
  lc_format :: string
  lc_fmt_pos :: int
  lc_max_size :: int  \<comment> \<open>\<open>settings->GetMaxServerLogSize()\<close>\<close>

definition insert_item :: "string \<Rightarrow> status_log \<Rightarrow> status_log" where
  "insert_item t st = st\<lparr>sl_rows := sl_rows st @ [(\<lambda>c. [])(0 := t)]\<rparr>"

text \<open>\<open>SetItem\<close> on the row inserted last.\<close>

definition set_item :: "nat \<Rightarrow> string \<Rightarrow> status_log \<Rightarrow> status_log" where
  "set_item c t st = st\<lparr>sl_rows := butlast (sl_rows st) @ [(last (sl_rows st))(c := t)]\<rparr>"

definition add_notices :: "string list \<Rightarrow> status_log \<Rightarrow> status_log" where
  "add_notices ts st = st\<lparr>sl_notices := sl_notices st @ ts\<rparr>"

abbreviation notice :: "string \<Rightarrow> status_log \<Rightarrow> status_log" where
  "notice t \<equiv> add_notices [t]"

definition more_rows :: "string list \<Rightarrow> status_log \<Rightarrow> status_log" where
  "more_rows ts st = fold (\<lambda>t s. set_item 2 t (insert_item [] s)) ts st"

definition level_col :: "log_conf \<Rightarrow> nat" where
  "level_col conf = (if lc_has_timestamp conf then 1 else 0)"

definition entry_col :: "log_conf \<Rightarrow> nat" where
  "entry_col conf = (if lc_has_timestamp conf then 2 else 1)"

section \<open>A record in CSV format\<close>

record log_fields =
  lf_time :: string
  lf_database :: string
  lf_session :: string
  lf_cmdcount :: string
  lf_segment :: string
  lf_severity :: string
  lf_state :: string
  lf_message :: string
  lf_detail :: string
  lf_hint :: string
  lf_debug :: string
  lf_stack :: string

text \<open>Greenplum records have 30 fields, those of PostgreSQL 22.\<close>

definition fields_read :: "log_conf \<Rightarrow> nat" where
  "fields_read conf = (if lc_greenplum conf then 30 else 22)"

definition get_fields :: "log_conf \<Rightarrow> string list \<Rightarrow> log_fields" where
  "get_fields conf fs =
     (let gpdb = lc_greenplum conf; k = (if gpdb then 16 else 11) in
      \<lparr>lf_time = fs ! 0, lf_database = fs ! 2,
       lf_session = (if gpdb then fs ! 9 else fs ! 5),
       lf_cmdcount = (if gpdb then fs ! 10 else []),
       lf_segment = (if gpdb then fs ! 11 else []),
       lf_severity = fs ! k, lf_state = fs ! (k + 1), lf_message = fs ! (k + 2),
       lf_detail = fs ! (k + 3), lf_hint = fs ! (k + 4), lf_debug = fs ! (k + 8),
       lf_stack = (if gpdb then fs ! 29 else [])\<rparr>)"

text \<open>The segment of a Greenplum record, from its own field or the end of its message.\<close>

definition segment_item :: "log_conf \<Rightarrow> log_fields \<Rightarrow> status_log \<Rightarrow> status_log" where
  "segment_item conf f st =
     (let seg = lf_segment f; msg = lf_message f in
      if \<not> lc_greenplum conf \<or> (0 < length seg \<and> seg \<noteq> ''seg-1'') then set_item 6 seg st
      else if 0 < length msg \<and> last msg = CHR '')'' then
        let p = find_string ''(seg'' msg; segpos = (if p \<le> 0 then find_string ''(mir'' msg else p) in
        if 0 < segpos then
          let s = mid msg (segpos + 1); b = find_char CHR '' '' s
          in set_item 6 (if 0 < b then mid_len s 0 b else s) st
        else st
      else st)"

definition debug_rows :: "log_fields \<Rightarrow> status_log \<Rightarrow> status_log" where
  "debug_rows f st =
     (let state3 = mid_len (lf_state f) 0 3; lines = line_tokens (lf_debug f) in
      if 0 < length (lf_debug f) \<and>
         (state3 = ''426'' \<or> state3 = ''22P'' \<or> state3 = ''427'' \<or> state3 = ''42P'' \<or> state3 = ''458''
          \<or> mid_len (lf_message f) 0 9 = ''duration:''
          \<or> lf_severity f = ''FATAL'' \<or> lf_severity f = ''PANIC'')
      then case lines of
             [] \<Rightarrow> st
           | l # ls \<Rightarrow> more_rows ls (set_item 2 (''statement: '' @ l) (insert_item [] st))
      else st)"

definition stack_rows :: "log_conf \<Rightarrow> log_fields \<Rightarrow> status_log \<Rightarrow> status_log" where
  "stack_rows conf f st =
     (if lc_greenplum conf \<and>
         (lf_severity f = ''PANIC''
          \<or> lf_severity f = ''FATAL'' \<and> lf_state f \<noteq> ''57P03'' \<and> lf_state f \<noteq> ''53300'')
      then case line_tokens (lf_stack f) of
             [] \<Rightarrow> st
           | l # ls \<Rightarrow> more_rows ls (set_item 2 l (set_item 1 ''STACK'' (insert_item [] st)))
      else st)"

text \<open>The rows of a record, once its fields are known.\<close>

definition record_rows :: "log_conf \<Rightarrow> log_fields \<Rightarrow> status_log \<Rightarrow> status_log" where
  "record_rows conf f st =
     (let lm = line_tokens (lf_message f);
          st1 = set_item 2 (first_token lm) (set_item 1 (lf_severity f) (insert_item (lf_time f) st));
          st2 = set_item 5 (lf_database f) (set_item 4 (lf_cmdcount f) (set_item 3 (lf_session f) st1));
          st3 = more_rows (drop 1 lm) (segment_item conf f st2);
          st4 = more_rows (line_tokens (lf_hint f)) (more_rows (line_tokens (lf_detail f)) st3)
      in stack_rows conf f (debug_rows f st4))"

definition add_csv_record :: "log_conf \<Rightarrow> string \<Rightarrow> status_log \<Rightarrow> status_log" where
  "add_csv_record conf str st =
     (if lc_has_timestamp conf \<and>
         (length str < 20 \<or> char_at str 0 \<noteq> CHR ''2'' \<or> char_at str 1 \<noteq> CHR ''0'')
      then set_item 2 str (insert_item [] st)
      else
        let tk = new_csv str; n = fields_read conf
        in record_rows conf (get_fields conf (next_tokens n tk))
             (add_notices (csv_notices (token_state n tk)) st))"

section \<open>Records in other formats\<close>

definition add_greenplum_line :: "log_conf \<Rightarrow> string \<Rightarrow> status_log \<Rightarrow> status_log" where
  "add_greenplum_line conf str st =
     (let rest0 = mid str (find_string '':-'' str + 1);
          rest1 = (if 0 < length rest0 \<and> hd rest0 = CHR ''-'' then mid rest0 1 else rest0);
          sep = 1 < length rest1 \<and> hd rest1 \<noteq> CHR '' '' \<and> 0 < find_char CHR '':'' rest1;
          severity = (if sep then before_first CHR '':'' rest1 else []);
          rest = (if sep then mid (after_first CHR '':'' rest1) 2 else rest1);
          ts = before_first (char_at (lc_format conf) (nat (lc_fmt_pos conf + 2))) str
      in if length ts < 20 \<or> (lc_has_timestamp conf \<and> (left ts 2 \<noteq> ''20'' \<or> find_char CHR '':'' str < 0))
         then set_item 2 rest (insert_item [] st)
         else if 1 < length severity then set_item 2 rest (set_item 1 severity (insert_item ts st))
         else set_item 2 rest (insert_item [] st))"

definition add_plain_line :: "log_conf \<Rightarrow> string \<Rightarrow> status_log \<Rightarrow> status_log" where
  "add_plain_line conf str st =
     (let fp = lc_fmt_pos conf; len = (\<lambda>s. int (length s)) in
      if lc_has_timestamp conf then
        let rest = after_first CHR '':'' (mid str (fp + 22));
            ts = mid_len str fp (len str - len rest - fp - 1);
            pos = find_char_end (char_at (lc_format conf) (nat (fp + 2))) ts
        in set_item (entry_col conf) (mid rest 2)
             (set_item (level_col conf) (mid ts (pos + len (lc_format conf) - fp - 2))
               (insert_item (left ts pos) st))
      else
        let rest = mid str (len (lc_format conf)) in
        if find_char CHR '':'' rest < 0 then insert_item rest st
        else set_item (entry_col conf) (mid (after_first CHR '':'' rest) 2)
               (insert_item (before_first CHR '':'' rest) st))"

text \<open>\<open>frmStatus::addLogLine\<close>\<close>

definition addLogLine :: "log_conf \<Rightarrow> string \<Rightarrow> bool \<Rightarrow> bool \<Rightarrow> status_log \<Rightarrow> status_log" where
  "addLogLine conf str formatted csv_log_format st =
     (if \<not> lc_format_known conf then insert_item str st
      else if \<not> csv_log_format \<and> find_char CHR '':'' str < 0 then
        set_item (entry_col conf) str (insert_item [] st)
      else if \<not> formatted then
        set_item (entry_col conf) (after_first CHR '':'' str)
          (if lc_has_timestamp conf
           then set_item (level_col conf) (before_first CHR '':'' str) (insert_item [] st)
           else insert_item (before_first CHR '':'' str) st)
      else if csv_log_format then add_csv_record conf str st
      else if lc_greenplum conf then add_greenplum_line conf str st
      else add_plain_line conf str st)"

section \<open>Reading the file\<close>

text \<open>What the server returns for \<open>pg_file_read(filename, read, 50000)\<close> (\<open>None\<close> when the query fails,
  an empty text for no data), and the two conversions of its bytes.\<close>

record log_server =
  ls_read :: "string \<Rightarrow> int \<Rightarrow> string option"
  ls_utf8 :: "string \<Rightarrow> string"
  ls_client :: "string \<Rightarrow> string"

definition decode_chunk :: "log_server \<Rightarrow> string \<Rightarrow> string" where
  "decode_chunk srv raw = (if 0 < length (ls_utf8 srv raw) then ls_utf8 srv raw else ls_client srv raw)"

definition timestamped :: "string \<Rightarrow> bool" where
  "timestamped s \<longleftrightarrow> left s 4 = ''2009'' \<or> left s 3 = ''201'' \<or> left s 3 = ''202''"

text \<open>A text that does not start with a time stamp is cut at the next line that starts with 20.\<close>

definition resync :: "log_conf \<Rightarrow> string \<Rightarrow> status_log \<Rightarrow> string \<times> status_log" where
  "resync conf str st =
     (if lc_has_timestamp conf \<and> 4 < length str \<and> \<not> timestamped str
      then (mid str (find_string (linefeed # ''20'') str + 1),
            notice (''Log line does not start with timestamp: '' @ mid_len str 0 100 @ '' '' @ [linefeed]) st)
      else (str, st))"

definition check_record :: "log_conf \<Rightarrow> string \<Rightarrow> status_log \<Rightarrow> status_log" where
  "check_record conf str st =
     (if lc_has_timestamp conf then
        if 5 < length str \<and> \<not> timestamped str
        then notice (''Log line does not start with timestamp: '' @ str @ [linefeed]) st
        else if length str < 20 then notice (''Log line too short: '' @ str @ [linefeed]) st
        else st
      else st)"

text \<open>The loop over the lines of a piece: \<open>line\<close> and the state.\<close>

fun csv_log_lines ::
  "log_conf \<Rightarrow> (string \<times> bool) list \<Rightarrow> string \<Rightarrow> status_log \<Rightarrow> string \<times> status_log" where
  "csv_log_lines conf [] line st = (line, st)"
| "csv_log_lines conf ((str, partial) # ls) line st =
     (if partial then (str, st)
      else csv_log_lines conf ls []
             (addLogLine conf (trim_right str) True True (check_record conf str st)))"

definition csv_chunk :: "log_conf \<Rightarrow> string \<Rightarrow> string \<Rightarrow> status_log \<Rightarrow> string \<times> status_log" where
  "csv_chunk conf line text st =
     (let (str, st') = resync conf (line @ text) st
      in csv_log_lines conf (all_lines (new_csv_lines str)) line st')"

text \<open>The loop over the tokens of a piece in another format: \<open>line\<close>, \<open>skipFirst\<close> and the state.\<close>

fun plain_log_lines ::
  "log_conf \<Rightarrow> bool \<Rightarrow> string list \<Rightarrow> string \<Rightarrow> bool \<Rightarrow> status_log \<Rightarrow> string \<times> bool \<times> status_log" where
  "plain_log_lines conf has_cr [] line skip st = (line, skip, st)"
| "plain_log_lines conf has_cr (str # ts) line skip st =
     (if skip then plain_log_lines conf has_cr ts line False st
      else if ts \<noteq> [] \<or> has_cr
      then plain_log_lines conf has_cr ts line skip (addLogLine conf (trim_right str) True False st)
      else plain_log_lines conf has_cr ts str skip st)"

definition plain_chunk ::
  "log_conf \<Rightarrow> string \<Rightarrow> string \<Rightarrow> bool \<Rightarrow> status_log \<Rightarrow> string \<times> bool \<times> status_log" where
  "plain_chunk conf line text skip st =
     (let str = line @ text
      in plain_log_lines conf (right str 1 = [linefeed]) (line_tokens str) line skip st)"

text \<open>The outer loop: \<open>read\<close>, and \<open>line\<close> when the loop is left in the regular way.\<close>

function read_log ::
  "log_server \<Rightarrow> log_conf \<Rightarrow> string \<Rightarrow> int \<Rightarrow> int \<Rightarrow> string \<Rightarrow> bool \<Rightarrow> status_log \<Rightarrow>
   int \<times> string option \<times> status_log" where
  "read_log srv conf filename len rd line skip st =
     (if rd < len then
        case ls_read srv filename rd of
          None \<Rightarrow> (rd, None, st)
        | Some raw \<Rightarrow>
            if raw = [] then (rd, Some line, st)
            else
              let rd' = rd + int (length raw); text = decode_chunk srv raw in
              if line @ text = [] then (rd', None, st)
              else if right filename 4 = ''.csv'' then
                (case csv_chunk conf line text st of
                   (line', st') \<Rightarrow> read_log srv conf filename len rd' line' skip st')
              else
                (case plain_chunk conf line text skip st of
                   (line', skip', st') \<Rightarrow> read_log srv conf filename len rd' line' skip' st')
      else (rd, Some line, st))"
  by pat_completeness auto
termination
  by (relation "measure (\<lambda>(srv, conf, filename, len, rd, line, skip, st). nat (len - rd))") auto

declare read_log.simps [simp del]

text \<open>\<open>frmStatus::addLogFile\<close>: the new \<open>read\<close> and the state. \<open>logfileLength\<close> is the argument
  \<open>file_length\<close>.\<close>

definition addLogFile ::
  "log_server \<Rightarrow> log_conf \<Rightarrow> string \<Rightarrow> int \<Rightarrow> int \<Rightarrow> int \<Rightarrow> bool \<Rightarrow> status_log \<Rightarrow> int \<times> status_log" where
  "addLogFile srv conf filename file_length len rd skip_first st =
     (let max = lc_max_size conf;
          cut = skip_first \<and> file_length = 0 \<and> max \<noteq> 0 \<and> file_length > max;
          len' = (if cut then rd - max else len);
          csv = (right filename 4 = ''.csv'');
          drop_saved = csv \<and> sl_saved st \<noteq> [] \<and> rd = 0;
          line = (if csv \<and> sl_saved st \<noteq> [] \<and> rd \<noteq> 0 then sl_saved st else []);
          st0 = (if drop_saved then st\<lparr>sl_saved := []\<rparr> else st)
      in case read_log srv conf filename len' rd line cut st0 of
           (rd', None, st') \<Rightarrow> (rd', st')
         | (rd', Some line', st') \<Rightarrow>
             (rd', if line' = [] then st'\<lparr>sl_saved := []\<rparr>
                   else if csv then st'\<lparr>sl_saved := line'\<rparr>
                   else addLogLine conf (trim_right line') True False (st'\<lparr>sl_saved := []\<rparr>)))"

section \<open>CSV logs: the pieces do not matter\<close>

definition add_record :: "log_conf \<Rightarrow> string \<Rightarrow> status_log \<Rightarrow> status_log" where
  "add_record conf l st = addLogLine conf (trim_right l) True True st"

text \<open>A complete record: it starts with a year the code knows and is not too short.\<close>

definition good_record :: "string \<Rightarrow> bool" where
  "good_record l \<longleftrightarrow> timestamped l \<and> 20 \<le> length l"

lemma timestamped_prefix:
  assumes "4 \<le> length s" "prefix s w" "timestamped w"
  shows "timestamped s"
proof -
  obtain u where "w = s @ u" using assms(2) by (auto simp: prefix_def)
  then have "left s 4 = left w 4" "left s 3 = left w 3" using assms(1) by (simp_all add: left_def)
  then show ?thesis using assms(3) by (simp add: timestamped_def)
qed

lemma timestamped_append: "4 \<le> length l \<Longrightarrow> timestamped l \<Longrightarrow> timestamped (l @ u)"
  by (simp add: timestamped_def left_def)

lemma resync_none: "length str \<le> 4 \<or> timestamped str \<Longrightarrow> resync conf str st = (str, st)"
  by (auto simp: resync_def)

lemma csv_log_lines_good:
  "\<forall>l\<in>set ls. good_record l \<Longrightarrow>
     csv_log_lines conf (map (\<lambda>l. (l, False)) ls @ (if r = [] then [] else [(r, True)])) line st
     = (if r = [] then (if ls = [] then line else []) else r, fold (add_record conf) ls st)"
proof (induction ls arbitrary: line st)
  case (Cons l ls)
  then have "check_record conf l st = st" for st by (auto simp: check_record_def good_record_def)
  then show ?case using Cons by (simp add: add_record_def)
qed simp

lemma good_not_blank: "good_record l \<Longrightarrow> l \<noteq> blank_line"
  by (auto simp: good_record_def)

lemma drop_blank_good: "\<forall>l\<in>set ls. good_record l \<Longrightarrow> drop_blank ls = ls"
proof -
  assume "\<forall>l\<in>set ls. good_record l"
  then have "\<forall>l\<in>set (rev ls). l \<noteq> blank_line" using good_not_blank by auto
  then have "dropWhile (\<lambda>l. l = blank_line) (rev ls) = rev ls" by (cases "rev ls") auto
  then show ?thesis by (simp add: drop_blank_def)
qed

definition good_log :: "string list \<times> string \<Rightarrow> bool" where
  "good_log p \<longleftrightarrow> (\<forall>l\<in>set (fst p). good_record l) \<and> (4 < length (snd p) \<longrightarrow> timestamped (snd p))"

lemma csv_chunk_good:
  assumes cut: "csv_cut (line @ c @ rest) = (ls, r)" and good: "good_log (ls, r)" and c: "c \<noteq> []"
    and c1: "csv_cut (line @ c) = (ls1, r1)"
  shows "csv_chunk conf line c st = (r1, fold (add_record conf) ls1 st)"
    and "\<exists>ls2. ls = ls1 @ ls2 \<and> csv_cut (r1 @ rest) = (ls2, r)"
proof -
  have app: "(ls, r) = (let (ls', r') = csv_cut (r1 @ rest) in (ls1 @ ls', r'))"
    using csv_cut_append[of "line @ c" rest] cut c1 by simp
  then obtain ls2 where l2: "ls = ls1 @ ls2" "csv_cut (r1 @ rest) = (ls2, r)"
    by (auto split: prod.splits)
  then show "\<exists>ls2. ls = ls1 @ ls2 \<and> csv_cut (r1 @ rest) = (ls2, r)" by blast
  have good1: "\<forall>l\<in>set ls1. good_record l" using good l2 by (auto simp: good_log_def)
  have w: "line @ c @ rest = concat ls @ r" using csv_cut_text[OF cut] by simp
  have "timestamped (line @ c)" if "4 < length (line @ c)"
  proof (rule timestamped_prefix)
    show "prefix (line @ c) (line @ c @ rest)" by (simp add: prefix_def)
    show "timestamped (line @ c @ rest)"
    proof (cases ls)
      case Nil
      then have "timestamped r" using good w that by (auto simp: good_log_def)
      then show ?thesis using w Nil by simp
    next
      case (Cons l ls')
      then have "good_record l" using good by (simp add: good_log_def)
      then show ?thesis unfolding w Cons by (simp add: timestamped_append good_record_def)
    qed
  qed (use that in simp)
  then have "resync conf (line @ c) st = (line @ c, st)" by (intro resync_none) linarith
  moreover have "all_lines (new_csv_lines (line @ c)) =
      map (\<lambda>l. (l, False)) ls1 @ (if r1 = [] then [] else [(r1, True)])"
    using all_lines_cut[of "new_csv_lines (line @ c)" ls1 r1] c1 drop_blank_good[OF good1]
    by (simp add: new_csv_lines_def lines_left_def)
  moreover have "r1 = [] \<Longrightarrow> ls1 \<noteq> []" using csv_cut_text[OF c1] c by auto
  ultimately show "csv_chunk conf line c st = (r1, fold (add_record conf) ls1 st)"
    using csv_log_lines_good[OF good1, of conf r1 line st] by (simp add: csv_chunk_def)
qed

text \<open>The server gives the pieces \<open>ps\<close> of the file, of any lengths, from the byte \<open>rd\<close> on; the file ends where
  no byte of its length is left, or the server has no more.\<close>

fun serves :: "log_server \<Rightarrow> string \<Rightarrow> int \<Rightarrow> int \<Rightarrow> string list \<Rightarrow> bool" where
  "serves srv filename len rd [] = True"
| "serves srv filename len rd (p # ps) =
     (rd < len \<and> p \<noteq> [] \<and> ls_read srv filename rd = Some p \<and> serves srv filename len (rd + int (length p)) ps)"

definition log_end :: "log_server \<Rightarrow> string \<Rightarrow> int \<Rightarrow> int \<Rightarrow> bool" where
  "log_end srv filename len rd \<longleftrightarrow> len \<le> rd \<or> ls_read srv filename rd = Some []"

text \<open>Each piece can be converted, by one of the two conversions; and the text of them all.\<close>

definition converted :: "log_server \<Rightarrow> string list \<Rightarrow> bool" where
  "converted srv ps \<longleftrightarrow> (\<forall>p\<in>set ps. decode_chunk srv p \<noteq> [])"

definition log_text :: "log_server \<Rightarrow> string list \<Rightarrow> string" where
  "log_text srv ps = concat (map (decode_chunk srv) ps)"

abbreviation bytes_of :: "string list \<Rightarrow> int" where
  "bytes_of ps \<equiv> int (length (concat ps))"

lemma serves_append:
  "serves srv filename len rd (ps @ qs) \<longleftrightarrow>
     serves srv filename len rd ps \<and> serves srv filename len (rd + bytes_of ps) qs"
  by (induction ps arbitrary: rd) (auto simp: add.assoc)

lemma log_text_append: "log_text srv (ps @ qs) = log_text srv ps @ log_text srv qs"
  by (simp add: log_text_def)

lemma read_pieces:
  assumes csv: "right filename 4 = ''.csv''"
  shows "serves srv filename len rd ps \<Longrightarrow> converted srv ps \<Longrightarrow> csv_cut (line @ log_text srv ps @ rest) = (ls, r) \<Longrightarrow>
    good_log (ls, r) \<Longrightarrow> csv_cut (line @ log_text srv ps) = (ls1, r1) \<Longrightarrow> line_of False line = None \<Longrightarrow>
    read_log srv conf filename len rd line skip st
      = read_log srv conf filename len (rd + bytes_of ps) r1 skip (fold (add_record conf) ls1 st)"
proof (induction ps arbitrary: rd line ls st ls1)
  case Nil
  then show ?case by (simp add: log_text_def csv_cut.simps[of line])
next
  case (Cons p ps)
  define c where "c = decode_chunk srv p"
  have t: "log_text srv (p # ps) = c @ log_text srv ps" by (simp add: log_text_def c_def)
  have c: "c \<noteq> []" using Cons.prems(2) by (simp add: converted_def c_def)
  obtain ls2 r2 where c2: "csv_cut (line @ c) = (ls2, r2)" by (metis surj_pair)
  note chunk = csv_chunk_good[OF Cons.prems(3)[unfolded t append_assoc] Cons.prems(4) c c2]
  obtain ls3 where l3: "ls = ls2 @ ls3" "csv_cut (r2 @ log_text srv ps @ rest) = (ls3, r)" using chunk(2) by blast
  obtain ls4 where l4: "ls1 = ls2 @ ls4" "csv_cut (r2 @ log_text srv ps) = (ls4, r1)"
    using csv_cut_append[of "line @ c" "log_text srv ps"] Cons.prems(5) c2 t by (auto split: prod.splits)
  have "good_log (ls3, r)" using Cons.prems(4) l3(1) by (auto simp: good_log_def)
  then have "read_log srv conf filename len (rd + int (length p)) r2 skip (fold (add_record conf) ls2 st)
      = read_log srv conf filename len (rd + int (length p) + bytes_of ps) r1 skip (fold (add_record conf) ls4 (fold (add_record conf) ls2 st))"
    using Cons.prems(1,2) csv_cut_text[OF c2] by (intro Cons.IH[OF _ _ l3(2) _ l4(2)]) (auto simp: converted_def)
  then show ?case
    using Cons.prems(1) c csv chunk(1)[of conf st] l4(1)
    by (subst read_log.simps) (simp add: Let_def add.assoc flip: c_def)
qed

lemma read_end:
  "log_end srv filename len rd \<Longrightarrow> read_log srv conf filename len rd line skip st = (rd, Some line, st)"
  by (subst read_log.simps) (auto simp: log_end_def)

text \<open>A piece that cannot be converted: within a record the loop goes on, without the piece; else it is left.\<close>

lemma read_unconverted:
  assumes "serves srv filename len rd [p]" "decode_chunk srv p = []" "right filename 4 = ''.csv''"
    and "line_of False line = None" "4 < length line \<longrightarrow> timestamped line"
  shows "read_log srv conf filename len rd line skip st =
    (if line = [] then (rd + int (length p), None, st)
     else read_log srv conf filename len (rd + int (length p)) line skip st)"
proof -
  have cut: "csv_cut line = ([], line)" using assms(4) by (simp add: csv_cut.simps)
  have "csv_chunk conf line [] st = (line, st)" if "line \<noteq> []"
  proof -
    have "resync conf line st = (line, st)" using assms(5) by (intro resync_none) linarith
    moreover have "all_lines (new_csv_lines line) = map (\<lambda>l. (l, False)) [] @ (if line = [] then [] else [(line, True)])"
      using all_lines_cut[of "new_csv_lines line" "[]" line] cut drop_blank_good[of "[]"]
      by (simp add: new_csv_lines_def lines_left_def)
    ultimately show ?thesis using that by (simp add: csv_chunk_def)
  qed
  then show ?thesis using assms(1-3) by (subst read_log.simps) (simp add: Let_def)
qed

lemma good_prefix:
  assumes "good_log (csv_cut (s @ t))"
  shows "good_log (csv_cut s)"
proof -
  obtain ls r where c: "csv_cut s = (ls, r)" by (metis surj_pair)
  obtain ls' r' where d: "csv_cut (r @ t) = (ls', r')" by (metis surj_pair)
  have w: "good_log (ls @ ls', r')" using assms csv_cut_append[of s t] c d by simp
  have "timestamped r" if "4 < length r"
  proof (rule timestamped_prefix)
    show "4 \<le> length r" using that by simp
    show "prefix r (r @ t)" by (simp add: prefix_def)
    have e: "r @ t = concat ls' @ r'" using csv_cut_text[OF d] by simp
    show "timestamped (r @ t)"
    proof (cases ls')
      case Nil
      then have "4 < length r'" using e that by (metis append_Nil concat.simps(1) length_append trans_less_add1)
      then show ?thesis using Nil e w by (simp add: good_log_def)
    next
      case (Cons l ls'')
      then have "good_record l" using w by (simp add: good_log_def)
      then show ?thesis unfolding e Cons by (simp add: timestamped_append good_record_def)
    qed
  qed
  then show ?thesis using w by (simp add: c good_log_def)
qed

text \<open>What is read of the file first: the text that was saved counts unless it is read from its beginning.\<close>

definition saved_text :: "int \<Rightarrow> status_log \<Rightarrow> string" where
  "saved_text rd st = (if rd = 0 then [] else sl_saved st)"

lemma addLogFile_read:
  assumes "right filename 4 = ''.csv''" "skip_first \<longrightarrow> 0 \<le> lc_max_size conf"
  shows "addLogFile srv conf filename fl len rd skip_first st =
    (case read_log srv conf filename len rd (saved_text rd st) False (st\<lparr>sl_saved := saved_text rd st\<rparr>) of
       (rd', None, st') \<Rightarrow> (rd', st')
     | (rd', Some line', st') \<Rightarrow> (rd', st'\<lparr>sl_saved := line'\<rparr>))"
proof -
  have st: "(if sl_saved st \<noteq> [] \<and> rd = 0 then st\<lparr>sl_saved := []\<rparr> else st) = st\<lparr>sl_saved := saved_text rd st\<rparr>"
    by (simp add: saved_text_def)
  have line: "(if sl_saved st \<noteq> [] \<and> rd \<noteq> 0 then sl_saved st else []) = saved_text rd st" by (simp add: saved_text_def)
  have no: "(skip_first \<and> fl = 0 \<and> lc_max_size conf \<noteq> 0 \<and> lc_max_size conf < fl) = False"
    using assms(2) by auto
  show ?thesis
    unfolding addLogFile_def Let_def no st line assms(1) by (simp add: st line split: prod.split option.split)
qed

lemma addLogFile_csv:
  assumes csv: "right filename 4 = ''.csv''" "skip_first \<longrightarrow> 0 \<le> lc_max_size conf"
    and srv: "serves srv filename len rd ps" "log_end srv filename len (rd + bytes_of ps)" "converted srv ps"
    and saved: "line_of False (saved_text rd st) = None"
    and cut: "csv_cut (saved_text rd st @ log_text srv ps) = (ls, r)" "good_log (ls, r)"
  shows "addLogFile srv conf filename fl len rd skip_first st
    = (rd + bytes_of ps, (fold (add_record conf) ls (st\<lparr>sl_saved := saved_text rd st\<rparr>))\<lparr>sl_saved := r\<rparr>)"
  using read_pieces[OF csv(1) srv(1,3), of "saved_text rd st" "[]" ls r ls r conf False "st\<lparr>sl_saved := saved_text rd st\<rparr>"]
    read_end[OF srv(2)] cut saved
  by (simp add: addLogFile_read[OF csv])

section \<open>CSV logs: every record becomes its rows\<close>



















text \<open>The rows do not depend on the saved text.\<close>

lemma rows_saved [simp]:
  "insert_item t (st\<lparr>sl_saved := x\<rparr>) = (insert_item t st)\<lparr>sl_saved := x\<rparr>"
  "set_item c t (st\<lparr>sl_saved := x\<rparr>) = (set_item c t st)\<lparr>sl_saved := x\<rparr>"
  by (simp_all add: insert_item_def set_item_def)

lemma more_rows_saved [simp]: "more_rows ts (st\<lparr>sl_saved := x\<rparr>) = (more_rows ts st)\<lparr>sl_saved := x\<rparr>"
  by (induction ts arbitrary: st) (simp_all add: more_rows_def)

lemma if_saved: "(if b then s else t)\<lparr>sl_saved := x\<rparr> = (if b then s\<lparr>sl_saved := x\<rparr> else t\<lparr>sl_saved := x\<rparr>)"
  by simp

lemma segment_item_saved [simp]: "segment_item conf f (st\<lparr>sl_saved := x\<rparr>) = (segment_item conf f st)\<lparr>sl_saved := x\<rparr>"
  unfolding segment_item_def Let_def by (simp only: rows_saved if_saved)

lemma debug_rows_saved [simp]:
  "debug_rows f (st\<lparr>sl_saved := x\<rparr>) = (debug_rows f st)\<lparr>sl_saved := x\<rparr>"
  "stack_rows conf f (st\<lparr>sl_saved := x\<rparr>) = (stack_rows conf f st)\<lparr>sl_saved := x\<rparr>"
   apply (cases "line_tokens (lf_debug f)"; simp only: debug_rows_def Let_def if_saved rows_saved
      more_rows_saved list.case)
  apply (cases "line_tokens (lf_stack f)"; simp only: stack_rows_def Let_def if_saved rows_saved
      more_rows_saved list.case)
  done

lemma record_rows_saved [simp]: "record_rows conf f (st\<lparr>sl_saved := x\<rparr>) = (record_rows conf f st)\<lparr>sl_saved := x\<rparr>"
  unfolding record_rows_def Let_def by (simp only: rows_saved more_rows_saved segment_item_saved debug_rows_saved)

lemma add_notices_saved [simp]: "add_notices ts (st\<lparr>sl_saved := x\<rparr>) = (add_notices ts st)\<lparr>sl_saved := x\<rparr>"
  by (simp add: add_notices_def)

lemma add_record_saved: "add_record conf l (st\<lparr>sl_saved := x\<rparr>) = (add_record conf l st)\<lparr>sl_saved := x\<rparr>"
  by (simp only: add_record_def addLogLine_def add_csv_record_def Let_def if_saved rows_saved
      record_rows_saved add_notices_saved) simp

lemma fold_add_saved: "fold (add_record conf) ls (st\<lparr>sl_saved := x\<rparr>) = (fold (add_record conf) ls st)\<lparr>sl_saved := x\<rparr>"
  by (induction ls arbitrary: st) (simp_all add: add_record_saved)

section \<open>Logs in other formats: a partial line is shown twice\<close>

lemma split_lines_ne [simp]: "split_lines s \<noteq> []"
  by (cases s) simp_all

lemma split_lines_append: "split_lines (a @ linefeed # b) = split_lines a @ split_lines b"
  by (induction a) (simp_all add: hd_append)

lemma split_lines_single: "linefeed \<notin> set p \<Longrightarrow> split_lines p = [p]"
  by (induction p) auto

lemma line_tokens_append: "line_tokens (a @ linefeed # b) = line_tokens a @ line_tokens b"
  by (simp add: line_tokens_def split_lines_append)

lemma line_tokens_single: "linefeed \<notin> set p \<Longrightarrow> p \<noteq> [] \<Longrightarrow> line_tokens p = [p]"
  by (simp add: line_tokens_def split_lines_single)

lemma line_tokens_Nil [simp]: "line_tokens [] = []"
  by (simp add: line_tokens_def)

definition add_plain :: "log_conf \<Rightarrow> string \<Rightarrow> status_log \<Rightarrow> status_log" where
  "add_plain conf l st = addLogLine conf (trim_right l) True False st"

lemma plain_log_lines_all:
  "plain_log_lines conf True ts line False st = (line, False, fold (add_plain conf) ts st)"
  by (induction ts arbitrary: st) (simp_all add: add_plain_def)

lemma plain_log_lines_partial:
  "plain_log_lines conf False (ts @ [p]) line False st = (p, False, fold (add_plain conf) ts st)"
  by (induction ts arbitrary: st) (simp_all add: add_plain_def)

section \<open>Properties of the server log\<close>

text \<open>A server and a configuration for the witnesses.\<close>

definition log_of :: "string \<Rightarrow> nat \<Rightarrow> log_server" where
  "log_of bytes n =
     \<lparr>ls_read = (\<lambda>f rd. Some (take n (drop (nat rd) bytes))), ls_utf8 = (\<lambda>s. s), ls_client = (\<lambda>s. s)\<rparr>"

definition postgres_csv :: log_conf where
  "postgres_csv = \<lparr>lc_format_known = True, lc_has_timestamp = True, lc_greenplum = False,
     lc_format = ''%t:'', lc_fmt_pos = 0, lc_max_size = 0\<rparr>"

definition empty_log :: status_log where
  "empty_log = \<lparr>sl_rows = [], sl_saved = [], sl_notices = []\<rparr>"



text \<open>A server that holds the bytes and gives \<open>n\<close> of them at a time.\<close>

lemma serves_log_of:
  assumes "0 < n" "0 \<le> rd" "rd \<le> int (length bytes)"
  shows "\<exists>ps. serves (log_of bytes n) filename (int (length bytes)) rd ps \<and> concat ps = drop (nat rd) bytes
    \<and> (\<forall>p\<in>set ps. p \<noteq> [])"
  using assms(2,3)
proof (induction "length bytes - nat rd" arbitrary: rd rule: less_induct)
  case less
  show ?case
  proof (cases "rd < int (length bytes)")
    case False
    then show ?thesis by (intro exI[of _ "[]"]) simp
  next
    case True
    define c where "c = take n (drop (nat rd) bytes)"
    have c: "c \<noteq> []" "nat (rd + int (length c)) = nat rd + length c" "rd + int (length c) \<le> int (length bytes)"
      using True assms(1) less.prems by (auto simp: c_def nat_add_distrib)
    obtain ps where ps: "serves (log_of bytes n) filename (int (length bytes)) (rd + int (length c)) ps"
      "concat ps = drop (nat rd + length c) bytes" "\<forall>p\<in>set ps. p \<noteq> []"
    proof -
      have "length bytes - nat (rd + int (length c)) < length bytes - nat rd"
        using True less.prems(1) c by (cases c) auto
      from less.hyps[OF this _ c(3)] show ?thesis using that less.prems(1) c(2) by auto
    qed
    have "c @ drop (nat rd + length c) bytes = drop (nat rd) bytes"
    proof -
      have "drop (nat rd + length c) bytes = drop (length c) (drop (nat rd) bytes)" by (simp add: add.commute)
      moreover have "drop (length (take n xs)) xs = drop n xs" for xs :: string by (simp add: min_def)
      ultimately show ?thesis by (simp only: c_def append_take_drop_id)
    qed
    then show ?thesis using ps c(1) True by (intro exI[of _ "c # ps"]) (simp add: log_of_def c_def)
  qed
qed

lemma log_of_pieces:
  assumes "0 < n"
  obtains ps where "serves (log_of bytes n) filename (int (length bytes)) 0 ps" "concat ps = bytes"
    "converted (log_of bytes n) ps" "log_text (log_of bytes n) ps = bytes"
proof -
  obtain ps where ps: "serves (log_of bytes n) filename (int (length bytes)) 0 ps" "concat ps = bytes" "\<forall>p\<in>set ps. p \<noteq> []"
    using serves_log_of[OF assms, of 0 bytes filename] by auto
  have d: "decode_chunk (log_of bytes n) p = p" for p by (simp add: decode_chunk_def log_of_def)
  then have "map (decode_chunk (log_of bytes n)) ps = ps" by (simp add: map_idI)
  then show ?thesis using that[OF ps(1,2)] ps(2,3) d by (simp add: converted_def log_text_def)
qed



text \<open>C8. Reading a CSV log while it grows shows the same as reading it once: whatever the first
  part ends with, also in the middle of a record or of a quoted field, the partial text is kept and
  the next refresh continues it. The pieces may differ, and can each be converted; the
  records of the log, and a partial one of more than four characters at its end, start with a time
  stamp, and the records have 20 characters or more.\<close>

theorem csv_log_refresh:
  assumes "serves srv filename len 0 ps" "log_end srv filename len (bytes_of ps)" "converted srv ps"
    and "serves srv' filename len' (bytes_of ps) qs" "log_end srv' filename len' (bytes_of ps + bytes_of qs)" "converted srv' qs"
    and "serves srv'' filename len'' 0 ws" "log_end srv'' filename len'' (bytes_of ws)" "converted srv'' ws"
    and "log_text srv'' ws = log_text srv ps @ log_text srv' qs" "bytes_of ws = bytes_of ps + bytes_of qs"
    and "right filename 4 = ''.csv''" "0 \<le> lc_max_size conf" "good_log (csv_cut (log_text srv'' ws))"
    and "addLogFile srv conf filename fl len 0 skip_first st = (rd, st1)"
  shows "addLogFile srv' conf filename fl' len' rd False st1 = addLogFile srv'' conf filename fl'' len'' 0 skip_first' st"
proof -
  obtain ls r where c: "csv_cut (log_text srv ps) = (ls, r)" by (metis surj_pair)
  obtain ls' r' where d: "csv_cut (r @ log_text srv' qs) = (ls', r')" by (metis surj_pair)
  have whole: "csv_cut (log_text srv'' ws) = (ls @ ls', r')"
    using csv_cut_append[of "log_text srv ps" "log_text srv' qs"] c d assms(10) by simp
  have good: "good_log (ls, r)" using good_prefix[of "log_text srv ps" "log_text srv' qs"] assms(10,14) c by simp
  have "(rd, st1) = (bytes_of ps, (fold (add_record conf) ls (st\<lparr>sl_saved := []\<rparr>))\<lparr>sl_saved := r\<rparr>)"
    using addLogFile_csv[OF assms(12) _ assms(1) _ assms(3), of skip_first conf st ls r fl] assms(2,13,15) c good
    by (simp add: saved_text_def)
  then have first: "rd = bytes_of ps" "st1 = (fold (add_record conf) ls (st\<lparr>sl_saved := []\<rparr>))\<lparr>sl_saved := r\<rparr>"
    by simp_all
  have "rd = 0 \<Longrightarrow> ps = []" using assms(1) first(1) by (cases ps; cases "hd ps") auto
  then have saved: "saved_text rd st1 = r" using first(2) c by (auto simp: saved_text_def log_text_def csv_cut.simps)
  have "addLogFile srv' conf filename fl' len' rd False st1
      = (rd + bytes_of qs, (fold (add_record conf) ls' (st1\<lparr>sl_saved := r\<rparr>))\<lparr>sl_saved := r'\<rparr>)"
    using addLogFile_csv[OF assms(12) _ assms(4)[folded first(1)] _ assms(6), of False conf st1 ls' r' fl']
      assms(5,14) d csv_cut_text[OF c] whole first(1) by (simp add: saved[unfolded first(1)] good_log_def)
  moreover have "addLogFile srv'' conf filename fl'' len'' 0 skip_first' st
      = (bytes_of ws, (fold (add_record conf) (ls @ ls') (st\<lparr>sl_saved := []\<rparr>))\<lparr>sl_saved := r'\<rparr>)"
    using addLogFile_csv[OF assms(12) _ assms(7) _ assms(9), of skip_first' conf st "ls @ ls'" r' fl'']
      assms(8,13,14) whole by (simp add: saved_text_def)
  ultimately show ?thesis using assms(11) by (simp add: first fold_add_saved)
qed

lemma right_split: "s \<noteq> [] \<Longrightarrow> right s (Suc 0) = [last s]"
  by (cases s rule: rev_cases) (simp_all add: right_def)

definition log_begin :: string where
  "log_begin = ''2016-01-01 00:00:00.000 UTC,'' @ [dquote, CHR ''a'', linefeed]"

definition log_rest :: string where
  "log_rest = ''b'' @ [dquote, linefeed]"

lemma log_parts:
  "csv_cut (log_begin @ log_rest) = ([log_begin @ log_rest], [])" "csv_cut log_begin = ([], log_begin)"
  "good_log ([log_begin @ log_rest], [])"
  by (subst csv_cut.simps, simp add: log_begin_def log_rest_def csv_cut.simps)
    (subst csv_cut.simps, simp add: log_begin_def,
      simp add: good_log_def good_record_def log_begin_def log_rest_def timestamped_def left_def)

theorem csv_log_refresh_witness:
  "addLogFile (log_of (log_begin @ log_rest) 9) postgres_csv ''pg.csv'' 31
      (int (length (log_begin @ log_rest))) 31 False
      (snd (addLogFile (log_of log_begin 7) postgres_csv ''pg.csv'' 0 (int (length log_begin)) 0 True empty_log))
    = addLogFile (log_of (log_begin @ log_rest) 5) postgres_csv ''pg.csv'' 0
      (int (length (log_begin @ log_rest))) 0 True empty_log"
proof -
  have l: "length log_begin = 31" by (simp add: log_begin_def)
  obtain ps where ps: "serves (log_of log_begin 7) ''pg.csv'' (int (length log_begin)) 0 ps" "concat ps = log_begin"
    "converted (log_of log_begin 7) ps" "log_text (log_of log_begin 7) ps = log_begin"
    using log_of_pieces[of 7 log_begin "''pg.csv''"] by (metis zero_less_numeral)
  obtain ws where ws: "serves (log_of (log_begin @ log_rest) 5) ''pg.csv'' (int (length (log_begin @ log_rest))) 0 ws"
    "concat ws = log_begin @ log_rest" "converted (log_of (log_begin @ log_rest) 5) ws"
    "log_text (log_of (log_begin @ log_rest) 5) ws = log_begin @ log_rest"
    using log_of_pieces[of 5 "log_begin @ log_rest" "''pg.csv''"] by (metis zero_less_numeral)
  obtain rd st1 where first: "addLogFile (log_of log_begin 7) postgres_csv ''pg.csv'' 0 (int (length log_begin)) 0 True empty_log
      = (rd, st1)" by fastforce
  have rd: "rd = 31"
    using addLogFile_csv[of "''pg.csv''" True postgres_csv, OF _ _ ps(1) _ ps(3), of empty_log "[]" log_begin 0] first ps(2,4)
      log_parts(2) by (simp add: right_def postgres_csv_def log_end_def l saved_text_def good_log_def)
        (simp add: log_begin_def timestamped_def left_def)
  have qs: "serves (log_of (log_begin @ log_rest) 9) ''pg.csv'' (int (length (log_begin @ log_rest))) (bytes_of ps) [log_rest]"
    "converted (log_of (log_begin @ log_rest) 9) [log_rest]"
    "log_text (log_of (log_begin @ log_rest) 9) [log_rest] = log_rest"
    by (simp_all add: ps(2) l log_of_def log_rest_def converted_def log_text_def decode_chunk_def)
  have "addLogFile (log_of (log_begin @ log_rest) 9) postgres_csv ''pg.csv'' 31 (int (length (log_begin @ log_rest))) rd False st1
    = addLogFile (log_of (log_begin @ log_rest) 5) postgres_csv ''pg.csv'' 0 (int (length (log_begin @ log_rest))) 0 True empty_log"
    by (rule csv_log_refresh[OF ps(1) _ ps(3) qs(1) _ qs(2) ws(1) _ ws(3) _ _ _ _ _ first])
      (simp_all add: ps(2,4) ws(2,4) qs(3) log_parts log_end_def right_def postgres_csv_def)
  then show ?thesis by (simp add: first rd)
qed

text \<open>A piece that cannot be converted, because it is cut within a character of several bytes, say: where it
  follows the end of a record, reading stops there, and the records after it are not shown; within a record the
  piece is left out without a word, and the text around it is read as one.\<close>

theorem unconverted_piece_lost:
  assumes "serves srv filename len 0 (ps @ p # qs)" "log_end srv filename len (bytes_of (ps @ p # qs))"
    and "converted srv ps" "decode_chunk srv p = []" "converted srv qs" "right filename 4 = ''.csv''" "0 \<le> lc_max_size conf"
    and "csv_cut (log_text srv ps) = (ls, r)" "csv_cut (log_text srv (ps @ qs)) = (ls', r')" "good_log (ls', r')"
  shows "addLogFile srv conf filename fl len 0 skip_first st =
    (if r = [] then (bytes_of (ps @ [p]), (fold (add_record conf) ls st)\<lparr>sl_saved := []\<rparr>)
     else (bytes_of (ps @ p # qs), (fold (add_record conf) ls' st)\<lparr>sl_saved := r'\<rparr>))"
proof -
  let ?st = "st\<lparr>sl_saved := []\<rparr>"
  have s: "serves srv filename len 0 ps" "serves srv filename len (bytes_of ps) [p]"
    "serves srv filename len (bytes_of (ps @ [p])) qs"
    using assms(1) by (simp_all add: serves_append)
  have w: "csv_cut ([] @ log_text srv ps @ log_text srv qs) = (ls', r')" using assms(9) by (simp add: log_text_append)
  have good: "good_log (ls, r)"
    using good_prefix[of "log_text srv ps" "log_text srv qs"] assms(8,10) w by simp
  have n: "line_of False [] = None" "line_of False r = None" using csv_cut_text[OF assms(8)] by auto
  have 1: "read_log srv conf filename len 0 [] False ?st
      = read_log srv conf filename len (bytes_of ps) r False (fold (add_record conf) ls ?st)"
    using read_pieces[OF assms(6) s(1) assms(3) w assms(10), of ls r conf False ?st] assms(8) n(1) by simp
  note 2 = read_unconverted[OF s(2) assms(4,6) n(2), of conf False "fold (add_record conf) ls ?st"]
  have t: "4 < length r \<longrightarrow> timestamped r" using good by (simp add: good_log_def)
  show ?thesis
  proof (cases "r = []")
    case True
    then show ?thesis using 1 2 by (simp add: addLogFile_read[OF assms(6)] assms(7) saved_text_def fold_add_saved)
  next
    case False
    obtain ls2 where l2: "csv_cut (r @ log_text srv qs) = (ls2, r')" "ls' = ls @ ls2"
      using csv_cut_append[of "log_text srv ps" "log_text srv qs"] w assms(8) by (auto split: prod.splits)
    have g2: "good_log (ls2, r')" using assms(10) l2(2) by (auto simp: good_log_def)
    have "read_log srv conf filename len (bytes_of (ps @ [p])) r False (fold (add_record conf) ls ?st)
        = read_log srv conf filename len (bytes_of (ps @ [p]) + bytes_of qs) r' False (fold (add_record conf) ls' ?st)"
      using read_pieces[OF assms(6) s(3) assms(5), of r "[]" ls2 r' ls2 r' conf False] l2 g2 n(2) by simp
    then show ?thesis using False 1 2 t read_end[OF assms(2)]
      by (simp add: addLogFile_read[OF assms(6)] assms(7) saved_text_def fold_add_saved add.assoc)
  qed
qed

text \<open>A server that gives three pieces, of which the second is the beginning of a character only.\<close>

definition cut_server :: log_server where
  "cut_server =
     (let conv = (\<lambda>s. if CHR 0xE2 \<in> set s then [] else s) in
      \<lparr>ls_read = (\<lambda>f rd. if rd = 0 then Some log_begin else if rd = 31 then Some [CHR 0xE2]
                        else if rd = 32 then Some log_rest else Some []),
       ls_utf8 = conv, ls_client = conv\<rparr>)"

theorem unconverted_piece_lost_witness:
  "addLogFile cut_server postgres_csv ''pg.csv'' 0 35 0 True empty_log
    = (35, (fold (add_record postgres_csv) [log_begin @ log_rest] empty_log)\<lparr>sl_saved := []\<rparr>)"
proof -
  have l: "length log_begin = 31" "length log_rest = 3" "log_begin \<noteq> []" "log_rest \<noteq> []"
    "CHR 0xE2 \<notin> set log_begin" "CHR 0xE2 \<notin> set log_rest" by (simp_all add: log_begin_def log_rest_def)
  have d: "decode_chunk cut_server [CHR 0xE2] = []" "decode_chunk cut_server log_begin = log_begin"
    "decode_chunk cut_server log_rest = log_rest"
    using l by (simp_all add: decode_chunk_def cut_server_def Let_def)
  have s: "serves cut_server ''pg.csv'' 35 0 ([log_begin] @ [CHR 0xE2] # [log_rest])"
    "log_end cut_server ''pg.csv'' 35 (bytes_of ([log_begin] @ [CHR 0xE2] # [log_rest]))"
    "converted cut_server [log_begin]" "converted cut_server [log_rest]"
    using l d by (simp_all add: cut_server_def Let_def log_end_def converted_def)
  have c: "csv_cut (log_text cut_server [log_begin]) = ([], log_begin)"
    "csv_cut (log_text cut_server ([log_begin] @ [log_rest])) = ([log_begin @ log_rest], [])"
    using log_parts d by (simp_all add: log_text_def)
  show ?thesis
    using unconverted_piece_lost[OF s(1-3) d(1) s(4) _ _ c log_parts(3), of postgres_csv 0 True empty_log] l
    by (simp add: right_def) (simp add: postgres_csv_def)
qed

text \<open>In the other formats \<open>line\<close> is not cleared once it has been completed: when a piece ends
  within a line and the last piece ends with a line end, the beginning of that line is shown once
  more after the end of the log.\<close>

theorem plain_log_repeats:
  assumes "ls_read srv filename 0 = Some (u @ linefeed # p)"
    and "ls_read srv filename (int (length (u @ linefeed # p))) = Some (q @ [linefeed])"
    and "\<forall>raw. ls_utf8 srv raw = raw" "right filename 4 \<noteq> ''.csv''" "p \<noteq> []" "linefeed \<notin> set p"
    and "len = int (length (u @ linefeed # p @ q @ [linefeed]))" "0 \<le> lc_max_size conf"
  shows "addLogFile srv conf filename fl len 0 skip_first st
    = (len, add_plain conf p ((fold (add_plain conf) (line_tokens (u @ linefeed # p @ q @ [linefeed])) st)\<lparr>sl_saved := []\<rparr>))"
proof -
  have lf: "right (s @ [linefeed]) (Suc 0) = [linefeed]" for s by (simp add: right_def)
  have "last (u @ linefeed # p) = last p" using assms(5) by simp
  moreover have "last p \<noteq> linefeed" using assms(5,6) last_in_set by metis
  ultimately have no_cr: "right (u @ linefeed # p) (Suc 0) \<noteq> [linefeed]"
    by (simp add: right_split)
  have r1: "plain_chunk conf [] (u @ linefeed # p) False st
      = (p, False, fold (add_plain conf) (line_tokens u) st)" for st
    using no_cr plain_log_lines_partial[of conf "line_tokens u" p "[]" st] assms(5,6)
    by (simp add: plain_chunk_def Let_def line_tokens_append line_tokens_single)
  have r2: "plain_chunk conf p (q @ [linefeed]) False st
      = (p, False, fold (add_plain conf) (line_tokens (p @ q @ [linefeed])) st)" for st
    using lf[of "p @ q"] by (simp add: plain_chunk_def Let_def plain_log_lines_all)
  let ?a = "int (length (u @ linefeed # p))" and ?b = "q @ [linefeed]"
  have stop: "read_log srv conf filename l l p False st = (l, Some p, st)" for l st
    by (simp add: read_log.simps)
  have second: "read_log srv conf filename len ?a p False st
      = (len, Some p, fold (add_plain conf) (line_tokens (p @ ?b)) st)" for st
    using assms(2-4,7) r2[of st] by (subst read_log.simps) (simp add: stop decode_chunk_def Let_def)
  have first: "read_log srv conf filename len 0 [] False st
      = (len, Some p, fold (add_plain conf) (line_tokens (u @ linefeed # p @ ?b)) st)" for st
    using assms(1,3,4,7) r1[of st] second
    by (subst read_log.simps) (simp add: decode_chunk_def Let_def line_tokens_append)
  have no: "(skip_first \<and> fl = 0 \<and> lc_max_size conf \<noteq> 0 \<and> lc_max_size conf < fl) = False"
    using assms(8) by auto
  have csv: "(right filename 4 = ''.csv'') = False" using assms(4) by simp
  show ?thesis
    using first[of st] assms(5) unfolding addLogFile_def Let_def no csv by (simp add: add_plain_def)
qed

theorem plain_log_repeats_witness:
  "addLogFile (log_of (''a'' @ linefeed # ''b'' @ ''c'' @ [linefeed]) 3)
      \<lparr>lc_format_known = False, lc_has_timestamp = False, lc_greenplum = False, lc_format = [],
       lc_fmt_pos = 0, lc_max_size = 0\<rparr> ''pg.log'' 0 5 0 False empty_log
    = (5, \<lparr>sl_rows = [(\<lambda>c. [])(0 := ''a''), (\<lambda>c. [])(0 := ''bc''), (\<lambda>c. [])(0 := ''b'')],
            sl_saved = [], sl_notices = []\<rparr>)"
  using plain_log_repeats[of "log_of (''a'' @ linefeed # ''b'' @ ''c'' @ [linefeed]) 3" "''pg.log''" "''a''"
      "''b''" "''c''" 5 "\<lparr>lc_format_known = False, lc_has_timestamp = False, lc_greenplum = False, lc_format = [],
       lc_fmt_pos = 0, lc_max_size = 0\<rparr>" 0 False empty_log]
  by (simp add: log_of_def right_def line_tokens_def add_plain_def addLogLine_def trim_right_def is_space_def
      insert_item_def empty_log_def)

end
