(* ===== verification/Quoting.thy ===== *)
theory Quoting
  imports WxText MapmText
begin

text \<open>
  The text helpers of \<open>utils/misc.cpp\<close> that build and take apart SQL, with the keyword lookup of
  \<open>db/keywords.c\<close>: quoting of identifiers and types, strings, dollar quoting, connection strings and command lines.
  The list of the server's keywords comes from a PostgreSQL header outside the sources and is a
  parameter, a sorted array; the additional list is part of the sources. Shown: the binary search
  finds exactly the keywords; a quoted identifier reads back as itself under the lexical rules of
  PostgreSQL; the search for an unused dollar quote ends and finds one.
\<close>

section \<open>Keywords\<close>

datatype keyword_category = UNRESERVED_KEYWORD | COL_NAME_KEYWORD | TYPE_FUNC_NAME_KEYWORD | RESERVED_KEYWORD

type_synonym kw_table = "(string \<times> keyword_category) list"

definition ScanKeywordsExtra :: kw_table where
  "ScanKeywordsExtra =
     [(''connect'', RESERVED_KEYWORD),
      (''convert'', RESERVED_KEYWORD),
      (''distributed'', UNRESERVED_KEYWORD),
      (''exec'', RESERVED_KEYWORD),
      (''log'', UNRESERVED_KEYWORD),
      (''long'', RESERVED_KEYWORD),
      (''minus'', RESERVED_KEYWORD),
      (''nocache'', RESERVED_KEYWORD),
      (''number'', RESERVED_KEYWORD),
      (''package'', RESERVED_KEYWORD),
      (''pls_integer'', RESERVED_KEYWORD),
      (''raw'', RESERVED_KEYWORD),
      (''return'', RESERVED_KEYWORD),
      (''smalldatetime'', RESERVED_KEYWORD),
      (''smallfloat'', RESERVED_KEYWORD),
      (''smallmoney'', RESERVED_KEYWORD),
      (''sysdate'', RESERVED_KEYWORD),
      (''systimestap'', RESERVED_KEYWORD),
      (''tinyint'', RESERVED_KEYWORD),
      (''tinytext'', RESERVED_KEYWORD),
      (''varchar2'', RESERVED_KEYWORD)]"

definition NAMEDATALEN :: nat where "NAMEDATALEN = 32"

text \<open>The binary search between the indices \<open>low\<close> and \<open>high\<close>.\<close>

function keyword_search :: "kw_table \<Rightarrow> string \<Rightarrow> int \<Rightarrow> int \<Rightarrow> (string \<times> keyword_category) option" where
  "keyword_search ks word low high =
     (if low \<le> high then
        let middle = low + (high - low) div 2; k = ks ! nat middle in
        if fst k = word then Some k
        else if fst k < word then keyword_search ks word (middle + 1) high
        else keyword_search ks word low (middle - 1)
      else None)"
  by pat_completeness auto
termination
  by (relation "measure (\<lambda>(ks, w, l, h). nat (h - l + 1))") auto

declare keyword_search.simps [simp del]

definition ScanKeywordLookup :: "kw_table \<Rightarrow> string \<Rightarrow> (string \<times> keyword_category) option" where
  "ScanKeywordLookup ScanKeywords txt =
     (if NAMEDATALEN \<le> length txt then None
      else
        let word = str_lower txt in
        case keyword_search ScanKeywords word 0 (int (length ScanKeywords) - 1) of
          Some k \<Rightarrow> Some k
        | None \<Rightarrow> keyword_search ScanKeywordsExtra word 0 (int (length ScanKeywordsExtra) - 1))"

text \<open>A search in a sorted table finds the entry of the word, if there is one.\<close>

lemma keyword_search_sound:
  "0 \<le> low \<Longrightarrow> high < int (length ks) \<Longrightarrow> keyword_search ks word low high = Some k \<Longrightarrow>
     k \<in> set ks \<and> fst k = word"
proof (induction ks word low high rule: keyword_search.induct)
  case (1 ks word low high)
  define middle where "middle = low + (high - low) div 2"
  show ?case
  proof (cases "low \<le> high")
    case True
    then have mid: "low \<le> middle" "middle \<le> high" by (simp_all add: middle_def)
    show ?thesis
    proof (cases "fst (ks ! nat middle) = word")
      case True
      then show ?thesis using 1(3-5) mid by (subst (asm) keyword_search.simps) (auto simp: middle_def Let_def)
    next
      case False
      then show ?thesis
        using 1 mid by (subst (asm) (3) keyword_search.simps) (auto simp: Let_def middle_def split: if_splits)
    qed
  qed (use 1(5) in \<open>simp add: keyword_search.simps\<close>)
qed

lemma keyword_search_complete:
  "sorted_wrt (<) (map fst ks) \<Longrightarrow> 0 \<le> low \<Longrightarrow> high < int (length ks) \<Longrightarrow>
     low \<le> i \<Longrightarrow> i \<le> high \<Longrightarrow> fst (ks ! nat i) = word \<Longrightarrow> keyword_search ks word low high \<noteq> None"
proof (induction ks word low high rule: keyword_search.induct)
  case (1 ks word low high)
  define middle where "middle = low + (high - low) div 2"
  have mid: "low \<le> middle" "middle \<le> high" using 1(6,7) by (simp_all add: middle_def)
  have less: "fst (ks ! nat a) < fst (ks ! nat b)" if "0 \<le> a" "a < b" "b < int (length ks)" for a b
    using sorted_wrt_nth_less[OF 1(3), of "nat a" "nat b"] that by simp
  consider "i = middle" | "i < middle" | "middle < i" by linarith
  then show ?case
  proof cases
    case 2
    then have "word < fst (ks ! nat middle)" using less[of i middle] 1(4-8) mid by simp
    then have "fst (ks ! nat middle) \<noteq> word" "\<not> fst (ks ! nat middle) < word" by auto
    then show ?thesis
      using 1 2 mid by (subst keyword_search.simps) (simp add: Let_def flip: middle_def)
  next
    case 3
    then have "fst (ks ! nat middle) < word" using less[of middle i] 1(4-8) mid by simp
    then have "fst (ks ! nat middle) \<noteq> word" "fst (ks ! nat middle) < word" by auto
    then show ?thesis
      using 1 3 mid by (subst keyword_search.simps) (simp add: Let_def flip: middle_def)
  qed (use 1 in \<open>subst keyword_search.simps, simp add: Let_def flip: middle_def\<close>)
qed

section \<open>Identifiers and types\<close>

text \<open>\<open>wxString::IsNumber\<close>: digits with an optional sign.\<close>

definition IsNumber :: "string \<Rightarrow> bool" where
  "IsNumber s = list_all is_digit (case s of [] \<Rightarrow> [] | c # t \<Rightarrow> if c = CHR ''-'' \<or> c = CHR ''+'' then t else s)"

text \<open>The types that need no quotes although they contain a space or a quote.\<close>

definition plain_types :: "string list" where
  "plain_types =
     [''character varying'', CHR 0x22 # ''char'' @ [CHR 0x22], ''bit varying'', ''double precision'',
      ''timestamp without time zone'', ''timestamp with time zone'', ''time without time zone'',
      ''time with time zone'', CHR 0x22 # ''trigger'' @ [CHR 0x22], CHR 0x22 # ''unknown'' @ [CHR 0x22]]"

definition lower_letter :: "char \<Rightarrow> bool" where
  "lower_letter c \<longleftrightarrow> 97 \<le> (of_char c :: nat) \<and> of_char c \<le> (122 :: nat)"

text \<open>The loop over the characters from position \<open>pos\<close>: is there one that requires quotes?\<close>

fun quoting_loop :: "nat \<Rightarrow> string \<Rightarrow> bool" where
  "quoting_loop pos [] = False"
| "quoting_loop pos (c # cs) =
     (if \<not> (0 < pos \<and> is_digit c) \<and> \<not> lower_letter c \<and> c \<noteq> CHR ''_'' then True
      else quoting_loop (pos + 1) cs)"

definition needsQuoting :: "kw_table \<Rightarrow> string \<Rightarrow> bool \<Rightarrow> bool" where
  "needsQuoting ScanKeywords val forTypes =
     (if IsNumber val then True
      else
        let valNoArray = (if forTypes \<and> right val 2 = ''[]'' then take (length val - 2) val else val) in
        if forTypes \<and> (\<exists>t\<in>set plain_types. equal_no_case valNoArray t) then False
        else if quoting_loop 0 valNoArray then True
        else case ScanKeywordLookup ScanKeywords val of
               None \<Rightarrow> False
             | Some (name, category) \<Rightarrow>
                 if category = UNRESERVED_KEYWORD then False
                 else if forTypes \<and> category = COL_NAME_KEYWORD then False
                 else True)"

definition in_quotes :: "string \<Rightarrow> string" where
  "in_quotes s = [CHR 0x22] @ replace_all [CHR 0x22] [CHR 0x22, CHR 0x22] s @ [CHR 0x22]"

definition qtTypeIdent :: "kw_table \<Rightarrow> string \<Rightarrow> string" where
  "qtTypeIdent ScanKeywords val =
     (if val = [] then val
      else if needsQuoting ScanKeywords val True then in_quotes val else val)"

definition qtIdent :: "kw_table \<Rightarrow> string \<Rightarrow> string" where
  "qtIdent ScanKeywords val =
     (if val = [] then val
      else if needsQuoting ScanKeywords val False then in_quotes val else val)"

definition qtStrip :: "string \<Rightarrow> string" where
  "qtStrip str = (if left str 2 = [CHR 0x5C, CHR 0x22] then mid_len str 2 (int (length str) - 4) else str)"

section \<open>Strings\<close>

definition qtConnString :: "string \<Rightarrow> string" where
  "qtConnString val =
     [CHR 0x27] @ replace_all [CHR 0x27] [CHR 0x5C, CHR 0x27] (replace_all [CHR 0x5C] [CHR 0x5C, CHR 0x5C] val)
       @ [CHR 0x27]"

definition dollar :: "string \<Rightarrow> string" where
  "dollar qt = ''$'' @ qt @ ''$''"

text \<open>\<open>while (value.Find("$" + qt + "$") >= 0) qt.Printf("%s%d", qtDefault, counter++)\<close>\<close>

lemma finite_tags: "finite {k. sublist (dollar (''BODY'' @ dec k)) v}"
proof (rule finite_subset)
  show "{k. sublist (dollar (''BODY'' @ dec k)) v} \<subseteq> {..<10 ^ length v}"
  proof clarify
    fix k
    assume "sublist (dollar (''BODY'' @ dec k)) v"
    then have "length (dec k) \<le> length v" by (auto simp: dollar_def dest: sublist_length_le)
    moreover have "k < 10 ^ length (dec k)" using undec_bound[OF dec_digits[of k]] by (simp add: undec_dec)
    ultimately show "k < 10 ^ length v" by (meson less_le_trans power_increasing one_le_numeral)
  qed
qed simp

function dollar_loop :: "string \<Rightarrow> string \<Rightarrow> nat \<Rightarrow> string" where
  "dollar_loop val qt counter =
     (if 0 \<le> find_string (dollar qt) val then dollar_loop val (''BODY'' @ dec counter) (counter + 1) else qt)"
  by pat_completeness auto
termination
proof (relation "measure (\<lambda>(v, qt, c). card {k. c \<le> k \<and> sublist (dollar (''BODY'' @ dec k)) v}
      + (if sublist (dollar qt) v then 1 else 0))")
  fix v qt and c :: nat
  let ?S = "\<lambda>c. {k. c \<le> k \<and> sublist (dollar (''BODY'' @ dec k)) v}"
  assume "0 \<le> find_string (dollar qt) v"
  then have q: "sublist (dollar qt) v" using find_string_none[of "dollar qt" v] by linarith
  have fin: "finite (?S (c + 1))" by (rule finite_subset[OF _ finite_tags[of v]]) auto
  have "?S c = (if sublist (dollar (''BODY'' @ dec c)) v then insert c (?S (c + 1)) else ?S (c + 1))"
    by (auto simp: Suc_le_eq le_less)
  then have "card (?S c) = card (?S (c + 1)) + (if sublist (dollar (''BODY'' @ dec c)) v then 1 else 0)"
    using fin by auto
  then show "((v, ''BODY'' @ dec c, c + 1), (v, qt, c)) \<in> measure (\<lambda>(v, qt, c).
      card {k. c \<le> k \<and> sublist (dollar (''BODY'' @ dec k)) v} + (if sublist (dollar qt) v then 1 else 0))"
    using q by simp
qed simp

declare dollar_loop.simps [simp del]

definition qtDbStringDollar :: "string \<Rightarrow> string" where
  "qtDbStringDollar val =
     (if find_char (CHR 0x27) val < 0 \<and> find_char (CHR 0x0A) val < 0 \<and> find_char (CHR 0x0D) val < 0
      then [CHR 0x27] @ replace_all [CHR 0x27] [CHR 0x27, CHR 0x27] (replace_all [CHR 0x5C] [CHR 0x5C, CHR 0x5C] val)
             @ [CHR 0x27]
      else let qt = dollar_loop val ''BODY'' 1 in dollar qt @ val @ dollar qt)"

section \<open>The lookup finds the keywords\<close>

text \<open>The assumption of the comment in the code: the table is sorted, its words are short.\<close>

definition table_ok :: "kw_table \<Rightarrow> bool" where
  "table_ok ks \<longleftrightarrow> sorted_wrt (<) (map fst ks) \<and> (\<forall>k\<in>set ks. length (fst k) < NAMEDATALEN)"

definition keyword_of :: "kw_table \<Rightarrow> string \<Rightarrow> keyword_category option" where
  "keyword_of ks w = (case map_of ks w of None \<Rightarrow> map_of ScanKeywordsExtra w | Some c \<Rightarrow> Some c)"

lemma sorted_distinct: "sorted_wrt (<) (xs :: string list) \<Longrightarrow> distinct xs"
  by (induction xs) auto

lemma keyword_search_map_of:
  assumes "table_ok ks"
  shows "keyword_search ks w 0 (int (length ks) - 1) = map_option (Pair w) (map_of ks w)"
proof (cases "keyword_search ks w 0 (int (length ks) - 1)")
  case None
  have "fst (ks ! i) \<noteq> w" if "i < length ks" for i
    using keyword_search_complete[of ks 0 "int (length ks) - 1" "int i" w] None that assms
    by (auto simp: table_ok_def)
  then have "w \<notin> fst ` set ks" by (metis imageE in_set_conv_nth)
  then have "map_of ks w = None" by (simp add: map_of_eq_None_iff)
  then show ?thesis using None by simp
next
  case (Some k)
  then have k: "k \<in> set ks" "fst k = w" using keyword_search_sound[OF _ _ Some] by simp_all
  have "distinct (map fst ks)" using assms sorted_distinct by (auto simp: table_ok_def)
  then have "map_of ks w = Some (snd k)" using k by (metis map_of_eq_Some_iff prod.collapse)
  then show ?thesis using Some k(2) by (cases k) simp
qed

lemma extra_ok: "table_ok ScanKeywordsExtra"
  by (simp add: table_ok_def ScanKeywordsExtra_def NAMEDATALEN_def less_char_def)

lemma lookup_keyword_of:
  assumes "table_ok ks"
  shows "ScanKeywordLookup ks txt = map_option (Pair (str_lower txt)) (keyword_of ks (str_lower txt))"
proof (cases "NAMEDATALEN \<le> length txt")
  case True
  have "map_of t (str_lower txt) = None" if "table_ok t" for t
    using that True by (force simp: table_ok_def map_of_eq_None_iff str_lower_def)
  then show ?thesis using True assms extra_ok by (simp add: ScanKeywordLookup_def keyword_of_def)
next
  case False
  then show ?thesis
    by (simp add: ScanKeywordLookup_def keyword_of_def Let_def keyword_search_map_of[OF assms]
        keyword_search_map_of[OF extra_ok] split: option.split)
qed

section \<open>Reading an identifier\<close>

text \<open>The lexical rules of PostgreSQL: a name in double quotes, in which a doubled quote is one, or a
  word of lower case letters, digits and underscores that is no reserved word.\<close>

fun read_quoted :: "string \<Rightarrow> string option" where
  "read_quoted [] = None"
| "read_quoted [c] = (if c = CHR 0x22 then Some [] else None)"
| "read_quoted (c # d # s) =
     (if c = CHR 0x22 then if d = CHR 0x22 then map_option (Cons c) (read_quoted s) else None
      else map_option (Cons c) (read_quoted (d # s)))"

definition word_char :: "char \<Rightarrow> bool" where
  "word_char c \<longleftrightarrow> lower_letter c \<or> is_digit c \<or> c = CHR ''_''"

definition read_name :: "kw_table \<Rightarrow> string \<Rightarrow> string option" where
  "read_name ks s =
     (case s of
        [] \<Rightarrow> None
      | c # t \<Rightarrow>
          if c = CHR 0x22 then read_quoted t
          else if \<not> is_digit c \<and> list_all word_char s \<and> keyword_of ks s \<in> {None, Some UNRESERVED_KEYWORD}
          then Some s else None)"

lemma read_quoted_other: "c \<noteq> CHR 0x22 \<Longrightarrow> read_quoted (c # s) = map_option (Cons c) (read_quoted s)"
  by (cases s) simp_all

lemma read_in_quotes:
  "read_quoted (concat (map (\<lambda>d. if d = CHR 0x22 then [CHR 0x22, CHR 0x22] else [d]) s) @ [CHR 0x22]) = Some s"
  by (induction s) (simp_all add: read_quoted_other)

lemma digit_not_lower: "is_digit c \<Longrightarrow> \<not> lower_letter c"
  unfolding is_digit_cases by (elim disjE) (simp_all add: lower_letter_def)

lemma quoting_loop_later: "0 < p \<Longrightarrow> \<not> quoting_loop p s \<longleftrightarrow> list_all word_char s"
  by (induction p s rule: quoting_loop.induct) (simp_all add: word_char_def)

lemma quoting_loop_false:
  "\<not> quoting_loop 0 s \<longleftrightarrow> list_all word_char s \<and> (s = [] \<or> \<not> is_digit (hd s))"
proof (cases s)
  case (Cons c t)
  have "\<not> is_digit (CHR ''_'')" by (simp add: is_digit_cases)
  then show ?thesis
    using Cons quoting_loop_later[of 1 t] digit_not_lower by (auto simp: word_char_def)
qed simp

lemma lower_word: "list_all word_char s \<Longrightarrow> str_lower s = s"
proof -
  have "lower_char c = c" if "word_char c" for c
  proof -
    have "\<not> (65 \<le> (of_char c :: nat) \<and> of_char c \<le> (90 :: nat))"
      using that unfolding word_char_def is_digit_cases by (elim disjE) (simp_all add: lower_letter_def)
    then show ?thesis by (auto simp: lower_char_def)
  qed
  then show "list_all word_char s \<Longrightarrow> str_lower s = s"
    by (induction s) (simp_all add: str_lower_def)
qed

text \<open>C24. A quoted identifier is read back: for every non-empty name, whatever characters it has,
  the text of \<open>qtIdent\<close> is read as that name by the rules of PostgreSQL, as a word or in double
  quotes; every reserved word is quoted.\<close>

theorem qt_ident_reads_back:
  assumes "table_ok ks" "val \<noteq> []"
  shows "read_name ks (qtIdent ks val) = Some val"
proof (cases "needsQuoting ks val False")
  case True
  then show ?thesis
    using assms(2) by (simp add: qtIdent_def in_quotes_def read_name_def replace_all_1 read_in_quotes)
next
  case False
  then have q: "\<not> IsNumber val" "\<not> quoting_loop 0 val"
    "case ScanKeywordLookup ks val of None \<Rightarrow> True | Some (n, c) \<Rightarrow> c = UNRESERVED_KEYWORD"
    by (auto simp: needsQuoting_def Let_def split: if_splits option.splits)
  then have w: "list_all word_char val" "\<not> is_digit (hd val)"
    using assms(2) by (simp_all add: quoting_loop_false)
  have "keyword_of ks val \<in> {None, Some UNRESERVED_KEYWORD}"
    using q(3) lookup_keyword_of[OF assms(1), of val] lower_word[OF w(1)] by (auto split: option.splits)
  moreover have "hd val \<noteq> CHR 0x22"
    using w(1) assms(2) by (cases val) (auto simp: word_char_def lower_letter_def is_digit_cases)
  ultimately show ?thesis
    using False assms(2) w by (cases val) (simp_all add: qtIdent_def read_name_def)
qed

theorem qt_ident_reads_back_witness:
  "read_name [(''from'', RESERVED_KEYWORD), (''select'', RESERVED_KEYWORD)]
     (qtIdent [(''from'', RESERVED_KEYWORD), (''select'', RESERVED_KEYWORD)] ''select'') = Some ''select''"
  by (rule qt_ident_reads_back) (simp_all add: table_ok_def NAMEDATALEN_def less_char_def)

section \<open>Reading a string\<close>

text \<open>A dollar quoted string as PostgreSQL reads it: it ends where the opening quote occurs again;
  \<open>None\<close> where it does not, or where it ends before the end of the text.\<close>

definition dollar_read :: "string \<Rightarrow> string option" where
  "dollar_read s =
     (let d = dollar (before_first (CHR ''$'') (drop 1 s)); b = drop (length d) s; i = find_string d b in
      if 0 \<le> i \<and> nat i + length d = length b then Some (take (nat i) b) else None)"

lemma digits_no_dollar: "list_all is_digit s \<Longrightarrow> CHR ''$'' \<notin> set s"
  by (induction s) (auto simp: is_digit_def)

lemma dollar_loop_tag:
  "CHR ''$'' \<notin> set qt \<Longrightarrow> CHR ''$'' \<notin> set (dollar_loop v qt c) \<and> \<not> sublist (dollar (dollar_loop v qt c)) v"
proof (induction v qt c rule: dollar_loop.induct)
  case (1 v qt c)
  show ?case
  proof (cases "0 \<le> find_string (dollar qt) v")
    case True
    then show ?thesis
      using 1 digits_no_dollar[OF dec_digits[of c]] by (subst (1 2) dollar_loop.simps) simp
  next
    case False
    then show ?thesis
      using 1(2) find_string_none[of "dollar qt" v] by (subst (1 2) dollar_loop.simps) simp
  qed
qed

text \<open>Only the last \<open>$\<close> of the quote can be the start of another one.\<close>

lemma dollar_overlap:
  assumes "CHR ''$'' \<notin> set qt" "\<not> prefix (dollar qt) u" "u \<noteq> []"
  shows "prefix (dollar qt) (u @ dollar qt) \<longleftrightarrow> u = CHR ''$'' # qt"
proof
  assume "prefix (dollar qt) (u @ dollar qt)"
  then obtain us where us: "dollar qt = u @ us" "prefix us (dollar qt)"
    using assms(2) by (auto simp: prefix_append)
  obtain u' where u: "u = CHR ''$'' # u'" "qt @ ''$'' = u' @ us"
    using us(1) assms(3) by (cases u) (auto simp: dollar_def)
  have "us \<noteq> []" using us(1) assms(2) by auto
  then obtain us' where "us = CHR ''$'' # us'" using us(2) by (cases us) (auto simp: dollar_def)
  then have "qt @ CHR ''$'' # [] = u' @ CHR ''$'' # us'" using u(2) by simp
  then have "qt = u'" using assms(1) by (simp add: append_eq_append_conv2 append_eq_Cons_conv Cons_eq_append_conv) auto
  then show "u = CHR ''$'' # qt" using u(1) by simp
qed (simp add: dollar_def)

lemma find_closing_quote:
  assumes q: "CHR ''$'' \<notin> set qt" and v: "\<not> sublist (dollar qt) v"
  shows "find_string (dollar qt) (v @ dollar qt) = int (length v) \<longleftrightarrow> \<not> suffix (CHR ''$'' # qt) v"
proof -
  let ?D = "dollar qt" and ?f = "find_string (dollar qt) (v @ dollar qt)"
  have pos: "0 \<le> ?f" using find_string_none[of ?D "v @ ?D"] by (auto simp: not_less)
  note found = find_string_at[OF pos]
  have early: "prefix ?D (drop i (v @ ?D)) \<longleftrightarrow> drop i v = CHR ''$'' # qt" if "i < length v" for i
  proof -
    have "\<not> prefix ?D (drop i v)"
      using v by (meson prefix_imp_sublist sublist_drop sublist_order.order_trans)
    then show ?thesis using dollar_overlap[OF q, of "drop i v"] that by simp
  qed
  have "\<not> length v < nat ?f" using found by (metis append_eq_conv_conj prefix_order.refl)
  then have le: "nat ?f \<le> length v" by simp
  show ?thesis
  proof
    assume f: "?f = int (length v)"
    show "\<not> suffix (CHR ''$'' # qt) v"
    proof
      assume "suffix (CHR ''$'' # qt) v"
      then obtain w where w: "v = w @ CHR ''$'' # qt" by (auto simp: suffix_def)
      have "prefix ?D (drop (length w) (v @ ?D))" using early[of "length w"] w by simp
      moreover have "length w < nat ?f" using f w by simp
      ultimately show False using found by blast
    qed
  next
    assume "\<not> suffix (CHR ''$'' # qt) v"
    then have "\<not> nat ?f < length v" using early[of "nat ?f"] found suffix_drop by metis
    then show "?f = int (length v)" using le pos by simp
  qed
qed

text \<open>C25. A text of several lines, or with an apostrophe, is written between dollar quotes that it does
  not contain, and PostgreSQL reads the text back, except where the text ends with a dollar sign and
  the word of the quotes: then it is cut there.\<close>

theorem dollar_quote_reads_back:
  assumes "CHR 0x0A \<in> set val \<or> CHR 0x27 \<in> set val"
  shows "let tag = dollar_loop val ''BODY'' 1 in
     qtDbStringDollar val = dollar tag @ val @ dollar tag
     \<and> (dollar_read (qtDbStringDollar val) = Some val \<longleftrightarrow> \<not> suffix (CHR ''$'' # tag) val)"
proof -
  define tag where "tag = dollar_loop val ''BODY'' 1"
  have tag: "CHR ''$'' \<notin> set tag" "\<not> sublist (dollar tag) val"
    using dollar_loop_tag[of "''BODY''" val 1] by (simp_all add: tag_def)
  have out: "qtDbStringDollar val = dollar tag @ val @ dollar tag"
    using assms(1) by (auto simp: qtDbStringDollar_def find_char_none tag_def Let_def)
  have "before_first (CHR ''$'') (tag @ CHR ''$'' # t) = tag" for t
    using tag(1) by (auto simp: before_first_def takeWhile_append)
  then have read: "dollar_read (dollar tag @ val @ dollar tag) =
     (let i = find_string (dollar tag) (val @ dollar tag) in
      if 0 \<le> i \<and> nat i = length val then Some (take (nat i) (val @ dollar tag)) else None)"
    by (simp add: dollar_read_def dollar_def Let_def)
  have "dollar_read (qtDbStringDollar val) = Some val \<longleftrightarrow> \<not> suffix (CHR ''$'' # tag) val"
    using find_closing_quote[OF tag] by (auto simp: out read Let_def)
  then show ?thesis using out unfolding Let_def tag_def[symmetric] by blast
qed

theorem dollar_quote_reads_back_witness:
  "qtDbStringDollar [CHR 0x0A] = ''$BODY$'' @ [CHR 0x0A] @ ''$BODY$''"
  using dollar_quote_reads_back[of "[CHR 0x0A]"]
  by (simp add: Let_def dollar_loop.simps dollar_def)

text \<open>A text in quotes \<open>q\<close> as libpq reads a connection parameter and a command line reads an argument: a
  back slash keeps the next character, the quote ends it; the result is the value and the remaining
  text.\<close>

fun read_escaped :: "char \<Rightarrow> string \<Rightarrow> (string \<times> string) option" where
  "read_escaped q [] = None"
| "read_escaped q (c # s) =
     (if c = q then Some ([], s)
      else if c = CHR 0x5C
      then case s of [] \<Rightarrow> None | d # t \<Rightarrow> map_option (apfst (Cons d)) (read_escaped q t)
      else map_option (apfst (Cons c)) (read_escaped q s))"

lemma read_esc: "q \<noteq> CHR 0x5C \<Longrightarrow> read_escaped q (esc (CHR 0x5C) q s @ q # rest) = Some (s, rest)"
  by (induction s) (simp_all add: esc_char_def)

text \<open>libpq reads a quoted connection parameter back, whatever characters it has, and goes on after
  it.\<close>

theorem conn_string_reads_back:
  "read_escaped (CHR 0x27) (drop 1 (qtConnString val @ rest)) = Some (val, rest)"
  by (simp add: qtConnString_def replace_escape read_esc)

section \<open>Options of a command line\<close>

definition commandLineCleanOption :: "string \<Rightarrow> bool \<Rightarrow> string" where
  "commandLineCleanOption option schemaObject =
     (if schemaObject then replace_all [CHR 0x22] [CHR 0x5C, CHR 0x22] option
      else
        let tmp = (if prefix [CHR 0x22] option \<and> suffix [CHR 0x22] option
                   then before_last (CHR 0x22) (after_first (CHR 0x22) option) else option);
            tmp = replace_all [CHR 0x5C] [CHR 0x5C, CHR 0x5C] tmp;
            tmp = replace_all [CHR 0x22] [CHR 0x5C, CHR 0x22] tmp;
            tmp = replace_all [CHR 0x5C, CHR 0x22, CHR 0x5C, CHR 0x22] [CHR 0x5C, CHR 0x22] tmp in
        [CHR 0x22] @ tmp @ [CHR 0x22])"

lemma esc_not_quote: "b \<noteq> q \<Longrightarrow> \<not> prefix (q # t) (esc b q s)"
  by (cases s) (auto simp: esc_char_def)

lemma esc_doubled:
  "replace_all [CHR 0x5C, CHR 0x22, CHR 0x5C, CHR 0x22] [CHR 0x5C, CHR 0x22]
     (esc (CHR 0x5C) (CHR 0x22) (replace_all [CHR 0x22] [CHR 0x22, CHR 0x22] s)) = esc (CHR 0x5C) (CHR 0x22) s"
proof (induction s)
  case (Cons c s)
  then show ?case by (simp add: replace_all_1 esc_char_def esc_not_quote)
qed simp

lemma word_no_quote: "list_all word_char s \<Longrightarrow> CHR 0x22 \<notin> set s \<and> CHR 0x5C \<notin> set s"
  by (induction s) (auto simp: word_char_def lower_letter_def is_digit_cases)

text \<open>C26. The name of an object on a command line: whatever the name, a command line reads the option made
  of its quoted identifier as the name itself.\<close>

theorem command_line_name:
  "read_escaped (CHR 0x22) (drop 1 (commandLineCleanOption (qtIdent ks name) False) @ rest) = Some (name, rest)"
proof (cases "name \<noteq> [] \<and> needsQuoting ks name False")
  case True
  then show ?thesis
    by (simp add: qtIdent_def in_quotes_def commandLineCleanOption_def after_first_def before_last_def
        suffix_def replace_escape esc_doubled read_esc Let_def)
next
  case False
  then have id: "qtIdent ks name = name" by (auto simp: qtIdent_def)
  have "list_all word_char name"
    using False by (cases "name = []") (auto simp: needsQuoting_def Let_def quoting_loop_false split: if_splits)
  then have q: "CHR 0x22 \<notin> set name" "CHR 0x5C \<notin> set name" using word_no_quote by auto
  then have "\<not> prefix [CHR 0x22] name" by (auto simp: prefix_def)
  moreover have "esc (CHR 0x5C) (CHR 0x22) name = name"
    using q by (induction name) (auto simp: esc_char_def)
  moreover have "replace_all [CHR 0x5C, CHR 0x22, CHR 0x5C, CHR 0x22] [CHR 0x5C, CHR 0x22] name = name"
    using q by (intro replace_all_id) simp_all
  ultimately show ?thesis
    using read_esc[of "CHR 0x22" name rest] by (simp add: id commandLineCleanOption_def replace_escape Let_def)
qed

end
