(* ===== verification/ListText.thy ===== *)
theory ListText
  imports WxText Prelude "HOL-Library.Word"
begin

text \<open>
  The lists within texts of \<open>utils/misc.cpp\<close>: the elements of an array as the server prints it
  (\<open>FillArray\<close>, \<open>TransformToNewDatconfig\<close>) and the arguments of a function
  (\<open>getArrayFromCommaSeparatedList\<close>). The loops are structural recursions over the rest of the text;
  a \<open>size_t\<close> counter is a word of 64 bits. Shown: the elements of a quoted list, of a list of
  settings and of a list of arguments with brackets and quotes are found again.
\<close>

fun comma_list :: "string list \<Rightarrow> string" where
  "comma_list [] = []"
| "comma_list [s] = s"
| "comma_list (s # t # ss) = s @ CHR '','' # comma_list (t # ss)"

abbreviation dq :: char where "dq \<equiv> CHR 0x22"
abbreviation sq :: char where "sq \<equiv> CHR 0x27"
abbreviation backslash :: char where "backslash \<equiv> CHR 0x5C"

section \<open>Arrays\<close>

text \<open>\<open>FillArray\<close>: the loop over the rest \<open>cp\<close> of the text. A back slash before a double quote keeps the
  quote, any other back slash is skipped; a comma within quotes falls through to the default case.\<close>

fun fill_loop :: "string list \<Rightarrow> string \<Rightarrow> bool \<Rightarrow> string \<Rightarrow> string list" where
  "fill_loop array str quote [] = (if str \<noteq> [] then array @ [str] else array)"
| "fill_loop array str quote (c # cp) =
     (if c = backslash then
        case cp of
          [] \<Rightarrow> fill_loop array str quote []
        | d # t \<Rightarrow> if d = dq then fill_loop array (str @ [d]) quote t else fill_loop array str quote cp
      else if c = dq \<or> c = sq then fill_loop array str (\<not> quote) cp
      else if c = CHR '','' \<and> \<not> quote then fill_loop (array @ [str]) [] quote cp
      else fill_loop array (str @ [c]) quote cp)"

definition FillArray :: "string list \<Rightarrow> string \<Rightarrow> string list" where
  "FillArray array list = fill_loop array [] False list"

fun datconfig_loop :: "string \<Rightarrow> string \<Rightarrow> bool \<Rightarrow> string \<Rightarrow> string" where
  "datconfig_loop config str quote [] =
     (if str \<noteq> [] then (if config \<noteq> [] then config @ '','' else config) @ ''='' @ str else config)"
| "datconfig_loop config str quote (c # cp) =
     (if c = backslash then
        case cp of
          [] \<Rightarrow> datconfig_loop config str quote []
        | d # t \<Rightarrow> if d = dq then datconfig_loop config (str @ [c, d]) quote t else datconfig_loop config str quote cp
      else if c = dq \<or> c = sq then datconfig_loop config (str @ [c]) (\<not> quote) cp
      else if c = CHR '','' \<and> \<not> quote
      then datconfig_loop ((if config \<noteq> [] then config @ '','' else config) @ ''='' @ str) [] quote cp
      else datconfig_loop config (str @ [c]) quote cp)"

definition TransformToNewDatconfig :: "string \<Rightarrow> string" where
  "TransformToNewDatconfig list = datconfig_loop [] [] False list"

text \<open>An element as the server prints it: in double quotes, with a back slash before each double quote.\<close>

definition quoted_element :: "string \<Rightarrow> string" where
  "quoted_element e = dq # concat (map (\<lambda>c. if c = dq then [backslash, dq] else [c]) e) @ [dq]"

definition simple_element :: "string \<Rightarrow> bool" where
  "simple_element e \<longleftrightarrow> backslash \<notin> set e \<and> sq \<notin> set e"

lemma fill_quoted:
  "simple_element e \<Longrightarrow>
   fill_loop a s True (concat (map (\<lambda>c. if c = dq then [backslash, dq] else [c]) e) @ dq # rest)
     = fill_loop a (s @ e) False rest"
  by (induction e arbitrary: s) (auto simp: simple_element_def)

lemma fill_element: "simple_element e \<Longrightarrow> fill_loop a s False (quoted_element e @ rest) = fill_loop a (s @ e) False rest"
  using fill_quoted[of e a s rest] by (simp add: quoted_element_def)

lemma fill_elements:
  "list_all simple_element (e # es) \<Longrightarrow>
   fill_loop a [] False (comma_list (map quoted_element (e # es)))
     = a @ (if last (e # es) = [] then butlast (e # es) else e # es)"
proof (induction es arbitrary: a e)
  case Nil
  then show ?case using fill_element[of e a "[]" "[]"] by simp
next
  case (Cons e' es)
  then show ?case
    using fill_element[of e a "[]" "CHR '','' # comma_list (map quoted_element (e' # es))"] by simp
qed

text \<open>The elements of an array text, each in double quotes, are added to the array in their order,
  with the quotes in them read back; an empty last element is lost. The elements have no back slash
  and no apostrophe.\<close>

theorem fill_array_elements:
  assumes "list_all simple_element es"
  shows "FillArray a (comma_list (map quoted_element es)) =
    a @ (if es \<noteq> [] \<and> last es = [] then butlast es else es)"
proof (cases es)
  case (Cons e es')
  then show ?thesis using fill_elements[of e es' a] assms by (simp add: FillArray_def del: comma_list.simps)
qed (simp add: FillArray_def)

theorem fill_array_elements_witness:
  "FillArray [] (comma_list (map quoted_element [[dq], ''a,b'', []])) = [[dq], ''a,b'']"
  using fill_array_elements[of "[[dq], ''a,b'', []]" "[]"] by (simp add: simple_element_def)

text \<open>An apostrophe merges two elements, a back slash that the server has doubled is lost.\<close>

theorem array_element_damaged:
  "FillArray [] (''it'' @ [sq] @ ''s,b'') = [''its,b''] \<and>
   FillArray [] [dq, CHR ''a'', backslash, backslash, CHR ''b'', dq] = [''ab'']"
  by (simp add: FillArray_def)

text \<open>The text of the settings so far, with the start of the next one: scanning it leaves the settings
  found, whatever follows.\<close>

definition scans_to :: "string \<Rightarrow> string list \<Rightarrow> string \<Rightarrow> bool \<Rightarrow> bool" where
  "scans_to t arr str quote \<longleftrightarrow> (\<forall>rest. fill_loop [] [] False (t @ rest) = fill_loop arr str quote rest)"

lemma scans_to_step:
  "scans_to t arr str quote \<Longrightarrow> (\<And>rest. fill_loop arr str quote (u @ rest) = fill_loop arr' str' quote' rest) \<Longrightarrow>
   scans_to (t @ u) arr' str' quote'"
  by (simp add: scans_to_def)

definition next_setting :: "string \<Rightarrow> string" where
  "next_setting config = (if config \<noteq> [] then config @ '','' else config) @ ''=''"

lemma datconfig_fill:
  assumes "cp = [] \<longrightarrow> (str = [] \<longleftrightarrow> ustr = [])" "cp \<noteq> [] \<longrightarrow> last cp \<notin> {dq, sq, backslash}"
    "scans_to (next_setting config @ str) (map (Cons CHR ''='') arr) (CHR ''='' # ustr) quote"
    "fill_loop [] [] False config = map (Cons CHR ''='') arr"
  shows "fill_loop [] [] False (datconfig_loop config str quote cp) = map (Cons CHR ''='') (fill_loop arr ustr quote cp)"
  using assms
proof (induction cp arbitrary: config str quote arr ustr rule: measure_induct_rule[of length])
  case (less l)
  note prems = less(2-5) and S = scans_to_step[OF less(4)]
  note IH = less(1)
  have all: "fill_loop [] [] False (next_setting config @ str) = map (Cons CHR ''='') arr @ [CHR ''='' # ustr]"
    using prems(3) unfolding scans_to_def by (auto dest: spec[of _ "[]"])
  consider (nil) "l = []" | (slash) cp where "l = backslash # dq # cp"
    | (skip) d cp where "l = backslash # d # cp" "d \<noteq> dq"
    | (quote) c cp where "l = c # cp" "c = dq \<or> c = sq" "cp \<noteq> []"
    | (comma) cp where "l = CHR '','' # cp" "\<not> quote"
    | (other) c cp where "l = c # cp" "c \<notin> {backslash, dq, sq}" "\<not> (c = CHR '','' \<and> \<not> quote)"
    using prems(2) by (cases l; cases "tl l") auto
  then show ?case
  proof cases
    case nil
    then show ?thesis using prems all by (auto simp: next_setting_def)
  next
    case slash
    have "scans_to ((next_setting config @ str) @ [backslash, dq])
        (map (Cons CHR ''='') arr) (CHR ''='' # ustr @ [dq]) quote"
      by (intro S) simp
    then show ?thesis
      using slash prems(2,4) IH[of cp "str @ [backslash, dq]" "ustr @ [dq]" config arr quote]
      by (simp split: if_splits)
  next
    case skip
    then show ?thesis using prems IH[of "d # cp" str ustr config arr quote] by simp
  next
    case quote
    then have "scans_to ((next_setting config @ str) @ [c]) (map (Cons CHR ''='') arr) (CHR ''='' # ustr) (\<not> quote)"
      by (intro S) auto
    then show ?thesis
      using quote prems(2,4) IH[of cp "str @ [c]" ustr config arr "\<not> quote"] by auto
  next
    case comma
    let ?config = "next_setting config @ str"
    have "scans_to ((next_setting config @ str) @ '',='') (map (Cons CHR ''='') (arr @ [ustr])) ''='' False"
      using comma by (intro S) simp
    then show ?thesis
      using comma prems(2) all IH[of cp "[]" "[]" ?config "arr @ [ustr]" False]
      by (simp add: next_setting_def split: if_splits)
  next
    case other
    then have "scans_to ((next_setting config @ str) @ [c]) (map (Cons CHR ''='') arr) (CHR ''='' # ustr @ [c]) quote"
      by (intro S) auto
    then show ?thesis
      using other prems(2,4) IH[of cp "str @ [c]" "ustr @ [c]" config arr quote] by (auto split: if_splits)
  qed
qed

text \<open>The text of the settings with an equals sign before each of them has the same settings, each
  with the equals sign, as the array that is filled from it shows. The text does not end in a quote or
  a back slash.\<close>

theorem datconfig_settings:
  assumes "list \<noteq> [] \<Longrightarrow> last list \<notin> {dq, sq, backslash}"
  shows "FillArray [] (TransformToNewDatconfig list) = map (Cons CHR ''='') (FillArray [] list)"
  unfolding FillArray_def TransformToNewDatconfig_def
  by (rule datconfig_fill) (use assms in \<open>auto simp: scans_to_def next_setting_def\<close>)

theorem datconfig_settings_witness:
  "FillArray [] (TransformToNewDatconfig ''a=1,b=2'') = [''=a=1'', ''=b=2'']"
  using datconfig_settings[of "''a=1,b=2''"] by (simp add: FillArray_def)

section \<open>Arguments\<close>

text \<open>\<open>getArrayFromCommaSeparatedList\<close>: the loop from \<open>index\<close> on; \<open>cs\<close> is the rest of the text. The level
  of brackets wraps around. The result tells whether all quotes and brackets were closed.\<close>

definition sub_string :: "string \<Rightarrow> nat \<Rightarrow> nat \<Rightarrow> string" where
  "sub_string s first last' = take (last' + 1 - first) (drop first s)"

fun comma_loop :: "string \<Rightarrow> nat \<Rightarrow> nat \<Rightarrow> 64 word \<Rightarrow> bool \<Rightarrow> bool \<Rightarrow> string list \<Rightarrow> string \<Rightarrow> bool \<times> string list" where
  "comma_loop str index startArray nBracketLevel inSingleQuote inDoubleQuote res [] =
     (if inDoubleQuote \<or> inSingleQuote \<or> nBracketLevel \<noteq> 0 then (False, res)
      else (True, res @ [trim_left (trim_right (sub_string str startArray index))]))"
| "comma_loop str index startArray nBracketLevel inSingleQuote inDoubleQuote res (ch # cs) =
     (if \<not> inDoubleQuote \<and> ch = sq
      then comma_loop str (index + 1) startArray nBracketLevel (\<not> inSingleQuote) inDoubleQuote res cs
      else if \<not> inSingleQuote \<and> ch = dq
      then comma_loop str (index + 1) startArray nBracketLevel inSingleQuote (\<not> inDoubleQuote) res cs
      else if \<not> inDoubleQuote \<and> \<not> inSingleQuote \<and> ch = CHR ''(''
      then comma_loop str (index + 1) startArray (nBracketLevel + 1) inSingleQuote inDoubleQuote res cs
      else if \<not> inDoubleQuote \<and> \<not> inSingleQuote \<and> ch = CHR '')''
      then comma_loop str (index + 1) startArray (nBracketLevel - 1) inSingleQuote inDoubleQuote res cs
      else if \<not> inDoubleQuote \<and> \<not> inSingleQuote \<and> nBracketLevel = 0 \<and> ch = CHR '',''
      then comma_loop str (index + 1) (index + 1) nBracketLevel inSingleQuote inDoubleQuote
             (res @ [if index \<noteq> startArray
                     then trim_left (trim_right (sub_string str startArray (index - 1))) else []]) cs
      else comma_loop str (index + 1) startArray nBracketLevel inSingleQuote inDoubleQuote res cs)"

definition getArrayFromCommaSeparatedList :: "string \<Rightarrow> string list \<Rightarrow> bool \<times> string list" where
  "getArrayFromCommaSeparatedList str res =
     (if length str = 0 then (True, res) else comma_loop str 0 0 0 False False res str)"

text \<open>The text of an argument: characters, texts in quotes, and parts in brackets, within which a comma
  can stand (\<open>inner\<close>).\<close>

inductive argument :: "bool \<Rightarrow> string \<Rightarrow> bool" where
  empty: "argument inner []"
| plain: "c \<notin> {sq, dq, CHR ''('', CHR '')'', CHR '',''} \<Longrightarrow> argument inner s \<Longrightarrow> argument inner (c # s)"
| comma: "argument True s \<Longrightarrow> argument True (CHR '','' # s)"
| single: "sq \<notin> set q \<Longrightarrow> argument inner s \<Longrightarrow> argument inner (sq # q @ sq # s)"
| double: "dq \<notin> set q \<Longrightarrow> argument inner s \<Longrightarrow> argument inner (dq # q @ dq # s)"
| brackets: "argument True r \<Longrightarrow> argument inner s \<Longrightarrow> argument inner (CHR ''('' # r @ CHR '')'' # s)"

lemma skip_single: "sq \<notin> set q \<Longrightarrow>
  comma_loop str i st lv True False res (q @ rest) = comma_loop str (i + length q) st lv True False res rest"
  by (induction q arbitrary: i) auto

lemma skip_double: "dq \<notin> set q \<Longrightarrow>
  comma_loop str i st lv False True res (q @ rest) = comma_loop str (i + length q) st lv False True res rest"
  by (induction q arbitrary: i) auto

lemma level_up:
  assumes "unat (lv :: 64 word) + 1 < 2 ^ 64"
  shows "lv + 1 \<noteq> 0" "unat (lv + 1) = unat lv + 1"
proof -
  show u: "unat (lv + 1) = unat lv + 1" using assms by (simp add: unat_word_ariths)
  show "lv + 1 \<noteq> 0" using u by (metis Suc_eq_plus1 nat.distinct(1) unat_0)
qed

text \<open>The loop goes over an argument without a change of its state.\<close>

lemma skip_argument:
  "argument inner s \<Longrightarrow> (inner \<Longrightarrow> lv \<noteq> 0) \<Longrightarrow> unat lv + length s < 2 ^ 64 \<Longrightarrow>
   comma_loop str i st lv False False res (s @ rest) = comma_loop str (i + length s) st lv False False res rest"
proof (induction inner s arbitrary: i lv rest rule: argument.induct)
  case (brackets r inner s)
  have lv: "lv + 1 \<noteq> 0" "unat (lv + 1) = unat lv + 1"
    using level_up[of lv] brackets.prems(2) by simp_all
  have "comma_loop str (i + 1) st (lv + 1) False False res (r @ CHR '')'' # s @ rest)
      = comma_loop str (i + 1 + length r) st (lv + 1) False False res (CHR '')'' # s @ rest)"
    using brackets.prems(2) lv by (intro brackets.IH(1)) simp_all
  then show ?case
    using brackets.IH(2)[of lv "i + 2 + length r" rest] brackets.prems by (simp add: ac_simps)
next
  case (single q inner s)
  then show ?case using skip_single[of q str "i + 1" st lv res "sq # s @ rest"] by (simp add: ac_simps)
next
  case (double q inner s)
  then show ?case using skip_double[of q str "i + 1" st lv res "dq # s @ rest"] by (simp add: ac_simps)
qed auto

lemma argument_list:
  "list_all (argument False) (e # es) \<Longrightarrow> length str < 2 ^ 64 \<Longrightarrow> drop i str = comma_list (e # es) \<Longrightarrow> i \<le> length str \<Longrightarrow>
   comma_loop str i i 0 False False res (comma_list (e # es))
     = (True, res @ map (\<lambda>e. trim_left (trim_right e)) (e # es))"
proof (induction es arbitrary: e i res)
  case Nil
  have "length e < 2 ^ 64" using Nil(2,3) by (metis comma_list.simps(2) length_drop less_imp_diff_less)
  moreover have "length str = i + length e"
    using Nil(3,4) by (metis comma_list.simps(2) le_add_diff_inverse length_drop)
  ultimately show ?case
    using Nil skip_argument[of False e 0 str i i res "[]"] by (simp add: sub_string_def)
next
  case (Cons e' es)
  have d: "drop i str = e @ CHR '','' # comma_list (e' # es)" using Cons(4) by simp
  have len: "length e < 2 ^ 64" "i + length e + 1 \<le> length str"
    using arg_cong[OF d, of length] Cons(3,5) by simp_all
  have rest: "drop (i + length e + 1) str = comma_list (e' # es)"
    using arg_cong[OF d, of "drop (length e + 1)"] by (simp add: ac_simps)
  have part: "trim_left (trim_right e) =
      (if i + length e \<noteq> i then trim_left (trim_right (sub_string str i (i + length e - 1))) else [])"
    using d by (cases e) (simp_all add: sub_string_def trim_left_def trim_right_def)
  show ?case
    using Cons.IH[of e' "i + length e + 1" "res @ [trim_left (trim_right e)]"] Cons.prems len rest part
      skip_argument[of False e 0 str i i res "CHR '','' # comma_list (e' # es)"]
    by simp
qed

text \<open>C27. The arguments of a text separated by commas are found, in their order and without the space
  around them: a comma in a text in quotes or in brackets, to any depth, does not separate.\<close>

theorem arguments_found:
  assumes "list_all (argument False) es" "comma_list es \<noteq> []" "length (comma_list es) < 2 ^ 64"
  shows "getArrayFromCommaSeparatedList (comma_list es) res
    = (True, res @ map (\<lambda>e. trim_left (trim_right e)) es)"
proof (cases es)
  case (Cons e es')
  then show ?thesis
    using argument_list[of e es' "comma_list es" 0 res] assms
    by (simp add: getArrayFromCommaSeparatedList_def del: comma_list.simps)
qed (use assms in simp)

theorem arguments_found_witness:
  "getArrayFromCommaSeparatedList ''a, numeric(1,2)'' [] = (True, [''a'', ''numeric(1,2)''])"
proof -
  have b: "argument False (''('' @ ''1,2'' @ '')'')"
    using argument.brackets[of "''1,2''" False "[]"] by (simp add: argument.intros)
  have "argument False ('' numeric'' @ ''(1,2)'')"
    using b by (simp add: argument.plain)
  moreover have "argument False ''a''" by (simp add: argument.intros)
  ultimately show ?thesis
    using arguments_found[of "[''a'', '' numeric(1,2)'']" "[]"]
    by (simp add: trim_left_def trim_right_def is_space_def)
qed

end
