(* ===== verification/MiscText.thy ===== *)
theory MiscText
  imports WxText MapmText "HOL-Library.Signed_Division"
begin

text \<open>
  Further texts of \<open>utils/misc.cpp\<close>: truth values, elapsed times, the first line of a text, HTML.
  An elapsed time is a number of milliseconds, as \<open>wxTimeSpan\<close> keeps it; its operations truncate and
  the counts of hours, minutes and days are 32 bits wide. The characters of an HTML text are their
  code points. Shown: a truth value is read back; within a day the printed time is the elapsed time;
  a browser reads back the text that \<open>HtmlEntities\<close> writes.
\<close>

section \<open>Truth values\<close>

definition BoolToStr :: "bool \<Rightarrow> string" where
  "BoolToStr val = (if val then ''true'' else ''false'')"

definition StrToBool :: "string \<Rightarrow> bool" where
  "StrToBool val =
     (if prefix ''t'' val then True
      else if prefix ''T'' val then True
      else if prefix ''1'' val then True
      else if prefix ''Y'' val then True
      else if prefix ''y'' val then True
      else if val = ''on'' then True
      else False)"

lemma bool_reads_back: "StrToBool (BoolToStr b) = b"
  by (simp add: StrToBool_def BoolToStr_def)

section \<open>The first line\<close>

definition firstLineOnly :: "string \<Rightarrow> string" where
  "firstLineOnly str =
     (let ip = trim_left (trim_right str);
          cr = CHR 0x0D; lf = CHR 0x0A;
          tmp = (if contains [cr, lf] ip \<and> find_string [cr] ip < find_string [lf] ip then before_first cr ip
                 else before_first lf ip) in
      if length tmp \<noteq> length ip then tmp @ ''...'' else tmp)"

section \<open>Elapsed time\<close>

text \<open>\<open>wxTimeSpan\<close>: milliseconds.\<close>

definition int_of_32 :: "int \<Rightarrow> int" where "int_of_32 n = signed_take_bit 31 n"

definition time_span :: "int \<Rightarrow> int \<Rightarrow> int \<Rightarrow> int \<Rightarrow> int" where
  "time_span h m s ms = ((h * 60 + m) * 60 + s) * 1000 + ms"

definition span_seconds :: "int \<Rightarrow> int" where "span_seconds d = d sdiv 1000"
definition span_minutes :: "int \<Rightarrow> int" where "span_minutes d = int_of_32 (span_seconds d sdiv 60)"
definition span_hours :: "int \<Rightarrow> int" where "span_hours d = span_minutes d sdiv 60"
definition span_days :: "int \<Rightarrow> int" where "span_days d = span_hours d sdiv 24"

text \<open>\<open>%02d\<close>\<close>

definition two_digits :: "int \<Rightarrow> string" where
  "two_digits n = (if 0 \<le> n \<and> n < 10 then CHR ''0'' # int_text n else int_text n)"

definition ElapsedTimeToStr :: "int \<Rightarrow> string" where
  "ElapsedTimeToStr msec =
     (let tsMsec = time_span 0 0 0 msec;
          days = span_days tsMsec;
          hours = span_hours (time_span (span_hours tsMsec) 0 0 0 - time_span (days * 24) 0 0 0);
          minutes = span_minutes (time_span 0 (span_minutes tsMsec) 0 0 - time_span hours 0 0 0);
          seconds = span_seconds (time_span 0 0 (span_seconds tsMsec) 0 - time_span hours minutes 0 0);
          milliseconds = time_span 0 0 0 tsMsec - time_span 0 0 seconds 0 in
      if 0 < days
      then int_text days @ '' days, '' @ two_digits hours @ '':'' @ two_digits minutes @ '':''
             @ two_digits seconds @ '' hours''
      else if 0 < hours
      then two_digits hours @ '':'' @ two_digits minutes @ '':'' @ two_digits seconds @ '' hours''
      else if 1000 * 60 \<le> msec then two_digits minutes @ '':'' @ two_digits seconds @ '' minutes''
      else if 1000 \<le> msec then int_text seconds @ ''.'' @ int_text (milliseconds sdiv 100) @ '' secs''
      else int_text msec @ '' msec'')"

lemma trunc_div: "0 \<le> a \<Longrightarrow> 0 < b \<Longrightarrow> (a :: int) sdiv b = a div b"
  by (cases "a = 0") (simp_all add: signed_divide_int_def sgn_if)

lemma int_of_32_id: "- (2 ^ 31) \<le> n \<Longrightarrow> n < 2 ^ 31 \<Longrightarrow> int_of_32 n = n"
  by (simp add: int_of_32_def signed_take_bit_int_eq_self)

text \<open>The hours, minutes and seconds that are printed: the minutes are counted from the last full hour of
  the first day.\<close>

lemma span_values:
  assumes "0 \<le> ms" "ms < 60000 * 2 ^ 31"
  shows "span_seconds ms = ms div 1000" "span_minutes ms = ms div 60000" "span_hours ms = ms div 3600000"
    "span_days ms = ms div 86400000"
proof -
  show s: "span_seconds ms = ms div 1000" using assms by (simp add: span_seconds_def trunc_div)
  have "ms div 1000 div 60 = ms div 60000" by (simp add: zdiv_zmult2_eq flip: zdiv_zmult2_eq)
  moreover have "ms div 60000 < 2 ^ 31" using assms by linarith
  ultimately show m: "span_minutes ms = ms div 60000"
    using assms by (simp add: span_minutes_def s trunc_div int_of_32_id pos_imp_zdiv_nonneg_iff)
  show h: "span_hours ms = ms div 3600000"
    using assms by (simp add: span_hours_def m trunc_div flip: zdiv_zmult2_eq)
  show "span_days ms = ms div 86400000"
    using assms by (simp add: span_days_def h trunc_div flip: zdiv_zmult2_eq)
qed

text \<open>The spans that the code takes from each other, for a time of \<open>h\<close> hours of \<open>d\<close> days, of \<open>m\<close> minutes since
  the last full hour and \<open>s\<close> seconds since the last full minute.\<close>

lemma elapsed_spans:
  assumes "0 \<le> ms" "ms < 60000 * 2 ^ 31" "0 \<le> h" "h < 24" "ms div 3600000 = ms div 86400000 * 24 + h"
    "0 \<le> m" "ms div 60000 = 60 * h + m" "0 \<le> s" "s < 60" "s = ms div 1000 - 60 * (ms div 60000)"
  shows "span_hours (time_span (span_hours ms) 0 0 0 - time_span (span_days ms * 24) 0 0 0) = h"
    "span_minutes (time_span 0 (span_minutes ms) 0 0 - time_span h 0 0 0) = m"
    "span_seconds (time_span 0 0 (span_seconds ms) 0 - time_span h m 0 0) = s"
proof -
  note spans = span_values[OF assms(1,2)]
  have "time_span (span_hours ms) 0 0 0 - time_span (span_days ms * 24) 0 0 0 = 3600000 * h"
    using assms(5) by (simp add: spans time_span_def)
  then show "span_hours (time_span (span_hours ms) 0 0 0 - time_span (span_days ms * 24) 0 0 0) = h"
    using span_values(3)[of "3600000 * h"] assms(3,4) by simp
  have "time_span 0 (span_minutes ms) 0 0 - time_span h 0 0 0 = 60000 * m"
    using assms(7) by (simp add: spans time_span_def)
  moreover have "ms div 60000 < 2 ^ 31" using assms(2) by linarith
  then have "m < 2 ^ 31" using assms(3,7) by linarith
  ultimately show "span_minutes (time_span 0 (span_minutes ms) 0 0 - time_span h 0 0 0) = m"
    using span_values(2)[of "60000 * m"] assms(6) by simp
  have "time_span 0 0 (span_seconds ms) 0 - time_span h m 0 0 = 1000 * s"
    using assms(7,10) by (simp add: spans time_span_def)
  then show "span_seconds (time_span 0 0 (span_seconds ms) 0 - time_span h m 0 0) = s"
    using span_values(1)[of "1000 * s"] assms(8,9) by simp
qed

lemma elapsed_parts:
  assumes "0 \<le> ms" "ms < 60000 * 2 ^ 31"
  defines "d \<equiv> ms div 86400000" and "h \<equiv> ms div 3600000 mod 24" and "s \<equiv> ms div 1000 mod 60"
  shows "ElapsedTimeToStr ms =
    (let m = ms div 60000 mod 60 + 1440 * d in
     if 0 < d
     then int_text d @ '' days, '' @ two_digits h @ '':'' @ two_digits m @ '':'' @ two_digits s @ '' hours''
     else if 0 < h then two_digits h @ '':'' @ two_digits m @ '':'' @ two_digits s @ '' hours''
     else if 1000 * 60 \<le> ms then two_digits m @ '':'' @ two_digits s @ '' minutes''
     else if 1000 \<le> ms then int_text s @ ''.'' @ int_text ((ms - 1000 * s) sdiv 100) @ '' secs''
     else int_text ms @ '' msec'')"
    "ms div 3600000 = d * 24 + h"
proof -
  have d0: "0 \<le> d" using assms(1) by (simp add: d_def pos_imp_zdiv_nonneg_iff)
  show hd: "ms div 3600000 = d * 24 + h"
    using div_mult_mod_eq[of "ms div 3600000" 24] by (simp add: d_def h_def flip: zdiv_zmult2_eq)
  define m where "m = ms div 60000 - 60 * h"
  have md: "ms div 60000 = 60 * h + m" by (simp add: m_def)
  have "ms div 60000 = 60 * (ms div 3600000) + ms div 60000 mod 60"
    using mult_div_mod_eq[of 60 "ms div 60000"] by (simp flip: zdiv_zmult2_eq)
  moreover have "0 \<le> ms div 60000 mod 60" by simp
  ultimately have m: "0 \<le> m" "ms div 60000 mod 60 + 1440 * d = m" using hd d0 unfolding m_def by linarith+
  have "ms div 1000 div 60 = ms div 60000" by (simp flip: zdiv_zmult2_eq)
  then have s: "s = ms div 1000 - 60 * (ms div 60000)"
    using mult_div_mod_eq[of 60 "ms div 1000"] by (simp add: s_def)
  have bounds: "0 \<le> h" "h < 24" "0 \<le> s" "s < 60" by (simp_all add: h_def s_def)
  note spans = elapsed_spans[OF assms(1,2) bounds(1,2) hd[unfolded d_def] m(1) md bounds(3,4) s]
  have t: "time_span 0 0 0 n = n" "time_span 0 0 n 0 = 1000 * n" for n by (simp_all add: time_span_def)
  have days: "span_days ms = d" by (simp add: span_values[OF assms(1,2)] d_def)
  show "ElapsedTimeToStr ms =
    (let m = ms div 60000 mod 60 + 1440 * d in
     if 0 < d
     then int_text d @ '' days, '' @ two_digits h @ '':'' @ two_digits m @ '':'' @ two_digits s @ '' hours''
     else if 0 < h then two_digits h @ '':'' @ two_digits m @ '':'' @ two_digits s @ '' hours''
     else if 1000 * 60 \<le> ms then two_digits m @ '':'' @ two_digits s @ '' minutes''
     else if 1000 \<le> ms then int_text s @ ''.'' @ int_text ((ms - 1000 * s) sdiv 100) @ '' secs''
     else int_text ms @ '' msec'')"
    unfolding ElapsedTimeToStr_def m(2) Let_def t(1)
    unfolding spans(1) unfolding spans(2) unfolding spans(3) unfolding t(2) days ..
qed

lemma tenths: "0 \<le> ms \<Longrightarrow> (ms mod 1000) sdiv 100 = ms div 100 mod (10 :: int)"
proof -
  have "ms mod 1000 = 100 * (ms div 100 mod 10) + ms mod 100" using zmod_zmult2_eq[of 10 ms 100] by simp
  then have "ms mod 1000 div 100 = ms div 100 mod 10" by simp
  then show ?thesis using trunc_div[of "ms mod 1000" 100] by simp
qed

text \<open>An elapsed time is printed with its parts: the milliseconds below a second, seconds and tenths
  below a minute, minutes and seconds below an hour, then hours, minutes and seconds, and the days from
  one day on. From then on the printed minutes also count 1440 for each of the days.\<close>

theorem elapsed_time:
  assumes "0 \<le> ms" "ms < 60000 * 2 ^ 31"
  shows "ElapsedTimeToStr ms =
    (let d = ms div 86400000; h = ms div 3600000 mod 24; m = ms div 60000 mod 60; s = ms div 1000 mod 60 in
     if ms < 1000 then int_text ms @ '' msec''
     else if ms < 60000 then int_text s @ ''.'' @ int_text (ms div 100 mod 10) @ '' secs''
     else if ms < 3600000 then two_digits m @ '':'' @ two_digits s @ '' minutes''
     else if ms < 86400000 then two_digits h @ '':'' @ two_digits m @ '':'' @ two_digits s @ '' hours''
     else int_text d @ '' days, '' @ two_digits h @ '':'' @ two_digits (m + 1440 * d) @ '':''
            @ two_digits s @ '' hours'')"
proof -
  note parts = elapsed_parts[OF assms]
  have d: "0 \<le> ms div 86400000" "0 < ms div 86400000 \<longleftrightarrow> 86400000 \<le> ms" using assms(1) by linarith+
  have h: "0 < ms div 3600000 mod 24 \<longleftrightarrow> 3600000 \<le> ms" if "ms < 86400000"
  proof -
    have "ms div 86400000 = 0" using d that by linarith
    then show ?thesis using parts(2) by linarith
  qed
  consider "ms < 1000" | "1000 \<le> ms" "ms < 60000" | "60000 \<le> ms" "ms < 3600000"
    | "3600000 \<le> ms" "ms < 86400000" | "86400000 \<le> ms" by linarith
  then show ?thesis
  proof cases
    case 2
    then have "ms - 1000 * (ms div 1000 mod 60) = ms mod 1000" by (simp add: minus_mult_div_eq_mod)
    then show ?thesis using 2 d h tenths[OF assms(1)] by (simp add: parts(1) Let_def)
  next
    case 5
    then show ?thesis using d by (simp only: parts(1) Let_def) simp
  qed (use d h in \<open>simp only: parts(1) Let_def, simp\<close>)+
qed

theorem elapsed_time_witness:
  "ElapsedTimeToStr 90061000 = ''1 days, 01:1441:01 hours''"
  using elapsed_time[of 90061000] by (simp add: Let_def two_digits_def int_text_def digit_simps digit_char_def)

section \<open>HTML\<close>

text \<open>The table \<open>ents\<close> without the 0 that ends it.\<close>

definition html_ents :: "nat list" where
  "html_ents =
     [34, 39, 38, 60, 62, 160, 161, 164, 162, 163, 165, 166, 167, 168, 169, 170, 171, 172, 173,
      174, 8482, 175, 176, 177, 178, 179, 180, 181, 182, 183, 184, 185, 186, 187, 188, 189, 190,
      191, 215, 247, 192, 193, 194, 195, 196, 197, 198, 199, 200, 201, 202, 203, 204, 205, 206,
      207, 208, 209, 210, 211, 212, 213, 214, 216, 217, 218, 219, 220, 221, 222, 223, 224, 225,
      226, 227, 228, 229, 230, 231, 232, 233, 234, 235, 236, 237, 238, 239, 240, 241, 242, 243,
      244, 245, 246, 248, 249, 250, 251, 252, 253, 254, 255, 338, 339, 352, 353, 376, 710, 732,
      8194, 8195, 8201, 8204, 8205, 8206, 8207, 8211, 8212, 8216, 8217, 8218, 8220, 8221, 8222,
      8224, 8225, 8230, 8240, 8249, 8250, 8364]"

definition codes :: "string \<Rightarrow> nat list" where "codes s = map of_char s"

fun entity_loop :: "nat list \<Rightarrow> nat \<Rightarrow> nat list" where
  "entity_loop [] ch = [ch]"
| "entity_loop (e # es) ch =
     (if ch = e then codes (''&#'' @ dec e @ '';'') else entity_loop es ch)"

definition GetHtmlEntity :: "nat \<Rightarrow> nat list" where
  "GetHtmlEntity ch =
     (if (97 \<le> ch \<and> ch \<le> 122) \<or> (65 \<le> ch \<and> ch \<le> 90) \<or> (48 \<le> ch \<and> ch \<le> 57) then [ch]
      else entity_loop html_ents ch)"

definition HtmlEntities :: "nat list \<Rightarrow> nat list" where
  "HtmlEntities str = concat (map (\<lambda>ch. if ch \<noteq> 13 then GetHtmlEntity ch else []) str)"

text \<open>A browser reads a character reference \<open>&#n;\<close> as the character with the code \<open>n\<close>.\<close>

lemma after_reference: "length (dropWhile P s) - Suc 0 < Suc (length s)"
  using length_dropWhile_le[of P s] by linarith

function html_read :: "nat list \<Rightarrow> nat list" where
  "html_read [] = []"
| "html_read (c # s) =
     (if c = 38 \<and> prefix [35] s \<and> 59 \<in> set s
      then undec (map char_of (takeWhile (\<lambda>d. d \<noteq> 59) (drop 1 s)))
             # html_read (drop 1 (dropWhile (\<lambda>d. d \<noteq> 59) s))
      else c # html_read s)"
  by pat_completeness auto
termination
  by (relation "measure length") (simp_all add: after_reference)

lemma digit_code: "is_digit c \<Longrightarrow> 48 \<le> (of_char c :: nat) \<and> of_char c \<le> (57 :: nat)"
  unfolding is_digit_cases by (elim disjE) simp_all

lemma digit_codes: "list_all is_digit s \<Longrightarrow> list_all (\<lambda>ch. 48 \<le> ch \<and> ch \<le> 57) (codes s)"
  by (induction s) (simp_all add: codes_def digit_code)

lemma dec_codes: "59 \<notin> set (codes (dec n))"
  using digit_codes[OF dec_digits[of n]] by (auto simp: list_all_iff)

lemma read_reference: "html_read (codes (''&#'' @ dec n @ '';'') @ s) = n # html_read s"
proof -
  let ?d = "codes (dec n)"
  have "takeWhile (\<lambda>d. d \<noteq> 59) (?d @ 59 # s) = ?d" "dropWhile (\<lambda>d. d \<noteq> 59) (?d @ 59 # s) = 59 # s"
    using dec_codes[of n] by (auto simp: takeWhile_append dropWhile_append)
  moreover have "map char_of ?d = dec n" by (simp add: codes_def)
  ultimately show ?thesis by (simp add: codes_def undec_dec)
qed

lemma entity_cases: "entity_loop es ch = [ch] \<and> ch \<notin> set es \<or> entity_loop es ch = codes (''&#'' @ dec ch @ '';'')"
  by (induction es) auto

text \<open>Whatever the text, a browser reads what \<open>HtmlEntities\<close> writes as the text without its carriage
  returns, and what is written contains no angle bracket and no quote.\<close>

theorem html_reads_back:
  "html_read (HtmlEntities str) = filter (\<lambda>ch. ch \<noteq> 13) str
   \<and> list_all (\<lambda>ch. ch \<notin> {34, 39, 60, 62}) (HtmlEntities str)"
proof
  have ent: "(\<exists>n. GetHtmlEntity ch = codes (''&#'' @ dec n @ '';'') \<and> n = ch) \<or> GetHtmlEntity ch = [ch] \<and> ch \<notin> {34, 38, 39, 60, 62}" for ch
  proof (cases "(97 \<le> ch \<and> ch \<le> 122) \<or> (65 \<le> ch \<and> ch \<le> 90) \<or> (48 \<le> ch \<and> ch \<le> 57)")
    case True
    then show ?thesis by (auto simp: GetHtmlEntity_def)
  next
    case False
    have "{34, 38, 39, 60, 62} \<subseteq> set html_ents" by (simp add: html_ents_def)
    then show ?thesis using False entity_cases[of html_ents ch] by (auto simp: GetHtmlEntity_def)
  qed
  have "html_read (GetHtmlEntity ch @ s) = ch # html_read s" for ch s
    using ent[of ch] read_reference[of ch s] by auto
  then show "html_read (HtmlEntities str) = filter (\<lambda>ch. ch \<noteq> 13) str"
    by (induction str) (simp_all add: HtmlEntities_def)
  have dec: "list_all (\<lambda>ch. ch \<notin> {34, 39, 60, 62}) (codes (dec n))" for n
    using digit_codes[OF dec_digits[of n]] by (auto simp: list_all_iff)
  have "list_all (\<lambda>ch. ch \<notin> {34, 39, 60, 62}) (GetHtmlEntity ch)" for ch
    using ent[of ch] dec[of ch] by (auto simp: codes_def)
  then show "list_all (\<lambda>ch. ch \<notin> {34, 39, 60, 62}) (HtmlEntities str)"
    by (induction str) (simp_all add: HtmlEntities_def)
qed

end
