(* ===== verification/ConfText.thy ===== *)
theory ConfText
  imports WxText
begin

text \<open>
  What the editors of the configuration files share: the texts of a file as lines, with the kinds of line
  ends of \<open>wxTextBuffer\<close>, and the functions of \<open>utils/pgconfig.cpp\<close> that move over a line. A pointer into
  a text is the rest of the text from there; the text between two pointers is \<open>part_between\<close>.
\<close>

section \<open>Files\<close>

datatype text_file_type = wxTextFileType_Unix | wxTextFileType_Dos | wxTextFileType_Mac

abbreviation cr :: char where "cr \<equiv> CHR 0x0D"
abbreviation lf :: char where "lf \<equiv> CHR 0x0A"

text \<open>\<open>wxTextBuffer::Translate\<close>: every line end becomes the one of the given kind.\<close>

definition line_end_of :: "text_file_type \<Rightarrow> string" where
  "line_end_of t = (case t of wxTextFileType_Unix \<Rightarrow> [lf] | wxTextFileType_Dos \<Rightarrow> [cr, lf] | wxTextFileType_Mac \<Rightarrow> [cr])"

fun Translate :: "text_file_type \<Rightarrow> string \<Rightarrow> string" where
  "Translate t [] = []"
| "Translate t (c # s) =
     (if c = lf then line_end_of t @ Translate t s
      else if c = cr then
        (case s of d # u \<Rightarrow> if d = lf then line_end_of t @ Translate t u else line_end_of t @ Translate t s
         | [] \<Rightarrow> line_end_of t)
      else c # Translate t s)"

text \<open>\<open>wxStringTokenizer(s, "\n", wxTOKEN_RET_EMPTY)\<close>: there are more tokens while characters other than
  line ends are left; an initial empty token is returned in any case.\<close>

definition is_lf :: "char \<Rightarrow> bool" where "is_lf c \<longleftrightarrow> c = lf"

function more_lines :: "string \<Rightarrow> string list" where
  "more_lines s =
     (if list_all is_lf s then [] else before_first lf s # more_lines (after_first lf s))"
  by pat_completeness auto
termination
proof (relation "measure length")
  fix s :: string
  assume "\<not> list_all is_lf s"
  then have "s \<noteq> []" by auto
  then show "(after_first lf s, s) \<in> measure length"
    using length_dropWhile_le[of "\<lambda>d. d \<noteq> lf" s] by (cases s) (auto simp: after_first_def less_Suc_eq_le)
qed simp

declare more_lines.simps [simp del]

definition file_lines :: "string \<Rightarrow> string list" where
  "file_lines s = (if s \<noteq> [] \<and> list_all is_lf s then [[]] else more_lines s)"

text \<open>The kind of the file and its lines, as each \<open>DisplayFile\<close> finds them. \<open>str.Find("\r\n")\<close> stands as a
  truth value: it is false only for the position 0.\<close>

definition file_type_of :: "string \<Rightarrow> text_file_type" where
  "file_type_of str =
     (if 0 \<le> find_char cr str
      then if 0 \<le> find_string [lf, cr] str \<or> find_string [cr, lf] str \<noteq> 0
           then wxTextFileType_Dos else wxTextFileType_Mac
      else wxTextFileType_Unix)"

definition lines_shown :: "string \<Rightarrow> string list" where
  "lines_shown str =
     file_lines (if 0 \<le> find_char cr str then Translate wxTextFileType_Unix str else str)"

text \<open>The text given to the file by \<open>DoWriteFile\<close>.\<close>

definition text_written :: "text_file_type \<Rightarrow> string \<Rightarrow> string" where
  "text_written t str = (if t \<noteq> wxTextFileType_Unix then Translate t str else str)"

section \<open>Within a line\<close>

text \<open>The index of a string in a table, or -1.\<close>

fun FindToken :: "string \<Rightarrow> string list \<Rightarrow> int" where
  "FindToken str [] = -1"
| "FindToken str (t # ts) = (if t = str then 0 else let i = FindToken str ts in if i < 0 then -1 else i + 1)"

definition IsSpaceChar :: "char \<Rightarrow> bool" where
  "IsSpaceChar c \<longleftrightarrow> c = CHR 0x09 \<or> c = CHR '' ''"

definition SkipSpace :: "string \<Rightarrow> string" where
  "SkipSpace p = dropWhile IsSpaceChar p"

definition SkipNonspace :: "string \<Rightarrow> string" where
  "SkipNonspace p = dropWhile (\<lambda>c. \<not> IsSpaceChar c) p"

definition part_between :: "string \<Rightarrow> string \<Rightarrow> string" where
  "part_between p q = take (length p - length q) p"

lemma part_between_append [simp]: "part_between (s @ r) r = s"
  by (simp add: part_between_def)

lemma part_between_all [simp]: "part_between s [] = s"
  by (simp add: part_between_def)

lemma find_token_nth:
  "distinct ts \<Longrightarrow> i < length ts \<Longrightarrow> FindToken (ts ! i) ts = int i"
proof (induction ts arbitrary: i)
  case (Cons t ts)
  then show ?case by (cases i) (auto simp: Let_def)
qed simp

lemma find_token_in: "FindToken s ts < 0 \<longleftrightarrow> s \<notin> set ts"
  by (induction ts) (auto simp: Let_def)

text \<open>A word without space is skipped up to the space that follows it.\<close>

definition no_space :: "string \<Rightarrow> bool" where
  "no_space s \<longleftrightarrow> list_all (\<lambda>c. \<not> IsSpaceChar c) s"

lemma skip_word:
  assumes "no_space w" "r = [] \<or> IsSpaceChar (hd r)"
  shows "SkipNonspace (w @ r) = r"
proof -
  have "SkipNonspace r = r" using assms(2) by (cases r) (auto simp: SkipNonspace_def)
  then show ?thesis using assms(1) by (induction w) (simp_all add: SkipNonspace_def no_space_def)
qed

lemma skip_space: "s = [] \<or> \<not> IsSpaceChar (hd s) \<Longrightarrow> SkipSpace s = s"
  by (cases s) (auto simp: SkipSpace_def)

lemma skip_tab: "s = [] \<or> \<not> IsSpaceChar (hd s) \<Longrightarrow> SkipSpace (CHR 0x09 # CHR '' '' # s) = s"
  using skip_space[of s] by (simp add: SkipSpace_def IsSpaceChar_def)

text \<open>The lines of a text, each with a line end, are the text with one line end at its end.\<close>

definition with_line_ends :: "string list \<Rightarrow> string" where
  "with_line_ends ls = concat (map (\<lambda>l. l @ [lf]) ls)"

definition without_last_line_ends :: "string \<Rightarrow> string" where
  "without_last_line_ends s = rev (dropWhile is_lf (rev s))"

lemma without_last_append:
  "without_last_line_ends (s @ t) =
     (if list_all is_lf t then without_last_line_ends s else s @ without_last_line_ends t)"
  by (auto simp: without_last_line_ends_def dropWhile_append list_all_iff)

lemma more_lines_text:
  "with_line_ends (more_lines s) = (if list_all is_lf s then [] else without_last_line_ends s @ [lf])"
proof (induction s rule: more_lines.induct)
  case (1 s)
  show ?case
  proof (cases "list_all is_lf s")
    case True
    then show ?thesis by (subst more_lines.simps) (simp add: with_line_ends_def)
  next
    case False
    have ml: "with_line_ends (more_lines s) = before_first lf s @ [lf] @ with_line_ends (more_lines (after_first lf s))"
      using False by (subst more_lines.simps) (simp add: with_line_ends_def)
    show ?thesis
    proof (cases "lf \<in> set s")
      case True
      then obtain a b where s: "s = a @ lf # b" "lf \<notin> set a" by (meson split_list_first)
      then have ab: "before_first lf s = a" "after_first lf s = b"
        by (auto simp: before_first_def after_first_def takeWhile_append dropWhile_append)
      have a: "without_last_line_ends a = a"
        using s(2) by (cases a rule: rev_cases) (auto simp: without_last_line_ends_def is_lf_def)
      have "without_last_line_ends s = (if list_all is_lf b then a else a @ lf # without_last_line_ends b)"
        using a without_last_append[of a "[lf] @ b"] without_last_append[of "[lf]" b]
        by (simp add: s(1) is_lf_def[of lf])
      then show ?thesis
        using False 1[OF False] by (simp add: ml ab split: if_splits)
    next
      case no: False
      then have "takeWhile (\<lambda>d. d \<noteq> lf) s = s" "dropWhile (\<lambda>d. d \<noteq> lf) s = []"
        by (auto simp: takeWhile_eq_all_conv dropWhile_eq_Nil_conv)
      then have ab: "before_first lf s = s" "after_first lf s = []"
        by (simp_all only: before_first_def after_first_def drop_Nil)
      have "s = without_last_line_ends s"
        using no by (cases s rule: rev_cases) (auto simp: without_last_line_ends_def is_lf_def)
      then show ?thesis
        using False by (simp add: ml ab) (simp add: with_line_ends_def more_lines.simps[of "[]"])
    qed
  qed
qed

lemma more_lines_last: "more_lines s \<noteq> [] \<Longrightarrow> last (more_lines s) \<noteq> []"
proof (induction s rule: more_lines.induct)
  case (1 s)
  then have ne: "\<not> list_all is_lf s" using more_lines.simps[of s] by auto
  then have ml: "more_lines s = before_first lf s # more_lines (after_first lf s)"
    by (subst more_lines.simps) simp
  show ?case
  proof (cases "more_lines (after_first lf s) = []")
    case True
    then have "list_all is_lf (after_first lf s)" using more_lines.simps[of "after_first lf s"] by (auto split: if_splits)
    moreover have "s = takeWhile (\<lambda>d. d \<noteq> lf) s @ dropWhile (\<lambda>d. d \<noteq> lf) s" by simp
    ultimately have "before_first lf s \<noteq> []"
      using ne by (cases s) (auto simp: before_first_def after_first_def is_lf_def)
    then show ?thesis using True ml by simp
  next
    case False
    then show ?thesis using 1(1)[OF ne] ml by simp
  qed
qed

text \<open>The lines of a text made of lines: they have no line end, and the last one is not empty.\<close>

lemma lines_of_lines:
  "list_all (\<lambda>l. lf \<notin> set l) ls \<Longrightarrow> ls = [] \<or> last ls \<noteq> [] \<Longrightarrow> more_lines (with_line_ends ls) = ls"
proof (induction ls)
  case (Cons l ls)
  have ne: "\<not> list_all is_lf (with_line_ends (l # ls))"
  proof -
    obtain c where "c \<in> set (last (l # ls))" using Cons.prems(2) last_in_set[of "last (l # ls)"] by blast
    then obtain k where "k \<in> set (l # ls)" "c \<in> set k" using last_in_set[of "l # ls"] by blast
    moreover have "c \<noteq> lf" using calculation Cons.prems(1) by (auto simp: list_all_iff)
    moreover have "c \<in> set (with_line_ends (l # ls))"
      using calculation by (simp only: with_line_ends_def set_concat set_map) auto
    ultimately show ?thesis by (metis is_lf_def list_all_iff)
  qed
  have "before_first lf (l @ lf # t) = l" "after_first lf (l @ lf # t) = t" for t
    using Cons.prems(1) by (auto simp: before_first_def after_first_def takeWhile_append dropWhile_append)
  moreover have "with_line_ends (l # ls) = l @ lf # with_line_ends ls" by (simp add: with_line_ends_def)
  moreover have "more_lines (with_line_ends ls) = ls" using Cons by (cases ls) auto
  ultimately show ?case using ne by (subst more_lines.simps) simp
qed (simp add: with_line_ends_def more_lines.simps[of "[]"])

lemma file_lines_of_lines:
  assumes "list_all (\<lambda>l. lf \<notin> set l) ls" "ls = [] \<or> last ls \<noteq> []"
  shows "file_lines (with_line_ends ls) = ls"
proof -
  have "more_lines (with_line_ends ls) = ls" by (rule lines_of_lines[OF assms])
  then show ?thesis
    using more_lines.simps[of "with_line_ends ls"] by (auto simp: file_lines_def with_line_ends_def)
qed

end
