(* ===== verification/HbaConfig.thy ===== *)
theory HbaConfig
  imports ConfText
begin

text \<open>
  The lines of \<open>pg_hba.conf\<close>: \<open>pgHbaConfigLine\<close> of \<open>utils/pgconfig.cpp\<close>. Shown: an edited line is read back
  from the text that is written for it; a host name or a word for addresses swallows the method.
\<close>

section \<open>Lines\<close>

datatype hba_connect_type = PGC_LOCAL | PGC_HOST | PGC_HOSTSSL | PGC_HOSTNOSSL | PGC_INVALIDCONF

datatype hba_method =
    PGC_TRUST | PGC_REJECT | PGC_MD5 | PGC_CRYPT | PGC_PASSWORD | PGC_KRB4 | PGC_KRB5 | PGC_IDENT | PGC_PAM
  | PGC_LDAP | PGC_GSS | PGC_SSPI | PGC_CERT | PGC_PEER | PGC_RADIUS | PGC_INVALIDMETHOD

text \<open>The values in their order, for the conversions between a value and its number.\<close>

definition hba_connect_types :: "hba_connect_type list" where
  "hba_connect_types = [PGC_LOCAL, PGC_HOST, PGC_HOSTSSL, PGC_HOSTNOSSL, PGC_INVALIDCONF]"

definition hba_methods :: "hba_method list" where
  "hba_methods =
     [PGC_TRUST, PGC_REJECT, PGC_MD5, PGC_CRYPT, PGC_PASSWORD, PGC_KRB4, PGC_KRB5, PGC_IDENT, PGC_PAM,
      PGC_LDAP, PGC_GSS, PGC_SSPI, PGC_CERT, PGC_PEER, PGC_RADIUS, PGC_INVALIDMETHOD]"

definition pgHbaConnectTypeStrings :: "string list" where
  "pgHbaConnectTypeStrings = [''local'', ''host'', ''hostssl'', ''hostnossl'']"

definition pgHbaMethodStrings :: "string list" where
  "pgHbaMethodStrings =
     [''trust'', ''reject'', ''md5'', ''crypt'', ''password'', ''krb4'', ''krb5'', ''ident'', ''pam'',
      ''ldap'', ''gss'', ''sspi'', ''cert'', ''peer'', ''radius'']"

definition number_in :: "'a list \<Rightarrow> 'a \<Rightarrow> nat" where
  "number_in vs v = length (takeWhile (\<lambda>w. w \<noteq> v) vs)"

record hba_line =
  hb_text :: string
  hb_database :: string
  hb_user :: string
  hb_ipaddress :: string
  hb_option :: string
  hb_connectType :: hba_connect_type
  hb_method :: hba_method
  hb_item :: int
  hb_isValid :: bool
  hb_isComment :: bool
  hb_changed :: bool

text \<open>The end of a database or user: the next space that is not within double quotes.\<close>

fun skip_quoted :: "bool \<Rightarrow> string \<Rightarrow> string" where
  "skip_quoted quoted [] = []"
| "skip_quoted quoted (c # p) =
     (if \<not> quoted \<and> IsSpaceChar c then c # p
      else skip_quoted (if c = CHR 0x22 then \<not> quoted else quoted) p)"

text \<open>The end of an address: of the next word too where the first one has no slash.\<close>

definition skip_address :: "string \<Rightarrow> string" where
  "skip_address p3 =
     (let p4 = SkipNonspace p3; hasCidr = (CHR ''/'' \<in> set (part_between p3 p4)) in
      if \<not> hasCidr then SkipNonspace (SkipSpace p4) else p4)"

definition hba_method_part :: "string \<Rightarrow> hba_line \<Rightarrow> hba_line" where
  "hba_method_part p4 l =
     (let p5 = SkipNonspace p4; i = FindToken (part_between p4 p5) pgHbaMethodStrings in
      if 0 \<le> i
      then l\<lparr>hb_method := hba_methods ! nat i, hb_option := SkipSpace p5, hb_isValid := True\<rparr>
      else l)"

definition hba_fields :: "string \<Rightarrow> hba_line \<Rightarrow> hba_line" where
  "hba_fields p1 l =
     (let p2 = skip_quoted False p1; l = l\<lparr>hb_database := part_between p1 p2\<rparr>;
          p2 = SkipSpace p2; p3 = skip_quoted False p2; l = l\<lparr>hb_user := part_between p2 p3\<rparr>;
          p3 = SkipSpace p3 in
      if hb_connectType l = PGC_LOCAL then hba_method_part p3 l
      else let p4 = skip_address p3; l = l\<lparr>hb_ipaddress := part_between p3 p4\<rparr> in
           hba_method_part (SkipSpace p4) l)"

definition hba_Init :: "string \<Rightarrow> hba_line \<Rightarrow> hba_line" where
  "hba_Init line l =
     (let l = l\<lparr>hb_isValid := False, hb_connectType := PGC_INVALIDCONF, hb_changed := False\<rparr> in
      if line = [] then l
      else
        let l = l\<lparr>hb_text := line, hb_isComment := (hd line = CHR ''#'')\<rparr>;
            p0 = (if hd line = CHR ''#'' then SkipSpace (tl line) else line);
            p1 = SkipNonspace p0;
            i = FindToken (part_between p0 p1) pgHbaConnectTypeStrings in
        if 0 \<le> i then hba_fields (SkipSpace p1) (l\<lparr>hb_connectType := hba_connect_types ! nat i\<rparr>)
        else l\<lparr>hb_connectType := PGC_INVALIDCONF\<rparr>)"

definition new_hba_line :: "string \<Rightarrow> hba_line" where
  "new_hba_line line =
     hba_Init line
       \<lparr>hb_text = [], hb_database = [], hb_user = [], hb_ipaddress = [], hb_option = [],
        hb_connectType = PGC_INVALIDCONF, hb_method = PGC_INVALIDMETHOD, hb_item = -1,
        hb_isValid = False, hb_isComment = True, hb_changed = False\<rparr>"

text \<open>The null pointers that these return for an invalid value add nothing to a string.\<close>

definition GetConnectType :: "hba_line \<Rightarrow> string option" where
  "GetConnectType l =
     (if number_in hba_connect_types (hb_connectType l) < number_in hba_connect_types PGC_INVALIDCONF
      then Some (pgHbaConnectTypeStrings ! number_in hba_connect_types (hb_connectType l)) else None)"

definition GetMethod :: "hba_line \<Rightarrow> string option" where
  "GetMethod l =
     (if number_in hba_methods (hb_method l) < number_in hba_methods PGC_INVALIDMETHOD
      then Some (pgHbaMethodStrings ! number_in hba_methods (hb_method l)) else None)"

definition text_or_empty :: "string option \<Rightarrow> string" where
  "text_or_empty s = (case s of None \<Rightarrow> [] | Some t \<Rightarrow> t)"

definition tabspace :: string where "tabspace = [CHR 0x09, CHR '' '']"

definition hba_GetText :: "hba_line \<Rightarrow> string" where
  "hba_GetText l =
     (if \<not> hb_changed l then hb_text l
      else
        (if hb_isComment l then ''# '' else []) @
        text_or_empty (GetConnectType l) @ tabspace @ hb_database l @ tabspace @ hb_user l @
        (if hb_connectType l \<noteq> PGC_LOCAL then tabspace @ hb_ipaddress l else []) @
        tabspace @ text_or_empty (GetMethod l) @
        (if number_in hba_methods PGC_IDENT \<le> number_in hba_methods (hb_method l) \<and> hb_option l \<noteq> []
         then tabspace @ hb_option l else []))"

section \<open>Reading back a line\<close>

text \<open>A word for a database or a user: space only within double quotes, which are closed. An address: one
  word with a slash, or two words.\<close>

fun hba_word :: "bool \<Rightarrow> string \<Rightarrow> bool" where
  "hba_word quoted [] = (\<not> quoted)"
| "hba_word quoted (c # s) =
     ((quoted \<or> \<not> IsSpaceChar c) \<and> hba_word (if c = CHR 0x22 then \<not> quoted else quoted) s)"

definition hba_address :: "string \<Rightarrow> bool" where
  "hba_address s \<longleftrightarrow>
     s \<noteq> [] \<and> \<not> IsSpaceChar (hd s) \<and>
     (let r = SkipNonspace s in
      if CHR ''/'' \<in> set (part_between s r) then r = []
      else SkipSpace r \<noteq> [] \<and> no_space (SkipSpace r))"

definition starts_word :: "string \<Rightarrow> bool" where
  "starts_word s \<longleftrightarrow> s \<noteq> [] \<and> \<not> IsSpaceChar (hd s)"

lemma skip_hba_word:
  "hba_word quoted s \<Longrightarrow> r = [] \<or> IsSpaceChar (hd r) \<Longrightarrow> skip_quoted quoted (s @ r) = r"
proof (induction quoted s rule: hba_word.induct)
  case (1 quoted)
  then show ?case by (cases r) auto
qed auto

lemma skip_tabspace: "s = [] \<or> \<not> IsSpaceChar (hd s) \<Longrightarrow> SkipSpace (tabspace @ s) = s"
  using skip_tab[of s] by (simp add: tabspace_def)

lemma tabspace_space [simp]: "IsSpaceChar (hd tabspace)" "tabspace \<noteq> []"
  by (simp_all add: tabspace_def IsSpaceChar_def)

lemma nonspace_append:
  "SkipNonspace (s @ r) = (if no_space s then SkipNonspace r else SkipNonspace s @ r)"
  by (induction s) (auto simp: SkipNonspace_def no_space_def)

lemma space_append: "SkipSpace (s @ r) = (if list_all IsSpaceChar s then SkipSpace r else SkipSpace s @ r)"
  by (induction s) (auto simp: SkipSpace_def)

lemma skip_hba_address:
  assumes "hba_address s" "IsSpaceChar (hd r)" "r \<noteq> []"
  shows "skip_address (s @ r) = r"
proof -
  define q where "q = SkipNonspace s"
  have q_split: "s = part_between s q @ q" "no_space (part_between s q)"
  proof -
    have "s = takeWhile (\<lambda>c. \<not> IsSpaceChar c) s @ q" by (simp add: q_def SkipNonspace_def)
    then show "s = part_between s q @ q" "no_space (part_between s q)"
      by (metis part_between_append)
        (metis \<open>s = takeWhile (\<lambda>c. \<not> IsSpaceChar c) s @ q\<close> list_all_iff no_space_def part_between_append set_takeWhileD)
  qed
  have rn: "SkipNonspace r = r" using assms(2,3) by (cases r) (auto simp: SkipNonspace_def)
  show ?thesis
  proof (cases "CHR ''/'' \<in> set (part_between s q)")
    case True
    then have "q = []" using assms(1) by (simp add: hba_address_def Let_def q_def)
    then have "no_space s" "CHR ''/'' \<in> set s" using q_split True by auto
    then show ?thesis using rn by (simp add: skip_address_def nonspace_append Let_def)
  next
    case False
    then have q: "SkipSpace q \<noteq> []" "no_space (SkipSpace q)"
      using assms(1) by (simp_all add: hba_address_def Let_def flip: q_def)
    have "q = []" if "no_space s"
      using that by (simp add: q_def SkipNonspace_def no_space_def list_all_iff dropWhile_eq_Nil_conv)
    then have "\<not> no_space s" using q(1) by (auto simp: SkipSpace_def)
    then have n: "SkipNonspace (s @ r) = q @ r" by (simp add: nonspace_append q_def)
    have "part_between (s @ r) (q @ r) = part_between s q"
      using q_split(1) by (metis append.assoc part_between_append)
    moreover have "\<not> list_all IsSpaceChar q"
      using q(1) by (auto simp: SkipSpace_def list_all_iff dropWhile_eq_Nil_conv)
    then have "SkipNonspace (SkipSpace (q @ r)) = r"
      using q rn by (simp add: space_append nonspace_append)
    ultimately show ?thesis using False by (simp add: skip_address_def n Let_def)
  qed
qed

definition token_of :: "string \<Rightarrow> 'a \<Rightarrow> string list \<Rightarrow> 'a list \<Rightarrow> bool" where
  "token_of s v ts vs \<longleftrightarrow>
     no_space s \<and> s \<noteq> [] \<and> hd s \<noteq> CHR ''#'' \<and> 0 \<le> FindToken s ts \<and> vs ! nat (FindToken s ts) = v"

lemma connect_type_text:
  "hb_connectType l \<noteq> PGC_INVALIDCONF \<Longrightarrow>
   token_of (text_or_empty (GetConnectType l)) (hb_connectType l) pgHbaConnectTypeStrings hba_connect_types"
  by (cases "hb_connectType l")
    (simp_all add: GetConnectType_def hba_connect_types_def number_in_def pgHbaConnectTypeStrings_def no_space_def
      IsSpaceChar_def text_or_empty_def token_of_def)

lemma method_text:
  "hb_method l \<noteq> PGC_INVALIDMETHOD \<Longrightarrow>
   token_of (text_or_empty (GetMethod l)) (hb_method l) pgHbaMethodStrings hba_methods"
  by (cases "hb_method l")
    (simp_all add: GetMethod_def hba_methods_def number_in_def pgHbaMethodStrings_def no_space_def IsSpaceChar_def
      text_or_empty_def token_of_def)

text \<open>What an edited line must have: a type, a method and words for the rest.\<close>

definition hba_ok :: "hba_line \<Rightarrow> bool" where
  "hba_ok l \<longleftrightarrow>
     hb_connectType l \<noteq> PGC_INVALIDCONF \<and> hb_method l \<noteq> PGC_INVALIDMETHOD \<and>
     hb_database l \<noteq> [] \<and> hba_word False (hb_database l) \<and>
     hb_user l \<noteq> [] \<and> hba_word False (hb_user l) \<and>
     (if hb_connectType l = PGC_LOCAL then True else hba_address (hb_ipaddress l)) \<and>
     (if hb_option l = [] then True else \<not> IsSpaceChar (hd (hb_option l)))"

definition has_option :: "hba_method \<Rightarrow> bool" where
  "has_option m \<longleftrightarrow> number_in hba_methods PGC_IDENT \<le> number_in hba_methods m"

lemma word_starts: "hba_word False s \<Longrightarrow> s \<noteq> [] \<Longrightarrow> s @ r = [] \<or> \<not> IsSpaceChar (hd (s @ r))"
  by (cases s) auto

lemma read_method:
  assumes "hb_method l \<noteq> PGC_INVALIDMETHOD" "opt = [] \<or> \<not> IsSpaceChar (hd opt)"
  shows "hba_method_part (text_or_empty (GetMethod l) @ (if opt \<noteq> [] then tabspace @ opt else [])) k
    = k\<lparr>hb_method := hb_method l, hb_option := opt, hb_isValid := True\<rparr>"
proof -
  define m where "m = text_or_empty (GetMethod l)"
  have m: "no_space m" "0 \<le> FindToken m pgHbaMethodStrings"
    "hba_methods ! nat (FindToken m pgHbaMethodStrings) = hb_method l"
    using method_text[OF assms(1)] by (simp_all add: token_of_def m_def)
  let ?r = "if opt \<noteq> [] then tabspace @ opt else []"
  have "SkipNonspace (m @ ?r) = ?r" by (rule skip_word[OF m(1)]) simp
  moreover have "SkipSpace ?r = opt" using skip_tabspace[OF assms(2)] by (simp add: SkipSpace_def)
  ultimately show ?thesis using m(2,3) by (simp add: hba_method_part_def Let_def flip: m_def)
qed

text \<open>The text of a line after its type: the parts from the method, from the address and from the user on,
  and how they are read.\<close>

definition option_written :: "hba_line \<Rightarrow> string" where
  "option_written l = (if has_option (hb_method l) then hb_option l else [])"

definition method_on :: "hba_line \<Rightarrow> string" where
  "method_on l = text_or_empty (GetMethod l) @
     (if option_written l \<noteq> [] then tabspace @ option_written l else [])"

definition address_on :: "hba_line \<Rightarrow> string" where
  "address_on l = (if hb_connectType l \<noteq> PGC_LOCAL then hb_ipaddress l @ tabspace @ method_on l else method_on l)"

definition user_on :: "hba_line \<Rightarrow> string" where
  "user_on l = hb_user l @ tabspace @ address_on l"

lemma parts_start:
  assumes "hba_ok l"
  shows "method_on l = [] \<or> \<not> IsSpaceChar (hd (method_on l))" "address_on l = [] \<or> \<not> IsSpaceChar (hd (address_on l))"
    "user_on l = [] \<or> \<not> IsSpaceChar (hd (user_on l))"
    "hb_database l @ tabspace @ user_on l = [] \<or> \<not> IsSpaceChar (hd (hb_database l @ tabspace @ user_on l))"
proof -
  show m: "method_on l = [] \<or> \<not> IsSpaceChar (hd (method_on l))"
    using method_text[of l] assms
    by (cases "text_or_empty (GetMethod l)") (simp_all add: hba_ok_def method_on_def token_of_def no_space_def)
  show "address_on l = [] \<or> \<not> IsSpaceChar (hd (address_on l))"
    using m assms by (auto simp: address_on_def hba_ok_def hba_address_def Let_def)
  show "user_on l = [] \<or> \<not> IsSpaceChar (hd (user_on l))"
    "hb_database l @ tabspace @ user_on l = [] \<or> \<not> IsSpaceChar (hd (hb_database l @ tabspace @ user_on l))"
    using assms word_starts by (auto simp: user_on_def hba_ok_def)
qed

lemma read_method_on:
  "hba_ok l \<Longrightarrow> hba_method_part (method_on l) k
     = k\<lparr>hb_method := hb_method l, hb_option := option_written l, hb_isValid := True\<rparr>"
  unfolding method_on_def by (rule read_method) (auto simp: hba_ok_def option_written_def)

lemma read_fields:
  assumes "hba_ok l" "hb_connectType j = hb_connectType l"
  shows "hba_fields (hb_database l @ tabspace @ user_on l) j =
    j\<lparr>hb_database := hb_database l, hb_user := hb_user l,
      hb_ipaddress := (if hb_connectType l = PGC_LOCAL then hb_ipaddress j else hb_ipaddress l),
      hb_method := hb_method l, hb_option := option_written l, hb_isValid := True\<rparr>"
proof -
  note starts = parts_start[OF assms(1)]
  have sd: "skip_quoted False (hb_database l @ tabspace @ user_on l) = tabspace @ user_on l"
    using assms(1) by (intro skip_hba_word) (simp_all add: hba_ok_def)
  have su: "skip_quoted False (user_on l) = tabspace @ address_on l"
    unfolding user_on_def using assms(1) by (intro skip_hba_word) (simp_all add: hba_ok_def)
  have pu: "part_between (user_on l) (tabspace @ address_on l) = hb_user l" by (simp add: user_on_def)
  show ?thesis
  proof (cases "hb_connectType l = PGC_LOCAL")
    case True
    then have a: "address_on l = method_on l" by (simp add: address_on_def)
    show ?thesis
      using True assms(2) skip_tabspace[OF starts(3)] skip_tabspace[OF starts(2)] read_method_on[OF assms(1)] su pu
      by (simp add: hba_fields_def Let_def sd a)
  next
    case False
    then have "skip_address (address_on l) = tabspace @ method_on l"
      using assms(1) skip_hba_address[of "hb_ipaddress l" "tabspace @ method_on l"]
      by (simp add: hba_ok_def address_on_def)
    moreover have "part_between (address_on l) (tabspace @ method_on l) = hb_ipaddress l"
      using False by (simp add: address_on_def)
    ultimately show ?thesis
      using False assms(2) skip_tabspace[OF starts(3)] skip_tabspace[OF starts(2)] skip_tabspace[OF starts(1)]
        read_method_on[OF assms(1)]
      by (simp add: hba_fields_def Let_def sd su pu)
  qed
qed

text \<open>C28. An edited line is read back from the text written for it, with every field but one, as a line that is
  valid, under these conditions (\<open>hba_ok\<close>): type and method are among those of the tables; database and user are not
  empty and have space only within double quotes, which are closed; an option does not start with space; and the
  address, where the type is not \<open>local\<close>, is one word with a slash or two words, an address and a mask. (An
  address of one word without a slash is not read back: see \<open>address_word_takes_method\<close>.) The field that can
  be lost is the option: it is not written for the methods before \<open>ident\<close>.\<close>

theorem hba_line_reads_back:
  assumes "hba_ok l" "hb_changed l"
  shows "hba_Init (hba_GetText l) k =
    k\<lparr>hb_text := hba_GetText l, hb_database := hb_database l, hb_user := hb_user l,
      hb_ipaddress := (if hb_connectType l = PGC_LOCAL then hb_ipaddress k else hb_ipaddress l),
      hb_option := (if has_option (hb_method l) then hb_option l else []),
      hb_connectType := hb_connectType l, hb_method := hb_method l,
      hb_isValid := True, hb_isComment := hb_isComment l, hb_changed := False\<rparr>"
proof -
  define t where "t = text_or_empty (GetConnectType l)"
  define d where "d = hb_database l @ tabspace @ user_on l"
  have t: "no_space t" "t \<noteq> []" "hd t \<noteq> CHR ''#''" "0 \<le> FindToken t pgHbaConnectTypeStrings"
    "hba_connect_types ! nat (FindToken t pgHbaConnectTypeStrings) = hb_connectType l"
    using connect_type_text[of l] assms(1) by (simp_all add: hba_ok_def token_of_def t_def)
  have shown: "hba_GetText l = (if hb_isComment l then ''# '' else []) @ t @ tabspace @ d"
    using assms(2)
    by (simp add: hba_GetText_def d_def user_on_def address_on_def method_on_def option_written_def has_option_def t_def)
  have "SkipNonspace (t @ tabspace @ d) = tabspace @ d" by (rule skip_word[OF t(1)]) simp
  moreover have "SkipSpace (CHR '' '' # t @ tabspace @ d) = t @ tabspace @ d"
    using t(1,2) skip_space[of "t @ tabspace @ d"] by (cases t) (simp_all add: no_space_def SkipSpace_def IsSpaceChar_def)
  moreover have "hd (t @ tabspace @ d) \<noteq> CHR ''#''" using t(2,3) by (cases t) simp_all
  ultimately show ?thesis
    using t read_fields[OF assms(1)] parts_start(4)[OF assms(1)] skip_tabspace[of d]
    by (simp add: shown hba_Init_def Let_def option_written_def flip: d_def)
qed

theorem hba_line_reads_back_witness:
  "let l = (new_hba_line [])\<lparr>hb_connectType := PGC_HOST, hb_method := PGC_LDAP, hb_database := ''all'',
       hb_user := [CHR 0x22] @ ''a b'' @ [CHR 0x22], hb_ipaddress := ''10.0.0.0/8'', hb_option := ''x'', hb_changed := True\<rparr> in
   hb_user (hba_Init (hba_GetText l) (new_hba_line [])) = hb_user l
   \<and> hb_option (hba_Init (hba_GetText l) (new_hba_line [])) = ''x''"
proof -
  let ?l = "(new_hba_line [])\<lparr>hb_connectType := PGC_HOST, hb_method := PGC_LDAP, hb_database := ''all'',
       hb_user := [CHR 0x22] @ ''a b'' @ [CHR 0x22], hb_ipaddress := ''10.0.0.0/8'', hb_option := ''x'', hb_changed := True\<rparr>"
  have "hba_ok ?l" "has_option PGC_LDAP" by code_simp+
  then show ?thesis using hba_line_reads_back[of ?l "new_hba_line []"] by (simp add: Let_def)
qed

text \<open>A host name or one of the words for addresses is taken together with the method after it.\<close>

theorem address_word_takes_method:
  "let l = new_hba_line ''host all all samenet md5'' in
   hb_ipaddress l = ''samenet md5'' \<and> \<not> hb_isValid l"
  by code_simp

end
