(* ===== verification/HbaEditor.thy ===== *)
theory HbaEditor
  imports HbaConfig
begin

text \<open>
  The window of \<open>frm/frmHbaConfig.cpp\<close> and the dialog of \<open>dlg/dlgHbaConfig.cpp\<close>: lines, the rows of the list
  and the flag for changes; the result of the dialog is \<open>None\<close> when it was cancelled. Shown: each
  operation keeps the rows in step with the lines, and the last line blank, so that the saved text
  holds every other line; what becomes of the line ends of an unchanged file; which methods the dialog writes.
\<close>

section \<open>The window\<close>

record hba_row =
  row_enabled :: bool
  row_cells :: "string list"

record hba_frame =
  hf_lines :: "hba_line list"
  hf_rows :: "hba_row list"
  hf_changed :: bool
  hf_filetype :: text_file_type

definition row_of :: "hba_line \<Rightarrow> hba_row" where
  "row_of l =
     \<lparr>row_enabled = (\<not> hb_isComment l),
      row_cells = [text_or_empty (GetConnectType l), hb_database l, hb_user l, hb_ipaddress l,
                   text_or_empty (GetMethod l), hb_option l]\<rparr>"

definition empty_row :: hba_row where
  "empty_row = \<lparr>row_enabled = False, row_cells = [[], [], [], [], [], []]\<rparr>"

fun show_lines :: "hba_line list \<Rightarrow> hba_row list \<Rightarrow> hba_line list \<times> hba_row list" where
  "show_lines [] rows = ([], rows)"
| "show_lines (l # ls) rows =
     (if (hb_isValid l \<or> (\<not> hb_isValid l \<and> \<not> hb_isComment l)) \<and> hba_GetText l \<noteq> []
      then let (ls', rows') = show_lines ls (rows @ [row_of l]) in (l\<lparr>hb_item := int (length rows)\<rparr> # ls', rows')
      else let (ls', rows') = show_lines ls rows in (l # ls', rows'))"

definition blank_hba_line :: "hba_row list \<Rightarrow> hba_line" where
  "blank_hba_line rows = (new_hba_line [])\<lparr>hb_item := int (length rows)\<rparr>"

definition hba_DisplayFile :: "string \<Rightarrow> hba_frame \<Rightarrow> hba_frame" where
  "hba_DisplayFile str fr =
     (let (ls, rows) = show_lines (map new_hba_line (lines_shown str)) [];
          fr = fr\<lparr>hf_filetype := file_type_of str\<rparr> in
      if ls = [] \<or> hb_text (last ls) \<noteq> []
      then fr\<lparr>hf_lines := ls @ [blank_hba_line rows], hf_rows := rows @ [empty_row]\<rparr>
      else fr\<lparr>hf_lines := ls, hf_rows := rows\<rparr>)"

text \<open>\<open>done\<close> is the outcome of \<open>DoWriteFile\<close>; the result has the text for the file too.\<close>

definition hba_WriteFile :: "bool \<Rightarrow> hba_frame \<Rightarrow> string \<times> hba_frame" where
  "hba_WriteFile success fr =
     (text_written (hf_filetype fr) (with_line_ends (map hba_GetText (butlast (hf_lines fr)))),
      if success
      then fr\<lparr>hf_changed := False, hf_lines := map (\<lambda>l. hba_Init (hba_GetText l) l) (hf_lines fr)\<rparr>
      else fr)"

fun line_with_item :: "int \<Rightarrow> hba_line list \<Rightarrow> nat option" where
  "line_with_item pos [] = None"
| "line_with_item pos (l # ls) =
     (if hb_item l = pos then Some 0 else map_option Suc (line_with_item pos ls))"

definition UpdateDisplay :: "hba_line \<Rightarrow> hba_row list \<Rightarrow> hba_row list" where
  "UpdateDisplay l rows = rows[nat (hb_item l) := row_of l]"

definition hba_OnUndo :: "int \<Rightarrow> hba_frame \<Rightarrow> hba_frame" where
  "hba_OnUndo pos fr =
     (if 0 \<le> pos then
        case line_with_item pos (hf_lines fr) of
          None \<Rightarrow> fr
        | Some i \<Rightarrow>
            let l = hba_Init (hb_text (hf_lines fr ! i)) (hf_lines fr ! i) in
            fr\<lparr>hf_lines := (hf_lines fr)[i := l], hf_rows := UpdateDisplay l (hf_rows fr)\<rparr>
      else fr)"

definition hba_OnDelete :: "int \<Rightarrow> hba_frame \<Rightarrow> hba_frame" where
  "hba_OnDelete pos fr =
     (if 0 \<le> pos then
        let fr = fr\<lparr>hf_rows := take (nat pos) (hf_rows fr) @ drop (nat pos + 1) (hf_rows fr)\<rparr> in
        case line_with_item pos (hf_lines fr) of
          None \<Rightarrow> fr
        | Some i \<Rightarrow>
            fr\<lparr>hf_changed := True,
               hf_lines := map (\<lambda>l. if pos < hb_item l then l\<lparr>hb_item := hb_item l - 1\<rparr> else l)
                             (take i (hf_lines fr) @ drop (i + 1) (hf_lines fr))\<rparr>
      else fr)"

text \<open>\<open>dlg\<close> is the dialog: what it makes of the line, or \<open>None\<close>.\<close>

definition hba_OnEditSetting :: "int \<Rightarrow> (hba_line \<Rightarrow> hba_line option) \<Rightarrow> hba_frame \<Rightarrow> hba_frame" where
  "hba_OnEditSetting pos dlg fr =
     (if pos < 0 then fr
      else
        case line_with_item pos (hf_lines fr) of
          None \<Rightarrow> fr
        | Some i \<Rightarrow>
            let line = hf_lines fr ! i;
                isLastLine = (i = length (hf_lines fr) - 1 \<and> hb_isComment line \<and> GetConnectType line = None) in
            case dlg line of
              None \<Rightarrow> fr
            | Some line' \<Rightarrow>
                let ls = (hf_lines fr)[i := line']; rows = UpdateDisplay line' (hf_rows fr) in
                if isLastLine
                then fr\<lparr>hf_lines := ls @ [blank_hba_line rows], hf_rows := rows @ [empty_row], hf_changed := True\<rparr>
                else fr\<lparr>hf_lines := ls, hf_rows := rows, hf_changed := True\<rparr>)"

text \<open>Deleting is enabled for every row but the last.\<close>

definition delete_enabled :: "int \<Rightarrow> hba_frame \<Rightarrow> bool" where
  "delete_enabled pos fr \<longleftrightarrow> pos \<noteq> int (length (hf_rows fr)) - 1"

section \<open>The dialog\<close>

text \<open>The version of the server, \<open>None\<close> without a connection.\<close>

definition BackendMinimumVersion :: "int \<times> int \<Rightarrow> int \<Rightarrow> int \<Rightarrow> bool" where
  "BackendMinimumVersion v major minor \<longleftrightarrow> fst v > major \<or> (fst v = major \<and> snd v \<ge> minor)"

definition cbMethod_items :: "(int \<times> int) option \<Rightarrow> string list" where
  "cbMethod_items conn =
     [''trust'', ''reject'', ''md5'', ''password'', ''krb4'', ''krb5'', ''ident'', ''pam''] @
     (case conn of
        Some v \<Rightarrow>
          (if BackendMinimumVersion v 8 2 then [''ldap''] else []) @
          (if BackendMinimumVersion v 8 3 then [''gss'', ''sspi''] else []) @
          (if BackendMinimumVersion v 8 4 then [''cert''] else [''crypt'']) @
          (if BackendMinimumVersion v 9 0 then [''radius''] else []) @
          (if BackendMinimumVersion v 9 1 then [''peer''] else [])
      | None \<Rightarrow> [''ldap'', ''gss'', ''sspi'', ''cert'', ''crypt'', ''radius'', ''peer''])"

definition cbType_items :: "string list" where
  "cbType_items = [''local'', ''host'', ''hostssl'', ''hostnossl'']"

text \<open>What the controls hold; a selection is -1 where nothing is chosen.\<close>

record hba_choice =
  ch_enabled :: bool
  ch_type :: int
  ch_database :: string
  ch_user :: string
  ch_ipaddress :: string
  ch_method :: int
  ch_option :: string

definition option_from :: "(int \<times> int) option \<Rightarrow> bool" where
  "option_from conn = (case conn of Some v \<Rightarrow> BackendMinimumVersion v 8 4 | None \<Rightarrow> True)"

definition needOption :: "(int \<times> int) option \<Rightarrow> hba_choice \<Rightarrow> bool" where
  "needOption conn ch =
     (let is_method = (\<lambda>m. ch_method ch = int (number_in hba_methods m));
          need = (if is_method PGC_IDENT \<or> is_method PGC_LDAP then True
                  else if is_method PGC_GSS \<or> is_method PGC_SSPI \<or> is_method PGC_KRB5 \<or> is_method PGC_PAM
                          \<or> is_method PGC_CERT
                  then option_from conn else False) in
      if ch_type ch = int (number_in hba_connect_types PGC_HOSTSSL) \<and> option_from conn then True else need)"

definition ok_enabled :: "hba_choice \<Rightarrow> bool" where
  "ok_enabled ch \<longleftrightarrow> 0 \<le> ch_type ch \<and> ch_database ch \<noteq> [] \<and> ch_user ch \<noteq> [] \<and> 0 \<le> ch_method ch"

definition hba_OnOK :: "(int \<times> int) option \<Rightarrow> hba_choice \<Rightarrow> hba_line \<Rightarrow> hba_line option" where
  "hba_OnOK conn ch l =
     (if \<not> ok_enabled ch then None
      else Some (l\<lparr>hb_isComment := (\<not> ch_enabled ch),
                   hb_connectType := hba_connect_types ! nat (ch_type ch),
                   hb_database := ch_database ch, hb_user := ch_user ch, hb_ipaddress := ch_ipaddress ch,
                   hb_method := hba_methods ! nat (ch_method ch),
                   hb_option := (if needOption conn ch then ch_option ch else []),
                   hb_changed := True\<rparr>))"

text \<open>Choosing a database or a user adds it to the list in the control; \<open>sel\<close> is the selection.\<close>

definition add_element :: "string \<Rightarrow> string \<Rightarrow> string" where
  "add_element list str =
     (let pos = find_string str list;
          pos = (if 0 \<le> pos \<and> 0 < pos \<and> mid_len list (pos - 1) 1 \<noteq> '','' then -1 else pos);
          found = (0 \<le> pos \<and>
            \<not> (int (length str) + pos < int (length list) \<and> mid_len list (pos + int (length str)) 1 \<noteq> '','')) in
      if \<not> found then (if list \<noteq> [] then list @ '','' else list) @ str else list)"

definition cbDatabase_items :: "(int \<times> int) option \<Rightarrow> string list \<Rightarrow> string list" where
  "cbDatabase_items conn datnames =
     [''all'', ''sameuser'', ''@<filename>''] @
     (case conn of
        Some v \<Rightarrow> (if BackendMinimumVersion v 8 1 then [''samerole''] else [''samegroup'']) @
                  (if BackendMinimumVersion v 9 0 then [''replication''] else []) @ datnames
      | None \<Rightarrow> [''samegroup'', ''samerole'', ''replication''])"

definition OnAddDatabase :: "string list \<Rightarrow> nat \<Rightarrow> string \<Rightarrow> string" where
  "OnAddDatabase its sel database =
     (if sel < 3 then database
      else
        let database = (if database \<in> {''all'', ''sameuser'', ''samegroup'', ''samerole'', ''replication''}
                           \<or> left database 1 = ''@'' then [] else database) in
        if sel = 3 then ''@''
        else
          let str = its ! sel;
              str = (if 0 \<le> find_char (CHR '' '') str then [CHR 0x22] @ str @ [CHR 0x22] else str) in
          add_element database str)"

definition OnAddUser :: "string list \<Rightarrow> nat \<Rightarrow> string \<Rightarrow> string" where
  "OnAddUser its sel user =
     (if sel < 1 then user
      else
        let str = its ! sel;
            str = (if left str 6 = ''group ''
                   then if 5 < find_char_end (CHR '' '') str then ''+'' @ [CHR 0x22] @ mid str 6 @ [CHR 0x22]
                        else ''+'' @ mid str 6
                   else if 0 \<le> find_char (CHR '' '') str then [CHR 0x22] @ str @ [CHR 0x22] else str) in
        if user = ''all'' then str else add_element user str)"

section \<open>The rows follow the lines\<close>

definition items :: "hba_line list \<Rightarrow> int list" where
  "items ls = filter (\<lambda>i. 0 \<le> i) (map hb_item ls)"

definition is_blank :: "hba_line \<Rightarrow> bool" where
  "is_blank l \<longleftrightarrow> hb_text l = [] \<and> \<not> hb_changed l \<and> hb_isComment l \<and> hb_connectType l = PGC_INVALIDCONF"

definition frame_ok :: "hba_frame \<Rightarrow> bool" where
  "frame_ok fr \<longleftrightarrow>
     items (hf_lines fr) = map int [0..<length (hf_rows fr)] \<and> hf_lines fr \<noteq> [] \<and> is_blank (last (hf_lines fr))"

lemma items_append: "items (a @ b) = items a @ items b"
  by (simp add: items_def)

lemma items_single: "items [l] = (if 0 \<le> hb_item l then [hb_item l] else [])"
  by (simp add: items_def)

lemma item_Init [simp]: "hb_item (hba_Init s l) = hb_item l"
  by (simp add: hba_Init_def hba_fields_def hba_method_part_def Let_def)

lemma blank_new: "is_blank (new_hba_line [])" "is_blank (blank_hba_line rows)" "hb_item (blank_hba_line rows) = int (length rows)"
  by (simp_all add: is_blank_def blank_hba_line_def new_hba_line_def hba_Init_def)

lemma new_item: "hb_item (new_hba_line s) = -1"
  by (simp add: new_hba_line_def)

lemma new_text: "hb_text (new_hba_line s) = s"
  by (simp add: new_hba_line_def hba_Init_def hba_fields_def hba_method_part_def Let_def)

lemma new_changed: "\<not> hb_changed (new_hba_line s)"
  by (simp add: new_hba_line_def hba_Init_def hba_fields_def hba_method_part_def Let_def)

lemma show_lines_items:
  "list_all (\<lambda>l. hb_item l < 0) ls \<Longrightarrow> show_lines ls rows = (ls', rows') \<Longrightarrow>
     items ls' = map int [length rows..<length rows'] \<and> length rows \<le> length rows'
     \<and> map hba_GetText ls' = map hba_GetText ls \<and> map hb_text ls' = map hb_text ls
     \<and> (if ls = [] then True else hba_GetText (last ls) = [] \<longrightarrow> last ls' = last ls)"
proof (induction ls arbitrary: rows ls' rows')
  case (Cons l ls)
  let ?shown = "(hb_isValid l \<or> (\<not> hb_isValid l \<and> \<not> hb_isComment l)) \<and> hba_GetText l \<noteq> []"
  obtain ks rs where rec: "show_lines ls (if ?shown then rows @ [row_of l] else rows) = (ks, rs)" by fastforce
  have out: "ls' = (if ?shown then l\<lparr>hb_item := int (length rows)\<rparr> else l) # ks" "rows' = rs"
    using Cons.prems(2) rec by (auto split: if_splits)
  have IH: "items ks = map int [length (if ?shown then rows @ [row_of l] else rows)..<length rs]"
    "length (if ?shown then rows @ [row_of l] else rows) \<le> length rs"
    "map hba_GetText ks = map hba_GetText ls" "map hb_text ks = map hb_text ls"
    "ls \<noteq> [] \<Longrightarrow> hba_GetText (last ls) = [] \<Longrightarrow> last ks = last ls"
    using Cons.IH[OF _ rec] Cons.prems(1) by auto
  have "items ls' = map int [length rows..<length rows']"
    using IH(1,2) Cons.prems(1) by (cases ?shown) (simp_all add: out items_def upt_conv_Cons)
  moreover have "hba_GetText (l\<lparr>hb_item := i\<rparr>) = hba_GetText l" for i
    by (simp add: hba_GetText_def GetConnectType_def GetMethod_def)
  ultimately show ?case
    using IH(2-5) by (auto simp: out split: if_splits)
qed (simp add: items_def)

lemma line_with_item_Some:
  "line_with_item pos ls = Some i \<Longrightarrow> i < length ls \<and> hb_item (ls ! i) = pos"
  by (induction ls arbitrary: i) (auto split: if_splits)

lemma line_with_item_None: "line_with_item pos ls = None \<longleftrightarrow> pos \<notin> set (map hb_item ls)"
  by (induction ls) auto

lemma items_update:
  "i < length ls \<Longrightarrow> hb_item l = hb_item (ls ! i) \<Longrightarrow> items (ls[i := l]) = items ls"
  using list_update_id[of "map hb_item ls" i] by (simp add: items_def map_update)

lemma last_update: "ls \<noteq> [] \<Longrightarrow> i < length ls \<Longrightarrow> last (ls[i := l]) = (if i = length ls - 1 then l else last ls)"
  by (simp add: last_list_update)

lemma hba_display_ok: "frame_ok (hba_DisplayFile str fr)"
proof -
  let ?ls = "map new_hba_line (lines_shown str)"
  obtain ls rows where s: "show_lines ?ls [] = (ls, rows)" by fastforce
  have neg: "list_all (\<lambda>l. hb_item l < 0) ?ls" by (simp add: list_all_iff new_item)
  note shown = show_lines_items[OF neg s]
  show ?thesis
  proof (cases "ls = [] \<or> hb_text (last ls) \<noteq> []")
    case True
    then show ?thesis
      using shown blank_new(2)[of rows] blank_new(3)[of rows]
      by (auto simp: hba_DisplayFile_def s frame_ok_def items_append items_single)
  next
    case False
    then have ne: "?ls \<noteq> []" "lines_shown str \<noteq> []" using shown by auto
    have "hb_text (last ?ls) = hb_text (last ls)"
      using shown ne False by (metis last_map)
    then have "last (lines_shown str) = []" using False ne by (simp add: last_map new_text)
    then have "last ?ls = new_hba_line []" using ne by (simp add: last_map)
    moreover have "hba_GetText (new_hba_line []) = []" by (simp add: hba_GetText_def new_changed new_text)
    ultimately have "last ls = new_hba_line []" using shown ne by simp
    then show ?thesis
      using shown False blank_new(1) by (simp add: hba_DisplayFile_def s frame_ok_def)
  qed
qed

lemma undo_ok: "frame_ok fr \<Longrightarrow> frame_ok (hba_OnUndo pos fr)"
proof (cases "line_with_item pos (hf_lines fr)")
  case (Some i)
  assume ok: "frame_ok fr"
  let ?l = "hf_lines fr ! i"
  have i: "i < length (hf_lines fr)" using line_with_item_Some[OF Some] by simp
  have "is_blank (hba_Init (hb_text ?l) ?l)" if "is_blank ?l"
    using that by (simp add: is_blank_def hba_Init_def)
  then show ?thesis
    using ok Some i items_update[of i "hf_lines fr" "hba_Init (hb_text ?l) ?l"]
    by (auto simp: hba_OnUndo_def frame_ok_def UpdateDisplay_def last_update Let_def) (simp add: last_conv_nth)
qed (simp add: hba_OnUndo_def)

lemma split_upto:
  assumes "xs @ p # ys = map int [0..<n]"
  shows "xs = map int [0..<length xs] \<and> p = int (length xs) \<and> ys = map int [Suc (length xs)..<n]"
proof -
  have n: "length xs + length ys + 1 = n" using arg_cong[OF assms, of length] by simp
  then have "map int [0..<n] = map int [0..<length xs] @ int (length xs) # map int [Suc (length xs)..<n]"
    by (subst upt_conv_Cons[symmetric, of "length xs" n, THEN arg_cong[where f = "map int"], simplified])
      (simp_all add: upt_add_eq_append[of 0 "length xs" "length ys + 1", simplified] upt_conv_Cons flip: n)
  then show ?thesis using assms by (simp add: append_eq_append_conv)
qed

lemma renumbered:
  "\<forall>l\<in>set ls. hb_item l \<noteq> pos \<Longrightarrow> 0 \<le> pos \<Longrightarrow>
   items (map (\<lambda>l. if pos < hb_item l then l\<lparr>hb_item := hb_item l - 1\<rparr> else l) ls)
     = map (\<lambda>i. if pos < i then i - 1 else i) (items ls)"
  by (induction ls) (auto simp: items_def)

lemma delete_ok:
  assumes "frame_ok fr" "delete_enabled pos fr"
  shows "frame_ok (hba_OnDelete pos fr)"
proof (cases "0 \<le> pos")
  case True
  let ?ls = "hf_lines fr" and ?n = "length (hf_rows fr)"
  have ok: "items ?ls = map int [0..<?n]" "?ls \<noteq> []" "is_blank (last ?ls)" using assms(1) by (simp_all add: frame_ok_def)
  show ?thesis
  proof (cases "line_with_item pos ?ls")
    case None
    then have "pos \<notin> set (items ?ls)" using line_with_item_None by (auto simp: items_def)
    moreover have "pos \<in> set (items ?ls)" if "pos < int ?n"
      using that True by (auto simp: ok(1) image_iff intro!: bexI[of _ "nat pos"])
    ultimately have "\<not> pos < int ?n" by blast
    then have "length (take (nat pos) (hf_rows fr) @ drop (nat pos + 1) (hf_rows fr)) = ?n" by simp
    then show ?thesis using ok None True by (simp add: hba_OnDelete_def frame_ok_def Let_def)
  next
    case (Some i)
    define a where "a = take i ?ls"
    define b where "b = drop (Suc i) ?ls"
    have i: "i < length ?ls" "hb_item (?ls ! i) = pos" using line_with_item_Some[OF Some] by simp_all
    have ls: "?ls = a @ ?ls ! i # b" using i(1) by (simp add: a_def b_def id_take_nth_drop)
    have its: "items a @ pos # items b = map int [0..<?n]"
      using ok(1) i(2) True by (subst (asm) ls) (simp add: items_def)
    note sp = split_upto[OF its]
    have p: "nat pos = length (items a)" "nat pos < ?n" "length (items b) = ?n - nat pos - 1"
      using sp arg_cong[OF its, of length] by simp_all
    obtain m where m: "items a = map int [0..<m]" "pos = int m" "items b = map int [Suc m..<?n]"
      using sp by blast
    have "pos \<notin> set (items a)" "pos \<notin> set (items b)" by (auto simp: m)
    then have other: "\<forall>l\<in>set (a @ b). hb_item l \<noteq> pos" using True by (auto simp: items_def)
    let ?f = "\<lambda>l. if pos < hb_item l then l\<lparr>hb_item := hb_item l - 1\<rparr> else l"
    have "items (map ?f (a @ b)) = map (\<lambda>j. if pos < j then j - 1 else j) (map int [0..<nat pos] @ map int [Suc (nat pos)..<?n])"
      using renumbered[OF other True] sp p by (simp add: items_append)
    also have "\<dots> = map int [0..<?n - 1]"
      using p True by (intro nth_equalityI) (auto simp: nth_append)
    finally have its': "items (map ?f (a @ b)) = map int [0..<?n - 1]" .
    have "i \<noteq> length ?ls - 1"
    proof
      assume "i = length ?ls - 1"
      then have "b = []" by (simp add: b_def)
      then have "pos = int ?n - 1" using p True by (simp add: items_def)
      then show False using assms(2) by (simp add: delete_enabled_def)
    qed
    then have bl: "b \<noteq> []" "last b = last ?ls" using i(1) by (auto simp: b_def last_drop)
    have "is_blank (last (map ?f (a @ b)))"
      using ok(3) bl by (simp add: last_map is_blank_def)
    then show ?thesis
      using its' bl(1) p True Some
      by (simp add: hba_OnDelete_def frame_ok_def Let_def flip: a_def b_def)
  qed
qed (use assms in \<open>simp add: hba_OnDelete_def\<close>)

lemma edit_ok:
  assumes "frame_ok fr"
  shows "frame_ok (hba_OnEditSetting pos (hba_OnOK conn ch) fr)"
proof (cases "pos < 0 \<or> line_with_item pos (hf_lines fr) = None")
  case False
  let ?ls = "hf_lines fr"
  obtain i where some: "line_with_item pos ?ls = Some i" using False by blast
  have i: "i < length ?ls" using line_with_item_Some[OF some] by simp
  have ok: "items ?ls = map int [0..<length (hf_rows fr)]" "?ls \<noteq> []" "is_blank (last ?ls)"
    using assms by (simp_all add: frame_ok_def)
  show ?thesis
  proof (cases "hba_OnOK conn ch (?ls ! i)")
    case None
    then show ?thesis using False some assms by (simp add: hba_OnEditSetting_def Let_def)
  next
    case (Some l)
    then have "hb_item l = hb_item (?ls ! i)" by (auto simp: hba_OnOK_def split: if_splits)
    then have its: "items (?ls[i := l]) = items ?ls" using items_update i by simp
    have last: "hb_isComment (?ls ! i) \<and> GetConnectType (?ls ! i) = None" if "i = length ?ls - 1"
      using ok that i
      by (simp add: is_blank_def last_conv_nth GetConnectType_def)
    have "length (UpdateDisplay l (hf_rows fr)) = length (hf_rows fr)" by (simp add: UpdateDisplay_def)
    then show ?thesis
      using False some Some its ok blank_new(2,3) last i
      by (auto simp: hba_OnEditSetting_def Let_def frame_ok_def items_append items_single last_update)
  qed
qed (use assms in \<open>auto simp: hba_OnEditSetting_def\<close>)

lemma write_ok: "frame_ok fr \<Longrightarrow> frame_ok (snd (hba_WriteFile success fr))"
proof -
  have "items (map (\<lambda>l. hba_Init (hba_GetText l) l) ls) = items ls" for ls
    by (simp add: items_def comp_def)
  moreover have "is_blank (hba_Init (hba_GetText l) l)" if "is_blank l" for l
    using that by (simp add: is_blank_def hba_GetText_def hba_Init_def)
  ultimately show "frame_ok fr \<Longrightarrow> frame_ok (snd (hba_WriteFile success fr))"
    by (simp add: frame_ok_def hba_WriteFile_def last_map)
qed

text \<open>The operations of the window, in any order. A delete is made only where it is enabled.\<close>

inductive hba_step :: "hba_frame \<Rightarrow> hba_frame \<Rightarrow> bool" where
  display: "hba_step fr (hba_DisplayFile str fr)"
| undo: "hba_step fr (hba_OnUndo pos fr)"
| delete: "delete_enabled pos fr \<Longrightarrow> hba_step fr (hba_OnDelete pos fr)"
| edit: "hba_step fr (hba_OnEditSetting pos (hba_OnOK conn ch) fr)"
| save: "hba_step fr (snd (hba_WriteFile success fr))"

inductive hba_reachable :: "hba_frame \<Rightarrow> bool" where
  opened: "hba_reachable (hba_DisplayFile str fr)"
| next_step: "hba_reachable fr \<Longrightarrow> hba_step fr fr' \<Longrightarrow> hba_reachable fr'"

lemma step_ok: "hba_step fr fr' \<Longrightarrow> frame_ok fr \<Longrightarrow> frame_ok fr'"
  by (induction rule: hba_step.induct) (auto intro: hba_display_ok undo_ok delete_ok edit_ok write_ok)

text \<open>C29. However the window is used, the lines that are shown are numbered as the rows of the list, from
  the first to the last, and the last line is blank: the saved text, which leaves the last line out,
  has every line of the file.\<close>

theorem hba_rows_in_step:
  assumes "hba_reachable fr"
  shows "items (hf_lines fr) = map int [0..<length (hf_rows fr)]
    \<and> hf_lines fr \<noteq> [] \<and> hba_GetText (last (hf_lines fr)) = []"
proof -
  have "frame_ok fr"
    using assms by (induction rule: hba_reachable.induct) (auto intro: hba_display_ok step_ok)
  then show ?thesis by (simp add: frame_ok_def is_blank_def hba_GetText_def)
qed

theorem hba_rows_in_step_witness:
  "let fr = hba_DisplayFile ''local all all trust''
       \<lparr>hf_lines = [], hf_rows = [], hf_changed = False, hf_filetype = wxTextFileType_Unix\<rparr> in
   items (hf_lines (hba_OnDelete 0 fr)) = map int [0..<length (hf_rows (hba_OnDelete 0 fr))]"
proof -
  let ?fr = "hba_DisplayFile ''local all all trust''
       \<lparr>hf_lines = [], hf_rows = [], hf_changed = False, hf_filetype = wxTextFileType_Unix\<rparr>"
  have "length (hf_rows ?fr) = 2" by code_simp
  then have "delete_enabled 0 ?fr" by (simp add: delete_enabled_def)
  then have "hba_reachable (hba_OnDelete 0 ?fr)"
    by (rule hba_reachable.next_step[OF hba_reachable.opened hba_step.delete])
  then show ?thesis using hba_rows_in_step[of "hba_OnDelete 0 ?fr"] by (simp add: Let_def)
qed

lemma shown_file_written:
  "fst (hba_WriteFile success (hba_DisplayFile str fr)) =
   (let s = (if 0 \<le> find_char cr str then Translate wxTextFileType_Unix str else str) in
    text_written (file_type_of str) (if list_all is_lf s then [] else without_last_line_ends s @ [lf]))"
proof -
  define s where "s = (if 0 \<le> find_char cr str then Translate wxTextFileType_Unix str else str)"
  let ?ls = "map new_hba_line (lines_shown str)"
  obtain ls rows where sh: "show_lines ?ls [] = (ls, rows)" by fastforce
  have shown: "map hba_GetText ls = map hba_GetText ?ls" "map hb_text ls = map hb_text ?ls"
    using show_lines_items[OF _ sh] by (simp_all add: list_all_iff new_item)
  have same: "hba_GetText (new_hba_line l) = l" for l by (simp add: hba_GetText_def new_changed new_text)
  have ls: "map hba_GetText ls = file_lines s" "map hb_text ls = file_lines s"
    using shown by (simp_all add: comp_def same new_text lines_shown_def s_def)
  have "with_line_ends (map hba_GetText (butlast (hf_lines (hba_DisplayFile str fr))))
      = (if list_all is_lf s then [] else without_last_line_ends s @ [lf])"
  proof (cases "s \<noteq> [] \<and> list_all is_lf s")
    case True
    then have "map hb_text ls = [[]]" using ls(2) by (simp add: file_lines_def)
    then have "length ls = 1" "hb_text (last ls) = []" by (auto simp: map_eq_Cons_conv)
    then show ?thesis
      using True by (cases ls) (auto simp: hba_DisplayFile_def sh with_line_ends_def)
  next
    case False
    then have f: "file_lines s = more_lines s" by (auto simp: file_lines_def)
    have "ls = [] \<or> hb_text (last ls) \<noteq> []"
    proof (cases "ls = []")
      case ne: False
      then have "more_lines s \<noteq> []" using ls(2) f by auto
      then show ?thesis using more_lines_last[of s] ls(2) f ne by (metis last_map)
    qed simp
    then have "butlast (hf_lines (hba_DisplayFile str fr)) = ls" by (simp add: hba_DisplayFile_def sh)
    then show ?thesis using False more_lines_text[of s] ls(1) f by simp
  qed
  then show ?thesis
    by (simp add: hba_WriteFile_def hba_DisplayFile_def sh Let_def flip: s_def split: if_splits)
qed

section \<open>An unchanged file\<close>

text \<open>A file of lines that end in \<open>e\<close>, with \<open>n\<close> line ends after the last one that is not empty.\<close>

definition file_with_ends :: "string \<Rightarrow> string list \<Rightarrow> nat \<Rightarrow> string" where
  "file_with_ends e ls n = concat (map (\<lambda>l. l @ e) (butlast ls)) @ last ls @ concat (replicate n e)"

abbreviation no_ends :: "string \<Rightarrow> bool" where
  "no_ends l \<equiv> cr \<notin> set l \<and> lf \<notin> set l"

lemma translate_line: "no_ends l \<Longrightarrow> Translate t (l @ s) = l @ Translate t s"
  by (induction l) auto

lemma translate_end:
  "k = wxTextFileType_Mac \<longrightarrow> s = [] \<or> hd s \<noteq> lf \<Longrightarrow> Translate t (line_end_of k @ s) = line_end_of t @ Translate t s"
  by (cases k; cases s; simp add: line_end_of_def)

lemma mac_start:
  "no_ends l \<Longrightarrow> s = [] \<or> hd s \<noteq> lf \<Longrightarrow> l @ s = [] \<or> hd (l @ s) \<noteq> lf"
  by (cases l) auto

lemma translate_ends:
  "Translate t (concat (replicate n (line_end_of k))) = concat (replicate n (line_end_of t))"
proof (induction n)
  case (Suc n)
  have "concat (replicate n (line_end_of wxTextFileType_Mac)) = [] \<or> hd (concat (replicate n (line_end_of wxTextFileType_Mac))) \<noteq> lf"
    by (cases n) (simp_all add: line_end_of_def)
  then show ?case using Suc translate_end[of k "concat (replicate n (line_end_of k))" t] by (cases k) simp_all
qed simp

lemma translate_lines:
  "\<forall>l\<in>set ls. no_ends l \<Longrightarrow> k = wxTextFileType_Mac \<longrightarrow> s = [] \<or> hd s \<noteq> lf \<Longrightarrow>
    Translate t (concat (map (\<lambda>l. l @ line_end_of k) ls) @ s) = concat (map (\<lambda>l. l @ line_end_of t) ls) @ Translate t s
    \<and> (k = wxTextFileType_Mac \<longrightarrow> concat (map (\<lambda>l. l @ line_end_of k) ls) @ s = []
        \<or> hd (concat (map (\<lambda>l. l @ line_end_of k) ls) @ s) \<noteq> lf)"
proof (induction ls)
  case (Cons l ls)
  let ?r = "concat (map (\<lambda>l. l @ line_end_of k) ls) @ s"
  have "Translate t (line_end_of k @ ?r) = line_end_of t @ Translate t ?r"
    using Cons translate_end[of k ?r t] by auto
  moreover have "k = wxTextFileType_Mac \<Longrightarrow> hd (l @ line_end_of k @ ?r) \<noteq> lf"
    using Cons.prems by (cases l) (auto simp: line_end_of_def)
  ultimately show ?case using Cons by (simp add: translate_line)
qed simp

lemma translate_file:
  assumes "ls \<noteq> []" "\<forall>l\<in>set ls. no_ends l"
  shows "Translate t (file_with_ends (line_end_of k) ls n) = file_with_ends (line_end_of t) ls n"
proof -
  have l: "\<forall>l\<in>set (butlast ls). no_ends l" "no_ends (last ls)" using assms by (auto dest: in_set_butlastD)
  have "concat (replicate n (line_end_of wxTextFileType_Mac)) = [] \<or> hd (concat (replicate n (line_end_of wxTextFileType_Mac))) \<noteq> lf"
    by (cases n) (simp_all add: line_end_of_def)
  from mac_start[OF l(2) this] show ?thesis
    using translate_lines[OF l(1), of k "last ls @ concat (replicate n (line_end_of k))" t] l(2)
    by (auto simp: file_with_ends_def translate_line translate_ends)
qed

text \<open>The kind of line ends that is found: with a carriage return anywhere it is that of DOS.\<close>

lemma file_chars:
  assumes "ls \<noteq> []" "\<forall>l\<in>set ls. no_ends l"
  shows "cr \<in> set (file_with_ends (line_end_of k) ls n) \<longleftrightarrow> k \<noteq> wxTextFileType_Unix \<and> (2 \<le> length ls \<or> 1 \<le> n)"
    "k = wxTextFileType_Mac \<Longrightarrow> lf \<notin> set (file_with_ends (line_end_of k) ls n)"
proof -
  have l: "\<forall>l\<in>set (butlast ls). no_ends l" "no_ends (last ls)" using assms by (auto dest: in_set_butlastD)
  have e: "cr \<in> set (line_end_of k) \<longleftrightarrow> k \<noteq> wxTextFileType_Unix" "k = wxTextFileType_Mac \<Longrightarrow> lf \<notin> set (line_end_of k)"
    by (cases k; simp add: line_end_of_def)+
  have b: "butlast ls \<noteq> [] \<longleftrightarrow> 2 \<le> length ls" using assms(1) by (cases ls rule: rev_cases) (auto simp: Suc_le_eq)
  have "cr \<in> set (concat (map (\<lambda>l. l @ line_end_of k) (butlast ls))) \<longleftrightarrow> k \<noteq> wxTextFileType_Unix \<and> 2 \<le> length ls"
    using l(1) e(1) b by (auto simp: neq_Nil_conv)
  moreover have "cr \<in> set (concat (replicate n (line_end_of k))) \<longleftrightarrow> k \<noteq> wxTextFileType_Unix \<and> 1 \<le> n"
    using e(1) by auto
  ultimately show "cr \<in> set (file_with_ends (line_end_of k) ls n) \<longleftrightarrow> k \<noteq> wxTextFileType_Unix \<and> (2 \<le> length ls \<or> 1 \<le> n)"
    using l(2) by (auto simp: file_with_ends_def)
  show "k = wxTextFileType_Mac \<Longrightarrow> lf \<notin> set (file_with_ends (line_end_of k) ls n)"
    using l e(2) by (auto simp: file_with_ends_def)
qed

lemma dos_found:
  assumes "ls \<noteq> []" "\<forall>l\<in>set ls. no_ends l" "k = wxTextFileType_Dos \<and> hd ls \<noteq> [] \<or> k = wxTextFileType_Mac"
    and "2 \<le> length ls \<or> 1 \<le> n"
  shows "file_type_of (file_with_ends (line_end_of k) ls n) = wxTextFileType_Dos"
proof -
  let ?s = "file_with_ends (line_end_of k) ls n"
  have cr: "0 \<le> find_char cr ?s" using file_chars(1)[OF assms(1,2), of k n] assms(3,4) find_char_none[of cr ?s] by auto
  have "\<not> prefix [cr, lf] ?s"
    using assms(3)
  proof
    assume k: "k = wxTextFileType_Dos \<and> hd ls \<noteq> []"
    obtain l ls' where ls: "ls = l # ls'" using assms(1) by (cases ls) auto
    then obtain x l' where l: "l = x # l'" "x \<noteq> cr" using k assms(2) by (cases l) auto
    have "\<exists>u. ?s = x # u" using ls l by (cases ls') (auto simp: file_with_ends_def)
    then show ?thesis using l(2) by auto
  next
    assume "k = wxTextFileType_Mac"
    then show ?thesis using file_chars(2)[OF assms(1,2), of k n] by (auto simp: prefix_def)
  qed
  then have "find_string [cr, lf] ?s \<noteq> 0" using find_string_at[of "[cr, lf]" ?s] by auto
  then show ?thesis using cr by (simp add: file_type_of_def)
qed

text \<open>C30. A file whose lines end in a line feed is opened and saved without a change as it was, up to its end: there it
  has one line end, and not none or several. The same holds where the lines end in carriage return and line feed
  and the file does not begin with an empty line. Where they end in a carriage return alone, a line feed is added to
  each. The file has a character other than line ends.\<close>

theorem hba_file_kept:
  assumes "ls \<noteq> []" "last ls \<noteq> []" "\<forall>l\<in>set ls. cr \<notin> set l \<and> lf \<notin> set l"
    and "e = [lf] \<or> (e = [cr, lf] \<and> hd ls \<noteq> [] \<or> e = [cr]) \<and> (2 \<le> length ls \<or> 1 \<le> n)"
  shows "fst (hba_WriteFile success (hba_DisplayFile (file_with_ends e ls n) fr))
    = file_with_ends (if e = [cr] then [cr, lf] else e) ls 1"
proof -
  define k where "k = (if e = [lf] then wxTextFileType_Unix else if e = [cr] then wxTextFileType_Mac else wxTextFileType_Dos)"
  have e: "e = line_end_of k" using assms(4) by (auto simp: k_def line_end_of_def)
  let ?s = "file_with_ends e ls n" and ?u = "line_end_of wxTextFileType_Unix"
  have u: "?u = [lf]" by (simp add: line_end_of_def)
  have cr: "0 \<le> find_char cr ?s \<longleftrightarrow> k \<noteq> wxTextFileType_Unix"
  proof -
    have "k \<noteq> wxTextFileType_Unix \<longrightarrow> 2 \<le> length ls \<or> 1 \<le> n" using assms(4) by (auto simp: k_def)
    then show ?thesis
      using file_chars(1)[OF assms(1,3), of k n, folded e] unfolding not_less[symmetric] find_char_none by blast
  qed
  have shown: "(if 0 \<le> find_char cr ?s then Translate wxTextFileType_Unix ?s else ?s) = file_with_ends ?u ls n"
    using cr translate_file[OF assms(1,3), of wxTextFileType_Unix k n, folded e] e by (cases "k = wxTextFileType_Unix") simp_all
  have plain: "without_last_line_ends (last ls) = last ls" "\<not> list_all is_lf (last ls)"
  proof -
    have "last (last ls) \<noteq> lf" using assms(1-3) last_in_set[OF assms(1)] last_in_set[OF assms(2)] by metis
    then obtain v x where "last ls = v @ [x]" "x \<noteq> lf" using assms(2) by (metis append_butlast_last_id)
    then show "without_last_line_ends (last ls) = last ls" "\<not> list_all is_lf (last ls)"
      by (simp_all add: without_last_line_ends_def is_lf_def)
  qed
  have "list_all is_lf (concat (replicate n ?u))" by (simp add: u is_lf_def list_all_iff)
  then have w: "without_last_line_ends (file_with_ends ?u ls n) @ [lf] = file_with_ends ?u ls 1"
    "\<not> list_all is_lf (file_with_ends ?u ls n)"
    using plain by (simp_all add: file_with_ends_def without_last_append) (simp add: u)
  have "fst (hba_WriteFile success (hba_DisplayFile ?s fr)) = text_written (file_type_of ?s) (file_with_ends ?u ls 1)"
    using shown_file_written[of success ?s fr] w by (simp add: Let_def shown)
  also have "\<dots> = file_with_ends (if e = [cr] then [cr, lf] else e) ls 1"
  proof (cases "k = wxTextFileType_Unix")
    case True
    then have "file_type_of ?s = wxTextFileType_Unix" using cr by (simp add: file_type_of_def)
    moreover have "e = [lf]" using e True by (simp add: line_end_of_def)
    ultimately show ?thesis by (simp add: text_written_def u)
  next
    case False
    then have "file_type_of ?s = wxTextFileType_Dos"
      using dos_found[OF assms(1,3), of k n, folded e] assms(4) by (auto simp: k_def split: if_splits)
    moreover have "(if e = [cr] then [cr, lf] else e) = line_end_of wxTextFileType_Dos"
      using False assms(4) by (auto simp: k_def line_end_of_def split: if_splits)
    ultimately show ?thesis
      using translate_file[OF assms(1,3), of wxTextFileType_Dos wxTextFileType_Unix 1] by (simp add: text_written_def)
  qed
  finally show ?thesis .
qed

theorem hba_file_kept_witness:
  "fst (hba_WriteFile True (hba_DisplayFile (''# a'' @ [cr, lf, cr, lf] @ ''local all all trust'')
      \<lparr>hf_lines = [], hf_rows = [], hf_changed = False, hf_filetype = wxTextFileType_Unix\<rparr>))
    = ''# a'' @ [cr, lf, cr, lf] @ ''local all all trust'' @ [cr, lf]"
  using hba_file_kept[of "[''# a'', [], ''local all all trust'']" "[cr, lf]" 0 True
      "\<lparr>hf_lines = [], hf_rows = [], hf_changed = False, hf_filetype = wxTextFileType_Unix\<rparr>"]
  by (simp add: file_with_ends_def)

section \<open>The methods of the dialog\<close>

text \<open>The selection is used as the number of the method, but the list has another order than the methods.\<close>

lemma minimum_version_mono:
  "BackendMinimumVersion v 9 1 \<Longrightarrow> BackendMinimumVersion v 9 0"
  "BackendMinimumVersion v 9 0 \<Longrightarrow> BackendMinimumVersion v 8 4"
  "BackendMinimumVersion v 8 4 \<Longrightarrow> BackendMinimumVersion v 8 3"
  "BackendMinimumVersion v 8 3 \<Longrightarrow> BackendMinimumVersion v 8 2"
  by (auto simp: BackendMinimumVersion_def)

definition agree_at :: "string list \<Rightarrow> (nat \<Rightarrow> bool) \<Rightarrow> bool" where
  "agree_at xs P \<longleftrightarrow>
     length xs \<le> 15 \<and> list_all (\<lambda>i. (xs ! i = pgHbaMethodStrings ! i) = P i) [0..<length xs]"

lemma items_agree:
  "agree_at (cbMethod_items conn)
     (\<lambda>i. i < 3 \<or> (case conn of Some v \<Rightarrow> BackendMinimumVersion v 9 1 \<and> i = 13 | None \<Rightarrow> False))"
proof (cases conn)
  case None
  then show ?thesis by (simp add: cbMethod_items_def) code_simp
next
  case (Some v)
  note mono = minimum_version_mono[of v]
  consider "BackendMinimumVersion v 9 1" | "\<not> BackendMinimumVersion v 9 1" "BackendMinimumVersion v 9 0"
    | "\<not> BackendMinimumVersion v 9 0" "BackendMinimumVersion v 8 4"
    | "\<not> BackendMinimumVersion v 8 4" "BackendMinimumVersion v 8 3"
    | "\<not> BackendMinimumVersion v 8 3" "BackendMinimumVersion v 8 2" | "\<not> BackendMinimumVersion v 8 2" by blast
  then show ?thesis
  proof cases
    case 1
    then have "cbMethod_items conn = [''trust'', ''reject'', ''md5'', ''password'', ''krb4'', ''krb5'', ''ident'',
        ''pam'', ''ldap'', ''gss'', ''sspi'', ''cert'', ''radius'', ''peer'']"
      using mono by (simp add: cbMethod_items_def Some)
    then show ?thesis using 1 by (simp add: Some) code_simp
  next
    case 2
    then have "cbMethod_items conn = [''trust'', ''reject'', ''md5'', ''password'', ''krb4'', ''krb5'', ''ident'',
        ''pam'', ''ldap'', ''gss'', ''sspi'', ''cert'', ''radius'']"
      using mono by (simp add: cbMethod_items_def Some)
    then show ?thesis using 2 by (simp add: Some) code_simp
  next
    case 3
    then have "cbMethod_items conn = [''trust'', ''reject'', ''md5'', ''password'', ''krb4'', ''krb5'', ''ident'',
        ''pam'', ''ldap'', ''gss'', ''sspi'', ''cert'']" "\<not> BackendMinimumVersion v 9 1"
      using mono by (auto simp: cbMethod_items_def Some)
    then show ?thesis by (simp add: Some) code_simp
  next
    case 4
    then have "cbMethod_items conn = [''trust'', ''reject'', ''md5'', ''password'', ''krb4'', ''krb5'', ''ident'',
        ''pam'', ''ldap'', ''gss'', ''sspi'', ''crypt'']" "\<not> BackendMinimumVersion v 9 1"
      using mono by (auto simp: cbMethod_items_def Some)
    then show ?thesis by (simp add: Some) code_simp
  next
    case 5
    then have "cbMethod_items conn = [''trust'', ''reject'', ''md5'', ''password'', ''krb4'', ''krb5'', ''ident'',
        ''pam'', ''ldap'', ''crypt'']" "\<not> BackendMinimumVersion v 9 1"
      using mono by (auto simp: cbMethod_items_def Some)
    then show ?thesis by (simp add: Some) code_simp
  next
    case 6
    then have "cbMethod_items conn = [''trust'', ''reject'', ''md5'', ''password'', ''krb4'', ''krb5'', ''ident'',
        ''pam'', ''crypt'']" "\<not> BackendMinimumVersion v 9 1"
      using mono by (auto simp: cbMethod_items_def Some)
    then show ?thesis by (simp add: Some) code_simp
  qed
qed

lemma method_by_number:
  assumes "i < 15" "hb_method l = hba_methods ! i"
  shows "GetMethod l = Some (pgHbaMethodStrings ! i)"
proof -
  have "list_all (\<lambda>i. number_in hba_methods (hba_methods ! i) = i) [0..<15]"
    "number_in hba_methods PGC_INVALIDMETHOD = 15" by code_simp+
  then show ?thesis using assms by (simp add: GetMethod_def list_all_iff)
qed

text \<open>The method written for a line is the one that was chosen in the dialog for the first three
  methods only, trust, reject and md5, and for peer on a server from 9.1 on: any other choice writes a
  different method.\<close>

theorem dialog_method:
  assumes "ok_enabled ch" "ch_method ch = int i" "i < length (cbMethod_items conn)"
  shows "map_option GetMethod (hba_OnOK conn ch l) = Some (Some (cbMethod_items conn ! i)) \<longleftrightarrow>
    i < 3 \<or> (case conn of Some v \<Rightarrow> BackendMinimumVersion v 9 1 \<and> i = 13 | None \<Rightarrow> False)"
proof -
  have agree: "length (cbMethod_items conn) \<le> 15" "(cbMethod_items conn ! i = pgHbaMethodStrings ! i) =
      (i < 3 \<or> (case conn of Some v \<Rightarrow> BackendMinimumVersion v 9 1 \<and> i = 13 | None \<Rightarrow> False))"
    using items_agree[of conn] assms(3) by (simp_all add: agree_at_def list_all_iff)
  have "map_option GetMethod (hba_OnOK conn ch l) = Some (Some (pgHbaMethodStrings ! i))"
    using agree(1) assms by (simp add: hba_OnOK_def method_by_number)
  then show ?thesis using agree(2) by auto
qed

theorem dialog_method_witness:
  "map_option GetMethod
     (hba_OnOK None \<lparr>ch_enabled = True, ch_type = 0, ch_database = ''all'', ch_user = ''all'', ch_ipaddress = [],
        ch_method = 6, ch_option = []\<rparr> (new_hba_line [])) \<noteq> Some (Some (cbMethod_items None ! 6))"
  using dialog_method[where i = 6 and conn = None and l = "new_hba_line []" and
      ch = "\<lparr>ch_enabled = True, ch_type = 0, ch_database = ''all'', ch_user = ''all'', ch_ipaddress = [],
        ch_method = 6, ch_option = []\<rparr>"]
  by (simp add: ok_enabled_def cbMethod_items_def)

text \<open>An added name stands between commas.\<close>

lemma mid_one: "0 \<le> i \<Longrightarrow> i < int (length s) \<Longrightarrow> mid_len s i 1 = [s ! nat i]"
  by (simp add: mid_len_def mid_def left_def) (metis Cons_nth_drop_Suc One_nat_def nat_less_iff take0 take_Suc_Cons)

lemma added_element:
  "\<exists>a b. add_element list str = a @ str @ b \<and> (a = [] \<or> last a = CHR '','') \<and> (b = [] \<or> hd b = CHR '','')"
proof (cases "add_element list str = (if list \<noteq> [] then list @ '','' else list) @ str")
  case True
  then show ?thesis by (intro exI[of _ "if list \<noteq> [] then list @ '','' else list"] exI[of _ "[]"]) simp
next
  case False
  let ?p = "find_string str list"
  have f: "0 \<le> ?p" "0 < ?p \<Longrightarrow> mid_len list (?p - 1) 1 = '',''"
    "int (length str) + ?p < int (length list) \<Longrightarrow> mid_len list (?p + int (length str)) 1 = '',''"
    "add_element list str = list"
    using False by (auto simp: add_element_def Let_def split: if_splits)
  define n where "n = nat ?p"
  have n: "?p = int n" using f(1) by (simp add: n_def)
  obtain b where b: "drop n list = str @ b" using find_string_at[OF f(1)] by (auto simp: n_def prefix_def)
  then have l: "list = take n list @ str @ b" by (metis append_take_drop_id)
  have len: "n \<le> length list" using find_string_bound[of str list] n by simp
  have "take n list = [] \<or> last (take n list) = CHR '',''"
  proof (cases "n = 0")
    case nz: False
    then have "mid_len list (int n - 1) 1 = [list ! (n - 1)]"
      using len mid_one[of "int n - 1" list] by (simp add: nat_diff_distrib)
    moreover have "last (take n list) = list ! (n - 1)"
      using nz len last_conv_nth[of "take n list"] by (cases list) simp_all
    ultimately show ?thesis using f(2) n nz by simp
  qed simp
  moreover have "b = [] \<or> hd b = CHR '',''"
  proof (cases "b = []")
    case nb: False
    have "length list = n + length str + length b" using arg_cong[OF l, of length] len by simp
    then have lt: "n + length str < length list" using nb by simp
    have "list ! (n + length str) = hd b"
      using b nb len by (metis hd_conv_nth le_add1 nth_append_length_plus nth_drop add.right_neutral length_greater_0_conv)
    then show ?thesis using f(3) n lt mid_one[of "int n + int (length str)" list] by (simp add: nat_add_distrib)
  qed simp
  ultimately show ?thesis using f(4) l by metis
qed

text \<open>The entry for a file is the third one, but the fourth is taken for it.\<close>

theorem database_choice_shifted:
  "cbDatabase_items None datnames ! 2 = ''@<filename>'' \<and> cbDatabase_items None datnames ! 3 = ''samegroup''
   \<and> OnAddDatabase (cbDatabase_items None datnames) 3 database = ''@''"
  by (simp add: cbDatabase_items_def OnAddDatabase_def)

end
