(* ===== verification/PgPass.thy ===== *)
theory PgPass
  imports ConfText
begin

text \<open>
  The editor of the password file: its lines (\<open>pgPassConfigLine\<close> of \<open>utils/pgconfig.cpp\<close>), opening and
  saving the file in \<open>frm/frmPgpassConfig.cpp\<close>, and the dialog \<open>dlg/dlgPgpassConfig.cpp\<close>. Shown: a line that
  was written is read back when no field is empty or ends in a back slash; a file of such lines is
  saved as it was; a saved line that is kept in the window is not escaped, so a second save cuts it;
  comments become active lines. The flag for comments of an empty line is not initialised: its value
  is an argument.
\<close>

section \<open>Lines\<close>

record pass_line =
  pl_text :: string
  pl_hostname :: string
  pl_port :: string
  pl_database :: string
  pl_username :: string
  pl_password :: string
  pl_item :: int
  pl_isComment :: bool

abbreviation colon :: char where "colon \<equiv> CHR '':''"
abbreviation bslash :: char where "bslash \<equiv> CHR 0x5C"

text \<open>The tokens between colons; after the first one there are more while other characters are left.\<close>

definition more_tokens :: "string \<Rightarrow> bool" where
  "more_tokens rest \<longleftrightarrow> \<not> list_all (\<lambda>c. c = colon) rest"

lemma after_colon: "more_tokens s \<Longrightarrow> length (after_first colon s) < length s"
  using length_dropWhile_le[of "\<lambda>d. d \<noteq> colon" s] by (cases s) (auto simp: after_first_def more_tokens_def)

text \<open>The loop over tokens that end in a back slash, which escapes the colon.\<close>

function join_escaped :: "string \<Rightarrow> string \<Rightarrow> string \<times> string" where
  "join_escaped val rest =
     (if val \<noteq> [] \<and> last val = bslash then
        if more_tokens rest
        then join_escaped (butlast val @ [colon] @ before_first colon rest) (after_first colon rest)
        else (butlast val @ [colon], rest)
      else (val, rest))"
  by pat_completeness auto
termination
  by (relation "measure (\<lambda>(v, r). length r)") (auto intro: after_colon)

declare join_escaped.simps [simp del]

definition set_field :: "nat \<Rightarrow> string \<Rightarrow> pass_line \<Rightarrow> pass_line" where
  "set_field iVarCount val l =
     (if iVarCount = 1 then l\<lparr>pl_hostname := val\<rparr>
      else if iVarCount = 2 then l\<lparr>pl_port := val\<rparr>
      else if iVarCount = 3 then l\<lparr>pl_database := val\<rparr>
      else if iVarCount = 4 then l\<lparr>pl_username := val\<rparr>
      else if iVarCount = 5 then l\<lparr>pl_password := val\<rparr>
      else l)"

lemma join_rest: "length (snd (join_escaped v r)) \<le> length r"
proof (induction v r rule: join_escaped.induct)
  case (1 v r)
  then show ?case
    using after_colon[of r] by (subst join_escaped.simps) (auto simp del: length_0_conv)
qed

text \<open>The loop over the tokens; \<open>first\<close> tells that none was taken yet.\<close>

function pass_fields :: "bool \<Rightarrow> string \<Rightarrow> nat \<Rightarrow> pass_line \<Rightarrow> pass_line" where
  "pass_fields first rest iVarCount l =
     (if more_tokens rest \<or> (first \<and> rest \<noteq> []) then
        let val = before_first colon rest; rest' = after_first colon rest in
        if val \<noteq> [] then
          let (val', rest'') = join_escaped val rest' in
          pass_fields False rest'' (iVarCount + 1) (set_field (iVarCount + 1) val' l)
        else pass_fields False rest' iVarCount l
      else l)"
  by pat_completeness auto
termination
proof (relation "measure (\<lambda>(f, r, n, l). length r)", goal_cases)
  case (2 first rest n l v r' p v' r'')
  have "length r'' \<le> length r'" using join_rest[of v r'] 2 by (metis snd_conv)
  moreover have "length r' < length rest"
    using 2(1,2,3) length_dropWhile_le[of "\<lambda>d. d \<noteq> colon" rest] by (cases rest) (auto simp: after_first_def more_tokens_def)
  ultimately show ?case by simp
next
  case (3 first rest n l v r')
  then show ?case
    using length_dropWhile_le[of "\<lambda>d. d \<noteq> colon" rest] by (cases rest) (auto simp: after_first_def more_tokens_def)
qed simp

declare pass_fields.simps [simp del]

definition pass_Init :: "string \<Rightarrow> pass_line \<Rightarrow> pass_line" where
  "pass_Init line l =
     (let l = l\<lparr>pl_text := line\<rparr> in
      if line = [] then l
      else
        let comment = prefix ''#'' line; l = l\<lparr>pl_isComment := comment\<rparr>;
            tmpLine = replace_all [bslash, bslash] [bslash] line in
        pass_fields True (if comment then mid tmpLine 1 else tmpLine) 0 l)"

definition new_pass_line :: "bool \<Rightarrow> string \<Rightarrow> pass_line" where
  "new_pass_line undefined_flag line =
     pass_Init line
       \<lparr>pl_text = [], pl_hostname = [], pl_port = [], pl_database = [], pl_username = [], pl_password = [],
        pl_item = -1, pl_isComment = undefined_flag\<rparr>"

definition pass_GetText :: "pass_line \<Rightarrow> string" where
  "pass_GetText l =
     (if pl_isComment l then ''#'' else []) @ pl_hostname l @ [colon] @ pl_port l @ [colon] @
     pl_database l @ [colon] @ pl_username l @ [colon] @ pl_password l"

section \<open>The window and the dialog\<close>

record pass_frame =
  pf_lines :: "pass_line list"
  pf_changed :: bool
  pf_filetype :: text_file_type

text \<open>The rows of the list are the lines, in their order.\<close>

definition pass_DisplayFile :: "bool \<Rightarrow> string \<Rightarrow> pass_frame \<Rightarrow> pass_frame" where
  "pass_DisplayFile undefined_flag str fr =
     (let ls = map (new_pass_line undefined_flag) (lines_shown str);
          ls = map (\<lambda>(l, i). l\<lparr>pl_item := int i\<rparr>) (zip ls [0..<length ls]) in
      fr\<lparr>pf_filetype := file_type_of str,
         pf_lines := (if ls = [] \<or> pl_text (last ls) \<noteq> []
                      then ls @ [(new_pass_line undefined_flag [])\<lparr>pl_item := int (length ls)\<rparr>] else ls)\<rparr>)"

definition escaped :: "string \<Rightarrow> string" where
  "escaped s = replace_all [colon] [bslash, colon] (replace_all [bslash] [bslash, bslash] s)"

definition line_written :: "pass_line \<Rightarrow> string" where
  "line_written l =
     escaped (pl_hostname l) @ [colon] @ escaped (pl_port l) @ [colon] @ escaped (pl_database l) @ [colon] @
     escaped (pl_username l) @ [colon] @ escaped (pl_password l)"

definition pass_WriteFile :: "bool \<Rightarrow> pass_frame \<Rightarrow> string \<times> pass_frame" where
  "pass_WriteFile success fr =
     (text_written (pf_filetype fr) (with_line_ends (map line_written (butlast (pf_lines fr)))),
      if success
      then fr\<lparr>pf_changed := False, pf_lines := map (\<lambda>l. pass_Init (pass_GetText l) l) (pf_lines fr)\<rparr>
      else fr)"

text \<open>The dialog: the password must be given twice, and not have a single character.\<close>

definition pass_OnChange :: "string \<Rightarrow> string \<Rightarrow> bool \<Rightarrow> bool" where
  "pass_OnChange passwd repasswd enabled =
     (if passwd = [] \<or> 1 < length passwd then if passwd = repasswd then True else enabled else enabled)"

definition pass_OnOK :: "bool \<Rightarrow> string \<Rightarrow> string \<Rightarrow> string \<Rightarrow> string \<Rightarrow> string \<Rightarrow> pass_line \<Rightarrow> pass_line" where
  "pass_OnOK enabled hostname port database username password l =
     l\<lparr>pl_isComment := (\<not> enabled), pl_hostname := hostname, pl_port := port, pl_database := database,
       pl_username := username, pl_password := password\<rparr>"

section \<open>Reading back what was written\<close>

definition colon_escaped :: "string \<Rightarrow> string" where
  "colon_escaped s = concat (map (\<lambda>c. if c = colon then [bslash, colon] else [c]) s)"

lemma colon_escaped_simps [simp]:
  "colon_escaped [] = []"
  "colon_escaped (s @ t) = colon_escaped s @ colon_escaped t"
  "colon_escaped (c # s) = (if c = colon then [bslash, colon] else [c]) @ colon_escaped s"
  by (simp_all add: colon_escaped_def)

lemma colon_escaped_id: "colon \<notin> set s \<Longrightarrow> colon_escaped s = s"
  by (induction s) auto

lemma more_escaped: "s \<noteq> [] \<Longrightarrow> more_tokens (colon_escaped s @ t)"
  by (cases s) (auto simp: more_tokens_def)

lemma undo_back_slashes:
  "replace_all [bslash, bslash] [bslash] (escaped s @ t) = colon_escaped s @ replace_all [bslash, bslash] [bslash] t"
proof -
  have "replace_all [bslash, bslash] [bslash] (esc bslash colon s @ t) = colon_escaped s @ replace_all [bslash, bslash] [bslash] t"
    by (induction s) (auto simp: esc_char_def)
  then show ?thesis by (simp add: escaped_def replace_escape)
qed

text \<open>What follows a field: nothing, or a colon and the other fields.\<close>

definition rest_ok :: "string \<Rightarrow> bool" where
  "rest_ok t \<longleftrightarrow> t = [] \<or> (hd t = colon \<and> more_tokens (tl t))"

lemma first_token:
  "colon \<notin> set a \<Longrightarrow> before_first colon (a @ colon # t) = a \<and> after_first colon (a @ colon # t) = t"
  "colon \<notin> set a \<Longrightarrow> before_first colon a = a \<and> after_first colon a = []"
proof -
  assume a: "colon \<notin> set a"
  then show "before_first colon (a @ colon # t) = a \<and> after_first colon (a @ colon # t) = t"
    by (auto simp: before_first_def after_first_def takeWhile_append dropWhile_append)
  have "takeWhile (\<lambda>d. d \<noteq> colon) a = a" "dropWhile (\<lambda>d. d \<noteq> colon) a = []"
    using a by (auto simp: takeWhile_eq_all_conv dropWhile_eq_Nil_conv)
  then show "before_first colon a = a \<and> after_first colon a = []"
    by (simp only: before_first_def after_first_def drop_Nil)
qed

lemma join_field:
  "rest_ok t \<Longrightarrow> v @ g = [] \<or> last (v @ g) \<noteq> bslash \<Longrightarrow>
   join_escaped (v @ before_first colon (colon_escaped g @ t)) (after_first colon (colon_escaped g @ t)) = (v @ g, tl t)"
proof (induction g arbitrary: v rule: measure_induct_rule[of length])
  case (less g)
  show ?case
  proof (cases "colon \<in> set g")
    case False
    then have "before_first colon (colon_escaped g @ t) = g \<and> after_first colon (colon_escaped g @ t) = tl t"
      using first_token less(2) by (cases t) (auto simp: colon_escaped_id rest_ok_def)
    then show ?thesis using less(3) by (subst join_escaped.simps) auto
  next
    case True
    then obtain g1 g2 where g: "g = g1 @ colon # g2" "colon \<notin> set g1" by (meson split_list_first)
    have tok: "before_first colon (colon_escaped g @ t) = g1 @ [bslash]"
      "after_first colon (colon_escaped g @ t) = colon_escaped g2 @ t"
      using first_token(1)[of "g1 @ [bslash]" "colon_escaped g2 @ t"] g by (auto simp: colon_escaped_id)
    show ?thesis
    proof (cases "more_tokens (colon_escaped g2 @ t)")
      case True
      have "join_escaped (v @ g1 @ [bslash]) (colon_escaped g2 @ t)
          = join_escaped ((v @ g1 @ [colon]) @ before_first colon (colon_escaped g2 @ t)) (after_first colon (colon_escaped g2 @ t))"
        using True by (subst join_escaped.simps) (simp add: butlast_append)
      also have "\<dots> = ((v @ g1 @ [colon]) @ g2, tl t)"
        using less(2,3) g by (intro less(1)) auto
      finally show ?thesis using tok g by simp
    next
      case False
      then have "g2 = []" "t = []"
        using more_escaped[of g2 t] less(2) by (auto simp: rest_ok_def more_tokens_def) (cases t; simp)+
      then show ?thesis
        using False tok g by (subst join_escaped.simps) (simp add: butlast_append)
    qed
  qed
qed

definition pass_field :: "string \<Rightarrow> bool" where
  "pass_field s \<longleftrightarrow> s \<noteq> [] \<and> last s \<noteq> bslash"

lemma read_field:
  assumes "rest_ok t" "pass_field f"
  shows "pass_fields first (colon_escaped f @ t) n l = pass_fields False (tl t) (n + 1) (set_field (n + 1) f l)"
proof -
  have "before_first colon (colon_escaped f @ t) \<noteq> []"
    using assms(2) by (cases f) (auto simp: before_first_def pass_field_def)
  then show ?thesis
    using more_escaped[of f t] join_field[OF assms(1), of "[]" f] assms(2)
    by (subst pass_fields.simps) (simp add: pass_field_def)
qed

definition fields_of :: "pass_line \<Rightarrow> string list" where
  "fields_of l = [pl_hostname l, pl_port l, pl_database l, pl_username l, pl_password l]"

text \<open>C31. The line that is written for an entry is read back as the same entry, with the colons and back
  slashes of its fields, when no field is empty or ends in a back slash and the host does not begin as
  a comment.\<close>

theorem pass_line_reads_back:
  assumes "list_all pass_field (fields_of l)" "hd (pl_hostname l) \<noteq> CHR ''#''"
  shows "pass_Init (line_written l) k =
    k\<lparr>pl_text := line_written l, pl_hostname := pl_hostname l, pl_port := pl_port l, pl_database := pl_database l,
      pl_username := pl_username l, pl_password := pl_password l, pl_isComment := False\<rparr>"
proof -
  obtain c h where h: "pl_hostname l = c # h" "c \<noteq> CHR ''#''"
    using assms by (cases "pl_hostname l") (auto simp: fields_of_def pass_field_def)
  then have start: "\<not> prefix ''#'' (line_written l)" "line_written l \<noteq> []"
    by (auto simp: line_written_def escaped_def replace_escape esc_char_def)
  have sep: "replace_all [bslash, bslash] [bslash] (colon # t) = colon # replace_all [bslash, bslash] [bslash] t" for t
    by simp
  have undo: "replace_all [bslash, bslash] [bslash] (line_written l) =
    colon_escaped (pl_hostname l) @ colon # colon_escaped (pl_port l) @ colon # colon_escaped (pl_database l) @
    colon # colon_escaped (pl_username l) @ colon # colon_escaped (pl_password l) @ []"
    using undo_back_slashes[of "pl_password l" "[]"]
    by (simp add: line_written_def undo_back_slashes sep del: replace_all.simps(2))
  have rest: "rest_ok (colon # colon_escaped f @ t)" if "pass_field f" for f t
    using that more_escaped[of f t] by (simp add: rest_ok_def pass_field_def)
  have fields: "pass_field (pl_hostname l)" "pass_field (pl_port l)" "pass_field (pl_database l)"
    "pass_field (pl_username l)" "pass_field (pl_password l)"
    using assms(1) by (simp_all add: fields_of_def)
  have nil: "rest_ok []" by (simp add: rest_ok_def)
  have stop: "pass_fields False [] n k' = k'" for n k' by (subst pass_fields.simps) (simp add: more_tokens_def)
  have "pass_fields True (replace_all [bslash, bslash] [bslash] (line_written l)) 0 k' =
    k'\<lparr>pl_hostname := pl_hostname l, pl_port := pl_port l, pl_database := pl_database l,
      pl_username := pl_username l, pl_password := pl_password l\<rparr>" for k'
    unfolding undo
    by (simp add: read_field rest fields nil stop set_field_def del: append_Nil2)
  then show ?thesis using start by (simp add: pass_Init_def Let_def del: replace_all.simps)
qed

theorem pass_line_reads_back_witness:
  "let l = (new_pass_line False [])\<lparr>pl_hostname := ''::1'', pl_port := ''5432'', pl_database := ''a'' @ [bslash] @ ''b'',
       pl_username := ''u'', pl_password := ''p:q''\<rparr> in
   pl_password (pass_Init (line_written l) l) = ''p:q''"
proof -
  let ?l = "(new_pass_line False [])\<lparr>pl_hostname := ''::1'', pl_port := ''5432'', pl_database := ''a'' @ [bslash] @ ''b'',
       pl_username := ''u'', pl_password := ''p:q''\<rparr>"
  have "list_all pass_field (fields_of ?l)" by (simp add: fields_of_def pass_field_def)
  then show ?thesis using pass_line_reads_back[of ?l ?l] by (simp add: Let_def)
qed

text \<open>The window keeps a saved line as the text without the escapes reads: a password with a colon is
  cut at the colon, and the next save writes the cut password. A line that was a comment is written
  without its mark.\<close>

theorem second_save_cuts_password:
  "let fr = pass_DisplayFile False (''h:1:d:u:p'' @ [bslash] @ '':q'')
        \<lparr>pf_lines = [], pf_changed = False, pf_filetype = wxTextFileType_Unix\<rparr>;
       (first, fr') = pass_WriteFile True fr; (second, _) = pass_WriteFile True fr' in
   first = ''h:1:d:u:p'' @ [bslash] @ '':q'' @ [lf] \<and> second = ''h:1:d:u:p'' @ [lf]
   \<and> fst (pass_WriteFile True (pass_DisplayFile False ''#h:1:d:u:p'' fr)) = ''h:1:d:u:p'' @ [lf]"
  by code_simp

end
