(* ===== verification/MainConfig.thy ===== *)
theory MainConfig
  imports ConfText
begin

text \<open>
  The editor of \<open>postgresql.conf\<close>: settings and lines (\<open>utils/pgconfig.cpp\<close>), the window
  (\<open>frm/frmMainConfig.cpp\<close>) and its dialog (\<open>dlg/dlgMainConfig.cpp\<close>). A pointer to a setting is its name in the table of
  options, a pointer to a line of the file its index. Shown: a changed line is read back from the text
  written for it. What reads past the end of a line has no result (\<open>None\<close>).
\<close>

section \<open>Settings and lines\<close>

datatype pg_config_type = PGC_BOOL | PGC_INT | PGC_REAL | PGC_STRING

datatype pg_config_context =
  PGC_INTERNAL | PGC_POSTMASTER | PGC_SIGHUP | PGC_BACKEND | PGC_SUSET | PGC_USERLIMIT | PGC_USERSET
| PGC_UNKNOWNCONTEXT

datatype pg_config_source =
  PGC_DEFAULT | PGC_ENVIRONMENT | PGC_FILE | PGC_ARGV | PGC_UNPRIV | PGC_DATABASE | PGC_USER | PGC_CLIENT
| PGC_OVERRIDE | PGC_INTERACTIVE | PGC_TEST | PGC_SESSION | PGC_UNKNOWNSOURCE

record config_line =
  cl_item :: "string option"
  cl_value :: string
  cl_comment :: string
  cl_isComment :: bool

record org_line = config_line +
  ol_text :: string
  ol_commentIndent :: string

record setting_item =
  si_name :: string
  si_category :: string
  si_short_desc :: string
  si_extra_desc :: string
  si_value :: string
  si_min_val :: string
  si_max_val :: string
  si_type :: pg_config_type
  si_context :: pg_config_context
  si_source :: pg_config_source
  si_newLine :: "config_line option"
  si_orgLine :: "nat option"

definition pgConfigTypeStrings :: "string list" where
  "pgConfigTypeStrings = [''bool'', ''integer'', ''real'', ''string'']"

definition pgConfigContextStrings :: "string list" where
  "pgConfigContextStrings =
     [''internal'', ''postmaster'', ''sighup'', ''backend'', ''superuser'', ''userlimit'', ''user'']"

definition pgConfigSourceStrings :: "string list" where
  "pgConfigSourceStrings =
     [''default'', ''environment variable'', ''configuration file'', ''command line'', ''unprivileged'', ''database'',
      ''user'', ''client'', ''override'', ''interactive'', ''test'', ''session'']"

definition SetType :: "string \<Rightarrow> setting_item \<Rightarrow> setting_item" where
  "SetType str item =
     (let index = FindToken str pgConfigTypeStrings in
      item\<lparr>si_type := (if index < 0 then PGC_STRING
                       else [PGC_BOOL, PGC_INT, PGC_REAL, PGC_STRING] ! nat index)\<rparr>)"

definition SetContext :: "string \<Rightarrow> setting_item \<Rightarrow> setting_item" where
  "SetContext str item =
     (let index = FindToken str pgConfigContextStrings in
      item\<lparr>si_context := (if index < 0 then PGC_INTERNAL
                          else [PGC_INTERNAL, PGC_POSTMASTER, PGC_SIGHUP, PGC_BACKEND, PGC_SUSET, PGC_USERLIMIT,
                                PGC_USERSET] ! nat index)\<rparr>)"

definition SetSource :: "string \<Rightarrow> setting_item \<Rightarrow> setting_item" where
  "SetSource str item =
     (let index = FindToken str pgConfigSourceStrings in
      item\<lparr>si_source := (if index < 0 then PGC_UNKNOWNSOURCE
                         else [PGC_DEFAULT, PGC_ENVIRONMENT, PGC_FILE, PGC_ARGV, PGC_UNPRIV, PGC_DATABASE, PGC_USER,
                               PGC_CLIENT, PGC_OVERRIDE, PGC_INTERACTIVE, PGC_TEST, PGC_SESSION] ! nat index)\<rparr>)"

text \<open>The type of a new setting is indeterminate until \<open>SetType\<close>; here it is a string.\<close>

definition new_setting :: setting_item where
  "new_setting =
     \<lparr>si_name = [], si_category = [], si_short_desc = [], si_extra_desc = [], si_value = [], si_min_val = [],
      si_max_val = [], si_type = PGC_STRING, si_context = PGC_UNKNOWNCONTEXT, si_source = PGC_UNKNOWNSOURCE,
      si_newLine = None, si_orgLine = None\<rparr>"

definition new_org_line :: "string \<Rightarrow> org_line" where
  "new_org_line str =
     \<lparr>cl_item = None, cl_value = [], cl_comment = [], cl_isComment = False, ol_text = str, ol_commentIndent = []\<rparr>"

definition Differs :: "'a config_line_scheme \<Rightarrow> 'b config_line_scheme \<Rightarrow> bool" where
  "Differs l line \<longleftrightarrow>
     cl_value l \<noteq> cl_value line \<or> cl_comment l \<noteq> cl_comment line \<or> cl_isComment l \<noteq> cl_isComment line"

definition DEFAULT_COMMENT_INDEX :: string where
  "DEFAULT_COMMENT_INDEX = [CHR 0x09, CHR 0x09, CHR ''#'', CHR '' '']"

text \<open>The value in force: of the changed line, or of the line of the file, unless it is a comment.\<close>

definition GetActiveValue :: "org_line list \<Rightarrow> setting_item \<Rightarrow> string" where
  "GetActiveValue lines item =
     (case si_newLine item of
        Some l \<Rightarrow> if \<not> cl_isComment l then cl_value l else si_value item
      | None \<Rightarrow>
          (case si_orgLine item of
             Some i \<Rightarrow> if \<not> cl_isComment (lines ! i) then cl_value (lines ! i) else si_value item
           | None \<Rightarrow> si_value item))"

text \<open>\<open>pgConfigLine::GetNewText\<close>; \<open>lines\<close> are those of the file.\<close>

definition quote_for :: "setting_item \<Rightarrow> string \<Rightarrow> string" where
  "quote_for item v =
     (if si_type item = PGC_STRING then if 0 \<le> find_char (CHR 0x27) v then [CHR 0x22] else [CHR 0x27] else [])"

definition line_new_text :: "org_line list \<Rightarrow> setting_item \<Rightarrow> config_line \<Rightarrow> string" where
  "line_new_text lines item l =
     (let quote = quote_for item (cl_value l) in
      (if cl_isComment l then ''# '' else []) @ si_name item @ '' = '' @ quote @ cl_value l @ quote @
      (if cl_comment l \<noteq> [] then
         (case si_orgLine item of
            Some i \<Rightarrow> if 0 \<le> find_char (CHR ''#'') (ol_commentIndent (lines ! i))
                      then ol_commentIndent (lines ! i) else DEFAULT_COMMENT_INDEX
          | None \<Rightarrow> DEFAULT_COMMENT_INDEX) @ cl_comment l
       else []))"

section \<open>Reading a line\<close>

text \<open>The start of a line: is it a comment, its keyword and the rest.\<close>

definition blank_or_hash :: "char \<Rightarrow> bool" where
  "blank_or_hash c \<longleftrightarrow> c = CHR ''#'' \<or> c = CHR '' '' \<or> c = lf"

definition keyword_end :: "char \<Rightarrow> bool" where
  "keyword_end c \<longleftrightarrow> c = CHR ''#'' \<or> c = CHR '' '' \<or> c = CHR 0x09 \<or> c = CHR ''=''"

definition line_start :: "string \<Rightarrow> bool \<times> string \<times> string" where
  "line_start t =
     (let p = dropWhile blank_or_hash t;
          isComment = (CHR ''#'' \<in> set (takeWhile blank_or_hash t) \<or> p = []);
          p2 = dropWhile (\<lambda>c. \<not> keyword_end c) p in
      (isComment, part_between p p2, p2))"

text \<open>The value, the text between value and comment, and the comment. \<open>wxStrchr\<close> finds the end of the string
  too, so a value that is missing counts as quoted, and the scan goes on past the end.\<close>

definition value_end :: "char option \<Rightarrow> char \<Rightarrow> bool" where
  "value_end quoteChar c \<longleftrightarrow>
     (case quoteChar of Some q \<Rightarrow> c = q | None \<Rightarrow> c = CHR '' '' \<or> c = CHR 0x09 \<or> c = CHR ''#'')"

definition read_value :: "string \<Rightarrow> (string \<times> string \<times> string) option" where
  "read_value p2 =
     (let p2 = dropWhile (\<lambda>c. c \<noteq> CHR ''='') p2 in
      if p2 = [] then None
      else
        let p2 = SkipSpace (tl p2) in
        if p2 = [] then None
        else
          let quoteChar = (if hd p2 = CHR 0x27 \<or> hd p2 = CHR 0x22 then Some (hd p2) else None);
              p2 = (if quoteChar = None then p2 else tl p2);
              p3 = dropWhile (\<lambda>c. \<not> value_end quoteChar c) p2 in
          if p2 = p3 then Some ([], [], [])
          else if quoteChar \<noteq> None \<and> p3 = [] then None
          else
            let val = part_between p2 p3; p3 = (if quoteChar = None then p3 else tl p3);
                p4 = dropWhile (\<lambda>c. IsSpaceChar c \<or> c = CHR ''#'') p3 in
            Some (val, part_between p3 p4, p4))"

section \<open>Reading back a line\<close>

definition plain_name :: "string \<Rightarrow> bool" where
  "plain_name n \<longleftrightarrow> n \<noteq> [] \<and> list_all (\<lambda>c. \<not> keyword_end c \<and> c \<noteq> lf) n"

text \<open>A value that is read back: not empty; as a string, without one of the quotes; else without quotes
  around it, space and number sign.\<close>

definition value_ok :: "setting_item \<Rightarrow> string \<Rightarrow> bool" where
  "value_ok item v \<longleftrightarrow>
     v \<noteq> [] \<and>
     (if si_type item = PGC_STRING then \<not> (CHR 0x27 \<in> set v \<and> CHR 0x22 \<in> set v)
      else hd v \<noteq> CHR 0x27 \<and> hd v \<noteq> CHR 0x22 \<and> list_all (\<lambda>c. \<not> IsSpaceChar c \<and> c \<noteq> CHR ''#'') v)"

definition comment_ok :: "string \<Rightarrow> bool" where
  "comment_ok c \<longleftrightarrow> c = [] \<or> (\<not> IsSpaceChar (hd c) \<and> hd c \<noteq> CHR ''#'')"

definition indent_ok :: "string \<Rightarrow> bool" where
  "indent_ok s \<longleftrightarrow> list_all (\<lambda>c. IsSpaceChar c \<or> c = CHR ''#'') s"

lemma dropWhile_word: "list_all (\<lambda>c. \<not> P c) w \<Longrightarrow> r = [] \<or> P (hd r) \<Longrightarrow> dropWhile (\<lambda>c. \<not> P c) (w @ r) = r"
  by (induction w) (cases r; auto)+

lemma dropWhile_prefix: "list_all P w \<Longrightarrow> r = [] \<or> \<not> P (hd r) \<Longrightarrow> dropWhile P (w @ r) = r"
  by (induction w) (cases r; auto)+

lemma read_value_text:
  assumes "value_ok item v" "comment_ok c" "indent_ok ind" "c = [] \<Longrightarrow> ind = []" "c \<noteq> [] \<Longrightarrow> ind \<noteq> []"
  shows "read_value ('' = '' @ quote_for item v @ v @ quote_for item v @ ind @ c) = Some (v, ind, c)"
proof -
  have v: "v \<noteq> []" using assms(1) by (simp add: value_ok_def)
  have p4: "dropWhile (\<lambda>c. IsSpaceChar c \<or> c = CHR ''#'') (ind @ c) = c"
    using assms(2,3) by (intro dropWhile_prefix) (auto simp: indent_ok_def comment_ok_def)
  show ?thesis
  proof (cases "si_type item = PGC_STRING")
    case True
    define q where "q = (if CHR 0x27 \<in> set v then CHR 0x22 else CHR 0x27)"
    have q: "quote_for item v = [q]" "q \<notin> set v" "q = CHR 0x27 \<or> q = CHR 0x22" "\<not> IsSpaceChar q"
      using True assms(1) find_char_none[of "CHR 0x27" v]
      by (auto simp: quote_for_def q_def value_ok_def IsSpaceChar_def not_le split: if_splits)
    have "dropWhile (\<lambda>c. \<not> value_end (Some q) c) (v @ q # ind @ c) = q # ind @ c"
      using q(2) by (intro dropWhile_word) (auto simp: value_end_def list_all_iff)
    moreover have "v @ q # ind @ c \<noteq> q # ind @ c" using v by simp
    moreover have "SkipSpace (CHR '' '' # q # v @ q # ind @ c) = q # v @ q # ind @ c"
      using q(4) by (simp add: SkipSpace_def IsSpaceChar_def)
    ultimately show ?thesis using q p4 by (simp add: read_value_def Let_def)
  next
    case False
    then have q: "quote_for item v = []" by (simp add: quote_for_def)
    have v': "hd v \<noteq> CHR 0x27" "hd v \<noteq> CHR 0x22" "list_all (\<lambda>c. \<not> IsSpaceChar c \<and> c \<noteq> CHR ''#'') v"
      using False assms(1) by (simp_all add: value_ok_def)
    have "ind @ c = [] \<or> value_end None (hd (ind @ c))"
      using assms(3-5) by (cases ind) (auto simp: value_end_def indent_ok_def IsSpaceChar_def)
    then have "dropWhile (\<lambda>c. \<not> value_end None c) (v @ ind @ c) = ind @ c"
      using v'(3) by (intro dropWhile_word) (auto simp: value_end_def list_all_iff IsSpaceChar_def)
    moreover have "SkipSpace (CHR '' '' # v @ ind @ c) = v @ ind @ c"
      using v' v by (cases v) (simp_all add: SkipSpace_def IsSpaceChar_def)
    ultimately show ?thesis using q v v'(1,2) p4 by (simp add: read_value_def Let_def)
  qed
qed

definition indent_used :: "org_line list \<Rightarrow> setting_item \<Rightarrow> config_line \<Rightarrow> string" where
  "indent_used lines item l =
     (if cl_comment l = [] then []
      else case si_orgLine item of
             Some i \<Rightarrow> if 0 \<le> find_char (CHR ''#'') (ol_commentIndent (lines ! i))
                       then ol_commentIndent (lines ! i) else DEFAULT_COMMENT_INDEX
           | None \<Rightarrow> DEFAULT_COMMENT_INDEX)"

text \<open>C32. A changed line is read back from the text written for it: the flag for comments, the keyword,
  the value and the comment, for a setting of any type, under these conditions. The keyword is a word without
  space, \<open>=\<close> and number sign. The value is not empty; that of a string lacks one of the two kinds of quotes; that of
  another type does not start with a quote and has no space or number sign. The comment does not start with space
  or a number sign, and what stood before the comment that it replaces was space and number signs. (An
  empty value loses the comment, and a string with both quotes is cut at the first double quote: see
  \<open>empty_value_loses_comment\<close> and \<open>both_quotes_cut\<close>.)\<close>

theorem setting_line_reads_back:
  assumes "plain_name (si_name item)" "value_ok item (cl_value l)" "comment_ok (cl_comment l)"
    "indent_ok (indent_used lines item l)"
  shows "case line_start (line_new_text lines item l) of (isComment, keyword, p2) \<Rightarrow>
    isComment = cl_isComment l \<and> keyword = si_name item
    \<and> read_value p2 = Some (cl_value l, indent_used lines item l, cl_comment l)"
proof -
  let ?v = "cl_value l" and ?q = "quote_for item (cl_value l)" and ?ind = "indent_used lines item l"
  define r where "r = '' = '' @ ?q @ ?v @ ?q @ ?ind @ cl_comment l"
  have shown: "line_new_text lines item l = (if cl_isComment l then ''# '' else []) @ si_name item @ r"
    by (simp add: line_new_text_def indent_used_def Let_def r_def)
  have n: "si_name item \<noteq> []" "list_all (\<lambda>c. \<not> keyword_end c) (si_name item)" "\<not> blank_or_hash (hd (si_name item))"
    using assms(1) by (cases "si_name item"; auto simp: plain_name_def list_all_iff keyword_end_def blank_or_hash_def)+
  have p: "dropWhile blank_or_hash (si_name item @ r) = si_name item @ r"
    "takeWhile blank_or_hash (si_name item @ r) = []"
    using n(1,3) by (cases "si_name item"; simp)+
  have p2: "dropWhile (\<lambda>c. \<not> keyword_end c) (si_name item @ r) = r"
    using n(2) by (intro dropWhile_word) (simp_all add: keyword_end_def r_def)
  have "blank_or_hash (CHR ''#'')" "blank_or_hash (CHR '' '')" by (simp_all add: blank_or_hash_def)
  then have start: "line_start (line_new_text lines item l) = (cl_isComment l, si_name item, r)"
    using n(1) p p2 by (simp add: line_start_def Let_def shown del: dropWhile_eq_Nil_conv)
  have "read_value r = Some (?v, ?ind, cl_comment l)"
    unfolding r_def using assms(2-4)
    by (intro read_value_text) (auto simp: indent_used_def DEFAULT_COMMENT_INDEX_def find_char_none not_le
        dest: leD split: option.splits if_splits)
  then show ?thesis by (simp add: start)
qed

theorem setting_line_reads_back_witness:
  "let item = new_setting\<lparr>si_name := ''search_path''\<rparr>;
       l = \<lparr>cl_item = None, cl_value = ''a b'', cl_comment = ''x'', cl_isComment = False\<rparr> in
   line_start (line_new_text [] item l) = (False, ''search_path'', '' = '' @ [CHR 0x27] @ ''a b'' @ [CHR 0x27] @ DEFAULT_COMMENT_INDEX @ ''x'')"
proof -
  let ?item = "new_setting\<lparr>si_name := ''search_path''\<rparr>"
  let ?l = "\<lparr>cl_item = None, cl_value = ''a b'', cl_comment = ''x'', cl_isComment = False\<rparr>"
  have "plain_name (si_name ?item)" "value_ok ?item (cl_value ?l)" "comment_ok (cl_comment ?l)"
    "indent_ok (indent_used [] ?item ?l)" by code_simp+
  then have "case line_start (line_new_text [] ?item ?l) of (isComment, keyword, p2) \<Rightarrow>
    isComment = cl_isComment ?l \<and> keyword = si_name ?item
    \<and> read_value p2 = Some (cl_value ?l, indent_used [] ?item ?l, cl_comment ?l)"
    by (rule setting_line_reads_back)
  then show ?thesis by code_simp
qed

lemma empty_value_loses_comment:
  "read_value ('' = '' @ quote_for (new_setting\<lparr>si_type := PGC_STRING\<rparr>) [] @ quote_for (new_setting\<lparr>si_type := PGC_STRING\<rparr>) []
      @ DEFAULT_COMMENT_INDEX @ ''c'') = Some ([], [], [])"
  by code_simp

lemma both_quotes_cut:
  "line_new_text [] (new_setting\<lparr>si_name := ''n'', si_type := PGC_STRING\<rparr>)
      \<lparr>cl_item = None, cl_value = [CHR ''a'', CHR 0x27, CHR 0x22, CHR ''b''], cl_comment = [], cl_isComment = False\<rparr>
    = ''n = '' @ [CHR 0x22, CHR ''a'', CHR 0x27, CHR 0x22, CHR ''b'', CHR 0x22]"
  "map_option fst (read_value ('' = '' @ [CHR 0x22, CHR ''a'', CHR 0x27, CHR 0x22, CHR ''b'', CHR 0x22])) = Some [CHR ''a'', CHR 0x27]"
  by code_simp+

section \<open>The window\<close>

record main_frame =
  mf_options :: "string \<Rightarrow> setting_item option"
  mf_categories :: "string \<Rightarrow> string list option"
  mf_lines :: "org_line list"
  mf_list :: "string list"
  mf_changed :: bool
  mf_filetype :: text_file_type

definition add_to_category :: "string \<Rightarrow> string \<Rightarrow> main_frame \<Rightarrow> main_frame" where
  "add_to_category category name fr =
     fr\<lparr>mf_categories := (mf_categories fr)(category \<mapsto>
          (case mf_categories fr category of None \<Rightarrow> [name] | Some ns \<Rightarrow> ns @ [name]))\<rparr>"

text \<open>\<open>Init(reader)\<close>: the settings that the reader gives, one by one.\<close>

definition add_setting :: "setting_item \<Rightarrow> main_frame \<Rightarrow> main_frame" where
  "add_setting item fr =
     (if si_context item = PGC_INTERNAL then fr
      else case mf_options fr (si_name item) of
             Some _ \<Rightarrow> fr
           | None \<Rightarrow> add_to_category (si_category item) (si_name item)
                       (fr\<lparr>mf_options := (mf_options fr)(si_name item \<mapsto> item)\<rparr>))"

definition main_Init :: "setting_item list \<Rightarrow> main_frame \<Rightarrow> main_frame" where
  "main_Init settings fr =
     fold add_setting settings (fr\<lparr>mf_options := Map.empty, mf_categories := Map.empty, mf_lines := []\<rparr>)"

definition unknown_setting :: "string \<Rightarrow> setting_item" where
  "unknown_setting keyword =
     SetType ''string'' (new_setting\<lparr>si_name := keyword, si_category := ''Unknown'', si_short_desc := ''Unknown option'',
       si_extra_desc := ''This option is present in the configuration file, but not known to the configuration tool.''\<rparr>)"

text \<open>The link between a line and its setting: the last line that is no comment, or else the last one.\<close>

definition link_line :: "string \<Rightarrow> setting_item \<Rightarrow> org_line \<Rightarrow> main_frame \<Rightarrow> main_frame" where
  "link_line keyword item line fr =
     (if \<not> cl_isComment line \<or> si_orgLine item = None \<or> cl_isComment (mf_lines fr ! the (si_orgLine item))
      then fr\<lparr>mf_lines := (case si_orgLine item of None \<Rightarrow> mf_lines fr
                          | Some i \<Rightarrow> (mf_lines fr)[i := (mf_lines fr ! i)\<lparr>cl_item := None\<rparr>])
                          @ [line\<lparr>cl_item := Some keyword\<rparr>],
              mf_options := (mf_options fr)(keyword \<mapsto> item\<lparr>si_orgLine := Some (length (mf_lines fr))\<rparr>)\<rparr>
      else fr\<lparr>mf_lines := mf_lines fr @ [line]\<rparr>)"

text \<open>A setting that is not known gets the category \<open>Unknown\<close>, which no setting of a reader has.\<close>

definition display_line :: "string \<Rightarrow> main_frame \<Rightarrow> main_frame option" where
  "display_line t fr =
     (let (isComment, keyword, p2) = line_start t;
          line = (new_org_line t)\<lparr>cl_isComment := isComment\<rparr> in
      if keyword = [] \<or> (mf_options fr keyword = None \<and> isComment)
      then Some (fr\<lparr>mf_lines := mf_lines fr @ [line]\<rparr>)
      else
        let (item, fr) = (case mf_options fr keyword of
                            Some item \<Rightarrow> (item, fr)
                          | None \<Rightarrow> (unknown_setting keyword,
                                     add_to_category ''Unknown'' keyword
                                       (fr\<lparr>mf_options := (mf_options fr)(keyword \<mapsto> unknown_setting keyword)\<rparr>))) in
        case read_value p2 of
          None \<Rightarrow> None
        | Some (val, ind, comment) \<Rightarrow>
            Some (link_line keyword item
                    (line\<lparr>cl_value := val, ol_commentIndent := ind, cl_comment := comment\<rparr>) fr))"

fun display_lines :: "string list \<Rightarrow> main_frame \<Rightarrow> main_frame option" where
  "display_lines [] fr = Some fr"
| "display_lines (t # ts) fr = (case display_line t fr of None \<Rightarrow> None | Some fr' \<Rightarrow> display_lines ts fr')"

text \<open>\<open>settings\<close> are those of the readers, \<open>order\<close> the names in the order of the list.\<close>

definition main_DisplayFile ::
  "setting_item list \<Rightarrow> (main_frame \<Rightarrow> string list) \<Rightarrow> string \<Rightarrow> main_frame \<Rightarrow> main_frame option" where
  "main_DisplayFile settings order str fr =
     map_option (\<lambda>fr. fr\<lparr>mf_list := order fr\<rparr>)
       (display_lines (lines_shown str) ((main_Init settings fr)\<lparr>mf_filetype := file_type_of str\<rparr>))"

text \<open>The dialog makes a new line when it is opened, and \<open>OK\<close> sets its value, comment and flag; \<open>None\<close> is
  \<open>Cancel\<close>. Its outcome is not asked for.\<close>

definition dialog_line :: "org_line list \<Rightarrow> setting_item \<Rightarrow> config_line" where
  "dialog_line lines item =
     (case si_newLine item of
        Some l \<Rightarrow> l
      | None \<Rightarrow>
          (case si_orgLine item of
             Some i \<Rightarrow> config_line.truncate (lines ! i)
           | None \<Rightarrow> \<lparr>cl_item = Some (si_name item), cl_value = [], cl_comment = [], cl_isComment = False\<rparr>))"

definition dialog_result :: "(string \<times> string \<times> bool) option \<Rightarrow> config_line \<Rightarrow> config_line" where
  "dialog_result dlg l =
     (case dlg of None \<Rightarrow> l
      | Some (v, c, enabled) \<Rightarrow> l\<lparr>cl_value := v, cl_comment := c, cl_isComment := (\<not> enabled)\<rparr>)"

definition main_OnEditSetting :: "string \<Rightarrow> (string \<times> string \<times> bool) option \<Rightarrow> main_frame \<Rightarrow> main_frame" where
  "main_OnEditSetting name dlg fr =
     (case mf_options fr name of
        None \<Rightarrow> fr
      | Some item \<Rightarrow>
          let l = dialog_result dlg (dialog_line (mf_lines fr) item) in
          if (case si_orgLine item of Some i \<Rightarrow> \<not> Differs l (mf_lines fr ! i) | None \<Rightarrow> False)
          then fr\<lparr>mf_options := (mf_options fr)(name \<mapsto> item\<lparr>si_newLine := None\<rparr>)\<rparr>
          else fr\<lparr>mf_options := (mf_options fr)(name \<mapsto> item\<lparr>si_newLine := Some l\<rparr>), mf_changed := True\<rparr>)"

definition main_OnUndo :: "string \<Rightarrow> main_frame \<Rightarrow> main_frame" where
  "main_OnUndo name fr =
     (case mf_options fr name of None \<Rightarrow> fr
      | Some item \<Rightarrow> fr\<lparr>mf_options := (mf_options fr)(name \<mapsto> item\<lparr>si_newLine := None\<rparr>)\<rparr>)"

text \<open>\<open>pgConfigOrgLine::GetNewText\<close>, and the settings that have no line yet.\<close>

definition org_new_text :: "main_frame \<Rightarrow> org_line \<Rightarrow> string" where
  "org_new_text fr line =
     (case cl_item line of
        None \<Rightarrow> ol_text line
      | Some n \<Rightarrow>
          (case mf_options fr n of
             None \<Rightarrow> ol_text line
           | Some item \<Rightarrow>
               (case si_newLine item of None \<Rightarrow> ol_text line | Some l \<Rightarrow> line_new_text (mf_lines fr) item l)))"

definition added_text :: "main_frame \<Rightarrow> string \<Rightarrow> string list" where
  "added_text fr name =
     (case mf_options fr name of
        None \<Rightarrow> []
      | Some item \<Rightarrow>
          (case si_newLine item of
             None \<Rightarrow> []
           | Some l \<Rightarrow> if cl_item l \<noteq> None \<and> si_orgLine item = None then [line_new_text (mf_lines fr) item l] else []))"

definition text_to_write :: "main_frame \<Rightarrow> string" where
  "text_to_write fr =
     with_line_ends (map (org_new_text fr) (mf_lines fr)) @
     with_line_ends (concat (map (added_text fr) (mf_list fr)))"

text \<open>After a successful save: a new line for each setting without one, the changed lines, and then no
  setting has a changed line any more.\<close>

definition save_item :: "string \<Rightarrow> main_frame \<Rightarrow> main_frame" where
  "save_item name fr =
     (case mf_options fr name of
        None \<Rightarrow> fr
      | Some item \<Rightarrow>
          (case si_newLine item of
             None \<Rightarrow> fr
           | Some l \<Rightarrow>
               let t = line_new_text (mf_lines fr) item l in
               (case si_orgLine item of
                  None \<Rightarrow>
                    fr\<lparr>mf_lines := mf_lines fr @
                         [(new_org_line t)\<lparr>cl_item := Some name, cl_value := cl_value l, cl_comment := cl_comment l,
                             cl_isComment := cl_isComment l,
                             ol_commentIndent := (if cl_isComment l then DEFAULT_COMMENT_INDEX else [])\<rparr>],
                       mf_options := (mf_options fr)(name \<mapsto> item\<lparr>si_orgLine := Some (length (mf_lines fr))\<rparr>)\<rparr>
                | Some i \<Rightarrow>
                    fr\<lparr>mf_lines := (mf_lines fr)[i := (mf_lines fr ! i)\<lparr>cl_comment := cl_comment l,
                         cl_isComment := cl_isComment l, cl_value := cl_value l, ol_text := t\<rparr>]\<rparr>)))"

definition settle_line :: "nat \<Rightarrow> main_frame \<Rightarrow> main_frame" where
  "settle_line i fr =
     (case cl_item (mf_lines fr ! i) of
        None \<Rightarrow> fr
      | Some n \<Rightarrow>
          (case mf_options fr n of
             None \<Rightarrow> fr
           | Some item \<Rightarrow>
               (case si_newLine item of
                  None \<Rightarrow> fr
                | Some l \<Rightarrow>
                    fr\<lparr>mf_lines := (mf_lines fr)[i := (mf_lines fr ! i)\<lparr>ol_text := line_new_text (mf_lines fr) item l\<rparr>],
                       mf_options := (mf_options fr)(n \<mapsto> item\<lparr>si_newLine := None\<rparr>)\<rparr>)))"

definition main_WriteFile :: "bool \<Rightarrow> main_frame \<Rightarrow> string \<times> main_frame" where
  "main_WriteFile success fr =
     (text_written (mf_filetype fr) (text_to_write fr),
      if success
      then let fr = fold save_item (mf_list fr) (fr\<lparr>mf_changed := False\<rparr>) in
           fold settle_line [0..<length (mf_lines fr)] fr
      else fr)"

end
