(* ===== verification/MainConfigEdit.thy ===== *)
theory MainConfigEdit
  imports MainConfig
begin

text \<open>
  What the operations of the editor of \<open>postgresql.conf\<close> keep: each setting and its line point to each
  other. With it, what is written: a file without a change as it was, an edited setting in its own
  line only. Cancelling the dialog adds a setting.
\<close>

section \<open>The links\<close>

lemma map_update_same: "(map f xs)[i := f (xs ! i)] = map f xs"
proof (cases "i < length xs")
  case True
  then show ?thesis using list_update_id[of "map f xs" i] by simp
qed (simp add: list_update_beyond)

definition linked :: "main_frame \<Rightarrow> bool" where
  "linked fr \<longleftrightarrow>
     (\<forall>n it. mf_options fr n = Some it \<longrightarrow>
        si_name it = n \<and>
        (\<forall>i. si_orgLine it = Some i \<longrightarrow> i < length (mf_lines fr) \<and> cl_item (mf_lines fr ! i) = Some n) \<and>
        (\<forall>l. si_newLine it = Some l \<longrightarrow> cl_item l = Some n)) \<and>
     (\<forall>i n. i < length (mf_lines fr) \<longrightarrow> cl_item (mf_lines fr ! i) = Some n \<longrightarrow>
        (\<exists>it. mf_options fr n = Some it \<and> si_orgLine it = Some i))"

lemma linkedI:
  assumes "\<And>n it. mf_options fr n = Some it \<Longrightarrow> si_name it = n"
    "\<And>n it i. mf_options fr n = Some it \<Longrightarrow> si_orgLine it = Some i \<Longrightarrow>
       i < length (mf_lines fr) \<and> cl_item (mf_lines fr ! i) = Some n"
    "\<And>n it l. mf_options fr n = Some it \<Longrightarrow> si_newLine it = Some l \<Longrightarrow> cl_item l = Some n"
    "\<And>i n. i < length (mf_lines fr) \<Longrightarrow> cl_item (mf_lines fr ! i) = Some n \<Longrightarrow>
       \<exists>it. mf_options fr n = Some it \<and> si_orgLine it = Some i"
  shows "linked fr"
  using assms unfolding linked_def by blast

lemma linked_item:
  assumes "linked fr" "mf_options fr n = Some it"
  shows "si_name it = n" "si_orgLine it = Some i \<Longrightarrow> i < length (mf_lines fr) \<and> cl_item (mf_lines fr ! i) = Some n"
    "si_newLine it = Some l \<Longrightarrow> cl_item l = Some n"
  using assms unfolding linked_def by blast+

lemma linked_line:
  "linked fr \<Longrightarrow> i < length (mf_lines fr) \<Longrightarrow> cl_item (mf_lines fr ! i) = Some n \<Longrightarrow>
   \<exists>it. mf_options fr n = Some it \<and> si_orgLine it = Some i"
  unfolding linked_def by blast

definition fresh_setting :: "setting_item \<Rightarrow> bool" where
  "fresh_setting it \<longleftrightarrow> si_newLine it = None \<and> si_orgLine it = None"

lemma add_category_fields [simp]:
  "mf_options (add_to_category c n fr) = mf_options fr" "mf_lines (add_to_category c n fr) = mf_lines fr"
  "mf_list (add_to_category c n fr) = mf_list fr" "mf_filetype (add_to_category c n fr) = mf_filetype fr"
  by (simp_all add: add_to_category_def)

lemma linked_cong:
  "mf_options fr = mf_options fr' \<Longrightarrow> mf_lines fr = mf_lines fr' \<Longrightarrow> linked fr \<Longrightarrow> linked fr'"
  by (simp add: linked_def)

text \<open>A new setting without a line keeps the links.\<close>

lemma linked_add:
  assumes "linked fr" "mf_options fr n = None" "fresh_setting it" "si_name it = n"
    "mf_options fr' = (mf_options fr)(n \<mapsto> it)" "mf_lines fr' = mf_lines fr"
  shows "linked fr'"
proof (rule linkedI)
  fix i k
  assume "i < length (mf_lines fr')" "cl_item (mf_lines fr' ! i) = Some k"
  then obtain jt where "mf_options fr k = Some jt" "si_orgLine jt = Some i"
    using linked_line[OF assms(1)] assms(6) by auto
  moreover from this have "k \<noteq> n" using assms(2) by auto
  ultimately show "\<exists>it. mf_options fr' k = Some it \<and> si_orgLine it = Some i" using assms(5) by simp
qed (use assms linked_item[OF assms(1)] in \<open>auto simp: fresh_setting_def split: if_splits\<close>)

text \<open>So does a change of the new line of a setting.\<close>

lemma linked_new_line:
  assumes "linked fr" "mf_options fr n = Some it" "\<And>l. nl = Some l \<Longrightarrow> cl_item l = Some n"
    "mf_options fr' = (mf_options fr)(n \<mapsto> it\<lparr>si_newLine := nl\<rparr>)" "mf_lines fr' = mf_lines fr"
  shows "linked fr'"
proof (rule linkedI)
  fix i k
  assume "i < length (mf_lines fr')" "cl_item (mf_lines fr' ! i) = Some k"
  then obtain jt where "mf_options fr k = Some jt" "si_orgLine jt = Some i"
    using linked_line[OF assms(1)] assms(5) by auto
  then show "\<exists>it. mf_options fr' k = Some it \<and> si_orgLine it = Some i" using assms(2,4) by auto
qed (use assms linked_item[OF assms(1)] linked_item[OF assms(1,2)] in \<open>auto split: if_splits\<close>)

text \<open>A line that takes over a setting, at the end of the file.\<close>

lemma linked_take_over:
  assumes l: "linked fr" and o: "mf_options fr n = Some it"
    and lines: "mf_lines fr' = (case si_orgLine it of None \<Rightarrow> mf_lines fr
        | Some i \<Rightarrow> (mf_lines fr)[i := (mf_lines fr ! i)\<lparr>cl_item := None\<rparr>]) @ [line]"
    and line: "cl_item line = Some n"
    and opts: "mf_options fr' = (mf_options fr)(n \<mapsto> it\<lparr>si_orgLine := Some (length (mf_lines fr))\<rparr>)"
  shows "linked fr'"
proof (rule linkedI)
  let ?k = "length (mf_lines fr)"
  have len: "length (mf_lines fr') = Suc ?k" by (simp add: lines split: option.split)
  have nth: "mf_lines fr' ! i = (if i = ?k then line
      else if si_orgLine it = Some i then (mf_lines fr ! i)\<lparr>cl_item := None\<rparr> else mf_lines fr ! i)" if "i \<le> ?k" for i
    using that linked_item(2)[OF l o] by (auto simp: lines nth_append split: option.split)
  show "si_name jt = m" if "mf_options fr' m = Some jt" for m jt
    using that linked_item(1)[OF l] linked_item(1)[OF l o] by (auto simp: opts split: if_splits)
  show "cl_item nl = Some m" if "mf_options fr' m = Some jt" "si_newLine jt = Some nl" for m jt nl
    using that linked_item(3)[OF l] linked_item(3)[OF l o] by (auto simp: opts split: if_splits)
  show "i < length (mf_lines fr') \<and> cl_item (mf_lines fr' ! i) = Some m"
    if "mf_options fr' m = Some jt" "si_orgLine jt = Some i" for m jt i
  proof (cases "m = n")
    case True
    then have "i = ?k" using that by (auto simp: opts)
    then show ?thesis using True nth[of i] line len by simp
  next
    case False
    then have jt: "mf_options fr m = Some jt" using that(1) by (simp add: opts)
    then have i: "i < ?k" "cl_item (mf_lines fr ! i) = Some m" using linked_item(2)[OF l jt that(2)] by simp_all
    have "si_orgLine it \<noteq> Some i" using linked_item(2)[OF l o, of i] i(2) False by auto
    then show ?thesis using i nth[of i] len by simp
  qed
  show "\<exists>jt. mf_options fr' m = Some jt \<and> si_orgLine jt = Some i"
    if "i < length (mf_lines fr')" "cl_item (mf_lines fr' ! i) = Some m" for i m
  proof (cases "i = ?k")
    case True
    then show ?thesis using that nth[of i] line by (simp add: opts)
  next
    case False
    then have i: "i < ?k" "si_orgLine it \<noteq> Some i" "cl_item (mf_lines fr ! i) = Some m"
      using that len nth[of i] by (auto split: if_splits)
    then obtain jt where jt: "mf_options fr m = Some jt" "si_orgLine jt = Some i" using linked_line[OF l] by blast
    then have "m \<noteq> n" using i(2) o by auto
    then show ?thesis using jt by (simp add: opts)
  qed
qed

text \<open>A line without a setting at the end, and changes to lines that keep their settings.\<close>

lemma linked_lines:
  assumes l: "linked fr" and opts: "mf_options fr' = mf_options fr"
    and lines: "map cl_item (mf_lines fr') = map cl_item (mf_lines fr) @ replicate k None"
  shows "linked fr'"
proof (rule linkedI)
  have len: "length (mf_lines fr') = length (mf_lines fr) + k" using arg_cong[OF lines, of length] by simp
  have nth: "cl_item (mf_lines fr' ! i) = (if i < length (mf_lines fr) then cl_item (mf_lines fr ! i) else None)"
    if "i < length (mf_lines fr')" for i
  proof -
    have "cl_item (mf_lines fr' ! i) = map cl_item (mf_lines fr') ! i" using that by simp
    then show ?thesis using that len by (simp add: lines nth_append)
  qed
  show "i < length (mf_lines fr') \<and> cl_item (mf_lines fr' ! i) = Some m"
    if "mf_options fr' m = Some jt" "si_orgLine jt = Some i" for m jt i
    using linked_item(2)[OF l that(1)[unfolded opts] that(2)] nth[of i] len by simp
  show "\<exists>jt. mf_options fr' m = Some jt \<and> si_orgLine jt = Some i"
    if "i < length (mf_lines fr')" "cl_item (mf_lines fr' ! i) = Some m" for i m
    using that nth[of i] linked_line[OF l] by (simp add: opts split: if_splits)
qed (use linked_item[OF l] in \<open>auto simp: opts\<close>)

section \<open>Every operation keeps the links\<close>

lemma linked_link_line:
  assumes "linked fr" "mf_options fr n = Some it" "cl_item line = None"
  shows "linked (link_line n it line fr)"
proof (cases "\<not> cl_isComment line \<or> si_orgLine it = None \<or> cl_isComment (mf_lines fr ! the (si_orgLine it))")
  case True
  then show ?thesis
    by (intro linked_take_over[OF assms(1,2), where line = "line\<lparr>cl_item := Some n\<rparr>"]; simp add: link_line_def)
next
  case False
  then have "link_line n it line fr = fr\<lparr>mf_lines := mf_lines fr @ [line]\<rparr>"
    unfolding link_line_def by (simp only: if_False)
  then show ?thesis using assms(3) by (intro linked_lines[OF assms(1), where k = 1]; simp)
qed

lemma unknown_fresh: "fresh_setting (unknown_setting n)" "si_name (unknown_setting n) = n"
  by (simp_all add: unknown_setting_def SetType_def new_setting_def fresh_setting_def Let_def)

text \<open>What \<open>display_line\<close> does: a line without a setting, or a link to a setting that was there or is added.\<close>

lemma display_line_cases:
  assumes "display_line t fr = Some fr'"
  obtains (plain) line where "fr' = fr\<lparr>mf_lines := mf_lines fr @ [line]\<rparr>" "cl_item line = None" "ol_text line = t"
  | (known) n it line where "mf_options fr n = Some it" "fr' = link_line n it line fr" "cl_item line = None" "ol_text line = t"
  | (added) n line where "mf_options fr n = None" "cl_item line = None" "ol_text line = t"
      "fr' = link_line n (unknown_setting n) line (add_to_category ''Unknown'' n
         (fr\<lparr>mf_options := (mf_options fr)(n \<mapsto> unknown_setting n)\<rparr>))"
proof -
  obtain c n p2 where st: "line_start t = (c, n, p2)" by (metis prod_cases3)
  define line where "line = (new_org_line t)\<lparr>cl_isComment := c\<rparr>"
  have line: "cl_item line = None" "ol_text line = t" by (simp_all add: line_def new_org_line_def)
  show thesis
  proof (cases "n = [] \<or> (mf_options fr n = None \<and> c)")
    case True
    then have "fr' = fr\<lparr>mf_lines := mf_lines fr @ [line]\<rparr>"
      using assms by (auto simp: display_line_def st Let_def line_def)
    then show thesis using plain line by blast
  next
    case False
    obtain v i k where rv: "read_value p2 = Some (v, i, k)"
      using assms False by (auto simp: display_line_def st Let_def split: option.splits prod.splits)
    let ?line = "line\<lparr>cl_value := v, ol_commentIndent := i, cl_comment := k\<rparr>"
    have l: "cl_item ?line = None" "ol_text ?line = t" using line by simp_all
    show thesis
    proof (cases "mf_options fr n")
      case None
      then have "fr' = link_line n (unknown_setting n) ?line (add_to_category ''Unknown'' n
         (fr\<lparr>mf_options := (mf_options fr)(n \<mapsto> unknown_setting n)\<rparr>))"
        using assms False by (simp add: display_line_def st Let_def rv line_def)
      then show thesis using added[OF None l] by blast
    next
      case (Some it)
      then have "fr' = link_line n it ?line fr"
        using assms False by (simp add: display_line_def st Let_def rv line_def)
      then show thesis using known[OF Some _ l] by blast
    qed
  qed
qed

text \<open>No setting has a changed line, after the file was shown.\<close>

definition unedited :: "main_frame \<Rightarrow> bool" where
  "unedited fr \<longleftrightarrow> (\<forall>n it. mf_options fr n = Some it \<longrightarrow> si_newLine it = None)"

lemma link_line_keeps:
  "map ol_text (mf_lines (link_line n it line fr)) = map ol_text (mf_lines fr) @ [ol_text line]"
  "mf_filetype (link_line n it line fr) = mf_filetype fr"
  "unedited fr \<Longrightarrow> mf_options fr n = Some it \<Longrightarrow> unedited (link_line n it line fr)"
proof -
  show "map ol_text (mf_lines (link_line n it line fr)) = map ol_text (mf_lines fr) @ [ol_text line]"
    by (simp add: link_line_def map_update map_update_same split: option.split)
  show "mf_filetype (link_line n it line fr) = mf_filetype fr" by (simp add: link_line_def)
  show "unedited fr \<Longrightarrow> mf_options fr n = Some it \<Longrightarrow> unedited (link_line n it line fr)"
    by (auto simp: unedited_def link_line_def split: if_splits)
qed

lemma display_line_ok:
  assumes "display_line t fr = Some fr'" "linked fr" "unedited fr"
  shows "linked fr' \<and> unedited fr' \<and> map ol_text (mf_lines fr') = map ol_text (mf_lines fr) @ [t]
    \<and> mf_filetype fr' = mf_filetype fr"
  using assms(1)
proof (cases rule: display_line_cases)
  case (plain line)
  then show ?thesis
    using assms(3) linked_lines[OF assms(2), of fr' 1] by (simp add: unedited_def)
next
  case (known n it line)
  then show ?thesis
    using linked_link_line[OF assms(2), of n it line] link_line_keeps assms(3) by simp
next
  case (added n line)
  let ?fr = "add_to_category ''Unknown'' n (fr\<lparr>mf_options := (mf_options fr)(n \<mapsto> unknown_setting n)\<rparr>)"
  have "linked ?fr"
    by (intro linked_add[OF assms(2) added(1) unknown_fresh(1)]; simp add: unknown_fresh)
  moreover have "unedited ?fr" using assms(3) unknown_fresh(1)[of n] by (auto simp: unedited_def fresh_setting_def)
  ultimately show ?thesis
    using added linked_link_line[of ?fr n "unknown_setting n" line] link_line_keeps[where n = n and it = "unknown_setting n" and line = line and fr = ?fr]
    by simp
qed

lemma display_lines_ok:
  "display_lines ts fr = Some fr' \<Longrightarrow> linked fr \<Longrightarrow> unedited fr \<Longrightarrow>
   linked fr' \<and> unedited fr' \<and> map ol_text (mf_lines fr') = map ol_text (mf_lines fr) @ ts
   \<and> mf_filetype fr' = mf_filetype fr"
proof (induction ts arbitrary: fr)
  case (Cons t ts)
  then obtain fr1 where fr1: "display_line t fr = Some fr1" "display_lines ts fr1 = Some fr'"
    by (auto split: option.splits)
  then show ?case using display_line_ok[OF fr1(1) Cons.prems(2,3)] Cons.IH[OF fr1(2)] by simp
qed simp

lemma init_ok:
  assumes "list_all fresh_setting settings"
  shows "linked (main_Init settings fr) \<and> unedited (main_Init settings fr) \<and> mf_lines (main_Init settings fr) = []"
proof -
  have "linked (fold add_setting ss fr) \<and> unedited (fold add_setting ss fr) \<and> mf_lines (fold add_setting ss fr) = []"
    if "list_all fresh_setting ss" "linked fr" "unedited fr" "mf_lines fr = []" for ss fr
    using that
  proof (induction ss arbitrary: fr)
    case (Cons it ss)
    let ?fr = "add_setting it fr"
    have "linked ?fr \<and> unedited ?fr \<and> mf_lines ?fr = []"
    proof (cases "si_context it = PGC_INTERNAL \<or> mf_options fr (si_name it) \<noteq> None")
      case True
      then show ?thesis using Cons.prems by (auto simp: add_setting_def)
    next
      case False
      then have fr: "?fr = add_to_category (si_category it) (si_name it)
          (fr\<lparr>mf_options := (mf_options fr)(si_name it \<mapsto> it)\<rparr>)"
        by (simp add: add_setting_def)
      have "linked ?fr"
        using Cons.prems(1,2) False by (intro linked_add[OF Cons.prems(2), of "si_name it" it]; simp add: fr)
      moreover have "unedited ?fr" using Cons.prems(1,3) by (auto simp: fr unedited_def fresh_setting_def)
      ultimately show ?thesis using Cons.prems(4) by (simp add: fr)
    qed
    then show ?case using Cons.IH[of ?fr] Cons.prems(1) by simp
  qed simp
  note fold = this[OF assms, of "fr\<lparr>mf_options := Map.empty, mf_categories := Map.empty, mf_lines := []\<rparr>"]
  have "linked (fr\<lparr>mf_options := Map.empty, mf_categories := Map.empty, mf_lines := []\<rparr>)"
    "unedited (fr\<lparr>mf_options := Map.empty, mf_categories := Map.empty, mf_lines := []\<rparr>)"
    by (simp_all add: linked_def unedited_def)
  then show ?thesis using fold by (simp add: main_Init_def)
qed

lemma display_ok:
  assumes "main_DisplayFile settings order str fr0 = Some fr" "list_all fresh_setting settings"
  shows "linked fr" "unedited fr" "map ol_text (mf_lines fr) = lines_shown str" "mf_filetype fr = file_type_of str"
proof -
  let ?i = "(main_Init settings fr0)\<lparr>mf_filetype := file_type_of str\<rparr>"
  obtain fr1 where fr1: "display_lines (lines_shown str) ?i = Some fr1" "fr = fr1\<lparr>mf_list := order fr1\<rparr>"
    using assms(1) by (auto simp: main_DisplayFile_def)
  have "linked ?i" "unedited ?i"
    using init_ok[OF assms(2), of fr0] linked_cong[of "main_Init settings fr0" ?i] by (simp_all add: unedited_def)
  note d = display_lines_ok[OF fr1(1) this]
  then have "linked fr1" "unedited fr1" by simp_all
  then show "linked fr" "unedited fr" by (simp_all add: fr1(2) linked_def unedited_def)
  show "map ol_text (mf_lines fr) = lines_shown str" "mf_filetype fr = file_type_of str"
    using d init_ok[OF assms(2), of fr0] by (simp_all add: fr1(2))
qed

lemma edit_linked: "linked fr \<Longrightarrow> linked (main_OnEditSetting n dlg fr)"
proof (cases "mf_options fr n")
  case (Some it)
  assume l: "linked fr"
  let ?nl = "dialog_result dlg (dialog_line (mf_lines fr) it)"
  have "cl_item (dialog_line (mf_lines fr) it) = Some n"
    using linked_item[OF l Some]
    by (auto simp: dialog_line_def config_line.truncate_def split: option.split)
  then have nl: "cl_item ?nl = Some n" by (auto simp: dialog_result_def split: option.split)
  show ?thesis
  proof (cases "case si_orgLine it of Some i \<Rightarrow> \<not> Differs ?nl (mf_lines fr ! i) | None \<Rightarrow> False")
    case True
    then have "main_OnEditSetting n dlg fr = fr\<lparr>mf_options := (mf_options fr)(n \<mapsto> it\<lparr>si_newLine := None\<rparr>)\<rparr>"
      by (simp add: main_OnEditSetting_def Some Let_def)
    then show ?thesis by (intro linked_new_line[OF l Some, where nl = None]; simp)
  next
    case False
    then have "main_OnEditSetting n dlg fr =
        fr\<lparr>mf_options := (mf_options fr)(n \<mapsto> it\<lparr>si_newLine := Some ?nl\<rparr>), mf_changed := True\<rparr>"
      by (simp add: main_OnEditSetting_def Some Let_def)
    then show ?thesis using nl by (intro linked_new_line[OF l Some, where nl = "Some ?nl"]; simp)
  qed
qed (simp add: main_OnEditSetting_def)

lemma undo_linked: "linked fr \<Longrightarrow> linked (main_OnUndo n fr)"
proof (cases "mf_options fr n")
  case (Some it)
  assume l: "linked fr"
  have "main_OnUndo n fr = fr\<lparr>mf_options := (mf_options fr)(n \<mapsto> it\<lparr>si_newLine := None\<rparr>)\<rparr>"
    by (simp add: main_OnUndo_def Some)
  then show ?thesis by (intro linked_new_line[OF l Some, where nl = None]; simp)
qed (simp add: main_OnUndo_def)

lemma save_item_linked:
  assumes "linked fr"
  shows "linked (save_item n fr)"
proof (cases "\<exists>it l. mf_options fr n = Some it \<and> si_newLine it = Some l")
  case True
  then obtain it l where it: "mf_options fr n = Some it" "si_newLine it = Some l" by blast
  show ?thesis
  proof (cases "si_orgLine it")
    case None
    then show ?thesis
      using it by (intro linked_take_over[OF assms it(1), where line = "(new_org_line (line_new_text (mf_lines fr) it l))\<lparr>
          cl_item := Some n, cl_value := cl_value l, cl_comment := cl_comment l, cl_isComment := cl_isComment l,
          ol_commentIndent := (if cl_isComment l then DEFAULT_COMMENT_INDEX else [])\<rparr>"];
        simp add: save_item_def Let_def)
  next
    case (Some i)
    then show ?thesis
      using it
      by (intro linked_lines[OF assms, where k = 0]; simp add: save_item_def Let_def map_update map_update_same)
  qed
qed (auto simp: save_item_def split: option.split intro: assms)

lemma settle_line_linked:
  assumes "linked fr" "i < length (mf_lines fr)"
  shows "linked (settle_line i fr)" "length (mf_lines (settle_line i fr)) = length (mf_lines fr)"
proof -
  show "linked (settle_line i fr)"
  proof (cases "\<exists>n it l. cl_item (mf_lines fr ! i) = Some n \<and> mf_options fr n = Some it \<and> si_newLine it = Some l")
    case True
    then obtain n it l where it: "cl_item (mf_lines fr ! i) = Some n" "mf_options fr n = Some it" "si_newLine it = Some l"
      by blast
    let ?fr = "fr\<lparr>mf_lines := (mf_lines fr)[i := (mf_lines fr ! i)\<lparr>ol_text := line_new_text (mf_lines fr) it l\<rparr>]\<rparr>"
    have l: "linked ?fr"
      by (intro linked_lines[OF assms(1), where k = 0]; simp add: map_update map_update_same)
    then show ?thesis
      using it by (intro linked_new_line[OF l, where n = n and it = it and nl = None]; simp add: settle_line_def)
  qed (auto simp: settle_line_def split: option.split intro: assms)
  show "length (mf_lines (settle_line i fr)) = length (mf_lines fr)"
    by (simp add: settle_line_def split: option.split)
qed

lemma write_linked:
  assumes "linked fr"
  shows "linked (snd (main_WriteFile success fr))"
proof -
  have save: "linked fr \<Longrightarrow> linked (fold save_item ns fr)" for ns fr
    by (induction ns arbitrary: fr) (auto intro: save_item_linked)
  have settle: "linked fr \<Longrightarrow> list_all (\<lambda>i. i < length (mf_lines fr)) is \<Longrightarrow> linked (fold settle_line is fr)" for "is" fr
    by (induction "is" arbitrary: fr) (auto simp: settle_line_linked)
  have "linked (fr\<lparr>mf_changed := False\<rparr>)" using assms by (simp add: linked_def)
  then show ?thesis
    using assms save[of "fr\<lparr>mf_changed := False\<rparr>" "mf_list fr"]
    by (auto simp: main_WriteFile_def Let_def list_all_iff intro!: settle)
qed

section \<open>Any use of the window\<close>

inductive main_step :: "main_frame \<Rightarrow> main_frame \<Rightarrow> bool" where
  display: "list_all fresh_setting settings \<Longrightarrow> main_DisplayFile settings order str fr = Some fr' \<Longrightarrow> main_step fr fr'"
| edit: "main_step fr (main_OnEditSetting n dlg fr)"
| undo: "main_step fr (main_OnUndo n fr)"
| save: "main_step fr (snd (main_WriteFile success fr))"

inductive main_reachable :: "main_frame \<Rightarrow> bool" where
  opened: "list_all fresh_setting settings \<Longrightarrow> main_DisplayFile settings order str fr = Some fr' \<Longrightarrow> main_reachable fr'"
| next_step: "main_reachable fr \<Longrightarrow> main_step fr fr' \<Longrightarrow> main_reachable fr'"

lemma main_step_linked: "main_step fr fr' \<Longrightarrow> linked fr \<Longrightarrow> linked fr'"
  by (induction rule: main_step.induct) (auto intro: display_ok edit_linked undo_linked write_linked)

text \<open>A file with one setting, for examples.\<close>

definition empty_main_frame :: main_frame where
  "empty_main_frame =
     \<lparr>mf_options = Map.empty, mf_categories = Map.empty, mf_lines = [], mf_list = [], mf_changed = False,
      mf_filetype = wxTextFileType_Unix\<rparr>"

definition example_settings :: "setting_item list" where
  "example_settings =
     [new_setting\<lparr>si_name := ''port'', si_type := PGC_INT\<rparr>, new_setting\<lparr>si_name := ''fsync'', si_type := PGC_BOOL\<rparr>]"

definition example_shown :: "main_frame option" where
  "example_shown = main_DisplayFile example_settings (\<lambda>fr. [''port'', ''fsync'']) ''port = 5'' empty_main_frame"

lemma example_fresh: "list_all fresh_setting example_settings"
  by (simp add: example_settings_def fresh_setting_def new_setting_def)

lemma example_frame:
  obtains fr p f where "example_shown = Some fr" "mf_options fr ''port'' = Some p" "si_orgLine p = Some 0"
    "mf_options fr ''fsync'' = Some f" "si_orgLine f = None" "mf_list fr = [''port'', ''fsync'']"
proof -
  have "case example_shown of None \<Rightarrow> False | Some fr \<Rightarrow>
      (case mf_options fr ''port'' of None \<Rightarrow> False | Some p \<Rightarrow> si_orgLine p = Some 0) \<and>
      (case mf_options fr ''fsync'' of None \<Rightarrow> False | Some f \<Rightarrow> si_orgLine f = None) \<and>
      mf_list fr = [''port'', ''fsync'']"
    by code_simp
  then show thesis using that by (auto split: option.splits)
qed

text \<open>C33. However the window is used, the line of a setting belongs to that setting and to no other: of a
  setting that occurs on several lines one is linked, and only it will be changed.\<close>

theorem settings_linked:
  assumes "main_reachable fr" "mf_options fr n = Some it" "si_orgLine it = Some i"
  shows "si_name it = n \<and> i < length (mf_lines fr) \<and>
    list_all (\<lambda>j. (cl_item (mf_lines fr ! j) = Some n) = (j = i)) [0..<length (mf_lines fr)]"
proof -
  have l: "linked fr"
    using assms(1) by (induction rule: main_reachable.induct) (auto intro: display_ok main_step_linked)
  have i: "si_name it = n" "i < length (mf_lines fr)" "cl_item (mf_lines fr ! i) = Some n"
    using linked_item[OF l assms(2)] assms(3) by simp_all
  have "(cl_item (mf_lines fr ! j) = Some n) = (j = i)" if "j < length (mf_lines fr)" for j
    using linked_line[OF l that, of n] assms(2,3) i(3) by auto
  then show ?thesis using i(1,2) by (simp add: list_all_iff)
qed

theorem settings_linked_witness:
  "case example_shown of None \<Rightarrow> False
   | Some fr \<Rightarrow> list_all (\<lambda>j. (cl_item (mf_lines fr ! j) = Some ''port'') = (j = 0)) [0..<length (mf_lines fr)]"
proof (rule example_frame)
  fix fr p f
  assume "example_shown = Some fr" "mf_options fr ''port'' = Some p" "si_orgLine p = Some 0"
  then show ?thesis
    using settings_linked[OF main_reachable.opened[OF example_fresh], of "\<lambda>fr. [''port'', ''fsync'']" "''port = 5''"
        empty_main_frame fr "''port''" p 0]
    by (simp add: example_shown_def)
qed

lemma distinct_concat:
  assumes "distinct ns" "n \<in> set ns" "\<And>m. m \<noteq> n \<Longrightarrow> f m = []"
  shows "concat (map f ns) = f n"
proof -
  have out: "concat (map f ms) = []" if "n \<notin> set ms" for ms
    using that assms(3) by (induction ms) auto
  show ?thesis using assms(1,2) by (induction ns) (auto simp: out intro: assms(3))
qed

text \<open>The lines that will be written after an edit.\<close>

definition lines_after_edit :: "string list \<Rightarrow> org_line list \<Rightarrow> setting_item \<Rightarrow> config_line \<Rightarrow> string list" where
  "lines_after_edit ts ls it l =
     (case si_orgLine it of
        Some i \<Rightarrow> if Differs l (ls ! i) then ts[i := line_new_text ls it l] else ts
      | None \<Rightarrow> ts @ [line_new_text ls it l])"

lemma new_text_item: "line_new_text ls (it\<lparr>si_newLine := x\<rparr>) l = line_new_text ls it l"
  by (simp add: line_new_text_def quote_for_def)

lemma with_line_ends_append: "with_line_ends (a @ b) = with_line_ends a @ with_line_ends b"
  by (simp add: with_line_ends_def)

lemma with_line_ends_Nil [simp]: "with_line_ends [] = []"
  by (simp add: with_line_ends_def)

lemma unedited_text:
  assumes "unedited fr"
  shows "text_to_write fr = with_line_ends (map ol_text (mf_lines fr))"
proof -
  have "org_new_text fr = ol_text"
    using assms by (intro ext) (auto simp: org_new_text_def unedited_def split: option.split)
  moreover have "added_text fr = (\<lambda>n. [])"
    using assms by (intro ext) (auto simp: added_text_def unedited_def split: option.split)
  ultimately show ?thesis by (simp add: text_to_write_def with_line_ends_def)
qed

lemma edited_text:
  assumes l: "linked fr" and u: "unedited fr" and it: "mf_options fr n = Some it"
    and ns: "distinct (mf_list fr)" "n \<in> set (mf_list fr)"
  shows "text_to_write (main_OnEditSetting n dlg fr) =
    with_line_ends (lines_after_edit (map ol_text (mf_lines fr)) (mf_lines fr) it
      (dialog_result dlg (dialog_line (mf_lines fr) it)))"
proof -
  define nl where "nl = dialog_result dlg (dialog_line (mf_lines fr) it)"
  let ?keep = "case si_orgLine it of Some i \<Rightarrow> \<not> Differs nl (mf_lines fr ! i) | None \<Rightarrow> False"
  let ?ls = "mf_lines fr"
  show ?thesis
  proof (cases ?keep)
    case True
    then have e: "main_OnEditSetting n dlg fr = fr\<lparr>mf_options := (mf_options fr)(n \<mapsto> it\<lparr>si_newLine := None\<rparr>)\<rparr>"
      by (simp add: main_OnEditSetting_def it Let_def flip: nl_def)
    then have "unedited (main_OnEditSetting n dlg fr)" using u by (auto simp: unedited_def)
    then show ?thesis
      using True by (auto simp: unedited_text e lines_after_edit_def simp flip: nl_def split: option.splits)
  next
    case False
    then have e: "main_OnEditSetting n dlg fr =
        fr\<lparr>mf_options := (mf_options fr)(n \<mapsto> it\<lparr>si_newLine := Some nl\<rparr>), mf_changed := True\<rparr>"
      by (simp add: main_OnEditSetting_def it Let_def flip: nl_def)
    let ?fr = "main_OnEditSetting n dlg fr"
    have org: "org_new_text ?fr (?ls ! j) = (if cl_item (?ls ! j) = Some n then line_new_text ?ls it nl else ol_text (?ls ! j))" for j
      using u by (auto simp: org_new_text_def e unedited_def new_text_item split: option.split)
    have add: "added_text ?fr m = (if m = n \<and> cl_item nl \<noteq> None \<and> si_orgLine it = None then [line_new_text ?ls it nl] else [])" for m
      using u by (auto simp: added_text_def e unedited_def new_text_item split: option.split)
    have adds: "concat (map (added_text ?fr) (mf_list fr)) =
        (if cl_item nl \<noteq> None \<and> si_orgLine it = None then [line_new_text ?ls it nl] else [])"
      using distinct_concat[OF ns, of "added_text ?fr"] add by simp
    show ?thesis
    proof (cases "si_orgLine it")
      case None
      have "cl_item nl = Some n"
        using linked_item[OF l it] None u it
        by (auto simp: nl_def dialog_result_def dialog_line_def unedited_def split: option.split)
      moreover have "cl_item (?ls ! j) \<noteq> Some n" if "j < length ?ls" for j
        using linked_line[OF l that] it None by auto
      then have "map (org_new_text ?fr) ?ls = map ol_text ?ls" using org by (auto simp: map_eq_conv in_set_conv_nth)
      moreover have "mf_lines ?fr = ?ls" "mf_list ?fr = mf_list fr" by (simp_all add: e)
      ultimately show ?thesis
        using adds None
        by (simp add: text_to_write_def lines_after_edit_def with_line_ends_append del: map_eq_conv flip: nl_def)
    next
      case (Some i)
      have i: "i < length ?ls" "cl_item (?ls ! i) = Some n" using linked_item(2)[OF l it Some] by simp_all
      have pos: "(cl_item (?ls ! j) = Some n) = (j = i)" if "j < length ?ls" for j
        using linked_line[OF l that, of n] it Some i(2) by auto
      have "map (org_new_text ?fr) ?ls = (map ol_text ?ls)[i := line_new_text ?ls it nl]"
        by (rule nth_equalityI) (simp_all add: org pos nth_list_update)
      moreover have "mf_lines ?fr = ?ls" "mf_list ?fr = mf_list fr" by (simp_all add: e)
      ultimately show ?thesis
        using adds Some False
        by (simp add: text_to_write_def lines_after_edit_def del: concat_eq_Nil_conv flip: nl_def)
    qed
  qed
qed

text \<open>C34. Saving after one setting was edited writes the file as it was read, with the new text of that
  setting in place of its line, or, where it had none, after the last line; every other line is kept.\<close>

theorem edited_setting_written:
  assumes "main_DisplayFile settings order str fr0 = Some fr" "list_all fresh_setting settings"
    "mf_options fr n = Some it" "distinct (mf_list fr)" "n \<in> set (mf_list fr)"
  shows "fst (main_WriteFile success (main_OnEditSetting n dlg fr)) =
    text_written (file_type_of str) (with_line_ends
      (lines_after_edit (lines_shown str) (mf_lines fr) it (dialog_result dlg (dialog_line (mf_lines fr) it))))"
proof -
  note d = display_ok[OF assms(1,2)]
  have "mf_filetype (main_OnEditSetting n dlg fr) = file_type_of str"
    using d(4) assms(3) by (simp add: main_OnEditSetting_def Let_def)
  then show ?thesis
    using edited_text[OF d(1,2) assms(3-5), of dlg] by (simp add: main_WriteFile_def d(3))
qed

theorem edited_setting_written_witness:
  "case example_shown of None \<Rightarrow> False
   | Some fr \<Rightarrow> fst (main_WriteFile True (main_OnEditSetting ''port'' (Some (''6'', [], True)) fr)) =
       text_written wxTextFileType_Unix (with_line_ends (lines_after_edit [''port = 5''] (mf_lines fr)
         (the (mf_options fr ''port''))
         (dialog_result (Some (''6'', [], True)) (dialog_line (mf_lines fr) (the (mf_options fr ''port''))))))"
proof (rule example_frame)
  fix fr p f
  assume fr: "example_shown = Some fr" "mf_options fr ''port'' = Some p" "mf_list fr = [''port'', ''fsync'']"
  have "file_type_of ''port = 5'' = wxTextFileType_Unix" "lines_shown ''port = 5'' = [''port = 5'']" by code_simp+
  then show ?thesis
    using edited_setting_written[OF fr(1)[unfolded example_shown_def] example_fresh fr(2),
        of True "Some (''6'', [], True)"] fr
    unfolding fr(1) by simp
qed

text \<open>A file without a change is written as it was read.\<close>

theorem main_file_kept:
  assumes "main_DisplayFile settings order str fr0 = Some fr" "list_all fresh_setting settings"
  shows "fst (main_WriteFile success fr) = text_written (file_type_of str) (with_line_ends (lines_shown str))"
  using display_ok[OF assms] unedited_text by (simp add: main_WriteFile_def)

text \<open>C35. Cancelling the dialog of a setting that is not in the file adds a line for it, with an empty value
  and not as a comment; the window takes the file for changed.\<close>

theorem cancel_adds_setting:
  assumes "main_DisplayFile settings order str fr0 = Some fr" "list_all fresh_setting settings"
    "mf_options fr n = Some it" "distinct (mf_list fr)" "n \<in> set (mf_list fr)" "si_orgLine it = None"
  shows "mf_changed (main_OnEditSetting n None fr) \<and>
    fst (main_WriteFile success (main_OnEditSetting n None fr)) =
    text_written (file_type_of str) (with_line_ends
      (lines_shown str @ [n @ '' = '' @ (if si_type it = PGC_STRING then [CHR 0x27, CHR 0x27] else [])]))"
proof -
  note d = display_ok[OF assms(1,2)]
  have "si_newLine it = None" using d(2) assms(3) by (simp add: unedited_def)
  then have l: "dialog_result None (dialog_line (mf_lines fr) it) =
      \<lparr>cl_item = Some n, cl_value = [], cl_comment = [], cl_isComment = False\<rparr>"
    using assms(6) linked_item(1)[OF d(1) assms(3)] by (simp add: dialog_result_def dialog_line_def)
  have e: "main_OnEditSetting n None fr = fr\<lparr>mf_options := (mf_options fr)(n \<mapsto> it\<lparr>si_newLine :=
      Some \<lparr>cl_item = Some n, cl_value = [], cl_comment = [], cl_isComment = False\<rparr>\<rparr>), mf_changed := True\<rparr>"
    using assms(3,6) l by (simp add: main_OnEditSetting_def Let_def)
  have "line_new_text (mf_lines fr) it \<lparr>cl_item = Some n, cl_value = [], cl_comment = [], cl_isComment = False\<rparr>
      = n @ '' = '' @ (if si_type it = PGC_STRING then [CHR 0x27, CHR 0x27] else [])"
    using linked_item(1)[OF d(1) assms(3)] by (simp add: line_new_text_def quote_for_def find_char_none Let_def not_le find_char_def)
  then show ?thesis
    using edited_text[OF d(1,2) assms(3-5), of None] l assms(6) d(3,4)
    by (simp add: main_WriteFile_def lines_after_edit_def e)
qed

theorem cancel_adds_setting_witness:
  "case example_shown of None \<Rightarrow> False
   | Some fr \<Rightarrow> fst (main_WriteFile True (main_OnEditSetting ''fsync'' None fr)) =
       (if si_type (the (mf_options fr ''fsync'')) = PGC_STRING
        then ''port = 5'' @ [lf] @ ''fsync = '' @ [CHR 0x27, CHR 0x27, lf] else ''port = 5'' @ [lf] @ ''fsync = '' @ [lf])"
proof (rule example_frame)
  fix fr p f
  assume fr: "example_shown = Some fr" "mf_options fr ''fsync'' = Some f" "si_orgLine f = None"
    "mf_list fr = [''port'', ''fsync'']"
  have "file_type_of ''port = 5'' = wxTextFileType_Unix" "lines_shown ''port = 5'' = [''port = 5'']" by code_simp+
  then show ?thesis
    using cancel_adds_setting[OF fr(1)[unfolded example_shown_def] example_fresh fr(2), of True] fr
    unfolding fr(1) by (simp add: text_written_def with_line_ends_def)
qed

end
