(* ===== verification/SettingsReader.thy ===== *)
theory SettingsReader
  imports MainConfigEdit
begin

text \<open>
  The readers of the list of settings in \<open>utils/pgconfig.cpp\<close>: \<open>pgSettingFileReader\<close>, whose buffer pointer is
  the rest of the text or \<open>None\<close>, and \<open>pgSettingDbReader\<close>, a list of rows; and the loop of
  \<open>frmMainConfig::Init\<close> over them. The loop may run for ever: then it has no result. Shown: it reads a file
  of quoted records to its end; a file that ends in a semicolon is never finished.
\<close>

section \<open>The file reader\<close>

fun split_semicolons :: "string \<Rightarrow> string list" where
  "split_semicolons [] = [[]]"
| "split_semicolons (c # s) =
     (if c = CHR '';'' then [] # split_semicolons s
      else case split_semicolons s of [] \<Rightarrow> [[c]] | w # ws \<Rightarrow> (c # w) # ws)"

definition next_column :: "string list \<Rightarrow> string" where
  "next_column cols = (case cols of [] \<Rightarrow> [] | c # _ \<Rightarrow> c)"

text \<open>The text between quotes, with doubled quotes read as one; it stops at a line end too.\<close>

fun csv_value :: "string \<Rightarrow> string \<times> string" where
  "csv_value [] = ([], [])"
| "csv_value [c] = (if c = lf \<or> c = CHR 0x22 then ([], [c]) else ([c], []))"
| "csv_value (c # d # s) =
     (if c = lf then ([], c # d # s)
      else if c = CHR 0x22 then
        if d = CHR 0x22 then let (v, r) = csv_value s in (d # v, r) else ([], c # d # s)
      else let (v, r) = csv_value (d # s) in (c # v, r))"

definition set_column :: "string \<Rightarrow> string \<Rightarrow> setting_item \<Rightarrow> setting_item" where
  "set_column column val item =
     (let is_column = (\<lambda>n. column = n \<or> column = [CHR 0x22] @ n @ [CHR 0x22]) in
      if is_column ''name'' then item\<lparr>si_name := str_lower val\<rparr>
      else if is_column ''category'' then item\<lparr>si_category := val\<rparr>
      else if is_column ''short_desc'' then item\<lparr>si_short_desc := val\<rparr>
      else if is_column ''extra_desc'' then item\<lparr>si_extra_desc := val\<rparr>
      else if is_column ''min_val'' then item\<lparr>si_min_val := val\<rparr>
      else if is_column ''max_val'' then item\<lparr>si_max_val := val\<rparr>
      else if is_column ''context'' then SetContext val item
      else if is_column ''vartype'' then SetType val item
      else item)"

lemma csv_value_length: "length (snd (csv_value s)) \<le> length s"
  by (induction s rule: csv_value.induct) (auto split: prod.splits)

text \<open>The loop over the columns; \<open>bp\<close> is the pointer of the reader.\<close>

function item_loop ::
  "string list \<Rightarrow> string \<Rightarrow> setting_item \<Rightarrow> string option \<Rightarrow> setting_item option \<times> string option" where
  "item_loop cols c item bp =
     (if c = [] then (Some item, bp)
      else if hd c \<noteq> CHR 0x22 then (None, bp)
      else
        let (val, c1) = csv_value (tl c) in
        if c1 = [] \<or> hd c1 \<noteq> CHR 0x22 then (None, bp)
        else
          let c2 = tl c1; item = set_column (next_column cols) val item; cols = drop 1 cols in
          if c2 \<noteq> [] \<and> hd c2 = lf then (Some item, Some (tl c2))
          else if c2 = [] then (Some item, None)
          else if hd c2 = CHR '';'' then item_loop cols (tl c2) item bp
          else (None, bp))"
  by pat_completeness auto
termination
proof (relation "measure (\<lambda>(cols, c, item, bp). length c)", goal_cases)
  case (2 cols c item bp p val c1 c2 item' cols')
  then have "length c1 \<le> length (tl c)" using csv_value_length[of "tl c"] by (metis snd_conv)
  then show ?case using 2 by (cases c; cases c1; cases c2) auto
qed simp

declare item_loop.simps [simp del]

definition file_GetNextItem :: "string \<Rightarrow> string option \<Rightarrow> setting_item option \<times> string option" where
  "file_GetNextItem columnNames bp =
     (case bp of
        None \<Rightarrow> (None, bp)
      | Some c \<Rightarrow> if c = [] \<or> hd c = lf then (None, bp)
                  else item_loop (split_semicolons columnNames) c new_setting bp)"

text \<open>The buffer: the first line has the names of the columns. Without a line end in it, the pointer is set behind
  the end of the text (\<open>None\<close>).\<close>

definition new_file_reader :: "string \<Rightarrow> (string \<times> string option) option" where
  "new_file_reader buffer =
     (if buffer = [] then Some ([], None)
      else
        let buffer = Translate wxTextFileType_Unix buffer; columnNames = before_first lf buffer in
        if lf \<in> set buffer then Some (columnNames, Some (drop (length columnNames + 1) buffer)) else None)"

section \<open>The reader of the server\<close>

text \<open>A row of \<open>pg_settings\<close> gives the text of each column.\<close>

definition db_item :: "(string \<Rightarrow> string) \<Rightarrow> setting_item" where
  "db_item GetVal =
     (SetSource (GetVal ''source'') (SetType (GetVal ''vartype'') (SetContext (GetVal ''context'')
       (new_setting\<lparr>si_name := str_lower (GetVal ''name''), si_category := GetVal ''category'',
          si_short_desc := GetVal ''short_desc'', si_extra_desc := GetVal ''extra_desc'',
          si_min_val := GetVal ''min_val'', si_max_val := GetVal ''max_val''\<rparr>))))
     \<lparr>si_value := GetVal ''setting''\<rparr>"

definition db_GetNextItem :: "(string \<Rightarrow> string) list \<Rightarrow> setting_item option \<times> (string \<Rightarrow> string) list" where
  "db_GetNextItem pgset = (case pgset of [] \<Rightarrow> (None, []) | row # rows \<Rightarrow> (Some (db_item row), rows))"

section \<open>The loop over a reader\<close>

partial_function (option) Init_file_reader :: "string \<Rightarrow> string option \<Rightarrow> main_frame \<Rightarrow> main_frame option" where
  "Init_file_reader columnNames bp fr =
     (case file_GetNextItem columnNames bp of
        (None, bp') \<Rightarrow> Some fr
      | (Some item, bp') \<Rightarrow> Init_file_reader columnNames bp' (add_setting item fr))"

fun Init_db_reader :: "(string \<Rightarrow> string) list \<Rightarrow> main_frame \<Rightarrow> main_frame" where
  "Init_db_reader [] fr = fr"
| "Init_db_reader (row # rows) fr = Init_db_reader rows (add_setting (db_item row) fr)"

section \<open>Reading a file\<close>

definition quoted_value :: "string \<Rightarrow> string" where
  "quoted_value v = [CHR 0x22] @ concat (map (\<lambda>c. if c = CHR 0x22 then [c, c] else [c]) v) @ [CHR 0x22]"

fun record_text :: "string list \<Rightarrow> string" where
  "record_text [] = []"
| "record_text [v] = quoted_value v"
| "record_text (v # w # vs) = quoted_value v @ CHR '';'' # record_text (w # vs)"

fun set_columns :: "string list \<Rightarrow> string list \<Rightarrow> setting_item \<Rightarrow> setting_item" where
  "set_columns cols [] item = item"
| "set_columns cols (v # vs) item = set_columns (drop 1 cols) vs (set_column (next_column cols) v item)"

lemma csv_value_quoted:
  "lf \<notin> set v \<Longrightarrow> r = [] \<or> hd r \<noteq> CHR 0x22 \<Longrightarrow>
   csv_value (concat (map (\<lambda>c. if c = CHR 0x22 then [c, c] else [c]) v) @ CHR 0x22 # r) = (v, CHR 0x22 # r)"
proof (induction v)
  case Nil
  then show ?case by (cases r) auto
next
  case (Cons c v)
  obtain d s where ds: "concat (map (\<lambda>c. if c = CHR 0x22 then [c, c] else [c]) v) @ CHR 0x22 # r = d # s"
    by (cases "concat (map (\<lambda>c. if c = CHR 0x22 then [c, c] else [c]) v) @ CHR 0x22 # r") auto
  have "csv_value (d # s) = (v, CHR 0x22 # r)" using Cons by (simp flip: ds)
  then show ?case using Cons.prems(1) by (auto simp: ds)
qed

lemma item_loop_record:
  "vs \<noteq> [] \<Longrightarrow> list_all (\<lambda>v. lf \<notin> set v) vs \<Longrightarrow>
   item_loop cols (record_text vs @ lf # rest) item bp = (Some (set_columns cols vs item), Some rest)"
proof (induction vs arbitrary: cols item rule: record_text.induct)
  case (2 v)
  then have "csv_value (tl (quoted_value v @ lf # rest)) = (v, CHR 0x22 # lf # rest)"
    using csv_value_quoted[of v "lf # rest"] by (simp add: quoted_value_def)
  then show ?case by (subst item_loop.simps) (simp add: quoted_value_def)
next
  case (3 v w vs)
  let ?r = "record_text (w # vs) @ lf # rest"
  have "csv_value (tl (quoted_value v @ CHR '';'' # ?r)) = (v, CHR 0x22 # CHR '';'' # ?r)"
    using csv_value_quoted[of v "CHR '';'' # ?r"] 3(3) by (simp add: quoted_value_def)
  then show ?case using 3(1)[of "drop 1 cols" "set_column (next_column cols) v item"] 3(3)
    by (subst item_loop.simps) (simp add: quoted_value_def)
qed simp

definition item_of_record :: "string \<Rightarrow> string list \<Rightarrow> setting_item" where
  "item_of_record columnNames vs = set_columns (split_semicolons columnNames) vs new_setting"

lemma record_start: "vs \<noteq> [] \<Longrightarrow> record_text vs \<noteq> [] \<and> hd (record_text vs) = CHR 0x22"
  by (induction vs rule: record_text.induct) (simp_all add: quoted_value_def)

text \<open>The settings that are read have no line yet, as the window needs it.\<close>

lemma set_columns_fresh: "fresh_setting it \<Longrightarrow> fresh_setting (set_columns cols vs it)"
  by (induction cols vs it rule: set_columns.induct)
    (auto simp: fresh_setting_def set_column_def SetContext_def SetType_def Let_def)

lemma records_fresh: "list_all fresh_setting (map (item_of_record columnNames) records)"
  by (auto simp: list_all_iff item_of_record_def new_setting_def fresh_setting_def
      intro!: set_columns_fresh[unfolded fresh_setting_def])

lemma next_record:
  "vs \<noteq> [] \<Longrightarrow> list_all (\<lambda>v. lf \<notin> set v) vs \<Longrightarrow>
    file_GetNextItem columnNames (Some (record_text vs @ lf # rest)) = (Some (item_of_record columnNames vs), Some rest)"
  using item_loop_record[of vs] record_start[of vs] by (auto simp: file_GetNextItem_def item_of_record_def hd_append)

text \<open>C36. The loop over the file reader ends for a file of records, each with all of its values in quotes and
  a line end, and the settings are those of the records, in their order.\<close>

theorem settings_file_read:
  assumes "list_all (\<lambda>vs. vs \<noteq> [] \<and> list_all (\<lambda>v. lf \<notin> set v) vs) records"
  shows "Init_file_reader columnNames (Some (with_line_ends (map record_text records))) fr
    = Some (fold add_setting (map (item_of_record columnNames) records) fr)"
  using assms
proof (induction records arbitrary: fr)
  case Nil
  then show ?case
    by (subst Init_file_reader.simps) (simp add: file_GetNextItem_def with_line_ends_def)
next
  case (Cons vs records)
  let ?rest = "with_line_ends (map record_text records)"
  have "with_line_ends (map record_text (vs # records)) = record_text vs @ lf # ?rest"
    by (simp add: with_line_ends_def)
  moreover have "file_GetNextItem columnNames (Some (record_text vs @ lf # ?rest))
      = (Some (item_of_record columnNames vs), Some ?rest)"
    using Cons.prems by (intro next_record) simp_all
  ultimately show ?case
    using Cons by (subst Init_file_reader.simps) simp
qed

theorem settings_file_read_witness:
  "Init_file_reader ''name'' (Some (with_line_ends [[CHR 0x22] @ ''Port'' @ [CHR 0x22]])) empty_main_frame
    = Some (add_setting (new_setting\<lparr>si_name := ''port''\<rparr>) empty_main_frame)"
proof -
  have "item_of_record ''name'' [''Port''] = new_setting\<lparr>si_name := ''port''\<rparr>" by code_simp
  then show ?thesis
    using settings_file_read[of "[[''Port'']]" "''name''" empty_main_frame]
    by (simp add: quoted_value_def)
qed

lemma item_loop_semicolon:
  "vs \<noteq> [] \<Longrightarrow> list_all (\<lambda>v. lf \<notin> set v) vs \<Longrightarrow>
   item_loop cols (record_text vs @ '';'') item bp = (Some (set_columns cols vs item), bp)"
proof (induction vs arbitrary: cols item rule: record_text.induct)
  case (2 v)
  then have "csv_value (tl (quoted_value v @ '';'')) = (v, CHR 0x22 # '';'')"
    using csv_value_quoted[of v "'';''"] by (simp add: quoted_value_def)
  then show ?case by (subst item_loop.simps) (simp add: quoted_value_def item_loop.simps[where c = "[]"])
next
  case (3 v w vs)
  let ?r = "record_text (w # vs) @ '';''"
  have "csv_value (tl (quoted_value v @ CHR '';'' # ?r)) = (v, CHR 0x22 # CHR '';'' # ?r)"
    using csv_value_quoted[of v "CHR '';'' # ?r"] 3(3) by (simp add: quoted_value_def)
  then show ?case using 3(1)[of "drop 1 cols" "set_column (next_column cols) v item"] 3(3)
    by (subst item_loop.simps) (simp add: quoted_value_def)
qed simp

lemma same_item_for_ever:
  assumes "file_GetNextItem columnNames bp = (Some it, bp)"
  shows "Init_file_reader columnNames bp fr = None"
proof -
  have "Init_file_reader columnNames bp fr \<noteq> Some fr'" for fr'
  proof
    assume r: "Init_file_reader columnNames bp fr = Some fr'"
    have "columnNames = columnNames \<and> bp = bp \<longrightarrow> False"
    proof (rule Init_file_reader.raw_induct[where P = "\<lambda>cn b fr y. cn = columnNames \<and> b = bp \<longrightarrow> False", OF _ r])
      fix f and cn b and fr fr' :: main_frame
      assume "\<And>cn b fr y. f cn b fr = Some y \<Longrightarrow> cn = columnNames \<and> b = bp \<longrightarrow> False"
        and "(case file_GetNextItem cn b of (None, bp') \<Rightarrow> Some fr
          | (Some item, bp') \<Rightarrow> f cn bp' (add_setting item fr)) = Some fr'"
      then show "cn = columnNames \<and> b = bp \<longrightarrow> False" using assms by (auto split: prod.splits option.splits)
    qed
    then show False by simp
  qed
  then show ?thesis by (meson not_Some_eq)
qed

text \<open>C37. A file of records with all of their values in quotes, whose last record has a semicolon and no line end
  after its last value, is read for ever: once the reader is there, it gives that record again and again, as its
  pointer stays where it was. Any number of records, of any number of values, may come before.\<close>

theorem semicolon_at_end_never_returns:
  assumes "list_all (\<lambda>vs. vs \<noteq> [] \<and> list_all (\<lambda>v. lf \<notin> set v) vs) (records @ [vs])"
  shows "Init_file_reader columnNames (Some (with_line_ends (map record_text records) @ record_text vs @ '';'')) fr = None"
  using assms
proof (induction records arbitrary: fr)
  case Nil
  then have "file_GetNextItem columnNames (Some (record_text vs @ '';''))
      = (Some (item_of_record columnNames vs), Some (record_text vs @ '';''))"
    using record_start[of vs] item_loop_semicolon[of vs] by (auto simp: file_GetNextItem_def item_of_record_def hd_append)
  then show ?case using same_item_for_ever by (simp add: with_line_ends_def)
next
  case (Cons us records)
  let ?rest = "with_line_ends (map record_text records) @ record_text vs @ '';''"
  have "with_line_ends (map record_text (us # records)) @ record_text vs @ '';'' = record_text us @ lf # ?rest"
    by (simp add: with_line_ends_def)
  then show ?case
    using Cons next_record[of us columnNames ?rest] by (subst Init_file_reader.simps) simp
qed

theorem semicolon_at_end_never_returns_witness:
  "Init_file_reader ''name;category'' (Some (with_line_ends [record_text [''port'', ''c'']] @ record_text [''fsync'', ''d''] @ '';''))
    empty_main_frame = None"
  using semicolon_at_end_never_returns[of "[[''port'', ''c'']]" "[''fsync'', ''d'']" "''name;category''" empty_main_frame] by simp

end
