(* ===== verification/PgsReferences.thy ===== *)
theory PgsReferences
  imports PgsSound PgsSubst
begin

text \<open>
  Generators of references: their queries are those \<open>pgsExecute::eval\<close> runs with an empty symbol
  table; one that is sequential asks for every row once per period; a table without rows is refused
  with the message for one that does not exist.
\<close>

section \<open>An empty symbol table\<close>

definition no_vars :: "pgs_state \<Rightarrow> bool" where
  "no_vars s \<longleftrightarrow> ps_vars s = (\<lambda>_. None)"

lemma expand_no_vars_le:
  assumes "expand_vars env stmt s = Some y" "no_vars s"
  shows "\<exists>e. expand_unknown stmt = Some e \<and> y = (Inr e, s)"
proof -
  let ?P = "\<lambda>(env::pgs_env) (stmt::string) s (y :: (pgsException + string) \<times> pgs_state).
    no_vars s \<longrightarrow> (\<exists>e. expand_unknown stmt = Some e \<and> y = (Inr e, s))"
  have "?P env stmt s y"
  proof (rule expand_vars.raw_induct[where P = ?P, OF _ assms(1)])
    fix f :: "pgs_env \<Rightarrow> string \<Rightarrow> pgs_state \<Rightarrow> ((pgsException + string) \<times> pgs_state) option"
      and env stmt s y
    assume IH: "\<And>env stmt s y. f env stmt s = Some y \<Longrightarrow> ?P env stmt s y"
      and step: "(case find_identifier stmt of
        None \<Rightarrow> ret stmt s
      | Some (before, chr, var, after) \<Rightarrow>
          (case ps_vars s var of
             Some v \<Rightarrow>
               bind_prog (var_value env v) (\<lambda>res.
                 f env (before @ expand_groups (match_groups chr var) (chr # escape_quotes res) @ after)) s
           | None \<Rightarrow>
               f env (before @ expand_groups (match_groups chr var)
                 (chr # back_slash # back_slash # var) @ after) s)) = Some y"
    show "?P env stmt s y"
    proof
      assume v: "no_vars s"
      show "\<exists>e. expand_unknown stmt = Some e \<and> y = (Inr e, s)"
      proof (cases "find_identifier stmt")
        case None
        then show ?thesis using step by (simp add: ret_def expand_unknown.simps[of stmt])
      next
        case (Some p)
        obtain a c n z where p: "p = (a, c, n, z)" by (cases p)
        then have "f env (a @ expand_groups (match_groups c n) (c # back_slash # back_slash # n) @ z) s = Some y"
          using step Some v by (simp add: no_vars_def)
        then show ?thesis using IH v Some p by (subst expand_unknown.simps) fastforce
      qed
    qed
  qed
  then show ?thesis using assms(2) by simp
qed

lemma expand_no_vars_ge:
  assumes "expand_unknown stmt = Some e" "no_vars s"
  shows "expand_vars env stmt s = Some (Inr e, s)"
proof -
  have "no_vars s \<longrightarrow> expand_vars env stmt s = Some (Inr e, s)"
  proof (rule expand_unknown.raw_induct[where P = "\<lambda>stmt e. no_vars s \<longrightarrow> expand_vars env stmt s = Some (Inr e, s)",
        OF _ assms(1)])
    fix f :: "string \<Rightarrow> string option" and stmt e
    assume IH: "\<And>stmt e. f stmt = Some e \<Longrightarrow> no_vars s \<longrightarrow> expand_vars env stmt s = Some (Inr e, s)"
      and "(case find_identifier stmt of None \<Rightarrow> Some stmt
        | Some (before, chr, var, after) \<Rightarrow>
            f (before @ expand_groups (match_groups chr var) (chr # back_slash # back_slash # var) @ after)) = Some e"
    then show "no_vars s \<longrightarrow> expand_vars env stmt s = Some (Inr e, s)"
      by (subst expand_vars.simps) (auto simp: ret_def no_vars_def split: option.splits)
  qed
  then show ?thesis using assms(2) by simp
qed

theorem own_query_is_execute:
  assumes "ps_vars s = (\<lambda>_. None)"
  shows "execute_eval env False query s = own_query env query s"
proof (cases "expand_unknown query")
  case None
  then have "expand_vars env query s = None"
    using expand_no_vars_le[of env query s] assms by (cases "expand_vars env query s") (auto simp: no_vars_def)
  then show ?thesis using None by (simp add: execute_eval_def own_query_def bind_prog_def never_def)
next
  case (Some e)
  then show ?thesis
    using expand_no_vars_ge[OF Some, of s env] assms
    by (simp add: execute_eval_def own_query_def bind_prog_def no_vars_def)
qed

section \<open>Every row once\<close>

lemma reference_draws:
  "rf_randomizer g = r \<Longrightarrow> draws reference_query n g =
     map_option (\<lambda>(xs, r). (map (\<lambda>i. row_query g (int_text i)) xs, g\<lparr>rf_randomizer := r\<rparr>)) (draws int_gen_value n r)"
proof -
  have "draws reference_query n (g\<lparr>rf_randomizer := r\<rparr>) =
      map_option (\<lambda>(xs, r). (map (\<lambda>i. row_query g (int_text i)) xs, g\<lparr>rf_randomizer := r\<rparr>)) (draws int_gen_value n r)" for r
    by (rule draws_map)
      (simp add: reference_query_def int_gen_random_def row_query_def option.map_comp comp_def case_prod_beta' str_of_int)
  from this[of r] show "rf_randomizer g = r \<Longrightarrow> ?thesis" by auto
qed

text \<open>C38. A sequential generator of references asks for every row of its table once in each period, in some
  order, if its seed is not negative: over \<open>k\<close> periods every one of the \<open>nb_rows\<close> queries is run exactly
  \<open>k\<close> times.\<close>

theorem reference_rows:
  assumes "0 \<le> seed" "0 < nb_rows"
  shows "let g = pgsReferenceGen table column True seed nb_rows in
    \<exists>out h. draws reference_query (k * nat nb_rows) g = Some (out, h)
      \<and> mset out = repeat_mset k (image_mset (\<lambda>i. row_query g (int_text i)) (mset_set {0..<nb_rows}))"
proof -
  let ?g = "pgsReferenceGen table column True seed nb_rows"
  have s: "0 \<le> object_seed seed" using assms(1) by (simp add: object_seed_def)
  have n: "nat (max 0 (nb_rows - 1) - min 0 (nb_rows - 1) + 1) = nat nb_rows"
    "{min 0 (nb_rows - 1)..max 0 (nb_rows - 1)} = {0..<nb_rows}"
    using assms(2) by auto
  obtain out h where o: "draws int_gen_value (k * nat nb_rows) (pgsIntegerGen 0 (nb_rows - 1) True (object_seed seed)) = Some (out, h)"
    "mset out = repeat_mset k (mset_set {0..<nb_rows})"
    using ig.periods[OF int_start_new[OF s], of k 0 "nb_rows - 1"] unfolding n by blast
  have "rf_randomizer ?g = pgsIntegerGen 0 (nb_rows - 1) True (object_seed seed)" by (simp add: pgsReferenceGen_def)
  from reference_draws[OF this] show ?thesis
    using o by (auto simp: Let_def image_repeat)
qed

theorem reference_rows_witness:
  "\<exists>out h. draws reference_query (2 * nat 3) (pgsReferenceGen ''t'' ''c'' True 7 3) = Some (out, h)
    \<and> mset out = repeat_mset 2 (image_mset (\<lambda>i. row_query (pgsReferenceGen ''t'' ''c'' True 7 3) (int_text i)) (mset_set {0..<3}))"
  using reference_rows[of 7 3 "''t''" "''c''" 2] by (simp add: Let_def)

section \<open>A table without rows\<close>

text \<open>A query that ends at some time is waited for.\<close>

lemma wait_query_ends:
  assumes "\<And>n. \<not> env_destroyed env n" "ps_tests u \<le> m" "\<not> env_running env (Suc m)"
  shows "\<exists>k. wait_query env u = Some (Inr (), u\<lparr>ps_tests := k\<rparr>)"
  using assms(2)
proof (induction "m - ps_tests u" arbitrary: u)
  case 0
  then show ?case
    using assms(1,3) by (subst wait_query.simps) (auto simp: bind_prog_def test_destroy_def reads_def ret_def)
next
  case (Suc d)
  let ?u = "u\<lparr>ps_tests := Suc (ps_tests u)\<rparr>"
  from Suc.hyps(2) have "d = m - ps_tests ?u" "ps_tests ?u \<le> m" by auto
  from Suc.hyps(1)[OF this] obtain k where "wait_query env ?u = Some (Inr (), u\<lparr>ps_tests := k\<rparr>)" by auto
  then show ?case
    using assms(1) by (subst wait_query.simps) (auto simp: bind_prog_def test_destroy_def reads_def ret_def)
qed

text \<open>What a query without rows gives to an expression: a record that is not true.\<close>

lemma no_rows:
  assumes "env_connected env" "env_thread_ok env" "\<And>n. \<not> env_destroyed env n"
    and "\<And>n. \<exists>m\<ge>n. \<not> env_running env m"
    and "\<And>n. env_query env n q = \<lparr>qr_ok = True, qr_messages = msgs, qr_set = Some ([column], [])\<rparr>"
    and "CHR ''@'' \<notin> set q" "back_slash \<notin> set q"
  shows "\<exists>r u. execute_eval env False q s = Some (Inr (RecordVar r), u) \<and> m_record r = []"
proof -
  obtain n ty where n: "column = (n, ty)" by (cases column)
  let ?r = "snd (set_column_name 0 n (new_record 1))"
  have r: "load_set [column] [] = Some ?r" by (simp add: load_set_def n)
  have z: "m_record ?r = []" by (simp add: set_column_name_def new_record_def Let_def)
  let ?u = "s\<lparr>ps_tests := Suc (ps_tests s), ps_queries := Suc (ps_queries s)\<rparr>"
  from assms(4)[of "Suc (ps_tests ?u)"] obtain m where m: "Suc (ps_tests ?u) \<le> m" "\<not> env_running env m" by blast
  then have "ps_tests ?u \<le> m - 1" "\<not> env_running env (Suc (m - 1))" by auto
  from wait_query_ends[OF assms(3) this] obtain k where
    "wait_query env ?u = Some (Inr (), ?u\<lparr>ps_tests := k\<rparr>)" by blast
  then have "\<exists>u. execute_eval env False q s = Some (Inr (RecordVar ?r), u)"
    using assms(1-3) by (simp add: execute_eval_def expand_vars.simps[of env q] find_plain[OF assms(6)]
        unescape_id[OF assms(7)] execute_stmt_def Let_def run_query_def
        bind_prog_def ret_def test_destroy_def reads_def modifies_def assms(5) report_def do_when_def r)
  then show ?thesis using z by blast
qed

text \<open>C39. Whether a table exists is asked by selecting its rows. Whatever the operands are that give the names
  of table and column, and two integers, when the query of these rows succeeds and finds none the generator is
  refused with the message that table or column do not exist. The names have no \<open>@\<close> and no back slash, which
  have a meaning within a query; the script is not stopped, and the query ends at some time.\<close>

theorem empty_table_refused:
  assumes "eval env et s = Some (Inr (Scalar (PgsString t)), s1)"
    and "eval env ec s1 = Some (Inr (Scalar (PgsString c)), s2)"
    and "eval env eq s2 = Some (Inr (Scalar (PgsNumber False i)), s3)"
    and "eval env es s3 = Some (Inr (Scalar (PgsNumber False j)), s4)"
    and "t \<noteq> []" "c \<noteq> []" "CHR ''@'' \<notin> set t \<union> set c" "back_slash \<notin> set t \<union> set c"
    and "env_connected env" "env_thread_ok env" "\<And>n. \<not> env_destroyed env n"
    and "\<And>n. \<exists>m\<ge>n. \<not> env_running env m"
    and "\<And>n. env_query env n (''SELECT 1 FROM '' @ t @ '' WHERE '' @ c @ '' = '' @ c) =
      \<lparr>qr_ok = True, qr_messages = msgs, qr_set = Some ([column], [])\<rparr>"
  shows "\<exists>u. eval env (pgsGenReference et ec eq es) s
    = Some (Inl (pgsParameterException
        (''reference[ table = '' @ expr_value et @ '' column = '' @ expr_value ec @
         '' sequence = '' @ expr_value eq @ '' seed = '' @ expr_value es @ '' ]:'' @ [newline_char] @
         ''table/column does not exist'')), u)"
proof -
  let ?q = "''SELECT 1 FROM '' @ t @ '' WHERE '' @ c @ '' = '' @ c"
  have "CHR ''@'' \<notin> set ?q" "back_slash \<notin> set ?q"
    using assms(7,8) by (auto simp: back_slash_def)
  from no_rows[OF assms(9-13) this] obtain r u where
    u: "execute_eval env False ?q s4 = Some (Inr (RecordVar r), u)" "m_record r = []" by blast
  have "pgs_is_true env (RecordVar r) = ret False"
    using u(2) by (simp add: pgs_is_true_def dispatch_def record_is_true_def count_lines_def)
  then show ?thesis
    using u(1) assms(1-6) by (simp add: gen_reference_eval_def check_query_def nonempty_string_def bad_parameter_def
        type_tests prog_simps bind_prog_def throw_apply ret_def throw_def)
qed

theorem empty_table_refused_witness:
  "\<exists>e t. eval (\<lparr>env_now = 0, env_connected = True, env_thread_ok = True, env_destroyed = (\<lambda>_. False),
      env_running = (\<lambda>n. n < 5),
      env_query = (\<lambda>n q. if q = ''SELECT 1 FROM public.t WHERE id = id''
        then \<lparr>qr_ok = True, qr_messages = [], qr_set = Some ([(''?column?'', ''integer'')], [])\<rparr>
        else \<lparr>qr_ok = False, qr_messages = ''ERROR'', qr_set = None\<rparr>),
      env_unset = 0, env_gens = undefined\<rparr>)
    (pgsGenReference (pgsIdent ''@T'') (Literal (PgsString ''id''))
      (Literal (PgsNumber False ''0'')) (Literal (PgsNumber False ''1'')))
    ((state_with [])\<lparr>ps_vars := [''@T'' \<mapsto> Scalar (PgsString ''public.t'')]\<rparr>) =
      Some (Inl (pgsParameterException e), t)"
proof -
  let ?env = "\<lparr>env_now = 0, env_connected = True, env_thread_ok = True, env_destroyed = (\<lambda>_. False),
      env_running = (\<lambda>n. n < 5),
      env_query = (\<lambda>n q. if q = ''SELECT 1 FROM public.t WHERE id = id''
        then \<lparr>qr_ok = True, qr_messages = [], qr_set = Some ([(''?column?'', ''integer'')], [])\<rparr>
        else \<lparr>qr_ok = False, qr_messages = ''ERROR'', qr_set = None\<rparr>),
      env_unset = 0, env_gens = undefined\<rparr> :: pgs_env"
  let ?s = "(state_with [])\<lparr>ps_vars := [''@T'' \<mapsto> Scalar (PgsString ''public.t'')]\<rparr>"
  have r: "\<exists>m\<ge>n. \<not> env_running ?env m" for n by (rule exI[of _ "n + 5"]) simp
  show ?thesis
    using empty_table_refused[of ?env "pgsIdent ''@T''" ?s "''public.t''" ?s "Literal (PgsString ''id'')" "''id''" ?s
        "Literal (PgsNumber False ''0'')" "''0''" ?s "Literal (PgsNumber False ''1'')" "''1''" ?s "[]"
        "(''?column?'', ''integer'')", OF _ _ _ _ _ _ _ _ _ _ _ r]
    by (simp add: ident_eval_def prog_simps back_slash_def ret_def reads_def bind_prog_def) blast
qed

end
