(* ===== verification/ParserActions.thy ===== *)
theory ParserActions
  imports PgsStmt
begin

text \<open>
  What the rules of the grammar do: \<open>utilities/pgsContext.cpp\<close> and the actions of \<open>pgsParser.yy\<close>, which
  are the cases of \<open>pgsParser::parse\<close> in \<open>pgscript/parser.tab.cc\<close>. Objects on the heap are numbered in
  the order of their allocation; a pointer is the number of its object with what the object holds.
  \<open>pgsContext\<close> keeps the pointers of the objects under construction, so that an error can delete them.
  What would be undefined in C++ has no result: reading another member of the union than the one
  written, reading or deleting an object that has been deleted, taking from an empty list.
  The rule of the whole input runs the program, \<open>driver.program.eval\<close>, within the parser;
  \<open>unit_action\<close> records the program in \<open>cx_program\<close> instead, and \<open>PgsApp\<close> runs it (\<open>parse_string\<close>). So
  what is said of the time and the memory that parsing takes does not speak of that run.
\<close>

section \<open>The context\<close>

record pgsContext =
  cx_vars :: "nat list"  \<comment> \<open>\<open>m_vars\<close>, the last one first\<close>
  cx_stmts :: "nat list"
  cx_columns :: "string list"
  cx_next :: nat  \<comment> \<open>the number of the next object\<close>
  cx_deleted :: "nat list"
  cx_program :: "(int \<times> stmt) list option"  \<comment> \<open>what \<open>driver.program.eval\<close> was given\<close>

definition new_context :: pgsContext where
  "new_context = \<lparr>cx_vars = [], cx_stmts = [], cx_columns = [], cx_next = 0, cx_deleted = [], cx_program = None\<rparr>"

type_synonym 'a act = "(pgsContext, unit, 'a) prog"

text \<open>The semantic value: a union of pointers and an integer, tagged with the member last written.\<close>

datatype sem =
    Unset
  | Str nat string
  | Integer int
  | Exp nat expr
  | Stm nat int stmt  \<comment> \<open>with \<open>m_line\<close>\<close>
  | Lst nat "(int \<times> stmt) list"

text \<open>What the parser takes from its surroundings: the clock, by the number of the object that keeps the
  time, and the name of the system's encoding.\<close>

record parser_env =
  pe_now :: "nat \<Rightarrow> int"
  pe_encoding :: string

definition allocate :: "nat act" where
  "allocate cx = Some (Inr (cx_next cx), cx\<lparr>cx_next := Suc (cx_next cx)\<rparr>)"

definition is_live :: "nat \<Rightarrow> pgsContext \<Rightarrow> bool" where
  "is_live i cx \<longleftrightarrow> i < cx_next cx \<and> i \<notin> set (cx_deleted cx)"

definition pdelete :: "nat \<Rightarrow> unit act" where
  "pdelete i cx = (if is_live i cx then Some (Inr (), cx\<lparr>cx_deleted := i # cx_deleted cx\<rparr>) else None)"

definition push_var :: "nat \<Rightarrow> unit act" where
  "push_var i = modifies (\<lambda>cx. cx\<lparr>cx_vars := i # cx_vars cx\<rparr>)"

definition pop_var :: "unit act" where
  "pop_var cx = (case cx_vars cx of [] \<Rightarrow> None | i # is \<Rightarrow> Some (Inr (), cx\<lparr>cx_vars := is\<rparr>))"

definition push_stmt :: "nat \<Rightarrow> unit act" where
  "push_stmt i = modifies (\<lambda>cx. cx\<lparr>cx_stmts := i # cx_stmts cx\<rparr>)"

definition pop_stmt :: "unit act" where
  "pop_stmt cx = (case cx_stmts cx of [] \<Rightarrow> None | i # is \<Rightarrow> Some (Inr (), cx\<lparr>cx_stmts := is\<rparr>))"

primrec pop_vars :: "nat \<Rightarrow> unit act" where
  "pop_vars 0 = ret ()"
| "pop_vars (Suc n) = bind_prog pop_var (\<lambda>_. pop_vars n)"

text \<open>\<open>zero\<close>, \<open>one\<close>, \<open>seed\<close> and \<open>encoding\<close> leave their object on the list.\<close>

definition stacked :: "(nat \<Rightarrow> expr) \<Rightarrow> expr act" where
  "stacked e = bind_prog allocate (\<lambda>i. bind_prog (push_var i) (\<lambda>_. ret (e i)))"

definition ctx_zero :: "expr act" where
  "ctx_zero = stacked (\<lambda>i. Literal (mk_number False ''0''))"

definition ctx_one :: "expr act" where
  "ctx_one = stacked (\<lambda>i. Literal (mk_number False ''1''))"

definition ctx_seed :: "parser_env \<Rightarrow> expr act" where
  "ctx_seed E = stacked (\<lambda>i. Literal (mk_number False (int_text (pe_now E i))))"

definition ctx_encoding :: "parser_env \<Rightarrow> expr act" where
  "ctx_encoding E = stacked (\<lambda>i. Literal (PgsString (pe_encoding E)))"

definition ctx_stmt_list :: "nat act" where
  "ctx_stmt_list = bind_prog allocate (\<lambda>i. bind_prog (push_stmt i) (\<lambda>_. ret i))"

definition add_column :: "string \<Rightarrow> unit act" where
  "add_column c = modifies (\<lambda>cx. cx\<lparr>cx_columns := cx_columns cx @ [c]\<rparr>)"

definition clear_columns :: "unit act" where
  "clear_columns = modifies (\<lambda>cx. cx\<lparr>cx_columns := []\<rparr>)"

primrec delete_all :: "nat list \<Rightarrow> unit act" where
  "delete_all [] = ret ()"
| "delete_all (i # is) = bind_prog (pdelete i) (\<lambda>_. delete_all is)"

definition clear_stacks :: "unit act" where
  "clear_stacks =
     bind_prog (reads cx_vars) (\<lambda>vs. bind_prog (delete_all vs) (\<lambda>_.
     bind_prog (reads cx_stmts) (\<lambda>ss. bind_prog (delete_all ss) (\<lambda>_.
     modifies (\<lambda>cx. cx\<lparr>cx_vars := [], cx_stmts := []\<rparr>)))))"

section \<open>Reading the union\<close>

text \<open>\<open>arg vs k\<close> is \<open>$k\<close>.\<close>

definition arg :: "sem list \<Rightarrow> nat \<Rightarrow> sem" where
  "arg vs k = vs ! (k - 1)"

fun str_of :: "sem \<Rightarrow> string act" where
  "str_of (Str i s) = bind_prog (reads (is_live i)) (\<lambda>b. if b then ret s else never)"
| "str_of _ = never"

fun delete_str :: "sem \<Rightarrow> unit act" where
  "delete_str (Str i s) = pdelete i"
| "delete_str _ = never"

fun integer_of :: "sem \<Rightarrow> int act" where
  "integer_of (Integer n) = ret n"
| "integer_of _ = never"

fun expr_of :: "sem \<Rightarrow> expr act" where
  "expr_of (Exp i e) = ret e"
| "expr_of _ = never"

fun stmt_of :: "sem \<Rightarrow> (int \<times> stmt) act" where
  "stmt_of (Stm i line st) = ret (line, st)"
| "stmt_of _ = never"

fun list_of_sem :: "sem \<Rightarrow> (nat \<times> (int \<times> stmt) list) act" where
  "list_of_sem (Lst i ls) = ret (i, ls)"
| "list_of_sem _ = never"

text \<open>A string is read and then deleted.\<close>

definition take_str :: "sem \<Rightarrow> string act" where
  "take_str v = bind_prog (str_of v) (\<lambda>s. bind_prog (delete_str v) (\<lambda>_. ret s))"

text \<open>A statement list used as a statement; the line of a list is never set.\<close>

definition as_stmt :: "sem \<Rightarrow> sem act" where
  "as_stmt v = bind_prog (list_of_sem v) (\<lambda>(i, ls). ret (Stm i 0 (pgsStmtList ls)))"

text \<open>\<open>$$ = pnew ...; pop_var() ...; push_var($$)\<close>, and the same for statements.\<close>

definition build_expr :: "nat \<Rightarrow> expr \<Rightarrow> sem act" where
  "build_expr n e =
     bind_prog allocate (\<lambda>i. bind_prog (pop_vars n) (\<lambda>_. bind_prog (push_var i) (\<lambda>_. ret (Exp i e))))"

definition build_stmt :: "nat \<Rightarrow> int \<Rightarrow> stmt \<Rightarrow> sem act" where
  "build_stmt n line st =
     bind_prog allocate (\<lambda>i. bind_prog (pop_vars n) (\<lambda>_. bind_prog (push_stmt i) (\<lambda>_. ret (Stm i line st))))"

section \<open>Expressions\<close>

definition binary_action :: "(expr \<Rightarrow> expr \<Rightarrow> expr) \<Rightarrow> sem list \<Rightarrow> sem act" where
  "binary_action f vs =
     bind_prog (expr_of (arg vs 1)) (\<lambda>l. bind_prog (expr_of (arg vs 3)) (\<lambda>r. build_expr 2 (f l r)))"

definition unary_action :: "(expr \<Rightarrow> expr) \<Rightarrow> sem \<Rightarrow> sem act" where
  "unary_action f v = bind_prog (expr_of v) (\<lambda>e. build_expr 1 (f e))"

definition word_action :: "(string \<Rightarrow> expr) \<Rightarrow> sem \<Rightarrow> sem act" where
  "word_action f v = bind_prog (take_str v) (\<lambda>s. build_expr 0 (f s))"

definition postfix_action :: "int \<Rightarrow> sem list \<Rightarrow> sem act" where
  "postfix_action yyn vs =
     (if yyn = 2 then
        bind_prog (expr_of (arg vs 3)) (\<lambda>l. bind_prog (expr_of (arg vs 6)) (\<lambda>c.
        bind_prog (take_str (arg vs 1)) (\<lambda>n. build_expr 2 (pgsIdentRecord n l (Some c)))))
      else if yyn = 3 then
        bind_prog (expr_of (arg vs 3)) (\<lambda>l.
        bind_prog (take_str (arg vs 1)) (\<lambda>n. build_expr 1 (pgsIdentRecord n l None)))
      else if yyn = 4 then word_action pgsLines (arg vs 3)
      else if yyn = 5 then word_action pgsColumns (arg vs 3)
      else if yyn = 6 then unary_action pgsTrim (arg vs 3)
      else if yyn = 7 then word_action pgsIdent (arg vs 1)
      else if yyn = 8 then word_action (\<lambda>d. Literal (mk_number False d)) (arg vs 1)
      else if yyn = 9 then word_action (\<lambda>d. Literal (mk_number True d)) (arg vs 1)
      else if yyn = 10 then word_action (\<lambda>s. Literal (PgsString s)) (arg vs 1)
      else if yyn = 11 then word_action pgsExecute (arg vs 2)
      else if yyn = 12 then ret (arg vs 1)
      else unary_action pgsParenthesis (arg vs 2))"

text \<open>The integer of a type name is the number of its token.\<close>

definition PGS_RECORD :: int where "PGS_RECORD = 276"
definition PGS_INTEGER :: int where "PGS_INTEGER = 277"
definition PGS_REAL :: int where "PGS_REAL = 278"
definition PGS_STRING :: int where "PGS_STRING = 279"

definition cast_of :: "int \<Rightarrow> cast_type act" where
  "cast_of t =
     (if t = PGS_INTEGER then ret CastInteger
      else if t = PGS_REAL then ret CastReal
      else if t = PGS_RECORD then ret CastRecord
      else if t = PGS_STRING then ret CastString
      else never)"

definition unary_cast_action :: "int \<Rightarrow> sem list \<Rightarrow> sem act" where
  "unary_cast_action yyn vs =
     (if yyn = 14 then ret (arg vs 1)
      else if yyn = 15 then ret (arg vs 2)
      else if yyn = 16 then unary_action pgsNegate (arg vs 2)
      else if yyn = 17 then unary_action pgsNot (arg vs 2)
      else if yyn = 18 then ret (arg vs 1)
      else if yyn = 19 then
        bind_prog (integer_of (arg vs 5)) (\<lambda>n. bind_prog (cast_of n) (\<lambda>t. unary_action (pgsCast t) (arg vs 3)))
      else if yyn = 20 then ret (Integer PGS_INTEGER)
      else if yyn = 21 then ret (Integer PGS_REAL)
      else if yyn = 22 then ret (Integer PGS_STRING)
      else ret (Integer PGS_RECORD))"

definition operator_action :: "int \<Rightarrow> sem list \<Rightarrow> sem act" where
  "operator_action yyn vs =
     (if yyn = 24 then ret (arg vs 1)
      else if yyn = 25 then binary_action (Binary pgsTimes) vs
      else if yyn = 26 then binary_action (Binary pgsOver) vs
      else if yyn = 27 then binary_action (Binary pgsModulo) vs
      else if yyn = 28 then ret (arg vs 1)
      else if yyn = 29 then binary_action (Binary pgsPlus) vs
      else if yyn = 30 then binary_action (Binary pgsMinus) vs
      else if yyn = 31 then ret (arg vs 1)
      else if yyn = 32 then binary_action (Binary pgsLower) vs
      else if yyn = 33 then binary_action (Binary pgsGreater) vs
      else if yyn = 34 then binary_action (Binary pgsLowerEqual) vs
      else if yyn = 35 then binary_action (Binary pgsGreaterEqual) vs
      else if yyn = 36 then ret (arg vs 1)
      else if yyn = 37 then binary_action (Binary (pgsEqual True)) vs
      else if yyn = 38 then binary_action (Binary (pgsEqual False)) vs
      else if yyn = 39 then binary_action (Binary pgsDifferent) vs
      else if yyn = 40 then ret (arg vs 1)
      else if yyn = 41 then binary_action pgsAnd vs
      else if yyn = 42 then ret (arg vs 1)
      else if yyn = 43 then binary_action pgsOr vs
      else ret (arg vs 1))"

section \<open>Random generators\<close>

text \<open>A generator with \<open>given\<close> operands, \<open>$3\<close>, \<open>$5\<close> and so on, and defaults for the rest.\<close>

definition generator :: "(expr list \<Rightarrow> expr) \<Rightarrow> nat \<Rightarrow> expr act list \<Rightarrow> sem list \<Rightarrow> sem act" where
  "generator mk given defaults vs =
     bind_prog (map_prog (\<lambda>i. expr_of (arg vs (2 * i + 3))) [0..<given]) (\<lambda>es.
     bind_prog (map_prog (\<lambda>m. m) defaults) (\<lambda>ds.
       build_expr (given + length defaults) (mk (es @ ds))))"

definition args2 :: "(expr \<Rightarrow> expr \<Rightarrow> expr) \<Rightarrow> expr list \<Rightarrow> expr" where
  "args2 f es = f (es ! 0) (es ! 1)"

definition args4 :: "(expr \<Rightarrow> expr \<Rightarrow> expr \<Rightarrow> expr \<Rightarrow> expr) \<Rightarrow> expr list \<Rightarrow> expr" where
  "args4 f es = f (es ! 0) (es ! 1) (es ! 2) (es ! 3)"

definition args5 :: "(expr \<Rightarrow> expr \<Rightarrow> expr \<Rightarrow> expr \<Rightarrow> expr \<Rightarrow> expr) \<Rightarrow> expr list \<Rightarrow> expr" where
  "args5 f es = f (es ! 0) (es ! 1) (es ! 2) (es ! 3) (es ! 4)"

definition number_gen_action :: "parser_env \<Rightarrow> int \<Rightarrow> sem list \<Rightarrow> sem act" where
  "number_gen_action E yyn =
     (if yyn = 45 then generator (args4 pgsGenInt) 2 [ctx_zero, ctx_seed E]
      else if yyn = 46 then generator (args4 pgsGenInt) 3 [ctx_seed E]
      else if yyn = 47 then generator (args4 pgsGenInt) 4 []
      else if yyn = 48 then generator (args5 pgsGenReal) 3 [ctx_zero, ctx_seed E]
      else if yyn = 49 then generator (args5 pgsGenReal) 4 [ctx_seed E]
      else generator (args5 pgsGenReal) 5 [])"

definition text_gen_action :: "parser_env \<Rightarrow> int \<Rightarrow> sem list \<Rightarrow> sem act" where
  "text_gen_action E yyn =
     (if yyn = 51 then generator (args4 pgsGenString) 2 [ctx_one, ctx_seed E]
      else if yyn = 52 then generator (args4 pgsGenString) 3 [ctx_seed E]
      else if yyn = 53 then generator (args4 pgsGenString) 4 []
      else if yyn = 54 then generator (args2 pgsGenRegex) 1 [ctx_seed E]
      else if yyn = 55 then generator (args2 pgsGenRegex) 2 []
      else if yyn = 56 then generator (args4 pgsGenDictionary) 1 [ctx_zero, ctx_seed E, ctx_encoding E]
      else if yyn = 57 then generator (args4 pgsGenDictionary) 2 [ctx_seed E, ctx_encoding E]
      else if yyn = 58 then generator (args4 pgsGenDictionary) 3 [ctx_encoding E]
      else generator (args4 pgsGenDictionary) 4 [])"

definition instant_gen_action :: "parser_env \<Rightarrow> int \<Rightarrow> sem list \<Rightarrow> sem act" where
  "instant_gen_action E yyn =
     (if yyn = 60 then generator (args4 pgsGenDate) 2 [ctx_zero, ctx_seed E]
      else if yyn = 61 then generator (args4 pgsGenDate) 3 [ctx_seed E]
      else if yyn = 62 then generator (args4 pgsGenDate) 4 []
      else if yyn = 63 then generator (args4 pgsGenTime) 2 [ctx_zero, ctx_seed E]
      else if yyn = 64 then generator (args4 pgsGenTime) 3 [ctx_seed E]
      else if yyn = 65 then generator (args4 pgsGenTime) 4 []
      else if yyn = 66 then generator (args4 pgsGenDateTime) 2 [ctx_zero, ctx_seed E]
      else if yyn = 67 then generator (args4 pgsGenDateTime) 3 [ctx_seed E]
      else generator (args4 pgsGenDateTime) 4 [])"

definition reference_gen_action :: "parser_env \<Rightarrow> int \<Rightarrow> sem list \<Rightarrow> sem act" where
  "reference_gen_action E yyn =
     (if yyn = 69 then generator (args4 pgsGenReference) 2 [ctx_zero, ctx_seed E]
      else if yyn = 70 then generator (args4 pgsGenReference) 3 [ctx_seed E]
      else generator (args4 pgsGenReference) 4 [])"

section \<open>Statements\<close>

text \<open>\<open>pop_stmt()\<close> of the new element, then \<open>insert_back\<close> into a new list, or into \<open>$1\<close>.\<close>

definition first_action :: "sem \<Rightarrow> sem act" where
  "first_action v =
     bind_prog pop_stmt (\<lambda>_. bind_prog ctx_stmt_list (\<lambda>i. bind_prog (stmt_of v) (\<lambda>st. ret (Lst i [st]))))"

definition append_action :: "sem \<Rightarrow> sem \<Rightarrow> sem act" where
  "append_action l v =
     bind_prog pop_stmt (\<lambda>_. bind_prog (list_of_sem l) (\<lambda>(i, ls). bind_prog (stmt_of v) (\<lambda>st. ret (Lst i (ls @ [st])))))"

definition list_action :: "int \<Rightarrow> int \<Rightarrow> sem list \<Rightarrow> sem act" where
  "list_action line yyn vs =
     (if yyn = 80 then first_action (arg vs 1)
      else if yyn = 81 then append_action (arg vs 1) (arg vs 2)
      else if yyn = 82 then bind_prog ctx_stmt_list (\<lambda>i. ret (Stm i 0 (pgsStmtList [])))
      else if yyn = 83 then as_stmt (arg vs 2)
      else if yyn = 84 then
        bind_prog (expr_of (arg vs 1)) (\<lambda>e. build_stmt 1 line (pgsExpressionStmt e))
      else word_action pgsExecute (arg vs 1))"

definition declaration_action :: "int \<Rightarrow> int \<Rightarrow> sem list \<Rightarrow> sem act" where
  "declaration_action line yyn vs =
     (if yyn = 130 then as_stmt (arg vs 2)
      else if yyn = 131 then first_action (arg vs 1)
      else if yyn = 132 then append_action (arg vs 1) (arg vs 3)
      else if yyn = 133 then
        bind_prog (take_str (arg vs 1)) (\<lambda>n.
          build_stmt 0 line (pgsExpressionStmt (pgsAssign n (Literal (PgsString [])))))
      else
        bind_prog (take_str (arg vs 1)) (\<lambda>n. bind_prog (reads cx_columns) (\<lambda>cs.
        bind_prog clear_columns (\<lambda>_. build_stmt 0 line (pgsDeclareRecordStmt n cs)))))"

definition assign_action :: "int \<Rightarrow> int \<Rightarrow> sem list \<Rightarrow> sem act" where
  "assign_action line yyn vs =
     (if yyn = 135 then as_stmt (arg vs 2)
      else if yyn = 136 then first_action (arg vs 1)
      else if yyn = 137 then append_action (arg vs 1) (arg vs 3)
      else if yyn = 139 then
        bind_prog (expr_of (arg vs 3)) (\<lambda>l. bind_prog (expr_of (arg vs 6)) (\<lambda>c. bind_prog (expr_of (arg vs 9)) (\<lambda>e.
        bind_prog (take_str (arg vs 1)) (\<lambda>n.
          build_stmt 3 line (pgsExpressionStmt (pgsAssignToRecord n l c e))))))
      else
        bind_prog (expr_of (arg vs 3)) (\<lambda>e. bind_prog (take_str (arg vs 1)) (\<lambda>n.
          build_stmt 1 line (pgsExpressionStmt (pgsAssign n e)))))"

definition control_action :: "int \<Rightarrow> int \<Rightarrow> sem list \<Rightarrow> sem act" where
  "control_action line yyn vs =
     (if yyn = 141 then
        bind_prog (expr_of (arg vs 2)) (\<lambda>e. bind_prog (stmt_of (arg vs 3)) (\<lambda>st.
        bind_prog ctx_stmt_list (\<lambda>_. bind_prog allocate (\<lambda>i.
        bind_prog pop_var (\<lambda>_. bind_prog pop_stmt (\<lambda>_. bind_prog pop_stmt (\<lambda>_. bind_prog (push_stmt i) (\<lambda>_.
          ret (Stm i line (pgsIfStmt e (snd st) (pgsStmtList [])))))))))))
      else if yyn = 142 then
        bind_prog (expr_of (arg vs 2)) (\<lambda>e. bind_prog (stmt_of (arg vs 3)) (\<lambda>st. bind_prog (stmt_of (arg vs 5)) (\<lambda>st'.
        bind_prog allocate (\<lambda>i.
        bind_prog pop_var (\<lambda>_. bind_prog pop_stmt (\<lambda>_. bind_prog pop_stmt (\<lambda>_. bind_prog (push_stmt i) (\<lambda>_.
          ret (Stm i line (pgsIfStmt e (snd st) (snd st')))))))))))
      else if yyn = 143 then
        bind_prog (expr_of (arg vs 2)) (\<lambda>e. bind_prog (stmt_of (arg vs 3)) (\<lambda>st. bind_prog allocate (\<lambda>i.
        bind_prog pop_var (\<lambda>_. bind_prog pop_stmt (\<lambda>_. bind_prog (push_stmt i) (\<lambda>_.
          ret (Stm i line (pgsWhileStmt e (snd st)))))))))
      else if yyn = 144 then build_stmt 0 line pgsBreakStmt
      else if yyn = 145 then build_stmt 0 line pgsBreakStmt
      else build_stmt 0 line pgsContinueStmt)"

definition procedure_action :: "int \<Rightarrow> int \<Rightarrow> sem list \<Rightarrow> sem act" where
  "procedure_action line yyn vs =
     (if yyn = 147 then bind_prog (expr_of (arg vs 2)) (\<lambda>e. build_stmt 1 line (pgsPrintStmt e))
      else if yyn = 148 then bind_prog (expr_of (arg vs 2)) (\<lambda>e. build_stmt 1 line (pgsAssertStmt e))
      else
        bind_prog (expr_of (arg vs 5)) (\<lambda>e. bind_prog (take_str (arg vs 3)) (\<lambda>n.
          build_stmt 1 line (pgsExpressionStmt (pgsRemoveLine n e)))))"

definition column_action :: "sem \<Rightarrow> unit act" where
  "column_action v = bind_prog (take_str v) add_column"

text \<open>\<open>driver.program.eval($1)\<close>, then the root is deleted.\<close>

definition unit_action :: "sem \<Rightarrow> unit act" where
  "unit_action v =
     bind_prog (list_of_sem v) (\<lambda>(i, ls).
     bind_prog (modifies (\<lambda>cx. cx\<lparr>cx_program := Some ls\<rparr>)) (\<lambda>_.
     bind_prog pop_stmt (\<lambda>_. pdelete i)))"

section \<open>The switch\<close>

text \<open>\<open>yyval\<close> is \<open>$1\<close> unless the action sets it.\<close>

definition yyaction :: "parser_env \<Rightarrow> int \<Rightarrow> int \<Rightarrow> sem list \<Rightarrow> sem act" where
  "yyaction E line yyn vs =
     (if yyn \<le> 13 then postfix_action yyn vs
      else if yyn \<le> 23 then unary_cast_action yyn vs
      else if yyn \<le> 44 then operator_action yyn vs
      else if yyn \<le> 50 then number_gen_action E yyn vs
      else if yyn \<le> 59 then text_gen_action E yyn vs
      else if yyn \<le> 68 then instant_gen_action E yyn vs
      else if yyn \<le> 71 then reference_gen_action E yyn vs
      else if yyn \<le> 79 then ret (arg vs 1)
      else if yyn \<le> 85 then list_action line yyn vs
      else if yyn \<le> 129 then ret (arg vs 1)
      else if yyn \<le> 134 then declaration_action line yyn vs
      else if yyn \<le> 140 then assign_action line yyn vs
      else if yyn \<le> 146 then control_action line yyn vs
      else if yyn \<le> 149 then procedure_action line yyn vs
      else if yyn = 150 then bind_prog (column_action (arg vs 1)) (\<lambda>_. ret (arg vs 1))
      else if yyn = 151 then bind_prog (column_action (arg vs 3)) (\<lambda>_. ret (arg vs 1))
      else if yyn = 153 then bind_prog (unit_action (arg vs 1)) (\<lambda>_. ret (arg vs 1))
      else ret (arg vs 1))"

end
