(* ===== verification/ParserTables.thy ===== *)
theory ParserTables
  imports Main
begin

text \<open>
  The tables of the parser that bison generated from \<open>pgsParser.yy\<close>, as they stand in
  \<open>pgscript/parser.tab.cc\<close>: one entry after another, in rows of ten. \<open>entry t i\<close> is \<open>t[i]\<close>. The
  collection \<open>table_entries\<close> holds every entry as an equation, so that looking one up is one rewriting
  step.
\<close>

definition entry :: "'a list \<Rightarrow> int \<Rightarrow> 'a" where
  "entry t i = t ! nat i"

primrec entries :: "(int \<Rightarrow> 'a) \<Rightarrow> int \<Rightarrow> 'a list \<Rightarrow> bool" where
  "entries f i [] = True"
| "entries f i (x # xs) = (f i = x \<and> entries f (i + 1) xs)"

lemma entries_from:
  assumes "drop (nat i) t = xs" "0 \<le> i"
  shows "entries (entry t) i xs"
  using assms
proof (induction xs arbitrary: i)
  case (Cons x xs)
  have n: "nat (i + 1) = Suc (nat i)" using Cons.prems(2) by simp
  have "drop (nat (i + 1)) t = xs" using Cons.prems(1) unfolding n by (metis drop_Suc list.sel(3) tl_drop)
  moreover have "t ! nat i = x" using Cons.prems(1)
    by (metis drop_eq_Nil list.distinct(1) not_le_imp_less nth_via_drop)
  ultimately show ?case using Cons.IH[of "i + 1"] Cons.prems(2) by (simp add: entry_def)
qed simp

lemma entries_of: "t = xs \<Longrightarrow> entries (entry t) 0 xs"
  by (rule entries_from) simp_all

named_theorems table_entries \<open>the entries of the tables\<close>

section \<open>Actions and gotos\<close>

text \<open>\<open>YYPACT[STATE-NUM]\<close>: where in \<open>yytable\<close> the portion of a state begins.\<close>

definition yypact :: "int list" where
  "yypact =
  [284, -93, 6, -93, -93, -93, 6, 453, 6, 6,
   -88, -76, -61, -93, -93, -93, -93, -93, -93, -93,
   -93, -93, -93, -93, -93, -93, -93, -93, -93, -93,
   -93, -93, -93, -93, -93, -93, -93, -93, -93, -93,
   -93, -93, -93, -93, -93, -93, -93, -93, -93, -93,
   -93, -93, -93, -93, -93, -93, -93, -93, 370, -93,
   -65, -93, -93, -56, -45, -93, -93, -44, -28, 73,
   12, 13, 23, 27, 37, 42, 44, 50, 63, 65,
   66, 67, 68, 6, 0, -93, -93, -93, -11, 6,
   6, -93, -93, -93, 51, -74, 7, 117, 120, 124,
   619, -93, 619, -93, 536, -93, -93, 76, -25, 62,
   -93, 61, 69, -93, -93, -93, -93, -93, -93, -93,
   -93, -93, 79, 80, 6, 6, 6, 6, 6, 6,
   6, 6, 6, 6, 6, -93, 6, 74, 75, -93,
   -93, 6, 6, 6, 6, 6, 6, 6, 6, 6,
   6, 6, 6, 6, 6, -93, 161, -93, 81, 689,
   6, -76, 86, -61, 82, 83, 84, 163, 77, 78,
   85, -53, -52, 87, 89, 90, 91, 92, -93, -93,
   -93, -93, -93, 51, 51, -74, -74, -74, -74, 7,
   7, 7, 117, 120, 619, 6, -93, -93, 93, -93,
   -93, 34, -93, -93, -93, -93, 64, 6, 6, 6,
   -93, 6, -93, 6, 6, 6, 6, 6, 95, -93,
   96, 103, 88, -93, -93, -93, -93, -93, 101, -51,
   94, -42, 104, -38, -37, -31, -22, -21, 6, 105,
   6, -93, -93, -93, 6, 6, -93, 6, -93, -93,
   6, -93, 6, -93, 6, -93, 6, -93, 6, 108,
   -93, 109, -4, -2, 9, 10, 15, 16, 38, 39,
   -93, 147, -93, 6, -93, 6, -93, 6, -93, 6,
   -93, 6, -93, 6, -93, 6, -93, 6, 6, 111,
   40, 113, 119, 121, 122, 123, 125, -93, -93, -93,
   6, -93, -93, -93, -93, -93, -93, 126, -93]"

lemmas yypact_entries [table_entries] = entries_of[OF yypact_def, simplified]

text \<open>The default rule of a state, 0 for an error.\<close>

definition yydefact :: "int list" where
  "yydefact =
  [0, 152, 0, 144, 145, 146, 0, 0, 0, 0,
   0, 0, 0, 86, 87, 88, 89, 90, 91, 92,
   93, 94, 95, 96, 97, 98, 99, 100, 101, 102,
   103, 104, 105, 106, 107, 108, 109, 110, 111, 112,
   113, 114, 115, 116, 117, 118, 119, 120, 121, 122,
   123, 124, 125, 126, 127, 128, 129, 80, 0, 72,
   0, 84, 85, 0, 0, 73, 74, 0, 0, 0,
   0, 0, 0, 0, 0, 0, 0, 0, 0, 0,
   0, 0, 0, 0, 7, 8, 9, 10, 0, 0,
   0, 14, 18, 24, 28, 31, 36, 40, 42, 44,
   0, 12, 0, 82, 0, 148, 147, 0, 0, 135,
   136, 133, 130, 131, 153, 81, 75, 78, 79, 77,
   76, 1, 0, 0, 0, 0, 0, 0, 0, 0,
   0, 0, 0, 0, 0, 17, 0, 0, 0, 15,
   16, 0, 0, 0, 0, 0, 0, 0, 0, 0,
   0, 0, 0, 0, 0, 143, 141, 83, 0, 0,
   0, 0, 0, 0, 0, 0, 0, 0, 0, 0,
   0, 0, 0, 0, 0, 0, 0, 0, 11, 13,
   25, 26, 27, 29, 30, 34, 35, 32, 33, 37,
   38, 39, 41, 43, 0, 0, 138, 140, 0, 137,
   150, 0, 132, 5, 4, 6, 0, 0, 0, 0,
   54, 0, 56, 0, 0, 0, 0, 0, 3, 142,
   0, 0, 0, 134, 23, 20, 21, 22, 0, 0,
   0, 0, 0, 0, 0, 0, 0, 0, 0, 0,
   0, 151, 19, 45, 0, 0, 51, 0, 55, 57,
   0, 60, 0, 63, 0, 66, 0, 69, 0, 0,
   149, 0, 0, 0, 0, 0, 0, 0, 0, 0,
   2, 0, 46, 0, 48, 0, 52, 0, 58, 0,
   61, 0, 64, 0, 67, 0, 70, 0, 0, 0,
   0, 0, 0, 0, 0, 0, 0, 139, 47, 49,
   0, 53, 59, 62, 65, 68, 71, 0, 50]"

lemmas yydefact_entries [table_entries] = entries_of[OF yydefact_def, simplified]

text \<open>Where the portion of a nonterminal begins.\<close>

definition yypgoto :: "int list" where
  "yypgoto =
  [-93, -93, -93, -29, -93, -92, -3, -83, 28, 59,
   -93, -6, -93, -57, 175, -93, -93, 58, -93, -93,
   -93, 33, -93, -93, 60, -93, -93, -93, -93, -93,
   -93]"

lemmas yypgoto_entries [table_entries] = entries_of[OF yypgoto_def, simplified]

text \<open>The default goto of a nonterminal.\<close>

definition yydefgoto :: "int list" where
  "yydefgoto =
  [-1, 91, 92, 93, 228, 94, 95, 96, 97, 98,
   99, 100, 101, 57, 58, 59, 60, 61, 62, 63,
   112, 113, 64, 109, 110, 65, 66, 67, 68, 201,
   69]"

lemmas yydefgoto_entries [table_entries] = entries_of[OF yydefgoto_def, simplified]

text \<open>What to do in a state: positive, shift that token; negative, reduce the rule of that number; zero, the default.\<close>

definition yytable :: "int list" where
  "yytable =
  [102, 115, 105, 106, 107, 70, 71, 72, 159, 73,
   108, 74, 75, 76, 77, 78, 79, 80, 81, 82,
   144, 145, 70, 71, 72, 111, 73, 83, 74, 75,
   76, 77, 78, 79, 80, 81, 82, 116, 146, 147,
   210, 212, 243, 155, 83, 156, 117, 115, 211, 213,
   244, 246, 183, 184, 135, 249, 251, 118, 119, 247,
   139, 140, 253, 250, 252, 160, 137, 189, 190, 191,
   254, 255, 257, 121, 120, 84, 85, 86, 87, 256,
   258, 88, 138, 89, 90, 224, 225, 226, 227, 272,
   136, 274, 84, 85, 86, 87, 167, 273, 88, 275,
   89, 90, 276, 278, 122, 123, 148, 149, 280, 282,
   277, 279, 180, 181, 182, 124, 281, 283, 166, 125,
   168, 169, 170, 171, 172, 173, 174, 175, 176, 126,
   177, 284, 286, 299, 127, 222, 128, 219, 223, 285,
   287, 300, 129, 185, 186, 187, 188, 141, 142, 143,
   150, 151, 152, 196, 198, 130, 153, 131, 132, 133,
   134, 154, 158, 161, 162, 164, 165, 178, 179, 194,
   163, 195, 200, 206, 241, 203, 204, 205, 207, 208,
   288, 192, 104, 218, 221, 238, 209, 239, 214, 220,
   215, 216, 217, 240, 242, 245, 202, 248, 260, 270,
   271, 229, 230, 231, 298, 232, 301, 233, 234, 235,
   236, 237, 302, 193, 303, 304, 305, 197, 306, 308,
   0, 199, 0, 0, 0, 0, 0, 0, 0, 0,
   0, 0, 259, 0, 261, 0, 0, 0, 262, 263,
   0, 264, 0, 0, 265, 0, 266, 0, 267, 0,
   268, 0, 269, 0, 0, 0, 0, 0, 0, 0,
   0, 0, 0, 0, 0, 0, 0, 289, 0, 290,
   0, 291, 0, 292, 0, 293, 0, 294, 0, 295,
   0, 296, 297, 0, 1, 0, 0, 2, 3, 4,
   5, 6, 0, 0, 307, 7, 0, 8, 9, 0,
   0, 0, 0, 10, 0, 0, 0, 0, 0, 0,
   0, 0, 0, 0, 0, 0, 0, 0, 0, 0,
   0, 0, 0, 0, 11, 12, 13, 14, 15, 16,
   17, 18, 19, 20, 21, 22, 23, 24, 25, 26,
   27, 28, 29, 30, 31, 32, 33, 34, 35, 36,
   37, 38, 39, 40, 41, 42, 43, 44, 45, 46,
   47, 48, 49, 50, 51, 52, 53, 54, 55, 56,
   114, 0, 0, 2, 3, 4, 5, 6, 0, 0,
   0, 7, 0, 8, 9, 0, 0, 0, 0, 10,
   0, 0, 0, 0, 0, 0, 0, 0, 0, 0,
   0, 0, 0, 0, 0, 0, 0, 0, 0, 0,
   11, 12, 13, 14, 15, 16, 17, 18, 19, 20,
   21, 22, 23, 24, 25, 26, 27, 28, 29, 30,
   31, 32, 33, 34, 35, 36, 37, 38, 39, 40,
   41, 42, 43, 44, 45, 46, 47, 48, 49, 50,
   51, 52, 53, 54, 55, 56, 2, 3, 4, 5,
   6, 0, 0, 0, 7, 103, 8, 9, 0, 0,
   0, 0, 10, 0, 0, 0, 0, 0, 0, 0,
   0, 0, 0, 0, 0, 0, 0, 0, 0, 0,
   0, 0, 0, 11, 12, 13, 14, 15, 16, 17,
   18, 19, 20, 21, 22, 23, 24, 25, 26, 27,
   28, 29, 30, 31, 32, 33, 34, 35, 36, 37,
   38, 39, 40, 41, 42, 43, 44, 45, 46, 47,
   48, 49, 50, 51, 52, 53, 54, 55, 56, 2,
   3, 4, 5, 6, 0, 0, 0, 7, 157, 8,
   9, 0, 0, 0, 0, 10, 0, 0, 0, 0,
   0, 0, 0, 0, 0, 0, 0, 0, 0, 0,
   0, 0, 0, 0, 0, 0, 11, 12, 13, 14,
   15, 16, 17, 18, 19, 20, 21, 22, 23, 24,
   25, 26, 27, 28, 29, 30, 31, 32, 33, 34,
   35, 36, 37, 38, 39, 40, 41, 42, 43, 44,
   45, 46, 47, 48, 49, 50, 51, 52, 53, 54,
   55, 56, 2, 3, 4, 5, 6, 0, 0, 0,
   7, 0, 8, 9, 0, 0, 0, 0, 10, 0,
   0, 0, 0, 0, 0, 0, 0, 0, 0, 0,
   0, 0, 0, 0, 0, 0, 0, 0, 0, 11,
   12, 13, 14, 15, 16, 17, 18, 19, 20, 21,
   22, 23, 24, 25, 26, 27, 28, 29, 30, 31,
   32, 33, 34, 35, 36, 37, 38, 39, 40, 41,
   42, 43, 44, 45, 46, 47, 48, 49, 50, 51,
   52, 53, 54, 55, 56, 70, 71, 72, 0, 73,
   0, 74, 75, 76, 77, 78, 79, 80, 81, 82,
   0, 0, 0, 0, 0, 0, 0, 83, 0, 0,
   0, 13, 14, 15, 16, 17, 18, 19, 20, 21,
   22, 23, 24, 25, 26, 27, 28, 29, 30, 31,
   32, 33, 34, 35, 36, 37, 38, 39, 40, 41,
   42, 43, 44, 45, 46, 47, 48, 49, 50, 51,
   52, 53, 54, 55, 56, 84, 85, 86, 87, 0,
   0, 88, 0, 89, 90]"

lemmas yytable_entries [table_entries] = entries_of[OF yytable_def, simplified]

text \<open>Which state or token an entry of \<open>yytable\<close> belongs to.\<close>

definition yycheck :: "int list" where
  "yycheck =
  [6, 58, 8, 9, 92, 16, 17, 18, 33, 20,
   86, 22, 23, 24, 25, 26, 27, 28, 29, 30,
   94, 95, 16, 17, 18, 86, 20, 38, 22, 23,
   24, 25, 26, 27, 28, 29, 30, 102, 31, 32,
   93, 93, 93, 100, 38, 102, 102, 104, 101, 101,
   101, 93, 144, 145, 83, 93, 93, 102, 102, 101,
   89, 90, 93, 101, 101, 90, 77, 150, 151, 152,
   101, 93, 93, 0, 102, 86, 87, 88, 89, 101,
   101, 92, 88, 94, 95, 21, 22, 23, 24, 93,
   90, 93, 86, 87, 88, 89, 125, 101, 92, 101,
   94, 95, 93, 93, 92, 92, 99, 100, 93, 93,
   101, 101, 141, 142, 143, 92, 101, 101, 124, 92,
   126, 127, 128, 129, 130, 131, 132, 133, 134, 92,
   136, 93, 93, 93, 92, 101, 92, 194, 104, 101,
   101, 101, 92, 146, 147, 148, 149, 96, 97, 98,
   33, 34, 35, 159, 160, 92, 36, 92, 92, 92,
   92, 37, 86, 101, 103, 86, 86, 93, 93, 8,
   101, 90, 86, 10, 86, 93, 93, 93, 101, 101,
   33, 153, 7, 91, 91, 90, 101, 91, 101, 195,
   101, 101, 101, 90, 93, 101, 163, 93, 93, 91,
   91, 207, 208, 209, 93, 211, 93, 213, 214, 215,
   216, 217, 93, 154, 93, 93, 93, 159, 93, 93,
   -1, 161, -1, -1, -1, -1, -1, -1, -1, -1,
   -1, -1, 238, -1, 240, -1, -1, -1, 244, 245,
   -1, 247, -1, -1, 250, -1, 252, -1, 254, -1,
   256, -1, 258, -1, -1, -1, -1, -1, -1, -1,
   -1, -1, -1, -1, -1, -1, -1, 273, -1, 275,
   -1, 277, -1, 279, -1, 281, -1, 283, -1, 285,
   -1, 287, 288, -1, 0, -1, -1, 3, 4, 5,
   6, 7, -1, -1, 300, 11, -1, 13, 14, -1,
   -1, -1, -1, 19, -1, -1, -1, -1, -1, -1,
   -1, -1, -1, -1, -1, -1, -1, -1, -1, -1,
   -1, -1, -1, -1, 40, 41, 42, 43, 44, 45,
   46, 47, 48, 49, 50, 51, 52, 53, 54, 55,
   56, 57, 58, 59, 60, 61, 62, 63, 64, 65,
   66, 67, 68, 69, 70, 71, 72, 73, 74, 75,
   76, 77, 78, 79, 80, 81, 82, 83, 84, 85,
   0, -1, -1, 3, 4, 5, 6, 7, -1, -1,
   -1, 11, -1, 13, 14, -1, -1, -1, -1, 19,
   -1, -1, -1, -1, -1, -1, -1, -1, -1, -1,
   -1, -1, -1, -1, -1, -1, -1, -1, -1, -1,
   40, 41, 42, 43, 44, 45, 46, 47, 48, 49,
   50, 51, 52, 53, 54, 55, 56, 57, 58, 59,
   60, 61, 62, 63, 64, 65, 66, 67, 68, 69,
   70, 71, 72, 73, 74, 75, 76, 77, 78, 79,
   80, 81, 82, 83, 84, 85, 3, 4, 5, 6,
   7, -1, -1, -1, 11, 12, 13, 14, -1, -1,
   -1, -1, 19, -1, -1, -1, -1, -1, -1, -1,
   -1, -1, -1, -1, -1, -1, -1, -1, -1, -1,
   -1, -1, -1, 40, 41, 42, 43, 44, 45, 46,
   47, 48, 49, 50, 51, 52, 53, 54, 55, 56,
   57, 58, 59, 60, 61, 62, 63, 64, 65, 66,
   67, 68, 69, 70, 71, 72, 73, 74, 75, 76,
   77, 78, 79, 80, 81, 82, 83, 84, 85, 3,
   4, 5, 6, 7, -1, -1, -1, 11, 12, 13,
   14, -1, -1, -1, -1, 19, -1, -1, -1, -1,
   -1, -1, -1, -1, -1, -1, -1, -1, -1, -1,
   -1, -1, -1, -1, -1, -1, 40, 41, 42, 43,
   44, 45, 46, 47, 48, 49, 50, 51, 52, 53,
   54, 55, 56, 57, 58, 59, 60, 61, 62, 63,
   64, 65, 66, 67, 68, 69, 70, 71, 72, 73,
   74, 75, 76, 77, 78, 79, 80, 81, 82, 83,
   84, 85, 3, 4, 5, 6, 7, -1, -1, -1,
   11, -1, 13, 14, -1, -1, -1, -1, 19, -1,
   -1, -1, -1, -1, -1, -1, -1, -1, -1, -1,
   -1, -1, -1, -1, -1, -1, -1, -1, -1, 40,
   41, 42, 43, 44, 45, 46, 47, 48, 49, 50,
   51, 52, 53, 54, 55, 56, 57, 58, 59, 60,
   61, 62, 63, 64, 65, 66, 67, 68, 69, 70,
   71, 72, 73, 74, 75, 76, 77, 78, 79, 80,
   81, 82, 83, 84, 85, 16, 17, 18, -1, 20,
   -1, 22, 23, 24, 25, 26, 27, 28, 29, 30,
   -1, -1, -1, -1, -1, -1, -1, 38, -1, -1,
   -1, 42, 43, 44, 45, 46, 47, 48, 49, 50,
   51, 52, 53, 54, 55, 56, 57, 58, 59, 60,
   61, 62, 63, 64, 65, 66, 67, 68, 69, 70,
   71, 72, 73, 74, 75, 76, 77, 78, 79, 80,
   81, 82, 83, 84, 85, 86, 87, 88, 89, -1,
   -1, 92, -1, 94, 95]"

lemmas yycheck_entries [table_entries] = entries_of[OF yycheck_def, simplified]

section \<open>Symbols and rules\<close>

text \<open>The accessing symbol of a state.\<close>

definition yystos :: "int list" where
  "yystos =
  [0, 0, 3, 4, 5, 6, 7, 11, 13, 14,
   19, 40, 41, 42, 43, 44, 45, 46, 47, 48,
   49, 50, 51, 52, 53, 54, 55, 56, 57, 58,
   59, 60, 61, 62, 63, 64, 65, 66, 67, 68,
   69, 70, 71, 72, 73, 74, 75, 76, 77, 78,
   79, 80, 81, 82, 83, 84, 85, 118, 119, 120,
   121, 122, 123, 124, 127, 130, 131, 132, 133, 135,
   16, 17, 18, 20, 22, 23, 24, 25, 26, 27,
   28, 29, 30, 38, 86, 87, 88, 89, 92, 94,
   95, 106, 107, 108, 110, 111, 112, 113, 114, 115,
   116, 117, 116, 12, 119, 116, 116, 92, 86, 128,
   129, 86, 125, 126, 0, 118, 102, 102, 102, 102,
   102, 0, 92, 92, 92, 92, 92, 92, 92, 92,
   92, 92, 92, 92, 92, 108, 90, 77, 116, 108,
   108, 96, 97, 98, 94, 95, 31, 32, 99, 100,
   33, 34, 35, 36, 37, 118, 118, 12, 86, 33,
   90, 101, 103, 101, 86, 86, 116, 108, 116, 116,
   116, 116, 116, 116, 116, 116, 116, 116, 93, 93,
   108, 108, 108, 110, 110, 111, 111, 111, 111, 112,
   112, 112, 113, 114, 8, 90, 116, 122, 116, 129,
   86, 134, 126, 93, 93, 93, 10, 101, 101, 101,
   93, 101, 93, 101, 101, 101, 101, 101, 91, 118,
   116, 91, 101, 104, 21, 22, 23, 24, 109, 116,
   116, 116, 116, 116, 116, 116, 116, 116, 90, 91,
   90, 86, 93, 93, 101, 101, 93, 101, 93, 93,
   101, 93, 101, 93, 101, 93, 101, 93, 101, 116,
   93, 116, 116, 116, 116, 116, 116, 116, 116, 116,
   91, 91, 93, 101, 93, 101, 93, 101, 93, 101,
   93, 101, 93, 101, 93, 101, 93, 101, 33, 116,
   116, 116, 116, 116, 116, 116, 116, 116, 93, 93,
   101, 93, 93, 93, 93, 93, 93, 116, 93]"

lemmas yystos_entries [table_entries] = entries_of[OF yystos_def, simplified]

text \<open>The symbol that a rule derives.\<close>

definition yyr1 :: "int list" where
  "yyr1 =
  [0, 105, 106, 106, 106, 106, 106, 106, 106, 106,
   106, 106, 106, 106, 107, 107, 107, 107, 108, 108,
   109, 109, 109, 109, 110, 110, 110, 110, 111, 111,
   111, 112, 112, 112, 112, 112, 113, 113, 113, 113,
   114, 114, 115, 115, 116, 117, 117, 117, 117, 117,
   117, 117, 117, 117, 117, 117, 117, 117, 117, 117,
   117, 117, 117, 117, 117, 117, 117, 117, 117, 117,
   117, 117, 118, 118, 118, 118, 118, 118, 118, 118,
   119, 119, 120, 120, 121, 122, 123, 123, 123, 123,
   123, 123, 123, 123, 123, 123, 123, 123, 123, 123,
   123, 123, 123, 123, 123, 123, 123, 123, 123, 123,
   123, 123, 123, 123, 123, 123, 123, 123, 123, 123,
   123, 123, 123, 123, 123, 123, 123, 123, 123, 123,
   124, 125, 125, 126, 126, 127, 128, 128, 129, 129,
   129, 130, 130, 131, 132, 132, 132, 133, 133, 133,
   134, 134, 135, 135]"

lemmas yyr1_entries [table_entries] = entries_of[OF yyr1_def, simplified]

text \<open>The number of symbols on the right-hand side of a rule.\<close>

definition yyr2 :: "int list" where
  "yyr2 =
  [0, 2, 7, 4, 4, 4, 4, 1, 1, 1,
   1, 3, 1, 3, 1, 2, 2, 2, 1, 6,
   1, 1, 1, 1, 1, 3, 3, 3, 1, 3,
   3, 1, 3, 3, 3, 3, 1, 3, 3, 3,
   1, 3, 1, 3, 1, 6, 8, 10, 8, 10,
   12, 6, 8, 10, 4, 6, 4, 6, 8, 10,
   6, 8, 10, 6, 8, 10, 6, 8, 10, 6,
   8, 10, 1, 1, 1, 2, 2, 2, 2, 2,
   1, 2, 2, 3, 1, 1, 1, 1, 1, 1,
   1, 1, 1, 1, 1, 1, 1, 1, 1, 1,
   1, 1, 1, 1, 1, 1, 1, 1, 1, 1,
   1, 1, 1, 1, 1, 1, 1, 1, 1, 1,
   1, 1, 1, 1, 1, 1, 1, 1, 1, 1,
   2, 1, 3, 1, 4, 2, 1, 3, 3, 9,
   3, 3, 5, 3, 1, 1, 1, 2, 2, 7,
   1, 3, 1, 2]"

lemmas yyr2_entries [table_entries] = entries_of[OF yyr2_def, simplified]

text \<open>The symbol number of a token.\<close>

definition translate_table :: "int list" where
  "translate_table =
  [0, 2, 2, 2, 2, 2, 2, 2, 2, 2,
   2, 2, 2, 2, 2, 2, 2, 2, 2, 2,
   2, 2, 2, 2, 2, 2, 2, 2, 2, 2,
   2, 2, 2, 2, 2, 2, 2, 98, 2, 2,
   92, 93, 96, 94, 101, 95, 2, 97, 2, 2,
   2, 2, 2, 2, 2, 2, 2, 2, 2, 102,
   99, 2, 100, 2, 2, 2, 2, 2, 2, 2,
   2, 2, 2, 2, 2, 2, 2, 2, 2, 2,
   2, 2, 2, 2, 2, 2, 2, 2, 2, 2,
   2, 90, 2, 91, 2, 2, 2, 2, 2, 2,
   2, 2, 2, 2, 2, 2, 2, 2, 2, 2,
   2, 2, 2, 2, 2, 2, 2, 2, 2, 2,
   2, 2, 2, 103, 2, 104, 2, 2, 2, 2,
   2, 2, 2, 2, 2, 2, 2, 2, 2, 2,
   2, 2, 2, 2, 2, 2, 2, 2, 2, 2,
   2, 2, 2, 2, 2, 2, 2, 2, 2, 2,
   2, 2, 2, 2, 2, 2, 2, 2, 2, 2,
   2, 2, 2, 2, 2, 2, 2, 2, 2, 2,
   2, 2, 2, 2, 2, 2, 2, 2, 2, 2,
   2, 2, 2, 2, 2, 2, 2, 2, 2, 2,
   2, 2, 2, 2, 2, 2, 2, 2, 2, 2,
   2, 2, 2, 2, 2, 2, 2, 2, 2, 2,
   2, 2, 2, 2, 2, 2, 2, 2, 2, 2,
   2, 2, 2, 2, 2, 2, 2, 2, 2, 2,
   2, 2, 2, 2, 2, 2, 2, 2, 2, 2,
   2, 2, 2, 2, 2, 2, 1, 2, 3, 4,
   5, 6, 7, 8, 9, 10, 11, 12, 13, 14,
   15, 16, 17, 18, 19, 20, 21, 22, 23, 24,
   25, 26, 27, 28, 29, 30, 31, 32, 33, 34,
   35, 36, 37, 38, 39, 40, 41, 42, 43, 44,
   45, 46, 47, 48, 49, 50, 51, 52, 53, 54,
   55, 56, 57, 58, 59, 60, 61, 62, 63, 64,
   65, 66, 67, 68, 69, 70, 71, 72, 73, 74,
   75, 76, 77, 78, 79, 80, 81, 82, 83, 84,
   85, 86, 87, 88, 89]"

lemmas translate_table_entries [table_entries] = entries_of[OF translate_table_def, simplified]

text \<open>Where in \<open>yyrhs\<close> the right-hand side of a rule begins.\<close>

definition yyprhs :: "int list" where
  "yyprhs =
  [0, 0, 3, 11, 16, 21, 26, 31, 33, 35,
   37, 39, 43, 45, 49, 51, 54, 57, 60, 62,
   69, 71, 73, 75, 77, 79, 83, 87, 91, 93,
   97, 101, 103, 107, 111, 115, 119, 121, 125, 129,
   133, 135, 139, 141, 145, 147, 154, 163, 174, 183,
   194, 207, 214, 223, 234, 239, 246, 251, 258, 267,
   278, 285, 294, 305, 312, 321, 332, 339, 348, 359,
   366, 375, 386, 388, 390, 392, 395, 398, 401, 404,
   407, 409, 412, 415, 419, 421, 423, 425, 427, 429,
   431, 433, 435, 437, 439, 441, 443, 445, 447, 449,
   451, 453, 455, 457, 459, 461, 463, 465, 467, 469,
   471, 473, 475, 477, 479, 481, 483, 485, 487, 489,
   491, 493, 495, 497, 499, 501, 503, 505, 507, 509,
   511, 514, 516, 520, 522, 527, 530, 532, 536, 540,
   550, 554, 558, 564, 568, 570, 572, 574, 577, 580,
   588, 590, 594, 596]"

lemmas yyprhs_entries [table_entries] = entries_of[OF yyprhs_def, simplified]

text \<open>The right-hand sides of the rules, each closed by -1: the grammar of \<open>pgsParser.yy\<close>.\<close>

definition yyrhs :: "int list" where
  "yyrhs =
  [135, 0, -1, 86, 90, 116, 91, 90, 116, 91,
   -1, 86, 90, 116, 91, -1, 17, 92, 86, 93,
   -1, 16, 92, 86, 93, -1, 18, 92, 116, 93,
   -1, 86, -1, 87, -1, 88, -1, 89, -1, 92,
   77, 93, -1, 117, -1, 92, 116, 93, -1, 106,
   -1, 94, 108, -1, 95, 108, -1, 38, 108, -1,
   107, -1, 20, 92, 108, 10, 109, 93, -1, 22,
   -1, 23, -1, 24, -1, 21, -1, 108, -1, 110,
   96, 108, -1, 110, 97, 108, -1, 110, 98, 108,
   -1, 110, -1, 111, 94, 110, -1, 111, 95, 110,
   -1, 111, -1, 112, 99, 111, -1, 112, 100, 111,
   -1, 112, 31, 111, -1, 112, 32, 111, -1, 112,
   -1, 113, 33, 112, -1, 113, 34, 112, -1, 113,
   35, 112, -1, 113, -1, 114, 36, 113, -1, 114,
   -1, 115, 37, 114, -1, 115, -1, 22, 92, 116,
   101, 116, 93, -1, 22, 92, 116, 101, 116, 101,
   116, 93, -1, 22, 92, 116, 101, 116, 101, 116,
   101, 116, 93, -1, 23, 92, 116, 101, 116, 101,
   116, 93, -1, 23, 92, 116, 101, 116, 101, 116,
   101, 116, 93, -1, 23, 92, 116, 101, 116, 101,
   116, 101, 116, 101, 116, 93, -1, 24, 92, 116,
   101, 116, 93, -1, 24, 92, 116, 101, 116, 101,
   116, 93, -1, 24, 92, 116, 101, 116, 101, 116,
   101, 116, 93, -1, 25, 92, 116, 93, -1, 25,
   92, 116, 101, 116, 93, -1, 26, 92, 116, 93,
   -1, 26, 92, 116, 101, 116, 93, -1, 26, 92,
   116, 101, 116, 101, 116, 93, -1, 26, 92, 116,
   101, 116, 101, 116, 101, 116, 93, -1, 27, 92,
   116, 101, 116, 93, -1, 27, 92, 116, 101, 116,
   101, 116, 93, -1, 27, 92, 116, 101, 116, 101,
   116, 101, 116, 93, -1, 28, 92, 116, 101, 116,
   93, -1, 28, 92, 116, 101, 116, 101, 116, 93,
   -1, 28, 92, 116, 101, 116, 101, 116, 101, 116,
   93, -1, 29, 92, 116, 101, 116, 93, -1, 29,
   92, 116, 101, 116, 101, 116, 93, -1, 29, 92,
   116, 101, 116, 101, 116, 101, 116, 93, -1, 30,
   92, 116, 101, 116, 93, -1, 30, 92, 116, 101,
   116, 101, 116, 93, -1, 30, 92, 116, 101, 116,
   101, 116, 101, 116, 93, -1, 120, -1, 130, -1,
   131, -1, 121, 102, -1, 133, 102, -1, 132, 102,
   -1, 124, 102, -1, 127, 102, -1, 118, -1, 119,
   118, -1, 11, 12, -1, 11, 119, 12, -1, 122,
   -1, 123, -1, 42, -1, 43, -1, 44, -1, 45,
   -1, 46, -1, 47, -1, 48, -1, 49, -1, 50,
   -1, 51, -1, 52, -1, 53, -1, 54, -1, 55,
   -1, 56, -1, 57, -1, 58, -1, 59, -1, 60,
   -1, 61, -1, 62, -1, 63, -1, 64, -1, 65,
   -1, 66, -1, 67, -1, 68, -1, 69, -1, 70,
   -1, 71, -1, 72, -1, 73, -1, 74, -1, 75,
   -1, 76, -1, 77, -1, 78, -1, 79, -1, 80,
   -1, 81, -1, 82, -1, 83, -1, 84, -1, 85,
   -1, 41, 125, -1, 126, -1, 125, 101, 126, -1,
   86, -1, 86, 103, 134, 104, -1, 40, 128, -1,
   129, -1, 128, 101, 129, -1, 86, 33, 116, -1,
   86, 90, 116, 91, 90, 116, 91, 33, 116, -1,
   86, 33, 122, -1, 7, 116, 118, -1, 7, 116,
   118, 8, 118, -1, 3, 116, 118, -1, 4, -1,
   5, -1, 6, -1, 14, 116, -1, 13, 116, -1,
   19, 92, 86, 90, 116, 91, 93, -1, 86, -1,
   134, 101, 86, -1, 0, -1, 119, 0, -1]"

lemmas yyrhs_entries [table_entries] = entries_of[OF yyrhs_def, simplified]

text \<open>The names of the symbols: those of tokens are quoted, once more for those declared with a name.\<close>

abbreviation quoted_name :: "string \<Rightarrow> string" where
  "quoted_name n \<equiv> [CHR 0x22] @ n @ [CHR 0x22]"

abbreviation char_name :: "char \<Rightarrow> string" where
  "char_name c \<equiv> [CHR 0x27, c, CHR 0x27]"

definition yytname :: "string list" where
  "yytname =
  [quoted_name ''END OF FILE'',
   ''error'',
   ''$undefined'',
   quoted_name ''WHILE'',
   quoted_name ''BREAK'',
   quoted_name ''RETURN'',
   quoted_name ''CONTINUE'',
   quoted_name ''IF'',
   quoted_name ''ELSE'',
   quoted_name ''WAITFOR'',
   quoted_name ''AS'',
   quoted_name ''BEGIN (BLOCK)'',
   quoted_name ''END (BLOCK)'',
   quoted_name ''ASSERT'',
   quoted_name ''PRINT'',
   quoted_name ''LOG'',
   quoted_name ''COLUMNS'',
   quoted_name ''LINES'',
   quoted_name ''TRIM'',
   quoted_name ''RMLINE'',
   quoted_name ''CAST'',
   quoted_name ''RECORD'',
   quoted_name ''INTEGER'',
   quoted_name ''REAL'',
   quoted_name ''STRING'',
   quoted_name ''REGEX'',
   quoted_name ''FILE'',
   quoted_name ''DATE'',
   quoted_name ''TIME'',
   quoted_name ''DATETIME'',
   quoted_name ''REFERENCE'',
   quoted_name ''<='',
   quoted_name ''>='',
   quoted_name ''='',
   quoted_name ''~='',
   quoted_name ''<>'',
   quoted_name ''AND'',
   quoted_name ''OR'',
   quoted_name ''NOT'',
   quoted_name ''character'',
   quoted_name ''SET @VARIABLE'',
   quoted_name ''DECLARE @VARIABLE'',
   quoted_name ''ABORT'',
   quoted_name ''ALTER'',
   quoted_name ''ANALYZE'',
   quoted_name ''BEGIN'',
   quoted_name ''CHECKPOINT'',
   quoted_name ''CLOSE'',
   quoted_name ''CLUSTER'',
   quoted_name ''COMMENT'',
   quoted_name ''COMMIT'',
   quoted_name ''COPY'',
   quoted_name ''CREATE'',
   quoted_name ''DEALLOCATE'',
   quoted_name ''DECLARE'',
   quoted_name ''DELETE'',
   quoted_name ''DISCARD'',
   quoted_name ''DROP'',
   quoted_name ''END'',
   quoted_name ''EXECUTE'',
   quoted_name ''EXPLAIN'',
   quoted_name ''FETCH'',
   quoted_name ''GRANT'',
   quoted_name ''INSERT'',
   quoted_name ''LISTEN'',
   quoted_name ''LOAD'',
   quoted_name ''LOCK'',
   quoted_name ''MOVE'',
   quoted_name ''NOTIFY'',
   quoted_name ''PREPARE'',
   quoted_name ''REASSIGN'',
   quoted_name ''REINDEX'',
   quoted_name ''RELEASE'',
   quoted_name ''RESET'',
   quoted_name ''REVOKE'',
   quoted_name ''ROLLBACK'',
   quoted_name ''SAVEPOINT'',
   quoted_name ''SELECT'',
   quoted_name ''SET'',
   quoted_name ''SHOW'',
   quoted_name ''START'',
   quoted_name ''TRUNCATE'',
   quoted_name ''UNLISTEN'',
   quoted_name ''UPDATE'',
   quoted_name ''VACUUM'',
   quoted_name ''VALUES'',
   quoted_name ''IDENTIFIER'',
   quoted_name ''INTEGER VALUE'',
   quoted_name ''REAL VALUE'',
   quoted_name ''STRING VALUE'',
   char_name (CHR ''[''),
   char_name (CHR '']''),
   char_name (CHR ''(''),
   char_name (CHR '')''),
   char_name (CHR ''+''),
   char_name (CHR ''-''),
   char_name (CHR ''*''),
   char_name (CHR ''/''),
   char_name (CHR ''%''),
   char_name (CHR ''<''),
   char_name (CHR ''>''),
   char_name (CHR '',''),
   char_name (CHR '';''),
   char_name (CHR ''{''),
   char_name (CHR ''}''),
   ''$accept'',
   ''postfix_expression'',
   ''unary_expression'',
   ''cast_expression'',
   ''type_name'',
   ''multiplicative_expression'',
   ''additive_expression'',
   ''relational_expression'',
   ''equality_expression'',
   ''logical_and_expression'',
   ''logical_or_expression'',
   ''expression'',
   ''random_generator'',
   ''statement'',
   ''statement_list'',
   ''compound_statement'',
   ''sql_statement'',
   ''sql_expression'',
   ''sql_query'',
   ''declaration_statement'',
   ''declaration_list'',
   ''declaration_element'',
   ''assign_statement'',
   ''assign_list'',
   ''assign_element'',
   ''selection_statement'',
   ''iteration_statement'',
   ''jump_statement'',
   ''procedure_statement'',
   ''record_declaration_list'',
   ''translation_unit'']"

section \<open>Constants\<close>

definition yypact_ninf :: int where "yypact_ninf = -93"
definition yytable_ninf :: int where "yytable_ninf = -1"
definition yyeof :: int where "yyeof = 0"
definition yylast :: int where "yylast = 784"
definition yyempty :: int where "yyempty = -2"
definition yyfinal :: int where "yyfinal = 121"
definition yyterror :: int where "yyterror = 1"
definition yyntokens :: int where "yyntokens = 105"
definition yyuser_token_number_max :: int where "yyuser_token_number_max = 344"
definition yyundef_token :: int where "yyundef_token = 2"

lemmas yyconstants [table_entries] = yypact_ninf_def yytable_ninf_def yyeof_def yylast_def yyempty_def
  yyfinal_def yyterror_def yyntokens_def yyuser_token_number_max_def yyundef_token_def

end
