(* ===== verification/PgsParser.thy ===== *)
theory PgsParser
  imports ParserActions ParserTables PgsApp
begin

text \<open>
  The parser: \<open>pgsParser::parse\<close> of \<open>pgscript/parser.tab.cc\<close> with its tables (\<open>ParserTables\<close>) and the
  actions of the rules (\<open>ParserActions\<close>), the locations of \<open>position.hh\<close> and \<open>location.hh\<close>, and the
  message of a syntax error. The three stacks are one list of entries, the top first. The scanner is
  an argument: from its state and the location so far it gives a token, the string it allocated for it,
  if any, and the new location. What is undefined in C++ has no result (\<open>None\<close>), and so has a parse that
  never ends.
\<close>

section \<open>Locations\<close>

record position =
  po_line :: nat
  po_column :: nat

record location =
  lo_begin :: position
  lo_end :: position

definition new_position :: position where
  "new_position = \<lparr>po_line = 1, po_column = 0\<rparr>"

definition new_location :: location where
  "new_location = \<lparr>lo_begin = new_position, lo_end = new_position\<rparr>"

definition position_lines :: "nat \<Rightarrow> position \<Rightarrow> position" where
  "position_lines n p = p\<lparr>po_column := 0, po_line := po_line p + n\<rparr>"

definition position_columns :: "int \<Rightarrow> position \<Rightarrow> position" where
  "position_columns n p =
     (if 0 \<le> int (po_column p) + n then p\<lparr>po_column := nat (int (po_column p) + n)\<rparr>
      else p\<lparr>po_column := 0\<rparr>)"

definition location_step :: "location \<Rightarrow> location" where
  "location_step l = l\<lparr>lo_begin := lo_end l\<rparr>"

definition location_columns :: "int \<Rightarrow> location \<Rightarrow> location" where
  "location_columns n l = l\<lparr>lo_end := position_columns n (lo_end l)\<rparr>"

definition location_lines :: "nat \<Rightarrow> location \<Rightarrow> location" where
  "location_lines n l = l\<lparr>lo_end := position_lines n (lo_end l)\<rparr>"

abbreviation nat_text :: "nat \<Rightarrow> string" where "nat_text n \<equiv> int_text (int n)"

definition position_text :: "position \<Rightarrow> string" where
  "position_text p = nat_text (po_line p) @ ''.'' @ nat_text (po_column p)"

definition location_text :: "location \<Rightarrow> string" where
  "location_text l =
     (let last = position_columns (-1) (lo_end l) in
      position_text (lo_begin l) @
      (if po_line (lo_begin l) \<noteq> po_line last then ''-'' @ position_text last
       else if po_column (lo_begin l) \<noteq> po_column last then ''-'' @ nat_text (po_column last)
       else []))"

section \<open>State\<close>

type_synonym yyentry = "int \<times> sem \<times> location"

type_synonym 'l lexer = "'l \<Rightarrow> location \<Rightarrow> (int \<times> string option \<times> location \<times> 'l) option"

record 'l yyparser =
  yy_stack :: "yyentry list"
  yy_char :: int
  yy_token :: int
  yy_lval :: sem
  yy_lloc :: location
  yy_errstatus :: nat
  yy_context :: pgsContext
  yy_lexer :: 'l
  yy_errors :: "(location \<times> string) list"  \<comment> \<open>what \<open>driver.error\<close> was given\<close>

datatype 'l yystep = Continue "'l yyparser" | Return int "'l yyparser"

definition top_state :: "yyentry list \<Rightarrow> int" where
  "top_state st = fst (hd st)"

text \<open>Code on the context within the parser.\<close>

definition in_context :: "'a act \<Rightarrow> 'l yyparser \<Rightarrow> ('a \<times> 'l yyparser) option" where
  "in_context m p =
     (case m (yy_context p) of
        Some (Inr x, cx) \<Rightarrow> Some (x, p\<lparr>yy_context := cx\<rparr>)
      | _ \<Rightarrow> None)"

section \<open>Messages\<close>

fun unquote_name :: "string \<Rightarrow> string option" where
  "unquote_name [] = None"
| "unquote_name (c # s) =
     (if c = CHR 0x27 \<or> c = CHR '','' then None
      else if c = CHR 0x5C then
        (case s of
           [] \<Rightarrow> None
         | d # t \<Rightarrow> if d = CHR 0x5C then map_option ((#) d) (unquote_name t) else None)
      else if c = CHR 0x22 then Some []
      else map_option ((#) c) (unquote_name s))"

definition yytnamerr :: "string \<Rightarrow> string" where
  "yytnamerr yystr =
     (case yystr of
        [] \<Rightarrow> []
      | c # s \<Rightarrow>
          if c = CHR 0x22 then (case unquote_name s of Some r \<Rightarrow> r | None \<Rightarrow> yystr) else yystr)"

definition expected_tokens :: "int \<Rightarrow> int list" where
  "expected_tokens yyn =
     (let yyxbegin = if yyn < 0 then - yyn else 0;
          yychecklim = yylast - yyn + 1;
          yyxend = if yychecklim < yyntokens then yychecklim else yyntokens
      in filter (\<lambda>x. entry yycheck (x + yyn) = x \<and> x \<noteq> yyterror) [yyxbegin..yyxend - 1])"

fun list_expected :: "bool \<Rightarrow> int list \<Rightarrow> string" where
  "list_expected first [] = []"
| "list_expected first (x # xs) =
     (if first then '', expecting '' else '' or '') @ yytnamerr (entry yytname x) @ list_expected False xs"

definition yysyntax_error :: "int \<Rightarrow> int \<Rightarrow> string" where
  "yysyntax_error yystate tok =
     (let yyn = entry yypact yystate in
      if yypact_ninf < yyn \<and> yyn \<le> yylast then
        ''syntax error, unexpected '' @ yytnamerr (entry yytname tok) @
        (if length (expected_tokens yyn) < 5 then list_expected True (expected_tokens yyn) else [])
      else ''syntax error'')"

section \<open>Errors\<close>

text \<open>\<open>yydestruct_\<close>: only the tokens that carry a string have a destructor.\<close>

definition carries_string :: "int \<Rightarrow> bool" where
  "carries_string yytype \<longleftrightarrow> 42 \<le> yytype \<and> yytype \<le> 89"

definition yydestruct :: "int \<Rightarrow> sem \<Rightarrow> unit act" where
  "yydestruct yytype v = do_when (carries_string yytype) (delete_str v)"

text \<open>\<open>pgsParser::error\<close>\<close>

definition report_syntax :: "'l yyparser \<Rightarrow> 'l yyparser option" where
  "report_syntax p =
     map_option (\<lambda>(_, q). q\<lparr>yy_errors := yy_errors p @
         [(yy_lloc p, yysyntax_error (top_state (yy_stack p)) (yy_token p))]\<rparr>)
       (in_context clear_stacks p)"

text \<open>The state to go to from \<open>yystate\<close> when the error token is shifted.\<close>

definition error_shift :: "int \<Rightarrow> int option" where
  "error_shift yystate =
     (let yyn = entry yypact yystate + yyterror in
      if entry yypact yystate \<noteq> yypact_ninf \<and> 0 \<le> yyn \<and> yyn \<le> yylast \<and> entry yycheck yyn = yyterror
         \<and> 0 < entry yytable yyn
      then Some (entry yytable yyn) else None)"

text \<open>\<open>yyerrlab1\<close>: states are popped until one can shift the error token; \<open>rg\<close> is \<open>yyerror_range[0]\<close>.\<close>

fun pop_states :: "location \<Rightarrow> yyentry list \<Rightarrow> (location \<times> yyentry list \<times> int option) act" where
  "pop_states rg [] = never"
| "pop_states rg ((s, v, l) # st) =
     (case error_shift s of
        Some s' \<Rightarrow> ret (rg, (s, v, l) # st, Some s')
      | None \<Rightarrow>
          if st = [] then ret (rg, [(s, v, l)], None)
          else bind_prog (yydestruct (entry yystos s) v) (\<lambda>_. pop_states l st))"

definition yyerrlab1 :: "'l yyparser \<Rightarrow> 'l yystep option" where
  "yyerrlab1 p =
     map_option (\<lambda>((rg, st, sh), q).
         (case sh of
            None \<Rightarrow> Return 1 (q\<lparr>yy_stack := st, yy_errstatus := 3\<rparr>)
          | Some s \<Rightarrow>
              if s = yyfinal then Return 0 (q\<lparr>yy_stack := st, yy_errstatus := 3\<rparr>)
              else Continue (q\<lparr>yy_stack := (s, yy_lval q, \<lparr>lo_begin = lo_begin rg, lo_end = lo_end (yy_lloc q)\<rparr>) # st,
                           yy_errstatus := 3\<rparr>)))
       (in_context (pop_states (yy_lloc p) (yy_stack p)) p)"

text \<open>\<open>yyerrlab\<close>\<close>

definition yyerrlab :: "'l yyparser \<Rightarrow> 'l yystep option" where
  "yyerrlab p =
     Option.bind (if yy_errstatus p = 0 then report_syntax p else Some p) (\<lambda>p1.
       if yy_errstatus p1 = 3 then
         (if yy_char p1 \<le> yyeof then
            (if yy_char p1 = yyeof then Some (Return 1 p1) else yyerrlab1 p1)
          else
            Option.bind (in_context (yydestruct (yy_token p1) (yy_lval p1)) p1) (\<lambda>(_, p2).
              yyerrlab1 (p2\<lparr>yy_char := yyempty\<rparr>)))
       else yyerrlab1 p1)"

section \<open>Reducing\<close>

text \<open>\<open>YYLLOC_DEFAULT\<close>, for the entries of the right-hand side, the last one first.\<close>

definition rhs_location :: "yyentry list \<Rightarrow> location" where
  "rhs_location seg = \<lparr>lo_begin = lo_begin (snd (snd (last seg))), lo_end = lo_end (snd (snd (hd seg)))\<rparr>"

definition yygoto :: "int \<Rightarrow> int \<Rightarrow> int" where
  "yygoto symbol s =
     (let yystate = entry yypgoto (symbol - yyntokens) + s in
      if 0 \<le> yystate \<and> yystate \<le> yylast \<and> entry yycheck yystate = s then entry yytable yystate
      else entry yydefgoto (symbol - yyntokens))"

definition yyreduce :: "parser_env \<Rightarrow> int \<Rightarrow> 'l yyparser \<Rightarrow> 'l yystep option" where
  "yyreduce E yyn p =
     (let yylen = nat (entry yyr2 yyn); seg = take yylen (yy_stack p); rest = drop yylen (yy_stack p);
          yyloc = rhs_location seg
      in if yylen = 0 \<or> rest = [] then None
         else map_option (\<lambda>(yyval, q).
             Continue (q\<lparr>yy_stack := (yygoto (entry yyr1 yyn) (top_state rest), yyval, yyloc) # rest\<rparr>))
           (in_context
             (yyaction E (int (po_line (lo_begin yyloc))) yyn (rev (map (\<lambda>(s, v, l). v) seg))) p))"

definition yydefault :: "parser_env \<Rightarrow> 'l yyparser \<Rightarrow> 'l yystep option" where
  "yydefault E p =
     (let yyn = entry yydefact (top_state (yy_stack p)) in
      if yyn = 0 then yyerrlab p else yyreduce E yyn p)"

section \<open>The automaton\<close>

definition yytranslate :: "int \<Rightarrow> int" where
  "yytranslate t = (if 0 \<le> t \<and> t \<le> yyuser_token_number_max then entry translate_table t else yyundef_token)"

text \<open>\<open>yylex\<close> is called when there is no look-ahead; without a string of its own a token leaves \<open>yylval\<close> as
  it is.\<close>

definition read_token :: "'l lexer \<Rightarrow> 'l yyparser \<Rightarrow> 'l yyparser option" where
  "read_token lx p =
     (if yy_char p = yyempty then
        map_option (\<lambda>(t, str, loc, l).
            (let cx = yy_context p; q = p\<lparr>yy_char := t, yy_lloc := loc, yy_lexer := l\<rparr> in
             case str of
               None \<Rightarrow> q
             | Some s \<Rightarrow> q\<lparr>yy_lval := Str (cx_next cx) s, yy_context := cx\<lparr>cx_next := Suc (cx_next cx)\<rparr>\<rparr>))
          (lx (yy_lexer p) (yy_lloc p))
      else Some p)"

definition convert_token :: "'l yyparser \<Rightarrow> 'l yyparser" where
  "convert_token p =
     (if yy_char p \<le> yyeof then p\<lparr>yy_char := yyeof, yy_token := yyeof\<rparr>
      else p\<lparr>yy_token := yytranslate (yy_char p)\<rparr>)"

definition yyshift :: "int \<Rightarrow> 'l yyparser \<Rightarrow> 'l yyparser" where
  "yyshift s p =
     p\<lparr>yy_char := (if yy_char p \<noteq> yyeof then yyempty else yy_char p),
       yy_stack := (s, yy_lval p, yy_lloc p) # yy_stack p,
       yy_errstatus := yy_errstatus p - 1\<rparr>"

definition yybackup :: "parser_env \<Rightarrow> 'l lexer \<Rightarrow> 'l yyparser \<Rightarrow> 'l yystep option" where
  "yybackup E lx p =
     (let yypact_n = entry yypact (top_state (yy_stack p)) in
      if yypact_n = yypact_ninf then yydefault E p
      else Option.bind (read_token lx p) (\<lambda>p1.
        let p2 = convert_token p1; yyn = yypact_n + yy_token p2 in
        if yyn < 0 \<or> yylast < yyn \<or> entry yycheck yyn \<noteq> yy_token p2 then yydefault E p2
        else let act = entry yytable yyn in
          if act \<le> 0 then (if act = 0 \<or> act = yytable_ninf then yyerrlab p2 else yyreduce E (- act) p2)
          else if act = yyfinal then Some (Return 0 p2)
          else Some (Continue (yyshift act p2))))"

partial_function (option) yyparse_loop ::
  "parser_env \<Rightarrow> 'l lexer \<Rightarrow> 'l yyparser \<Rightarrow> (int \<times> 'l yyparser) option" where
  "yyparse_loop E lx p =
     (case yybackup E lx p of
        None \<Rightarrow> None
      | Some (Continue q) \<Rightarrow> yyparse_loop E lx q
      | Some (Return r q) \<Rightarrow> Some (r, q))"

declare yyparse_loop.simps [code]

text \<open>\<open>yyreturn\<close>: the look-ahead and what is left on the stack are destroyed.\<close>

fun clean_stack :: "yyentry list \<Rightarrow> unit act" where
  "clean_stack [] = never"
| "clean_stack ((s, v, l) # st) =
     (if st = [] then ret () else bind_prog (yydestruct (entry yystos s) v) (\<lambda>_. clean_stack st))"

definition yyreturn :: "'l yyparser \<Rightarrow> (unit \<times> 'l yyparser) option" where
  "yyreturn p =
     in_context
       (bind_prog (do_when (yy_char p \<noteq> yyeof \<and> yy_char p \<noteq> yyempty) (yydestruct (yy_token p) (yy_lval p)))
         (\<lambda>_. clean_stack (yy_stack p))) p"

definition new_parser :: "'l \<Rightarrow> 'l yyparser" where
  "new_parser l =
     \<lparr>yy_stack = [(0, Unset, new_location)], yy_char = yyempty, yy_token = 0, yy_lval = Unset,
      yy_lloc = new_location, yy_errstatus = 0, yy_context = new_context, yy_lexer = l, yy_errors = []\<rparr>"

definition yyparse :: "parser_env \<Rightarrow> 'l lexer \<Rightarrow> 'l \<Rightarrow> (int \<times> 'l yyparser) option" where
  "yyparse E lx l =
     Option.bind (yyparse_loop E lx (new_parser l)) (\<lambda>(r, p).
       map_option (\<lambda>(_, q). (r, q)) (yyreturn p))"

section \<open>What the driver makes of it\<close>

text \<open>The error reported by \<open>pgsDriver::error\<close>, or the program that was evaluated; a script without
  statements evaluates nothing.\<close>

definition parse_outcome :: "'l yyparser \<Rightarrow> parsed" where
  "parse_outcome p =
     (case yy_errors p of
        (l, m) # _ \<Rightarrow> Syntax_error (int (po_line (lo_begin l))) (location_text l) m
      | [] \<Rightarrow> (case cx_program (yy_context p) of Some ls \<Rightarrow> Program ls | None \<Rightarrow> Program []))"

end
