(* ===== verification/ParserStates.thy ===== *)
theory ParserStates
  imports PgsParser
begin

text \<open>
  What the states of the parser stand for, and that the tables agree with it: \<open>state_items\<close> are the
  kernel items of a state, a rule with the position of the dot; \<open>state_wants\<close> the nonterminals that may
  begin there; \<open>symbol_rank\<close> falls when a rule with one symbol on the right is applied. They are a
  certificate: nothing is assumed of them, they are checked against the tables of the parser entry by
  entry, and the lemmas at the end say what the checks give.
\<close>

section \<open>The certificate\<close>

definition state_items :: "(int \<times> int) list list" where
  "state_items =
  [[(1, 0)], [(152, 1)], [(143, 1)], [(144, 1)], [(145, 1)],
   [(146, 1)], [(141, 1), (142, 1)], [(82, 1), (83, 1)], [(148, 1)], [(147, 1)],
   [(149, 1)], [(135, 1)], [(130, 1)], [(86, 1)], [(87, 1)],
   [(88, 1)], [(89, 1)], [(90, 1)], [(91, 1)], [(92, 1)],
   [(93, 1)], [(94, 1)], [(95, 1)], [(96, 1)], [(97, 1)],
   [(98, 1)], [(99, 1)], [(100, 1)], [(101, 1)], [(102, 1)],
   [(103, 1)], [(104, 1)], [(105, 1)], [(106, 1)], [(107, 1)],
   [(108, 1)], [(109, 1)], [(110, 1)], [(111, 1)], [(112, 1)],
   [(113, 1)], [(114, 1)], [(115, 1)], [(116, 1)], [(117, 1)],
   [(118, 1)], [(119, 1)], [(120, 1)], [(121, 1)], [(122, 1)],
   [(123, 1)], [(124, 1)], [(125, 1)], [(126, 1)], [(127, 1)],
   [(128, 1)], [(129, 1)], [(80, 1)], [(81, 1), (153, 1)], [(72, 1)],
   [(75, 1)], [(84, 1)], [(85, 1)], [(78, 1)], [(79, 1)],
   [(73, 1)], [(74, 1)], [(77, 1)], [(76, 1)], [(1, 1)],
   [(5, 1)], [(4, 1)], [(6, 1)], [(19, 1)], [(45, 1), (46, 1), (47, 1)],
   [(48, 1), (49, 1), (50, 1)], [(51, 1), (52, 1), (53, 1)], [(54, 1), (55, 1)], [(56, 1), (57, 1), (58, 1), (59, 1)], [(60, 1), (61, 1), (62, 1)],
   [(63, 1), (64, 1), (65, 1)], [(66, 1), (67, 1), (68, 1)], [(69, 1), (70, 1), (71, 1)], [(17, 1)], [(2, 1), (3, 1), (7, 1)],
   [(8, 1)], [(9, 1)], [(10, 1)], [(11, 1), (13, 1)], [(15, 1)],
   [(16, 1)], [(14, 1)], [(18, 1)], [(24, 1)], [(25, 1), (26, 1), (27, 1), (28, 1)],
   [(29, 1), (30, 1), (31, 1)], [(32, 1), (33, 1), (34, 1), (35, 1), (36, 1)], [(37, 1), (38, 1), (39, 1), (40, 1)], [(41, 1), (42, 1)], [(43, 1), (44, 1)],
   [(143, 2)], [(12, 1)], [(141, 2), (142, 2)], [(82, 2)], [(81, 1), (83, 2)],
   [(148, 2)], [(147, 2)], [(149, 2)], [(138, 1), (139, 1), (140, 1)], [(135, 2), (137, 1)],
   [(136, 1)], [(133, 1), (134, 1)], [(130, 2), (132, 1)], [(131, 1)], [(153, 2)],
   [(81, 2)], [(75, 2)], [(78, 2)], [(79, 2)], [(77, 2)],
   [(76, 2)], [(1, 2)], [(5, 2)], [(4, 2)], [(6, 2)],
   [(19, 2)], [(45, 2), (46, 2), (47, 2)], [(48, 2), (49, 2), (50, 2)], [(51, 2), (52, 2), (53, 2)], [(54, 2), (55, 2)],
   [(56, 2), (57, 2), (58, 2), (59, 2)], [(60, 2), (61, 2), (62, 2)], [(63, 2), (64, 2), (65, 2)], [(66, 2), (67, 2), (68, 2)], [(69, 2), (70, 2), (71, 2)],
   [(17, 2)], [(2, 2), (3, 2)], [(11, 2)], [(13, 2)], [(15, 2)],
   [(16, 2)], [(25, 2)], [(26, 2)], [(27, 2)], [(29, 2)],
   [(30, 2)], [(34, 2)], [(35, 2)], [(32, 2)], [(33, 2)],
   [(37, 2)], [(38, 2)], [(39, 2)], [(41, 2)], [(43, 2)],
   [(143, 3)], [(141, 3), (142, 3)], [(83, 3)], [(149, 3)], [(138, 2), (140, 2)],
   [(139, 2)], [(137, 2)], [(134, 2)], [(132, 2)], [(5, 3)],
   [(4, 3)], [(6, 3)], [(19, 3)], [(45, 3), (46, 3), (47, 3)], [(48, 3), (49, 3), (50, 3)],
   [(51, 3), (52, 3), (53, 3)], [(54, 3), (55, 3)], [(56, 3), (57, 3), (58, 3), (59, 3)], [(60, 3), (61, 3), (62, 3)], [(63, 3), (64, 3), (65, 3)],
   [(66, 3), (67, 3), (68, 3)], [(69, 3), (70, 3), (71, 3)], [(2, 3), (3, 3)], [(11, 3)], [(13, 3)],
   [(25, 3)], [(26, 3)], [(27, 3)], [(25, 1), (26, 1), (27, 1), (29, 3)], [(25, 1), (26, 1), (27, 1), (30, 3)],
   [(29, 1), (30, 1), (34, 3)], [(29, 1), (30, 1), (35, 3)], [(29, 1), (30, 1), (32, 3)], [(29, 1), (30, 1), (33, 3)], [(32, 1), (33, 1), (34, 1), (35, 1), (37, 3)],
   [(32, 1), (33, 1), (34, 1), (35, 1), (38, 3)], [(32, 1), (33, 1), (34, 1), (35, 1), (39, 3)], [(37, 1), (38, 1), (39, 1), (41, 3)], [(41, 1), (43, 3)], [(142, 4)],
   [(149, 4)], [(138, 3)], [(140, 3)], [(139, 3)], [(137, 3)],
   [(150, 1)], [(134, 3), (151, 1)], [(132, 3)], [(5, 4)], [(4, 4)],
   [(6, 4)], [(19, 4)], [(45, 4), (46, 4), (47, 4)], [(48, 4), (49, 4), (50, 4)], [(51, 4), (52, 4), (53, 4)],
   [(54, 4)], [(55, 4)], [(56, 4)], [(57, 4), (58, 4), (59, 4)], [(60, 4), (61, 4), (62, 4)],
   [(63, 4), (64, 4), (65, 4)], [(66, 4), (67, 4), (68, 4)], [(69, 4), (70, 4), (71, 4)], [(2, 4), (3, 4)], [(142, 5)],
   [(149, 5)], [(139, 4)], [(151, 2)], [(134, 4)], [(23, 1)],
   [(20, 1)], [(21, 1)], [(22, 1)], [(19, 5)], [(45, 5), (46, 5), (47, 5)],
   [(48, 5), (49, 5), (50, 5)], [(51, 5), (52, 5), (53, 5)], [(55, 5)], [(57, 5), (58, 5), (59, 5)], [(60, 5), (61, 5), (62, 5)],
   [(63, 5), (64, 5), (65, 5)], [(66, 5), (67, 5), (68, 5)], [(69, 5), (70, 5), (71, 5)], [(2, 5)], [(149, 6)],
   [(139, 5)], [(151, 3)], [(19, 6)], [(45, 6)], [(46, 6), (47, 6)],
   [(48, 6), (49, 6), (50, 6)], [(51, 6)], [(52, 6), (53, 6)], [(55, 6)], [(57, 6)],
   [(58, 6), (59, 6)], [(60, 6)], [(61, 6), (62, 6)], [(63, 6)], [(64, 6), (65, 6)],
   [(66, 6)], [(67, 6), (68, 6)], [(69, 6)], [(70, 6), (71, 6)], [(2, 6)],
   [(149, 7)], [(139, 6)], [(46, 7), (47, 7)], [(48, 7), (49, 7), (50, 7)], [(52, 7), (53, 7)],
   [(58, 7), (59, 7)], [(61, 7), (62, 7)], [(64, 7), (65, 7)], [(67, 7), (68, 7)], [(70, 7), (71, 7)],
   [(2, 7)], [(139, 7)], [(46, 8)], [(47, 8)], [(48, 8)],
   [(49, 8), (50, 8)], [(52, 8)], [(53, 8)], [(58, 8)], [(59, 8)],
   [(61, 8)], [(62, 8)], [(64, 8)], [(65, 8)], [(67, 8)],
   [(68, 8)], [(70, 8)], [(71, 8)], [(139, 8)], [(47, 9)],
   [(49, 9), (50, 9)], [(53, 9)], [(59, 9)], [(62, 9)], [(65, 9)],
   [(68, 9)], [(71, 9)], [(139, 9)], [(47, 10)], [(49, 10)],
   [(50, 10)], [(53, 10)], [(59, 10)], [(62, 10)], [(65, 10)],
   [(68, 10)], [(71, 10)], [(50, 11)], [(50, 12)]]"

lemmas state_items_entries [table_entries] = entries_of[OF state_items_def, simplified]

abbreviation wants_0 :: "int list" where
  "wants_0 \<equiv> [118, 119, 120, 121, 122, 123, 124, 127, 130, 131, 132, 133, 135]"

abbreviation wants_2 :: "int list" where
  "wants_2 \<equiv> [106, 107, 108, 110, 111, 112, 113, 114, 115, 116, 117]"

abbreviation wants_7 :: "int list" where
  "wants_7 \<equiv> [118, 119, 120, 121, 122, 123, 124, 127, 130, 131, 132, 133]"

abbreviation wants_11 :: "int list" where
  "wants_11 \<equiv> [128, 129]"

abbreviation wants_12 :: "int list" where
  "wants_12 \<equiv> [125, 126]"

abbreviation wants_58 :: "int list" where
  "wants_58 \<equiv> [118, 120, 121, 122, 123, 124, 127, 130, 131, 132, 133]"

abbreviation wants_83 :: "int list" where
  "wants_83 \<equiv> [106, 107, 108, 117]"

abbreviation wants_144 :: "int list" where
  "wants_144 \<equiv> [106, 107, 108, 110, 117]"

abbreviation wants_146 :: "int list" where
  "wants_146 \<equiv> [106, 107, 108, 110, 111, 117]"

abbreviation wants_150 :: "int list" where
  "wants_150 \<equiv> [106, 107, 108, 110, 111, 112, 117]"

abbreviation wants_153 :: "int list" where
  "wants_153 \<equiv> [106, 107, 108, 110, 111, 112, 113, 117]"

abbreviation wants_154 :: "int list" where
  "wants_154 \<equiv> [106, 107, 108, 110, 111, 112, 113, 114, 117]"

abbreviation wants_159 :: "int list" where
  "wants_159 \<equiv> [106, 107, 108, 110, 111, 112, 113, 114, 115, 116, 117, 122, 123]"

abbreviation wants_161 :: "int list" where
  "wants_161 \<equiv> [129]"

abbreviation wants_162 :: "int list" where
  "wants_162 \<equiv> [134]"

abbreviation wants_163 :: "int list" where
  "wants_163 \<equiv> [126]"

abbreviation wants_206 :: "int list" where
  "wants_206 \<equiv> [109]"

definition state_wants :: "int list list" where
  "state_wants =
  [wants_0, [], wants_2, [], [], [], wants_2, wants_7, wants_2, wants_2,
   [], wants_11, wants_12, [], [], [], [], [], [], [],
   [], [], [], [], [], [], [], [], [], [],
   [], [], [], [], [], [], [], [], [], [],
   [], [], [], [], [], [], [], [], [], [],
   [], [], [], [], [], [], [], [], wants_58, [],
   [], [], [], [], [], [], [], [], [], [],
   [], [], [], [], [], [], [], [], [], [],
   [], [], [], wants_83, [], [], [], [], wants_2, wants_83,
   wants_83, [], [], [], [], [], [], [], [], [],
   wants_58, [], wants_58, [], wants_58, [], [], [], [], [],
   [], [], [], [], [], [], [], [], [], [],
   [], [], [], [], wants_2, wants_83, wants_2, wants_2, wants_2, wants_2,
   wants_2, wants_2, wants_2, wants_2, wants_2, [], wants_2, [], [], [],
   [], wants_83, wants_83, wants_83, wants_144, wants_144, wants_146, wants_146, wants_146, wants_146,
   wants_150, wants_150, wants_150, wants_153, wants_154, [], [], [], [], wants_159,
   wants_2, wants_161, wants_162, wants_163, [], [], [], [], [], [],
   [], [], [], [], [], [], [], [], [], [],
   [], [], [], [], [], [], [], [], [], [],
   [], [], [], [], wants_58, wants_2, [], [], [], [],
   [], [], [], [], [], [], wants_206, wants_2, wants_2, wants_2,
   [], wants_2, [], wants_2, wants_2, wants_2, wants_2, wants_2, [], [],
   [], [], [], [], [], [], [], [], [], [],
   [], [], [], [], [], [], [], [], wants_2, [],
   wants_2, [], [], [], wants_2, wants_2, [], wants_2, [], [],
   wants_2, [], wants_2, [], wants_2, [], wants_2, [], wants_2, [],
   [], [], [], [], [], [], [], [], [], [],
   [], [], [], wants_2, [], wants_2, [], wants_2, [], wants_2,
   [], wants_2, [], wants_2, [], wants_2, [], wants_2, wants_2, [],
   [], [], [], [], [], [], [], [], [], [],
   wants_2, [], [], [], [], [], [], [], []]"

lemmas state_wants_entries [table_entries] = entries_of[OF state_wants_def, simplified]

text \<open>The states whose actions begin at \<open>p\<close>, from \<open>p = -92\<close> on.\<close>

definition pact_states :: "int list list" where
  "pact_states =
  [[], [], [], [], [10], [], [], [], [], [], [], [], [], [], [], [], [11, 161], [], [95, 185, 186, 187, 188],
   [], [], [], [], [], [], [], [], [60], [], [], [], [12, 163], [], [], [], [], [63], [], [], [171], [172],
   [229], [], [], [], [], [], [64], [67], [], [231], [], [], [], [233], [234], [], [], [], [], [], [235], [],
   [], [68], [], [], [108], [], [], [236], [237], [], [], [], [], [], [], [], [], [], [88], [], [], [], [],
   [], [], [262], [], [263], [], [84], [], [], [], [], [],
   [2, 6, 8, 9, 83, 89, 90, 124, 125, 126, 127, 128, 129, 130, 131, 132, 133, 134, 136, 141, 142, 143, 144, 145, 146, 147, 148, 149, 150, 151, 152, 153, 154, 160, 195, 207, 208, 209, 211, 213, 214, 215, 216, 217, 238, 240, 244, 245, 247, 250, 252, 254, 256, 258, 273, 275, 277, 279, 281, 283, 285, 287, 288, 300],
   [96, 189, 190, 191], [], [264], [265], [], [70], [71], [], [266], [267], [], [], [], [], [], [], [72], [],
   [], [], [73], [], [], [], [], [], [], [201], [], [], [74], [268], [269], [290], [], [75], [], [76], [], [],
   [], [], [], [77], [94, 183, 184], [], [], [], [], [], [], [], [], [], [111], [109], [78], [206], [79],
   [80], [81], [82], [112], [], [], [], [69], [137], [138], [107], [168], [169], [122], [123], [158], [164],
   [165], [166], [170], [162], [173], [222], [174], [175], [176], [177], [198], [230], [218], [220], [], [],
   [], [], [228], [], [221], [232], [239], [], [], [259], [261], [], [289], [], [291], [], [], [], [97, 192],
   [], [292], [98, 193], [293], [294], [295], [99], [296], [307], [], [], [], [], [], [], [], [], [], [], [],
   [], [], [], [], [], [], [], [], [], [271], [], [], [], [], [], [], [], [], [], [], [], [], [], [156], [],
   [167], [], [], [], [], [], [], [], [], [], [], [], [], [], [], [], [], [], [], [], [], [], [], [], [], [],
   [], [], [], [], [], [], [], [], [], [], [], [], [], [], [], [], [], [], [], [], [], [], [], [], [], [], [],
   [], [], [], [], [], [], [], [], [], [], [], [], [], [], [], [], [], [], [], [], [], [], [], [], [], [], [],
   [], [], [], [], [], [], [], [], [], [], [], [], [], [], [], [], [], [], [], [], [], [], [], [], [], [], [],
   [], [], [], [], [], [], [], [], [], [], [], [], [], [], [0], [], [], [], [], [], [], [], [], [], [], [],
   [], [], [], [], [], [], [], [], [], [], [], [], [], [], [], [], [], [], [], [], [], [], [], [], [], [], [],
   [], [], [], [], [], [], [], [], [], [], [], [], [], [], [], [], [], [], [], [], [], [], [], [], [], [], [],
   [], [], [], [], [], [], [], [], [], [], [], [], [], [], [], [], [], [], [], [], [58], [], [], [], [], [],
   [], [], [], [], [], [], [], [], [], [], [], [], [], [], [], [], [], [], [], [], [], [], [], [], [], [], [],
   [], [], [], [], [], [], [], [], [], [], [], [], [], [], [], [], [], [], [], [], [], [], [], [], [], [], [],
   [], [], [], [], [], [], [], [], [], [], [], [], [], [], [], [], [], [], [], [], [], [], [], [7], [], [],
   [], [], [], [], [], [], [], [], [], [], [], [], [], [], [], [], [], [], [], [], [], [], [], [], [], [], [],
   [], [], [], [], [], [], [], [], [], [], [], [], [], [], [], [], [], [], [], [], [], [], [], [], [], [], [],
   [], [], [], [], [], [], [], [], [], [], [], [], [], [], [], [], [], [], [], [], [], [], [], [], [], [],
   [104], [], [], [], [], [], [], [], [], [], [], [], [], [], [], [], [], [], [], [], [], [], [], [], [], [],
   [], [], [], [], [], [], [], [], [], [], [], [], [], [], [], [], [], [], [], [], [], [], [], [], [], [], [],
   [], [], [], [], [], [], [], [], [], [], [], [], [], [], [], [], [], [], [], [], [], [], [], [], [], [], [],
   [], [], [], [100, 102, 194], [], [], [], [], [], [], [], [], [], [], [], [], [], [], [], [], [], [], [],
   [], [], [], [], [], [], [], [], [], [], [], [], [], [], [], [], [], [], [], [], [], [], [], [], [], [], [],
   [], [], [], [], [], [], [], [], [], [], [], [], [], [], [], [], [], [], [], [], [], [], [], [159]]"

lemmas pact_states_entries [table_entries] = entries_of[OF pact_states_def, simplified]

text \<open>For the nonterminals.\<close>

definition symbol_rank :: "nat list" where
  "symbol_rank =
  [0, 9, 8, 7, 0, 6, 5, 4, 3, 2, 1, 0, 10, 1, 0, 2, 0, 1, 2, 0, 0, 1, 0, 0, 1, 2, 2, 0, 0, 0, 0]"

lemmas symbol_rank_entries [table_entries] = entries_of[OF symbol_rank_def, simplified]

section \<open>Checks\<close>

definition rhs_symbol :: "int \<Rightarrow> int \<Rightarrow> int" where
  "rhs_symbol r k = entry yyrhs (entry yyprhs r + k)"

definition has_item :: "int \<Rightarrow> int \<times> int \<Rightarrow> bool" where
  "has_item s = (\<lambda>(r, d).
     if d = 0 \<and> r \<noteq> 1 then entry yyr1 r \<in> set (entry state_wants s) else (r, d) \<in> set (entry state_items s))"

text \<open>The symbol before the dot is the one the state was entered with.\<close>

definition symbol_ok :: "int \<Rightarrow> int \<times> int \<Rightarrow> bool" where
  "symbol_ok s = (\<lambda>(r, d). rhs_symbol r (d - 1) = entry yystos s)"

text \<open>An item of the state \<open>s\<close> that is entered from \<open>t\<close> comes from one of \<open>t\<close>.\<close>

definition came_from :: "int \<Rightarrow> int \<times> int \<Rightarrow> bool" where
  "came_from t = (\<lambda>(r, d). 0 < d \<and> has_item t (r, d - 1))"

definition edge_ok :: "int \<Rightarrow> int \<Rightarrow> int \<Rightarrow> bool" where
  "edge_ok t X s \<longleftrightarrow> entry yystos s = X \<and> 0 < s \<and> s \<le> 308 \<and> s \<noteq> yyfinal \<and> list_all (came_from t) (entry state_items s)"

text \<open>The end of the script has been shifted.\<close>

definition ended :: "int \<Rightarrow> bool" where
  "ended X \<longleftrightarrow> X = yyeof \<or> X = 135"

text \<open>The tokens of SQL statements, and what is made of one up to its semicolon.\<close>

definition query_token :: "int \<Rightarrow> bool" where
  "query_token X \<longleftrightarrow> 42 \<le> X \<and> X \<le> 85"

definition query_symbol :: "int \<Rightarrow> bool" where
  "query_symbol X \<longleftrightarrow> 42 \<le> X \<and> X \<le> 85 \<or> 121 \<le> X \<and> X \<le> 123 \<or> 127 \<le> X \<and> X \<le> 129"

text \<open>The entry \<open>i\<close> of \<open>yytable\<close>, for the states that use it with a token.\<close>

definition shift_ok :: "int \<Rightarrow> bool" where
  "shift_ok i \<longleftrightarrow>
     (let X = entry yycheck i; p = i - X + 92; s = entry yytable i in
      X < 0 \<or> 104 < X \<or> p < 0 \<or> 781 < p \<or> entry pact_states p = [] \<or>
      (X \<noteq> yyterror \<and>
       (if X = yyeof \<and> s = yyfinal then list_all (\<lambda>t. t = 69) (entry pact_states p)
        else list_all (\<lambda>t. edge_ok t X s) (entry pact_states p) \<and>
          (query_token X \<longrightarrow> list_all (\<lambda>t. \<not> query_symbol (entry yystos t)) (entry pact_states p)) \<and>
          (X = yyeof \<longrightarrow> list_all (\<lambda>t. t = 0 \<or> \<not> ended (entry yystos t)) (entry pact_states p)))))"

definition goto_ok :: "int \<Rightarrow> bool" where
  "goto_ok t \<longleftrightarrow> list_all (\<lambda>X. 105 \<le> X \<and> edge_ok t X (yygoto X t)) (entry state_wants t)"

definition state_ok :: "int \<Rightarrow> bool" where
  "state_ok s \<longleftrightarrow>
     0 \<le> entry yystos s \<and> entry yystos s \<le> 135 \<and>
     (s = 0 \<or> list_all (symbol_ok s) (entry state_items s)) \<and>
     (let r = entry yydefact s in
      r = 0 \<or> s = yyfinal \<or> (1 < r \<and> r \<le> 153 \<and> (r, entry yyr2 r) \<in> set (entry state_items s))) \<and>
     (s = 0 \<or> s = yyfinal \<or> \<not> ended (entry yystos s) \<or>
      (let p = entry yypact s in
       if p = yypact_ninf then entry yydefact s \<noteq> 0
       else 0 \<le> p \<and> p \<le> yylast \<and> entry yycheck p = yyeof \<and> entry yytable p = yyfinal)) \<and>
     (let p = entry yypact s in
      p = yypact_ninf \<or> (-92 \<le> p \<and> p \<le> 689 \<and> s \<in> set (entry pact_states (p + 92))))"

definition rank :: "int \<Rightarrow> nat" where
  "rank X = (if X < 105 then 11 else entry symbol_rank (X - 105))"

definition rule_ok :: "int \<Rightarrow> bool" where
  "rule_ok r \<longleftrightarrow>
     (let n = entry yyr2 r; X = entry yyr1 r in
      0 < n \<and> n \<le> 12 \<and> 106 \<le> X \<and> X \<le> 135 \<and> (n = 1 \<longrightarrow> rank X < rank (rhs_symbol r 0)) \<and>
      (ended (rhs_symbol r (n - 1)) \<longleftrightarrow> ended X) \<and>
      (query_symbol (rhs_symbol r (n - 1)) \<longrightarrow> query_symbol X))"

lemmas check_simps = edge_ok_def shift_ok_def goto_ok_def state_ok_def came_from_def symbol_ok_def has_item_def
  rhs_symbol_def ended_def query_token_def query_symbol_def rank_def rule_ok_def yygoto_def Let_def case_prod_conv

lemmas evaluating = arith_simps rel_simps arith_special arith_extra_simps simp_thms if_True if_False
  list.set insert_iff empty_iff prod.inject list.pred_inject list.simps upto_rec1 upto_empty numeral_One One_nat_def[symmetric]

lemma tables_checked:
  "list_all goto_ok [0..308] \<and> list_all state_ok [0..308] \<and> list_all shift_ok [0..784] \<and>
   list_all rule_ok [2..153] \<and> list_all (\<lambda>t. 0 < entry translate_table t \<and> entry translate_table t \<le> 104) [1..344]"
  by (simp only: check_simps table_entries evaluating)

end
