(* ===== verification/ParserPaths.thy ===== *)
theory ParserPaths
  imports ParserStates
begin

text \<open>
  What the checked tables give for the stack of the parser. A stack is a path of the automaton, and
  the items of its top state tell what lies below (\<open>items_below\<close>), so that a reduction finds the right-hand
  side of its rule, and a state that can go on with the left-hand side. The error token can never be
  shifted.
\<close>

section \<open>The checks, one by one\<close>

lemma state_checked: "0 \<le> s \<Longrightarrow> s \<le> 308 \<Longrightarrow> state_ok s"
  and goto_checked: "0 \<le> s \<Longrightarrow> s \<le> 308 \<Longrightarrow> goto_ok s"
  and shift_checked: "0 \<le> i \<Longrightarrow> i \<le> 784 \<Longrightarrow> shift_ok i"
  and rule_checked: "1 < r \<Longrightarrow> r \<le> 153 \<Longrightarrow> rule_ok r"
  and token_checked: "1 \<le> t \<Longrightarrow> t \<le> 344 \<Longrightarrow> 0 < entry translate_table t \<and> entry translate_table t \<le> 104"
  using tables_checked unfolding list_all_iff set_upto Ball_def atLeastAtMost_iff by (simp_all only: zless_imp_add1_zle[of 1, simplified])

lemma token_range: "0 < t \<Longrightarrow> 0 < yytranslate t \<and> yytranslate t \<le> 104"
  using token_checked[of t] by (simp add: yytranslate_def yyconstants)

definition stacked_state :: "int \<Rightarrow> bool" where
  "stacked_state s \<longleftrightarrow> 0 \<le> s \<and> s \<le> 308 \<and> s \<noteq> yyfinal"

lemma edge_state: "edge_ok t X s \<Longrightarrow> stacked_state s"
  by (simp add: edge_ok_def stacked_state_def)

lemma stacked_0: "stacked_state 0"
  by (simp add: stacked_state_def yyconstants)

text \<open>What is found in \<open>yytable\<close> for a token.\<close>

definition token_action :: "int \<Rightarrow> int \<Rightarrow> int option" where
  "token_action t X =
     (let i = entry yypact t + X in
      if entry yypact t = yypact_ninf \<or> i < 0 \<or> yylast < i \<or> entry yycheck i \<noteq> X then None
      else Some (entry yytable i))"

lemma token_shift:
  assumes "token_action t X = Some s" "stacked_state t" "0 \<le> X" "X \<le> 104"
  shows "X \<noteq> yyterror \<and> (X = yyeof \<and> s = yyfinal \<and> t = 69 \<or>
    edge_ok t X s \<and> (X = yyeof \<longrightarrow> t = 0 \<or> \<not> ended (entry yystos t)) \<and>
      (query_token X \<longrightarrow> \<not> query_symbol (entry yystos t)))"
proof -
  let ?p = "entry yypact t" and ?i = "entry yypact t + X"
  have a: "?p \<noteq> yypact_ninf" "0 \<le> ?i" "?i \<le> 784" "entry yycheck ?i = X" "entry yytable ?i = s"
    using assms(1) by (auto simp: token_action_def Let_def yyconstants split: if_splits)
  have "state_ok t" using assms(2) state_checked by (simp add: stacked_state_def)
  then have p: "- 92 \<le> ?p" "?p \<le> 689" "t \<in> set (entry pact_states (?p + 92))"
    using a(1) by (auto simp: state_ok_def Let_def)
  have "entry pact_states (?p + 92) \<noteq> []" using p(3) by auto
  moreover have "shift_ok ?i" using a shift_checked by simp
  ultimately show ?thesis using p a assms(3,4)
    by (auto simp: shift_ok_def Let_def list_all_iff split: if_splits)
qed

lemma no_error_shift: "stacked_state s \<Longrightarrow> error_shift s = None"
  using token_shift[of s yyterror]
  by (auto simp: error_shift_def token_action_def Let_def yyconstants split: if_splits)

lemma ended_action:
  assumes "stacked_state s" "s \<noteq> 0" "ended (entry yystos s)"
  shows "if entry yypact s = yypact_ninf then entry yydefact s \<noteq> 0 else token_action s yyeof = Some yyfinal"
  using state_checked[of s] assms
  by (auto simp: state_ok_def stacked_state_def token_action_def Let_def yyconstants)

lemma goto_edge: "stacked_state t \<Longrightarrow> X \<in> set (entry state_wants t) \<Longrightarrow> edge_ok t X (yygoto X t)"
  using goto_checked[of t] by (auto simp: goto_ok_def stacked_state_def list_all_iff)

lemma default_item:
  assumes "stacked_state s" "entry yydefact s = r" "r \<noteq> 0"
  shows "1 < r \<and> r \<le> 153 \<and> (r, entry yyr2 r) \<in> set (entry state_items s)"
  using state_checked[of s] assms by (auto simp: state_ok_def stacked_state_def Let_def)

lemma edge_item:
  assumes "edge_ok t X s" "(r, d) \<in> set (entry state_items s)"
  shows "0 < d \<and> has_item t (r, d - 1) \<and> rhs_symbol r (d - 1) = X"
  using assms state_checked[of s]
  by (auto simp: edge_ok_def came_from_def state_ok_def symbol_ok_def list_all_iff)

section \<open>Stacks\<close>

fun path :: "yyentry list \<Rightarrow> bool" where
  "path [] = False"
| "path [(s, v, l)] = (s = 0)"
| "path ((s, v, l) # (t, w, k) # st) = (edge_ok t (entry yystos s) s \<and> path ((t, w, k) # st))"

definition entry_symbol :: "yyentry \<Rightarrow> int" where
  "entry_symbol e = entry yystos (fst e)"

lemma path_top: "path st \<Longrightarrow> stacked_state (top_state st)"
  by (cases st rule: path.cases) (auto simp: top_state_def edge_state stacked_0)

lemma path_Cons: "path st \<Longrightarrow> edge_ok (top_state st) X s \<Longrightarrow> path ((s, v, l) # st)"
  by (cases st rule: path.cases) (auto simp: top_state_def edge_ok_def)

lemma path_ConsD: "path ((s, v, l) # st) \<Longrightarrow> st \<noteq> [] \<Longrightarrow> edge_ok (top_state st) (entry yystos s) s \<and> path st"
  by (cases st rule: path.cases) (auto simp: top_state_def)

lemma path_states: "path st \<Longrightarrow> e \<in> set st \<Longrightarrow> stacked_state (fst e)"
  by (induction st rule: path.induct) (auto simp: edge_state stacked_0)

text \<open>What an item of the top state says of the entries below.\<close>

lemma items_below:
  assumes "path st" "(r, d) \<in> set (entry state_items (top_state st))" "0 < d" "r \<noteq> 1"
  shows "nat d < length st \<and> path (drop (nat d) st) \<and> entry yyr1 r \<in> set (entry state_wants (top_state (drop (nat d) st)))
    \<and> (\<forall>k < nat d. entry_symbol (st ! k) = rhs_symbol r (d - 1 - int k))"
  using assms
proof (induction "nat d" arbitrary: st d)
  case (Suc n)
  obtain s v l st' where st: "st = (s, v, l) # st'" using Suc.prems(1) by (cases st) auto
  have "st' \<noteq> []"
  proof
    assume "st' = []"
    then have "(r, d) \<in> set (entry state_items 0)" using Suc.prems st by (simp add: top_state_def)
    then show False using Suc.prems(4) by (simp add: table_entries)
  qed
  then have e: "edge_ok (top_state st') (entry yystos s) s" "path st'"
    using path_ConsD Suc.prems(1) unfolding st by blast+
  have i: "has_item (top_state st') (r, d - 1)" "rhs_symbol r (d - 1) = entry yystos s"
    using edge_item[OF e(1)] Suc.prems(2) by (auto simp: st top_state_def)
  have n: "n = nat (d - 1)" "nat d = Suc n" using Suc.hyps(2) by simp_all
  show ?case
  proof (cases "d = 1")
    case True
    then show ?thesis using e(2) i \<open>st' \<noteq> []\<close> Suc.prems(4)
      by (auto simp: st has_item_def entry_symbol_def)
  next
    case False
    then have d: "0 < d - 1" "(r, d - 1) \<in> set (entry state_items (top_state st'))"
      using Suc.prems(3) i(1) by (auto simp: has_item_def)
    note IH = Suc.hyps(1)[OF n(1) e(2) d(2) d(1) Suc.prems(4)]
    have "entry_symbol (st ! k) = rhs_symbol r (d - 1 - int k)" if "k < nat d" for k
    proof (cases k)
      case 0 then show ?thesis using i(2) by (simp add: st entry_symbol_def)
    next
      case (Suc m)
      then show ?thesis using IH that n by (simp add: st algebra_simps)
    qed
    then show ?thesis using IH n by (simp add: st)
  qed
qed simp

definition rhs :: "int \<Rightarrow> int list" where
  "rhs r = map (rhs_symbol r) [0..entry yyr2 r - 1]"

end
