(* ===== verification/ParserMemory.thy ===== *)
theory ParserMemory
  imports ParserPaths "HOL-Library.Multiset"
begin

text \<open>
  The memory of the parser. A symbol has a kind, the member of the union that its value holds; the
  objects that the values of the symbols own are the strings of tokens, the expressions on \<open>m_vars\<close> and
  the statements on \<open>m_stmts\<close>. \<open>act_ok\<close> says that an action finds the values of its right-hand side, whose
  objects are on top of the lists of the context and not deleted, and leaves the value of its left-hand
  side in their place: nothing undefined happens, nothing is deleted twice, and every object of the
  right-hand side has been taken from the lists. \<open>actions_ok\<close> says so of every rule.
\<close>

section \<open>Kinds\<close>

datatype kind = Other | Columns | Text | Expression | Type_number | Statement | Statements

definition kind_of :: "int \<Rightarrow> kind" where
  "kind_of X =
     (if 42 \<le> X \<and> X \<le> 89 \<or> X = 123 then Text
      else if X = 109 then Type_number
      else if 106 \<le> X \<and> X \<le> 117 \<or> X = 122 then Expression
      else if X = 119 \<or> X = 125 \<or> X = 128 then Statements
      else if 118 \<le> X \<and> X \<le> 133 then Statement
      else if X = 134 then Columns
      else Other)"

fun has_kind :: "kind \<Rightarrow> sem \<Rightarrow> bool" where
  "has_kind Other v = True"
| "has_kind Columns v = True"
| "has_kind Text (Str i s) = True"
| "has_kind Expression (Exp i e) = True"
| "has_kind Type_number (Integer n) = (n \<in> {PGS_RECORD, PGS_INTEGER, PGS_REAL, PGS_STRING})"
| "has_kind Statement (Stm i line st) = True"
| "has_kind Statements (Lst i ls) = True"
| "has_kind k v = False"

lemma has_kind_iffs [simp]:
  "has_kind Text v \<longleftrightarrow> (\<exists>i s. v = Str i s)"
  "has_kind Expression v \<longleftrightarrow> (\<exists>i e. v = Exp i e)"
  "has_kind Type_number v \<longleftrightarrow> (\<exists>n \<in> {PGS_RECORD, PGS_INTEGER, PGS_REAL, PGS_STRING}. v = Integer n)"
  "has_kind Statement v \<longleftrightarrow> (\<exists>i line st. v = Stm i line st)"
  "has_kind Statements v \<longleftrightarrow> (\<exists>i ls. v = Lst i ls)"
  by (cases v; auto)+

fun text_ids :: "kind \<Rightarrow> sem \<Rightarrow> nat list" where
  "text_ids Text (Str i s) = [i]"
| "text_ids _ _ = []"

fun var_ids :: "kind \<Rightarrow> sem \<Rightarrow> nat list" where
  "var_ids Expression (Exp i e) = [i]"
| "var_ids _ _ = []"

fun stmt_ids :: "kind \<Rightarrow> sem \<Rightarrow> nat list" where
  "stmt_ids Statement (Stm i line st) = [i]"
| "stmt_ids Statements (Lst i ls) = [i]"
| "stmt_ids _ _ = []"

definition ids :: "(kind \<Rightarrow> sem \<Rightarrow> nat list) \<Rightarrow> kind list \<Rightarrow> sem list \<Rightarrow> nat list" where
  "ids f ks vs = concat (rev (map2 f ks vs))"

text \<open>The kinds of the right-hand side of a rule, and of its left-hand side.\<close>

definition rule_types :: "(kind list \<times> kind) list" where
  "rule_types =
  [([], Other), ([Other, Other], Other),
   ([Text, Other, Expression, Other, Other, Expression, Other], Expression),
   ([Text, Other, Expression, Other], Expression), ([Other, Other, Text, Other], Expression),
   ([Other, Other, Text, Other], Expression), ([Other, Other, Expression, Other], Expression),
   ([Text], Expression), ([Text], Expression), ([Text], Expression), ([Text], Expression),
   ([Other, Text, Other], Expression), ([Expression], Expression), ([Other, Expression, Other], Expression),
   ([Expression], Expression), ([Other, Expression], Expression), ([Other, Expression], Expression),
   ([Other, Expression], Expression), ([Expression], Expression),
   ([Other, Other, Expression, Other, Type_number, Other], Expression), ([Other], Type_number),
   ([Other], Type_number), ([Other], Type_number), ([Other], Type_number), ([Expression], Expression),
   ([Expression, Other, Expression], Expression), ([Expression, Other, Expression], Expression),
   ([Expression, Other, Expression], Expression), ([Expression], Expression),
   ([Expression, Other, Expression], Expression), ([Expression, Other, Expression], Expression),
   ([Expression], Expression), ([Expression, Other, Expression], Expression),
   ([Expression, Other, Expression], Expression), ([Expression, Other, Expression], Expression),
   ([Expression, Other, Expression], Expression), ([Expression], Expression),
   ([Expression, Other, Expression], Expression), ([Expression, Other, Expression], Expression),
   ([Expression, Other, Expression], Expression), ([Expression], Expression),
   ([Expression, Other, Expression], Expression), ([Expression], Expression),
   ([Expression, Other, Expression], Expression), ([Expression], Expression),
   ([Other, Other, Expression, Other, Expression, Other], Expression),
   ([Other, Other, Expression, Other, Expression, Other, Expression, Other], Expression),
   ([Other, Other, Expression, Other, Expression, Other, Expression, Other, Expression, Other], Expression),
   ([Other, Other, Expression, Other, Expression, Other, Expression, Other], Expression),
   ([Other, Other, Expression, Other, Expression, Other, Expression, Other, Expression, Other], Expression),
   ([Other, Other, Expression, Other, Expression, Other, Expression, Other, Expression, Other, Expression, Other], Expression),
   ([Other, Other, Expression, Other, Expression, Other], Expression),
   ([Other, Other, Expression, Other, Expression, Other, Expression, Other], Expression),
   ([Other, Other, Expression, Other, Expression, Other, Expression, Other, Expression, Other], Expression),
   ([Other, Other, Expression, Other], Expression),
   ([Other, Other, Expression, Other, Expression, Other], Expression),
   ([Other, Other, Expression, Other], Expression),
   ([Other, Other, Expression, Other, Expression, Other], Expression),
   ([Other, Other, Expression, Other, Expression, Other, Expression, Other], Expression),
   ([Other, Other, Expression, Other, Expression, Other, Expression, Other, Expression, Other], Expression),
   ([Other, Other, Expression, Other, Expression, Other], Expression),
   ([Other, Other, Expression, Other, Expression, Other, Expression, Other], Expression),
   ([Other, Other, Expression, Other, Expression, Other, Expression, Other, Expression, Other], Expression),
   ([Other, Other, Expression, Other, Expression, Other], Expression),
   ([Other, Other, Expression, Other, Expression, Other, Expression, Other], Expression),
   ([Other, Other, Expression, Other, Expression, Other, Expression, Other, Expression, Other], Expression),
   ([Other, Other, Expression, Other, Expression, Other], Expression),
   ([Other, Other, Expression, Other, Expression, Other, Expression, Other], Expression),
   ([Other, Other, Expression, Other, Expression, Other, Expression, Other, Expression, Other], Expression),
   ([Other, Other, Expression, Other, Expression, Other], Expression),
   ([Other, Other, Expression, Other, Expression, Other, Expression, Other], Expression),
   ([Other, Other, Expression, Other, Expression, Other, Expression, Other, Expression, Other], Expression),
   ([Statement], Statement), ([Statement], Statement), ([Statement], Statement),
   ([Statement, Other], Statement), ([Statement, Other], Statement), ([Statement, Other], Statement),
   ([Statement, Other], Statement), ([Statement, Other], Statement), ([Statement], Statements),
   ([Statements, Statement], Statements), ([Other, Other], Statement),
   ([Other, Statements, Other], Statement), ([Expression], Statement), ([Text], Expression), ([Text], Text),
   ([Text], Text), ([Text], Text), ([Text], Text), ([Text], Text), ([Text], Text), ([Text], Text),
   ([Text], Text), ([Text], Text), ([Text], Text), ([Text], Text), ([Text], Text), ([Text], Text),
   ([Text], Text), ([Text], Text), ([Text], Text), ([Text], Text), ([Text], Text), ([Text], Text),
   ([Text], Text), ([Text], Text), ([Text], Text), ([Text], Text), ([Text], Text), ([Text], Text),
   ([Text], Text), ([Text], Text), ([Text], Text), ([Text], Text), ([Text], Text), ([Text], Text),
   ([Text], Text), ([Text], Text), ([Text], Text), ([Text], Text), ([Text], Text), ([Text], Text),
   ([Text], Text), ([Text], Text), ([Text], Text), ([Text], Text), ([Text], Text), ([Text], Text),
   ([Text], Text), ([Other, Statements], Statement), ([Statement], Statements),
   ([Statements, Other, Statement], Statements), ([Text], Statement),
   ([Text, Other, Columns, Other], Statement), ([Other, Statements], Statement), ([Statement], Statements),
   ([Statements, Other, Statement], Statements), ([Text, Other, Expression], Statement),
   ([Text, Other, Expression, Other, Other, Expression, Other, Other, Expression], Statement),
   ([Text, Other, Expression], Statement), ([Other, Expression, Statement], Statement),
   ([Other, Expression, Statement, Other, Statement], Statement), ([Other, Expression, Statement], Statement),
   ([Other], Statement), ([Other], Statement), ([Other], Statement), ([Other, Expression], Statement),
   ([Other, Expression], Statement), ([Other, Other, Text, Other, Expression, Other, Other], Statement),
   ([Text], Columns), ([Columns, Other, Text], Columns), ([Other], Other), ([Statements, Other], Other)]"

lemmas rule_types_entries = entries_of[OF rule_types_def, simplified]

lemma rule_types_checked:
  "list_all (\<lambda>r. entry rule_types r = (map kind_of (rhs r), kind_of (entry yyr1 r))) [2..153]"
  by (simp only: rule_types_entries table_entries evaluating rhs_def rhs_symbol_def kind_of_def list.map)

section \<open>Actions\<close>

text \<open>No object is held twice, and those held have not been deleted.\<close>

definition owned :: "nat multiset \<Rightarrow> nat \<Rightarrow> nat list \<Rightarrow> bool" where
  "owned M n D \<longleftrightarrow> (\<forall>i. count M i \<le> 1) \<and> (\<forall>i \<in># M. i < n \<and> i \<notin> set D) \<and> (\<forall>i \<in> set D. i < n)"

definition good_memory :: "nat list \<Rightarrow> pgsContext \<Rightarrow> bool" where
  "good_memory ts cx \<longleftrightarrow> owned (mset ts + mset (cx_vars cx) + mset (cx_stmts cx)) (cx_next cx) (cx_deleted cx)"

lemma owned_new: "owned M n D \<Longrightarrow> owned (add_mset n M) (Suc n) D"
  unfolding owned_def
proof (elim conjE, intro conjI allI ballI)
  fix i assume "\<forall>i. count M i \<le> 1" "\<forall>i \<in># M. i < n \<and> i \<notin> set D"
  then show "count (add_mset n M) i \<le> 1" by (metis count_add_mset count_eq_zero_iff le_numeral_extra(4) less_irrefl One_nat_def)
qed (auto simp: less_Suc_eq)

lemma owned_new2: "owned (add_mset i M) n D \<Longrightarrow> owned (add_mset i (add_mset n M)) (Suc n) D"
  using owned_new[of "add_mset i M" n D] by (simp add: add_mset_commute)

lemma owned_delete: assumes "owned (add_mset i M) n D" shows "owned M n (i # D)"
proof -
  have "count M i = 0" "i < n" using assms by (auto simp: owned_def dest: spec[of _ i])
  moreover have "count M j \<le> 1" for j
    using assms unfolding owned_def by (metis count_add_mset le_SucI le_trans lessI less_imp_le_nat)
  ultimately show ?thesis using assms by (auto simp: owned_def count_eq_zero_iff)
qed

lemma owned_mono: "owned M n D \<Longrightarrow> N \<subseteq># M \<Longrightarrow> owned N n D"
  unfolding owned_def by (meson dual_order.trans mset_subset_eq_count mset_subset_eqD)

lemma owned_live: "owned M n D \<Longrightarrow> i \<in># M \<Longrightarrow> i < n \<and> i \<notin> set D"
  by (simp add: owned_def)

lemma owned_later: "owned (add_mset i (add_mset j M)) n D \<Longrightarrow> owned M (Suc n) D"
  by (rule owned_mono[of "add_mset i (add_mset j M)"]) (auto simp: owned_def less_SucI)

definition act_result :: "kind \<Rightarrow> nat list \<Rightarrow> nat list \<Rightarrow> nat list \<Rightarrow> (int \<times> stmt) list option \<Rightarrow> ((unit + sem) \<times> pgsContext) option \<Rightarrow> bool" where
  "act_result k V S F pr res = (case res of
     Some (Inr v, cx) \<Rightarrow> has_kind k v \<and> cx_vars cx = var_ids k v @ V \<and> cx_stmts cx = stmt_ids k v @ S
       \<and> good_memory (text_ids k v @ F) cx \<and> (k \<noteq> Other \<longrightarrow> cx_program cx = pr)
   | _ \<Rightarrow> False)"

definition act_ok :: "kind list \<times> kind \<Rightarrow> (sem list \<Rightarrow> sem act) \<Rightarrow> bool" where
  "act_ok = (\<lambda>(ks, k) f. \<forall>vs cx V S F.
     list_all2 has_kind ks vs \<longrightarrow> cx_vars cx = ids var_ids ks vs @ V \<longrightarrow> cx_stmts cx = ids stmt_ids ks vs @ S \<longrightarrow>
     good_memory (ids text_ids ks vs @ F) cx \<longrightarrow> act_result k V S F (cx_program cx) (f vs cx))"

lemma bind_allocate: "bind_prog allocate k cx = k (cx_next cx) (cx\<lparr>cx_next := Suc (cx_next cx)\<rparr>)"
  by (simp add: bind_prog_def allocate_def)

lemma bind_pdelete:
  "owned M (cx_next cx) (cx_deleted cx) \<Longrightarrow> i \<in># M \<Longrightarrow>
    bind_prog (pdelete i) k cx = k () (cx\<lparr>cx_deleted := i # cx_deleted cx\<rparr>)"
  using owned_live by (force simp: bind_prog_def pdelete_def is_live_def)

lemma take_str_run:
  "owned M (cx_next cx) (cx_deleted cx) \<Longrightarrow> i \<in># M \<Longrightarrow>
    bind_prog (take_str (Str i s)) k cx = k s (cx\<lparr>cx_deleted := i # cx_deleted cx\<rparr>)"
  using owned_live by (force simp: bind_prog_def take_str_def reads_def ret_def pdelete_def is_live_def)

lemma bind_pop_var: "cx_vars cx = i # is \<Longrightarrow> bind_prog pop_var k cx = k () (cx\<lparr>cx_vars := is\<rparr>)"
  by (simp add: bind_prog_def pop_var_def)

lemma bind_pop_stmt: "cx_stmts cx = i # is \<Longrightarrow> bind_prog pop_stmt k cx = k () (cx\<lparr>cx_stmts := is\<rparr>)"
  by (simp add: bind_prog_def pop_stmt_def)

lemma bind_push: "bind_prog (push_var i) k cx = k () (cx\<lparr>cx_vars := i # cx_vars cx\<rparr>)"
  "bind_prog (push_stmt i) k cx = k () (cx\<lparr>cx_stmts := i # cx_stmts cx\<rparr>)"
  by (simp_all add: push_var_def push_stmt_def run_simps)

lemma pop_vars_numeral:
  "pop_vars (numeral n) = bind_prog pop_var (\<lambda>_. pop_vars (pred_numeral n))"
  "pop_vars 1 = bind_prog pop_var (\<lambda>_. ret ())"
  by (simp_all add: numeral_eq_Suc)

lemmas act_simps = act_ok_def ids_def list_all2_Cons1 arg_def build_expr_def build_stmt_def
  binary_action_def unary_action_def word_action_def bind_assoc

lemmas step_simps = act_result_def good_memory_def take_str_run bind_allocate bind_pdelete bind_pop_var bind_pop_stmt bind_push pop_vars_numeral
  prog_simps run_simps

lemmas owned_intros = owned_new owned_new2 owned_delete

lemma postfix_ok:
  "list_all (\<lambda>r. act_ok (entry rule_types r) (postfix_action r)) [2..13]"
  by (simp only: evaluating, intro conjI TrueI;
      auto simp: rule_types_entries postfix_action_def act_simps step_simps intro!: owned_intros elim!: owned_mono)

lemma unary_cast_ok:
  "list_all (\<lambda>r. act_ok (entry rule_types r) (unary_cast_action r)) [14..23]"
  by (simp only: evaluating, intro conjI TrueI;
      auto simp: rule_types_entries unary_cast_action_def act_simps step_simps cast_of_def
        PGS_RECORD_def PGS_INTEGER_def PGS_REAL_def PGS_STRING_def intro!: owned_intros elim!: owned_mono)

lemma operators_ok:
  "list_all (\<lambda>r. act_ok (entry rule_types r) (operator_action r)) [24..44]"
  by (simp only: evaluating, intro conjI TrueI;
      auto simp: rule_types_entries operator_action_def act_simps step_simps intro!: owned_intros elim!: owned_mono)

lemma list_ok:
  "list_all (\<lambda>r. act_ok (entry rule_types r) (list_action line r)) [80..85]"
  by (simp only: evaluating, intro conjI TrueI;
      auto simp: rule_types_entries list_action_def act_simps step_simps
        first_action_def append_action_def ctx_stmt_list_def as_stmt_def intro!: owned_intros elim!: owned_mono)

lemma declarations_ok:
  "list_all (\<lambda>r. act_ok (entry rule_types r) (declaration_action line r)) [130..134]"
  by (simp only: evaluating, intro conjI TrueI;
      auto simp: rule_types_entries declaration_action_def act_simps step_simps
        first_action_def append_action_def ctx_stmt_list_def as_stmt_def clear_columns_def intro!: owned_intros elim!: owned_mono)

lemma assigns_ok:
  "list_all (\<lambda>r. act_ok (entry rule_types r) (assign_action line r)) [135..140]"
  by (simp only: evaluating, intro conjI TrueI;
      auto simp: rule_types_entries assign_action_def act_simps step_simps
        first_action_def append_action_def ctx_stmt_list_def as_stmt_def intro!: owned_intros elim!: owned_mono)

lemma controls_ok:
  "list_all (\<lambda>r. act_ok (entry rule_types r) (control_action line r)) [141..146]"
  by (simp only: evaluating, intro conjI TrueI;
      auto simp: rule_types_entries control_action_def act_simps step_simps ctx_stmt_list_def
        intro!: owned_intros elim!: owned_mono elim: owned_later)

lemma procedures_ok:
  "list_all (\<lambda>r. act_ok (entry rule_types r) (procedure_action line r)) [147..149]"
  by (simp only: evaluating, intro conjI TrueI;
      auto simp: rule_types_entries procedure_action_def act_simps step_simps intro!: owned_intros elim!: owned_mono)

section \<open>Generators\<close>

text \<open>The defaults are put on the list on top of the operands.\<close>

definition default_ok :: "expr act \<Rightarrow> bool" where
  "default_ok m \<longleftrightarrow> (\<exists>e. m = stacked e)"

lemma defaults_run:
  assumes "list_all default_ok ds"
  shows "\<exists>es cx' is. map_prog (\<lambda>m. m) ds cx = Some (Inr es, cx') \<and> length is = length ds \<and>
    cx_vars cx' = is @ cx_vars cx \<and> cx_stmts cx' = cx_stmts cx \<and> cx_program cx' = cx_program cx \<and> cx_next cx \<le> cx_next cx' \<and> cx_deleted cx' = cx_deleted cx"
  using assms
proof (induction ds arbitrary: cx)
  case Nil
  show ?case by (simp add: ret_apply)
next
  case (Cons m ds)
  obtain e where m: "m = stacked e" using Cons.prems by (auto simp: default_ok_def)
  let ?cx = "cx\<lparr>cx_next := Suc (cx_next cx), cx_vars := cx_next cx # cx_vars cx\<rparr>"
  have "m cx = Some (Inr (e (cx_next cx)), ?cx)"
    by (simp add: m stacked_def bind_allocate bind_push ret_apply)
  moreover obtain es cx' "is" where "map_prog (\<lambda>m. m) ds ?cx = Some (Inr es, cx')" "length is = length ds"
    "cx_vars cx' = is @ cx_vars ?cx" "cx_stmts cx' = cx_stmts ?cx" "cx_program cx' = cx_program ?cx"
    "cx_next ?cx \<le> cx_next cx'" "cx_deleted cx' = cx_deleted ?cx"
    using Cons.IH[of ?cx] Cons.prems by auto
  ultimately show ?case
    by (auto simp: bind_Inr ret_apply intro!: exI[of _ "is @ [cx_next cx]"])
qed

lemma pop_vars_run:
  "n \<le> length (cx_vars cx) \<Longrightarrow> bind_prog (pop_vars n) k cx = k () (cx\<lparr>cx_vars := drop n (cx_vars cx)\<rparr>)"
proof (induction n arbitrary: cx)
  case (Suc n)
  obtain i "is" where c: "cx_vars cx = i # is" using Suc.prems by (cases "cx_vars cx") auto
  then show ?case
    using Suc.IH[of "cx\<lparr>cx_vars := is\<rparr>"] Suc.prems by (simp add: bind_assoc bind_pop_var)
qed (simp add: prog_simps)

lemma owned_stacked: "owned M n D \<Longrightarrow> N \<subseteq># M \<Longrightarrow> n \<le> m \<Longrightarrow> owned (add_mset m N) (Suc m) D"
  by (rule owned_new, drule (1) owned_mono) (auto simp: owned_def)

lemma operands:
  assumes "list_all2 has_kind (concat (replicate g [Expression, Other])) ws"
  shows "(\<forall>i < g. \<exists>j e. ws ! (2 * i) = Exp j e) \<and> length (ids var_ids (concat (replicate g [Expression, Other])) ws) = g
    \<and> ids text_ids (concat (replicate g [Expression, Other])) ws = []
    \<and> ids stmt_ids (concat (replicate g [Expression, Other])) ws = []"
  using assms
proof (induction g arbitrary: ws)
  case (Suc g)
  obtain j e u us where ws: "ws = Exp j e # u # us" "list_all2 has_kind (concat (replicate g [Expression, Other])) us"
    using Suc.prems by (auto simp: list_all2_Cons1)
  have "\<exists>j e. ws ! (2 * i) = Exp j e" if "i < Suc g" for i
    using Suc.IH[OF ws(2)] that ws(1) by (cases i) auto
  then show ?case using Suc.IH[OF ws(2)] ws(1) by (auto simp: ids_def)
qed (simp add: ids_def)

lemma map_prog_reads:
  "(\<And>x. x \<in> set xs \<Longrightarrow> \<exists>y. f x cx = Some (Inr y, cx)) \<Longrightarrow> \<exists>ys. map_prog f xs cx = Some (Inr ys, cx)"
proof (induction xs)
  case (Cons x xs)
  then obtain y ys where "f x cx = Some (Inr y, cx)" "map_prog f xs cx = Some (Inr ys, cx)" by fastforce
  then show ?case by (simp add: bind_Inr ret_apply)
qed (simp add: ret_apply)

lemma generator_ok:
  assumes ds: "list_all default_ok ds" and ks: "ks = Other # Other # concat (replicate g [Expression, Other])"
  shows "act_ok (ks, Expression) (generator mk g ds)"
proof -
  have "act_result Expression V S F (cx_program cx) (generator mk g ds vs cx)"
    if vs: "list_all2 has_kind ks vs" and V: "cx_vars cx = ids var_ids ks vs @ V"
      and S: "cx_stmts cx = ids stmt_ids ks vs @ S" and F: "good_memory (ids text_ids ks vs @ F) cx" for vs cx V S F
  proof -
    obtain u w ws where w: "vs = u # w # ws" "list_all2 has_kind (concat (replicate g [Expression, Other])) ws"
      using vs unfolding ks by (auto simp: list_all2_Cons1)
    note o = operands[OF w(2)]
    have "\<exists>e. expr_of (arg vs (2 * i + 3)) cx = Some (Inr e, cx)" if "i \<in> set [0..<g]" for i
    proof -
      have "i < g" using that by simp
      then obtain j e where "ws ! (2 * i) = Exp j e" using o by blast
      then have "arg vs (2 * i + 3) = Exp j e" by (simp add: arg_def w(1) numeral_eq_Suc)
      then show ?thesis by (simp add: ret_apply)
    qed
    from map_prog_reads[where f = "\<lambda>i. expr_of (arg vs (2 * i + 3))", OF this] obtain es where
      es: "map_prog (\<lambda>i. expr_of (arg vs (2 * i + 3))) [0..<g] cx = Some (Inr es, cx)" by blast
    obtain fs cx' "is" where d: "map_prog (\<lambda>m. m) ds cx = Some (Inr fs, cx')" "length is = length ds"
      "cx_vars cx' = is @ cx_vars cx" "cx_stmts cx' = cx_stmts cx" "cx_program cx' = cx_program cx"
      "cx_next cx \<le> cx_next cx'" "cx_deleted cx' = cx_deleted cx"
      using defaults_run[OF ds] by blast
    have "ids f ks vs = ids f (concat (replicate g [Expression, Other])) ws" if "\<And>v. f Other v = []" for f
      using that by (simp add: ids_def ks w(1))
    then have v: "cx_vars cx = ids var_ids (concat (replicate g [Expression, Other])) ws @ V" "cx_stmts cx = S" "good_memory F cx"
      using V S F o by simp_all
    have "owned (add_mset (cx_next cx') (mset F + mset V + mset S)) (Suc (cx_next cx')) (cx_deleted cx')"
      using v d by (intro owned_stacked[of _ "cx_next cx"]) (auto simp: good_memory_def)
    then show ?thesis
      using v d o es
      by (simp add: generator_def bind_Inr build_expr_def bind_allocate pop_vars_run bind_push ret_apply
          act_result_def good_memory_def)
  qed
  then show ?thesis by (simp add: act_ok_def)
qed

lemma defaults_ok: "default_ok ctx_zero" "default_ok ctx_one" "default_ok (ctx_seed E)" "default_ok (ctx_encoding E)"
  by (auto simp: default_ok_def ctx_zero_def ctx_one_def ctx_seed_def ctx_encoding_def)

lemma number_gen_ok: "list_all (\<lambda>r. act_ok (entry rule_types r) (number_gen_action E r)) [45..50]"
  by (simp only: evaluating, intro conjI TrueI)
    (simp only: rule_types_entries number_gen_action_def evaluating, rule generator_ok,
      simp_all add: defaults_ok numeral_eq_Suc)+

lemma text_gen_ok: "list_all (\<lambda>r. act_ok (entry rule_types r) (text_gen_action E r)) [51..59]"
  by (simp only: evaluating, intro conjI TrueI)
    (simp only: rule_types_entries text_gen_action_def evaluating, rule generator_ok,
      simp_all add: defaults_ok numeral_eq_Suc)+

lemma instant_gen_ok: "list_all (\<lambda>r. act_ok (entry rule_types r) (instant_gen_action E r)) [60..68]"
  by (simp only: evaluating, intro conjI TrueI)
    (simp only: rule_types_entries instant_gen_action_def evaluating, rule generator_ok,
      simp_all add: defaults_ok numeral_eq_Suc)+

lemma reference_gen_ok: "list_all (\<lambda>r. act_ok (entry rule_types r) (reference_gen_action E r)) [69..71]"
  by (simp only: evaluating, intro conjI TrueI)
    (simp only: rule_types_entries reference_gen_action_def evaluating, rule generator_ok,
      simp_all add: defaults_ok numeral_eq_Suc)+

section \<open>Every rule\<close>

lemma same_ok: "act_ok ([k], k) (\<lambda>vs. ret (arg vs 1))" "act_ok ([k, Other], k) (\<lambda>vs. ret (arg vs 1))"
  by (auto simp: act_ok_def act_result_def list_all2_Cons1 ids_def arg_def ret_apply)

lemma statements_ok: "list_all (\<lambda>r. act_ok (entry rule_types r) (\<lambda>vs. ret (arg vs 1))) [72..79]"
  by (simp only: evaluating rule_types_entries same_ok)

lemma queries_ok: "list_all (\<lambda>r. act_ok (entry rule_types r) (\<lambda>vs. ret (arg vs 1))) [86..129]"
  by (simp only: evaluating rule_types_entries same_ok)

lemma units_ok: "list_all (\<lambda>r. act_ok (entry rule_types r) (yyaction E line r)) [150..153]"
  by (simp only: evaluating, intro conjI TrueI;
      auto simp: yyaction_def rule_types_entries column_action_def unit_action_def add_column_def act_simps step_simps
        intro!: owned_intros elim!: owned_mono)

lemma actions_ok:
  assumes "1 < r" "r \<le> 153"
  shows "act_ok (map kind_of (rhs r), kind_of (entry yyr1 r)) (yyaction E line r)"
proof -
  have "act_ok (entry rule_types r) (yyaction E line r)"
  proof -
    have group: ?thesis if "list_all (\<lambda>r. act_ok (entry rule_types r) (f r)) [a..b]"
      "\<And>vs. yyaction E line r vs = f r vs" "a \<le> r" "r \<le> b" for f a b
    proof -
      have "yyaction E line r = f r" using that(2) by (rule ext)
      then show ?thesis using that(1,3,4) unfolding list_all_iff set_upto by simp
    qed
    consider "r \<le> 13" | "13 < r" "r \<le> 23" | "23 < r" "r \<le> 44" | "44 < r" "r \<le> 50" | "50 < r" "r \<le> 59"
      | "59 < r" "r \<le> 68" | "68 < r" "r \<le> 71" | "71 < r" "r \<le> 79" | "79 < r" "r \<le> 85" | "85 < r" "r \<le> 129"
      | "129 < r" "r \<le> 134" | "134 < r" "r \<le> 140" | "140 < r" "r \<le> 146" | "146 < r" "r \<le> 149"
      | "149 < r" using not_le by blast
    then show ?thesis
      by cases
        (rule group[OF postfix_ok] group[OF unary_cast_ok] group[OF operators_ok] group[OF number_gen_ok]
          group[OF text_gen_ok] group[OF instant_gen_ok] group[OF reference_gen_ok] group[OF statements_ok]
          group[OF list_ok] group[OF queries_ok] group[OF declarations_ok] group[OF assigns_ok]
          group[OF controls_ok] group[OF procedures_ok] group[OF units_ok];
          (insert assms, simp add: yyaction_def; fail))+
  qed
  then show ?thesis using rule_types_checked assms unfolding list_all_iff set_upto by simp
qed

end
