(* ===== verification/ParserRun.thy ===== *)
theory ParserRun
  imports ParserMemory
begin

text \<open>
  The run of the parser on a finite sequence of tokens. \<open>yields\<close> is the language of the grammar whose rules
  are in \<open>yyrhs\<close>; \<open>parser_ok\<close> is what holds between two steps: the stack is a path, its symbols derive the
  tokens that have been shifted, its values own exactly what the lists of the context hold, and nothing
  has been reported. Every step keeps it or ends the parse, and gets closer to the end.
\<close>

section \<open>The language\<close>

inductive yields :: "int list \<Rightarrow> int list \<Rightarrow> bool" where
  yields_Nil: "yields [] []"
| yields_token: "0 \<le> X \<Longrightarrow> X \<le> 104 \<Longrightarrow> yields Xs ts \<Longrightarrow> yields (X # Xs) (X # ts)"
| yields_rule: "1 < r \<Longrightarrow> r \<le> 153 \<Longrightarrow> yields (rhs r) us \<Longrightarrow> yields Xs ts \<Longrightarrow> yields (entry yyr1 r # Xs) (us @ ts)"

lemma yields_append: "yields Xs ts \<Longrightarrow> yields Ys us \<Longrightarrow> yields (Xs @ Ys) (ts @ us)"
  by (induction rule: yields.induct) (auto intro: yields.intros)

lemma yields_split: "yields (Xs @ Ys) ts \<Longrightarrow> \<exists>us ws. ts = us @ ws \<and> yields Xs us \<and> yields Ys ws"
proof (induction Xs arbitrary: ts)
  case Nil
  then show ?case by (auto intro: yields.intros)
next
  case (Cons X Xs)
  from Cons.prems have "yields (X # Xs @ Ys) ts" by simp
  then show ?case
  proof (cases rule: yields.cases)
    case (yields_token ts')
    then obtain us ws where "ts' = us @ ws" "yields Xs us" "yields Ys ws" using Cons.IH by blast
    then show ?thesis using yields_token by (intro exI[of _ "X # us"] exI[of _ ws]) (auto intro: yields.intros)
  next
    case (yields_rule r us ts')
    then obtain vs ws where "ts' = vs @ ws" "yields Xs vs" "yields Ys ws" using Cons.IH by blast
    then show ?thesis using yields_rule by (intro exI[of _ "us @ vs"] exI[of _ ws]) (auto intro: yields.intros)
  qed
qed

section \<open>The stack and what it owns\<close>

definition entry_kind :: "yyentry \<Rightarrow> kind" where
  "entry_kind e = kind_of (entry_symbol e)"

definition entry_value :: "yyentry \<Rightarrow> sem" where
  "entry_value e = fst (snd e)"

definition entry_ids :: "(kind \<Rightarrow> sem \<Rightarrow> nat list) \<Rightarrow> yyentry list \<Rightarrow> nat list" where
  "entry_ids f st = concat (map (\<lambda>e. f (entry_kind e) (entry_value e)) st)"

definition symbols :: "yyentry list \<Rightarrow> int list" where
  "symbols st = map entry_symbol (rev (butlast st))"

definition stack_ok :: "yyentry list \<Rightarrow> bool" where
  "stack_ok st \<longleftrightarrow> path st \<and> list_all (\<lambda>e. has_kind (entry_kind e) (entry_value e)) st"

definition holds_stack :: "yyentry list \<Rightarrow> nat list \<Rightarrow> pgsContext \<Rightarrow> bool" where
  "holds_stack st F cx \<longleftrightarrow> stack_ok st \<and> cx_vars cx = entry_ids var_ids st \<and> cx_stmts cx = entry_ids stmt_ids st
     \<and> good_memory (entry_ids text_ids st @ F) cx"

lemma symbols_Cons: "st \<noteq> [] \<Longrightarrow> symbols (e # st) = symbols st @ [entry_symbol e]"
  by (simp add: symbols_def)

lemma path_bottom: "path st \<Longrightarrow> top_state st = 0 \<longleftrightarrow> length st = 1"
  by (cases st rule: path.cases) (auto simp: top_state_def edge_ok_def)

lemma path_not_Nil: "path st \<Longrightarrow> st \<noteq> []"
  by auto

lemma top_hd: "st \<noteq> [] \<Longrightarrow> entry_symbol (hd st) = entry yystos (top_state st)"
  by (simp add: entry_symbol_def top_state_def)

definition at_end :: "yyentry list \<Rightarrow> bool" where
  "at_end st \<longleftrightarrow> 1 < length st \<and> ended (entry_symbol (hd st))"

lemma entry_ids_append: "entry_ids f (xs @ ys) = entry_ids f xs @ entry_ids f ys"
  by (simp add: entry_ids_def)

lemma ids_of_entries: "ids f (map entry_kind (rev seg)) (map entry_value (rev seg)) = entry_ids f seg"
  unfolding ids_def entry_ids_def by (simp only: map2_map_map rev_map rev_rev_ident)

lemma act_result_cases:
  assumes "act_result k V S F pr res"
  obtains v cx where "res = Some (Inr v, cx)" "has_kind k v" "cx_vars cx = var_ids k v @ V" "cx_stmts cx = stmt_ids k v @ S"
    "good_memory (text_ids k v @ F) cx" "k \<noteq> Other \<longrightarrow> cx_program cx = pr"
  using assms by (auto simp: act_result_def split: option.split_asm prod.split_asm sum.split_asm)

lemma good_memory_next: "good_memory ts cx \<Longrightarrow> good_memory ts (cx\<lparr>cx_next := Suc (cx_next cx)\<rparr>)"
  by (auto simp: good_memory_def owned_def less_SucI)

lemma good_memory_text: "good_memory ts cx \<Longrightarrow> good_memory (ts @ [cx_next cx]) (cx\<lparr>cx_next := Suc (cx_next cx)\<rparr>)"
  using owned_new by (auto simp: good_memory_def)

lemma token_kind: "X \<le> 104 \<Longrightarrow> kind_of X = (if carries_string X then Text else Other)"
  by (auto simp: kind_of_def carries_string_def)

text \<open>A rule that can be applied is applied.\<close>

lemma reduce_ok:
  assumes st: "holds_stack st F cx" and r: "1 < r" "r \<le> 153" "(r, entry yyr2 r) \<in> set (entry state_items (top_state st))"
  defines "n \<equiv> nat (entry yyr2 r)"
  shows "\<exists>v cx'. yyaction E line r (rev (map (\<lambda>(s, v, l). v) (take n st))) cx = Some (Inr v, cx')
    \<and> holds_stack ((yygoto (entry yyr1 r) (top_state (drop n st)), v, l) # drop n st) F cx'
    \<and> n \<noteq> 0 \<and> drop n st \<noteq> [] \<and> rhs r = map entry_symbol (rev (take n st))
    \<and> entry yystos (yygoto (entry yyr1 r) (top_state (drop n st))) = entry yyr1 r
    \<and> (entry yyr1 r \<noteq> 135 \<longrightarrow> cx_program cx' = cx_program cx)"
proof -
  have rule: "0 < entry yyr2 r" "106 \<le> entry yyr1 r" "entry yyr1 r \<le> 135"
    using rule_checked[OF r(1,2)] by (auto simp: rule_ok_def Let_def)
  have p: "path st" using st by (simp add: holds_stack_def stack_ok_def)
  note below = items_below[OF p r(3) rule(1)]
  have n: "n < length st" "path (drop n st)" "n \<noteq> 0"
    "entry yyr1 r \<in> set (entry state_wants (top_state (drop n st)))" using below rule(1) r(1) by (simp_all add: n_def)
  have edge: "edge_ok (top_state (drop n st)) (entry yyr1 r) (yygoto (entry yyr1 r) (top_state (drop n st)))"
    using goto_edge path_top n by blast
  let ?seg = "take n st"
  have rhs: "rhs r = map entry_symbol (rev ?seg)"
  proof (rule nth_equalityI)
    show "length (rhs r) = length (map entry_symbol (rev ?seg))" using n by (simp add: rhs_def n_def)
    fix i assume "i < length (rhs r)"
    then have i: "i < n" by (simp add: rhs_def n_def)
    then have "entry_symbol (st ! (n - 1 - i)) = rhs_symbol r (int i)"
      using below r(1) n by (simp add: n_def of_nat_diff algebra_simps)
    then show "rhs r ! i = map entry_symbol (rev ?seg) ! i" using i n by (simp add: rhs_def n_def rev_nth)
  qed
  have seg: "st = ?seg @ drop n st" by simp
  have vals: "rev (map (\<lambda>(s, v, l). v) ?seg) = map entry_value (rev ?seg)"
    by (simp add: rev_map entry_value_def case_prod_unfold)
  have kinds: "map kind_of (rhs r) = map entry_kind (rev ?seg)" by (simp add: rhs entry_kind_def)
  note act = actions_ok[OF r(1,2), of E line, unfolded kinds act_ok_def, simplified, rule_format,
      where V = "entry_ids var_ids (drop n st)" and S = "entry_ids stmt_ids (drop n st)"
        and F = "entry_ids text_ids (drop n st) @ F" and cx = cx, unfolded ids_of_entries]
  have "list_all2 has_kind (map entry_kind (rev ?seg)) (map entry_value (rev ?seg))"
    using st by (auto simp: holds_stack_def stack_ok_def list_all_iff list.rel_map list_all2_same dest: in_set_takeD)
  note act = act[OF this]
  have split: "entry_ids f st = entry_ids f ?seg @ entry_ids f (drop n st)" for f
    by (metis seg entry_ids_append)
  have "act_result (kind_of (entry yyr1 r)) (entry_ids var_ids (drop n st)) (entry_ids stmt_ids (drop n st))
      (entry_ids text_ids (drop n st) @ F) (cx_program cx) (yyaction E line r (map entry_value (rev ?seg)) cx)"
    by (rule act) (use st in \<open>simp_all add: holds_stack_def split ids_of_entries\<close>)
  then obtain v cx' where v: "yyaction E line r (map entry_value (rev ?seg)) cx = Some (Inr v, cx')"
    "has_kind (kind_of (entry yyr1 r)) v" "cx_vars cx' = var_ids (kind_of (entry yyr1 r)) v @ entry_ids var_ids (drop n st)"
    "cx_stmts cx' = stmt_ids (kind_of (entry yyr1 r)) v @ entry_ids stmt_ids (drop n st)"
    "good_memory (text_ids (kind_of (entry yyr1 r)) v @ entry_ids text_ids (drop n st) @ F) cx'"
    "kind_of (entry yyr1 r) \<noteq> Other \<longrightarrow> cx_program cx' = cx_program cx"
    by (rule act_result_cases) blast
  let ?new = "(yygoto (entry yyr1 r) (top_state (drop n st)), v, l)"
  have sym: "entry_symbol ?new = entry yyr1 r" using edge by (simp add: entry_symbol_def edge_ok_def)
  have "list_all (\<lambda>e. has_kind (entry_kind e) (entry_value e)) (?new # drop n st)"
    using st v(2) sym by (auto simp: holds_stack_def stack_ok_def list_all_iff entry_kind_def entry_value_def dest: in_set_dropD)
  then have "holds_stack (?new # drop n st) F cx'"
    using v path_Cons[OF n(2) edge] sym
    by (simp add: holds_stack_def stack_ok_def entry_ids_def entry_kind_def entry_value_def)
  moreover have "entry yyr1 r \<noteq> 135 \<longrightarrow> kind_of (entry yyr1 r) \<noteq> Other"
    using rule(2,3) by (auto simp: kind_of_def)
  ultimately show ?thesis using v n rhs sym by (auto simp: vals entry_symbol_def)
qed

section \<open>Giving up\<close>

definition same_lists :: "pgsContext \<Rightarrow> pgsContext \<Rightarrow> bool" where
  "same_lists cx cx' \<longleftrightarrow> cx_vars cx' = cx_vars cx \<and> cx_stmts cx' = cx_stmts cx \<and> cx_program cx' = cx_program cx"

definition typed :: "yyentry list \<Rightarrow> bool" where
  "typed st \<longleftrightarrow> list_all (\<lambda>e. has_kind (entry_kind e) (entry_value e)) st"

lemma destruct_run:
  assumes "has_kind (kind_of X) v" "good_memory (text_ids (kind_of X) v @ F) cx"
  shows "\<exists>cx'. yydestruct X v cx = Some (Inr (), cx') \<and> good_memory F cx' \<and> same_lists cx cx'"
proof (cases "carries_string X")
  case True
  then have "kind_of X = Text" by (simp add: carries_string_def kind_of_def)
  then obtain i t where v: "v = Str i t" "owned (add_mset i (mset F + mset (cx_vars cx) + mset (cx_stmts cx))) (cx_next cx) (cx_deleted cx)"
    using assms by (auto simp: good_memory_def)
  then show ?thesis
    using True owned_live[OF v(2), of i] owned_delete[OF v(2)]
    by (simp add: yydestruct_def do_when_def pdelete_def is_live_def good_memory_def same_lists_def)
next
  case False
  have "good_memory F cx" using assms(2) by (auto simp: good_memory_def elim!: owned_mono)
  then show ?thesis using False by (simp add: yydestruct_def do_when_def ret_apply same_lists_def)
qed

lemma same_lists_trans: "same_lists a b \<Longrightarrow> same_lists b c \<Longrightarrow> same_lists a c"
  by (simp add: same_lists_def)

lemma good_memory_comm: "good_memory (xs @ ys) cx = good_memory (ys @ xs) cx"
  by (simp add: good_memory_def ac_simps)

lemma entry_ids_Cons: "entry_ids f (e # st) = f (kind_of (entry_symbol e)) (entry_value e) @ entry_ids f st"
  by (simp add: entry_ids_def entry_kind_def)

lemma pop_states_run:
  assumes "st \<noteq> []" "\<forall>e \<in> set st. stacked_state (fst e)" "typed st" "good_memory (entry_ids text_ids st @ F) cx"
  shows "\<exists>rg' cx'. pop_states rg st cx = Some (Inr (rg', [last st], None), cx')
    \<and> good_memory (entry_ids text_ids [last st] @ F) cx' \<and> same_lists cx cx'"
  using assms
proof (induction rg st arbitrary: cx rule: pop_states.induct)
  case (2 rg s v l st)
  have e: "error_shift s = None" using no_error_shift "2.prems"(2) by simp
  show ?case
  proof (cases st)
    case Nil
    then show ?thesis using e "2.prems"(4) by (simp add: ret_apply same_lists_def)
  next
    case (Cons e' st')
    have k: "has_kind (kind_of (entry yystos s)) v"
      using "2.prems"(3) by (simp add: typed_def entry_kind_def entry_symbol_def entry_value_def)
    obtain cx1 where c: "yydestruct (entry yystos s) v cx = Some (Inr (), cx1)" "good_memory (entry_ids text_ids st @ F) cx1"
      "same_lists cx cx1"
      using destruct_run[OF k] "2.prems"(4) by (fastforce simp: entry_ids_Cons entry_symbol_def entry_value_def)
    obtain rg' cx' where r: "pop_states l st cx1 = Some (Inr (rg', [last st], None), cx')"
      "good_memory (entry_ids text_ids [last st] @ F) cx'" "same_lists cx1 cx'"
      using "2.IH"[OF e _ _ _ _ c(2)] Cons "2.prems"(2,3) by (auto simp: typed_def)
    show ?thesis using e Cons c r same_lists_trans[OF c(3) r(3)] by (simp add: bind_Inr)
  qed
qed simp

lemma clean_stack_run:
  assumes "st \<noteq> []" "typed st" "good_memory (entry_ids text_ids st @ F) cx"
  shows "\<exists>cx'. clean_stack st cx = Some (Inr (), cx') \<and> same_lists cx cx'"
  using assms
proof (induction st arbitrary: cx rule: clean_stack.induct)
  case (2 s v l st)
  show ?case
  proof (cases st)
    case Nil
    then show ?thesis by (simp add: ret_apply same_lists_def)
  next
    case (Cons e' st')
    have k: "has_kind (kind_of (entry yystos s)) v"
      using "2.prems"(2) by (simp add: typed_def entry_kind_def entry_symbol_def entry_value_def)
    obtain cx1 where c: "yydestruct (entry yystos s) v cx = Some (Inr (), cx1)" "good_memory (entry_ids text_ids st @ F) cx1"
      "same_lists cx cx1"
      using destruct_run[OF k] "2.prems"(3) by (fastforce simp: entry_ids_Cons entry_symbol_def entry_value_def)
    obtain cx' where r: "clean_stack st cx1 = Some (Inr (), cx')" "same_lists cx1 cx'"
      using "2.IH"[OF _ _ _ c(2)] Cons "2.prems"(2) by (auto simp: typed_def)
    show ?thesis using Cons c r same_lists_trans[OF c(3) r(2)] by (simp add: bind_Inr)
  qed
qed simp

lemma delete_all_run:
  assumes "owned (mset is + M) (cx_next cx) (cx_deleted cx)"
  shows "\<exists>D. delete_all is cx = Some (Inr (), cx\<lparr>cx_deleted := D\<rparr>) \<and> owned M (cx_next cx) D"
  using assms
proof (induction "is" arbitrary: cx)
  case (Cons i "is")
  let ?cx = "cx\<lparr>cx_deleted := i # cx_deleted cx\<rparr>"
  have o: "owned (add_mset i (mset is + M)) (cx_next cx) (cx_deleted cx)" using Cons.prems by simp
  have "pdelete i cx = Some (Inr (), ?cx)" using owned_live[OF o, of i] by (simp add: pdelete_def is_live_def)
  moreover have "owned (mset is + M) (cx_next ?cx) (cx_deleted ?cx)" using owned_delete[OF o] by simp
  ultimately show ?case using Cons.IH[of ?cx] by (auto simp: bind_Inr)
next
  case Nil
  then show ?case by (intro exI[of _ "cx_deleted cx"]) (simp add: ret_apply)
qed

lemma clear_stacks_run:
  assumes "good_memory ts cx"
  shows "\<exists>D. clear_stacks cx = Some (Inr (), cx\<lparr>cx_vars := [], cx_stmts := [], cx_deleted := D\<rparr>) \<and>
    owned (mset ts) (cx_next cx) D"
proof -
  obtain D1 where d1: "delete_all (cx_vars cx) cx = Some (Inr (), cx\<lparr>cx_deleted := D1\<rparr>)"
    "owned (mset (cx_stmts cx) + mset ts) (cx_next cx) D1"
    using delete_all_run[of "cx_vars cx" "mset (cx_stmts cx) + mset ts" cx] assms by (auto simp: good_memory_def ac_simps)
  obtain D where d: "delete_all (cx_stmts cx) (cx\<lparr>cx_deleted := D1\<rparr>) = Some (Inr (), cx\<lparr>cx_deleted := D\<rparr>)"
    "owned (mset ts) (cx_next cx) D"
    using delete_all_run[of "cx_stmts cx" "mset ts" "cx\<lparr>cx_deleted := D1\<rparr>"] d1(2) by auto
  show ?thesis using d1 d by (intro exI[of _ D]) (simp add: clear_stacks_def run_simps)
qed

section \<open>The invariant\<close>

text \<open>The scanner as the parser sees it: from the state \<open>l\<close> it will give the tokens \<open>tokens l\<close>, by their
  numbers within the parser, and then ends of file for ever; or, where not \<open>ends l\<close>, the last token is the
  one of an SQL statement, and it is given again and again. A token that is destroyed by the parser
  comes with a string of its own.\<close>

locale token_source =
  fixes lx :: "'l lexer" and good :: "'l \<Rightarrow> bool" and tokens :: "'l \<Rightarrow> int list" and ends :: "'l \<Rightarrow> bool"
  assumes next_token: "good l \<Longrightarrow> tokens l = X # Xs \<Longrightarrow> \<exists>t str loc' l'. lx l loc = Some (t, str, loc', l') \<and> 0 < t
      \<and> yytranslate t = X \<and> (carries_string X \<longrightarrow> str \<noteq> None) \<and> good l' \<and> tokens l' = Xs \<and> ends l' = ends l
      \<and> (Xs = [] \<and> \<not> ends l \<longrightarrow> query_token X)"
    and no_token: "good l \<Longrightarrow> tokens l = [] \<Longrightarrow> \<exists>t str loc' l'. lx l loc = Some (t, str, loc', l')
      \<and> (if ends l then t \<le> 0 else 0 < t \<and> query_token (yytranslate t) \<and> str \<noteq> None)
      \<and> good l' \<and> tokens l' = [] \<and> ends l' = ends l"
begin

text \<open>The string of the look-ahead, and the look-ahead itself.\<close>

definition ahead_ids :: "'l yyparser \<Rightarrow> nat list" where
  "ahead_ids p = (if 0 < yy_char p then text_ids (kind_of (yy_token p)) (yy_lval p) else [])"

definition ahead_tokens :: "'l yyparser \<Rightarrow> int list" where
  "ahead_tokens p = (if 0 < yy_char p then [yy_token p] else []) @ tokens (yy_lexer p)"

definition ahead_ok :: "'l yyparser \<Rightarrow> bool" where
  "ahead_ok p \<longleftrightarrow> good (yy_lexer p) \<and>
     (yy_char p = yyempty \<or> yy_char p = yyeof \<and> yy_token p = yyeof \<and> tokens (yy_lexer p) = [] \<or>
      0 < yy_char p \<and> yy_token p = yytranslate (yy_char p) \<and> has_kind (kind_of (yy_token p)) (yy_lval p))"

text \<open>A second SQL statement right after a first: the parse will fail.\<close>

definition doomed :: "'l yyparser \<Rightarrow> bool" where
  "doomed p \<longleftrightarrow> 0 < yy_char p \<and> query_token (yy_token p) \<and> query_symbol (entry_symbol (hd (yy_stack p)))"

definition stuck_ok :: "'l yyparser \<Rightarrow> bool" where
  "stuck_ok p \<longleftrightarrow> \<not> ends (yy_lexer p) \<longrightarrow> tokens (yy_lexer p) = [] \<longrightarrow>
     (if yy_char p = yyempty then query_symbol (entry_symbol (hd (yy_stack p)))
      else 0 < yy_char p \<and> query_token (yy_token p))"

definition derived :: "int list \<Rightarrow> 'l yyparser \<Rightarrow> bool" where
  "derived T p \<longleftrightarrow>
     (if at_end (yy_stack p)
      then yields (symbols (yy_stack p)) (T @ [yyeof]) \<and> yy_char p = yyeof
      else cx_program (yy_context p) = None \<and>
        (doomed p \<or> (\<exists>C. yields (symbols (yy_stack p)) C \<and> C @ ahead_tokens p = T)))"

definition parser_ok :: "int list \<Rightarrow> bool \<Rightarrow> 'l yyparser \<Rightarrow> bool" where
  "parser_ok T e p \<longleftrightarrow> holds_stack (yy_stack p) (ahead_ids p) (yy_context p) \<and> ahead_ok p \<and> stuck_ok p \<and> derived T p
     \<and> ends (yy_lexer p) = e \<and> yy_errstatus p = 0 \<and> yy_errors p = []"

text \<open>How far the parse is: the tokens to come, the end to be shifted, the height of the stack, the rank of
  its top symbol.\<close>

definition pending :: "'l yyparser \<Rightarrow> nat" where
  "pending p = (if yy_char p = yyempty then 2 * length (tokens (yy_lexer p)) + 1
                else if 0 < yy_char p \<and> \<not> doomed p then 2 * length (tokens (yy_lexer p)) + 2 else 0)"

definition nearer :: "('l yyparser \<times> 'l yyparser) set" where
  "nearer = measures [pending, \<lambda>p. if at_end (yy_stack p) then 0 else 1, \<lambda>p. length (yy_stack p),
                      \<lambda>p. rank (entry_symbol (hd (yy_stack p)))]"

lemma parser_path: "parser_ok T e p \<Longrightarrow> path (yy_stack p)"
  by (simp add: parser_ok_def holds_stack_def stack_ok_def)

definition with_token :: "int \<Rightarrow> string option \<Rightarrow> location \<Rightarrow> 'l \<Rightarrow> 'l yyparser \<Rightarrow> 'l yyparser" where
  "with_token t str loc l p =
     (case str of
        None \<Rightarrow> p\<lparr>yy_char := t, yy_lloc := loc, yy_lexer := l\<rparr>
      | Some s \<Rightarrow> p\<lparr>yy_char := t, yy_lloc := loc, yy_lexer := l, yy_lval := Str (cx_next (yy_context p)) s,
          yy_context := (yy_context p)\<lparr>cx_next := Suc (cx_next (yy_context p))\<rparr>\<rparr>)"

lemma read_token_run:
  "yy_char p = yyempty \<Longrightarrow> lx (yy_lexer p) (yy_lloc p) = Some (t, str, loc, l) \<Longrightarrow>
    read_token lx p = Some (with_token t str loc l p)"
  by (simp add: read_token_def with_token_def Let_def split: option.split)

lemma with_token_ok:
  assumes "parser_ok T e p" "yy_char p = yyempty" "good l"
    and e: "ends l = ends (yy_lexer p)"
    and t: "if tokens (yy_lexer p) = [] then tokens l = [] \<and>
        (if ends l then t \<le> 0 else 0 < t \<and> query_token (yytranslate t) \<and> str \<noteq> None)
      else 0 < t \<and> tokens (yy_lexer p) = yytranslate t # tokens l \<and> (carries_string (yytranslate t) \<longrightarrow> str \<noteq> None) \<and>
        (tokens l = [] \<and> \<not> ends l \<longrightarrow> query_token (yytranslate t))"
  shows "parser_ok T e (convert_token (with_token t str loc l p))"
proof -
  have not_end: "\<not> at_end (yy_stack p)" using assms(1,2) by (auto simp: parser_ok_def derived_def yyconstants split: if_splits)
  have mem: "good_memory (entry_ids text_ids (yy_stack p)) (yy_context p)"
    using assms(1,2) by (simp add: parser_ok_def holds_stack_def ahead_ids_def yyconstants)
  have k: "kind_of (yytranslate t) = (if carries_string (yytranslate t) then Text else Other)" if "0 < t"
    using token_range[OF that] by (intro token_kind) simp
  let ?q = "convert_token (with_token t str loc l p)"
  note defs = with_token_def convert_token_def parser_ok_def yyconstants
  note inv = assms(1)[unfolded parser_ok_def]
  have st: "yy_stack ?q = yy_stack p" "yy_lexer ?q = l" "yy_errors ?q = yy_errors p" "yy_errstatus ?q = yy_errstatus p"
    "yy_char ?q = (if t \<le> 0 then yyeof else t)" "yy_token ?q = (if t \<le> 0 then yyeof else yytranslate t)"
    "cx_program (yy_context ?q) = cx_program (yy_context p)"
    by (cases str; simp add: defs)+
  have query_text: "carries_string X" if "query_token X" for X using that by (simp add: query_token_def carries_string_def)
  have lval: "has_kind (kind_of (yytranslate t)) (yy_lval ?q)" if "0 < t"
    using k[OF that] t query_text that by (cases str) (auto simp: defs split: if_splits)
  have "holds_stack (yy_stack ?q) (ahead_ids ?q) (yy_context ?q)"
    using inv k t query_text good_memory_next[OF mem] good_memory_text[OF mem] mem
    by (cases str) (auto simp: defs holds_stack_def ahead_ids_def split: if_splits)
  moreover have "ahead_ok ?q" "stuck_ok ?q"
    using t e lval assms(3) by (auto simp: ahead_ok_def stuck_ok_def st yyconstants split: if_splits)
  moreover have "derived T ?q"
  proof -
    have d: "\<not> doomed p" using assms(2) by (simp add: doomed_def yyconstants)
    have "doomed ?q \<or> ahead_tokens ?q = ahead_tokens p"
      using t e assms(2) inv by (auto simp: doomed_def ahead_tokens_def stuck_ok_def st yyconstants split: if_splits)
    then show ?thesis using inv not_end d by (auto simp: derived_def st)
  qed
  ultimately show ?thesis using inv e by (simp add: parser_ok_def st)
qed

text \<open>A token is read when there is no look-ahead.\<close>

lemma read_ok:
  assumes "parser_ok T e p"
  shows "\<exists>q. read_token lx p = Some q \<and> parser_ok T e (convert_token q) \<and> yy_stack (convert_token q) = yy_stack p
    \<and> yy_char (convert_token q) \<noteq> yyempty \<and> (convert_token q = p \<or> pending (convert_token q) < pending p)"
proof (cases "yy_char p = yyempty")
  case False
  then have "read_token lx p = Some p" "convert_token p = p"
    using assms by (auto simp: read_token_def convert_token_def parser_ok_def ahead_ok_def yyconstants)
  then show ?thesis using assms False by simp
next
  case True
  have g: "good (yy_lexer p)" using assms by (simp add: parser_ok_def ahead_ok_def)
  obtain t str loc' l' where l: "lx (yy_lexer p) (yy_lloc p) = Some (t, str, loc', l')" "good l'"
    "ends l' = ends (yy_lexer p)"
    "if tokens (yy_lexer p) = [] then tokens l' = [] \<and>
        (if ends l' then t \<le> 0 else 0 < t \<and> query_token (yytranslate t) \<and> str \<noteq> None)
      else 0 < t \<and> tokens (yy_lexer p) = yytranslate t # tokens l' \<and> (carries_string (yytranslate t) \<longrightarrow> str \<noteq> None) \<and>
        (tokens l' = [] \<and> \<not> ends l' \<longrightarrow> query_token (yytranslate t))"
    using no_token[OF g, of "yy_lloc p"] next_token[OF g, of _ _ "yy_lloc p"] by (cases "tokens (yy_lexer p)") fastforce+
  let ?q = "with_token t str loc' l' p"
  have "pending (convert_token ?q) < pending p" "yy_char (convert_token ?q) \<noteq> yyempty" "yy_stack (convert_token ?q) = yy_stack p"
    using True l(3,4) assms
    by (auto simp: pending_def convert_token_def with_token_def yyconstants doomed_def parser_ok_def stuck_ok_def
        split: option.split if_splits)
  then show ?thesis
    using read_token_run[OF True l(1)] with_token_ok[OF assms True l(2,3,4)] by blast
qed

section \<open>Steps\<close>

text \<open>How a parse ends: accepted, or with one error and nothing evaluated. The values left are those of the
  stack and the look-ahead; nothing is on the lists of the context.\<close>

definition ended_ok :: "int list \<Rightarrow> bool \<Rightarrow> int \<Rightarrow> 'l yyparser \<Rightarrow> bool" where
  "ended_ok T e r p \<longleftrightarrow>
     yy_stack p \<noteq> [] \<and> cx_vars (yy_context p) = [] \<and> cx_stmts (yy_context p) = [] \<and>
     list_all (\<lambda>e. has_kind (entry_kind e) (entry_value e)) (yy_stack p) \<and>
     good_memory (entry_ids text_ids (yy_stack p) @ ahead_ids p) (yy_context p) \<and> ahead_ok p \<and>
     (r = 0 \<and> e \<and> yy_errors p = [] \<and> yields [135] (T @ [yyeof]) \<or>
      r = 1 \<and> length (yy_errors p) = 1 \<and> cx_program (yy_context p) = None)"

lemma shift_step:
  assumes p: "parser_ok T e p" and act: "token_action (top_state (yy_stack p)) (yy_token p) = Some s" "s \<noteq> yyfinal"
    and c: "yy_char p \<noteq> yyempty"
  shows "parser_ok T e (yyshift s p) \<and> (yyshift s p, p) \<in> nearer"
proof -
  let ?st = "yy_stack p" and ?X = "yy_token p" and ?q = "yyshift s p"
  note inv = p[unfolded parser_ok_def holds_stack_def stack_ok_def]
  have path: "path ?st" "?st \<noteq> []" using parser_path[OF p] by auto
  have X: "0 \<le> ?X" "?X \<le> 104" "?X = yyeof \<longleftrightarrow> yy_char p = yyeof" "yy_char p \<noteq> yyeof \<Longrightarrow> 0 < yy_char p"
    using inv c token_range[of "yy_char p"] by (auto simp: ahead_ok_def yyconstants)
  have edge: "edge_ok (top_state ?st) ?X s" and low: "?X = yyeof \<Longrightarrow> \<not> at_end ?st"
    using token_shift[OF act(1) path_top[OF path(1)] X(1,2)] act(2) path_bottom[OF path(1)] top_hd[OF path(2)]
    by (auto simp: at_end_def)
  have calm: "\<not> doomed p"
    using token_shift[OF act(1) path_top[OF path(1)] X(1,2)] act(2) top_hd[OF path(2)] by (auto simp: doomed_def)
  have sym: "entry_symbol (s, v, l) = ?X" for v l using edge by (simp add: edge_ok_def entry_symbol_def)
  have not_end: "\<not> at_end ?st" using low inv X by (cases "?X = yyeof") (auto simp: derived_def)
  have k: "kind_of ?X = (if carries_string ?X then Text else Other)" using X by (intro token_kind) simp
  have eof_kind: "kind_of yyeof = Other" by (simp add: kind_of_def yyconstants)
  have st: "yy_stack ?q = (s, yy_lval p, yy_lloc p) # ?st" by (simp add: yyshift_def)
  have "holds_stack (yy_stack ?q) (ahead_ids ?q) (yy_context ?q)"
    using inv path_Cons[OF path(1) edge] sym k X eof_kind
    by (auto simp: st yyshift_def holds_stack_def stack_ok_def entry_ids_def entry_kind_def entry_value_def ahead_ids_def
        ahead_ok_def yyconstants good_memory_def ac_simps)
  moreover have "ahead_ok ?q" "stuck_ok ?q" using inv sym X
    by (auto simp: yyshift_def ahead_ok_def stuck_ok_def query_token_def query_symbol_def yyconstants)
  moreover have "derived T ?q"
  proof -
    obtain C where C: "yields (symbols ?st) C" "C @ ahead_tokens p = T" "cx_program (yy_context p) = None"
      using inv not_end calm by (auto simp: derived_def)
    have y: "yields (symbols (yy_stack ?q)) (C @ [?X])"
      using yields_append[OF C(1), of "[?X]" "[?X]"] X path(2) by (simp add: st symbols_Cons sym yields.intros)
    have e: "at_end (yy_stack ?q) \<longleftrightarrow> ?X = yyeof" using path(2) X by (auto simp: st at_end_def sym ended_def)
    show ?thesis
    proof (cases "?X = yyeof")
      case True
      then have "T = C" using C X inv by (auto simp: ahead_tokens_def ahead_ok_def yyconstants)
      then show ?thesis using y e True X by (auto simp: derived_def yyshift_def)
    next
      case False
      then show ?thesis using y e C X
        by (auto simp: derived_def yyshift_def ahead_tokens_def yyconstants intro!: exI[of _ "C @ [?X]"])
    qed
  qed
  moreover have "(?q, p) \<in> nearer"
    using X not_end path(2) sym calm
    by (auto simp: nearer_def pending_def doomed_def yyshift_def at_end_def ended_def yyconstants)
  ultimately show ?thesis using inv by (simp add: parser_ok_def) (simp add: yyshift_def)
qed

lemma accept_step:
  assumes p: "parser_ok T e p" and act: "token_action (top_state (yy_stack p)) (yy_token p) = Some yyfinal"
    and c: "yy_char p \<noteq> yyempty"
  shows "ended_ok T e 0 p"
proof -
  let ?st = "yy_stack p" and ?X = "yy_token p"
  note inv = p[unfolded parser_ok_def holds_stack_def stack_ok_def]
  have path: "path ?st" using parser_path[OF p] .
  have X: "0 \<le> ?X" "?X \<le> 104" "?X = yyeof \<longleftrightarrow> yy_char p = yyeof"
    using inv c token_range[of "yy_char p"] by (auto simp: ahead_ok_def yyconstants)
  have top: "?X = yyeof" "top_state ?st = 69"
    using token_shift[OF act path_top[OF path] X(1,2)] by (auto simp: edge_ok_def)
  obtain v l t w k where st: "?st = [(69, v, l), (t, w, k)]"
  proof -
    obtain v l st' where st: "?st = (69, v, l) # st'" "st' \<noteq> []"
      using path top(2) by (cases ?st rule: path.cases) (auto simp: top_state_def)
    have e: "edge_ok (top_state st') (entry yystos 69) 69" "path st'" using path_ConsD path st by auto
    have "(1, 0) \<in> set (entry state_items (top_state st'))"
      using e(1) by (simp add: edge_ok_def came_from_def has_item_def table_entries)
    then have "length st' = 1"
      using e(2) by (cases st' rule: path.cases) (auto simp: top_state_def edge_ok_def came_from_def list_all_iff)
    then show ?thesis using that st by (cases st') auto
  qed
  then have st_facts: "at_end ?st" "symbols ?st = [135]" "entry_ids f ?st = f Other v @ f Other w" for f
    using path by (auto simp: at_end_def symbols_def entry_symbol_def table_entries ended_def entry_ids_def entry_kind_def
        entry_value_def kind_of_def)
  have "yy_char p = yyeof" using top X by simp
  then have "e" using inv by (auto simp: stuck_ok_def ahead_ok_def yyconstants)
  then show ?thesis using inv st_facts(1,2) st_facts(3)[of var_ids] st_facts(3)[of stmt_ids] path_not_Nil[OF path]
    by (simp add: ended_ok_def derived_def)
qed

lemma reduce_step:
  assumes p: "parser_ok T e p" and r: "entry yydefact (top_state (yy_stack p)) = r" "r \<noteq> 0"
  shows "\<exists>q. yyreduce E r p = Some (Continue q) \<and> parser_ok T e q \<and> (q, p) \<in> nearer"
proof -
  let ?st = "yy_stack p" and ?n = "nat (entry yyr2 r)"
  note inv = p[unfolded parser_ok_def]
  have path: "path ?st" using parser_path[OF p] .
  have r': "1 < r" "r \<le> 153" "(r, entry yyr2 r) \<in> set (entry state_items (top_state ?st))"
    using default_item[OF path_top[OF path] r] by auto
  have rule: "0 < entry yyr2 r" "entry yyr2 r = 1 \<longrightarrow> rank (entry yyr1 r) < rank (rhs_symbol r 0)"
    "ended (rhs_symbol r (entry yyr2 r - 1)) \<longleftrightarrow> ended (entry yyr1 r)" "106 \<le> entry yyr1 r"
    "query_symbol (rhs_symbol r (entry yyr2 r - 1)) \<longrightarrow> query_symbol (entry yyr1 r)"
    using rule_checked[OF r'(1,2)] by (auto simp: rule_ok_def Let_def)
  define loc where "loc = rhs_location (take ?n ?st)"
  define rest where "rest = drop ?n ?st"
  obtain v cx' where v: "yyaction E (int (po_line (lo_begin loc))) r (rev (map (\<lambda>(s, v, l). v) (take ?n ?st))) (yy_context p)
      = Some (Inr v, cx')" "holds_stack ((yygoto (entry yyr1 r) (top_state rest), v, loc) # rest) (ahead_ids p) cx'"
    "?n \<noteq> 0" "rest \<noteq> []" "rhs r = map entry_symbol (rev (take ?n ?st))"
    "entry yystos (yygoto (entry yyr1 r) (top_state rest)) = entry yyr1 r"
    "entry yyr1 r \<noteq> 135 \<longrightarrow> cx_program cx' = cx_program (yy_context p)"
    using reduce_ok[OF _ r', of "ahead_ids p" "yy_context p" E "int (po_line (lo_begin loc))" loc] inv
    unfolding rest_def by blast
  let ?new = "(yygoto (entry yyr1 r) (top_state rest), v, loc)"
  let ?q = "p\<lparr>yy_context := cx', yy_stack := ?new # rest\<rparr>"
  have "\<not> length ?st \<le> ?n" using v(4) by (simp add: rest_def)
  then have run: "yyreduce E r p = Some (Continue ?q)"
    using v(1,3) by (simp add: yyreduce_def Let_def in_context_def loc_def[symmetric] rest_def[symmetric])
  have len: "length ?st = ?n + length rest" using v(4) by (simp add: rest_def)
  have syms: "symbols ?st = symbols rest @ rhs r"
    using v(4,5) append_take_drop_id[of ?n ?st] unfolding rest_def symbols_def
    by (metis butlast_append map_append rev_append)
  have sym: "entry_symbol ?new = entry yyr1 r" using v(6) by (simp add: entry_symbol_def)
  have rhs_last: "rhs_symbol r (entry yyr2 r - 1) = entry_symbol (hd ?st)"
  proof -
    have "last (rhs r) = entry_symbol (hd ?st)"
      using v(3,5) path_not_Nil[OF path] by (simp add: last_map last_rev)
    moreover have "last (rhs r) = rhs_symbol r (entry yyr2 r - 1)"
      using rule(1) by (simp add: rhs_def last_map upto_rec2)
    ultimately show ?thesis by simp
  qed
  have tall: "1 < length ?st"
    using len v(3) v(4)[folded length_greater_0_conv] by linarith
  have ends: "at_end (?new # rest) \<longleftrightarrow> at_end ?st"
    using tall v(4) rule(3) rhs_last sym by (auto simp: at_end_def)
  have ids: "ahead_ids ?q = ahead_ids p" "ahead_ok ?q = ahead_ok p" "ahead_tokens ?q = ahead_tokens p"
    by (simp_all add: ahead_ids_def ahead_ok_def ahead_tokens_def)
  have query: "query_symbol (entry_symbol (hd ?st)) \<Longrightarrow> query_symbol (entry yyr1 r)"
    using rule(5) rhs_last by simp
  have doom: "doomed p \<Longrightarrow> doomed ?q" using query sym by (simp add: doomed_def)
  have pending: "pending ?q \<le> pending p" using doom by (auto simp: pending_def)
  have stuck: "stuck_ok ?q" using inv query sym by (auto simp: stuck_ok_def)
  have y: "yields (symbols (?new # rest)) C" if given: "yields (symbols ?st) C" for C
  proof -
    obtain us ws where C: "C = us @ ws" "yields (symbols rest) us" "yields (rhs r) ws"
      using yields_split[OF given[unfolded syms]] by blast
    have "yields [entry yyr1 r] ws" using yields_rule[OF r'(1,2) C(3) yields_Nil] by simp
    then show ?thesis using yields_append[OF C(2)] v(4) C(1) by (simp add: symbols_Cons sym)
  qed
  have other: "\<not> at_end (?new # rest) \<Longrightarrow> entry yyr1 r \<noteq> 135" using v(4) sym by (cases rest) (auto simp: at_end_def ended_def)
  have "derived T ?q"
  proof (cases "at_end ?st")
    case True
    then show ?thesis using inv ends y by (simp add: derived_def)
  next
    case False
    have "doomed ?q \<or> (\<exists>C. yields (symbols (?new # rest)) C \<and> C @ ahead_tokens ?q = T)"
      using inv False doom y ids(3) unfolding derived_def by metis
    then show ?thesis using inv False ends v(7) other by (simp add: derived_def)
  qed
  moreover have "(?q, p) \<in> nearer"
  proof (cases "?n = 1")
    case True
    then have "take ?n ?st = [hd ?st]" using path_not_Nil[OF path] by (cases ?st) auto
    moreover have one: "entry yyr2 r = 1" using True rule(1) by simp
    ultimately have "rhs_symbol r 0 = entry_symbol (hd ?st)" using v(5) by (simp add: rhs_def)
    then have "rank (entry yyr1 r) < rank (entry_symbol (hd ?st))" using rule(2) one by simp
    then show ?thesis using ends len True sym pending by (auto simp: nearer_def)
  next
    case False
    then show ?thesis using ends len v(3) pending by (auto simp: nearer_def)
  qed
  ultimately show ?thesis using run inv v(2) ids stuck by (auto simp: parser_ok_def)
qed

lemma error_step:
  assumes p: "parser_ok T e p" and "\<not> at_end (yy_stack p)"
  shows "\<exists>q. yyerrlab p = Some (Return 1 q) \<and> ended_ok T e 1 q"
proof -
  note inv = p[unfolded parser_ok_def holds_stack_def stack_ok_def]
  have path: "path (yy_stack p)" using parser_path[OF p] .
  obtain D where D: "clear_stacks (yy_context p) = Some (Inr (), (yy_context p)\<lparr>cx_vars := [], cx_stmts := [], cx_deleted := D\<rparr>)"
    "owned (mset (entry_ids text_ids (yy_stack p) @ ahead_ids p)) (cx_next (yy_context p)) D"
    using clear_stacks_run inv by blast
  let ?cx = "(yy_context p)\<lparr>cx_vars := [], cx_stmts := [], cx_deleted := D\<rparr>"
  define err where "err = (yy_lloc p, yysyntax_error (top_state (yy_stack p)) (yy_token p))"
  let ?p = "p\<lparr>yy_context := ?cx, yy_errors := [err]\<rparr>"
  have rep: "report_syntax p = Some ?p" using D(1) inv by (simp add: report_syntax_def in_context_def err_def)
  have "good_memory (entry_ids text_ids (yy_stack p) @ ahead_ids p) ?cx" using D(2) by (simp add: good_memory_def)
  moreover have "yy_stack p \<noteq> []" "\<forall>e \<in> set (yy_stack p). stacked_state (fst e)" "typed (yy_stack p)"
    using path_states[OF path] path_not_Nil[OF path] inv by (auto simp: typed_def)
  ultimately obtain rg cx' where pop: "pop_states (yy_lloc p) (yy_stack p) ?cx = Some (Inr (rg, [last (yy_stack p)], None), cx')"
    "good_memory (entry_ids text_ids [last (yy_stack p)] @ ahead_ids p) cx'" "same_lists ?cx cx'"
    using pop_states_run by blast
  let ?q = "?p\<lparr>yy_context := cx', yy_stack := [last (yy_stack p)], yy_errstatus := 3\<rparr>"
  have run: "yyerrlab p = Some (Return 1 ?q)"
    using inv rep pop(1) by (simp add: yyerrlab_def yyerrlab1_def in_context_def)
  have "cx_program (yy_context p) = None" using inv assms(2) by (simp add: derived_def)
  then have "ended_ok T e 1 ?q"
    using inv pop path_not_Nil[OF path] by (auto simp: ended_ok_def same_lists_def ahead_ids_def ahead_ok_def list_all_iff)
  then show ?thesis using run by blast
qed

lemma parser_step_ok:
  assumes p: "parser_ok T e p"
  shows "(\<exists>q. yybackup E lx p = Some (Continue q) \<and> parser_ok T e q \<and> (q, p) \<in> nearer)
    \<or> (\<exists>r q. yybackup E lx p = Some (Return r q) \<and> ended_ok T e r q)"
proof -
  have path: "path (yy_stack p)" using parser_path[OF p] .
  have default: "(\<exists>q'. yydefault E q = Some (Continue q') \<and> parser_ok T e q' \<and> (q', q) \<in> nearer)
      \<or> (\<exists>r q'. yydefault E q = Some (Return r q') \<and> ended_ok T e r q')"
    if "parser_ok T e q" "entry yydefact (top_state (yy_stack q)) = 0 \<Longrightarrow> \<not> at_end (yy_stack q)" for q
    using reduce_step[OF that(1) refl, of E] error_step[OF that(1)] that(2) by (fastforce simp: yydefault_def Let_def)
  show ?thesis
  proof (cases "entry yypact (top_state (yy_stack p)) = yypact_ninf")
    case True
    have "entry yydefact (top_state (yy_stack p)) \<noteq> 0" if "at_end (yy_stack p)"
      using ended_action[OF path_top[OF path]] that True path_bottom[OF path] top_hd[OF path_not_Nil[OF path]]
      by (auto simp: at_end_def)
    then show ?thesis using default[OF p] True by (auto simp: yybackup_def)
  next
    case False
    obtain p1 where p1: "read_token lx p = Some p1" "parser_ok T e (convert_token p1)" "yy_stack (convert_token p1) = yy_stack p"
      "yy_char (convert_token p1) \<noteq> yyempty" "convert_token p1 = p \<or> pending (convert_token p1) < pending p"
      using read_ok[OF p] by blast
    let ?q = "convert_token p1"
    have near: "(q, p) \<in> nearer" if "(q, ?q) \<in> nearer" for q
      using that p1(5) by (auto simp: nearer_def)
    have st: "stacked_state (top_state (yy_stack ?q))" using path_top[OF path] p1(3) by simp
    have range: "0 \<le> yy_token ?q" "yy_token ?q \<le> 104"
      using p1(2,4) token_range[of "yy_char ?q"] by (auto simp: parser_ok_def ahead_ok_def yyconstants)
    show ?thesis
    proof (cases "token_action (top_state (yy_stack ?q)) (yy_token ?q)")
      case None
      then have "yybackup E lx p = yydefault E ?q"
        using False p1(1,3) by (auto simp: yybackup_def token_action_def Let_def split: if_splits)
      moreover have "\<not> at_end (yy_stack ?q)"
      proof
        assume e: "at_end (yy_stack ?q)"
        then have "yy_token ?q = yyeof" using p1(2) by (auto simp: parser_ok_def derived_def ahead_ok_def yyconstants)
        then show False
          using ended_action[OF st] e None False p1(3) path_bottom[OF path] top_hd[OF path_not_Nil[OF path]]
          by (auto simp: at_end_def)
      qed
      ultimately show ?thesis using default[OF p1(2)] near by auto
    next
      case (Some s)
      have s: "0 < s" using token_shift[OF Some st range] by (auto simp: edge_ok_def yyconstants)
      have run: "yybackup E lx p = (if s = yyfinal then Some (Return 0 ?q) else Some (Continue (yyshift s ?q)))"
        using False p1(1,3) Some s by (auto simp: yybackup_def token_action_def Let_def split: if_splits)
      show ?thesis
      proof (cases "s = yyfinal")
        case True
        then show ?thesis using run accept_step[OF p1(2) _ p1(4)] Some by auto
      next
        case n: False
        then show ?thesis using run shift_step[OF p1(2) Some n p1(4)] near by auto
      qed
    qed
  qed
qed

lemma loop_ok:
  assumes "parser_ok T e p"
  shows "\<exists>r q. yyparse_loop E lx p = Some (r, q) \<and> ended_ok T e r q"
proof -
  have "wf nearer" by (simp add: nearer_def)
  then show ?thesis using assms
  proof (induction p rule: wf_induct_rule)
    case (less p)
    from parser_step_ok[OF less.prems, of E] show ?case
    proof
      assume "\<exists>q. yybackup E lx p = Some (Continue q) \<and> parser_ok T e q \<and> (q, p) \<in> nearer"
      then obtain q where "yybackup E lx p = Some (Continue q)" "parser_ok T e q" "(q, p) \<in> nearer" by blast
      then show ?thesis using less.IH by (simp add: yyparse_loop.simps)
    next
      assume "\<exists>r q. yybackup E lx p = Some (Return r q) \<and> ended_ok T e r q"
      then show ?thesis by (auto simp: yyparse_loop.simps)
    qed
  qed
qed

lemma return_ok:
  assumes "ended_ok T e r p"
  shows "\<exists>q. yyreturn p = Some ((), q) \<and> yy_errors q = yy_errors p \<and> cx_vars (yy_context q) = [] \<and> cx_stmts (yy_context q) = []
    \<and> cx_program (yy_context q) = cx_program (yy_context p)"
proof -
  note inv = assms[unfolded ended_ok_def]
  let ?m = "do_when (yy_char p \<noteq> yyeof \<and> yy_char p \<noteq> yyempty) (yydestruct (yy_token p) (yy_lval p))"
  have "\<exists>cx1. ?m (yy_context p) = Some (Inr (), cx1) \<and> good_memory (entry_ids text_ids (yy_stack p)) cx1
      \<and> same_lists (yy_context p) cx1"
  proof (cases "0 < yy_char p")
    case True
    have "good_memory (text_ids (kind_of (yy_token p)) (yy_lval p) @ entry_ids text_ids (yy_stack p)) (yy_context p)"
      using inv True by (simp add: ahead_ids_def good_memory_comm)
    then show ?thesis using destruct_run[of "yy_token p" "yy_lval p"] inv True
      by (auto simp: do_when_def ahead_ok_def yyconstants)
  next
    case False
    then show ?thesis using inv by (auto simp: do_when_def ret_apply ahead_ok_def ahead_ids_def same_lists_def)
  qed
  then obtain cx1 where c: "?m (yy_context p) = Some (Inr (), cx1)" "good_memory (entry_ids text_ids (yy_stack p)) cx1"
    "same_lists (yy_context p) cx1" by blast
  obtain cx' where r: "clean_stack (yy_stack p) cx1 = Some (Inr (), cx')" "same_lists cx1 cx'"
    using clean_stack_run[of "yy_stack p" "[]" cx1] c(2) inv by (auto simp: typed_def)
  show ?thesis using c r inv by (simp add: yyreturn_def in_context_def bind_Inr same_lists_def)
qed

theorem parse_ok:
  assumes "good l" "ends l \<or> tokens l \<noteq> []"
  shows "\<exists>r q. yyparse E lx l = Some (r, q) \<and> cx_vars (yy_context q) = [] \<and> cx_stmts (yy_context q) = [] \<and>
    (r = 0 \<and> ends l \<and> yy_errors q = [] \<and> yields [135] (tokens l @ [yyeof]) \<or>
     r = 1 \<and> length (yy_errors q) = 1 \<and> cx_program (yy_context q) = None)"
proof -
  have "parser_ok (tokens l) (ends l) (new_parser l)"
    using assms by (auto simp: parser_ok_def new_parser_def holds_stack_def stack_ok_def entry_ids_def entry_kind_def
        entry_symbol_def kind_of_def table_entries new_context_def good_memory_def owned_def ahead_ids_def ahead_ok_def
        derived_def at_end_def symbols_def ahead_tokens_def stuck_ok_def intro: yields.intros)
  from loop_ok[OF this, of E] obtain r p where p: "yyparse_loop E lx (new_parser l) = Some (r, p)"
    "ended_ok (tokens l) (ends l) r p" by blast
  from return_ok[OF p(2)] obtain q where "yyreturn p = Some ((), q)" "yy_errors q = yy_errors p" "cx_vars (yy_context q) = []"
    "cx_stmts (yy_context q) = []" "cx_program (yy_context q) = cx_program (yy_context p)" by blast
  then show ?thesis using p by (auto simp: yyparse_def ended_ok_def)
qed

end

end
