(* ===== verification/ParserProps.thy ===== *)
theory ParserProps
  imports ParserRun
begin

text \<open>
  The parser on a sequence of tokens that is known beforehand: every one of them is parsed to an end.
\<close>

text \<open>A token with its string, by its number outside of the parser.\<close>

definition recorded_tokens :: "(int \<times> string option) list lexer" where
  "recorded_tokens l loc = (case l of [] \<Rightarrow> Some (yyeof, None, loc, []) | (t, str) # l' \<Rightarrow> Some (t, str, loc, l'))"

definition good_tokens :: "(int \<times> string option) list \<Rightarrow> bool" where
  "good_tokens l \<longleftrightarrow> list_all (\<lambda>(t, str). 0 < t \<and> (carries_string (yytranslate t) \<longrightarrow> str \<noteq> None)) l"

definition token_numbers :: "(int \<times> string option) list \<Rightarrow> int list" where
  "token_numbers = map (\<lambda>(t, str). yytranslate t)"

interpretation recorded: token_source recorded_tokens good_tokens token_numbers "\<lambda>_. True"
proof
  show "good_tokens l \<Longrightarrow> token_numbers l = X # Xs \<Longrightarrow> \<exists>t str loc' l'. recorded_tokens l loc = Some (t, str, loc', l')
      \<and> 0 < t \<and> yytranslate t = X \<and> (carries_string X \<longrightarrow> str \<noteq> None) \<and> good_tokens l' \<and> token_numbers l' = Xs
      \<and> True = True \<and> (Xs = [] \<and> \<not> True \<longrightarrow> query_token X)" for l X Xs loc
    by (cases l) (auto simp: recorded_tokens_def good_tokens_def token_numbers_def)
  show "good_tokens l \<Longrightarrow> token_numbers l = [] \<Longrightarrow> \<exists>t str loc' l'. recorded_tokens l loc = Some (t, str, loc', l')
      \<and> (if True then t \<le> 0 else 0 < t \<and> query_token (yytranslate t) \<and> str \<noteq> None)
      \<and> good_tokens l' \<and> token_numbers l' = [] \<and> True = True" for l loc
    by (cases l) (auto simp: recorded_tokens_def good_tokens_def token_numbers_def yyconstants)
qed

text \<open>C40. The parser returns on every sequence of tokens, and nothing undefined happens on the way: no object is
  used or deleted after it has been deleted, and none stays on the lists of the context. What it
  accepts is a sentence of the grammar; else it reports one error and has evaluated nothing. The run of
  an accepted program, which the code starts within the parser, is not part of this: \<open>program_eval\<close> is it.\<close>

theorem tokens_parsed:
  assumes "good_tokens l"
  shows "\<exists>r q. yyparse E recorded_tokens l = Some (r, q) \<and> cx_vars (yy_context q) = [] \<and> cx_stmts (yy_context q) = [] \<and>
    (r = 0 \<and> yy_errors q = [] \<and> yields [135] (token_numbers l @ [yyeof]) \<or>
     r = 1 \<and> length (yy_errors q) = 1 \<and> cx_program (yy_context q) = None)"
  using recorded.parse_ok[OF assms, of E] by simp

theorem tokens_parsed_witness:
  "\<exists>r q. yyparse \<lparr>pe_now = (\<lambda>i. 7), pe_encoding = ''UTF-8''\<rparr> recorded_tokens [(269, None), (342, Some ''1''), (59, None)] = Some (r, q)
    \<and> cx_vars (yy_context q) = [] \<and> cx_stmts (yy_context q) = [] \<and>
    (r = 0 \<and> yy_errors q = [] \<and> yields [135] (token_numbers [(269, None), (342, Some ''1''), (59, None)] @ [yyeof]) \<or>
     r = 1 \<and> length (yy_errors q) = 1 \<and> cx_program (yy_context q) = None)"
  by (rule tokens_parsed) (simp add: good_tokens_def yytranslate_def table_entries carries_string_def)

end
