(* ===== verification/ScannerTables.thy ===== *)
theory ScannerTables
  imports ParserTables
begin

text \<open>
  The tables of the scanner that flex generated from \<open>pgsScanner.ll\<close>, as they stand in
  \<open>pgscript/lex.pgs.cc\<close>, each entry an equation of the collection \<open>scanner_entries\<close>.
\<close>

named_theorems scanner_entries \<open>the entries of the tables of the scanner\<close>

text \<open>The rule that a state accepts, or 0.\<close>

definition yy_accept :: "int list" where
  "yy_accept =
  [0, 0, 0, 0, 0, 0, 0, 0, 0, 0, 0, 138, 114, 111, 113, 112, 61, 64, 50, 51, 59, 58, 55, 57, 54, 60, 35,
   49, 46, 62, 43, 63, 34, 52, 53, 114, 114, 114, 114, 114, 114, 114, 114, 114, 114, 114, 114, 114, 114,
   114, 114, 114, 114, 114, 47, 48, 114, 130, 129, 128, 130, 122, 121, 120, 122, 115, 118, 119, 122, 122,
   117, 126, 125, 124, 126, 136, 135, 134, 133, 136, 111, 48, 0, 36, 2, 38, 35, 0, 53, 47, 52, 41, 45, 42,
   34, 0, 0, 0, 11, 0, 0, 0, 0, 0, 0, 0, 0, 0, 0, 0, 0, 0, 0, 0, 0, 13, 0, 8, 0, 0, 0, 0, 0, 40, 0, 0, 0,
   0, 0, 0, 0, 0, 0, 0, 0, 0, 0, 0, 0, 44, 127, 0, 116, 3, 0, 123, 131, 132, 0, 1, 0, 36, 0, 0, 37, 0, 0,
   0, 39, 0, 0, 0, 0, 0, 0, 0, 0, 0, 0, 0, 0, 0, 0, 0, 0, 0, 0, 0, 33, 0, 0, 0, 0, 0, 0, 0, 0, 0, 0, 0, 0,
   56, 0, 0, 0, 0, 0, 0, 0, 0, 0, 0, 0, 0, 0, 0, 0, 103, 0, 0, 0, 0, 0, 0, 0, 0, 0, 0, 0, 0, 0, 36, 0, 0,
   38, 0, 0, 0, 0, 0, 0, 19, 0, 0, 0, 0, 0, 0, 75, 0, 26, 0, 0, 0, 0, 81, 9, 0, 0, 0, 0, 25, 0, 0, 0, 0,
   0, 90, 91, 92, 0, 0, 0, 22, 0, 0, 0, 0, 0, 0, 0, 0, 0, 0, 0, 0, 0, 0, 104, 0, 0, 27, 17, 0, 0, 0, 0, 0,
   0, 0, 0, 36, 65, 66, 0, 0, 32, 5, 0, 71, 0, 0, 0, 0, 0, 0, 0, 0, 0, 0, 0, 0, 0, 0, 0, 86, 87, 0, 0, 16,
   0, 0, 0, 14, 0, 0, 0, 24, 0, 0, 98, 0, 0, 0, 0, 0, 0, 30, 105, 0, 0, 0, 0, 0, 0, 0, 4, 0, 12, 0, 0, 0,
   0, 0, 74, 0, 76, 0, 0, 0, 79, 0, 0, 0, 0, 0, 88, 0, 89, 93, 0, 0, 20, 0, 0, 0, 6, 99, 18, 0, 0, 102,
   23, 0, 0, 108, 109, 110, 0, 67, 0, 0, 0, 72, 15, 73, 0, 0, 0, 78, 80, 0, 0, 84, 85, 21, 94, 0, 0, 96,
   97, 0, 0, 0, 0, 10, 0, 0, 0, 7, 28, 0, 0, 0, 83, 95, 0, 100, 0, 106, 107, 0, 0, 0, 0, 31, 82, 29, 101,
   68, 69, 70, 77, 0]"

lemmas yy_accept_entries [scanner_entries] = entries_of[OF yy_accept_def, simplified]

text \<open>The classes of the characters.\<close>

definition yy_ec :: "int list" where
  "yy_ec =
  [0, 1, 1, 1, 1, 1, 1, 1, 1, 2, 3, 4, 4, 5, 1, 1, 1, 1, 1, 1, 1, 1, 1, 1, 1, 1, 1, 1, 1, 1, 1, 1, 2, 1,
   1, 6, 7, 8, 1, 9, 10, 11, 12, 13, 14, 15, 16, 17, 18, 18, 18, 18, 18, 18, 18, 18, 18, 18, 19, 20, 21,
   22, 23, 1, 24, 28, 29, 30, 31, 32, 33, 34, 35, 36, 6, 37, 38, 39, 40, 41, 42, 6, 43, 44, 45, 46, 47,
   48, 49, 50, 51, 25, 26, 27, 1, 6, 1, 28, 29, 30, 31, 32, 33, 34, 35, 36, 6, 37, 38, 39, 40, 41, 42, 6,
   43, 44, 45, 46, 47, 48, 49, 50, 51, 52, 1, 53, 54, 1, 1, 1, 1, 1, 1, 1, 1, 1, 1, 1, 1, 1, 1, 1, 1, 1,
   1, 1, 1, 1, 1, 1, 1, 1, 1, 1, 1, 1, 1, 1, 1, 1, 1, 1, 1, 1, 1, 1, 1, 1, 1, 1, 1, 1, 1, 1, 1, 1, 1, 1,
   1, 1, 1, 1, 1, 1, 1, 1, 1, 1, 1, 1, 1, 1, 1, 1, 1, 1, 1, 1, 1, 1, 1, 1, 1, 1, 1, 1, 1, 1, 1, 1, 1, 1,
   1, 1, 1, 1, 1, 1, 1, 1, 1, 1, 1, 1, 1, 1, 1, 1, 1, 1, 1, 1, 1, 1, 1, 1, 1, 1, 1, 1, 1, 1, 1, 1, 1, 1,
   1, 1, 1, 1, 1, 1, 1, 1, 1, 1]"

lemmas yy_ec_entries [scanner_entries] = entries_of[OF yy_ec_def, simplified]

text \<open>The classes of the classes, for the states from 444 on.\<close>

definition yy_meta :: "int list" where
  "yy_meta =
  [0, 1, 1, 2, 1, 1, 3, 4, 1, 1, 1, 1, 1, 1, 1, 1, 1, 1, 3, 1, 1, 1, 1, 1, 3, 1, 1, 1, 3, 3, 3, 3, 3, 3,
   3, 3, 3, 3, 3, 3, 3, 3, 3, 3, 3, 3, 3, 3, 3, 3, 3, 3, 1, 1, 1]"

lemmas yy_meta_entries [scanner_entries] = entries_of[OF yy_meta_def, simplified]

text \<open>Where the transitions of a state begin.\<close>

definition yy_base :: "int list" where
  "yy_base =
  [0, 0, 0, 52, 53, 63, 81, 56, 64, 76, 84, 507, 508, 58, 508, 508, 483, 508, 508, 508, 508, 508, 508,
   490, 486, 491, 79, 479, 508, 86, 508, 479, 0, 508, 508, 74, 72, 78, 92, 85, 90, 34, 67, 91, 459, 458,
   455, 454, 97, 105, 103, 101, 468, 114, 508, 508, 473, 508, 508, 508, 477, 508, 508, 508, 486, 508, 508,
   508, 477, 479, 508, 508, 508, 508, 483, 508, 508, 508, 480, 0, 143, 508, 485, 99, 508, 112, 135, 139,
   508, 508, 508, 508, 508, 508, 0, 446, 441, 127, 441, 450, 451, 438, 449, 115, 124, 448, 434, 140, 434,
   436, 432, 444, 127, 429, 435, 508, 444, 508, 127, 133, 146, 424, 425, 508, 143, 152, 431, 430, 420,
   146, 425, 155, 426, 156, 426, 432, 151, 426, 425, 508, 508, 453, 508, 508, 452, 508, 508, 508, 455,
   508, 188, 175, 195, 439, 438, 412, 422, 415, 508, 420, 415, 422, 404, 418, 403, 402, 399, 405, 398,
   392, 413, 408, 401, 400, 405, 406, 393, 402, 431, 402, 393, 400, 397, 388, 395, 394, 393, 379, 392,
   385, 389, 384, 377, 378, 38, 376, 384, 383, 374, 381, 380, 365, 369, 373, 370, 375, 374, 403, 356, 360,
   366, 369, 361, 359, 362, 369, 350, 349, 349, 355, 374, 373, 196, 372, 371, 343, 344, 336, 342, 344,
   346, 508, 345, 349, 335, 340, 168, 342, 508, 332, 331, 337, 346, 328, 344, 508, 508, 185, 325, 342,
   334, 508, 323, 324, 332, 321, 332, 508, 508, 508, 330, 334, 316, 508, 316, 316, 315, 308, 325, 327,
   309, 310, 315, 311, 321, 307, 318, 192, 508, 302, 306, 508, 508, 315, 300, 298, 296, 309, 307, 307,
   320, 319, 508, 508, 285, 290, 332, 508, 291, 508, 300, 291, 290, 284, 288, 295, 290, 284, 281, 291,
   279, 278, 279, 274, 282, 508, 508, 272, 284, 508, 275, 264, 270, 508, 276, 280, 278, 508, 277, 264,
   508, 267, 274, 273, 276, 262, 257, 508, 508, 267, 272, 254, 266, 258, 252, 254, 508, 262, 508, 193,
   252, 249, 247, 245, 508, 243, 508, 249, 257, 254, 508, 254, 256, 240, 250, 241, 508, 237, 508, 508,
   247, 244, 508, 237, 227, 243, 508, 508, 508, 244, 237, 508, 508, 227, 239, 508, 508, 508, 227, 508,
   220, 199, 203, 508, 508, 508, 205, 204, 207, 232, 508, 192, 194, 508, 508, 508, 508, 189, 198, 508,
   508, 189, 185, 192, 183, 508, 194, 178, 180, 508, 508, 174, 203, 174, 508, 508, 185, 508, 170, 508,
   508, 172, 128, 115, 116, 508, 508, 508, 508, 508, 508, 508, 508, 508, 241, 245, 249, 253, 96, 255, 257,
   261, 265]"

lemmas yy_base_entries [scanner_entries] = entries_of[OF yy_base_def, simplified]

text \<open>The state whose transitions a state takes over.\<close>

definition yy_def :: "int list" where
  "yy_def =
  [0, 443, 1, 444, 444, 445, 445, 446, 446, 447, 447, 443, 443, 443, 443, 443, 443, 443, 443, 443, 443,
   443, 443, 443, 443, 443, 443, 443, 443, 443, 443, 443, 448, 443, 443, 443, 443, 443, 443, 443, 443,
   443, 443, 443, 443, 443, 443, 443, 443, 443, 443, 443, 443, 443, 443, 443, 443, 443, 443, 443, 443,
   443, 443, 443, 449, 443, 443, 443, 443, 443, 443, 443, 443, 443, 450, 443, 443, 443, 443, 451, 443,
   443, 452, 443, 443, 443, 443, 443, 443, 443, 443, 443, 443, 443, 448, 443, 443, 443, 443, 443, 443,
   443, 443, 443, 443, 443, 443, 443, 443, 443, 443, 443, 443, 443, 443, 443, 443, 443, 443, 443, 443,
   443, 443, 443, 443, 443, 443, 443, 443, 443, 443, 443, 443, 443, 443, 443, 443, 443, 443, 443, 443,
   449, 443, 443, 450, 443, 443, 443, 452, 443, 443, 443, 443, 443, 443, 443, 443, 443, 443, 443, 443,
   443, 443, 443, 443, 443, 443, 443, 443, 443, 443, 443, 443, 443, 443, 443, 443, 443, 443, 443, 443,
   443, 443, 443, 443, 443, 443, 443, 443, 443, 443, 443, 443, 443, 443, 443, 443, 443, 443, 443, 443,
   443, 443, 443, 443, 443, 443, 443, 443, 443, 443, 443, 443, 443, 443, 443, 443, 443, 443, 443, 443,
   443, 443, 443, 443, 443, 443, 443, 443, 443, 443, 443, 443, 443, 443, 443, 443, 443, 443, 443, 443,
   443, 443, 443, 443, 443, 443, 443, 443, 443, 443, 443, 443, 443, 443, 443, 443, 443, 443, 443, 443,
   443, 443, 443, 443, 443, 443, 443, 443, 443, 443, 443, 443, 443, 443, 443, 443, 443, 443, 443, 443,
   443, 443, 443, 443, 443, 443, 443, 443, 443, 443, 443, 443, 443, 443, 443, 443, 443, 443, 443, 443,
   443, 443, 443, 443, 443, 443, 443, 443, 443, 443, 443, 443, 443, 443, 443, 443, 443, 443, 443, 443,
   443, 443, 443, 443, 443, 443, 443, 443, 443, 443, 443, 443, 443, 443, 443, 443, 443, 443, 443, 443,
   443, 443, 443, 443, 443, 443, 443, 443, 443, 443, 443, 443, 443, 443, 443, 443, 443, 443, 443, 443,
   443, 443, 443, 443, 443, 443, 443, 443, 443, 443, 443, 443, 443, 443, 443, 443, 443, 443, 443, 443,
   443, 443, 443, 443, 443, 443, 443, 443, 443, 443, 443, 443, 443, 443, 443, 443, 443, 443, 443, 443,
   443, 443, 443, 443, 443, 443, 443, 443, 443, 443, 443, 443, 443, 443, 443, 443, 443, 443, 443, 443,
   443, 443, 443, 443, 443, 443, 443, 443, 443, 443, 443, 443, 443, 443, 443, 443, 443, 443, 443, 443,
   443, 443, 0, 443, 443, 443, 443, 443, 443, 443, 443, 443]"

lemmas yy_def_entries [scanner_entries] = entries_of[OF yy_def_def, simplified]

text \<open>The next state; 443 is none.\<close>

definition yy_nxt :: "int list" where
  "yy_nxt =
  [0, 12, 13, 14, 13, 15, 12, 12, 16, 17, 18, 19, 20, 21, 22, 23, 24, 25, 26, 27, 28, 29, 30, 31, 32, 33,
   12, 34, 35, 36, 37, 38, 39, 40, 41, 12, 42, 12, 43, 44, 45, 46, 47, 48, 49, 50, 51, 52, 53, 12, 12, 12,
   54, 55, 56, 58, 58, 59, 59, 72, 80, 73, 80, 74, 60, 60, 62, 72, 63, 73, 64, 74, 65, 66, 67, 115, 263,
   116, 68, 76, 69, 77, 264, 70, 62, 78, 63, 76, 64, 77, 65, 66, 67, 78, 89, 85, 68, 86, 69, 94, 117, 70,
   79, 95, 99, 90, 101, 118, 91, 92, 79, 87, 96, 102, 97, 100, 103, 83, 98, 104, 106, 105, 113, 110, 107,
   111, 114, 119, 108, 125, 151, 150, 120, 128, 112, 109, 126, 129, 127, 132, 130, 134, 137, 135, 152, 80,
   133, 80, 442, 138, 131, 85, 153, 86, 153, 157, 164, 154, 158, 179, 441, 165, 166, 167, 168, 440, 169,
   87, 172, 180, 173, 184, 185, 186, 188, 192, 189, 187, 174, 193, 194, 216, 195, 209, 206, 196, 197, 247,
   198, 217, 199, 207, 212, 151, 277, 349, 200, 201, 210, 202, 302, 220, 213, 220, 303, 422, 221, 222,
   223, 290, 223, 290, 439, 224, 291, 438, 337, 437, 436, 434, 433, 432, 431, 430, 429, 428, 427, 435,
   426, 425, 311, 424, 423, 312, 422, 421, 420, 419, 390, 418, 417, 391, 57, 57, 57, 57, 61, 61, 61, 61,
   71, 71, 71, 71, 75, 75, 75, 75, 141, 141, 144, 144, 147, 416, 147, 147, 148, 148, 148, 148, 415, 414,
   413, 412, 411, 410, 409, 408, 407, 406, 405, 404, 403, 402, 401, 400, 399, 398, 397, 396, 395, 394,
   393, 392, 389, 388, 387, 386, 385, 384, 383, 382, 381, 380, 379, 378, 377, 376, 375, 374, 373, 372,
   371, 370, 369, 368, 367, 366, 365, 364, 363, 362, 361, 360, 359, 358, 357, 356, 355, 354, 353, 352,
   351, 350, 349, 348, 347, 291, 291, 346, 345, 344, 343, 342, 341, 340, 339, 338, 336, 335, 334, 333,
   332, 331, 330, 329, 328, 327, 326, 325, 324, 323, 322, 321, 320, 319, 318, 317, 316, 315, 314, 313,
   310, 309, 308, 307, 306, 305, 304, 301, 300, 299, 298, 297, 296, 295, 294, 293, 292, 224, 224, 221,
   221, 289, 288, 287, 286, 285, 284, 283, 282, 281, 280, 279, 278, 277, 276, 275, 274, 273, 272, 271,
   270, 269, 268, 267, 266, 265, 262, 261, 260, 259, 258, 257, 256, 255, 254, 253, 252, 251, 250, 249,
   248, 247, 246, 245, 244, 243, 242, 241, 240, 239, 238, 237, 236, 235, 234, 233, 232, 231, 230, 229,
   228, 227, 226, 225, 154, 154, 149, 145, 142, 219, 218, 215, 214, 211, 208, 205, 204, 203, 191, 190,
   183, 182, 181, 178, 177, 176, 175, 171, 170, 163, 162, 161, 160, 159, 156, 155, 149, 146, 145, 143, 82,
   142, 140, 139, 136, 124, 123, 122, 121, 93, 88, 84, 83, 82, 81, 443, 11, 443, 443, 443, 443, 443, 443,
   443, 443, 443, 443, 443, 443, 443, 443, 443, 443, 443, 443, 443, 443, 443, 443, 443, 443, 443, 443,
   443, 443, 443, 443, 443, 443, 443, 443, 443, 443, 443, 443, 443, 443, 443, 443, 443, 443, 443, 443,
   443, 443, 443, 443, 443, 443, 443, 443]"

lemmas yy_nxt_entries [scanner_entries] = entries_of[OF yy_nxt_def, simplified]

text \<open>The state that an entry of \<open>yy_nxt\<close> belongs to.\<close>

definition yy_chk :: "int list" where
  "yy_chk =
  [0, 1, 1, 1, 1, 1, 1, 1, 1, 1, 1, 1, 1, 1, 1, 1, 1, 1, 1, 1, 1, 1, 1, 1, 1, 1, 1, 1, 1, 1, 1, 1, 1, 1,
   1, 1, 1, 1, 1, 1, 1, 1, 1, 1, 1, 1, 1, 1, 1, 1, 1, 1, 1, 1, 1, 3, 4, 3, 4, 7, 13, 7, 13, 7, 3, 4, 5, 8,
   5, 8, 5, 8, 5, 5, 5, 41, 194, 41, 5, 9, 5, 9, 194, 5, 6, 9, 6, 10, 6, 10, 6, 6, 6, 10, 29, 26, 6, 26,
   6, 448, 42, 6, 9, 35, 36, 29, 37, 42, 29, 29, 10, 26, 35, 37, 35, 36, 37, 83, 35, 37, 38, 37, 40, 39,
   38, 39, 40, 43, 38, 48, 85, 83, 43, 49, 39, 38, 48, 49, 48, 50, 49, 51, 53, 51, 85, 80, 50, 80, 434,
   53, 49, 86, 87, 86, 87, 97, 103, 87, 97, 112, 433, 103, 104, 104, 104, 432, 104, 86, 107, 112, 107,
   118, 118, 119, 120, 124, 120, 119, 107, 124, 125, 136, 125, 131, 129, 125, 125, 247, 125, 136, 125,
   129, 133, 151, 277, 349, 125, 125, 131, 125, 236, 150, 133, 150, 236, 422, 150, 151, 152, 222, 152,
   222, 431, 152, 222, 428, 277, 426, 423, 421, 418, 417, 416, 414, 413, 412, 411, 422, 408, 407, 247,
   402, 401, 247, 399, 398, 397, 396, 349, 392, 391, 349, 444, 444, 444, 444, 445, 445, 445, 445, 446,
   446, 446, 446, 447, 447, 447, 447, 449, 449, 450, 450, 451, 390, 451, 451, 452, 452, 452, 452, 388,
   384, 383, 380, 379, 375, 374, 373, 371, 370, 367, 365, 364, 363, 362, 361, 359, 358, 357, 355, 353,
   352, 351, 350, 347, 345, 344, 343, 342, 341, 340, 339, 336, 335, 334, 333, 332, 331, 329, 328, 326,
   325, 324, 322, 321, 320, 318, 317, 314, 313, 312, 311, 310, 309, 308, 307, 306, 305, 304, 303, 302,
   301, 300, 298, 296, 295, 294, 291, 290, 289, 288, 287, 286, 285, 284, 283, 280, 279, 276, 275, 274,
   273, 272, 271, 270, 269, 268, 267, 266, 265, 264, 262, 261, 260, 256, 255, 254, 253, 252, 250, 249,
   248, 244, 243, 242, 241, 240, 239, 237, 235, 234, 233, 232, 230, 229, 228, 227, 226, 225, 224, 223,
   221, 220, 219, 218, 217, 216, 215, 214, 213, 212, 211, 210, 209, 208, 207, 206, 205, 204, 203, 202,
   201, 200, 199, 198, 197, 196, 195, 193, 192, 191, 190, 189, 188, 187, 186, 185, 184, 183, 182, 181,
   180, 179, 178, 177, 176, 175, 174, 173, 172, 171, 170, 169, 168, 167, 166, 165, 164, 163, 162, 161,
   160, 159, 157, 156, 155, 154, 153, 148, 144, 141, 138, 137, 135, 134, 132, 130, 128, 127, 126, 122,
   121, 116, 114, 113, 111, 110, 109, 108, 106, 105, 102, 101, 100, 99, 98, 96, 95, 82, 78, 74, 69, 68,
   64, 60, 56, 52, 47, 46, 45, 44, 31, 27, 25, 24, 23, 16, 11, 443, 443, 443, 443, 443, 443, 443, 443,
   443, 443, 443, 443, 443, 443, 443, 443, 443, 443, 443, 443, 443, 443, 443, 443, 443, 443, 443, 443,
   443, 443, 443, 443, 443, 443, 443, 443, 443, 443, 443, 443, 443, 443, 443, 443, 443, 443, 443, 443,
   443, 443, 443, 443, 443, 443, 443]"

lemmas yy_chk_entries [scanner_entries] = entries_of[OF yy_chk_def, simplified]

text \<open>What the action of a rule returns, or makes the token of the SQL statement it begins; 0 for the others.\<close>

definition rule_token :: "int list" where
  "rule_token =
  [0, 0, 0, 0, 258, 259, 260, 261, 262, 263, 264, 265, 268, 0, 269, 271, 272, 273, 274, 275, 276, 277,
   278, 279, 280, 281, 282, 283, 284, 285, 295, 296, 266, 267, 341, 342, 343, 343, 343, 291, 292, 286,
   287, 288, 289, 290, 59, 123, 125, 58, 40, 41, 91, 93, 46, 44, 293, 45, 43, 42, 47, 37, 60, 62, 0, 297,
   298, 299, 300, 300, 301, 302, 303, 304, 305, 306, 307, 308, 309, 310, 311, 312, 313, 313, 314, 315,
   316, 317, 318, 319, 320, 321, 322, 323, 324, 325, 326, 327, 328, 329, 330, 331, 332, 333, 334, 335,
   336, 337, 338, 339, 340, 0, 0, 0, 294, 0, 0, 0, 0, 0, 0, 0, 0, 0, 0, 0, 0, 0, 0, 0, 0, 0, 0, 344, 0, 0,
   0, 0]"

lemmas rule_token_entries [scanner_entries] = entries_of[OF rule_token_def, simplified]

end
