(* ===== verification/PgsScanner.thy ===== *)
theory PgsScanner
  imports PgsParser ScannerTables
begin

text \<open>
  The scanner: \<open>pgsScanner::lex\<close> of \<open>pgscript/lex.pgs.cc\<close> with its tables (\<open>ScannerTables\<close>) and the actions of
  \<open>pgsScanner.ll\<close>. The buffers of flex are left out: the input is the bytes still to be read, \<open>unput\<close> puts
  one back. At the end of the input the longest match is taken, as at a character with no transition.
  The conversion of bytes to text (\<open>m_conv\<close>) is an argument. \<open>query_token\<close> and the callers, which the
  constructor leaves unset, start as 0; the value is never used.
\<close>

section \<open>State\<close>

definition INITIAL :: int where "INITIAL = 0"
definition SC_COMMENT :: int where "SC_COMMENT = 1"
definition SC_QUERY :: int where "SC_QUERY = 2"
definition SC_DOLLAR :: int where "SC_DOLLAR = 3"
definition SC_STRING :: int where "SC_STRING = 4"

lemmas start_conditions = INITIAL_def SC_COMMENT_def SC_QUERY_def SC_DOLLAR_def SC_STRING_def

record pgsScanner =
  sc_input :: string
  sc_start :: int
  m_parent :: int
  sc_query :: string
  sc_dollar :: string
  sc_str :: string
  comment_caller :: int
  string_caller :: int
  sc_query_token :: int

definition new_scanner :: "string \<Rightarrow> pgsScanner" where
  "new_scanner input =
     \<lparr>sc_input = input, sc_start = INITIAL, m_parent = 0, sc_query = [], sc_dollar = [], sc_str = [],
      comment_caller = 0, string_caller = 0, sc_query_token = 0\<rparr>"

section \<open>Matching\<close>

definition char_class :: "char \<Rightarrow> int" where
  "char_class c = (if c = CHR 0x00 then 1 else entry yy_ec (of_char c))"

partial_function (option) yy_next :: "int \<Rightarrow> int \<Rightarrow> int option" where
  "yy_next s c =
     (if entry yy_chk (entry yy_base s + c) = s then Some (entry yy_nxt (entry yy_base s + c))
      else yy_next (entry yy_def s) (if 444 \<le> entry yy_def s then entry yy_meta c else c))"

definition jam :: int where "jam = 443"

text \<open>\<open>found\<close> is \<open>yy_last_accepting_cpos\<close>, as the length so far, with the rule of \<open>yy_last_accepting_state\<close>.\<close>

fun yy_match :: "int \<Rightarrow> nat \<Rightarrow> string \<Rightarrow> (nat \<times> int) option \<Rightarrow> (nat \<times> int) option" where
  "yy_match s n rest found =
     (let found' = (if entry yy_accept s \<noteq> 0 then Some (n, entry yy_accept s) else found) in
      case rest of
        [] \<Rightarrow> found'
      | c # cs \<Rightarrow>
          (case yy_next s (char_class c) of
             None \<Rightarrow> None
           | Some t \<Rightarrow> if t = jam then found' else yy_match t (Suc n) cs found'))"

section \<open>Actions\<close>

datatype scanned =
    Scan_on pgsScanner location
  | Token int "string option" pgsScanner location

definition c_text :: "string \<Rightarrow> string" where
  "c_text s = takeWhile (\<lambda>c. c \<noteq> CHR 0x00) s"

text \<open>\<open>pgsScanner::columns\<close>\<close>

definition utf8_columns :: "char \<Rightarrow> int" where
  "utf8_columns c =
     (let n = (of_char c :: nat) in if 0xF0 \<le> n then -3 else if 0xE0 \<le> n then -2 else if 0xC0 \<le> n then -1 else 0)"

definition unput :: "char \<Rightarrow> pgsScanner \<Rightarrow> pgsScanner" where
  "unput c s = s\<lparr>sc_input := c # sc_input s\<rparr>"

definition add_query :: "string \<Rightarrow> pgsScanner \<Rightarrow> pgsScanner" where
  "add_query text s = s\<lparr>sc_query := sc_query s @ c_text text\<rparr>"

definition add_str :: "string \<Rightarrow> pgsScanner \<Rightarrow> pgsScanner" where
  "add_str text s = s\<lparr>sc_str := sc_str s @ c_text text\<rparr>"

text \<open>Where a string stands within a query, its text goes to the query.\<close>

definition add_text :: "string \<Rightarrow> string \<Rightarrow> pgsScanner \<Rightarrow> pgsScanner" where
  "add_text for_query for_str s =
     (if string_caller s = SC_QUERY then add_query for_query s else add_str for_str s)"

definition PGS_VAL_STR :: int where "PGS_VAL_STR = 344"

text \<open>The end of a query, before the character \<open>c\<close>.\<close>

definition end_query :: "(string \<Rightarrow> string) \<Rightarrow> char \<Rightarrow> pgsScanner \<Rightarrow> location \<Rightarrow> scanned" where
  "end_query conv c s loc =
     Token (sc_query_token s) (Some (conv (c_text (sc_query s))))
       (unput c (s\<lparr>sc_query := [], sc_start := INITIAL, m_parent := 0\<rparr>)) (location_columns (-1) loc)"

definition end_str :: "(string \<Rightarrow> string) \<Rightarrow> pgsScanner \<Rightarrow> location \<Rightarrow> scanned" where
  "end_str conv s loc =
     Token PGS_VAL_STR (Some (conv (c_text (sc_str s)))) (s\<lparr>sc_str := [], sc_start := string_caller s\<rparr>) loc"

definition next_line :: "string \<Rightarrow> location \<Rightarrow> location" where
  "next_line text loc = location_step (location_lines (length text) loc)"

definition initial_action :: "(string \<Rightarrow> string) \<Rightarrow> int \<Rightarrow> string \<Rightarrow> pgsScanner \<Rightarrow> location \<Rightarrow> scanned" where
  "initial_action conv act text s loc =
     (if act = 2 then Scan_on (s\<lparr>comment_caller := INITIAL, sc_start := SC_COMMENT\<rparr>) loc
      else if act = 13 \<or> act = 111 then Scan_on s loc
      else if act = 30 \<or> act = 31 then Token (entry rule_token act) None (unput CHR ''@'' s) (location_columns (-1) loc)
      else if 34 \<le> act \<and> act \<le> 38 then Token (entry rule_token act) (Some (conv (c_text text))) s loc
      else if act = 64 then Scan_on (s\<lparr>string_caller := INITIAL, sc_start := SC_STRING\<rparr>) loc
      else if 65 \<le> act \<and> act \<le> 110 then
        Scan_on (add_query text (s\<lparr>sc_query_token := entry rule_token act, sc_start := SC_QUERY\<rparr>)) loc
      else if act = 112 then Scan_on s (location_step loc)
      else if act = 113 then Scan_on s (next_line text loc)
      else Token (entry rule_token act) None s loc)"

definition query_action :: "(string \<Rightarrow> string) \<Rightarrow> int \<Rightarrow> string \<Rightarrow> pgsScanner \<Rightarrow> location \<Rightarrow> scanned" where
  "query_action conv act text s loc =
     (if act = 3 then Scan_on (s\<lparr>comment_caller := SC_QUERY, sc_start := SC_COMMENT\<rparr>) loc
      else if act = 115 then Scan_on (add_query text (s\<lparr>string_caller := SC_QUERY, sc_start := SC_STRING\<rparr>)) loc
      else if act = 116 then Scan_on (add_query text (s\<lparr>sc_dollar := c_text text, sc_start := SC_DOLLAR\<rparr>)) loc
      else if act = 117 then end_query conv CHR '';'' s loc
      else if act = 118 then Scan_on (add_query text (s\<lparr>m_parent := m_parent s + 1\<rparr>)) loc
      else if act = 119 then
        (let s1 = s\<lparr>m_parent := m_parent s - 1\<rparr> in
         if m_parent s1 = -1 then end_query conv CHR '')'' s1 loc else Scan_on (add_query text s1) loc)
      else if act = 120 then Scan_on (add_query text s) (location_step loc)
      else if act = 121 then Scan_on (add_query text s) (next_line text loc)
      else Scan_on (add_query text s) (location_columns (utf8_columns (hd text)) loc))"

definition dollar_action :: "int \<Rightarrow> string \<Rightarrow> pgsScanner \<Rightarrow> location \<Rightarrow> scanned" where
  "dollar_action act text s loc =
     (if act = 123 then
        Scan_on (let s1 = add_query text s in if c_text text = sc_dollar s1 then s1\<lparr>sc_start := SC_QUERY\<rparr> else s1) loc
      else if act = 124 then Scan_on (add_query text s) (location_step loc)
      else if act = 125 then Scan_on (add_query text s) (next_line text loc)
      else Scan_on (add_query text s) (location_columns (utf8_columns (hd text)) loc))"

definition comment_action :: "int \<Rightarrow> string \<Rightarrow> pgsScanner \<Rightarrow> location \<Rightarrow> scanned" where
  "comment_action act text s loc =
     (if act = 127 then Scan_on (s\<lparr>sc_start := comment_caller s\<rparr>) loc
      else if act = 128 then Scan_on s (location_step loc)
      else if act = 129 then Scan_on s (next_line text loc)
      else Scan_on s (location_columns (utf8_columns (hd text)) loc))"

definition string_action :: "(string \<Rightarrow> string) \<Rightarrow> int \<Rightarrow> string \<Rightarrow> pgsScanner \<Rightarrow> location \<Rightarrow> scanned" where
  "string_action conv act text s loc =
     (if act = 131 then Scan_on (add_text text [CHR 0x27] s) loc
      else if act = 132 then
        Scan_on (add_text text [text ! 1] s) (location_columns (utf8_columns (text ! 1)) loc)
      else if act = 133 then
        (if string_caller s = SC_QUERY then Scan_on ((add_query text s)\<lparr>sc_start := string_caller s\<rparr>) loc
         else end_str conv s loc)
      else if act = 134 then Scan_on (add_text text text s) (location_step loc)
      else if act = 135 then Scan_on (add_text text text s) (next_line text loc)
      else Scan_on (add_text text text s) (location_columns (utf8_columns (hd text)) loc))"

definition scan_action :: "(string \<Rightarrow> string) \<Rightarrow> int \<Rightarrow> string \<Rightarrow> pgsScanner \<Rightarrow> location \<Rightarrow> scanned" where
  "scan_action conv act text s loc =
     (if act = 1 then Scan_on s loc
      else if act = 3 \<or> 115 \<le> act \<and> act \<le> 122 then query_action conv act text s loc
      else if act \<le> 114 then initial_action conv act text s loc
      else if act \<le> 126 then dollar_action act text s loc
      else if act \<le> 130 then comment_action act text s loc
      else string_action conv act text s loc)"

definition eof_action :: "(string \<Rightarrow> string) \<Rightarrow> pgsScanner \<Rightarrow> location \<Rightarrow> scanned" where
  "eof_action conv s loc =
     (if sc_start s = INITIAL \<or> sc_start s = SC_COMMENT then Token yyeof None s loc
      else if sc_start s = SC_STRING \<and> string_caller s \<noteq> SC_QUERY then end_str conv s loc
      else Token (sc_query_token s) (Some (conv (c_text (sc_query s)))) (s\<lparr>sc_query := [], m_parent := 0\<rparr>) loc)"

section \<open>The scanner\<close>

text \<open>One turn of the loop. The rule for comments up to the end of the line (1) gives the line end back.\<close>

definition scan_step :: "(string \<Rightarrow> string) \<Rightarrow> pgsScanner \<Rightarrow> location \<Rightarrow> scanned option" where
  "scan_step conv s loc =
     (if sc_input s = [] then Some (eof_action conv s loc)
      else map_option (\<lambda>(n, act).
          (let yyleng = (if act = 1 then n - 1 else n) in
           scan_action conv act (take yyleng (sc_input s)) (s\<lparr>sc_input := drop yyleng (sc_input s)\<rparr>)
             (location_columns (int yyleng) loc)))
        (yy_match (1 + 2 * sc_start s) 0 (sc_input s) None))"

partial_function (option) lex_loop :: "(string \<Rightarrow> string) \<Rightarrow> pgsScanner lexer" where
  "lex_loop conv s loc =
     (case scan_step conv s loc of
        None \<Rightarrow> None
      | Some (Scan_on s' loc') \<Rightarrow> lex_loop conv s' loc'
      | Some (Token t str s' loc') \<Rightarrow> Some (t, str, loc', s'))"

definition pgs_lex :: "(string \<Rightarrow> string) \<Rightarrow> pgsScanner lexer" where
  "pgs_lex conv s loc = lex_loop conv s (location_step loc)"

section \<open>Scanner and parser together\<close>

text \<open>\<open>pgsDriver::parse_string\<close>: the bytes of the script, up to a NUL; \<open>from_utf8\<close> and \<open>to_utf8\<close> are \<open>wxConvUTF8\<close>.\<close>

definition parse_script :: "(string \<Rightarrow> string) \<Rightarrow> (string \<Rightarrow> string) \<Rightarrow> parser_env \<Rightarrow> string \<Rightarrow> (int \<times> pgsScanner yyparser) option" where
  "parse_script to_utf8 from_utf8 E script = yyparse E (pgs_lex from_utf8) (new_scanner (c_text (to_utf8 script)))"

end
