(* ===== verification/ScannerStates.thy ===== *)
theory ScannerStates
  imports PgsScanner ParserStates
begin

text \<open>
  The automaton of the scanner, checked against its tables: every chain of defaults ends, the states
  reached from a start condition accept rules of that condition only, and whatever the next character
  is, some rule matches it. The start conditions of the states and rules are a certificate.
\<close>

section \<open>The certificate\<close>

text \<open>The start conditions a state can be reached from.\<close>

definition state_conditions :: "int list list" where
  "state_conditions =
  [[], [0], [], [1], [], [2], [], [3], [], [4], [], [], [0], [0], [0], [0], [0], [0], [0], [0], [0], [0],
   [0], [0], [0], [0], [0], [0], [0], [0], [0], [0], [0], [0], [0], [0], [0], [0], [0], [0], [0], [0],
   [0], [0], [0], [0], [0], [0], [0], [0], [0], [0], [0], [0], [0], [0], [0], [1], [1], [1], [1], [2],
   [2], [2], [2], [2], [2], [2], [2], [2], [2], [3], [3], [3], [3], [4], [4], [4], [4], [4], [0], [0],
   [0, 2], [0], [0], [0], [0], [0], [0], [0], [0], [0], [0], [0], [0], [0], [0], [0], [0], [0], [0], [0],
   [0], [0], [0], [0], [0], [0], [0], [0], [0], [0], [0], [0], [0], [0], [0], [0], [0], [0], [0], [0],
   [0], [0], [0], [0], [0], [0], [0], [0], [0], [0], [0], [0], [0], [0], [0], [0], [0], [0], [1], [2],
   [2], [2], [3], [3], [4], [4], [0, 2], [0, 2], [0], [0], [0], [0], [0], [0], [0], [0], [0], [0], [0],
   [0], [0], [0], [0], [0], [0], [0], [0], [0], [0], [0], [0], [0], [0], [0], [0], [0], [0], [0], [0],
   [0], [0], [0], [0], [0], [0], [0], [0], [0], [0], [0], [0], [0], [0], [0], [0], [0], [0], [0], [0],
   [0], [0], [0], [0], [0], [0], [0], [0], [0], [0], [0], [0], [0], [0], [0], [0], [0], [0], [0], [0],
   [0], [0], [0], [0], [0], [0], [0], [0], [0], [0], [0], [0], [0], [0], [0], [0], [0], [0], [0], [0],
   [0], [0], [0], [0], [0], [0], [0], [0], [0], [0], [0], [0], [0], [0], [0], [0], [0], [0], [0], [0],
   [0], [0], [0], [0], [0], [0], [0], [0], [0], [0], [0], [0], [0], [0], [0], [0], [0], [0], [0], [0],
   [0], [0], [0], [0], [0], [0], [0], [0], [0], [0], [0], [0], [0], [0], [0], [0], [0], [0], [0], [0],
   [0], [0], [0], [0], [0], [0], [0], [0], [0], [0], [0], [0], [0], [0], [0], [0], [0], [0], [0], [0],
   [0], [0], [0], [0], [0], [0], [0], [0], [0], [0], [0], [0], [0], [0], [0], [0], [0], [0], [0], [0],
   [0], [0], [0], [0], [0], [0], [0], [0], [0], [0], [0], [0], [0], [0], [0], [0], [0], [0], [0], [0],
   [0], [0], [0], [0], [0], [0], [0], [0], [0], [0], [0], [0], [0], [0], [0], [0], [0], [0], [0], [0],
   [0], [0], [0], [0], [0], [0], [0], [0], [0], [0], [0], [0], [0], [0], [0], [0], [0], [0], [0], [0],
   [0], [0], [0], [0], [0], [0], [0], [0], [0], [0], [0], [0], [0], [0], [0], [0], [0], [0], [0], [0],
   [0], [0], [0], [0], [0], [0], [0], [0], [0], [0], [0], [0], [0], [0], [0], [0], [0], [0], [0], [0],
   [0], [0], [], [1], [2], [3], [4], [0], [2], [3], [4], [0, 2]]"

lemmas state_conditions_entries [scanner_entries] = entries_of[OF state_conditions_def, simplified]

text \<open>The start conditions a rule can be matched in.\<close>

definition rule_conditions :: "int list list" where
  "rule_conditions =
  [[], [0, 2], [0], [2], [0], [0], [0], [0], [0], [0], [0], [0], [0], [0], [0], [0], [0], [0], [0], [0],
   [0], [0], [0], [0], [0], [0], [0], [0], [0], [0], [0], [0], [0], [0], [0], [0], [0], [0], [0], [0],
   [0], [0], [0], [0], [0], [0], [0], [0], [0], [0], [0], [0], [0], [0], [0], [0], [0], [0], [0], [0],
   [0], [0], [0], [0], [0], [0], [0], [0], [0], [0], [0], [0], [0], [0], [0], [0], [0], [0], [0], [0],
   [0], [0], [0], [0], [0], [0], [0], [0], [0], [0], [0], [0], [0], [0], [0], [0], [0], [0], [0], [0],
   [0], [0], [0], [0], [0], [0], [0], [0], [0], [0], [0], [0], [0], [0], [0], [2], [2], [2], [2], [2],
   [2], [2], [2], [3], [3], [3], [3], [1], [1], [1], [1], [4], [4], [4], [4], [4], [4], [], []]"

lemmas rule_conditions_entries [scanner_entries] = entries_of[OF rule_conditions_def, simplified]

section \<open>Checks\<close>

definition all_in :: "int list \<Rightarrow> int list \<Rightarrow> bool" where
  "all_in xs ys \<longleftrightarrow> list_all (\<lambda>x. x \<in> set ys) xs"

definition transition_ok :: "int \<Rightarrow> bool" where
  "transition_ok i \<longleftrightarrow>
     (let t = entry yy_nxt i in
      t = jam \<or> (0 < t \<and> t < 443 \<and> all_in (entry state_conditions (entry yy_chk i)) (entry state_conditions t)))"

definition default_state_ok :: "int \<Rightarrow> bool" where
  "default_state_ok s \<longleftrightarrow>
     (let d = entry yy_def s in
      0 \<le> entry yy_base s \<and> entry yy_base s \<le> 508 \<and>
      (s = jam \<or> 0 < d \<and> d \<le> 452 \<and> d = jam \<or> 0 < d \<and> d \<le> 452 \<and> entry yy_def d = jam \<and> all_in (entry state_conditions s) (entry state_conditions d)))"

definition accept_ok :: "int \<Rightarrow> bool" where
  "accept_ok s \<longleftrightarrow>
     (let a = entry yy_accept s in
      a = 0 \<or> (0 \<le> a \<and> a \<le> 138 \<and> all_in (entry state_conditions s) (entry rule_conditions a)))"

definition jam_ok :: "int \<Rightarrow> bool" where
  "jam_ok c \<longleftrightarrow> entry yy_chk (entry yy_base jam + c) = jam \<and> entry yy_nxt (entry yy_base jam + c) = jam \<and> 1 \<le> entry yy_meta c \<and> entry yy_meta c \<le> 54"

text \<open>Every character begins a match; the rules that give a character back match two or more.\<close>

definition first_ok :: "int \<Rightarrow> int \<Rightarrow> bool" where
  "first_ok k c \<longleftrightarrow>
     (case yy_next (1 + 2 * k) c of
        None \<Rightarrow> False
      | Some t \<Rightarrow> t \<noteq> jam \<and> entry yy_accept t \<noteq> 0 \<and> entry yy_accept t \<notin> {1, 30, 31})"

lemma yy_next_hit:
  "entry yy_chk (entry yy_base s + c) = s \<Longrightarrow> yy_next s c = Some (entry yy_nxt (entry yy_base s + c))"
  by (subst yy_next.simps) simp

lemma yy_next_default:
  "entry yy_chk (entry yy_base s + c) \<noteq> s \<Longrightarrow>
    yy_next s c = yy_next (entry yy_def s) (if 444 \<le> entry yy_def s then entry yy_meta c else c)"
  by (subst yy_next.simps) simp

lemmas scanner_checks = all_in_def transition_ok_def default_state_ok_def accept_ok_def jam_ok_def jam_def Let_def mult_1_right mult_zero_right

lemmas first_checks = first_ok_def yy_next_hit yy_next_default jam_def option.case

lemma scanner_checked:
  "list_all transition_ok [1..562] \<and> list_all default_state_ok [1..452] \<and> list_all accept_ok [1..442] \<and>
   list_all jam_ok [1..54] \<and> list_all (\<lambda>i. 1 \<le> entry yy_ec i \<and> entry yy_ec i \<le> 54) [1..255] \<and>
   list_all (\<lambda>k. k \<in> set (entry state_conditions (1 + 2 * k))) [0..4] \<and>
   list_all (\<lambda>k. list_all (first_ok k) [1..54]) [0..4]"
  by (simp only: scanner_checks first_checks scanner_entries evaluating)

lemma rule_tokens_checked:
  "list_all (\<lambda>a. 297 \<le> entry rule_token a \<and> entry rule_token a \<le> 340) [65..110] \<and>
   list_all (\<lambda>a. 0 < entry rule_token a \<and> entry rule_token a \<le> 296) ([4..12] @ [14..33] @ [39..63] @ [114]) \<and>
   list_all (\<lambda>a. 341 \<le> entry rule_token a \<and> entry rule_token a \<le> 343) [34..38] \<and>
   list_all (\<lambda>a. \<forall>k \<in> set (entry rule_conditions a).
      k = 0 \<and> (a = 1 \<or> a = 2 \<or> 4 \<le> a \<and> a \<le> 114) \<or> k = 1 \<and> 127 \<le> a \<and> a \<le> 130 \<or>
      k = 2 \<and> (a = 1 \<or> a = 3 \<or> 115 \<le> a \<and> a \<le> 122) \<or> k = 3 \<and> 123 \<le> a \<and> a \<le> 126 \<or>
      k = 4 \<and> 131 \<le> a \<and> a \<le> 136) [1..138]"
  by (simp only: scanner_entries evaluating append.simps list.set ball_simps)

lemma token_groups_checked:
  "list_all (\<lambda>t. query_token (entry translate_table t)) [297..340] \<and>
   list_all (\<lambda>t. \<not> carries_string (entry translate_table t)) [1..296]"
  by (simp only: table_entries evaluating query_token_def carries_string_def)

end
