(* ===== verification/ScannerRun.thy ===== *)
theory ScannerRun
  imports ScannerStates ParserRun
begin

text \<open>
  The scanner returns whatever the input is (\<open>lex_total\<close>), and is a source of tokens for the parser: the
  interpretation \<open>script\<close> of the locale \<open>token_source\<close>. A script that ends within an SQL statement is the
  case where it repeats its last token.
\<close>

section \<open>The automaton\<close>

lemma transition_checked: "1 \<le> i \<Longrightarrow> i \<le> 562 \<Longrightarrow> transition_ok i"
  and default_checked: "1 \<le> s \<Longrightarrow> s \<le> 452 \<Longrightarrow> default_state_ok s"
  and accept_checked: "1 \<le> s \<Longrightarrow> s \<le> 442 \<Longrightarrow> accept_ok s"
  and jam_checked: "1 \<le> c \<Longrightarrow> c \<le> 54 \<Longrightarrow> jam_ok c"
  and class_checked: "1 \<le> i \<Longrightarrow> i \<le> 255 \<Longrightarrow> 1 \<le> entry yy_ec i \<and> entry yy_ec i \<le> 54"
  and start_checked: "0 \<le> k \<Longrightarrow> k \<le> 4 \<Longrightarrow> k \<in> set (entry state_conditions (1 + 2 * k))"
  and first_checked: "0 \<le> k \<Longrightarrow> k \<le> 4 \<Longrightarrow> 1 \<le> c \<Longrightarrow> c \<le> 54 \<Longrightarrow> first_ok k c"
  using scanner_checked unfolding list_all_iff set_upto Ball_def atLeastAtMost_iff by simp_all

lemma char_class_range: "1 \<le> char_class c \<and> char_class c \<le> 54"
proof (cases "c = CHR 0x00")
  case False
  have n: "(of_char c :: nat) < 256" by (rule nat_of_char_less_256)
  have "(of_char c :: nat) \<noteq> 0" using False of_char_eq_iff[of c "CHR 0x00", where 'a = nat] by simp
  then have "1 \<le> (of_char c :: int)" "(of_char c :: int) \<le> 255"
    using n unfolding of_nat_of_char[of c, where 'a = int, symmetric] by linarith+
  then show ?thesis using class_checked False by (simp add: char_class_def)
qed (simp add: char_class_def)

lemma all_in_trans: "all_in xs ys \<Longrightarrow> all_in ys zs \<Longrightarrow> all_in xs zs"
  by (auto simp: all_in_def list_all_iff)

definition next_ok :: "int \<Rightarrow> int option \<Rightarrow> bool" where
  "next_ok s r \<longleftrightarrow>
     (\<exists>t. r = Some t \<and> (t = jam \<or> 0 < t \<and> t < 443 \<and> all_in (entry state_conditions s) (entry state_conditions t)))"

lemma next_jam: "1 \<le> c \<Longrightarrow> c \<le> 54 \<Longrightarrow> yy_next jam c = Some jam"
  using jam_checked[of c] yy_next_hit[of jam c] by (simp add: jam_ok_def)

lemma next_hit:
  assumes "1 \<le> s" "s \<le> 452" "1 \<le> c" "c \<le> 54" "entry yy_chk (entry yy_base s + c) = s"
  shows "next_ok s (yy_next s c)"
proof -
  have b: "0 \<le> entry yy_base s + c" "entry yy_base s + c \<le> 562"
    using default_checked[OF assms(1,2)] assms(3,4) by (auto simp: default_state_ok_def Let_def)
  have "entry yy_base s + c \<noteq> 0"
    using assms(1,5) by (auto simp: scanner_entries)
  then have "transition_ok (entry yy_base s + c)" using b by (intro transition_checked) auto
  then show ?thesis using assms(5) yy_next_hit[OF assms(5)] by (auto simp: next_ok_def transition_ok_def Let_def)
qed

lemma next_total:
  assumes "1 \<le> s" "s \<le> 442" "1 \<le> c" "c \<le> 54"
  shows "next_ok s (yy_next s c)"
proof (cases "entry yy_chk (entry yy_base s + c) = s")
  case True
  then show ?thesis using next_hit assms by simp
next
  case miss: False
  let ?d = "entry yy_def s" and ?c = "if 444 \<le> entry yy_def s then entry yy_meta c else c"
  have c': "1 \<le> ?c" "?c \<le> 54" using assms jam_checked[of c] by (auto simp: jam_ok_def)
  have n: "yy_next s c = yy_next ?d ?c" using yy_next_default[OF miss] .
  show ?thesis
  proof (cases "?d = jam")
    case True
    then show ?thesis using n next_jam[of ?c] c' by (simp add: next_ok_def)
  next
    case False
    then have d: "1 \<le> ?d" "?d \<le> 452" "entry yy_def ?d = jam" "all_in (entry state_conditions s) (entry state_conditions ?d)"
      using default_checked[of s] assms(1,2) by (auto simp: default_state_ok_def Let_def jam_def)
    show ?thesis
    proof (cases "entry yy_chk (entry yy_base ?d + ?c) = ?d")
      case True
      from next_hit[OF d(1,2) c' True] show ?thesis
        unfolding n next_ok_def using all_in_trans[OF d(4)] by blast
    next
      case False
      have "yy_next ?d ?c = yy_next jam ?c" using yy_next_default[OF False] d(3) by (simp add: jam_def)
      then show ?thesis using n next_jam[OF c'] by (simp add: next_ok_def)
    qed
  qed
qed

section \<open>Matches\<close>

definition good_match :: "int \<Rightarrow> nat \<Rightarrow> nat \<times> int \<Rightarrow> bool" where
  "good_match k len = (\<lambda>(m, a). 1 \<le> m \<and> m \<le> len \<and> (a \<in> {1, 30, 31} \<longrightarrow> 2 \<le> m) \<and>
     1 \<le> a \<and> a \<le> 138 \<and> k \<in> set (entry rule_conditions a))"

lemma good_match_mono: "good_match k n f \<Longrightarrow> n \<le> n' \<Longrightarrow> good_match k n' f"
  by (auto simp: good_match_def)

lemma match_good:
  assumes "1 \<le> s" "s \<le> 442" "k \<in> set (entry state_conditions s)" "1 \<le> n" "entry yy_accept s \<in> {1, 30, 31} \<longrightarrow> 2 \<le> n"
    and "\<And>f. found = Some f \<Longrightarrow> good_match k n f" "found \<noteq> None \<or> entry yy_accept s \<noteq> 0"
  shows "\<exists>f. yy_match s n rest found = Some f \<and> good_match k (n + length rest) f"
  using assms
proof (induction rest arbitrary: s n found)
  case (Nil s n found)
  have "good_match k n (n, entry yy_accept s)" if "entry yy_accept s \<noteq> 0"
    using accept_checked[OF Nil.prems(1,2)] Nil.prems(3,4,5) that
    by (auto simp: good_match_def accept_ok_def Let_def all_in_def list_all_iff)
  then show ?case using Nil.prems(6,7) by (auto simp: Let_def)
next
  case (Cons c cs s n found)
  let ?found = "if entry yy_accept s \<noteq> 0 then Some (n, entry yy_accept s) else found"
  have a: "good_match k n (n, entry yy_accept s)" if "entry yy_accept s \<noteq> 0"
    using accept_checked[OF Cons.prems(1,2)] Cons.prems(3,4,5) that
    by (auto simp: good_match_def accept_ok_def Let_def all_in_def list_all_iff)
  have f: "\<And>f. ?found = Some f \<Longrightarrow> good_match k n f" "?found \<noteq> None"
    using a Cons.prems(6,7) by (auto split: if_splits)
  obtain t where t: "yy_next s (char_class c) = Some t"
    "t = jam \<or> 0 < t \<and> t < 443 \<and> all_in (entry state_conditions s) (entry state_conditions t)"
    using next_total[OF Cons.prems(1,2), of "char_class c"] char_class_range[of c] by (auto simp: next_ok_def)
  show ?case
  proof (cases "t = jam")
    case True
    have "yy_match s n (c # cs) found = ?found" using t(1) True by (simp add: Let_def)
    then show ?thesis using f good_match_mono[of k n _ "n + length (c # cs)"] by fastforce
  next
    case False
    have k: "k \<in> set (entry state_conditions t)" using t(2) False Cons.prems(3) by (auto simp: all_in_def list_all_iff)
    have "\<exists>f. yy_match t (Suc n) cs ?found = Some f \<and> good_match k (Suc n + length cs) f"
      using Cons.IH[of t "Suc n" ?found] t(2) False k f Cons.prems(4) good_match_mono[of k n _ "Suc n"] by fastforce
    then show ?thesis using t(1) False by (simp add: Let_def)
  qed
qed

lemma match_total:
  assumes "0 \<le> k" "k \<le> 4" "input \<noteq> []"
  shows "\<exists>f. yy_match (1 + 2 * k) 0 input None = Some f \<and> good_match k (length input) f"
proof -
  obtain c cs where i: "input = c # cs" using assms(3) by (cases input) auto
  obtain t where t: "yy_next (1 + 2 * k) (char_class c) = Some t" "t \<noteq> jam" "entry yy_accept t \<noteq> 0"
    "entry yy_accept t \<notin> {1, 30, 31}"
    using first_checked[OF assms(1,2), of "char_class c"] char_class_range[of c]
    by (auto simp: first_ok_def split: option.splits)
  have k: "k \<in> {0, 1, 2, 3, 4}" using assms(1,2) by auto
  then have z: "entry yy_accept (1 + 2 * k) = 0" by (auto simp: scanner_entries)
  have r: "0 < t" "t < 443" "k \<in> set (entry state_conditions t)"
    using next_total[of "1 + 2 * k" "char_class c"] char_class_range[of c] assms(1,2) t(1,2) start_checked[OF assms(1,2)]
    by (auto simp: next_ok_def all_in_def list_all_iff)
  have "\<exists>f. yy_match t 1 cs None = Some f \<and> good_match k (1 + length cs) f"
    by (rule match_good) (use r t in auto)
  then show ?thesis using t z by (simp add: i Let_def)
qed

declare yy_match.simps [simp del]

section \<open>Actions\<close>

definition in_query :: "pgsScanner \<Rightarrow> bool" where
  "in_query s \<longleftrightarrow> sc_start s = SC_QUERY \<or> sc_start s = SC_DOLLAR
     \<or> sc_start s = SC_STRING \<and> string_caller s = SC_QUERY \<or> sc_start s = SC_COMMENT \<and> comment_caller s = SC_QUERY"

definition scan_ok :: "pgsScanner \<Rightarrow> bool" where
  "scan_ok s \<longleftrightarrow> 0 \<le> sc_start s \<and> sc_start s \<le> 4
     \<and> (sc_start s = SC_STRING \<longrightarrow> string_caller s \<in> {INITIAL, SC_QUERY})
     \<and> (sc_start s = SC_COMMENT \<longrightarrow> comment_caller s \<in> {INITIAL, SC_QUERY})
     \<and> (in_query s \<longrightarrow> 297 \<le> sc_query_token s \<and> sc_query_token s \<le> 340)"

text \<open>The script ended within an SQL statement.\<close>

definition stuck :: "pgsScanner \<Rightarrow> bool" where
  "stuck s \<longleftrightarrow> sc_input s = [] \<and> in_query s \<and> sc_start s \<noteq> SC_COMMENT"

definition weight :: "pgsScanner \<Rightarrow> nat" where
  "weight s = 2 * length (sc_input s) + (if sc_start s = INITIAL then 0 else 1)"

text \<open>What a turn may give: it goes on with less to do, or returns a token.\<close>

definition token_ok :: "int \<Rightarrow> string option \<Rightarrow> bool" where
  "token_ok t str \<longleftrightarrow> 0 < t \<and> (carries_string (yytranslate t) \<longrightarrow> str \<noteq> None)"

fun turn_ok :: "nat \<Rightarrow> scanned \<Rightarrow> bool" where
  "turn_ok w (Scan_on s loc) = (scan_ok s \<and> weight s < w)"
| "turn_ok w (Token t str s loc) = (scan_ok s \<and> sc_start s = INITIAL \<and> weight s < w \<and> token_ok t str)"

lemma query_tokens: "297 \<le> t \<Longrightarrow> t \<le> 340 \<Longrightarrow> query_token (yytranslate t)"
  using token_groups_checked unfolding list_all_iff set_upto by (auto simp: yytranslate_def yyconstants)

lemma plain_tokens: "1 \<le> t \<Longrightarrow> t \<le> 296 \<Longrightarrow> token_ok t str"
  using token_groups_checked unfolding list_all_iff set_upto by (auto simp: yytranslate_def yyconstants token_ok_def)

lemma string_tokens: "0 < t \<Longrightarrow> token_ok t (Some str)"
  by (simp add: token_ok_def)

lemma query_rules: "65 \<le> a \<Longrightarrow> a \<le> 110 \<Longrightarrow> 297 \<le> entry rule_token a \<and> entry rule_token a \<le> 340"
  and word_rules: "34 \<le> a \<Longrightarrow> a \<le> 38 \<Longrightarrow> 341 \<le> entry rule_token a \<and> entry rule_token a \<le> 343"
  using rule_tokens_checked unfolding list_all_iff set_upto Ball_def atLeastAtMost_iff by simp_all

lemma plain_rules:
  assumes "4 \<le> a" "a \<le> 114" "a \<noteq> 13" "\<not> (34 \<le> a \<and> a \<le> 38)" "\<not> (64 \<le> a \<and> a \<le> 113)"
  shows "1 \<le> entry rule_token a \<and> entry rule_token a \<le> 296"
proof -
  have "\<forall>a \<in> {4..12} \<union> ({14..33} \<union> ({39..63} \<union> {114})). 0 < entry rule_token a \<and> entry rule_token a \<le> 296"
    using rule_tokens_checked unfolding list_all_iff set_upto set_append list.set by blast
  moreover have "a \<in> {4..12} \<union> ({14..33} \<union> ({39..63} \<union> {114}))"
    using assms unfolding Un_iff atLeastAtMost_iff singleton_iff by arith
  ultimately have "0 < entry rule_token a \<and> entry rule_token a \<le> 296" by (rule bspec)
  then show ?thesis by simp
qed

lemmas turn_simps = scan_ok_def in_query_def weight_def start_conditions add_query_def add_str_def add_text_def
  unput_def next_line_def

lemma turn_ok_if: "(c \<Longrightarrow> turn_ok w x) \<Longrightarrow> (\<not> c \<Longrightarrow> turn_ok w y) \<Longrightarrow> turn_ok w (if c then x else y)"
  by simp

lemma initial_ok:
  assumes "scan_ok s" "sc_start s = INITIAL" "a = 2 \<or> 4 \<le> a \<and> a \<le> 114" "length (sc_input s) + 1 \<le> n"
    "a \<in> {30, 31} \<longrightarrow> length (sc_input s) + 2 \<le> n"
  shows "turn_ok (2 * n) (initial_action conv a text s loc)"
proof -
  have plain: "token_ok (entry rule_token a) None" if "a \<noteq> 2" "\<not> (a = 13 \<or> a = 111)" "\<not> (34 \<le> a \<and> a \<le> 38)" "a \<noteq> 64"
    "\<not> (65 \<le> a \<and> a \<le> 110)" "a \<noteq> 112" "a \<noteq> 113"
    using plain_rules[of a] plain_tokens that assms(3) by force
  have word: "token_ok (entry rule_token a) (Some x)" if "34 \<le> a \<and> a \<le> 38" for x
    using word_rules[of a] string_tokens that by simp
  have query: "297 \<le> entry rule_token a \<and> entry rule_token a \<le> 340" if "65 \<le> a \<and> a \<le> 110"
    using query_rules[of a] that by simp
  have len: "length (sc_input s) < n" using assms(4) by simp
  have "length (sc_input s) + 2 \<le> n" if "a = 30 \<or> a = 31" using assms(5) that by auto
  then show ?thesis unfolding initial_action_def
    by (intro turn_ok_if) (use assms(2) plain word query len in \<open>auto simp: turn_simps\<close>)
qed

lemma query_ok:
  assumes "scan_ok s" "sc_start s = SC_QUERY" "a = 3 \<or> 115 \<le> a \<and> a \<le> 122" "length (sc_input s) + 1 \<le> n"
  shows "turn_ok (2 * n + 1) (query_action conv a text s loc)"
  using assms string_tokens by (auto simp: query_action_def end_query_def Let_def turn_simps)

lemma dollar_ok:
  assumes "scan_ok s" "sc_start s = SC_DOLLAR" "length (sc_input s) + 1 \<le> n"
  shows "turn_ok (2 * n + 1) (dollar_action a text s loc)"
  using assms by (auto simp: dollar_action_def Let_def turn_simps)

lemma comment_ok:
  assumes "scan_ok s" "sc_start s = SC_COMMENT" "length (sc_input s) + 1 \<le> n"
  shows "turn_ok (2 * n + 1) (comment_action a text s loc)"
  using assms by (auto simp: comment_action_def turn_simps)

lemma string_ok:
  assumes "scan_ok s" "sc_start s = SC_STRING" "length (sc_input s) + 1 \<le> n"
  shows "turn_ok (2 * n + 1) (string_action conv a text s loc)"
  using assms string_tokens[of PGS_VAL_STR] by (auto simp: string_action_def end_str_def turn_simps PGS_VAL_STR_def)

lemma rule_groups:
  assumes "1 \<le> a" "a \<le> 138" "k \<in> set (entry rule_conditions a)"
  shows "k = 0 \<and> (a = 1 \<or> a = 2 \<or> 4 \<le> a \<and> a \<le> 114) \<or> k = 1 \<and> 127 \<le> a \<and> a \<le> 130 \<or>
      k = 2 \<and> (a = 1 \<or> a = 3 \<or> 115 \<le> a \<and> a \<le> 122) \<or> k = 3 \<and> 123 \<le> a \<and> a \<le> 126 \<or>
      k = 4 \<and> 131 \<le> a \<and> a \<le> 136"
proof -
  have "a \<in> set [1..138]" using assms(1,2) unfolding set_upto by simp
  then show ?thesis
    using rule_tokens_checked[THEN conjunct2, THEN conjunct2, THEN conjunct2] assms(3) unfolding list_all_iff by blast
qed

lemma scan_step_ok:
  assumes "scan_ok s" "sc_input s \<noteq> []"
  shows "\<exists>r. scan_step conv s loc = Some r \<and> turn_ok (weight s) r"
proof -
  have k: "0 \<le> sc_start s" "sc_start s \<le> 4" using assms(1) by (auto simp: scan_ok_def)
  obtain n a where m: "yy_match (1 + 2 * sc_start s) 0 (sc_input s) None = Some (n, a)"
    "good_match (sc_start s) (length (sc_input s)) (n, a)"
    using match_total[OF k assms(2)] by auto
  let ?n = "if a = 1 then n - 1 else n"
  let ?s = "s\<lparr>sc_input := drop ?n (sc_input s)\<rparr>" and ?text = "take ?n (sc_input s)"
    and ?loc = "location_columns (int ?n) loc"
  have step: "scan_step conv s loc = Some (scan_action conv a ?text ?s ?loc)"
    using assms(2) m(1) by (simp add: scan_step_def Let_def)
  have n: "1 \<le> ?n" "?n \<le> length (sc_input s)" "a \<in> {30, 31} \<longrightarrow> 2 \<le> ?n" "1 \<le> a" "a \<le> 138"
    "sc_start s \<in> set (entry rule_conditions a)"
    using m(2) by (auto simp: good_match_def)
  have len: "length (sc_input ?s) + 1 \<le> length (sc_input s)"
    "a \<in> {30, 31} \<longrightarrow> length (sc_input ?s) + 2 \<le> length (sc_input s)" using n by auto
  have ok: "scan_ok ?s" using assms(1) by (simp add: scan_ok_def in_query_def)
  have w: "weight s = 2 * length (sc_input s) + (if sc_start s = INITIAL then 0 else 1)" by (simp add: weight_def)
  from rule_groups[OF n(4,5,6)] consider (comment_line) "a = 1" "sc_start s = INITIAL \<or> sc_start s = SC_QUERY"
    | (initial) "sc_start s = INITIAL" "a = 2 \<or> 4 \<le> a \<and> a \<le> 114"
    | (comment) "sc_start s = SC_COMMENT" "127 \<le> a" "a \<le> 130"
    | (query) "sc_start s = SC_QUERY" "a = 3 \<or> 115 \<le> a \<and> a \<le> 122"
    | (dollar) "sc_start s = SC_DOLLAR" "123 \<le> a" "a \<le> 126"
    | (string) "sc_start s = SC_STRING" "131 \<le> a" "a \<le> 136"
    unfolding start_conditions by blast
  then have "turn_ok (weight s) (scan_action conv a ?text ?s ?loc)"
  proof cases
    case comment_line
    then show ?thesis using ok len(1) w by (auto simp: scan_action_def weight_def)
  next
    case initial
    then show ?thesis using initial_ok[OF ok _ initial(2) len(1) len(2)] w
      by (auto simp: scan_action_def)
  next
    case comment
    then show ?thesis using comment_ok[OF ok _ len(1)] w by (simp add: scan_action_def start_conditions)
  next
    case query
    then show ?thesis using query_ok[OF ok _ query(2) len(1)] w by (auto simp: scan_action_def start_conditions)
  next
    case dollar
    then show ?thesis using dollar_ok[OF ok _ len(1)] w by (simp add: scan_action_def start_conditions)
  next
    case string
    then show ?thesis using string_ok[OF ok _ len(1)] w by (simp add: scan_action_def start_conditions)
  qed
  then show ?thesis using step by blast
qed

section \<open>A call\<close>

text \<open>Locations do not matter to what is scanned.\<close>

fun scanned_part :: "scanned \<Rightarrow> pgsScanner + int \<times> string option \<times> pgsScanner" where
  "scanned_part (Scan_on s loc) = Inl s"
| "scanned_part (Token t str s loc) = Inr (t, str, s)"

lemma part_if: "scanned_part (if c then x else y) = (if c then scanned_part x else scanned_part y)"
  by simp

lemma scan_step_location:
  "map_option scanned_part (scan_step conv s loc) = map_option scanned_part (scan_step conv s loc')"
proof -
  have "scanned_part (scan_action conv a w s loc) = scanned_part (scan_action conv a w s loc')" for a w s loc loc'
    unfolding scan_action_def initial_action_def query_action_def dollar_action_def comment_action_def string_action_def
      end_query_def end_str_def Let_def
    by (simp only: part_if scanned_part.simps)
  moreover have "scanned_part (eof_action conv s loc) = scanned_part (eof_action conv s loc')"
    unfolding eof_action_def end_str_def by (simp only: part_if scanned_part.simps)
  ultimately show ?thesis
    by (cases "yy_match (1 + 2 * sc_start s) 0 (sc_input s) None") (auto simp: scan_step_def Let_def split: prod.split)
qed

text \<open>How a call ends: at the end of the script; with a token, and less to do; or within a statement.\<close>

definition lexed :: "pgsScanner \<Rightarrow> int \<Rightarrow> string option \<Rightarrow> pgsScanner \<Rightarrow> bool" where
  "lexed s t str s' \<longleftrightarrow> scan_ok s' \<and>
     (t = yyeof \<and> sc_input s' = [] \<and> (sc_start s' = INITIAL \<or> sc_start s' = SC_COMMENT)
      \<or> token_ok t str \<and> \<not> stuck s' \<and> weight s' < weight s
      \<or> token_ok t str \<and> stuck s' \<and> query_token (yytranslate t) \<and> str \<noteq> None)"

lemma eof_lexed:
  assumes s: "scan_ok s" "sc_input s = []" "eof_action conv s loc = Token t str s' loc'"
  shows "lexed s t str s'"
proof -
  consider (ended) "sc_start s = INITIAL \<or> sc_start s = SC_COMMENT" | (string) "sc_start s = SC_STRING" "string_caller s = INITIAL"
    | (query) "sc_start s \<noteq> INITIAL" "sc_start s \<noteq> SC_COMMENT" "\<not> (sc_start s = SC_STRING \<and> string_caller s \<noteq> SC_QUERY)"
    using s(1) by (auto simp: scan_ok_def)
  then show ?thesis
  proof cases
    case ended
    then show ?thesis using s by (auto simp: eof_action_def lexed_def)
  next
    case string
    then have "t = PGS_VAL_STR" "str = Some (conv (c_text (sc_str s)))" "s' = s\<lparr>sc_str := [], sc_start := INITIAL\<rparr>"
      using s(3) by (auto simp: eof_action_def end_str_def start_conditions)
    then show ?thesis using s string string_tokens[of PGS_VAL_STR]
      by (simp add: lexed_def stuck_def turn_simps PGS_VAL_STR_def)
  next
    case query
    then have r: "t = sc_query_token s" "str = Some (conv (c_text (sc_query s)))" "s' = s\<lparr>sc_query := [], m_parent := 0\<rparr>"
      using s(3) by (auto simp: eof_action_def)
    have q: "in_query s" using s(1) query by (auto simp: scan_ok_def in_query_def start_conditions)
    then have "297 \<le> t" "t \<le> 340" using s(1) r(1) by (auto simp: scan_ok_def)
    moreover have "stuck s'" "scan_ok s'" using q s(1,2) query(2) r(3) by (auto simp: stuck_def in_query_def scan_ok_def)
    ultimately show ?thesis using query_tokens[of t] string_tokens[of t] r(2) by (simp add: lexed_def)
  qed
qed

lemma lex_total:
  assumes "scan_ok s"
  shows "\<exists>t str s'. (\<forall>loc. \<exists>loc'. lex_loop conv s loc = Some (t, str, loc', s')) \<and> lexed s t str s'"
  using assms
proof (induction "weight s" arbitrary: s rule: less_induct)
  case less
  have part: "scan_step conv s loc = Some r \<Longrightarrow> \<exists>r'. scan_step conv s loc' = Some r' \<and> scanned_part r' = scanned_part r"
    for r loc loc' using scan_step_location[of conv s loc loc'] by (cases "scan_step conv s loc'") auto
  obtain r where r: "scan_step conv s new_location = Some r"
    "sc_input s = [] \<and> r = eof_action conv s new_location \<or> turn_ok (weight s) r"
    using scan_step_ok[OF less.prems, of conv new_location] by (cases "sc_input s = []") (auto simp: scan_step_def)
  show ?case
  proof (cases r)
    case (Token t str s' l)
    have "\<exists>loc'. lex_loop conv s loc = Some (t, str, loc', s')" for loc
    proof -
      obtain r' where "scan_step conv s loc = Some r'" "scanned_part r' = Inr (t, str, s')"
        using part[OF r(1), of loc] Token by auto
      then show ?thesis by (cases r') (auto simp: lex_loop.simps)
    qed
    moreover have "lexed s t str s'"
      using r(2) eof_lexed[OF less.prems, of conv new_location t str s' l] Token
      by (auto simp: lexed_def stuck_def in_query_def start_conditions)
    ultimately show ?thesis by blast
  next
    case (Scan_on s1 l)
    have "turn_ok (weight s) r" using r(2) Scan_on by (auto simp: eof_action_def end_str_def split: if_splits)
    then have s1: "weight s1 < weight s" "scan_ok s1" using Scan_on by auto
    from less.hyps[OF s1] obtain t str s' where
      ih: "\<And>loc. \<exists>loc'. lex_loop conv s1 loc = Some (t, str, loc', s')" "lexed s1 t str s'" by blast
    have "\<exists>loc'. lex_loop conv s loc = Some (t, str, loc', s')" for loc
    proof -
      obtain r' where "scan_step conv s loc = Some r'" "scanned_part r' = Inl s1"
        using part[OF r(1), of loc] Scan_on by auto
      then show ?thesis using ih(1) by (cases r') (auto simp: lex_loop.simps)
    qed
    moreover have "lexed s t str s'" using ih(2) s1(1) by (auto simp: lexed_def)
    ultimately show ?thesis by blast
  qed
qed

section \<open>All tokens of a script\<close>

text \<open>The tokens, and whether the script ends outside of an SQL statement.\<close>

function scan_all :: "(string \<Rightarrow> string) \<Rightarrow> pgsScanner \<Rightarrow> int list \<times> bool" where
  "scan_all conv s =
     (if stuck s then ([], False)
      else case pgs_lex conv s new_location of
        None \<Rightarrow> ([], True)
      | Some (t, str, loc, s') \<Rightarrow>
          if t \<le> 0 then ([], True)
          else if stuck s' then ([yytranslate t], False)
          else if weight s' < weight s then (let (ts, e) = scan_all conv s' in (yytranslate t # ts, e))
          else ([], True))"
  by auto
termination by (relation "measure (\<lambda>(conv, s). weight s)") auto

declare scan_all.simps [simp del]

lemma call_cases:
  assumes "scan_ok s"
  obtains t str s' where "\<And>loc. \<exists>loc'. pgs_lex conv s loc = Some (t, str, loc', s')" "lexed s t str s'"
  using lex_total[OF assms, of conv] that unfolding pgs_lex_def by meson

lemma scan_all_call:
  assumes "\<And>loc. \<exists>loc'. pgs_lex conv s loc = Some (t, str, loc', s')" "lexed s t str s'" "\<not> stuck s"
  shows "scan_all conv s =
    (if t \<le> 0 then ([], True) else if stuck s' then ([yytranslate t], False)
     else (yytranslate t # fst (scan_all conv s'), snd (scan_all conv s')))"
proof -
  obtain loc' where "pgs_lex conv s new_location = Some (t, str, loc', s')" using assms(1) by blast
  then show ?thesis using assms(2,3)
    by (subst scan_all.simps) (auto simp: lexed_def token_ok_def yyconstants split: prod.splits)
qed

lemma ended_again:
  assumes "scan_ok s" "sc_input s = []" "sc_start s = INITIAL \<or> sc_start s = SC_COMMENT"
  shows "\<exists>loc'. pgs_lex conv s loc = Some (yyeof, None, loc', s)"
  using assms by (subst pgs_lex_def, subst lex_loop.simps) (auto simp: scan_step_def eof_action_def)

lemma stuck_again:
  assumes "scan_ok s" "stuck s"
  shows "\<exists>str loc' s'. pgs_lex conv s loc = Some (sc_query_token s, Some str, loc', s') \<and> scan_ok s' \<and> stuck s'"
  using assms by (subst pgs_lex_def, subst lex_loop.simps)
    (auto simp: scan_step_def eof_action_def stuck_def turn_simps split: if_splits)

lemma no_token_stuck:
  assumes "scan_ok s" "scan_all conv s = ([], False)"
  shows "stuck s"
proof (rule ccontr)
  assume n: "\<not> stuck s"
  obtain t str s' where "\<And>loc. \<exists>loc'. pgs_lex conv s loc = Some (t, str, loc', s')" "lexed s t str s'"
    using call_cases[OF assms(1), of conv] by metis
  from scan_all_call[OF this n] assms(2) show False by (auto split: if_splits)
qed

lemma ended_scanned:
  assumes "scan_ok s" "sc_input s = []" "sc_start s = INITIAL \<or> sc_start s = SC_COMMENT"
  shows "scan_all conv s = ([], True)"
proof -
  have "\<not> stuck s" using assms(3) by (auto simp: stuck_def in_query_def start_conditions)
  then show ?thesis using ended_again[OF assms, of conv new_location]
    by (subst scan_all.simps) (auto simp: yyconstants)
qed

interpretation script: token_source "pgs_lex conv" scan_ok "\<lambda>s. fst (scan_all conv s)" "\<lambda>s. snd (scan_all conv s)"
  for conv
proof
  fix s X Xs loc
  assume s: "scan_ok s" "fst (scan_all conv s) = X # Xs"
  then have n: "\<not> stuck s" by (auto simp: scan_all.simps)
  obtain t str s' where c: "\<And>loc. \<exists>loc'. pgs_lex conv s loc = Some (t, str, loc', s')" "lexed s t str s'"
    using call_cases[OF s(1), of conv] by metis
  note all = scan_all_call[OF c n]
  have t: "0 < t" "token_ok t str" using c(2) all s(2) by (auto simp: lexed_def token_ok_def yyconstants split: if_splits)
  obtain loc' where call: "pgs_lex conv s loc = Some (t, str, loc', s')" using c(1) by blast
  have rest: "scan_all conv s' = (Xs, snd (scan_all conv s))" "yytranslate t = X"
    using all t(1) s(2) by (auto simp: scan_all.simps[of conv s'] prod_eq_iff split: if_splits)
  have "query_token X" if "Xs = []" "\<not> snd (scan_all conv s)"
    using no_token_stuck[of s' conv] that rest c(2) t(1) by (auto simp: lexed_def yyconstants)
  then show "\<exists>t str loc' l'. pgs_lex conv s loc = Some (t, str, loc', l') \<and> 0 < t \<and> yytranslate t = X \<and>
      (carries_string X \<longrightarrow> str \<noteq> None) \<and> scan_ok l' \<and> fst (scan_all conv l') = Xs \<and> snd (scan_all conv l') = snd (scan_all conv s) \<and>
      (Xs = [] \<and> \<not> snd (scan_all conv s) \<longrightarrow> query_token X)"
    using call t rest c(2) by (auto simp: token_ok_def lexed_def)
next
  fix s loc
  assume s: "scan_ok s" "fst (scan_all conv s) = []"
  show "\<exists>t str loc' l'. pgs_lex conv s loc = Some (t, str, loc', l') \<and>
      (if snd (scan_all conv s) then t \<le> 0 else 0 < t \<and> query_token (yytranslate t) \<and> str \<noteq> None) \<and>
      scan_ok l' \<and> fst (scan_all conv l') = [] \<and> snd (scan_all conv l') = snd (scan_all conv s)"
  proof (cases "stuck s")
    case True
    then have q: "297 \<le> sc_query_token s" "sc_query_token s \<le> 340" using s(1) by (auto simp: stuck_def scan_ok_def)
    have "scan_all conv s' = ([], False)" if "stuck s'" for s' using that by (simp add: scan_all.simps)
    then show ?thesis using stuck_again[OF s(1) True, of conv loc] query_tokens[OF q] q True by fastforce
  next
    case False
    obtain t str s' where c: "\<And>loc. \<exists>loc'. pgs_lex conv s loc = Some (t, str, loc', s')" "lexed s t str s'"
      using call_cases[OF s(1), of conv] by metis
    note all = scan_all_call[OF c False]
    have t: "t \<le> 0" using all s(2) by (auto split: if_splits)
    then have "scan_all conv s' = ([], True)" "scan_ok s'"
      using c(2) ended_scanned[of s' conv] by (auto simp: lexed_def token_ok_def)
    then show ?thesis using c(1)[of loc] all t by auto
  qed
qed

lemma new_scanner_ok: "scan_ok (new_scanner input)" "\<not> stuck (new_scanner input)"
  by (simp_all add: scan_ok_def in_query_def stuck_def new_scanner_def start_conditions)

section \<open>Every script is parsed\<close>

text \<open>Whatever the text of a script is, scanning and parsing end without anything undefined, leave no object on the
  lists of the context, and either accept a sentence of the grammar, of the tokens of the whole script, or report
  one error and give no program.\<close>

theorem script_parsed:
  "let s = new_scanner (c_text (to_utf8 script)) in
    \<exists>r q. parse_script to_utf8 from_utf8 E script = Some (r, q) \<and> cx_vars (yy_context q) = [] \<and> cx_stmts (yy_context q) = []
      \<and> (r = 0 \<and> snd (scan_all from_utf8 s) \<and> yy_errors q = [] \<and> yields [135] (fst (scan_all from_utf8 s) @ [yyeof]) \<or>
         r = 1 \<and> length (yy_errors q) = 1 \<and> cx_program (yy_context q) = None)"
proof -
  let ?s = "new_scanner (c_text (to_utf8 script))"
  have "snd (scan_all from_utf8 ?s) \<or> fst (scan_all from_utf8 ?s) \<noteq> []"
    using no_token_stuck[OF new_scanner_ok(1), of from_utf8 "c_text (to_utf8 script)"] new_scanner_ok(2)
    by (metis prod.collapse)
  from script.parse_ok[OF new_scanner_ok(1) this, of E] show ?thesis
    by (simp add: parse_script_def Let_def)
qed

text \<open>So the parameter \<open>ae_parse\<close> of the application can be this scanner and this parser: every text has an outcome.\<close>

definition script_outcome_of :: "(string \<Rightarrow> string) \<Rightarrow> (string \<Rightarrow> string) \<Rightarrow> parser_env \<Rightarrow> string \<Rightarrow> parsed option" where
  "script_outcome_of to_utf8 from_utf8 E script =
     map_option (\<lambda>(r, q). parse_outcome q) (parse_script to_utf8 from_utf8 E script)"

lemma every_script_has_outcome: "\<exists>p. script_outcome_of to_utf8 from_utf8 E script = Some p"
  using script_parsed[of to_utf8 script from_utf8 E] by (auto simp: script_outcome_of_def Let_def)

end
