(* ===== verification/Spec2Isabelle.thy ===== *)
theory Spec2Isabelle
  imports PgsArith PgsEval PgsScript MapmRefine PgsAppRun ServerLog Quoting ListText MiscText HbaEditor PgPass SettingsReader
    PgsReferences ParserProps ScannerRun
begin

text \<open>
  pgAdmin III is a graphical front end for PostgreSQL. This development models the parts of it that
  compute something of their own.
  \<^item> Its own language, PGScript (\<open>pgadmin/pgscript\<close>): the decimal arithmetic, the random generators,
    values and records, expressions, SQL text within scripts, statements and programs. A script is
    parsed into a tree of statements (\<open>pgsStmt\<close>) over expressions (\<open>pgsExpression\<close>), which is evaluated in
    a thread on a symbol table shared between the scripts of an application; queries run in a second
    thread and are polled; output goes to a stream guarded by a semaphore.
  \<^item> The editors of the server's and the client's configuration files, \<open>pg_hba.conf\<close>, \<open>postgresql.conf\<close> and
    the password file (\<open>utils/pgconfig.cpp\<close> with the windows and dialogs that use it).
  \<^item> The server log: CSV records (\<open>utils/csvfiles.cpp\<close>) and their rows (\<open>frm/frmStatus.cpp\<close>).
  \<^item> The texts that the whole program builds and takes apart with \<open>utils/misc.cpp\<close> and \<open>db/keywords.c\<close>:
    quoting of SQL, lists within texts, times, HTML.

  \<^bold>\<open>Conventions.\<close> Stateful code is a program \<open>'s \<Rightarrow> (('e + 'a) \<times> 's) option\<close> (\<open>Prog\<close>): \<open>None\<close> is code that never
  returns, \<open>Inl\<close> an exception, \<open>Inr\<close> a value, each with the state reached. Loops that may run for
  ever are \<open>partial_function (option)\<close>, so no fuel is needed. \<open>USHORT\<close> is \<open>16 word\<close>, \<open>UCHAR\<close> \<open>8 word\<close>; \<open>long\<close> is an
  \<open>int\<close>, its limits are written out where text is converted. \<open>pgs_env\<close> holds what a script reads of
  its surroundings: the clock, whether the connection is alive, the answers of \<open>TestDestroy\<close>, the
  query thread's outcomes, and the reciprocal division of MAPM. \<open>pgs_state\<close> is what it changes: the
  symbol table, the shared randomizers (a generator value is an index into them, as the code shares
  one object through reference counting), the output and its semaphore, the error flag and line.

  \<^bold>\<open>Theories.\<close>
  \<^item> \<open>Prelude\<close>, \<open>WxString\<close>, \<open>Prog\<close>: machine integers, decimal digits, wxString operations, programs.
  \<^item> \<open>Mapm\<close>, \<open>MapmDiv\<close>, \<open>MapmText\<close>: the numbers of \<open>utilities/m_apm\<close> and \<open>utilities/pgsMapm.cpp\<close>. A normalised
    MAPM number is its mantissa and exponent; its operations are exact (\<open>numval\<close>, \<open>mapm_val\<close> give the
    rational denoted). \<open>MapmText\<close> parses and prints it. Exponents and numbers of digits, which the code keeps
    as C \<open>int\<close>, have no bounds in these theories and the next ones: their overflow is not modelled.
  \<^item> \<open>MapmStruct\<close>, \<open>MapmSum\<close>, \<open>MapmProduct\<close>, \<open>MapmSdivide\<close>: the same numbers as the code keeps them, bytes of two
    digits with a length, an exponent and a sign (\<open>M_APM\<close>), with the loops of \<open>mapmutil.cpp\<close>,
    \<open>mapmutl2.cpp\<close>, \<open>mapm_add.cpp\<close>, \<open>mapm_mul.cpp\<close> and \<open>mapm_div.cpp\<close>. \<open>canonical\<close> is the invariant of a
    normalised number; \<open>MapmRefine\<close> shows that \<open>abs_mapm\<close> takes each operation to the one of \<open>Mapm\<close> and
    \<open>MapmDiv\<close>. \<open>M_fast_multiply\<close>, for operands of 48 bytes and more, is a parameter that has to multiply.
  \<^item> \<open>LcgCycle\<close>, \<open>PgsIntGen\<close>, \<open>Generators\<close>: the generators of \<open>generators/pgsIntegerGen.cpp\<close>,
    \<open>pgsRealGen.cpp\<close>, \<open>pgsStringGen.cpp\<close>. \<open>LcgCycle\<close> is the number theory: \<open>x \<mapsto> 5x + 1\<close> modulo a power of two
    is a single cycle. \<open>PgsCalendarGen\<close>, \<open>PgsDictionaryGen\<close>, \<open>PgsRegexGen\<close>: dates, times and timestamps, lines of a
    file, regular expressions; in sequence they draw every element of their range once per period.
    \<open>PgsReferenceGen\<close>: rows of a table. \<open>PgsObjectGen\<close> is the class of all of them.
  \<^item> \<open>PgsObjects\<close>, \<open>PgsVariable\<close>: values (\<open>objects/pgsNumber.cpp\<close>, \<open>pgsString.cpp\<close>, \<open>pgsGenerator.cpp\<close>) and the operators
    they define, with the dispatch of \<open>pgsVariable\<close>. \<open>PgsContainer\<close>, \<open>PgsRecord\<close>: \<open>objects/pgsRecord.cpp\<close>. \<open>PgsText\<close>: the
    casts between text and records.
  \<^item> \<open>PgsArith\<close>: arithmetic and comparison of values denote those of rationals.
  \<^item> \<open>PgsExpr\<close>, \<open>PgsExecute\<close>: \<open>pgscript/expressions\<close>, one definition for each \<open>eval\<close>, and the dispatch \<open>eval\<close>;
    \<open>PgsExecute\<close> is SQL text (\<open>pgsExecute.cpp\<close>) and the generator expressions. \<open>PgsQueries\<close>: what a query does
    to the output and what becomes of its rows; the generators of references run queries when they draw
    (\<open>own_query\<close>), \<open>PgsReferences\<close> shows that these are what \<open>pgsExecute\<close> does with an empty symbol table.
  \<^item> \<open>PgsTyping\<close>, \<open>PgsSound\<close>, \<open>PgsEval\<close>: well-formed values and states are preserved; result sets; cells.
  \<^item> \<open>PgsQuery\<close>, \<open>PgsSubst\<close>: the substitution of variables in SQL text against a one-pass specification.
  \<^item> \<open>PgsStmt\<close>: \<open>pgscript/statements\<close>. \<open>PgsKeeps\<close>: the locale \<open>unaffected\<close>, the ways in which an expression
    changes the state; \<open>PgsRun\<close>, \<open>PgsScript\<close>: the properties of statements and scripts. Reports of errors are
    compared with those of a run in which lists report nothing (\<open>unreported\<close>), so that each is counted.
  \<^item> \<open>ParserTables\<close>, \<open>ParserActions\<close>, \<open>PgsParser\<close>: the parser of \<open>pgscript/parser.tab.cc\<close>, its tables as they stand,
    the actions of its rules on the lists of objects under construction (\<open>utilities/pgsContext.cpp\<close>), the
    automaton and its error path. The run of the program, which the rule of the whole input starts, is
    recorded by \<open>unit_action\<close> and done by \<open>parse_string\<close> of \<open>PgsApp\<close>. Using or deleting a deleted object, reading the wrong member of the
    union and a parse that never ends are all \<open>None\<close>. \<open>ParserStates\<close> is a certificate, the items of each state,
    and one lemma that checks it against the tables by rewriting; \<open>ParserPaths\<close>: what lies below an item on
    the stack; \<open>ParserMemory\<close>: every action finds the objects it needs and leaves the lists in step with the
    stack; \<open>ParserRun\<close>: the locale \<open>token_source\<close> (what the parser asks of a scanner), the invariant of the
    parser and its measure (tokens to come, height of the stack, rank of its top symbol). \<open>ParserProps\<close> draws
    the conclusion: no token sequence makes the parser hang or misuse memory, and it accepts sentences of
    the grammar only.
  \<^item> \<open>ScannerTables\<close>, \<open>PgsScanner\<close>: the scanner of \<open>pgscript/lex.pgs.cc\<close>, generated from \<open>pgsScanner.ll\<close>, with its tables
    and the actions of its rules. \<open>ScannerStates\<close> is the certificate of its automaton; \<open>ScannerRun\<close> shows that the
    scanner returns on every input and is a \<open>token_source\<close>, so every script is parsed (\<open>script_parsed\<close>).
  \<^item> \<open>PgsApp\<close>: \<open>pgsApplication.cpp\<close>, \<open>utilities/pgsThread.cpp\<close>, \<open>utilities/pgsDriver.cpp\<close> and the handlers of
    \<open>frm/frmQuery.cpp\<close> that run scripts, as steps of two threads. The body of a script is one step, but for the output: the
    script may take the semaphore of the output and give it back in steps of their own, so the handlers
    that want the output are seen to wait for it; \<open>Reach\<close>: the locales of invariants;
    \<open>PgsAppRun\<close>: one script at a time, what a script leaves, that a cancelled one ends.
  \<^item> \<open>CsvFiles\<close>, \<open>WxText\<close>, \<open>ServerLog\<close>: the two tokenizers of \<open>utils/csvfiles.cpp\<close>; searching in texts; reading a log
    file in pieces, \<open>addLogFile\<close> and \<open>addLogLine\<close> of \<open>frm/frmStatus.cpp\<close>. Records that are written are read
    back, in whatever pieces the server sends the file, if each piece can be converted; a piece that is cut
    within a character, and so cannot, is lost. The conversions are parameters.
  \<^item> \<open>Quoting\<close>, \<open>ListText\<close>, \<open>MiscText\<close>: \<open>utils/misc.cpp\<close> with the binary search of \<open>db/keywords.c\<close>: what is quoted is
    read back by the server's rules, elements of lists are found again, times and HTML denote what they
    should. The server's keywords are a parameter (their header is not part of the sources).
  \<^item> \<open>ConfText\<close>, \<open>HbaConfig\<close>, \<open>HbaEditor\<close>: lines of configuration files; \<open>pgHbaConfigLine\<close>, \<open>frm/frmHbaConfig.cpp\<close> and
    \<open>dlg/dlgHbaConfig.cpp\<close>. \<open>PgPass\<close>: \<open>pgPassConfigLine\<close>, \<open>frm/frmPgpassConfig.cpp\<close>, \<open>dlg/dlgPgpassConfig.cpp\<close>.
    \<open>MainConfig\<close>, \<open>MainConfigEdit\<close>, \<open>SettingsReader\<close>: \<open>pgSettingItem\<close>, \<open>pgConfigLine\<close>, the readers of settings,
    \<open>frm/frmMainConfig.cpp\<close>, \<open>dlg/dlgMainConfig.cpp\<close>. A \<open>pg_hba.conf\<close> that is opened and saved keeps its text if its lines end in LF or CR LF (a lone CR
    becomes CR LF); an edit of \<open>postgresql.conf\<close> changes its own line only; the windows' lists stay in step with the lines of the file. Pointers
    between settings and lines are names and indices; what reads past the end of a text is \<open>None\<close>.

  \<^bold>\<open>Not modelled.\<close> The buffers of the scanner; the Newton
  iteration of the MAPM reciprocal and its elementary functions; memory management and reference counting; what the
  output holds while a script is still running. The other panes of the status window; the
  parts of \<open>misc.cpp\<close> that call the system; the order of the list and the hints of
  \<open>frmMainConfig\<close>; undo, delete and edit of \<open>frmPgpassConfig\<close>, which repeat those of \<open>frmHbaConfig\<close>. The rest of
  pgAdmin: widgets, the schema browser, the designer, the debugger, vendored libraries and libpq.
\<close>

end
